(* ===== verification/Prelude.thy ===== *)
theory Prelude
  imports Main "HOL-Library.Word" "HOL-Library.Signed_Division"
begin

text \<open>
  Shared ground of the development: C strings and characters, the decimal conversions of
  the C library that the sources call (\<open>strtol\<close>, the \<open>%d\<close> conversions of \<open>snprintf\<close>), and the
  lemmas about them.

  A C string is the list of its characters without the terminating NUL. A pointer into a
  string is the suffix it points to, so that \<open>*c\<close> is \<open>peek c\<close> (NUL at the end of the string)
  and \<open>c++\<close> is \<open>tl c\<close>. The integers of the code are \<open>int\<close>; where the code computes in
  \<open>unsigned int\<close> and relies on wrapping they are \<open>32 word\<close>. C division truncates towards
  zero: it is \<open>sdiv\<close> and \<open>smod\<close>.
\<close>

unbundle bit_operations_syntax

type_synonym u32 = "32 word"

section \<open>Characters and strings\<close>

definition NUL :: char where
  "NUL = CHR 0x00"

text \<open>\<open>code c\<close> is the value of a character in the comparisons of the sources.\<close>

abbreviation code :: "char \<Rightarrow> nat" where
  "code c \<equiv> of_char c"

definition peek :: "string \<Rightarrow> char" where
  "peek s = (case s of [] \<Rightarrow> NUL | c # _ \<Rightarrow> c)"

definition peek_at :: "nat \<Rightarrow> string \<Rightarrow> char" where
  "peek_at n s = (if n < length s then s ! n else NUL)"

definition is_number :: "char \<Rightarrow> bool" where
  "is_number c \<longleftrightarrow> 48 \<le> code c \<and> code c \<le> 57"

definition is_alphabetic :: "char \<Rightarrow> bool" where
  "is_alphabetic c \<longleftrightarrow> (65 \<le> code c \<and> code c \<le> 90) \<or> (97 \<le> code c \<and> code c \<le> 122)"

text \<open>The bytes of a buffer up to its first NUL.\<close>

definition c_str :: "string \<Rightarrow> string" where
  "c_str bs = takeWhile (\<lambda>c. c \<noteq> NUL) bs"

text \<open>White space as \<open>isspace\<close> has it in the C locale.\<close>

definition is_space :: "char \<Rightarrow> bool" where
  "is_space c \<longleftrightarrow> code c = 32 \<or> (9 \<le> code c \<and> code c \<le> 13)"

definition no_nul :: "string \<Rightarrow> bool" where
  "no_nul s \<longleftrightarrow> list_all (\<lambda>c. c \<noteq> NUL) s"

lemma c_str_append: "c_str (s @ r) = (if NUL \<in> set s then c_str s else s @ c_str r)"
  by (induction s) (auto simp: c_str_def)

lemma c_str_no_nul: "NUL \<notin> set s \<Longrightarrow> c_str s = s"
  using c_str_append [of s "[]"] by (auto simp: c_str_def)

lemma length_c_str: "length (c_str s) \<le> length s"
  by (simp add: c_str_def length_takeWhile_le)

lemma peek_simps [simp]: "peek [] = NUL" "peek (c # s) = c"
  by (simp_all add: peek_def)

lemma peek_at_simps [simp]:
  "peek_at n [] = NUL" "peek_at 0 (c # s) = c" "peek_at (Suc n) (c # s) = peek_at n s"
  by (simp_all add: peek_at_def)

lemma peek_at_numeral [simp]: "peek_at (numeral k) (c # s) = peek_at (pred_numeral k) s"
  by (simp add: numeral_eq_Suc)

lemma peek_at_one [simp]: "peek_at 1 (c # s) = peek_at 0 s"
  by (simp add: One_nat_def del: One_nat_def [symmetric])

lemma is_number_NUL [simp]: "\<not> is_number NUL"
  by (simp add: is_number_def NUL_def)

lemma is_number_space [simp]: "is_number c \<Longrightarrow> \<not> is_space c"
  by (auto simp: is_number_def is_space_def)

lemma is_number_not_alphabetic [simp]: "is_number c \<Longrightarrow> \<not> is_alphabetic c"
  by (auto simp: is_number_def is_alphabetic_def)

lemma is_number_neq: "is_number c \<Longrightarrow> \<not> is_number d \<Longrightarrow> c \<noteq> d"
  by auto

lemma not_number_punct [simp]:
  "\<not> is_number CHR ''-''" "\<not> is_number CHR ''+''" "\<not> is_number CHR '':''"
  "\<not> is_number CHR ''.''" "\<not> is_number CHR '',''" "\<not> is_number CHR '' ''"
  "\<not> is_number CHR ''T''" "\<not> is_number CHR ''t''"
  by (simp_all add: is_number_def)

lemma number_neq_punct [simp]:
  assumes "is_number c"
  shows "c \<noteq> CHR ''-''" "c \<noteq> CHR ''+''" "c \<noteq> CHR '':''" "c \<noteq> CHR ''.''" "c \<noteq> CHR '',''"
    "c \<noteq> CHR '' ''" "c \<noteq> CHR ''T''" "c \<noteq> CHR ''t''" "c \<noteq> NUL"
  using assms by auto

section \<open>Decimal digits\<close>

definition digit_char :: "nat \<Rightarrow> char" where
  "digit_char n = char_of (48 + n)"

definition digit_val :: "char \<Rightarrow> nat" where
  "digit_val c = code c - 48"

definition nat_of_digits :: "string \<Rightarrow> nat" where
  "nat_of_digits s = foldl (\<lambda>a c. 10 * a + digit_val c) 0 s"

text \<open>The decimal digits of a number, as \<open>%d\<close> and \<open>%u\<close> print them.\<close>

fun show_nat :: "nat \<Rightarrow> string" where
  "show_nat n = (if n < 10 then [digit_char n] else show_nat (n div 10) @ [digit_char (n mod 10)])"

declare show_nat.simps [simp del]

definition show_int :: "int \<Rightarrow> string" where
  "show_int i = (if i < 0 then CHR ''-'' # show_nat (nat (- i)) else show_nat (nat i))"

text \<open>\<open>%0<w>d\<close>: zeros are inserted after the sign until the field has \<open>w\<close> characters.\<close>

definition show_padded :: "nat \<Rightarrow> int \<Rightarrow> string" where
  "show_padded w i =
     (let ds = show_nat (nat \<bar>i\<bar>); sg = (if i < 0 then ''-'' else [])
      in sg @ replicate (w - length sg - length ds) CHR ''0'' @ ds)"

lemma digit_val_char [simp]: "n < 10 \<Longrightarrow> digit_val (digit_char n) = n"
  by (simp add: digit_val_def digit_char_def)

lemma is_number_digit_char [simp]: "n < 10 \<Longrightarrow> is_number (digit_char n)"
  by (simp add: is_number_def digit_char_def)

lemma digit_char_zero: "digit_char 0 = CHR ''0''"
  by code_simp

lemma digit_val_zero [simp]: "digit_val CHR ''0'' = 0"
  by (simp add: digit_val_def)

lemma is_number_zero [simp]: "is_number CHR ''0''"
  by (simp add: is_number_def)

lemma digit_val_bound: "is_number c \<Longrightarrow> digit_val c < 10"
  by (auto simp: is_number_def digit_val_def)

lemma digit_char_val: "is_number c \<Longrightarrow> digit_char (digit_val c) = c"
  by (simp add: is_number_def digit_char_def digit_val_def)

lemma nat_of_digits_Nil [simp]: "nat_of_digits [] = 0"
  by (simp add: nat_of_digits_def)

lemma nat_of_digits_snoc [simp]: "nat_of_digits (s @ [c]) = 10 * nat_of_digits s + digit_val c"
  by (simp add: nat_of_digits_def)

lemma nat_of_digits_append:
  "nat_of_digits (s @ t) = nat_of_digits s * 10 ^ length t + nat_of_digits t"
  by (induction t rule: rev_induct) (simp_all add: algebra_simps flip: append_assoc)

lemma nat_of_digits_single [simp]: "nat_of_digits [c] = digit_val c"
  by (simp add: nat_of_digits_def)

lemma nat_of_digits_Cons:
  "nat_of_digits (c # s) = digit_val c * 10 ^ length s + nat_of_digits s"
  using nat_of_digits_append [of "[c]" s] by simp

lemma nat_of_digits_zeros [simp]: "nat_of_digits (replicate n CHR ''0'' @ s) = nat_of_digits s"
  by (induction n) (simp_all add: nat_of_digits_Cons)

lemma nat_of_digits_bound: "list_all is_number s \<Longrightarrow> nat_of_digits s < 10 ^ length s"
proof (induction s rule: rev_induct)
  case (snoc c s)
  then have "nat_of_digits s < 10 ^ length s" "digit_val c < 10"
    by (auto intro: digit_val_bound)
  then show ?case by simp
qed simp

lemma show_nat_small: "n < 10 \<Longrightarrow> show_nat n = [digit_char n]"
  by (subst show_nat.simps) simp

lemma show_nat_step: "\<not> n < 10 \<Longrightarrow> show_nat n = show_nat (n div 10) @ [digit_char (n mod 10)]"
  by (subst show_nat.simps) simp

lemma show_nat_digits [simp]: "list_all is_number (show_nat n)"
proof (induction n rule: show_nat.induct)
  case (1 n)
  then show ?case
    by (cases "n < 10") (simp_all add: show_nat_small show_nat_step)
qed

lemma show_nat_nonempty [simp]: "show_nat n \<noteq> []"
  by (subst show_nat.simps) simp

lemma nat_of_digits_show_nat [simp]: "nat_of_digits (show_nat n) = n"
proof (induction n rule: show_nat.induct)
  case (1 n)
  then show ?case
    by (cases "n < 10") (simp_all add: show_nat_small show_nat_step)
qed

lemma length_show_nat_less: "n < 10 ^ Suc k \<Longrightarrow> length (show_nat n) \<le> Suc k"
proof (induction k arbitrary: n)
  case 0
  then show ?case by (subst show_nat.simps) simp
next
  case (Suc k)
  then have "n div 10 < 10 ^ Suc k" by (auto simp: less_mult_imp_div_less)
  then have "length (show_nat (n div 10)) \<le> Suc k" by (rule Suc.IH)
  then show ?case by (subst show_nat.simps) auto
qed

lemma length_show_nat_1: "n < 10 \<Longrightarrow> length (show_nat n) = 1"
  by (subst show_nat.simps) simp

lemma length_show_nat_2: "n < 100 \<Longrightarrow> length (show_nat n) \<le> 2"
  using length_show_nat_less [of n 1] by simp

lemma length_show_nat_4: "n < 10000 \<Longrightarrow> length (show_nat n) \<le> 4"
  using length_show_nat_less [of n 3] by simp

lemma length_show_nat_9: "n < 1000000000 \<Longrightarrow> length (show_nat n) \<le> 9"
  using length_show_nat_less [of n 8] by simp

lemma length_show_nat_pos [simp]: "0 < length (show_nat n)"
  by simp

lemma show_nat_inject [simp]: "show_nat m = show_nat n \<longleftrightarrow> m = n"
  by (metis nat_of_digits_show_nat)

lemma digits_unique:
  assumes "list_all is_number a" "list_all is_number b" "length a = length b" "nat_of_digits a = nat_of_digits b"
  shows "a = b"
  using assms
proof (induction a arbitrary: b rule: rev_induct)
  case (snoc c a)
  then obtain d e where b: "b = e @ [d]" by (cases b rule: rev_cases) auto
  then have v: "digit_val c < 10" "digit_val d < 10" "is_number c" "is_number d"
    using snoc.prems by (auto intro: digit_val_bound)
  have "10 * nat_of_digits a + digit_val c = 10 * nat_of_digits e + digit_val d"
    using snoc.prems(4) b by simp
  then have "nat_of_digits a = nat_of_digits e \<and> digit_val c = digit_val d"
    using v(1,2) by presburger
  moreover from this v have "c = d" by (metis digit_char_val)
  ultimately show ?case using snoc b by auto
qed simp

lemma show_nat_of_digits:
  assumes "list_all is_number ds" "ds \<noteq> []" "hd ds \<noteq> CHR ''0'' \<or> length ds = 1"
  shows "show_nat (nat_of_digits ds) = ds"
  using assms
proof (induction ds rule: rev_induct)
  case (snoc c ds)
  then have c: "is_number c" "digit_val c < 10" by (auto intro: digit_val_bound)
  show ?case
  proof (cases "ds = []")
    case True
    with c show ?thesis by (simp add: show_nat_small digit_char_val)
  next
    case False
    then obtain x r where r: "ds = x # r" by (cases ds) auto
    with snoc.prems False have x: "x \<noteq> CHR ''0''" "is_number x" by auto
    have "digit_val x \<noteq> 0"
    proof
      assume "digit_val x = 0"
      with digit_char_val [OF x(2)] x(1) show False by (simp add: digit_char_zero)
    qed
    then have "1 \<le> digit_val x * 10 ^ length r" by simp
    then have "1 \<le> nat_of_digits ds" unfolding r nat_of_digits_Cons by (rule trans_le_add1)
    moreover have "show_nat (nat_of_digits ds) = ds" using snoc False r x by auto
    ultimately show ?thesis using c by (subst show_nat_step) (auto simp: digit_char_val)
  qed
qed simp

lemma show_nat_hd: "1 \<le> n \<Longrightarrow> hd (show_nat n) \<noteq> CHR ''0''"
proof (induction n rule: show_nat.induct)
  case (1 n)
  show ?case
  proof (cases "n < 10")
    case True
    then have "digit_val (digit_char n) \<noteq> digit_val CHR ''0''" using 1 by simp
    with True show ?thesis by (auto simp: show_nat_small simp del: digit_val_char digit_val_zero)
  next
    case False
    then have "hd (show_nat (n div 10)) \<noteq> CHR ''0''" using 1 by simp
    with False show ?thesis by (simp add: show_nat_step)
  qed
qed

lemma show_nat_append:
  assumes "1 \<le> n" "list_all is_number ds"
  shows "show_nat n @ ds = show_nat (n * 10 ^ length ds + nat_of_digits ds)"
  using assms show_nat_of_digits [of "show_nat n @ ds"] show_nat_hd [of n]
  by (simp add: nat_of_digits_append)

text \<open>Code equations that compute the conversions over binary integers.\<close>

function show_digits :: "int \<Rightarrow> string" where
  "show_digits i = (if i < 10 then [digit_char (nat i)]
     else show_digits (i div 10) @ [digit_char (nat (i mod 10))])"
  by pat_completeness auto
termination by (relation "measure nat") auto

declare show_digits.simps [simp del]

lemma show_nat_show_digits: "0 \<le> i \<Longrightarrow> show_nat (nat i) = show_digits i"
proof (induction i rule: show_digits.induct)
  case (1 i)
  show ?case
  proof (cases "i < 10")
    case True
    with 1 show ?thesis by (simp add: show_nat_small show_digits.simps [of i])
  next
    case False
    with 1 have "show_nat (nat i) = show_nat (nat (i div 10)) @ [digit_char (nat (i mod 10))]"
      by (simp add: show_nat_step nat_div_distrib nat_mod_distrib)
    with False 1 show ?thesis by (simp add: show_digits.simps [of i])
  qed
qed

lemma show_int_code [code]:
  "show_int i = (if i < 0 then CHR ''-'' # show_digits (- i) else show_digits i)"
  by (simp add: show_int_def show_nat_show_digits)

lemma show_padded_code [code]:
  "show_padded w i =
     (let ds = show_digits \<bar>i\<bar>; sg = (if i < 0 then ''-'' else [])
      in sg @ replicate (w - length sg - length ds) CHR ''0'' @ ds)"
  by (simp add: show_padded_def show_nat_show_digits)

lemma show_nat_hd_number [simp]: "is_number (hd (show_nat n))"
  using show_nat_digits [of n] show_nat_nonempty [of n]
  by (metis list.set_sel(1) list_all_iff)

section \<open>The string conversions of the C library\<close>

definition LONG_MAX :: int where "LONG_MAX = 9223372036854775807"
definition LONG_MIN :: int where "LONG_MIN = - 9223372036854775808"
definition INT_MAX :: int where "INT_MAX = 2147483647"
definition INT_MIN :: int where "INT_MIN = - 2147483648"

text \<open>
  \<open>strtol (s, NULL, 10)\<close>: leading white space, an optional sign, then the longest run of
  digits (0 when there is none); a value outside \<open>long\<close> saturates. The second component
  says that the call sets \<open>errno\<close> to \<open>ERANGE\<close>; a call that does not leaves \<open>errno\<close> alone.
\<close>

definition signed_digits :: "string \<Rightarrow> int" where
  "signed_digits s =
     (if peek s = CHR ''-'' then - int (nat_of_digits (takeWhile is_number (tl s)))
      else if peek s = CHR ''+'' then int (nat_of_digits (takeWhile is_number (tl s)))
      else int (nat_of_digits (takeWhile is_number s)))"

definition strtol :: "string \<Rightarrow> int \<times> bool" where
  "strtol s =
     (let v = signed_digits (dropWhile is_space s)
      in if LONG_MAX < v then (LONG_MAX, True) else if v < LONG_MIN then (LONG_MIN, True) else (v, False))"

lemma nat_of_digits_foldl: "int (nat_of_digits s) = foldl (\<lambda>a c. 10 * a + int (digit_val c)) 0 s"
  by (induction s rule: rev_induct) simp_all

lemma signed_digits_code [code]:
  "signed_digits s =
     (let num = foldl (\<lambda>a c. 10 * a + int (digit_val c)) 0
      in if peek s = CHR ''-'' then - num (takeWhile is_number (tl s))
         else if peek s = CHR ''+'' then num (takeWhile is_number (tl s))
         else num (takeWhile is_number s))"
  by (simp add: signed_digits_def nat_of_digits_foldl)

lemma takeWhile_digits_append [simp]:
  "list_all is_number ds \<Longrightarrow> takeWhile is_number (ds @ s) = ds @ takeWhile is_number s"
  by (induction ds) auto

lemma dropWhile_digits_append [simp]:
  "list_all is_number ds \<Longrightarrow> dropWhile is_number (ds @ s) = dropWhile is_number s"
  by (induction ds) auto

lemma takeWhile_digits [simp]: "list_all is_number ds \<Longrightarrow> takeWhile is_number ds = ds"
  by (induction ds) auto

lemma signed_digits_digits:
  assumes "list_all is_number ds" "ds \<noteq> []"
  shows "signed_digits ds = int (nat_of_digits ds)"
proof -
  from assms obtain c r where "ds = c # r" by (cases ds) auto
  with assms have "peek ds = c" "is_number c" by auto
  then have "peek ds \<noteq> CHR ''-''" "peek ds \<noteq> CHR ''+''" by auto
  with assms show ?thesis by (simp add: signed_digits_def)
qed

lemma strtol_digits:
  assumes "list_all is_number ds" "ds \<noteq> []" "int (nat_of_digits ds) \<le> LONG_MAX"
  shows "strtol ds = (int (nat_of_digits ds), False)"
proof -
  from assms obtain c r where ds: "ds = c # r" by (cases ds) auto
  with assms have "dropWhile is_space ds = ds" by auto
  with assms signed_digits_digits [of ds] show ?thesis
    by (simp add: strtol_def LONG_MIN_def)
qed

lemma strtol_range: "fst (strtol s) \<le> LONG_MAX \<and> LONG_MIN \<le> fst (strtol s)"
  by (auto simp: strtol_def Let_def LONG_MAX_def LONG_MIN_def)

lemma show_padded_nonneg:
  "0 \<le> i \<Longrightarrow> show_padded w i = replicate (w - length (show_nat (nat i))) CHR ''0'' @ show_nat (nat i)"
  by (simp add: show_padded_def Let_def)

lemma show_padded_digits: "0 \<le> i \<Longrightarrow> list_all is_number (show_padded w i)"
  using show_nat_digits [of "nat i"] by (auto simp: show_padded_nonneg list_all_iff)

lemma nat_of_digits_show_padded: "0 \<le> i \<Longrightarrow> nat_of_digits (show_padded w i) = nat i"
  by (simp add: show_padded_nonneg)

lemma length_show_padded:
  "0 \<le> i \<Longrightarrow> length (show_nat (nat i)) \<le> w \<Longrightarrow> length (show_padded w i) = w"
  by (simp add: show_padded_nonneg)

lemma length_show_int_2: "0 \<le> i \<Longrightarrow> i < 100 \<Longrightarrow> length (show_int i) \<le> 2"
  by (simp add: show_int_def length_show_nat_2)

end
