(* ===== verification/CTime.thy ===== *)
theory CTime
  imports Prelude
begin

text \<open>
  The part of the C library's \<open><time.h>\<close> that the date and time functions of Octo call:
  \<open>struct tm\<close>, \<open>gmtime\<close>, \<open>mktime\<close> with the time zone set to UTC (which is \<open>timegm\<close>), and
  \<open>localtime\<close> over a table of UTC offsets. The calendar is the proleptic Gregorian one.

  The locale \<open>calendar\<close> states what the callers rely on: \<open>gmtime\<close> splits a time into fields,
  \<open>timegm\<close> is its inverse and is linear in every field but the month and the year, because
  it normalises fields that are out of range. The date arithmetic of the code is proved
  inside that locale and interpreted on the definitions of this theory.
\<close>

section \<open>The Gregorian calendar\<close>

record tm =
  tm_sec :: int
  tm_min :: int
  tm_hour :: int
  tm_mday :: int
  tm_mon :: int
  tm_year :: int
  tm_wday :: int
  tm_yday :: int
  tm_gmtoff :: int
  tm_isdst :: int

definition tm_zero :: tm where
  "tm_zero = \<lparr>tm_sec = 0, tm_min = 0, tm_hour = 0, tm_mday = 0, tm_mon = 0, tm_year = 0,
     tm_wday = 0, tm_yday = 0, tm_gmtoff = 0, tm_isdst = 0\<rparr>"

definition leap :: "int \<Rightarrow> bool" where
  "leap y \<longleftrightarrow> y mod 4 = 0 \<and> (y mod 100 \<noteq> 0 \<or> y mod 400 = 0)"

definition year_len :: "int \<Rightarrow> int" where
  "year_len y = (if leap y then 366 else 365)"

text \<open>Days from 1 January of year 1 to 1 January of year \<open>y\<close>.\<close>

definition year_start :: "int \<Rightarrow> int" where
  "year_start y = 365 * (y - 1) + (y - 1) div 4 - (y - 1) div 100 + (y - 1) div 400"

text \<open>Days from 1 January to the first day of month \<open>m\<close> (0 is January).\<close>

definition month_start :: "bool \<Rightarrow> int \<Rightarrow> int" where
  "month_start l m =
     (let k = (if l then 1 else 0)
      in if m \<le> 0 then 0 else if m = 1 then 31 else if m = 2 then 59 + k else if m = 3 then 90 + k
         else if m = 4 then 120 + k else if m = 5 then 151 + k else if m = 6 then 181 + k
         else if m = 7 then 212 + k else if m = 8 then 243 + k else if m = 9 then 273 + k
         else if m = 10 then 304 + k else if m = 11 then 334 + k else 365 + k)"

definition month_len :: "bool \<Rightarrow> int \<Rightarrow> int" where
  "month_len l m = month_start l (m + 1) - month_start l m"

definition month_of :: "bool \<Rightarrow> int \<Rightarrow> int" where
  "month_of l d =
     (if d < month_start l 1 then 0 else if d < month_start l 2 then 1
      else if d < month_start l 3 then 2 else if d < month_start l 4 then 3
      else if d < month_start l 5 then 4 else if d < month_start l 6 then 5
      else if d < month_start l 7 then 6 else if d < month_start l 8 then 7
      else if d < month_start l 9 then 8 else if d < month_start l 10 then 9
      else if d < month_start l 11 then 10 else 11)"

text \<open>The year of a day number: an estimate that is off by one at most, then corrected.\<close>

definition year_of :: "int \<Rightarrow> int" where
  "year_of n =
     (let y = (400 * n) div 146097 + 1
      in if n < year_start y then y - 1 else if year_start (y + 1) \<le> n then y + 1 else y)"

definition valid_date :: "int \<Rightarrow> int \<Rightarrow> int \<Rightarrow> bool" where
  "valid_date y m d \<longleftrightarrow> 0 \<le> m \<and> m \<le> 11 \<and> 1 \<le> d \<and> d \<le> month_len (leap y) m"

definition day_number :: "int \<Rightarrow> int \<Rightarrow> int \<Rightarrow> int" where
  "day_number y m d = year_start y + month_start (leap y) m + d - 1"

lemma div_pred_int:
  assumes "0 < (k::int)"
  shows "y div k - (y - 1) div k = (if k dvd y then 1 else 0)"
proof -
  define q where "q = y div k"
  define r where "r = y mod k"
  have y: "y = k * q + r" "0 \<le> r" "r < k"
    using assms by (simp_all add: q_def r_def)
  show ?thesis
  proof (cases "r = 0")
    case True
    have "(y - 1) div k = q - 1"
      using assms True y(1) by (intro int_div_pos_eq [where r = "k - 1"]) (simp_all add: algebra_simps)
    with True show ?thesis by (simp add: r_def q_def dvd_eq_mod_eq_0)
  next
    case False
    have "(y - 1) div k = q"
      using False y by (intro int_div_pos_eq [where r = "r - 1"]) auto
    with False show ?thesis by (simp add: r_def q_def dvd_eq_mod_eq_0)
  qed
qed

lemma year_start_Suc: "year_start (y + 1) = year_start y + year_len y"
proof -
  have "year_start (y + 1) - year_start y
    = 365 + (y div 4 - (y - 1) div 4) - (y div 100 - (y - 1) div 100) + (y div 400 - (y - 1) div 400)"
    by (simp add: year_start_def)
  also have "\<dots> = 365 + (if 4 dvd y then 1 else 0) - (if 100 dvd y then 1 else 0)
      + (if 400 dvd y then 1 else 0)"
    by (simp only: div_pred_int zero_less_numeral)
  also have "\<dots> = year_len y"
  proof -
    have cases: "365 + (if a then 1 else 0) - (if b then 1 else 0) + (if c then 1 else 0)
        = (if a \<and> (\<not> b \<or> c) then 366 else 365 :: int)" if "c \<longrightarrow> b" "b \<longrightarrow> a" for a b c
      using that by (cases a; cases b; cases c) simp_all
    have "400 dvd y \<longrightarrow> 100 dvd y" "100 dvd y \<longrightarrow> 4 dvd y"
      by (rule impI, erule dvd_trans [rotated], simp)+
    from cases [OF this] show ?thesis
      by (simp only: year_len_def leap_def mod_eq_0_iff_dvd)
  qed
  finally show ?thesis by simp
qed

lemma year_start_pred: "year_start y = year_start (y - 1) + year_len (y - 1)"
  using year_start_Suc [of "y - 1"] by simp

lemma year_len_bounds: "365 \<le> year_len y" "year_len y \<le> 366"
  by (simp_all add: year_len_def)

lemma year_start_mono: "y \<le> z \<Longrightarrow> year_start y \<le> year_start z"
proof (induction z rule: int_ge_induct)
  case (step z)
  then show ?case using year_start_Suc [of z] year_len_bounds [of z] by simp
qed simp

lemma year_start_linear:
  "146097 * (y - 1) - 699 \<le> 400 * year_start y" "400 * year_start y \<le> 146097 * (y - 1) + 396"
proof -
  define z where "z = y - 1"
  have "z - 3 \<le> 4 * (z div 4)" "4 * (z div 4) \<le> z" "z - 99 \<le> 100 * (z div 100)"
    "100 * (z div 100) \<le> z" "z - 399 \<le> 400 * (z div 400)" "400 * (z div 400) \<le> z"
    by presburger+
  then show "146097 * (y - 1) - 699 \<le> 400 * year_start y"
    "400 * year_start y \<le> 146097 * (y - 1) + 396"
    by (simp_all add: year_start_def flip: z_def)
qed

lemma year_of_correct: "year_start (year_of n) \<le> n \<and> n < year_start (year_of n + 1)"
proof -
  define q where "q = (400 * n) div 146097"
  have q: "146097 * q \<le> 400 * n" "400 * n < 146097 * q + 146097"
    using mult_div_mod_eq [of 146097 "400 * n"] pos_mod_bound [of 146097 "400 * n"]
      pos_mod_sign [of 146097 "400 * n"] unfolding q_def by linarith+
  have "year_start q \<le> n"
    using year_start_linear(2) [of q] q by (simp add: algebra_simps)
  moreover have "n < year_start (q + 3)"
    using year_start_linear(1) [of "q + 3"] q by (simp add: algebra_simps)
  moreover have "year_of n = (if n < year_start (q + 1) then q else if year_start (q + 2) \<le> n then q + 2 else q + 1)"
    by (simp add: year_of_def Let_def add.assoc flip: q_def)
  ultimately show ?thesis
    by (simp add: add.assoc)
qed

lemma year_of_unique:
  assumes "year_start y \<le> n" "n < year_start (y + 1)"
  shows "year_of n = y"
proof -
  have "\<not> y < year_of n" using year_start_mono [of "y + 1" "year_of n"] year_of_correct [of n] assms by auto
  moreover have "\<not> year_of n < y" using year_start_mono [of "year_of n + 1" y] year_of_correct [of n] assms by auto
  ultimately show ?thesis by simp
qed

lemma year_of_day:
  assumes "0 \<le> d" "d < year_len y"
  shows "year_of (year_start y + d) = y"
  using assms year_start_Suc [of y] by (intro year_of_unique) auto

lemma month_start_ends: "month_start l 0 = 0" "month_start l 12 = (if l then 366 else 365)"
  by (simp_all add: month_start_def)

lemma month_of_correct:
  assumes "0 \<le> d" "d < (if l then 366 else 365)"
  shows "0 \<le> month_of l d" "month_of l d \<le> 11"
    "month_start l (month_of l d) \<le> d" "d < month_start l (month_of l d + 1)"
  using assms month_start_ends [of l] by (simp_all add: month_of_def)

lemma int_le_11_cases:
  assumes "0 \<le> (m::int)" "m \<le> 11"
  obtains "m = 0" | "m = 1" | "m = 2" | "m = 3" | "m = 4" | "m = 5" | "m = 6" | "m = 7"
    | "m = 8" | "m = 9" | "m = 10" | "m = 11"
  using assms by atomize_elim presburger

lemma month_of_unique:
  assumes "0 \<le> m" "m \<le> 11" "month_start l m \<le> d" "d < month_start l (m + 1)"
  shows "month_of l d = m"
  using assms(1,2)
  by (cases m rule: int_le_11_cases) (use assms(3,4) in \<open>auto simp: month_of_def month_start_def Let_def split: if_splits\<close>)

lemma month_start_bounds:
  assumes "0 \<le> m" "m \<le> 11"
  shows "0 \<le> month_start l m" "month_start l (m + 1) \<le> (if l then 366 else 365)"
    "month_start l m < month_start l (m + 1)"
  using assms by (cases m rule: int_le_11_cases; simp add: month_start_def)+

lemma month_len_cases:
  assumes "0 \<le> m" "m \<le> 11"
  shows "month_len l m =
    (if m = 1 then (if l then 29 else 28) else if m \<in> {3, 5, 8, 10} then 30 else 31)"
  using assms by (cases m rule: int_le_11_cases) (simp_all add: month_len_def month_start_def)

lemma valid_date_yday:
  assumes "valid_date y m d"
  shows "0 \<le> month_start (leap y) m + d - 1" "month_start (leap y) m + d - 1 < year_len y"
  using assms month_start_bounds [of m "leap y"]
  by (auto simp: valid_date_def month_len_def year_len_def split: if_splits)

lemma valid_date_year_of: "valid_date y m d \<Longrightarrow> year_of (day_number y m d) = y"
  using year_of_day [of "month_start (leap y) m + d - 1" y] valid_date_yday [of y m d]
  by (simp add: day_number_def algebra_simps)

section \<open>Times and fields\<close>

definition epoch_day :: int where
  "epoch_day = 719162" \<comment> \<open>1 January 1970, counted from 1 January of year 1\<close>

definition gmtime :: "int \<Rightarrow> tm" where
  "gmtime t =
     (let n = t div 86400 + epoch_day; s = t mod 86400; y = year_of n; yd = n - year_start y;
          m = month_of (leap y) yd
      in \<lparr>tm_sec = s mod 60, tm_min = s div 60 mod 60, tm_hour = s div 3600,
          tm_mday = yd - month_start (leap y) m + 1, tm_mon = m, tm_year = y - 1900,
          tm_wday = (n + 1) mod 7, tm_yday = yd, tm_gmtoff = 0, tm_isdst = 0\<rparr>)"

definition timegm :: "tm \<Rightarrow> int" where
  "timegm t =
     (let y = tm_year t + 1900 + tm_mon t div 12; m = tm_mon t mod 12
      in (year_start y + month_start (leap y) m + tm_mday t - 1 - epoch_day) * 86400
         + tm_hour t * 3600 + tm_min t * 60 + tm_sec t)"

text \<open>
  The environment of the process: the offset of local time from UTC in effect at a UTC instant
  and whether it is daylight saving time, the inverse that \<open>mktime\<close> computes from
  \<open>tm_isdst\<close> and the local civil seconds, and the current time. They come from the system's time
  zone database and clock.
\<close>

record clock_env =
  utc_offset :: "int \<Rightarrow> int"
  is_dst :: "int \<Rightarrow> int"
  local_to_utc :: "int \<Rightarrow> int \<Rightarrow> int"
  now :: int

definition localtime :: "clock_env \<Rightarrow> int \<Rightarrow> tm" where
  "localtime env t = (gmtime (t + utc_offset env t))\<lparr>tm_gmtoff := utc_offset env t, tm_isdst := is_dst env t\<rparr>"

text \<open>\<open>mktime\<close> also normalises its argument: the fields become those of the result.\<close>

definition mktime :: "clock_env \<Rightarrow> tm \<Rightarrow> int" where
  "mktime env t = local_to_utc env (tm_isdst t) (timegm t)"

definition mktime_tm :: "clock_env \<Rightarrow> tm \<Rightarrow> tm" where
  "mktime_tm env t = localtime env (mktime env t)"

text \<open>A zone without daylight saving time; the offset 0 is UTC.\<close>

definition fixed_zone :: "int \<Rightarrow> int \<Rightarrow> clock_env" where
  "fixed_zone off t = \<lparr>utc_offset = (\<lambda>_. off), is_dst = (\<lambda>_. 0), local_to_utc = (\<lambda>_ s. s - off), now = t\<rparr>"

text \<open>Seconds of the day, and a midnight.\<close>

abbreviation tod :: "tm \<Rightarrow> int" where
  "tod t \<equiv> tm_hour t * 3600 + tm_min t * 60 + tm_sec t"

section \<open>The contract of the calendar\<close>

locale calendar =
  fixes gm :: "int \<Rightarrow> tm" and mk :: "tm \<Rightarrow> int"
  assumes mk_gm: "mk (gm t) = t"
    and gm_tod: "tod (gm t) = t mod 86400"
    and gm_hour: "0 \<le> tm_hour (gm t)" "tm_hour (gm t) \<le> 23"
    and gm_min: "0 \<le> tm_min (gm t)" "tm_min (gm t) \<le> 59"
    and gm_sec: "0 \<le> tm_sec (gm t)" "tm_sec (gm t) \<le> 59"
    and gm_mday: "1 \<le> tm_mday (gm t)" "tm_mday (gm t) \<le> 31"
    and mk_time: "mk (u\<lparr>tm_sec := s, tm_min := mi, tm_hour := h\<rparr>)
      = mk u - tod u + h * 3600 + mi * 60 + s"
    and mk_day: "mk (u\<lparr>tm_mday := d\<rparr>) = mk u + (d - tm_mday u) * 86400"
begin

lemma midnight: "mk ((gm t)\<lparr>tm_sec := 0, tm_min := 0, tm_hour := 0\<rparr>) = t - t mod 86400"
  by (simp add: mk_time mk_gm gm_tod)

lemma shift_days: "mk ((gm t)\<lparr>tm_mday := tm_mday (gm t) + n\<rparr>) = t + n * 86400"
  by (simp add: mk_day mk_gm)

lemma shift_time:
  "mk ((gm t)\<lparr>tm_sec := tm_sec (gm t) + s, tm_min := tm_min (gm t) + mi, tm_hour := tm_hour (gm t) + h\<rparr>)
    = t + h * 3600 + mi * 60 + s"
  by (simp add: mk_time mk_gm algebra_simps)

lemma same_time: "mk u = mk (gm t) \<Longrightarrow> mk u = t"
  by (simp add: mk_gm)

lemma gm_inject: "gm s = gm t \<longleftrightarrow> s = t"
  by (metis mk_gm)

end

lemma timegm_fields:
  "timegm (u\<lparr>tm_sec := s, tm_min := mi, tm_hour := h\<rparr>) = timegm u - tod u + h * 3600 + mi * 60 + s"
  by (simp add: timegm_def Let_def)

lemma timegm_mday: "timegm (u\<lparr>tm_mday := d\<rparr>) = timegm u + (d - tm_mday u) * 86400"
  by (simp add: timegm_def Let_def algebra_simps)

lemma gmtime_date:
  fixes t defines "n \<equiv> t div 86400 + epoch_day"
  shows "valid_date (tm_year (gmtime t) + 1900) (tm_mon (gmtime t)) (tm_mday (gmtime t))"
    "day_number (tm_year (gmtime t) + 1900) (tm_mon (gmtime t)) (tm_mday (gmtime t)) = n"
proof -
  define y where "y = year_of n"
  have yd: "0 \<le> n - year_start y" "n - year_start y < (if leap y then 366 else 365)"
    using year_of_correct [of n] year_start_Suc [of y] by (auto simp: y_def year_len_def)
  show "valid_date (tm_year (gmtime t) + 1900) (tm_mon (gmtime t)) (tm_mday (gmtime t))"
    using month_of_correct [OF yd]
    by (simp add: gmtime_def Let_def valid_date_def month_len_def flip: n_def y_def)
  show "day_number (tm_year (gmtime t) + 1900) (tm_mon (gmtime t)) (tm_mday (gmtime t)) = n"
    by (simp add: gmtime_def Let_def day_number_def flip: n_def y_def)
qed

lemma hms_split: "s div 3600 * 3600 + s div 60 mod 60 * 60 + s mod 60 = (s::int)"
proof -
  have "s div 3600 = s div 60 div 60"
    using zdiv_zmult2_eq [of 60 s 60] by simp
  then show ?thesis
    using mult_div_mod_eq [of 60 s] mult_div_mod_eq [of 60 "s div 60"] by linarith
qed

lemma hms_join:
  assumes "0 \<le> h" "h \<le> 23" "0 \<le> mi" "mi \<le> 59" "0 \<le> s" "s \<le> (59::int)"
  shows "(h * 3600 + mi * 60 + s) div 3600 = h" "(h * 3600 + mi * 60 + s) div 60 mod 60 = mi"
    "(h * 3600 + mi * 60 + s) mod 60 = s"
proof -
  have 60: "(h * 3600 + mi * 60 + s) div 60 = h * 60 + mi"
    using assms by (intro int_div_pos_eq [where r = s]) auto
  show "(h * 3600 + mi * 60 + s) div 3600 = h"
    using assms by (intro int_div_pos_eq [where r = "mi * 60 + s"]) auto
  show "(h * 3600 + mi * 60 + s) div 60 mod 60 = mi"
    unfolding 60 using assms by (intro int_mod_pos_eq [where q = h]) auto
  show "(h * 3600 + mi * 60 + s) mod 60 = s"
    using assms by (intro int_mod_pos_eq [where q = "h * 60 + mi"]) auto
qed

lemma gmtime_hms:
  "tm_hour (gmtime t) = (t mod 86400) div 3600" "tm_min (gmtime t) = (t mod 86400) div 60 mod 60"
  "tm_sec (gmtime t) = (t mod 86400) mod 60"
  by (simp_all only: gmtime_def Let_def tm.select_convs)

lemma gmtime_tod: "tod (gmtime t) = t mod 86400"
  unfolding gmtime_hms by (rule hms_split)

lemma timegm_day_number:
  assumes "0 \<le> tm_mon u" "tm_mon u \<le> 11"
  shows "timegm u = (day_number (tm_year u + 1900) (tm_mon u) (tm_mday u) - epoch_day) * 86400 + tod u"
proof -
  have "tm_mon u div 12 = 0" "tm_mon u mod 12 = tm_mon u"
    using assms by presburger+
  then show ?thesis by (simp add: timegm_def Let_def day_number_def)
qed

lemma timegm_gmtime: "timegm (gmtime t) = t"
proof -
  have "timegm (gmtime t) = t div 86400 * 86400 + t mod 86400"
    using gmtime_date [of t] by (subst timegm_day_number) (auto simp: valid_date_def gmtime_tod)
  then show ?thesis by simp
qed

interpretation utc: calendar gmtime timegm
proof unfold_locales
  fix t :: int
  have "0 \<le> t mod 86400" "t mod 86400 < 86400" by simp_all
  then have "0 \<le> (t mod 86400) div 3600" "(t mod 86400) div 3600 \<le> 23" by linarith+
  then show "0 \<le> tm_hour (gmtime t)" "tm_hour (gmtime t) \<le> 23"
    "0 \<le> tm_min (gmtime t)" "tm_min (gmtime t) \<le> 59" "0 \<le> tm_sec (gmtime t)" "tm_sec (gmtime t) \<le> 59"
    by (simp_all add: gmtime_hms)
  have "month_len l m \<le> 31" if "0 \<le> m" "m \<le> 11" for l m
    using that by (simp add: month_len_cases)
  then show "1 \<le> tm_mday (gmtime t)" "tm_mday (gmtime t) \<le> 31"
    using gmtime_date(1) [of t] by (auto simp: valid_date_def intro: order_trans)
qed (simp_all add: timegm_gmtime gmtime_tod timegm_fields timegm_mday)

lemma gmtime_timegm:
  assumes "valid_date (tm_year u + 1900) (tm_mon u) (tm_mday u)"
    and "0 \<le> tm_hour u" "tm_hour u \<le> 23" "0 \<le> tm_min u" "tm_min u \<le> 59" "0 \<le> tm_sec u" "tm_sec u \<le> 59"
  shows "tm_year (gmtime (timegm u)) = tm_year u" "tm_mon (gmtime (timegm u)) = tm_mon u"
    "tm_mday (gmtime (timegm u)) = tm_mday u" "tm_hour (gmtime (timegm u)) = tm_hour u"
    "tm_min (gmtime (timegm u)) = tm_min u" "tm_sec (gmtime (timegm u)) = tm_sec u"
proof -
  define y where "y = tm_year u + 1900"
  define yd where "yd = month_start (leap y) (tm_mon u) + tm_mday u - 1"
  have d: "timegm u = (year_start y + yd - epoch_day) * 86400 + tod u"
    using assms(1) by (subst timegm_day_number) (auto simp: valid_date_def day_number_def yd_def y_def)
  have t: "0 \<le> tod u" "tod u < 86400" using assms by auto
  have "timegm u = 86400 * (year_start y + yd - epoch_day) + tod u"
    unfolding d by simp
  then have dm: "timegm u div 86400 = year_start y + yd - epoch_day" "timegm u mod 86400 = tod u"
    using t int_div_pos_eq int_mod_pos_eq by blast+
  have y: "year_of (year_start y + yd) = y"
    using valid_date_yday [of y] assms(1) by (intro year_of_day) (auto simp: yd_def y_def)
  have m: "month_of (leap y) yd = tm_mon u"
    using assms(1) by (intro month_of_unique) (auto simp: valid_date_def yd_def y_def month_len_def)
  show "tm_year (gmtime (timegm u)) = tm_year u" "tm_mon (gmtime (timegm u)) = tm_mon u"
    "tm_mday (gmtime (timegm u)) = tm_mday u"
    by (simp_all add: gmtime_def dm(1) y m Let_def) (simp_all add: y_def yd_def)
  have "tod u div 3600 = tm_hour u" "tod u div 60 mod 60 = tm_min u" "tod u mod 60 = tm_sec u"
    by (rule hms_join [OF assms(2-7)])+
  then show "tm_hour (gmtime (timegm u)) = tm_hour u" "tm_min (gmtime (timegm u)) = tm_min u"
    "tm_sec (gmtime (timegm u)) = tm_sec u"
    by (simp_all only: gmtime_hms dm(2))
qed

end
