(* ===== verification/CText.thy ===== *)
theory CText
  imports CTime
begin

text \<open>
  The text conversions of \<open><time.h>\<close> that the sources call, for the C locale:
  \<open>strptime\<close> with the conversions \<open>%Y %m %d %H %M %S %T %z\<close> and \<open>strftime\<close> with the
  conversions that the format functions leave in their intermediate formats.
  \<open>strptime\<close> fills the fields it has matched before a mismatch, so the model returns the
  \<open>struct tm\<close> together with the optional rest of the input (\<open>None\<close> is the NULL result).
\<close>

section \<open>Reading\<close>

fun read_digits :: "int \<Rightarrow> nat \<Rightarrow> int \<Rightarrow> string \<Rightarrow> int \<times> string" where
  "read_digits hi 0 v s = (v, s)"
| "read_digits hi (Suc n) v s =
     (if v * 10 \<le> hi \<and> is_number (peek s) then read_digits hi n (10 * v + int (digit_val (peek s))) (tl s)
      else (v, s))"

definition get_number :: "int \<Rightarrow> int \<Rightarrow> nat \<Rightarrow> string \<Rightarrow> (int \<times> string) option" where
  "get_number lo hi n s =
     (let r = dropWhile (\<lambda>c. c = CHR '' '') s
      in if is_number (peek r)
         then (let (v, r') = read_digits hi (n - 1) (int (digit_val (peek r))) (tl r)
               in if lo \<le> v \<and> v \<le> hi then Some (v, r') else None)
         else None)"

text \<open>The digits of an offset: two or four of them, with a colon allowed in the middle.\<close>

fun read_offset :: "nat \<Rightarrow> nat \<Rightarrow> int \<Rightarrow> string \<Rightarrow> nat \<times> int \<times> string" where
  "read_offset 0 n v s = (n, v, s)"
| "read_offset (Suc k) n v s =
     (if is_number (peek s)
      then (let v' = v * 10 + int (digit_val (peek s)); r = tl s
            in read_offset k (Suc n) v'
                 (if peek r = CHR '':'' \<and> Suc n = 2 \<and> is_number (peek_at 1 r) then tl r else r))
      else (n, v, s))"

definition get_offset :: "string \<Rightarrow> (int \<times> string) option" where
  "get_offset s =
     (let r = dropWhile is_space s
      in if peek r = CHR ''Z'' then Some (0, tl r)
         else if peek r \<noteq> CHR ''+'' \<and> peek r \<noteq> CHR ''-'' then None
         else (let (n, v, r') = read_offset 4 0 0 (tl r);
                   w = (if n = 2 then v * 100 else v);
                   off = (w div 100) * 3600 + (w mod 100) * 60
               in if n \<noteq> 2 \<and> n \<noteq> 4 then None
                  else if n = 4 \<and> 60 \<le> w mod 100 then None
                  else Some (if peek r = CHR ''-'' then - off else off, r')))"

definition strptime_conv :: "char \<Rightarrow> string \<Rightarrow> tm \<Rightarrow> (string \<times> tm) option" where
  "strptime_conv c s t =
     (if c = CHR ''Y'' then map_option (\<lambda>(v, r). (r, t\<lparr>tm_year := v - 1900\<rparr>)) (get_number 0 9999 4 s)
      else if c = CHR ''m'' then map_option (\<lambda>(v, r). (r, t\<lparr>tm_mon := v - 1\<rparr>)) (get_number 1 12 2 s)
      else if c = CHR ''d'' then map_option (\<lambda>(v, r). (r, t\<lparr>tm_mday := v\<rparr>)) (get_number 1 31 2 s)
      else if c = CHR ''H'' then map_option (\<lambda>(v, r). (r, t\<lparr>tm_hour := v\<rparr>)) (get_number 0 23 2 s)
      else if c = CHR ''M'' then map_option (\<lambda>(v, r). (r, t\<lparr>tm_min := v\<rparr>)) (get_number 0 59 2 s)
      else if c = CHR ''S'' then map_option (\<lambda>(v, r). (r, t\<lparr>tm_sec := v\<rparr>)) (get_number 0 61 2 s)
      else if c = CHR ''z'' then map_option (\<lambda>(v, r). (r, t\<lparr>tm_gmtoff := v\<rparr>)) (get_offset s)
      else if c = CHR ''%'' \<and> peek s = CHR ''%'' then Some (tl s, t)
      else None)"

text \<open>The loop over the format; the flag records that a date field has been read.\<close>

fun strptime_loop :: "string \<Rightarrow> string \<Rightarrow> tm \<Rightarrow> bool \<Rightarrow> string option \<times> tm \<times> bool" where
  "strptime_loop s [] t d = (Some s, t, d)"
| "strptime_loop s (f # fs) t d =
     (if is_space f then strptime_loop (dropWhile is_space s) fs t d
      else if f \<noteq> CHR ''%'' then
        (if peek s = f \<and> s \<noteq> [] then strptime_loop (tl s) fs t d else (None, t, d))
      else (case fs of [] \<Rightarrow> (None, t, d)
            | c # fs' \<Rightarrow>
                (case strptime_conv c s t of None \<Rightarrow> (None, t, d)
                 | Some (r, t') \<Rightarrow> strptime_loop r fs' t' (d \<or> c \<in> set ''Ymd''))))"

text \<open>\<open>%T\<close> stands for \<open>%H:%M:%S\<close>.\<close>

fun expand_T :: "string \<Rightarrow> string" where
  "expand_T [] = []"
| "expand_T [c] = [c]"
| "expand_T (c # d # r) =
     (if c = CHR ''%'' then (if d = CHR ''T'' then ''%H:%M:%S'' else [c, d]) @ expand_T r
      else c # expand_T (d # r))"

definition set_week_and_year_day :: "tm \<Rightarrow> tm" where
  "set_week_and_year_day t =
     (let y = tm_year t + 1900
      in t\<lparr>tm_wday := (day_number y (tm_mon t) (tm_mday t) + 1) mod 7,
           tm_yday := month_start (leap y) (tm_mon t) + tm_mday t - 1\<rparr>)"

definition strptime :: "string \<Rightarrow> string \<Rightarrow> tm \<Rightarrow> string option \<times> tm" where
  "strptime s fmt t =
     (case strptime_loop s (expand_T fmt) t False of
        (None, t', d) \<Rightarrow> (None, t')
      | (Some r, t', d) \<Rightarrow>
          (Some r, if d \<and> 0 \<le> tm_mon t' \<and> tm_mon t' \<le> 11 then set_week_and_year_day t' else t'))"

section \<open>Writing\<close>

definition weekday_names :: "string list" where
  "weekday_names = [''Sunday'', ''Monday'', ''Tuesday'', ''Wednesday'', ''Thursday'', ''Friday'', ''Saturday'']"

definition month_names :: "string list" where
  "month_names = [''January'', ''February'', ''March'', ''April'', ''May'', ''June'', ''July'',
     ''August'', ''September'', ''October'', ''November'', ''December'']"

definition name_at :: "string list \<Rightarrow> int \<Rightarrow> string" where
  "name_at ns i = (if 0 \<le> i \<and> i < int (length ns) then ns ! nat i else ''?'')"

definition hour12 :: "int \<Rightarrow> int" where
  "hour12 h = (if h > 12 then h - 12 else if h = 0 then 12 else h)"

definition am_pm :: "int \<Rightarrow> string" where
  "am_pm h = (if h > 11 then ''PM'' else ''AM'')"

definition show_offset :: "int \<Rightarrow> string" where
  "show_offset g =
     (let m = \<bar>g\<bar> div 60
      in (if g < 0 then CHR ''-'' else CHR ''+'') # show_padded 4 (m div 60 * 100 + m mod 60))"

definition strftime_conv :: "char \<Rightarrow> tm \<Rightarrow> string" where
  "strftime_conv c t =
     (if c = CHR ''a'' then take 3 (name_at weekday_names (tm_wday t))
      else if c = CHR ''A'' then name_at weekday_names (tm_wday t)
      else if c = CHR ''b'' then take 3 (name_at month_names (tm_mon t))
      else if c = CHR ''B'' then name_at month_names (tm_mon t)
      else if c = CHR ''d'' then show_padded 2 (tm_mday t)
      else if c = CHR ''H'' then show_padded 2 (tm_hour t)
      else if c = CHR ''I'' then show_padded 2 (hour12 (tm_hour t))
      else if c = CHR ''j'' then show_padded 3 (tm_yday t + 1)
      else if c = CHR ''M'' then show_padded 2 (tm_min t)
      else if c = CHR ''m'' then show_padded 2 (tm_mon t + 1)
      else if c = CHR ''p'' then am_pm (tm_hour t)
      else if c = CHR ''r'' then show_padded 2 (hour12 (tm_hour t)) @ '':'' @ show_padded 2 (tm_min t)
        @ '':'' @ show_padded 2 (tm_sec t) @ '' '' @ am_pm (tm_hour t)
      else if c = CHR ''S'' then show_padded 2 (tm_sec t)
      else if c = CHR ''T'' then show_padded 2 (tm_hour t) @ '':'' @ show_padded 2 (tm_min t)
        @ '':'' @ show_padded 2 (tm_sec t)
      else if c = CHR ''w'' then show_int (tm_wday t)
      else if c = CHR ''Y'' then show_int (tm_year t + 1900)
      else if c = CHR ''y'' then show_padded 2 ((tm_year t + 1900) mod 100)
      else if c = CHR ''z'' then show_offset (tm_gmtoff t)
      else if c = CHR ''%'' then ''%''
      else [CHR ''%'', c])"

fun strftime_text :: "string \<Rightarrow> tm \<Rightarrow> string" where
  "strftime_text [] t = []"
| "strftime_text [c] t = [c]"
| "strftime_text (c # d # r) t =
     (if c = CHR ''%'' then strftime_conv d t @ strftime_text r t else c # strftime_text (d # r) t)"

text \<open>The text when it fits in \<open>n\<close> bytes with its NUL, else nothing (length 0).\<close>

definition strftime :: "nat \<Rightarrow> string \<Rightarrow> tm \<Rightarrow> string" where
  "strftime n fmt t = (let s = strftime_text fmt t in if length s < n then s else [])"

section \<open>Facts shared by the callers\<close>

lemma read_digits_prefix:
  assumes "list_all is_number ds" "length ds \<le> n"
    and "v * 10 ^ length ds + int (nat_of_digits ds) \<le> hi" "0 \<le> v"
    and "length ds = n \<or> \<not> is_number (peek r)"
  shows "read_digits hi n v (ds @ r) = (v * 10 ^ length ds + int (nat_of_digits ds), r)"
  using assms
proof (induction ds arbitrary: n v)
  case Nil
  then show ?case by (cases n) auto
next
  case (Cons c ds)
  then obtain k where n: "n = Suc k" by (cases n) auto
  let ?w = "10 * v + int (digit_val c)"
  have w: "?w * 10 ^ length ds + int (nat_of_digits ds) = v * 10 ^ length (c # ds) + int (nat_of_digits (c # ds))"
    by (simp add: nat_of_digits_Cons algebra_simps)
  have "v * 10 * 10 ^ length ds \<le> ?w * 10 ^ length ds"
    by (rule mult_right_mono) simp_all
  then have "v * 10 * 10 ^ length ds \<le> hi"
    using Cons.prems(3) w by linarith
  moreover have "v * 10 \<le> v * 10 * 10 ^ length ds"
    using Cons.prems(4) by (simp add: mult_le_cancel_left1)
  ultimately have "v * 10 \<le> hi" by linarith
  moreover have "read_digits hi k ?w (ds @ r) = (?w * 10 ^ length ds + int (nat_of_digits ds), r)"
    using Cons.prems n w by (intro Cons.IH) auto
  ultimately show ?case using Cons.prems n w by simp
qed

lemma get_number_digits:
  assumes "list_all is_number ds" "ds \<noteq> []" "length ds \<le> n"
    and "lo \<le> int (nat_of_digits ds)" "int (nat_of_digits ds) \<le> hi"
    and "length ds = n \<or> \<not> is_number (peek r)"
  shows "get_number lo hi n (ds @ r) = Some (int (nat_of_digits ds), r)"
proof -
  from assms obtain c es where ds: "ds = c # es" by (cases ds) auto
  with assms have c: "is_number c" "dropWhile (\<lambda>c. c = CHR '' '') (ds @ r) = c # es @ r" by auto
  have "read_digits hi (n - 1) (int (digit_val c)) (es @ r)
      = (int (digit_val c) * 10 ^ length es + int (nat_of_digits es), r)"
    using assms ds by (intro read_digits_prefix) (auto simp: nat_of_digits_Cons)
  with assms ds c show ?thesis
    by (simp add: get_number_def nat_of_digits_Cons)
qed

lemma get_number_show_int:
  assumes "0 \<le> v" "v \<le> hi" "lo \<le> v" "length (show_nat (nat v)) \<le> n" "\<not> is_number (peek r)"
  shows "get_number lo hi n (show_int v @ r) = Some (v, r)"
  using assms get_number_digits [of "show_nat (nat v)" n lo hi r] by (simp add: show_int_def)

lemma get_number_show_padded:
  assumes "0 \<le> v" "v \<le> hi" "lo \<le> v" "v < 100"
  shows "get_number lo hi 2 (show_padded 2 v @ r) = Some (v, r)"
proof -
  have "length (show_padded 2 v) = 2"
    using assms length_show_nat_2 [of "nat v"] by (intro length_show_padded) auto
  moreover from this have "show_padded 2 v \<noteq> []" by auto
  ultimately show ?thesis
    using assms get_number_digits [of "show_padded 2 v" 2 lo hi r]
    by (simp add: show_padded_digits nat_of_digits_show_padded)
qed

end
