(* ===== verification/DateWeek.thy ===== *)
theory DateWeek
  imports CTime
begin

text \<open>
  The calendar arithmetic of \<open>src/aux/ydboctodateformat.c\<close>: the day number and the weekday
  that MySQL's functions compute (\<open>get_day_num\<close>, \<open>get_weekday_from_day_num\<close>), the length of a
  year (\<open>is_leap\<close>, \<open>get_days_in_year\<close>) and the week of the year in all the modes of
  \<open>WEEK()\<close> (\<open>get_week\<close>), which computes partly in \<open>long\<close> and partly in \<open>unsigned int\<close>.

  The lemmas relate them to the calendar of theory \<open>CTime\<close>: the day number is the number of
  days since the first day of year 0, the weekday is the one of \<open>gmtime\<close>, and the week is
  the one of the table in the source's comment, stated as \<open>week1_start\<close>.
\<close>

section \<open>Definitions from the source\<close>

datatype DayOfWeek = SUNDAY | MONDAY | TUESDAY | WEDNESDAY | THURSDAY | FRIDAY | SATURDAY

datatype WeekRange = WEEK_ZERO | WEEK_ONE

text \<open>A violated \<open>assert\<close> is \<open>None\<close>.\<close>

definition twenty_four_to_twelve_hour :: "int \<Rightarrow> int option" where
  "twenty_four_to_twelve_hour hour =
     (if \<not> 0 \<le> hour then None
      else if hour = 0 then Some 12
      else if hour \<le> 12 then Some hour
      else if \<not> hour < 24 then None
      else Some (hour - 12))"

text \<open>
  The day number is computed in \<open>int\<close>, and is a \<open>long\<close> only once the first sum is stored in \<open>offset\<close>. Each operation
  on \<open>int\<close> is written with \<open>wrap_int\<close>: a result that does not fit, for which C promises nothing, wraps around.
\<close>

definition wrap_int :: "int \<Rightarrow> int" where
  "wrap_int x = sint (word_of_int x :: u32)"

definition get_day_num :: "tm \<Rightarrow> int" where
  "get_day_num t =
     (let year = wrap_int (tm_year t + 1900); month = tm_mon t; day = tm_mday t;
          offset = wrap_int (wrap_int (wrap_int (365 * year) + wrap_int (31 * month)) + day);
          (year, offset) =
            (if month \<le> 1 then (wrap_int (year - 1), offset)
             else (year, offset - wrap_int (wrap_int (wrap_int (month + 1) * 4) + 23) sdiv 10));
          temp = wrap_int ((year sdiv 100 + 1) * 3) sdiv 4
      in offset + year sdiv 4 - temp)"

definition get_weekday_from_day_num :: "u32 \<Rightarrow> DayOfWeek \<Rightarrow> u32" where
  "get_weekday_from_day_num day_num first_weekday =
     (day_num + (5 + (if first_weekday = SUNDAY then 1 else 0))) mod 7"

definition is_leap :: "u32 \<Rightarrow> bool" where
  "is_leap year =
     (let is_leap = (year AND 3 = 0); not_centennial = (year mod 100 > 0);
          is_quad_centennial = (year mod 400 = 0)
      in (is_leap \<and> not_centennial) \<or> is_quad_centennial)"

definition get_days_in_year :: "u32 \<Rightarrow> u32" where
  "get_days_in_year year = (if is_leap year then 366 else 365)"

text \<open>
  The last part of \<open>get_week\<close>, from the second test of the weekday on: \<open>first_day_num\<close>,
  \<open>weekday\<close>, \<open>start_week\<close> and \<open>year\<close> are the variables after the first adjustment. The
  result is the week and the value left in \<open>*year\<close>.
\<close>

definition get_week_tail ::
  "int \<Rightarrow> int \<Rightarrow> u32 \<Rightarrow> u32 \<Rightarrow> WeekRange \<Rightarrow> bool \<Rightarrow> int \<times> u32" where
  "get_week_tail day_num first_day_num weekday year start_week use_ISO =
     (let days :: u32 =
            (if (\<not> use_ISO \<and> 0 \<noteq> weekday) \<or> (use_ISO \<and> 4 \<le> weekday)
             then word_of_int (day_num - (first_day_num + uint (7 - weekday)))
             else word_of_int (day_num - (first_day_num - uint weekday)));
          weekday' = (weekday + get_days_in_year year) mod 7
      in if start_week = WEEK_ONE \<and> (53 + (- 1)) * 7 \<le> days
            \<and> ((use_ISO \<and> weekday' < 4) \<or> (\<not> use_ISO \<and> weekday' = 0))
         then (1, year + 1)
         else (sint (days div 7 + 1), year))"

definition get_week :: "tm \<Rightarrow> DayOfWeek \<Rightarrow> WeekRange \<Rightarrow> bool \<Rightarrow> int \<times> u32" where
  "get_week t first_weekday start_week use_ISO =
     (let first_day_num = get_day_num (t\<lparr>tm_mon := 0, tm_mday := 1\<rparr>);
          day_num = get_day_num t;
          weekday = get_weekday_from_day_num (word_of_int first_day_num) first_weekday;
          year = word_of_int (tm_year t + 1900)
      in if tm_mon t = 0 \<and> word_of_int (tm_mday t) \<le> 7 - weekday
         then (if start_week = WEEK_ZERO \<and> ((\<not> use_ISO \<and> 0 \<noteq> weekday) \<or> (use_ISO \<and> 4 \<le> weekday))
               then (0, year)
               else (let year = year - 1; days = get_days_in_year year
                     in get_week_tail day_num (first_day_num - uint days)
                          ((weekday + 53 * 7 - days) mod 7) year WEEK_ONE use_ISO))
         else get_week_tail day_num first_day_num weekday year start_week use_ISO)"

section \<open>The day number and the weekday\<close>

definition date_of :: "tm \<Rightarrow> int" where
  "date_of t = day_number (tm_year t + 1900) (tm_mon t) (tm_mday t)"

abbreviation valid_tm_date :: "tm \<Rightarrow> bool" where
  "valid_tm_date t \<equiv> valid_date (tm_year t + 1900) (tm_mon t) (tm_mday t)"

lemma sdiv_nonneg: "0 \<le> a \<Longrightarrow> 0 < b \<Longrightarrow> a sdiv b = a div (b::int)"
  by (simp add: signed_divide_int_def sgn_if)

lemma centuries: "((z div 100 + 1) * 3) div 4 = z div 100 - z div 400" for z :: int
proof -
  have "z div 400 = z div 100 div 4"
    using zdiv_zmult2_eq [of 4 z 100] by simp
  moreover have "((c + 1) * 3) div 4 = c - c div 4" for c :: int
  proof (rule int_div_pos_eq [where r = "3 - c mod 4"])
    have "0 \<le> c mod 4" "c mod 4 < 4" by simp_all
    then show "0 \<le> 3 - c mod 4" "3 - c mod 4 < 4" by linarith+
    show "(c + 1) * 3 = 4 * (c - c div 4) + (3 - c mod 4)"
      using mult_div_mod_eq [of 4 c] by (simp add: algebra_simps)
  qed
  ultimately show ?thesis by (simp only:)
qed

lemma month_start_mysql:
  assumes "2 \<le> m" "m \<le> 11"
  shows "month_start l m = 31 * m - ((m + 1) * 4 + 23) div 10 + (if l then 1 else 0)"
proof -
  from assms have "0 \<le> m" by simp
  from this \<open>m \<le> 11\<close> show ?thesis
    by (cases m rule: int_le_11_cases) (use assms in \<open>simp_all add: month_start_def\<close>)
qed

lemma valid_date_day: "valid_date y m d \<Longrightarrow> d \<le> 31"
  by (auto simp: valid_date_def month_len_cases split: if_splits)

text \<open>Up to the year 5883515 nothing wraps around.\<close>

lemma wrap_int_id: "- 2147483648 \<le> x \<Longrightarrow> x \<le> 2147483647 \<Longrightarrow> wrap_int x = x"
  unfolding wrap_int_def by (simp add: signed_of_int signed_take_bit_int_eq_self)

definition no_overflow :: "tm \<Rightarrow> bool" where
  "no_overflow t \<longleftrightarrow> 0 \<le> tm_year t + 1900 \<and> tm_year t + 1900 \<le> 5883515 \<and> - 1 \<le> tm_mon t \<and> tm_mon t \<le> 11
     \<and> 0 \<le> tm_mday t \<and> tm_mday t \<le> 31"

lemma sdiv_bounds: "- 6000000 \<le> a \<Longrightarrow> a \<le> 6000000 \<Longrightarrow> - 60000 \<le> a sdiv 100 \<and> a sdiv 100 \<le> (60000 :: int)"
  by (simp add: signed_divide_int_def sgn_if) linarith

lemma get_day_num_exact:
  assumes "no_overflow t"
  shows "get_day_num t =
    (let year = tm_year t + 1900; month = tm_mon t; day = tm_mday t;
         offset = 365 * year + 31 * month + day;
         (year, offset) =
           (if month \<le> 1 then (year - 1, offset)
            else (year, offset - ((month + 1) * 4 + 23) sdiv 10));
         temp = ((year sdiv 100 + 1) * 3) sdiv 4
     in offset + year sdiv 4 - temp)"
proof -
  define y where "y = tm_year t + 1900"
  have b: "0 \<le> y" "y \<le> 5883515" "- 1 \<le> tm_mon t" "tm_mon t \<le> 11" "0 \<le> tm_mday t" "tm_mday t \<le> 31"
    using assms by (auto simp: no_overflow_def y_def)
  have w: "wrap_int y = y" "wrap_int (y - 1) = y - 1" "wrap_int (365 * y) = 365 * y" "wrap_int (31 * tm_mon t) = 31 * tm_mon t"
    "wrap_int (365 * y + 31 * tm_mon t) = 365 * y + 31 * tm_mon t"
    "wrap_int (365 * y + 31 * tm_mon t + tm_mday t) = 365 * y + 31 * tm_mon t + tm_mday t"
    "wrap_int (tm_mon t + 1) = tm_mon t + 1" "wrap_int ((tm_mon t + 1) * 4) = (tm_mon t + 1) * 4"
    "wrap_int ((tm_mon t + 1) * 4 + 23) = (tm_mon t + 1) * 4 + 23"
    by (rule wrap_int_id; use b in \<open>simp add: algebra_simps\<close>)+
  have c: "wrap_int ((z sdiv 100 + 1) * 3) = (z sdiv 100 + 1) * 3" if "- 6000000 \<le> z" "z \<le> 6000000" for z
    using sdiv_bounds [OF that] by (intro wrap_int_id) auto
  have "wrap_int ((y sdiv 100 + 1) * 3) = (y sdiv 100 + 1) * 3" "wrap_int (((y - 1) sdiv 100 + 1) * 3) = ((y - 1) sdiv 100 + 1) * 3"
    by (rule c; use b in linarith)+
  with w show ?thesis
    unfolding get_day_num_def by (simp add: Let_def flip: y_def)
qed

lemma get_day_num_correct:
  assumes "1 \<le> tm_year t + 1900" "0 \<le> tm_mon t" "tm_mon t \<le> 11"
    and small: "tm_year t + 1900 \<le> 5883515" "0 \<le> tm_mday t" "tm_mday t \<le> 31"
  shows "get_day_num t = date_of t + 366"
proof (cases "tm_mon t \<le> 1")
  case True
  have n: "no_overflow t" using assms by (simp add: no_overflow_def)
  define y where "y = tm_year t + 1900"
  have m: "month_start (leap y) (tm_mon t) = 31 * tm_mon t"
  proof -
    have "tm_mon t = 0 \<or> tm_mon t = 1" using assms True by linarith
    then show ?thesis by (auto simp: month_start_def)
  qed
  have "(y - 1) sdiv 100 = (y - 1) div 100" "(y - 1) sdiv 4 = (y - 1) div 4"
    "((y - 1) div 100 + 1) * 3 sdiv 4 = (((y - 1) div 100 + 1) * 3) div 4"
    using assms(1) by (auto intro!: sdiv_nonneg simp: y_def)
  with True centuries [of "y - 1"] m show ?thesis
    by (simp add: get_day_num_exact [OF n] date_of_def day_number_def year_start_def flip: y_def)
next
  case False
  have n: "no_overflow t" using assms by (simp add: no_overflow_def)
  define y where "y = tm_year t + 1900"
  have "y sdiv 100 = y div 100" "y sdiv 4 = y div 4" "(y div 100 + 1) * 3 sdiv 4 = ((y div 100 + 1) * 3) div 4"
    "((tm_mon t + 1) * 4 + 23) sdiv 10 = ((tm_mon t + 1) * 4 + 23) div 10"
    using assms by (auto intro!: sdiv_nonneg simp: y_def)
  then have "get_day_num t = 365 * y + 31 * tm_mon t + tm_mday t - ((tm_mon t + 1) * 4 + 23) div 10
      + y div 4 - (y div 100 - y div 400)"
    using False centuries [of y] by (simp add: get_day_num_exact [OF n] Let_def flip: y_def)
  also have "\<dots> = year_start (y + 1) + month_start (leap y) (tm_mon t) - (if leap y then 1 else 0) + tm_mday t"
    using False assms month_start_mysql [of "tm_mon t" "leap y"] by (simp add: year_start_def)
  also have "\<dots> = day_number y (tm_mon t) (tm_mday t) + 366"
    using year_start_Suc [of y] by (simp add: day_number_def year_len_def)
  finally show ?thesis by (simp add: date_of_def y_def)
qed

lemma uint_u32: "0 \<le> i \<Longrightarrow> i < 4294967296 \<Longrightarrow> uint (word_of_int i :: u32) = i"
  by (simp add: uint_word_of_int_eq take_bit_int_eq_self)

lemma sint_u32: "0 \<le> i \<Longrightarrow> i < 2147483648 \<Longrightarrow> sint (word_of_int i :: u32) = i"
  by (simp add: signed_of_int signed_take_bit_int_eq_self)

lemma uint_mod_u32: "uint (a mod b :: u32) = uint a mod uint b"
  by (simp add: uint_mod)

lemma get_weekday_correct:
  assumes "0 \<le> n" "n < 4294967290"
  shows "uint (get_weekday_from_day_num (word_of_int n) f) = (n + (if f = SUNDAY then 6 else 5)) mod 7"
proof -
  have "word_of_int n + (5 + (if f = SUNDAY then 1 else 0)) = (word_of_int (n + (if f = SUNDAY then 6 else 5)) :: u32)"
    by simp
  then show ?thesis
    using assms uint_u32 [of "n + (if f = SUNDAY then 6 else 5)"]
    unfolding get_weekday_from_day_num_def uint_mod_u32 by (simp only:) auto
qed

lemma is_leap_correct:
  assumes "0 \<le> y" "y < 4294967296"
  shows "is_leap (word_of_int y) \<longleftrightarrow> leap y"
proof -
  let ?w = "word_of_int y :: u32"
  have u: "uint ?w = y" using assms by (rule uint_u32)
  have "uint (?w AND 3) = y mod 4"
  proof -
    have "(3 :: u32) = mask 2" by (simp add: mask_eq_exp_minus_1)
    then have "?w AND 3 = take_bit 2 ?w" by (simp only: take_bit_eq_mask)
    then have "uint (?w AND 3) = take_bit 2 y"
      by (simp only: unsigned_take_bit_eq u)
    then show ?thesis by (simp add: take_bit_eq_mod)
  qed
  then have "?w AND 3 = 0 \<longleftrightarrow> y mod 4 = 0"
    by (simp add: word_uint_eq_iff)
  moreover have "uint (?w mod 100) = y mod 100" "uint (?w mod 400) = y mod 400"
    using u by (simp_all add: uint_mod_u32)
  then have "?w mod 100 > 0 \<longleftrightarrow> y mod 100 \<noteq> 0" "?w mod 400 = 0 \<longleftrightarrow> y mod 400 = 0"
    by (simp_all add: word_less_def word_uint_eq_iff order.strict_iff_order)
  moreover have "y mod 4 = 0" if "y mod 400 = 0"
    using that unfolding mod_eq_0_iff_dvd by (rule dvd_trans [rotated]) simp
  ultimately show ?thesis
    unfolding is_leap_def leap_def Let_def by metis
qed

lemma get_days_in_year_correct:
  "0 \<le> y \<Longrightarrow> y < 4294967296 \<Longrightarrow> get_days_in_year (word_of_int y) = word_of_int (year_len y)"
  by (simp add: get_days_in_year_def is_leap_correct year_len_def)

section \<open>The week of the year\<close>

text \<open>
  Days are counted from 1 January of year 1, a Monday. \<open>week_index\<close> is the position of a day
  in a week that begins on \<open>f\<close>, and \<open>s\<close> is the first day of week 1 of year \<open>y\<close> when it begins a
  week and that week is the first \<^emph>\<open>with 4 or more days this year\<close> (the ISO modes) or the first
  that lies in this year (the other modes), as the table above \<open>DayOfWeek\<close> in the source says.
\<close>

definition week_index :: "DayOfWeek \<Rightarrow> int \<Rightarrow> int" where
  "week_index f n = (n + (if f = SUNDAY then 1 else 0)) mod 7"

definition first_week :: "DayOfWeek \<Rightarrow> bool \<Rightarrow> int \<Rightarrow> int \<Rightarrow> bool" where
  "first_week f use_ISO y s \<longleftrightarrow> week_index f s = 0 \<and>
     (if use_ISO then year_start y - 3 \<le> s \<and> s \<le> year_start y + 3
      else year_start y \<le> s \<and> s \<le> year_start y + 6)"

definition late_start :: "bool \<Rightarrow> int \<Rightarrow> bool" where
  "late_start use_ISO w \<longleftrightarrow> (\<not> use_ISO \<and> w \<noteq> 0) \<or> (use_ISO \<and> 4 \<le> w)"

definition week1_start :: "DayOfWeek \<Rightarrow> bool \<Rightarrow> int \<Rightarrow> int" where
  "week1_start f use_ISO y =
     (let w = week_index f (year_start y) in year_start y + (if late_start use_ISO w then 7 - w else - w))"

lemma week_index_bounds: "0 \<le> week_index f n" "week_index f n < 7" "week_index f n \<le> 6"
  by (simp_all add: week_index_def)

lemma week_index_shift: "week_index f (n + k) = (week_index f n + k) mod 7"
  by (simp add: week_index_def mod_simps algebra_simps)

lemma week_index_zero: "week_index f (n - week_index f n) = 0"
  using week_index_shift [of f n "- week_index f n"] by simp

lemma first_week_week1_start: "first_week f use_ISO y (week1_start f use_ISO y)"
proof -
  let ?j = "year_start y"
  have "week_index f (?j - week_index f ?j + 7) = 0"
    using week_index_shift [of f "?j - week_index f ?j" 7] week_index_zero [of f ?j] by simp
  then have z: "week_index f (?j + (7 - week_index f ?j)) = 0" by (simp add: algebra_simps)
  show ?thesis
    using z week_index_bounds [of f ?j] week_index_zero [of f ?j]
    by (auto simp: first_week_def week1_start_def late_start_def Let_def)
qed

lemma week1_start_Suc:
  "week1_start f use_ISO (y + 1) = (let w = (week_index f (year_start y) + year_len y) mod 7
     in year_start y + year_len y + (if late_start use_ISO w then 7 - w else - w))"
  by (simp add: week1_start_def year_start_Suc week_index_shift)

lemma int_less_7_cases:
  assumes "0 \<le> (m::int)" "m < 7"
  obtains "m = 0" | "m = 1" | "m = 2" | "m = 3" | "m = 4" | "m = 5" | "m = 6"
  using assms by atomize_elim presburger

lemma year_of_weeks:
  defines "len \<equiv> \<lambda>f use_ISO y. week1_start f use_ISO (y + 1) - week1_start f use_ISO y"
  shows "len f use_ISO y = 364 \<or> len f use_ISO y = 371"
    and "\<not> late_start use_ISO (week_index f (year_start (y + 1))) \<Longrightarrow> len f use_ISO y = 364"
proof -
  define w where "w = week_index f (year_start y)"
  have w: "0 \<le> w" "w < 7" by (simp_all add: w_def week_index_bounds)
  have L: "year_len y = 365 \<or> year_len y = 366" by (simp add: year_len_def)
  have i: "week_index f (year_start (y + 1)) = (w + year_len y) mod 7"
    by (simp add: year_start_Suc week_index_shift w_def)
  have l: "len f use_ISO y = year_len y + (if late_start use_ISO ((w + year_len y) mod 7) then 7 - (w + year_len y) mod 7
      else - ((w + year_len y) mod 7)) - (if late_start use_ISO w then 7 - w else - w)"
    by (simp add: len_def week1_start_Suc week1_start_def [of f use_ISO y] Let_def flip: w_def)
  show "len f use_ISO y = 364 \<or> len f use_ISO y = 371"
    unfolding l using w L by (cases w rule: int_less_7_cases; cases use_ISO; elim disjE; simp add: late_start_def)
  show "\<not> late_start use_ISO (week_index f (year_start (y + 1))) \<Longrightarrow> len f use_ISO y = 364"
    unfolding l i using w L by (cases w rule: int_less_7_cases; cases use_ISO; elim disjE; simp add: late_start_def)
qed

lemma get_week_tail_correct:
  assumes "0 \<le> w" "w < 7" "0 \<le> y" "y < 4294967295"
    and "dd = day_num - first_day_num - (if late_start use_ISO w then 7 - w else - w)"
    and "0 \<le> dd" "dd < 2147483648"
  defines "w' \<equiv> (w + year_len y) mod 7"
  shows "get_week_tail day_num first_day_num (word_of_int w) (word_of_int y) start use_ISO =
    (if start = WEEK_ONE \<and> 364 \<le> dd \<and> \<not> late_start use_ISO w' then (1, word_of_int (y + 1))
     else (dd div 7 + 1, word_of_int y))"
proof -
  let ?w = "word_of_int w :: u32"
  have uw: "uint ?w = w" and u7: "uint (7 - ?w) = 7 - w"
    using assms(1,2) uint_u32 [of w] uint_u32 [of "7 - w"] by (simp_all add: of_int_diff)
  have late: "(\<not> use_ISO \<and> 0 \<noteq> ?w) \<or> (use_ISO \<and> 4 \<le> ?w) \<longleftrightarrow> late_start use_ISO w"
    by (auto simp: late_start_def word_le_def word_uint_eq_iff uw)
  have "uint ((?w + word_of_int (year_len y)) mod 7) = w'"
    using assms(1,2) year_len_bounds [of y] uint_u32 [of "w + year_len y"]
    by (simp add: uint_mod_u32 w'_def)
  then have w'4: "(?w + word_of_int (year_len y)) mod 7 < 4 \<longleftrightarrow> w' < 4"
    and w'0: "(?w + word_of_int (year_len y)) mod 7 = 0 \<longleftrightarrow> w' = 0"
    by (simp_all add: word_less_def word_uint_eq_iff)
  have late': "(use_ISO \<and> w' < 4) \<or> (\<not> use_ISO \<and> w' = 0) \<longleftrightarrow> \<not> late_start use_ISO w'"
    by (auto simp: late_start_def)
  have ud: "uint (word_of_int dd :: u32) = dd" using assms by (intro uint_u32) auto
  then have "(53 + (- 1)) * 7 \<le> (word_of_int dd :: u32) \<longleftrightarrow> 364 \<le> dd"
    by (simp add: word_le_def)
  moreover have "sint ((word_of_int dd :: u32) div 7 + 1) = dd div 7 + 1"
  proof -
    have "uint ((word_of_int dd :: u32) div 7) = dd div 7" by (simp add: uint_div ud)
    then have "(word_of_int dd :: u32) div 7 + 1 = word_of_int (dd div 7 + 1)"
      by (metis of_int_1 of_int_add word_of_int_uint)
    moreover have "dd div 7 + 1 < 2147483648" "0 \<le> dd div 7 + 1" using assms(6,7) by linarith+
    ultimately show ?thesis by (simp only: sint_u32)
  qed
  moreover have "word_of_int (day_num - (first_day_num + uint (7 - ?w))) = (word_of_int dd :: u32)" if "late_start use_ISO w"
  proof -
    have "day_num - (first_day_num + uint (7 - ?w)) = dd" using that assms(5) u7 by simp
    then show ?thesis by (simp only:)
  qed
  moreover have "word_of_int (day_num - (first_day_num - uint ?w)) = (word_of_int dd :: u32)" if "\<not> late_start use_ISO w"
  proof -
    have "day_num - (first_day_num - uint ?w) = dd" using that assms(5) uw by simp
    then show ?thesis by (simp only:)
  qed
  moreover have "get_days_in_year (word_of_int y) = word_of_int (year_len y)"
    using assms(3,4) by (intro get_days_in_year_correct) auto
  ultimately show ?thesis
    unfolding get_week_tail_def Let_def late by (simp add: w'4 w'0 late')
qed

lemma year_start_range: "1 \<le> y \<Longrightarrow> y \<le> 10000 \<Longrightarrow> 0 \<le> year_start y \<and> year_start y \<le> 3660000"
  using year_start_linear(2) [of y] year_start_mono [of 1 y] by (simp add: year_start_def)

lemma week1_start_bounds: "year_start y - 3 \<le> week1_start f use_ISO y" "week1_start f use_ISO y \<le> year_start y + 6"
  using first_week_week1_start [of f use_ISO y] by (auto simp: first_week_def split: if_splits)

lemma date_of_bounds:
  assumes "valid_tm_date t"
  defines "y \<equiv> tm_year t + 1900"
  shows "year_start y \<le> date_of t" "date_of t < year_start (y + 1)"
  using valid_date_yday [OF assms(1)] year_start_Suc [of y]
  by (auto simp: date_of_def day_number_def y_def)

text \<open>Where \<open>get_week\<close> starts: the two day numbers, the weekday and the first test.\<close>

lemma add_371_mod_7: "(k + 371) mod 7 = k mod (7 :: int)"
  using mod_mult_self2 [of k 7 53] by simp

lemma get_week_start:
  fixes t f
  assumes "valid_tm_date t" "1 \<le> tm_year t + 1900" "tm_year t + 1900 \<le> 9999"
  defines "y \<equiv> tm_year t + 1900"
  defines "w \<equiv> week_index f (year_start y)"
  shows "get_week t f start use_ISO =
    (if date_of t - year_start y \<le> 6 - w
     then (if start = WEEK_ZERO \<and> late_start use_ISO w then (0, word_of_int y)
           else get_week_tail (date_of t + 366) (year_start (y - 1) + 366)
                  (word_of_int (week_index f (year_start (y - 1)))) (word_of_int (y - 1)) WEEK_ONE use_ISO)
     else get_week_tail (date_of t + 366) (year_start y + 366) (word_of_int w) (word_of_int y) start use_ISO)"
proof -
  let ?j = "year_start y" and ?L = "year_len (y - 1)"
  have mon: "0 \<le> tm_mon t" "tm_mon t \<le> 11" and day: "1 \<le> tm_mday t"
    using assms(1) by (auto simp: valid_date_def)
  have w: "0 \<le> w" "w < 7" by (simp_all add: w_def week_index_bounds)
  have j: "0 \<le> ?j" "?j \<le> 3660000" using year_start_range [of y] assms by auto
  have first: "get_day_num (t\<lparr>tm_mon := 0, tm_mday := 1\<rparr>) = ?j + 366"
    using assms by (subst get_day_num_correct) (auto simp: date_of_def day_number_def month_start_def y_def)
  have num: "get_day_num t = date_of t + 366"
    using assms mon valid_date_day [OF assms(1)] by (intro get_day_num_correct) (auto simp: valid_date_def)
  have "uint (get_weekday_from_day_num (word_of_int (?j + 366)) f) = w"
    using j add_371_mod_7 [of "year_start y"] add_371_mod_7 [of "1 + year_start y"]
    by (subst get_weekday_correct) (auto simp: w_def week_index_def add.commute)
  then have weekday: "get_weekday_from_day_num (word_of_int (?j + 366)) f = word_of_int w"
    by (metis word_of_int_uint)
  have u7: "uint (7 - word_of_int w :: u32) = 7 - w"
    using w uint_u32 [of "7 - w"] by (simp add: of_int_diff)
  have guard: "tm_mon t = 0 \<and> word_of_int (tm_mday t) \<le> (7 - word_of_int w :: u32) \<longleftrightarrow> date_of t - ?j \<le> 6 - w"
  proof (cases "tm_mon t = 0")
    case True
    then have "tm_mday t \<le> 31"
      using assms(1) by (auto simp: valid_date_def month_len_def month_start_def)
    then have "uint (word_of_int (tm_mday t) :: u32) = tm_mday t" using day by (intro uint_u32) auto
    moreover have "date_of t - ?j = tm_mday t - 1"
      using True by (simp add: date_of_def day_number_def month_start_def y_def)
    ultimately show ?thesis using True u7 by (auto simp: word_le_def)
  next
    case False
    then have "31 \<le> month_start (leap y) (tm_mon t)" using mon by (auto simp: month_start_def Let_def)
    then have "\<not> date_of t - ?j \<le> 6 - w"
      using day w by (simp add: date_of_def day_number_def flip: y_def)
    with False show ?thesis by simp
  qed
  have late: "(\<not> use_ISO \<and> 0 \<noteq> (word_of_int w :: u32)) \<or> (use_ISO \<and> 4 \<le> (word_of_int w :: u32)) \<longleftrightarrow> late_start use_ISO w"
    using uint_u32 [of w] w by (auto simp: late_start_def word_le_def word_uint_eq_iff)
  have pred: "(word_of_int y - 1 :: u32) = word_of_int (y - 1)" by simp
  have days: "get_days_in_year (word_of_int (y - 1)) = word_of_int ?L"
    using assms by (intro get_days_in_year_correct) auto
  have uL: "uint (word_of_int ?L :: u32) = ?L" using year_len_bounds [of "y - 1"] by (intro uint_u32) auto
  have "uint ((word_of_int w + 53 * 7 - word_of_int ?L :: u32) mod 7) = (w + 371 - ?L) mod 7"
    using w year_len_bounds [of "y - 1"] uint_u32 [of "w + 371 - ?L"] by (simp add: uint_mod_u32)
  also have "\<dots> = week_index f (?j + (371 - ?L))"
    using week_index_shift [of f ?j "371 - ?L"] by (simp add: w_def algebra_simps)
  also have "?j + (371 - ?L) = year_start (y - 1) + 371"
    using year_start_pred [of y] by simp
  also have "week_index f (year_start (y - 1) + 371) = week_index f (year_start (y - 1))"
    using week_index_shift [of f "year_start (y - 1)" 371] add_371_mod_7 [of "week_index f (year_start (y - 1))"]
    by (simp add: week_index_def)
  finally have prev: "(word_of_int w + 53 * 7 - word_of_int ?L :: u32) mod 7 = word_of_int (week_index f (year_start (y - 1)))"
    by (metis word_of_int_uint)
  have prev_day: "?j + 366 - ?L = year_start (y - 1) + 366" using year_start_pred [of y] by simp
  show ?thesis
    unfolding get_week_def Let_def first num weekday y_def [symmetric] guard late pred days prev uL prev_day
    by (rule refl)
qed

text \<open>
  The result of \<open>get_week\<close> in terms of the first days of week 1 of the year and of its
  neighbours: in the modes that start at 1 the week can belong to the previous or the next year.
\<close>

definition week_spec :: "tm \<Rightarrow> DayOfWeek \<Rightarrow> WeekRange \<Rightarrow> bool \<Rightarrow> int \<times> int" where
  "week_spec t f start use_ISO =
     (let y = tm_year t + 1900; n = date_of t; W = week1_start f use_ISO
      in if start = WEEK_ZERO then ((n - W y) div 7 + 1, y)
         else if n < W y then ((n - W (y - 1)) div 7 + 1, y - 1)
         else if W (y + 1) \<le> n then ((n - W (y + 1)) div 7 + 1, y + 1)
         else ((n - W y) div 7 + 1, y))"

lemma get_week_early:
  fixes t f use_ISO
  defines "y \<equiv> tm_year t + 1900"
  defines "w \<equiv> week_index f (year_start y)" and "W \<equiv> week1_start f use_ISO"
  assumes valid: "valid_tm_date t" and y: "1 \<le> y" "y \<le> 9999" and early: "date_of t - year_start y \<le> 6 - w"
  shows "get_week_tail (date_of t + 366) (year_start (y - 1) + 366)
      (word_of_int (week_index f (year_start (y - 1)))) (word_of_int (y - 1)) WEEK_ONE use_ISO
    = (if late_start use_ISO w then ((date_of t - W (y - 1)) div 7 + 1, word_of_int (y - 1)) else (1, word_of_int y))"
proof -
  let ?w0 = "week_index f (year_start (y - 1))" and ?dd = "date_of t - W (y - 1)"
  have n: "year_start y \<le> date_of t" using date_of_bounds(1) [OF valid] by (simp add: y_def)
  have w: "0 \<le> w" "w < 7" by (simp_all add: w_def week_index_bounds)
  have j: "year_start y \<le> 3660000" "year_start y = year_start (y - 1) + year_len (y - 1)"
    using year_start_range [of y] year_start_pred [of y] y by auto
  have Wd: "W (y - 1) = year_start (y - 1) + (if late_start use_ISO ?w0 then 7 - ?w0 else - ?w0)"
    by (simp add: W_def week1_start_def Let_def)
  have b: "0 \<le> ?dd" "?dd < 2147483648"
    using week1_start_bounds [where y = "y - 1" and f = f and use_ISO = use_ISO] n j w year_len_bounds [of "y - 1"] early
    by (auto simp: W_def)
  have w': "(?w0 + year_len (y - 1)) mod 7 = w"
    using week_index_shift [of f "year_start (y - 1)" "year_len (y - 1)"] j(2) by (simp add: w_def)
  have tail: "get_week_tail (date_of t + 366) (year_start (y - 1) + 366) (word_of_int ?w0) (word_of_int (y - 1)) WEEK_ONE use_ISO
    = (if 364 \<le> ?dd \<and> \<not> late_start use_ISO w then (1, word_of_int (y - 1 + 1)) else (?dd div 7 + 1, word_of_int (y - 1)))"
    using y b w' week_index_bounds [of f "year_start (y - 1)"]
    by (subst get_week_tail_correct [where dd = ?dd]) (auto simp: Wd)
  have "364 \<le> ?dd" if "\<not> late_start use_ISO w"
    using year_of_weeks(2) [of use_ISO f "y - 1"] that n w
    by (simp add: W_def w_def week1_start_def [of f use_ISO y])
  then show ?thesis unfolding tail by auto
qed

lemma get_week_late:
  fixes t f use_ISO
  defines "y \<equiv> tm_year t + 1900"
  defines "w \<equiv> week_index f (year_start y)" and "W \<equiv> week1_start f use_ISO"
  assumes valid: "valid_tm_date t" and y: "1 \<le> y" "y \<le> 9999" and late: "\<not> date_of t - year_start y \<le> 6 - w"
  shows "get_week_tail (date_of t + 366) (year_start y + 366) (word_of_int w) (word_of_int y) start use_ISO
    = (if start = WEEK_ONE \<and> W (y + 1) \<le> date_of t then (1, word_of_int (y + 1))
       else ((date_of t - W y) div 7 + 1, word_of_int y))"
    and "W y \<le> date_of t"
proof -
  let ?dd = "date_of t - W y" and ?w' = "(w + year_len y) mod 7"
  have n: "year_start y \<le> date_of t" "date_of t < year_start (y + 1)"
    using date_of_bounds [OF valid] by (simp_all add: y_def)
  have w: "0 \<le> w" "w < 7" by (simp_all add: w_def week_index_bounds)
  have j: "0 \<le> year_start y" "year_start (y + 1) \<le> 3660000"
    using year_start_range [of y] year_start_range [of "y + 1"] y by auto
  have Wd: "W y = year_start y + (if late_start use_ISO w then 7 - w else - w)"
    by (simp add: W_def w_def week1_start_def Let_def)
  show le: "W y \<le> date_of t"
    using late n w unfolding Wd by auto
  have b: "?dd < 2147483648" using n j w unfolding Wd by auto
  have tail: "get_week_tail (date_of t + 366) (year_start y + 366) (word_of_int w) (word_of_int y) start use_ISO
    = (if start = WEEK_ONE \<and> 364 \<le> ?dd \<and> \<not> late_start use_ISO ?w' then (1, word_of_int (y + 1))
       else (?dd div 7 + 1, word_of_int y))"
    using y b le w by (subst get_week_tail_correct [where dd = ?dd]) (auto simp: Wd)
  have i: "week_index f (year_start (y + 1)) = ?w'"
    by (simp add: year_start_Suc week_index_shift w_def)
  have "364 \<le> ?dd \<and> \<not> late_start use_ISO ?w' \<longleftrightarrow> W (y + 1) \<le> date_of t"
  proof (cases "late_start use_ISO ?w'")
    case True
    then have "year_start (y + 1) \<le> W (y + 1)"
      using week_index_bounds [of f "year_start (y + 1)"] by (simp add: W_def week1_start_def Let_def i)
    with True n show ?thesis by auto
  next
    case False
    then have "W (y + 1) = W y + 364"
      using year_of_weeks(2) [of use_ISO f y] by (simp add: W_def i)
    with False show ?thesis by auto
  qed
  then show "get_week_tail (date_of t + 366) (year_start y + 366) (word_of_int w) (word_of_int y) start use_ISO
    = (if start = WEEK_ONE \<and> W (y + 1) \<le> date_of t then (1, word_of_int (y + 1))
       else ((date_of t - W y) div 7 + 1, word_of_int y))"
    unfolding tail by auto
qed

lemma get_week_week_spec:
  assumes "valid_tm_date t" "1 \<le> tm_year t + 1900" "tm_year t + 1900 \<le> 9999"
  shows "get_week t f start use_ISO = (case week_spec t f start use_ISO of (wk, wy) \<Rightarrow> (wk, word_of_int wy))"
proof -
  define y where "y = tm_year t + 1900"
  define w where "w = week_index f (year_start y)"
  define W where "W = week1_start f use_ISO"
  have n: "year_start y \<le> date_of t" "date_of t < year_start (y + 1)"
    using date_of_bounds [OF assms(1)] by (simp_all add: y_def)
  have w: "0 \<le> w" "w < 7" by (simp_all add: w_def week_index_bounds)
  have Wd: "W y = year_start y + (if late_start use_ISO w then 7 - w else - w)"
    by (simp add: W_def w_def week1_start_def Let_def)
  have next_year: "(date_of t - W (y + 1)) div 7 = 0" if "W (y + 1) \<le> date_of t"
    using that n week1_start_bounds [where y = "y + 1" and f = f and use_ISO = use_ISO] by (simp add: W_def)
  show ?thesis
  proof (cases "date_of t - year_start y \<le> 6 - w")
    case True
    have "W y + 364 \<le> W (y + 1)" using year_of_weeks(1) [of f use_ISO y] by (auto simp: W_def)
    then have "\<not> W (y + 1) \<le> date_of t" using True w unfolding Wd by (auto split: if_splits)
    moreover have "(date_of t - W y) div 7 + 1 = (if late_start use_ISO w then 0 else 1)"
      using True n w int_div_pos_eq [of "date_of t - W y" 7 "-1" "date_of t - W y + 7"] unfolding Wd by auto
    ultimately show ?thesis
      using True n w get_week_start [OF assms, of f start use_ISO] get_week_early [where t = t and f = f and use_ISO = use_ISO] assms
      by (auto simp: week_spec_def Let_def Wd simp flip: y_def w_def W_def)
  next
    case False
    then show ?thesis
      using get_week_start [OF assms, of f start use_ISO] get_week_late(1) [where t = t and f = f and use_ISO = use_ISO and start = start]
        get_week_late(2) [where t = t and f = f and use_ISO = use_ISO] assms next_year
      by (cases start) (auto simp: week_spec_def Let_def simp flip: y_def w_def W_def)
  qed
qed

section \<open>Properties\<close>

lemma week_spec_WEEK_ONE:
  assumes "valid_tm_date t" "week_spec t f WEEK_ONE use_ISO = (wk, wy)"
  shows "week1_start f use_ISO wy \<le> date_of t \<and> date_of t < week1_start f use_ISO (wy + 1)
    \<and> wk = (date_of t - week1_start f use_ISO wy) div 7 + 1
    \<and> tm_year t + 1899 \<le> wy \<and> wy \<le> tm_year t + 1901"
proof -
  define y where "y = tm_year t + 1900"
  have n: "year_start y \<le> date_of t" "date_of t < year_start (y + 1)"
    using date_of_bounds [OF assms(1)] by (simp_all add: y_def)
  have "week1_start f use_ISO (y - 1) \<le> date_of t"
    using n week1_start_bounds(2) [of f use_ISO "y - 1"] year_start_pred [of y] year_len_bounds [of "y - 1"] by simp
  moreover have "date_of t < week1_start f use_ISO (y + 1 + 1)"
    using n week1_start_bounds(1) [of "y + 1 + 1" f use_ISO] year_start_Suc [of "y + 1"] year_len_bounds [of "y + 1"] by simp
  ultimately show ?thesis
    using assms(2) by (auto simp: week_spec_def Let_def simp flip: y_def split: if_splits) (auto simp: y_def)
qed

lemma week_number_range:
  assumes "week1_start f use_ISO y \<le> n" "n < week1_start f use_ISO (y + 1)"
  shows "1 \<le> (n - week1_start f use_ISO y) div 7 + 1" "(n - week1_start f use_ISO y) div 7 + 1 \<le> 53"
  using assms year_of_weeks(1) [of f use_ISO y] by auto

lemma week_zero_range:
  fixes f use_ISO
  assumes "valid_tm_date t"
  defines "s \<equiv> week1_start f use_ISO (tm_year t + 1900)"
  shows "0 \<le> (date_of t - s) div 7 + 1" "(date_of t - s) div 7 + 1 \<le> 53"
    "date_of t < s \<Longrightarrow> (date_of t - s) div 7 + 1 = 0"
proof -
  let ?y = "tm_year t + 1900"
  have n: "year_start ?y \<le> date_of t" "date_of t < year_start ?y + 366"
    using date_of_bounds [OF assms(1)] year_start_Suc [of ?y] year_len_bounds [of ?y] by auto
  have b: "year_start ?y - 3 \<le> s" "s \<le> year_start ?y + 6"
    using week1_start_bounds(1) [of ?y f use_ISO] week1_start_bounds(2) [of f use_ISO ?y] by (auto simp: s_def)
  have "- 6 \<le> date_of t - s" "date_of t - s \<le> 368" using n b by linarith+
  then show "0 \<le> (date_of t - s) div 7 + 1" "(date_of t - s) div 7 + 1 \<le> 53"
    "date_of t < s \<Longrightarrow> (date_of t - s) div 7 + 1 = 0" by linarith+
qed

lemma week_spec_range:
  assumes "valid_tm_date t"
  shows "0 \<le> fst (week_spec t f start use_ISO) \<and> fst (week_spec t f start use_ISO) \<le> 53"
proof (cases start)
  case WEEK_ZERO
  with week_zero_range(1,2) [OF assms, where f = f and use_ISO = use_ISO] show ?thesis
    by (simp add: week_spec_def Let_def)
next
  case WEEK_ONE
  obtain k y where sp: "week_spec t f WEEK_ONE use_ISO = (k, y)" by fastforce
  from week_spec_WEEK_ONE [OF assms sp] week_number_range [of f use_ISO y "date_of t"] sp WEEK_ONE
  show ?thesis by auto
qed

text \<open>C4: MySQL's day number is the civil day count. For every time from year 1 to year 5883515, \<open>get_day_num\<close>
  of the fields of that time is the number of days from the epoch plus 719528, so consecutive
  days have consecutive numbers whatever month, year or century lies between them, and none of the computations
  in \<open>int\<close> overflows. In the year 5883516 the first sum does.\<close>

theorem get_day_num_counts_days:
  assumes "1 \<le> tm_year (gmtime s) + 1900" and "tm_year (gmtime s) + 1900 \<le> 5883515"
  shows "get_day_num (gmtime s) = s div 86400 + 719528"
  using assms gmtime_date [of s] valid_date_day [OF gmtime_date(1), of s]
  by (subst get_day_num_correct) (auto simp: valid_date_def date_of_def epoch_day_def)

theorem get_day_num_counts_days_witness: "get_day_num (gmtime 1708473600) = 1708473600 div 86400 + 719528"
  by (rule get_day_num_counts_days) code_simp+

lemma get_day_num_overflows:
  "get_day_num (tm_zero\<lparr>tm_year := 5883516 - 1900, tm_mon := 11, tm_mday := 31\<rparr>) < 0"
  by code_simp

text \<open>The weekday derived from the day number is the weekday of \<open>gmtime\<close>: with SUNDAY as the
  first day of the week it is \<open>tm_wday\<close>, and with MONDAY it is the same day counted from Monday.\<close>

theorem get_weekday_is_tm_wday:
  assumes "1 \<le> tm_year (gmtime s) + 1900" "tm_year (gmtime s) + 1900 \<le> 9999"
  defines "n \<equiv> word_of_int (get_day_num (gmtime s))"
  shows "uint (get_weekday_from_day_num n SUNDAY) = tm_wday (gmtime s)
    \<and> uint (get_weekday_from_day_num n MONDAY) = (tm_wday (gmtime s) + 6) mod 7"
proof -
  let ?n = "date_of (gmtime s)"
  have n: "0 \<le> ?n" "?n \<le> 3660000"
    using date_of_bounds [OF gmtime_date(1), of s] assms
      year_start_range [of "tm_year (gmtime s) + 1900"] year_start_range [of "tm_year (gmtime s) + 1900 + 1"] by auto
  have num: "get_day_num (gmtime s) = ?n + 366"
    using assms gmtime_date(1) [of s] valid_date_day [OF gmtime_date(1), of s]
    by (intro get_day_num_correct) (auto simp: valid_date_def)
  have wd: "tm_wday (gmtime s) = (?n + 1) mod 7"
    using gmtime_date(2) [of s] by (simp add: date_of_def) (simp add: gmtime_def Let_def)
  have "uint (get_weekday_from_day_num (word_of_int (?n + 366)) SUNDAY) = (?n + 1) mod 7"
    using n add_371_mod_7 [of "?n + 1"] by (subst get_weekday_correct) (auto simp: add.commute)
  moreover have "uint (get_weekday_from_day_num (word_of_int (?n + 366)) MONDAY) = ((?n + 1) mod 7 + 6) mod 7"
    using n add_371_mod_7 [of ?n] by (subst get_weekday_correct) (auto simp: mod_simps add.commute)
  ultimately show ?thesis unfolding n_def num wd by simp
qed

theorem get_weekday_is_tm_wday_witness:
  "uint (get_weekday_from_day_num (word_of_int (get_day_num (gmtime 1708473600))) SUNDAY) = tm_wday (gmtime 1708473600)
   \<and> uint (get_weekday_from_day_num (word_of_int (get_day_num (gmtime 1708473600))) MONDAY) = (tm_wday (gmtime 1708473600) + 6) mod 7"
  by (rule get_weekday_is_tm_wday) code_simp+

text \<open>C3: The week in the modes with range 1-53 (\<open>%V\<close>, \<open>%v\<close>, \<open>%X\<close>, \<open>%x\<close>): the reported year is
  the one whose weeks contain the date, from its week 1 up to week 1 of the following year, and
  the week is the number of whole weeks since then plus one, between 1 and 53. Week 1 is the
  first week with a day of the first weekday in the year, or, for ISO, the first one with 4 or
  more days in it.\<close>

theorem get_week_range_one:
  assumes "valid_tm_date t" "1 \<le> tm_year t + 1900" "tm_year t + 1900 \<le> 9999"
    and "get_week t f WEEK_ONE use_ISO = (wk, wy)"
  shows "\<exists>s s'. first_week f use_ISO (uint wy) s \<and> first_week f use_ISO (uint wy + 1) s'
    \<and> s \<le> date_of t \<and> date_of t < s' \<and> wk = (date_of t - s) div 7 + 1 \<and> 1 \<le> wk \<and> wk \<le> 53"
proof -
  obtain k y where sp: "week_spec t f WEEK_ONE use_ISO = (k, y)" by fastforce
  with assms get_week_week_spec [of t f WEEK_ONE use_ISO] have e: "wk = k" "wy = word_of_int y" by auto
  note w = week_spec_WEEK_ONE [OF assms(1) sp]
  then have "uint wy = y" using assms(2,3) e by (auto intro: uint_u32)
  with w e week_number_range [of f use_ISO y "date_of t"] show ?thesis
    by (intro exI [of _ "week1_start f use_ISO y"] exI [of _ "week1_start f use_ISO (y + 1)"])
      (simp add: first_week_week1_start)
qed

definition sample_date :: "int \<Rightarrow> int \<Rightarrow> int \<Rightarrow> tm" where
  "sample_date y m d = tm_zero\<lparr>tm_year := y - 1900, tm_mon := m - 1, tm_mday := d\<rparr>"

theorem get_week_range_one_witness:
  "\<exists>s s'. first_week MONDAY True (uint (2026 :: u32)) s \<and> first_week MONDAY True (uint (2026 :: u32) + 1) s'
    \<and> s \<le> date_of (sample_date 2027 1 1) \<and> date_of (sample_date 2027 1 1) < s'
    \<and> 53 = (date_of (sample_date 2027 1 1) - s) div 7 + 1 \<and> 1 \<le> (53::int) \<and> (53::int) \<le> 53"
  by (rule get_week_range_one) code_simp+

text \<open>The week in the modes with range 0-53 (\<open>%U\<close>, \<open>%u\<close>): the year is the year of the date,
  and the days before its week 1 are week 0.\<close>

theorem get_week_range_zero:
  assumes "valid_tm_date t" "1 \<le> tm_year t + 1900" "tm_year t + 1900 \<le> 9999"
    and "get_week t f WEEK_ZERO use_ISO = (wk, wy)"
  shows "uint wy = tm_year t + 1900 \<and> 0 \<le> wk \<and> wk \<le> 53 \<and> (\<exists>s. first_week f use_ISO (tm_year t + 1900) s
    \<and> wk = (if date_of t < s then 0 else (date_of t - s) div 7 + 1))"
proof -
  let ?y = "tm_year t + 1900"
  let ?s = "week1_start f use_ISO ?y"
  have e: "wk = (date_of t - ?s) div 7 + 1" "wy = word_of_int ?y"
    using assms get_week_week_spec [of t f WEEK_ZERO use_ISO] by (simp_all add: week_spec_def Let_def)
  have "0 \<le> wk" "wk \<le> 53" "date_of t < ?s \<Longrightarrow> wk = 0"
    unfolding e(1) by (fact week_zero_range [OF assms(1)])+
  moreover have "uint wy = ?y" unfolding e(2) using assms(2,3) by (intro uint_u32) auto
  ultimately show ?thesis
    using e(1) by (auto intro!: exI [of _ ?s] simp: first_week_week1_start)
qed

theorem get_week_range_zero_witness:
  "uint (2027 :: u32) = tm_year (sample_date 2027 1 1) + 1900 \<and> 0 \<le> (0::int) \<and> (0::int) \<le> 53
    \<and> (\<exists>s. first_week MONDAY True (tm_year (sample_date 2027 1 1) + 1900) s
      \<and> 0 = (if date_of (sample_date 2027 1 1) < s then 0 else (date_of (sample_date 2027 1 1) - s) div 7 + 1))"
  by (rule get_week_range_zero) code_simp+

end
