(* ===== verification/DateFormat.thy ===== *)
theory DateFormat
  imports CText DateWeek "HOL-Library.Monad_Syntax"
begin

text \<open>
  \<open>src/aux/ydboctodateformat.c\<close>, the implementation of MySQL's \<open>DATE_FORMAT()\<close>: the parser of
  the date argument (\<open>get_date_from_string\<close>), the size of the output buffer
  (\<open>get_max_date_length\<close>), the expansion of the format codes that \<open>strftime\<close> does not have
  (\<open>populate_sql_time_format\<close>) and the whole external call (\<open>ydboctoDateFormatC\<close>).

  A \<open>return 1\<close> of the parser is \<open>None\<close>. The expansion fails with \<open>Null_result\<close> where the
  code returns NULL and with \<open>Assert_failed\<close> where an \<open>assert\<close> of the code would be violated, among them
  the asserts that no \<open>snprintf\<close> is truncated.
\<close>

section \<open>Parsing the date argument\<close>

definition INT32_TO_STRING_MAX :: nat where "INT32_TO_STRING_MAX = 12"
definition DEFAULT_DATE_LEN :: nat where "DEFAULT_DATE_LEN = 20"

text \<open>
  One numeric field: the run of digits at \<open>c\<close>, at most 12 of them, converted by \<open>strtol\<close> and
  compared with the range of the field.
\<close>

definition read_field :: "int \<Rightarrow> string \<Rightarrow> (int \<times> string) option" where
  "read_field max_value c =
     (let ds = takeWhile is_number c; (v, erange) = strtol ds
      in if INT32_TO_STRING_MAX < length ds then None
         else if \<not> ((v = LONG_MIN \<or> v = LONG_MAX) \<and> erange) \<and> 0 \<le> v \<and> v \<le> max_value
         then Some (v, dropWhile is_number c)
         else None)"

text \<open>\<open>PROCESS_NONALPHABETIC_DELIMITER\<close>: \<open>None\<close> is its \<open>return 1\<close>.\<close>

fun skip_nonalphabetic :: "string \<Rightarrow> string option" where
  "skip_nonalphabetic [] = Some []"
| "skip_nonalphabetic (c # s) =
     (if is_number c then Some (c # s) else if is_alphabetic c then None else skip_nonalphabetic s)"

text \<open>\<open>PROCESS_ALPHABETIC_DELIMITER\<close>: a letter ends the string there.\<close>

fun skip_alphabetic :: "string \<Rightarrow> string" where
  "skip_alphabetic [] = []"
| "skip_alphabetic (c # s) =
     (if is_number c then c # s else if is_alphabetic c then [] else skip_alphabetic s)"

definition get_year :: "string \<Rightarrow> tm \<Rightarrow> (string \<times> tm) option" where
  "get_year c t =
     (if c = [] then Some (c, t)
      else do {
        (v, c) \<leftarrow> read_field 9999 c;
        if peek c \<noteq> CHR ''-'' then None
        else do { c \<leftarrow> skip_nonalphabetic c; Some (c, t\<lparr>tm_year := v - 1900\<rparr>) } })"

definition get_month :: "string \<Rightarrow> tm \<Rightarrow> (string \<times> tm) option" where
  "get_month c t =
     (if c = [] then Some (c, t)
      else do {
        (v, c) \<leftarrow> read_field 12 c;
        if peek c \<noteq> CHR ''-'' then None
        else do { c \<leftarrow> skip_nonalphabetic c; Some (c, t\<lparr>tm_mon := v - 1\<rparr>) } })"

definition get_day :: "string \<Rightarrow> tm \<Rightarrow> (string \<times> tm) option" where
  "get_day c t =
     (if c = [] then Some (c, t)
      else do { (v, c) \<leftarrow> read_field 31 c; Some (c, t\<lparr>tm_mday := v\<rparr>) })"

definition after_day :: "string \<Rightarrow> tm \<Rightarrow> string \<times> tm" where
  "after_day c t =
     (let c = skip_alphabetic c
      in (c, if c = [] then t\<lparr>tm_hour := 0, tm_min := 0, tm_sec := 0\<rparr> else t))"

definition get_hour :: "string \<Rightarrow> tm \<Rightarrow> (string \<times> tm) option" where
  "get_hour c t =
     (if c = [] then Some (c, t)
      else do {
        (v, c) \<leftarrow> read_field 23 c;
        let c = skip_alphabetic c;
        let t = t\<lparr>tm_hour := v\<rparr>;
        Some (c, if c = [] then t\<lparr>tm_min := 0, tm_sec := 0\<rparr> else t) })"

definition get_minute :: "string \<Rightarrow> tm \<Rightarrow> (string \<times> tm) option" where
  "get_minute c t =
     (if c = [] then Some (c, t)
      else do {
        (v, c) \<leftarrow> read_field 59 c;
        let c = skip_alphabetic c;
        let t = t\<lparr>tm_min := v\<rparr>;
        Some (c, if c = [] then t\<lparr>tm_sec := 0\<rparr> else t) })"

definition get_second :: "string \<Rightarrow> tm \<Rightarrow> (string \<times> tm) option" where
  "get_second c t =
     (if c = [] then Some (c, t)
      else do { (v, c) \<leftarrow> read_field 59 c; Some (c, t\<lparr>tm_sec := v\<rparr>) })"

definition revised_date :: "tm \<Rightarrow> string" where
  "revised_date t =
     show_int (tm_year t + 1900) @ ''-'' @ show_int (tm_mon t + 1) @ ''-'' @ show_int (tm_mday t) @ '' ''
     @ show_int (tm_hour t) @ '':'' @ show_int (tm_min t) @ '':'' @ show_int (tm_sec t)"

definition get_date_from_string :: "string \<Rightarrow> nat \<Rightarrow> tm \<Rightarrow> (string \<times> tm) option" where
  "get_date_from_string s out_len t =
     do {
       (c, t) \<leftarrow> get_year s t;
       (c, t) \<leftarrow> get_month c t;
       (c, t) \<leftarrow> get_day c t;
       let (c, t) = after_day c t;
       (c, t) \<leftarrow> get_hour c t;
       (c, t) \<leftarrow> get_minute c t;
       (c, t) \<leftarrow> get_second c t;
       Some (take (out_len - 1) (revised_date t), t)
     }"

section \<open>The size of the output\<close>

definition code_length :: "char \<Rightarrow> nat" where
  "code_length c =
     (if c \<in> set ''dHhIiklpSsmwyec'' then 2
      else if c \<in> set ''abj'' then 3
      else if c \<in> set ''YDXx'' then 4
      else if c \<in> set ''UuVv'' then 10
      else if c = CHR ''f'' then 6
      else if c = CHR ''T'' then 8
      else if c \<in> set ''MW'' then 9
      else if c = CHR ''r'' then 11
      else 1)"

text \<open>The loop does not skip the character after a \<open>%\<close>; it is counted again.\<close>

fun format_length :: "string \<Rightarrow> nat" where
  "format_length [] = 0"
| "format_length [c] = 1"
| "format_length (c # d # r) = (if c = CHR ''%'' then code_length d else 1) + format_length (d # r)"

definition get_max_date_length :: "string \<Rightarrow> nat" where
  "get_max_date_length fmt = format_length fmt + 1"

section \<open>Expanding one format code\<close>

datatype fmt_error = Null_result | Assert_failed

type_synonym fmt_step = "fmt_error + (string \<times> tm \<times> bool)"

text \<open>
  A step is the text written to the buffer, the fields of the date after the step, and whether
  it sets \<open>*call_strftime\<close>. \<open>snprintf_chk\<close> is \<open>snprintf (.., max, ..)\<close> followed by the
  assert that nothing was cut off.
\<close>

definition snprintf_chk :: "nat \<Rightarrow> string \<Rightarrow> fmt_error + string" where
  "snprintf_chk size_max s = (if length s < size_max then Inr s else Inl Assert_failed)"

definition put_text :: "tm \<Rightarrow> bool \<Rightarrow> fmt_error + string \<Rightarrow> fmt_step" where
  "put_text t call s = (case s of Inl e \<Rightarrow> Inl e | Inr x \<Rightarrow> Inr (x, t, call))"

definition date_suffix :: "string \<Rightarrow> fmt_error + string" where
  "date_suffix s =
     (if length s = 2 \<and> hd s = CHR ''1'' then Inr ''th''
      else if last s = CHR ''1'' then Inr ''st''
      else if last s = CHR ''2'' then Inr ''nd''
      else if last s = CHR ''3'' then Inr ''rd''
      else if last s \<in> set ''4567890'' then Inr ''th''
      else Inl Assert_failed)"

definition fmt_e :: "tm \<Rightarrow> fmt_step" where
  "fmt_e t = put_text t False (snprintf_chk 3 (show_int (tm_mday t)))"

definition fmt_D :: "tm \<Rightarrow> fmt_step" where
  "fmt_D t =
     (case snprintf_chk 5 (show_int (tm_mday t)) of
        Inl e \<Rightarrow> Inl e
      | Inr s \<Rightarrow> put_text t False (case date_suffix s of Inl e \<Rightarrow> Inl e | Inr x \<Rightarrow> Inr (s @ x)))"

definition fmt_f :: "tm \<Rightarrow> fmt_step" where
  "fmt_f t = put_text t False (snprintf_chk 7 ''000000'')"

definition fmt_weekday :: "char \<Rightarrow> tm \<Rightarrow> fmt_step" where
  "fmt_weekday c t =
     (let t = (if tm_mday t \<noteq> 0 \<and> 0 \<le> tm_mon t \<and> tm_year t + 1900 \<noteq> 0 then t
               else t\<lparr>tm_wday := sint (get_weekday_from_day_num (word_of_int (get_day_num t)) SUNDAY)\<rparr>)
      in Inr ([CHR ''%'', if c = CHR ''W'' then CHR ''A'' else c], t, True))"

definition fmt_k :: "tm \<Rightarrow> fmt_step" where
  "fmt_k t = put_text t False (snprintf_chk 3 (show_int (tm_hour t)))"

definition fmt_l :: "tm \<Rightarrow> fmt_step" where
  "fmt_l t =
     (case twenty_four_to_twelve_hour (tm_hour t) of
        None \<Rightarrow> Inl Assert_failed
      | Some h \<Rightarrow> put_text t False (snprintf_chk 3 (show_int h)))"

definition fmt_Y :: "tm \<Rightarrow> fmt_step" where
  "fmt_Y t = put_text t False (snprintf_chk 5 (show_padded 4 (tm_year t + 1900)))"

definition fmt_week_year :: "char \<Rightarrow> tm \<Rightarrow> fmt_step" where
  "fmt_week_year c t =
     (let year = snd (if c = CHR ''X'' then get_week t SUNDAY WEEK_ONE False
                      else get_week t MONDAY WEEK_ONE True)
      in put_text t False (snprintf_chk 5 (show_padded 4 (sint year))))"

definition fmt_c :: "tm \<Rightarrow> fmt_step" where
  "fmt_c t = put_text t False (snprintf_chk 3 (show_int (tm_mon t + 1)))"

text \<open>\<open>PRINT_WEEK\<close>\<close>

definition print_week :: "int \<Rightarrow> fmt_error + string" where
  "print_week week =
     snprintf_chk 10 (if week < 10 then CHR ''0'' # show_int week else show_int week)"

definition fmt_week :: "char \<Rightarrow> tm \<Rightarrow> fmt_step" where
  "fmt_week c t =
     (if c = CHR ''U'' then put_text t False (print_week (fst (get_week t SUNDAY WEEK_ZERO False)))
      else if c = CHR ''u'' then put_text t True (print_week (fst (get_week t MONDAY WEEK_ZERO True)))
      else if c = CHR ''V'' then put_text t True (print_week (fst (get_week t SUNDAY WEEK_ONE False)))
      else put_text t True (print_week (fst (get_week t MONDAY WEEK_ONE True))))"

text \<open>The codes that \<open>strftime\<close> has under another letter.\<close>

definition fmt_rename :: "char \<Rightarrow> tm \<Rightarrow> fmt_step" where
  "fmt_rename c t =
     (if c = CHR ''h'' then Inr (''%I'', t, True)
      else if c = CHR ''i'' then Inr (''%M'', t, True)
      else if c = CHR ''M'' then (if tm_mon t = - 1 then Inl Null_result else Inr (''%B'', t, True))
      else Inr (''%S'', t, True))"

text \<open>The codes that \<open>strftime\<close> has under the same letter; \<open>b\<close> and \<open>j\<close> need care.\<close>

definition fmt_same :: "char \<Rightarrow> tm \<Rightarrow> fmt_step" where
  "fmt_same c t =
     (if c = CHR ''b'' \<and> tm_mon t = - 1 then Inl Null_result
      else if c = CHR ''j'' \<and> (tm_mday t = 0 \<or> 0 \<ge> tm_mon t)
      then (let t = t\<lparr>tm_yday := get_day_num t - get_day_num (t\<lparr>tm_mon := 0, tm_mday := 1\<rparr>)\<rparr>
            in if 0 > tm_yday t + 1 \<and> - 10 < tm_yday t + 1
               then put_text t False (snprintf_chk 4 (CHR ''0'' # show_int (tm_yday t + 1)))
               else Inr ([CHR ''%'', c], t, True))
      else Inr ([CHR ''%'', c], t, True))"

definition fmt_code :: "char \<Rightarrow> tm \<Rightarrow> fmt_step" where
  "fmt_code c t =
     (if c = CHR ''e'' then fmt_e t
      else if c = CHR ''D'' then fmt_D t
      else if c = CHR ''f'' then fmt_f t
      else if c \<in> set ''awW'' then fmt_weekday c t
      else if c = CHR ''k'' then fmt_k t
      else if c = CHR ''l'' then fmt_l t
      else if c = CHR ''Y'' then fmt_Y t
      else if c \<in> set ''Xx'' then fmt_week_year c t
      else if c = CHR ''c'' then fmt_c t
      else if c \<in> set ''UuVv'' then fmt_week c t
      else if c \<in> set ''hiMs'' then fmt_rename c t
      else if c \<in> set ''bdHIjprSTmy%'' then fmt_same c t
      else Inr ([c], t, False))"

section \<open>The whole format\<close>

fun populate_loop :: "string \<Rightarrow> tm \<Rightarrow> bool \<Rightarrow> fmt_step" where
  "populate_loop [] t call = Inr ([], t, call)"
| "populate_loop [c] t call = Inr ([c], t, call)"
| "populate_loop (c # d # r) t call =
     (if c = CHR ''%''
      then (case fmt_code d t of
              Inl e \<Rightarrow> Inl e
            | Inr (s, t', b) \<Rightarrow>
                (case populate_loop r t' (call \<or> b) of
                   Inl e \<Rightarrow> Inl e
                 | Inr (s', t'', call') \<Rightarrow> Inr (s @ s', t'', call')))
      else (case populate_loop (d # r) t call of
              Inl e \<Rightarrow> Inl e
            | Inr (s', t', call') \<Rightarrow> Inr (c # s', t', call')))"

text \<open>The bytes of a \<open>ydb_string_t\<close> up to the NUL the code writes, and its \<open>length\<close> field.\<close>

record ydb_string =
  address :: string
  str_length :: nat

definition populate_sql_time_format :: "string \<Rightarrow> tm \<Rightarrow> fmt_error + (ydb_string \<times> tm \<times> bool)" where
  "populate_sql_time_format fmt t =
     (case populate_loop fmt t False of
        Inl e \<Rightarrow> Inl e
      | Inr (s, t', call) \<Rightarrow> Inr (\<lparr>address = s, str_length = get_max_date_length fmt\<rparr>, t', call))"

text \<open>The switch on the month that rejects days past the end of the month.\<close>

definition day_valid :: "tm \<Rightarrow> bool" where
  "day_valid t =
     (if tm_mon t \<in> {- 1, 0, 2, 4, 6, 7, 9, 11} then \<not> 31 < tm_mday t
      else if tm_mon t \<in> {3, 5, 8, 10} then \<not> 30 < tm_mday t
      else if tm_mon t = 1 then
        (if is_leap (word_of_int (tm_year t + 1900)) then \<not> 29 < tm_mday t else \<not> 28 < tm_mday t)
      else False)"

definition ydb_null :: ydb_string where
  "ydb_null = \<lparr>address = [], str_length = 0\<rparr>"

definition intermediate_format :: "string \<Rightarrow> string \<Rightarrow> tm \<Rightarrow> fmt_error + (ydb_string \<times> tm \<times> bool)" where
  "intermediate_format fmt revised t =
     (if tm_mday t = 0 \<and> tm_mon t = - 1 \<and> tm_year t = - 1900 then Inl Null_result
      else if \<not> day_valid t then Inl Null_result
      else if tm_mday t \<noteq> 0 \<and> 0 \<le> tm_mon t \<and> tm_year t + 1900 \<noteq> 0
      then (case strptime revised ''%Y-%m-%d %T'' t of
              (None, _) \<Rightarrow> Inl Null_result
            | (Some _, t') \<Rightarrow> populate_sql_time_format fmt t')
      else populate_sql_time_format fmt t)"

definition ydboctoDateFormatC :: "string \<Rightarrow> string \<Rightarrow> fmt_error + ydb_string" where
  "ydboctoDateFormatC date fmt =
     (case get_date_from_string (c_str date) DEFAULT_DATE_LEN tm_zero of
        None \<Rightarrow> Inr ydb_null
      | Some (revised, t) \<Rightarrow>
          (case intermediate_format fmt revised t of
             Inl Null_result \<Rightarrow> Inr ydb_null
           | Inl Assert_failed \<Rightarrow> Inl Assert_failed
           | Inr (ifmt, t', call_strftime) \<Rightarrow>
               (if call_strftime
                then (let s = strftime (str_length ifmt) (c_str (address ifmt)) t'
                      in Inr \<lparr>address = s, str_length = length s\<rparr>)
                else Inr ifmt)))"

section \<open>Bounds of the parsed date\<close>

text \<open>The ranges of the fields that the parser leaves, and of the two derived fields.\<close>

definition parsed_tm :: "tm \<Rightarrow> bool" where
  "parsed_tm t \<longleftrightarrow> - 1900 \<le> tm_year t \<and> tm_year t \<le> 8099 \<and> - 1 \<le> tm_mon t \<and> tm_mon t \<le> 11
     \<and> 0 \<le> tm_mday t \<and> tm_mday t \<le> 31 \<and> 0 \<le> tm_hour t \<and> tm_hour t \<le> 23
     \<and> 0 \<le> tm_min t \<and> tm_min t \<le> 59 \<and> 0 \<le> tm_sec t \<and> tm_sec t \<le> 59"

definition printable_tm :: "tm \<Rightarrow> bool" where
  "printable_tm t \<longleftrightarrow> parsed_tm t \<and> 0 \<le> tm_wday t \<and> tm_wday t \<le> 6 \<and> - 50 \<le> tm_yday t \<and> tm_yday t \<le> 400"

lemma read_field_bounds: "read_field hi c = Some (v, r) \<Longrightarrow> 0 \<le> v \<and> v \<le> hi"
  by (auto simp: read_field_def Let_def split: prod.splits if_splits)

lemma get_year_printable: "get_year c t = Some (r, t') \<Longrightarrow> printable_tm t \<Longrightarrow> printable_tm t'"
  by (auto simp: get_year_def printable_tm_def parsed_tm_def split: if_splits Option.bind_splits prod.splits dest!: read_field_bounds)

lemma get_month_printable: "get_month c t = Some (r, t') \<Longrightarrow> printable_tm t \<Longrightarrow> printable_tm t'"
  by (auto simp: get_month_def printable_tm_def parsed_tm_def split: if_splits Option.bind_splits prod.splits dest!: read_field_bounds)

lemma get_day_printable: "get_day c t = Some (r, t') \<Longrightarrow> printable_tm t \<Longrightarrow> printable_tm t'"
  by (auto simp: get_day_def printable_tm_def parsed_tm_def split: if_splits Option.bind_splits prod.splits dest!: read_field_bounds)

lemma after_day_printable: "after_day c t = (r, t') \<Longrightarrow> printable_tm t \<Longrightarrow> printable_tm t'"
  by (auto simp: after_day_def printable_tm_def parsed_tm_def Let_def split: if_splits)

lemma get_hour_printable: "get_hour c t = Some (r, t') \<Longrightarrow> printable_tm t \<Longrightarrow> printable_tm t'"
  by (auto simp: get_hour_def printable_tm_def parsed_tm_def Let_def split: if_splits Option.bind_splits prod.splits dest!: read_field_bounds)

lemma get_minute_printable: "get_minute c t = Some (r, t') \<Longrightarrow> printable_tm t \<Longrightarrow> printable_tm t'"
  by (auto simp: get_minute_def printable_tm_def parsed_tm_def Let_def split: if_splits Option.bind_splits prod.splits dest!: read_field_bounds)

lemma get_second_printable: "get_second c t = Some (r, t') \<Longrightarrow> printable_tm t \<Longrightarrow> printable_tm t'"
  by (auto simp: get_second_def printable_tm_def parsed_tm_def split: if_splits Option.bind_splits prod.splits dest!: read_field_bounds)

lemma get_date_printable:
  assumes "get_date_from_string s n tm_zero = Some (r, t)"
  shows "printable_tm t" "r = take (n - 1) (revised_date t)"
proof -
  have "printable_tm tm_zero" by (simp add: printable_tm_def parsed_tm_def tm_zero_def)
  with assms show "printable_tm t"
    by (auto simp: get_date_from_string_def split: Option.bind_splits prod.splits
        dest!: get_second_printable get_minute_printable get_hour_printable after_day_printable get_day_printable
          get_month_printable get_year_printable)
  show "r = take (n - 1) (revised_date t)"
    using assms by (auto simp: get_date_from_string_def split: Option.bind_splits prod.splits)
qed

lemma parsed_day_second_digits:
  assumes "parsed_tm t"
  shows "length (show_int (tm_mon t + 1)) \<le> 2" "length (show_int (tm_mday t)) \<le> 2"
    "length (show_int (tm_hour t)) \<le> 2" "length (show_int (tm_min t)) \<le> 2"
    "length (show_int (tm_sec t)) \<le> 2" "length (show_int (tm_year t + 1900)) \<le> 4"
  using assms by (auto simp: parsed_tm_def show_int_def intro!: length_show_nat_2 length_show_nat_4)

lemma length_revised_date: "parsed_tm t \<Longrightarrow> length (revised_date t) \<le> 19"
  using parsed_day_second_digits [of t] by (simp add: revised_date_def)

section \<open>Rereading the normalised date\<close>

lemma peek_append_nonempty: "s \<noteq> [] \<Longrightarrow> peek (s @ r) = peek s"
  by (cases s) auto

lemma show_int_not_space: "0 \<le> v \<Longrightarrow> \<not> is_space (peek (show_int v))"
proof -
  assume "0 \<le> v"
  then have "show_int v = show_nat (nat v)" by (simp add: show_int_def)
  moreover have "peek (show_nat (nat v)) = hd (show_nat (nat v))"
    by (cases "show_nat (nat v)") auto
  ultimately show ?thesis by (metis is_number_space show_nat_hd_number)
qed

lemma show_int_nonempty [simp]: "show_int v \<noteq> []"
  by (simp add: show_int_def)

lemma dropWhile_space_show_int: "0 \<le> v \<Longrightarrow> dropWhile is_space (show_int v @ r) = show_int v @ r"
  using show_int_not_space [of v] by (cases "show_int v") auto

lemma expand_date_time: "expand_T ''%Y-%m-%d %T'' = ''%Y-%m-%d %H:%M:%S''"
  by code_simp

lemma tm_update_same [simp]:
  "t\<lparr>tm_year := tm_year t\<rparr> = t" "t\<lparr>tm_mon := tm_mon t\<rparr> = t" "t\<lparr>tm_mday := tm_mday t\<rparr> = t"
  "t\<lparr>tm_hour := tm_hour t\<rparr> = t" "t\<lparr>tm_min := tm_min t\<rparr> = t" "t\<lparr>tm_sec := tm_sec t\<rparr> = t"
  by simp_all

lemma strptime_revised:
  assumes "parsed_tm t" "1 \<le> tm_mday t" "0 \<le> tm_mon t"
  shows "strptime (revised_date t) ''%Y-%m-%d %T'' t = (Some [], set_week_and_year_day t)"
proof -
  note w = parsed_day_second_digits [OF assms(1)]
  have nn: "0 \<le> tm_year t + 1900" "0 \<le> tm_mon t + 1" "0 \<le> tm_hour t"
    using assms by (auto simp: parsed_tm_def)
  have y: "get_number 0 9999 4 (show_int (tm_year t + 1900) @ CHR ''-'' # r) = Some (tm_year t + 1900, CHR ''-'' # r)" for r
    using assms w by (intro get_number_show_int) (auto simp: parsed_tm_def show_int_def)
  have m: "get_number 1 12 2 (show_int (tm_mon t + 1) @ CHR ''-'' # r) = Some (tm_mon t + 1, CHR ''-'' # r)" for r
    using assms w by (intro get_number_show_int) (auto simp: parsed_tm_def show_int_def)
  have d: "get_number 1 31 2 (show_int (tm_mday t) @ CHR '' '' # r) = Some (tm_mday t, CHR '' '' # r)" for r
    using assms w by (intro get_number_show_int) (auto simp: parsed_tm_def show_int_def)
  have h: "get_number 0 23 2 (show_int (tm_hour t) @ CHR '':'' # r) = Some (tm_hour t, CHR '':'' # r)" for r
    using assms w by (intro get_number_show_int) (auto simp: parsed_tm_def show_int_def)
  have i: "get_number 0 59 2 (show_int (tm_min t) @ CHR '':'' # r) = Some (tm_min t, CHR '':'' # r)" for r
    using assms w by (intro get_number_show_int) (auto simp: parsed_tm_def show_int_def)
  have s: "get_number 0 61 2 (show_int (tm_sec t)) = Some (tm_sec t, [])"
    using assms w get_number_show_int [of "tm_sec t" 61 0 2 "[]"] by (auto simp: parsed_tm_def show_int_def)
  have sp: "is_space CHR '' ''" "\<not> is_space CHR ''%''" "\<not> is_space CHR ''-''" "\<not> is_space CHR '':''"
    by (simp_all add: is_space_def)
  have "strptime_loop (revised_date t) ''%Y-%m-%d %H:%M:%S'' t False = (Some [], t, True)"
    using nn by (simp add: revised_date_def sp strptime_conv_def y m d h i s dropWhile_space_show_int)
  with assms show ?thesis
    by (simp add: strptime_def expand_date_time parsed_tm_def)
qed

lemma set_week_and_year_day_printable:
  assumes "parsed_tm t" "0 \<le> tm_mon t" "1 \<le> tm_mday t"
  shows "printable_tm (set_week_and_year_day t)"
proof -
  have "0 \<le> month_start (leap (tm_year t + 1900)) (tm_mon t)" "month_start (leap (tm_year t + 1900)) (tm_mon t) \<le> 366"
    using assms month_start_bounds [of "tm_mon t" "leap (tm_year t + 1900)"]
    by (auto simp: parsed_tm_def split: if_splits)
  with assms show ?thesis
    by (simp add: printable_tm_def parsed_tm_def set_week_and_year_day_def Let_def)
qed

section \<open>What one format code writes\<close>

text \<open>
  A step writes plain text without \<open>%\<close>, or a \<open>%\<close> and a code for \<open>strftime\<close>. Such pieces can
  be expanded by \<open>strftime\<close> one by one, and cutting the text at its first NUL does not cut
  a code in half.
\<close>

definition piece :: "string \<Rightarrow> bool" where
  "piece s \<longleftrightarrow> CHR ''%'' \<notin> set s \<or> (\<exists>d. d \<noteq> NUL \<and> s = [CHR ''%'', d])"

lemma strftime_text_plain: "CHR ''%'' \<notin> set s \<Longrightarrow> strftime_text s t = s"
proof (induction s)
  case (Cons c s)
  then show ?case by (cases s) auto
qed simp

lemma strftime_text_plain_append:
  "CHR ''%'' \<notin> set s \<Longrightarrow> strftime_text (s @ r) t = s @ strftime_text r t"
proof (induction s)
  case (Cons c s)
  then show ?case by (cases "s @ r") auto
qed simp

lemma strftime_text_piece: "piece s \<Longrightarrow> strftime_text (s @ r) t = strftime_text s t @ strftime_text r t"
  by (auto simp: piece_def strftime_text_plain strftime_text_plain_append)

lemma piece_c_str: "piece s \<Longrightarrow> NUL \<in> set s \<Longrightarrow> strftime_text (c_str s) t = c_str s"
  by (auto simp: piece_def NUL_def c_str_def dest: set_takeWhileD intro!: strftime_text_plain)

lemma strftime_text_c_str:
  assumes "piece s"
  shows "length (strftime_text (c_str (s @ r)) t)
    \<le> max (length s) (length (strftime_text s t)) + length (strftime_text (c_str r) t)"
  using assms length_c_str [of s] by (auto simp: c_str_append strftime_text_piece piece_c_str)

lemma show_nat_plain: "CHR ''%'' \<notin> set (show_nat n)"
  using show_nat_digits [of n] by (auto simp: list_all_iff is_number_def)

lemma show_int_plain [simp]: "CHR ''%'' \<notin> set (show_int i)"
  by (simp add: show_int_def show_nat_plain)

lemma show_padded_plain [simp]: "CHR ''%'' \<notin> set (show_padded w i)"
  by (auto simp: show_padded_def Let_def show_nat_plain set_replicate_conv_if)

lemma show_padded_length:
  assumes "- 9 \<le> i" "i \<le> 99"
  shows "length (show_padded 2 i) = 2"
proof (cases "0 \<le> i")
  case True
  with assms show ?thesis by (intro length_show_padded) (auto intro!: length_show_nat_2)
next
  case False
  with assms show ?thesis
    using length_show_nat_1 [of "nat (- i)"] by (simp add: show_padded_def Let_def)
qed

lemma show_padded_3_length:
  assumes "- 50 \<le> i" "i \<le> 999"
  shows "length (show_padded 3 i) = 3"
proof (cases "0 \<le> i")
  case True
  with assms length_show_nat_less [of "nat i" 2] show ?thesis by (intro length_show_padded) auto
next
  case False
  with assms show ?thesis
    using length_show_nat_2 [of "nat (- i)"] by (simp add: show_padded_def Let_def)
qed

lemma show_padded_4_length:
  assumes "- 999 \<le> i" "i \<le> 9999"
  shows "length (show_padded 4 i) = 4"
proof (cases "0 \<le> i")
  case True
  with assms length_show_nat_less [of "nat i" 3] show ?thesis by (intro length_show_padded) auto
next
  case False
  with assms show ?thesis
    using length_show_nat_less [of "nat (- i)" 2] by (simp add: show_padded_def Let_def)
qed

lemma length_names:
  "length (take 3 (name_at weekday_names i)) \<le> 3" "length (name_at weekday_names i) \<le> 9"
  "length (take 3 (name_at month_names m)) \<le> 3" "length (name_at month_names m) \<le> 9"
proof -
  have "list_all (\<lambda>s. length s \<le> 9) weekday_names" "list_all (\<lambda>s. length s \<le> 9) month_names"
    by code_simp+
  then show "length (name_at weekday_names i) \<le> 9" "length (name_at month_names m) \<le> 9"
    by (auto simp: name_at_def list_all_length)
qed simp_all

lemma strftime_conv_length:
  assumes "printable_tm t" "c \<in> set ''aAbBdHIjMmprSTwy%''"
  shows "length (strftime_conv c t)
    \<le> (if c \<in> set ''AB'' then 9 else if c \<in> set ''abj'' then 3 else if c = CHR ''r'' then 11
       else if c = CHR ''T'' then 8 else if c = CHR ''%'' then 1 else 2)"
proof -
  have b: "length (show_padded 2 (tm_mday t)) = 2" "length (show_padded 2 (tm_hour t)) = 2"
    "length (show_padded 2 (hour12 (tm_hour t))) = 2" "length (show_padded 2 (tm_min t)) = 2"
    "length (show_padded 2 (tm_sec t)) = 2" "length (show_padded 2 (tm_mon t + 1)) = 2"
    "length (show_padded 3 (tm_yday t + 1)) = 3" "length (show_int (tm_wday t)) \<le> 2"
    using assms(1) by (auto simp: printable_tm_def parsed_tm_def hour12_def
        intro!: show_padded_length show_padded_3_length length_show_int_2)
  have y: "length (show_padded 2 ((tm_year t + 1900) mod 100)) = 2"
    using pos_mod_bound [of 100 "tm_year t + 1900"] pos_mod_sign [of 100 "tm_year t + 1900"]
    by (intro show_padded_length) auto
  have c: "c \<in> {CHR ''a'', CHR ''A'', CHR ''b'', CHR ''B'', CHR ''d'', CHR ''H'', CHR ''I'', CHR ''j'', CHR ''M'',
      CHR ''m'', CHR ''p'', CHR ''r'', CHR ''S'', CHR ''T'', CHR ''w'', CHR ''y'', CHR ''%''}"
    using assms(2) by auto
  have p: "length (am_pm (tm_hour t)) = 2" by (simp add: am_pm_def)
  from c show ?thesis
    by (elim insertE emptyE) (simp_all add: strftime_conv_def b y p length_names)
qed

section \<open>Every code stays within its budget\<close>

lemma snprintf_chk_Inr [simp]: "length s < n \<Longrightarrow> snprintf_chk n s = Inr s"
  by (simp add: snprintf_chk_def)

lemma get_week_tail_year:
  "snd (get_week_tail n n1 w (word_of_int y) start use_ISO) \<in> {word_of_int y, word_of_int (y + 1)}"
  by (auto simp: get_week_tail_def Let_def)

lemma get_week_tail_number: "0 \<le> fst (get_week_tail n n1 w y start use_ISO) \<and> fst (get_week_tail n n1 w y start use_ISO) \<le> 613566757"
proof -
  have "0 \<le> sint (d div 7 + 1) \<and> sint (d div 7 + 1) \<le> 613566757" for d :: u32
  proof -
    have "uint d < 4294967296" "0 \<le> uint d" using uint_lt2p [of d] by simp_all
    then have "0 \<le> uint d div 7" "uint d div 7 \<le> 613566756" by linarith+
    moreover have "d div 7 + 1 = word_of_int (uint d div 7 + 1)"
      by (simp add: word_div_def flip: wi_hom_add)
    ultimately show ?thesis by (simp only: sint_u32) simp
  qed
  then show ?thesis by (simp add: get_week_tail_def Let_def)
qed

lemma get_week_year:
  "snd (get_week t f start use_ISO)
    \<in> {word_of_int (tm_year t + 1899), word_of_int (tm_year t + 1900), word_of_int (tm_year t + 1901)}"
proof -
  define y where "y = tm_year t + 1900"
  let ?S = "{word_of_int (y - 1), word_of_int y, word_of_int (y + 1)} :: u32 set"
  have A: "snd (get_week_tail n n1 w (word_of_int y) s i) \<in> ?S" for n n1 w s i
    using get_week_tail_year [of n n1 w y s i] by auto
  have B: "snd (get_week_tail n n1 w (word_of_int y - 1) s i) \<in> ?S" for n n1 w s i
    using get_week_tail_year [of n n1 w "y - 1" s i] by auto
  have "snd (get_week t f start use_ISO) \<in> ?S"
    unfolding get_week_def Let_def y_def [symmetric]
    by (simp only: A B snd_conv split: if_split) simp
  then show ?thesis by (simp add: y_def algebra_simps)
qed

lemma get_week_number:
  "0 \<le> fst (get_week t f start use_ISO) \<and> fst (get_week t f start use_ISO) \<le> 613566757"
  using get_week_tail_number by (simp add: get_week_def Let_def)

text \<open>The year 10000 is never reported: 1 January 10000 is a Saturday.\<close>

lemma week_year_9999:
  assumes "tm_year t = 8099" "f = SUNDAY \<and> \<not> use_ISO \<or> f = MONDAY \<and> use_ISO"
  shows "snd (get_week t f WEEK_ONE use_ISO) \<in> {9998, 9999}"
proof -
  have d: "get_day_num (t\<lparr>tm_mon := 0, tm_mday := 1\<rparr>) = 3652060"
    using assms(1) by (subst get_day_num_exact) (simp_all add: no_overflow_def)
  have c: "get_weekday_from_day_num 3652060 SUNDAY = 5" "get_weekday_from_day_num 3652060 MONDAY = 4"
    "get_days_in_year 9999 = 365" "get_days_in_year 9998 = 365"
    by code_simp+
  have A: "snd (get_week_tail n n1 5 9999 WEEK_ONE False) \<in> {9998, 9999}"
    "snd (get_week_tail n n1 4 9999 WEEK_ONE True) \<in> {9998, 9999}" for n n1
    by (simp_all add: get_week_tail_def Let_def c)
  have B: "snd (get_week_tail n n1 w 9998 WEEK_ONE i) \<in> {9998, 9999}" for n n1 w i
    using get_week_tail_year [of n n1 w 9998 WEEK_ONE i] by simp
  have y: "word_of_int (tm_year t + 1900) = (9999 :: u32)" "(9999 :: u32) - 1 = 9998"
    "word_of_int 3652060 = (3652060 :: u32)"
    using assms(1) by simp_all
  from assms(2) show ?thesis
    by (elim disjE conjE)
      (simp_all only: get_week_def Let_def d y c A B WeekRange.simps simp_thms if_False split: if_split)
qed

lemma week_year_bounds:
  assumes "parsed_tm t" "f = SUNDAY \<and> \<not> use_ISO \<or> f = MONDAY \<and> use_ISO"
  shows "- 1 \<le> sint (snd (get_week t f WEEK_ONE use_ISO)) \<and> sint (snd (get_week t f WEEK_ONE use_ISO)) \<le> 9999"
proof (cases "tm_year t = 8099")
  case True
  from week_year_9999 [OF this assms(2)] show ?thesis by auto
next
  case False
  have "sint (word_of_int i :: u32) = i" if "- 1 \<le> i" "i \<le> 9999" for i
    using that sint_u32 [of i] by (cases "i = - 1") auto
  moreover obtain i where "snd (get_week t f WEEK_ONE use_ISO) = word_of_int i"
    "tm_year t + 1899 \<le> i" "i \<le> tm_year t + 1901"
    using get_week_year [of t f WEEK_ONE use_ISO]
    by (elim insertE emptyE) (rule that, assumption, simp, simp)+
  ultimately show ?thesis
    using assms(1) False by (simp add: parsed_tm_def)
qed

lemma yday_bounds:
  assumes "parsed_tm t" "tm_mday t = 0 \<or> 0 \<ge> tm_mon t"
  shows "- 50 \<le> get_day_num t - get_day_num (t\<lparr>tm_mon := 0, tm_mday := 1\<rparr>)
    \<and> get_day_num t - get_day_num (t\<lparr>tm_mon := 0, tm_mday := 1\<rparr>) \<le> 400"
proof (cases "tm_mon t \<le> 1")
  case True
  have "no_overflow t" "no_overflow (t\<lparr>tm_mon := 0, tm_mday := 1\<rparr>)"
    using assms by (auto simp: parsed_tm_def no_overflow_def)
  with True assms show ?thesis by (auto simp: get_day_num_exact parsed_tm_def Let_def)
next
  case m: False
  have b: "0 \<le> month_start (leap y) (tm_mon t)" "month_start (leap y) (tm_mon t) \<le> 366" for y
    using m assms(1) month_start_bounds [of "tm_mon t" "leap y"]
    by (auto simp: parsed_tm_def split: if_splits)
  show ?thesis
  proof (cases "tm_year t = - 1900")
    case True
    have "((tm_mon t + 1) * 4 + 23) sdiv 10 = ((tm_mon t + 1) * 4 + 23) div 10"
      using m by (intro sdiv_nonneg) auto
    moreover have "0 sdiv 4 = (0::int)" "3 sdiv 4 = (0::int)" "(- 1) sdiv 4 = (0::int)"
      "0 sdiv 100 = (0::int)" "(- 1) sdiv 100 = (0::int)"
      by (simp_all add: signed_divide_int_def)
    ultimately show ?thesis
      using True m assms month_start_mysql [of "tm_mon t" False] b [of 1]
      by (subst (1 2 3 4) get_day_num_exact) (auto simp: no_overflow_def Let_def parsed_tm_def leap_def)
  next
    case False
    with assms m show ?thesis
      using b [of "tm_year t + 1900"]
      by (subst (1 2 3 4) get_day_num_correct)
        (auto simp: parsed_tm_def date_of_def day_number_def month_start_ends)
  qed
qed

text \<open>What a step guarantees when the fields are in range.\<close>

definition step_ok :: "char \<Rightarrow> tm \<Rightarrow> fmt_step \<Rightarrow> bool" where
  "step_ok c t r =
     (case r of
        Inl e \<Rightarrow> e = Null_result \<and> tm_mon t = - 1
      | Inr (s, t', b) \<Rightarrow> piece s \<and> printable_tm t' \<and> length s \<le> Suc (code_length c)
          \<and> (b \<or> CHR ''%'' \<notin> set s) \<and> (\<forall>u. printable_tm u \<longrightarrow> length (strftime_text s u) \<le> Suc (code_length c)))"

lemma put_text_ok:
  assumes "printable_tm t" "length s \<le> Suc (code_length c)" "CHR ''%'' \<notin> set s"
  shows "step_ok c t (put_text t b (Inr s))"
  using assms by (simp add: step_ok_def put_text_def piece_def strftime_text_plain)

lemma rename_ok:
  assumes "printable_tm t" "c \<in> set ''aAbBdHIjMmprSTwy%''"
    and "(if c \<in> set ''AB'' then 9 else if c \<in> set ''abj'' then 3 else if c = CHR ''r'' then 11
       else if c = CHR ''T'' then 8 else if c = CHR ''%'' then 1 else 2) \<le> Suc (code_length d)" "1 \<le> code_length d"
  shows "step_ok d t (Inr ([CHR ''%'', c], t, True))"
proof -
  have "c \<noteq> NUL" using assms(2) by (auto simp: NUL_def)
  moreover have "length (strftime_text [CHR ''%'', c] u) \<le> Suc (code_length d)" if "printable_tm u" for u
    using order_trans [OF strftime_conv_length [OF that assms(2)] assms(3)] by simp
  ultimately show ?thesis
    using assms by (auto simp: step_ok_def piece_def)
qed

lemma printable_parsed: "printable_tm t \<Longrightarrow> parsed_tm t"
  by (simp add: printable_tm_def)

lemma date_suffix_ok:
  assumes "0 \<le> d" "d \<le> 31"
  shows "\<exists>x. date_suffix (show_int d) = Inr x \<and> length x = 2 \<and> CHR ''%'' \<notin> set x"
proof -
  have "list_all (\<lambda>d. case date_suffix (show_int d) of Inl _ \<Rightarrow> False
      | Inr x \<Rightarrow> length x = 2 \<and> CHR ''%'' \<notin> set x) [0..31]"
    by code_simp
  with assms show ?thesis
    by (cases "date_suffix (show_int d)") (auto simp: list_all_iff split: sum.splits)
qed

lemma fmt_D_ok: assumes "printable_tm t" shows "step_ok CHR ''D'' t (fmt_D t)"
proof -
  have m: "length (show_int (tm_mday t)) \<le> 2" "0 \<le> tm_mday t" "tm_mday t \<le> 31"
    using parsed_day_second_digits [OF printable_parsed [OF assms]] printable_parsed [OF assms]
    by (auto simp: parsed_tm_def)
  from date_suffix_ok [OF m(2,3)] obtain x
    where "date_suffix (show_int (tm_mday t)) = Inr x" "length x = 2" "CHR ''%'' \<notin> set x" by blast
  with m assms put_text_ok [of t "show_int (tm_mday t) @ x" "CHR ''D''" False] show ?thesis
    by (simp add: fmt_D_def code_length_def)
qed

lemma fmt_numbers_ok:
  assumes "printable_tm t"
  shows "step_ok CHR ''e'' t (fmt_e t)" "step_ok CHR ''f'' t (fmt_f t)" "step_ok CHR ''k'' t (fmt_k t)"
    "step_ok CHR ''l'' t (fmt_l t)" "step_ok CHR ''Y'' t (fmt_Y t)" "step_ok CHR ''c'' t (fmt_c t)"
proof -
  note p = printable_parsed [OF assms]
  note b = parsed_day_second_digits [OF p]
  show "step_ok CHR ''e'' t (fmt_e t)" "step_ok CHR ''f'' t (fmt_f t)" "step_ok CHR ''k'' t (fmt_k t)"
    "step_ok CHR ''c'' t (fmt_c t)"
    using b by (auto simp: fmt_e_def fmt_f_def fmt_k_def fmt_c_def code_length_def intro!: put_text_ok assms)
  have y: "length (show_padded 4 (tm_year t + 1900)) = 4"
    using p by (intro show_padded_4_length) (auto simp: parsed_tm_def)
  then show "step_ok CHR ''Y'' t (fmt_Y t)"
    by (auto simp: fmt_Y_def code_length_def intro!: put_text_ok assms)
  have h: "0 \<le> tm_hour t" "tm_hour t \<le> 23" using p by (auto simp: parsed_tm_def)
  then have "twenty_four_to_twelve_hour (tm_hour t) = Some (hour12 (tm_hour t))"
    "length (show_int (hour12 (tm_hour t))) \<le> 2"
    by (auto simp: twenty_four_to_twelve_hour_def hour12_def intro!: length_show_int_2)
  then show "step_ok CHR ''l'' t (fmt_l t)"
    by (auto simp: fmt_l_def code_length_def intro!: put_text_ok assms)
qed

lemma print_week_ok:
  assumes "0 \<le> w" "w \<le> 613566757"
  shows "\<exists>x. print_week w = Inr x \<and> length x \<le> 9 \<and> CHR ''%'' \<notin> set x"
proof (cases "w < 10")
  case True
  with assms length_show_nat_1 [of "nat w"] have "length (show_int w) = 1" by (simp add: show_int_def)
  with True show ?thesis by (simp add: print_week_def)
next
  case False
  with assms length_show_nat_9 [of "nat w"] have "length (show_int w) \<le> 9" by (simp add: show_int_def)
  with False show ?thesis by (simp add: print_week_def)
qed

lemma fmt_week_ok:
  assumes "printable_tm t" "c \<in> set ''UuVv''"
  shows "step_ok c t (fmt_week c t)"
proof -
  have A: "step_ok c t (put_text t b (print_week (fst (get_week t f start i))))" for b f start i
  proof -
    obtain x where "print_week (fst (get_week t f start i)) = Inr x" "length x \<le> 9" "CHR ''%'' \<notin> set x"
      using print_week_ok get_week_number [of t f start i] by blast
    with assms show ?thesis by (auto simp: code_length_def intro!: put_text_ok)
  qed
  show ?thesis by (simp only: fmt_week_def A split: if_split) simp
qed

lemma fmt_week_year_ok:
  assumes "printable_tm t" "c \<in> set ''Xx''"
  shows "step_ok c t (fmt_week_year c t)"
proof -
  have "length (show_padded 4 (sint (snd (get_week t SUNDAY WEEK_ONE False)))) = 4"
    "length (show_padded 4 (sint (snd (get_week t MONDAY WEEK_ONE True)))) = 4"
    using week_year_bounds [OF printable_parsed [OF assms(1)], of SUNDAY False]
      week_year_bounds [OF printable_parsed [OF assms(1)], of MONDAY True]
    by (auto intro!: show_padded_4_length)
  with assms show ?thesis
    by (auto simp: fmt_week_year_def Let_def code_length_def intro!: put_text_ok)
qed

lemma fmt_weekday_ok:
  assumes "printable_tm t" "c \<in> set ''awW''"
  shows "step_ok c t (fmt_weekday c t)"
proof -
  let ?d = "get_weekday_from_day_num (word_of_int (get_day_num t)) SUNDAY"
  have u: "0 \<le> uint ?d" "uint ?d < 7"
    by (simp_all add: get_weekday_from_day_num_def uint_mod_u32)
  then have "sint ?d = uint ?d" using sint_u32 [of "uint ?d"] by simp
  with assms u have "printable_tm (t\<lparr>tm_wday := sint ?d\<rparr>)"
    by (simp add: printable_tm_def parsed_tm_def)
  moreover have "step_ok c t' (Inr ([CHR ''%'', if c = CHR ''W'' then CHR ''A'' else c], t', True))"
    if "printable_tm t'" for t'
    using assms(2) that by (intro rename_ok) (auto simp: code_length_def)
  ultimately show ?thesis
    using assms(1) by (simp add: fmt_weekday_def Let_def step_ok_def)
qed

lemma fmt_rename_ok:
  assumes "printable_tm t" "c \<in> set ''hiMs''"
  shows "step_ok c t (fmt_rename c t)"
proof -
  have "step_ok CHR ''h'' t (Inr (''%I'', t, True))" "step_ok CHR ''i'' t (Inr (''%M'', t, True))"
    "step_ok CHR ''M'' t (Inr (''%B'', t, True))" "step_ok CHR ''s'' t (Inr (''%S'', t, True))"
    using assms(1) by (auto simp: code_length_def intro!: rename_ok)
  with assms(2) show ?thesis by (auto simp: fmt_rename_def step_ok_def)
qed

lemma step_ok_yday: "step_ok c (t\<lparr>tm_yday := x\<rparr>) r \<longleftrightarrow> step_ok c t r"
  by (cases r) (simp_all add: step_ok_def)

lemma fmt_same_ok:
  assumes "printable_tm t" "c \<in> set ''bdHIjprSTmy%''"
  shows "step_ok c t (fmt_same c t)"
proof -
  have same: "step_ok c t' (Inr ([CHR ''%'', c], t', True))" if "printable_tm t'" for t'
    using assms(2) that by (intro rename_ok) (auto simp: code_length_def)
  let ?d = "get_day_num t - get_day_num (t\<lparr>tm_mon := 0, tm_mday := 1\<rparr>)"
  show ?thesis
  proof (cases "c = CHR ''j'' \<and> (tm_mday t = 0 \<or> 0 \<ge> tm_mon t)")
    case True
    then have t': "printable_tm (t\<lparr>tm_yday := ?d\<rparr>)"
      using yday_bounds [of t] assms(1) by (auto simp: printable_tm_def parsed_tm_def)
    have "length (show_int (?d + 1)) \<le> 2" if "- 10 < ?d + 1" "0 > ?d + 1"
      using that length_show_nat_1 [of "nat (- (?d + 1))"] by (simp add: show_int_def)
    then have "step_ok c (t\<lparr>tm_yday := ?d\<rparr>) (put_text (t\<lparr>tm_yday := ?d\<rparr>) False (snprintf_chk 4 (CHR ''0'' # show_int (?d + 1))))"
      if "- 10 < ?d + 1" "0 > ?d + 1"
      using that True t' put_text_ok [OF t', of "CHR ''0'' # show_int (?d + 1)" c False]
      by (simp add: code_length_def)
    then have "step_ok c t (put_text (t\<lparr>tm_yday := ?d\<rparr>) False (snprintf_chk 4 (CHR ''0'' # show_int (?d + 1))))"
      if "- 10 < ?d + 1" "0 > ?d + 1"
      using that by (simp only: step_ok_yday)
    moreover have "step_ok c t (Inr ([CHR ''%'', c], t\<lparr>tm_yday := ?d\<rparr>, True))"
      using same [OF t'] by (simp add: step_ok_def)
    ultimately show ?thesis
      using True by (simp add: fmt_same_def Let_def)
  next
    case False
    with same [OF assms(1)] show ?thesis by (auto simp: fmt_same_def step_ok_def)
  qed
qed

lemma fmt_code_ok:
  assumes "printable_tm t"
  shows "step_ok c t (fmt_code c t)"
proof -
  have d: "step_ok c t (Inr ([c], t, False))" if "c \<notin> set ''bdHIjprSTmy%''"
    using assms that by (auto simp: step_ok_def piece_def)
  show ?thesis
    unfolding fmt_code_def
    using assms d by (auto simp: fmt_numbers_ok fmt_D_ok fmt_week_ok fmt_week_year_ok fmt_weekday_ok
        fmt_rename_ok fmt_same_ok simp del: set_simps)
qed


section \<open>The whole format stays within the buffer\<close>

lemma code_length_pos: "1 \<le> code_length c"
  by (simp add: code_length_def)

lemma format_length_tail: "format_length r + 1 \<le> format_length (d # r)"
  using code_length_pos by (cases r) auto

definition run_ok :: "string \<Rightarrow> fmt_step \<Rightarrow> bool" where
  "run_ok fmt r =
     (case r of
        Inl e \<Rightarrow> e = Null_result
      | Inr (s, t', b) \<Rightarrow> printable_tm t' \<and> length s \<le> format_length fmt
          \<and> (\<forall>u. printable_tm u \<longrightarrow> length (strftime_text (c_str s) u) \<le> format_length fmt))"

lemma strftime_text_short: "length s \<le> 1 \<Longrightarrow> length (strftime_text (c_str s) t) \<le> 1"
  by (cases s) (auto simp: c_str_def)

lemma populate_loop_ok:
  assumes "printable_tm t"
  shows "run_ok fmt (populate_loop fmt t call)"
  using assms
proof (induction fmt t call rule: populate_loop.induct)
  case (1 t call)
  then show ?case by (simp add: run_ok_def c_str_def)
next
  case (2 c t call)
  then show ?case using strftime_text_short [of "[c]"] by (simp add: run_ok_def)
next
  case (3 c d r t call)
  show ?case
  proof (cases "c = CHR ''%''")
    case True
    show ?thesis
    proof (cases "fmt_code d t")
      case (Inl e)
      with True fmt_code_ok [OF "3.prems", of d] show ?thesis by (simp add: run_ok_def step_ok_def)
    next
      case (Inr x)
      obtain s t' b where x: "x = (s, t', b)" by (cases x)
      have s: "piece s" "printable_tm t'" "length s \<le> Suc (code_length d)"
        "\<And>u. printable_tm u \<Longrightarrow> length (strftime_text s u) \<le> Suc (code_length d)"
        using fmt_code_ok [OF "3.prems", of d] by (simp_all add: step_ok_def Inr x)
      have l: "length (strftime_text (c_str (s @ s')) u) \<le> Suc (code_length d) + length (strftime_text (c_str s') u)"
        if "printable_tm u" for s' u
        using strftime_text_c_str [OF s(1), of s' u] s(3) s(4) [OF that] by simp
      have r: "run_ok r (populate_loop r t' (call \<or> b))"
        using "3.IH"(1) True Inr x s(2) by blast
      show ?thesis
      proof (cases "populate_loop r t' (call \<or> b)")
        case (Inr y)
        obtain s' t'' call' where y: "y = (s', t'', call')" by (cases y)
        have "length (strftime_text (c_str (s @ s')) u) \<le> format_length (c # d # r)" if "printable_tm u" for u
        proof -
          have "length (strftime_text (c_str s') u) \<le> format_length r"
            using r that by (simp add: run_ok_def Inr y)
          with l [OF that, of s'] True format_length_tail [of r d] show ?thesis by simp
        qed
        with r s(3) True \<open>fmt_code d t = Inr x\<close> x Inr y format_length_tail [of r d] show ?thesis
          by (simp add: run_ok_def)
      qed (use r True Inr x in \<open>simp add: run_ok_def\<close>)
    qed
  next
    case False
    then have "run_ok (d # r) (populate_loop (d # r) t call)" using 3 by blast
    moreover have "length (strftime_text (c_str (c # s)) u) \<le> Suc n"
      if "length (strftime_text (c_str s) u) \<le> n" for s u n
      using strftime_text_plain_append [of "[c]" "c_str s" u] False that by (simp add: c_str_def)
    ultimately show ?thesis
      using False by (auto simp: run_ok_def split: sum.splits)
  qed
qed


lemma intermediate_format_ok:
  assumes "printable_tm t" "revised = revised_date t"
  shows "case intermediate_format fmt revised t of
      Inl e \<Rightarrow> e = Null_result
    | Inr (ifmt, t', call) \<Rightarrow> printable_tm t' \<and> length (address ifmt) < str_length ifmt
        \<and> str_length ifmt = get_max_date_length fmt
        \<and> length (strftime_text (c_str (address ifmt)) t') < str_length ifmt"
proof -
  have pop: "case populate_sql_time_format fmt u of
      Inl e \<Rightarrow> e = Null_result
    | Inr (ifmt, t', call) \<Rightarrow> printable_tm t' \<and> length (address ifmt) < str_length ifmt
        \<and> str_length ifmt = get_max_date_length fmt
        \<and> length (strftime_text (c_str (address ifmt)) t') < str_length ifmt" if "printable_tm u" for u
    using populate_loop_ok [OF that, of fmt False]
    by (auto simp: populate_sql_time_format_def run_ok_def get_max_date_length_def less_Suc_eq_le split: sum.splits)
  have "strptime revised ''%Y-%m-%d %T'' t = (Some [], set_week_and_year_day t)
      \<and> printable_tm (set_week_and_year_day t)" if "tm_mday t \<noteq> 0" "0 \<le> tm_mon t"
    using assms that printable_parsed [OF assms(1)]
      strptime_revised [of t] set_week_and_year_day_printable [of t] by (auto simp: parsed_tm_def)
  with pop assms(1) show ?thesis by (simp add: intermediate_format_def)
qed

section \<open>What \<open>DATE_FORMAT\<close> prints\<close>

text \<open>
  The table of MySQL's format codes, for a date that exists: one text for each code, with the
  week numbers of \<open>week_spec\<close>. It is the contract of the two passes over the format.
\<close>

definition ordinal_suffix :: "int \<Rightarrow> string" where
  "ordinal_suffix d =
     (if 11 \<le> d \<and> d \<le> 13 then ''th'' else if d mod 10 = 1 then ''st'' else if d mod 10 = 2 then ''nd''
      else if d mod 10 = 3 then ''rd'' else ''th'')"

definition mysql_conv :: "char \<Rightarrow> tm \<Rightarrow> string" where
  "mysql_conv c t =
     (if c = CHR ''a'' then take 3 (name_at weekday_names (tm_wday t))
      else if c = CHR ''b'' then take 3 (name_at month_names (tm_mon t))
      else if c = CHR ''c'' then show_int (tm_mon t + 1)
      else if c = CHR ''D'' then show_int (tm_mday t) @ ordinal_suffix (tm_mday t)
      else if c = CHR ''d'' then show_padded 2 (tm_mday t)
      else if c = CHR ''e'' then show_int (tm_mday t)
      else if c = CHR ''f'' then ''000000''
      else if c = CHR ''H'' then show_padded 2 (tm_hour t)
      else if c \<in> set ''hI'' then show_padded 2 (hour12 (tm_hour t))
      else if c = CHR ''i'' then show_padded 2 (tm_min t)
      else if c = CHR ''j'' then show_padded 3 (tm_yday t + 1)
      else if c = CHR ''k'' then show_int (tm_hour t)
      else if c = CHR ''l'' then show_int (hour12 (tm_hour t))
      else if c = CHR ''M'' then name_at month_names (tm_mon t)
      else if c = CHR ''m'' then show_padded 2 (tm_mon t + 1)
      else if c = CHR ''p'' then am_pm (tm_hour t)
      else if c = CHR ''r'' then show_padded 2 (hour12 (tm_hour t)) @ '':'' @ show_padded 2 (tm_min t)
        @ '':'' @ show_padded 2 (tm_sec t) @ '' '' @ am_pm (tm_hour t)
      else if c \<in> set ''Ss'' then show_padded 2 (tm_sec t)
      else if c = CHR ''T'' then show_padded 2 (tm_hour t) @ '':'' @ show_padded 2 (tm_min t)
        @ '':'' @ show_padded 2 (tm_sec t)
      else if c = CHR ''U'' then show_padded 2 (fst (week_spec t SUNDAY WEEK_ZERO False))
      else if c = CHR ''u'' then show_padded 2 (fst (week_spec t MONDAY WEEK_ZERO True))
      else if c = CHR ''V'' then show_padded 2 (fst (week_spec t SUNDAY WEEK_ONE False))
      else if c = CHR ''v'' then show_padded 2 (fst (week_spec t MONDAY WEEK_ONE True))
      else if c = CHR ''W'' then name_at weekday_names (tm_wday t)
      else if c = CHR ''w'' then show_int (tm_wday t)
      else if c = CHR ''X'' then show_padded 4 (snd (week_spec t SUNDAY WEEK_ONE False))
      else if c = CHR ''x'' then show_padded 4 (snd (week_spec t MONDAY WEEK_ONE True))
      else if c = CHR ''Y'' then show_padded 4 (tm_year t + 1900)
      else if c = CHR ''y'' then show_padded 2 ((tm_year t + 1900) mod 100)
      else [c])"

fun mysql_format :: "string \<Rightarrow> tm \<Rightarrow> string" where
  "mysql_format [] t = []"
| "mysql_format [c] t = [c]"
| "mysql_format (c # d # r) t =
     (if c = CHR ''%'' then mysql_conv d t @ mysql_format r t else c # mysql_format (d # r) t)"

text \<open>A date that exists, with the weekday and the day of the year that belong to it.\<close>

definition real_tm :: "tm \<Rightarrow> bool" where
  "real_tm t \<longleftrightarrow> printable_tm t \<and> valid_tm_date t \<and> 1 \<le> tm_year t + 1900
     \<and> tm_wday t = (date_of t + 1) mod 7
     \<and> tm_yday t = month_start (leap (tm_year t + 1900)) (tm_mon t) + tm_mday t - 1"

definition strftime_code :: "char \<Rightarrow> bool" where
  "strftime_code c \<longleftrightarrow> c \<in> set ''awWuVvhiMsbdHIjprSTmy%''"

definition renders :: "char \<Rightarrow> tm \<Rightarrow> fmt_step \<Rightarrow> bool" where
  "renders c t r = (case r of Inl e \<Rightarrow> False
     | Inr (s, t', b) \<Rightarrow> t' = t \<and> b = strftime_code c
       \<and> strftime_text s t = mysql_conv c t \<and> (c \<noteq> NUL \<longrightarrow> NUL \<notin> set s))"

lemma real_printable: "real_tm t \<Longrightarrow> printable_tm t"
  by (simp add: real_tm_def)

lemma real_month_day: "real_tm t \<Longrightarrow> 0 \<le> tm_mon t \<and> tm_mon t \<le> 11 \<and> 1 \<le> tm_mday t \<and> tm_mday t \<le> 31"
  by (auto simp: real_tm_def valid_date_def printable_tm_def parsed_tm_def)

lemma no_NUL_show [simp]: "NUL \<notin> set (show_int i)" "NUL \<notin> set (show_padded w i)"
proof -
  have d: "NUL \<notin> set (show_nat n)" for n
    using show_nat_digits [of n] by (auto simp: list_all_iff)
  show "NUL \<notin> set (show_int i)" "NUL \<notin> set (show_padded w i)"
    using d by (auto simp: show_int_def show_padded_def Let_def NUL_def set_replicate_conv_if)
qed

lemma renders_plain:
  assumes "CHR ''%'' \<notin> set s" "s = mysql_conv c t" "NUL \<notin> set s" "b = strftime_code c"
  shows "renders c t (put_text t b (Inr s))"
  using assms by (simp add: renders_def put_text_def strftime_text_plain)

lemma renders_code:
  assumes "strftime_conv d t = mysql_conv c t" "d \<noteq> NUL" "strftime_code c"
  shows "renders c t (Inr ([CHR ''%'', d], t, True))"
proof -
  have "NUL \<noteq> CHR ''%''" by (simp add: NUL_def)
  with assms show ?thesis by (auto simp: renders_def)
qed

lemma ordinal_suffix_correct:
  assumes "0 \<le> d" "d \<le> 31"
  shows "date_suffix (show_int d) = Inr (ordinal_suffix d)"
proof -
  have "list_all (\<lambda>d. date_suffix (show_int d) = Inr (ordinal_suffix d)) [0..31]"
    by code_simp
  with assms show ?thesis by (simp add: list_all_iff)
qed

lemma NUL_ordinal_suffix: "CHR ''%'' \<notin> set (ordinal_suffix d) \<and> NUL \<notin> set (ordinal_suffix d)"
  by (simp add: ordinal_suffix_def NUL_def)

lemma real_fields:
  assumes "real_tm t"
  shows "length (show_int (tm_mon t + 1)) < 3" "length (show_int (tm_mday t)) < 3"
    "length (show_int (tm_hour t)) < 3" "length (show_int (hour12 (tm_hour t))) < 3"
    "length (show_padded 4 (tm_year t + 1900)) < 5"
proof -
  note p = printable_parsed [OF real_printable [OF assms]]
  have h: "0 \<le> tm_hour t" "tm_hour t \<le> 23" using p by (auto simp: parsed_tm_def)
  then have "length (show_int (hour12 (tm_hour t))) \<le> 2"
    by (intro length_show_int_2) (auto simp: hour12_def)
  moreover have "length (show_padded 4 (tm_year t + 1900)) = 4"
    using p by (intro show_padded_4_length) (auto simp: parsed_tm_def)
  ultimately show "length (show_int (tm_mon t + 1)) < 3" "length (show_int (tm_mday t)) < 3"
    "length (show_int (tm_hour t)) < 3" "length (show_int (hour12 (tm_hour t))) < 3"
    "length (show_padded 4 (tm_year t + 1900)) < 5"
    using parsed_day_second_digits [OF p] by auto
qed

lemma print_week_padded:
  assumes "0 \<le> w" "w \<le> 99"
  shows "print_week w = Inr (show_padded 2 w)"
proof (cases "w < 10")
  case True
  with assms length_show_nat_1 [of "nat w"] show ?thesis
    by (simp add: print_week_def show_padded_nonneg show_int_def numeral_2_eq_2)
next
  case False
  then have "length (show_nat (nat w)) = 2"
    using assms length_show_nat_2 [of "nat w"] length_show_nat_1 [of "nat w div 10"]
    by (subst show_nat_step) auto
  with False assms show ?thesis
    by (simp add: print_week_def show_padded_nonneg show_int_def)
qed

lemma real_week:
  assumes "real_tm t"
  shows "print_week (fst (get_week t f start use_ISO)) = Inr (show_padded 2 (fst (week_spec t f start use_ISO)))"
    "0 \<le> snd (week_spec t f WEEK_ONE use_ISO)"
    "snd (get_week t f WEEK_ONE use_ISO) = word_of_int (snd (week_spec t f WEEK_ONE use_ISO))"
    "sint (snd (get_week t f WEEK_ONE use_ISO)) = snd (week_spec t f WEEK_ONE use_ISO)"
proof -
  have v: "valid_tm_date t" "1 \<le> tm_year t + 1900" "tm_year t + 1900 \<le> 9999"
    using assms by (auto simp: real_tm_def printable_tm_def parsed_tm_def)
  note g = get_week_week_spec [OF v]
  have "0 \<le> fst (week_spec t f start use_ISO)" "fst (week_spec t f start use_ISO) \<le> 53"
    using week_spec_range [OF v(1)] by blast+
  then show "print_week (fst (get_week t f start use_ISO)) = Inr (show_padded 2 (fst (week_spec t f start use_ISO)))"
    using print_week_padded [of "fst (week_spec t f start use_ISO)"]
    by (cases "week_spec t f start use_ISO") (simp add: g)
  obtain k y where sp: "week_spec t f WEEK_ONE use_ISO = (k, y)" by fastforce
  from week_spec_WEEK_ONE [OF v(1) sp] v have y: "0 \<le> y" "y \<le> 10000" by auto
  then show "0 \<le> snd (week_spec t f WEEK_ONE use_ISO)" by (simp add: sp)
  show w: "snd (get_week t f WEEK_ONE use_ISO) = word_of_int (snd (week_spec t f WEEK_ONE use_ISO))"
    by (simp add: g sp)
  show "sint (snd (get_week t f WEEK_ONE use_ISO)) = snd (week_spec t f WEEK_ONE use_ISO)"
    unfolding w using y sint_u32 [of y] by (simp add: sp)
qed

lemma renders_week_year:
  assumes "real_tm t" "f = SUNDAY \<and> \<not> use_ISO \<or> f = MONDAY \<and> use_ISO"
    "mysql_conv c t = show_padded 4 (snd (week_spec t f WEEK_ONE use_ISO))" "\<not> strftime_code c"
  shows "renders c t (put_text t False (snprintf_chk 5 (show_padded 4 (sint (snd (get_week t f WEEK_ONE use_ISO))))))"
proof -
  note e = real_week(4) [OF assms(1), of f use_ISO]
  have "length (show_padded 4 (snd (week_spec t f WEEK_ONE use_ISO))) = 4"
    using week_year_bounds [OF printable_parsed [OF real_printable [OF assms(1)]] assms(2)]
    unfolding e by (auto intro!: show_padded_4_length)
  with assms(3,4) show ?thesis unfolding e by (simp add: renders_plain)
qed

lemma real_yday:
  assumes "real_tm t"
  shows "get_day_num t - get_day_num (t\<lparr>tm_mon := 0, tm_mday := 1\<rparr>) = tm_yday t"
  using assms real_month_day [OF assms] printable_parsed [OF real_printable [OF assms]]
  by (subst (1 2) get_day_num_correct) (auto simp: real_tm_def parsed_tm_def date_of_def day_number_def month_start_ends)

lemma renders_direct:
  assumes "real_tm t"
  shows "renders CHR ''e'' t (fmt_e t)" "renders CHR ''D'' t (fmt_D t)" "renders CHR ''f'' t (fmt_f t)"
    "renders CHR ''k'' t (fmt_k t)" "renders CHR ''l'' t (fmt_l t)" "renders CHR ''Y'' t (fmt_Y t)"
    "renders CHR ''c'' t (fmt_c t)"
proof -
  note b = real_fields [OF assms]
  have d: "0 \<le> tm_mday t" "tm_mday t \<le> 31" "0 \<le> tm_hour t" "tm_hour t \<le> 23"
    using printable_parsed [OF real_printable [OF assms]] by (auto simp: parsed_tm_def)
  have zero: "NUL \<noteq> CHR ''0''" by (simp add: NUL_def)
  from d have h: "twenty_four_to_twelve_hour (tm_hour t) = Some (hour12 (tm_hour t))"
    by (auto simp: twenty_four_to_twelve_hour_def hour12_def)
  show "renders CHR ''e'' t (fmt_e t)" "renders CHR ''D'' t (fmt_D t)" "renders CHR ''f'' t (fmt_f t)"
    "renders CHR ''k'' t (fmt_k t)" "renders CHR ''l'' t (fmt_l t)" "renders CHR ''Y'' t (fmt_Y t)"
    "renders CHR ''c'' t (fmt_c t)"
    using b ordinal_suffix_correct [OF d(1,2)] NUL_ordinal_suffix [of "tm_mday t"]
    by (simp_all add: fmt_e_def fmt_D_def fmt_f_def fmt_k_def fmt_l_def fmt_Y_def fmt_c_def h)
      (auto intro!: renders_plain simp: mysql_conv_def strftime_code_def zero)
qed

lemma renders_code_step:
  assumes "real_tm t"
  shows "renders c t (fmt_code c t)"
proof -
  note md = real_month_day [OF assms]
  have y0: "tm_year t + 1900 \<noteq> 0" using assms by (auto simp: real_tm_def)
  have wd: "renders c t (fmt_weekday c t)" if "c \<in> set ''awW''"
    using that md y0 by (auto simp: fmt_weekday_def NUL_def strftime_conv_def mysql_conv_def strftime_code_def intro!: renders_code)
  have wy: "renders c t (fmt_week_year c t)" if "c \<in> set ''Xx''"
  proof -
    have "mysql_conv CHR ''X'' t = show_padded 4 (snd (week_spec t SUNDAY WEEK_ONE False))"
      "mysql_conv CHR ''x'' t = show_padded 4 (snd (week_spec t MONDAY WEEK_ONE True))"
      by (simp_all add: mysql_conv_def strftime_code_def)
    moreover have "\<not> strftime_code c" using that by (auto simp: strftime_code_def)
    ultimately show ?thesis
      using that renders_week_year [OF assms, of SUNDAY False "CHR ''X''"] renders_week_year [OF assms, of MONDAY True "CHR ''x''"]
      by (auto simp: fmt_week_year_def Let_def)
  qed
  have wk: "renders c t (fmt_week c t)" if "c \<in> set ''UuVv''"
    using that by (auto simp: fmt_week_def real_week(1) [OF assms] mysql_conv_def strftime_code_def intro!: renders_plain)
  have rn: "renders c t (fmt_rename c t)" if "c \<in> set ''hiMs''"
    using that md by (auto simp: fmt_rename_def NUL_def strftime_conv_def mysql_conv_def strftime_code_def intro!: renders_code)
  have "0 \<le> tm_yday t" using assms md month_start_bounds(1) [of "tm_mon t" "leap (tm_year t + 1900)"]
    by (auto simp: real_tm_def)
  then have sm: "renders c t (fmt_same c t)" if "c \<in> set ''bdHIjprSTmy%''"
    using that md real_yday [OF assms]
    by (auto simp: fmt_same_def Let_def NUL_def strftime_conv_def mysql_conv_def strftime_code_def intro!: renders_code)
  have df: "renders c t (Inr ([c], t, False))"
    if "c \<notin> set ''bdHIjprSTmy%''" "c \<notin> set ''hiMs''" "c \<notin> set ''UuVv''" "c \<notin> set ''Xx''"
      "c \<notin> set ''awW''" "c \<noteq> CHR ''c''" "c \<noteq> CHR ''Y''" "c \<noteq> CHR ''l''" "c \<noteq> CHR ''k''" "c \<noteq> CHR ''f''"
      "c \<noteq> CHR ''D''" "c \<noteq> CHR ''e''"
    using that by (simp add: renders_def mysql_conv_def strftime_code_def)
  show ?thesis
    unfolding fmt_code_def
    using renders_direct [OF assms] wd wy wk rn sm df by (auto simp del: set_simps)
qed

text \<open>Whether a format makes the code call \<open>strftime\<close>.\<close>

fun uses_strftime :: "string \<Rightarrow> bool" where
  "uses_strftime [] = False"
| "uses_strftime [c] = False"
| "uses_strftime (c # d # r) =
     (if c = CHR ''%'' then strftime_code d \<or> uses_strftime r else uses_strftime (d # r))"

lemma populate_loop_renders:
  assumes "real_tm t" "NUL \<notin> set fmt"
  shows "\<exists>s call'. populate_loop fmt t call = Inr (s, t, call') \<and> NUL \<notin> set s
    \<and> strftime_text s t = mysql_format fmt t \<and> (call' \<or> s = mysql_format fmt t) \<and> call' = (call \<or> uses_strftime fmt)"
  using assms
proof (induction fmt t call rule: populate_loop.induct)
  case (3 c d r t call)
  show ?case
  proof (cases "c = CHR ''%''")
    case True
    obtain s b where s: "fmt_code d t = Inr (s, t, b)" "b = strftime_code d" "strftime_text s t = mysql_conv d t" "NUL \<notin> set s"
      using renders_code_step [OF "3.prems"(1), of d] "3.prems"(2)
      by (auto simp: renders_def split: sum.splits)
    have p: "piece s" "b \<or> CHR ''%'' \<notin> set s"
      using fmt_code_ok [OF real_printable [OF "3.prems"(1)], of d] by (auto simp: step_ok_def s)
    obtain s' call' where s': "populate_loop r t (call \<or> b) = Inr (s', t, call')" "NUL \<notin> set s'"
      "strftime_text s' t = mysql_format r t" "call' \<or> s' = mysql_format r t" "call' = (call \<or> b \<or> uses_strftime r)"
      using "3.IH"(1) [OF True s(1) refl refl] "3.prems" by auto
    have "call' \<or> s = mysql_conv d t"
      using p(2) s'(5) s(3) strftime_text_plain [of s t] by auto
    with s s' True strftime_text_piece [OF p(1), of s' t] show ?thesis by auto
  next
    case False
    then show ?thesis using 3 strftime_text_plain_append [of "[c]" _ t] by auto
  qed
qed simp_all

section \<open>From the date text to the printed text\<close>

text \<open>A decimal field of at most 12 digits; leading zeros are allowed.\<close>

definition field_text :: "string \<Rightarrow> int \<Rightarrow> bool" where
  "field_text ds v \<longleftrightarrow> ds \<noteq> [] \<and> length ds \<le> INT32_TO_STRING_MAX \<and> list_all is_number ds \<and> int (nat_of_digits ds) = v"

lemma field_text_nonempty: "field_text ds v \<Longrightarrow> ds @ r \<noteq> []"
  by (simp add: field_text_def)

lemma read_field_text:
  assumes "field_text ds v" "v \<le> hi" "hi \<le> 9999" "\<not> is_number (peek r)"
  shows "read_field hi (ds @ r) = Some (v, r)"
proof -
  have "takeWhile is_number r = [] \<and> dropWhile is_number r = r"
    using assms(4) by (cases r) auto
  moreover have "strtol ds = (v, False)"
    using assms strtol_digits [of ds] by (simp add: field_text_def LONG_MAX_def)
  ultimately show ?thesis
    using assms by (auto simp: read_field_def field_text_def)
qed

lemma skip_field_text:
  assumes "field_text ds v"
  shows "skip_nonalphabetic (ds @ r) = Some (ds @ r)" "skip_alphabetic (ds @ r) = ds @ r"
  using assms by (cases ds; simp add: field_text_def)+

lemma field_text_no_nul: "field_text ds v \<Longrightarrow> NUL \<notin> set ds"
  by (auto simp: field_text_def list_all_iff)

definition civil_tm :: "int \<Rightarrow> int \<Rightarrow> int \<Rightarrow> int \<Rightarrow> int \<Rightarrow> int \<Rightarrow> tm" where
  "civil_tm y m d h mi s = tm_zero\<lparr>tm_year := y - 1900, tm_mon := m - 1, tm_mday := d, tm_hour := h,
     tm_min := mi, tm_sec := s\<rparr>"

lemma get_date_from_text:
  assumes "field_text ys y" "field_text ms m" "field_text ds d" "field_text hs h" "field_text ns mi" "field_text ss s"
    and "y \<le> 9999" "m \<le> 12" "d \<le> 31" "h \<le> 23" "mi \<le> 59" "s \<le> 59"
  shows "get_date_from_string (ys @ ''-'' @ ms @ ''-'' @ ds @ '' '' @ hs @ '':'' @ ns @ '':'' @ ss) n tm_zero
    = Some (take (n - 1) (revised_date (civil_tm y m d h mi s)), civil_tm y m d h mi s)"
proof -
  have sep: "\<not> is_alphabetic CHR ''-''" "\<not> is_alphabetic CHR '' ''" "\<not> is_alphabetic CHR '':''"
    by (simp_all add: is_alphabetic_def)
  have sec: "read_field 59 ss = Some (s, [])"
    using read_field_text [OF assms(6), of 59 "[]"] assms by simp
  have ne: "ys \<noteq> []" "ms \<noteq> []" "ds \<noteq> []" "hs \<noteq> []" "ns \<noteq> []" "ss \<noteq> []"
    using assms by (auto simp: field_text_def)
  show ?thesis
    using assms(7-12) skip_field_text(2) [OF assms(6), of "[]"]
    by (simp add: get_date_from_string_def get_year_def get_month_def get_day_def after_day_def get_hour_def
        get_minute_def get_second_def Let_def read_field_text [OF assms(1)] read_field_text [OF assms(2)]
        read_field_text [OF assms(3)] read_field_text [OF assms(4)] read_field_text [OF assms(5)] sec
        skip_field_text [OF assms(2)] skip_field_text [OF assms(3)] skip_field_text [OF assms(4)]
        skip_field_text [OF assms(5)] sep ne civil_tm_def)
qed

lemma gmtime_real:
  assumes "1 \<le> tm_year (gmtime t) + 1900" "tm_year (gmtime t) + 1900 \<le> 9999"
  shows "real_tm (gmtime t)"
proof -
  have "tm_wday (gmtime t) = (date_of (gmtime t) + 1) mod 7"
    using gmtime_date(2) [of t] by (simp add: date_of_def) (simp add: gmtime_def Let_def)
  moreover have y: "tm_yday (gmtime t) = month_start (leap (tm_year (gmtime t) + 1900)) (tm_mon (gmtime t)) + tm_mday (gmtime t) - 1"
    by (simp add: gmtime_def Let_def)
  moreover have "- 1 \<le> tm_mon (gmtime t)" "tm_mon (gmtime t) \<le> 11" "0 \<le> tm_yday (gmtime t)" "tm_yday (gmtime t) \<le> 365"
    using gmtime_date(1) [of t] valid_date_yday [OF gmtime_date(1), of t] year_len_bounds [of "tm_year (gmtime t) + 1900"]
    unfolding y by (auto simp: valid_date_def)
  ultimately show ?thesis
    using assms gmtime_date(1) [of t] utc.gm_hour [of t] utc.gm_min [of t] utc.gm_sec [of t] utc.gm_mday [of t]
      pos_mod_sign [of 7 "date_of (gmtime t) + 1"] pos_mod_bound [of 7 "date_of (gmtime t) + 1"]
    by (simp add: real_tm_def printable_tm_def parsed_tm_def del: pos_mod_sign pos_mod_bound)
qed

lemma civil_gmtime:
  "set_week_and_year_day (civil_tm (tm_year (gmtime t) + 1900) (tm_mon (gmtime t) + 1) (tm_mday (gmtime t))
    (tm_hour (gmtime t)) (tm_min (gmtime t)) (tm_sec (gmtime t))) = gmtime t"
  using gmtime_date(2) [of t]
  by (simp add: set_week_and_year_day_def civil_tm_def tm_zero_def Let_def)
    (simp add: gmtime_def Let_def day_number_def)

lemma day_valid_month_len:
  assumes "0 \<le> tm_year t + 1900" "tm_year t + 1900 \<le> 9999" "0 \<le> tm_mon t" "tm_mon t \<le> 11"
  shows "day_valid t \<longleftrightarrow> tm_mday t \<le> month_len (leap (tm_year t + 1900)) (tm_mon t)"
proof -
  have "is_leap (word_of_int (tm_year t + 1900)) = leap (tm_year t + 1900)"
    using assms by (intro is_leap_correct) auto
  then show ?thesis
    using assms(3,4) month_len_cases [OF assms(3,4), of "leap (tm_year t + 1900)"]
    by (elim int_le_11_cases) (simp_all add: day_valid_def not_less)
qed
section \<open>Properties\<close>

text \<open>C2: No format makes the expansion write outside its buffer. For every date string and every
  format, the normalised date fits in its 20 bytes, no assert of the expansion fails (no
  \<open>snprintf\<close> is cut off, not even for the senseless week numbers and the year -1 that dates with a
  zero month or year give), the intermediate text and its NUL fit in the length that
  \<open>get_max_date_length\<close> computed, and so does the text that \<open>strftime\<close> makes of it.\<close>

theorem date_format_memory_safe:
  "case get_date_from_string (c_str date) DEFAULT_DATE_LEN tm_zero of
     None \<Rightarrow> True
   | Some (revised, t) \<Rightarrow> length (revised_date t) < DEFAULT_DATE_LEN
       \<and> (case intermediate_format fmt revised t of
            Inl e \<Rightarrow> e = Null_result
          | Inr (ifmt, t', call_strftime) \<Rightarrow> length (address ifmt) + 1 \<le> str_length ifmt
              \<and> length (strftime_text (c_str (address ifmt)) t') + 1 \<le> str_length ifmt)"
proof (cases "get_date_from_string (c_str date) DEFAULT_DATE_LEN tm_zero")
  case (Some x)
  obtain revised t where x: "x = (revised, t)" by (cases x)
  note g = get_date_printable [OF Some [unfolded x]]
  have l: "length (revised_date t) < DEFAULT_DATE_LEN"
    using length_revised_date [OF printable_parsed [OF g(1)]] by (simp add: DEFAULT_DATE_LEN_def)
  with g(2) have "revised = revised_date t" by simp
  from intermediate_format_ok [OF g(1) this, of fmt] l
  show ?thesis by (auto simp: Some x split: sum.splits)
qed simp

text \<open>C1: What \<open>DATE_FORMAT\<close> prints. For a date and time of the years 1 to 9999, written with any
  number of leading zeros in its fields, the two passes over the format (the expansion and
  \<open>strftime\<close>) print MySQL's table entry for every code and copy everything else. The length that is
  returned is the length of the text when some code needs \<open>strftime\<close>; otherwise it is the
  size of the buffer.\<close>

theorem date_format_renders:
  fixes t :: int
  defines "g \<equiv> gmtime t"
  assumes "1 \<le> tm_year g + 1900" "tm_year g + 1900 \<le> 9999" "NUL \<notin> set fmt"
    and "field_text ys (tm_year g + 1900)" "field_text ms (tm_mon g + 1)" "field_text ds (tm_mday g)"
      "field_text hs (tm_hour g)" "field_text ns (tm_min g)" "field_text ss (tm_sec g)"
  shows "ydboctoDateFormatC (ys @ ''-'' @ ms @ ''-'' @ ds @ '' '' @ hs @ '':'' @ ns @ '':'' @ ss) fmt
    = Inr \<lparr>address = mysql_format fmt g,
           str_length = (if uses_strftime fmt then length (mysql_format fmt g) else get_max_date_length fmt)\<rparr>"
proof -
  define date where "date = ys @ ''-'' @ ms @ ''-'' @ ds @ '' '' @ hs @ '':'' @ ns @ '':'' @ ss"
  let ?c = "civil_tm (tm_year g + 1900) (tm_mon g + 1) (tm_mday g) (tm_hour g) (tm_min g) (tm_sec g)"
  have r: "real_tm g" using assms(2,3) gmtime_real [of t] by (simp add: g_def)
  have p: "parsed_tm g" using r by (simp add: real_printable printable_parsed)
  have md: "0 \<le> tm_mon g" "tm_mon g \<le> 11" "1 \<le> tm_mday g" using real_month_day [OF r] by auto
  have c: "parsed_tm ?c" "tm_mon ?c = tm_mon g" "tm_mday ?c = tm_mday g" "tm_year ?c = tm_year g"
    using p by (simp_all add: parsed_tm_def civil_tm_def)
  have "NUL \<notin> set date" using assms(5-10) by (auto simp: date_def NUL_def dest: field_text_no_nul)
  then have str: "c_str date = date" by (rule c_str_no_nul)
  have parse: "get_date_from_string date DEFAULT_DATE_LEN tm_zero = Some (revised_date ?c, ?c)"
    using get_date_from_text [OF assms(5-10), of DEFAULT_DATE_LEN] length_revised_date [OF c(1)] p md
    by (simp add: parsed_tm_def DEFAULT_DATE_LEN_def date_def)
  have "day_valid ?c"
    using r md p day_valid_month_len [of ?c] by (auto simp: c real_tm_def valid_date_def parsed_tm_def)
  then have "intermediate_format fmt (revised_date ?c) ?c = populate_sql_time_format fmt g"
    using strptime_revised [OF c(1)] md assms(2) civil_gmtime [of t, folded g_def]
    by (simp add: intermediate_format_def c)
  moreover obtain s where s: "populate_loop fmt g False = Inr (s, g, uses_strftime fmt)" "NUL \<notin> set s"
    "strftime_text s g = mysql_format fmt g" "uses_strftime fmt \<or> s = mysql_format fmt g"
    using populate_loop_renders [OF r assms(4), of False] by auto
  moreover have "length (strftime_text s g) \<le> format_length fmt"
    using populate_loop_ok [OF real_printable [OF r], of fmt False] s(1,2) real_printable [OF r]
    by (simp add: run_ok_def c_str_no_nul)
  ultimately show ?thesis
    unfolding date_def [symmetric] using s by (auto simp: ydboctoDateFormatC_def str parse populate_sql_time_format_def c_str_no_nul strftime_def
        get_max_date_length_def Let_def)
qed

theorem date_format_renders_witness:
  "ydboctoDateFormatC (''2024'' @ ''-'' @ ''2'' @ ''-'' @ ''21'' @ '' '' @ ''00'' @ '':'' @ ''0'' @ '':'' @ ''00'') ''%W %D %M %Y''
    = Inr \<lparr>address = mysql_format ''%W %D %M %Y'' (gmtime 1708473600),
           str_length = (if uses_strftime ''%W %D %M %Y'' then length (mysql_format ''%W %D %M %Y'' (gmtime 1708473600))
             else get_max_date_length ''%W %D %M %Y'')\<rparr>
   \<and> mysql_format ''%W %D %M %Y'' (gmtime 1708473600) = ''Wednesday 21st February 2024''"
  by (rule conjI, rule date_format_renders) code_simp+

text \<open>A date that does not exist gives SQL NULL: a day past the end of its month, the month
  length being the Gregorian one, makes the call return the empty string whatever the format.\<close>

theorem date_format_rejects:
  assumes "field_text ys y" "field_text ms m" "field_text ds d" "field_text hs h" "field_text ns mi" "field_text ss s"
    and "y \<le> 9999" "1 \<le> m" "m \<le> 12" "month_len (leap y) (m - 1) < d" "d \<le> 31" "h \<le> 23" "mi \<le> 59" "s \<le> 59"
  shows "ydboctoDateFormatC (ys @ ''-'' @ ms @ ''-'' @ ds @ '' '' @ hs @ '':'' @ ns @ '':'' @ ss) fmt = Inr ydb_null"
proof -
  define date where "date = ys @ ''-'' @ ms @ ''-'' @ ds @ '' '' @ hs @ '':'' @ ns @ '':'' @ ss"
  let ?c = "civil_tm y m d h mi s"
  have "NUL \<notin> set date" using assms(1-6) by (auto simp: date_def NUL_def dest: field_text_no_nul)
  then have str: "c_str date = date" by (rule c_str_no_nul)
  have "0 \<le> y" using assms(1) by (simp add: field_text_def)
  then have "\<not> day_valid ?c"
    using assms day_valid_month_len [of ?c] by (simp add: civil_tm_def)
  moreover have "get_date_from_string date DEFAULT_DATE_LEN tm_zero
      = Some (take (DEFAULT_DATE_LEN - 1) (revised_date ?c), ?c)"
    using get_date_from_text [OF assms(1-6)] assms by (simp add: date_def)
  ultimately show ?thesis
    unfolding date_def [symmetric] by (simp add: ydboctoDateFormatC_def str intermediate_format_def)
qed

theorem date_format_rejects_witness:
  "ydboctoDateFormatC (''1900'' @ ''-'' @ ''02'' @ ''-'' @ ''29'' @ '' '' @ ''23'' @ '':'' @ ''59'' @ '':'' @ ''59'') ''%Y''
    = Inr ydb_null"
  by (rule date_format_rejects) code_simp+

end
