(* ===== verification/DateMicro.thy ===== *)
theory DateMicro
  imports CTime "HOL-Library.Monad_Syntax"
begin

text \<open>
  The internal format of date and time values (\<open>src/aux/ydboctodateoperations.c\<close>): one \<open>long\<close> that
  holds the seconds since 1970 followed by six decimal digits of microseconds. Before 1970 the digits
  are the nine's complement of the microseconds. The macros are \<open>NINES_COMPLIMENT\<close>,
  \<open>ADD_MICRO_SECONDS\<close> and \<open>REMOVE_MICRO_SECONDS\<close>.

  \<open>None\<close> is a violated \<open>assert\<close>, an overflow of \<open>long\<close>, or a write outside \<open>micro_arr\<close>. The locale
  \<open>micro_codec\<close> states what the date and time operations rely on.
\<close>

section \<open>Definitions from the source\<close>

definition lng :: "int \<Rightarrow> int option" where
  "lng x = (if LONG_MIN \<le> x \<and> x \<le> LONG_MAX then Some x else None)"

definition NINES_COMPLIMENT :: "int \<Rightarrow> int option" where
  "NINES_COMPLIMENT v = (if 0 \<le> v then Some (999999 - v) else None)"

text \<open>The \<open>while\<close> loop that fills \<open>micro_arr\<close>; the first argument is the index plus one.\<close>

fun fill_micro :: "nat \<Rightarrow> int \<Rightarrow> int list \<Rightarrow> int list option" where
  "fill_micro 0 m arr = (if m = 0 then Some arr else None)"
| "fill_micro (Suc i) m arr =
     (if m = 0 then Some arr else fill_micro i (m sdiv 10) (arr[i := m smod 10]))"

fun append_digits :: "bool \<Rightarrow> int \<Rightarrow> int list \<Rightarrow> int option" where
  "append_digits is_negative value [] = Some value"
| "append_digits is_negative value (d # ds) =
     do {
       w \<leftarrow> lng (value * 10);
       w \<leftarrow> lng (if is_negative then w - d else w + d);
       append_digits is_negative w ds
     }"

definition ADD_MICRO_SECONDS :: "int \<Rightarrow> int \<Rightarrow> int option" where
  "ADD_MICRO_SECONDS value micro =
     do {
       lcl_micro \<leftarrow> (if 0 > value then (if 0 \<le> micro then NINES_COMPLIMENT micro else None) else Some micro);
       micro_arr \<leftarrow> fill_micro 6 lcl_micro [0, 0, 0, 0, 0, 0];
       append_digits (0 > value) value micro_arr
     }"

fun strip_micro :: "nat \<Rightarrow> int \<Rightarrow> int \<Rightarrow> int \<Rightarrow> int \<times> int" where
  "strip_micro 0 value lcl_micro mult = (value, lcl_micro)"
| "strip_micro (Suc n) value lcl_micro mult =
     strip_micro n (value sdiv 10) (lcl_micro + (value smod 10) * mult) (mult * 10)"

text \<open>The shortened value and the microseconds.\<close>

definition REMOVE_MICRO_SECONDS :: "int \<Rightarrow> (int \<times> int) option" where
  "REMOVE_MICRO_SECONDS value =
     (let (value, lcl_micro) = strip_micro 6 value 0 1;
          lcl_micro = (if 0 > lcl_micro then - lcl_micro else lcl_micro)
      in if 0 > value then map_option (\<lambda>m. (value, m)) (NINES_COMPLIMENT lcl_micro)
         else Some (value, lcl_micro))"

section \<open>The digit loops\<close>

lemma sdiv_int: "a sdiv b = (if 0 \<le> a then a div b else - ((- a) div b))" if "0 < b" for a b :: int
  using that by (auto simp: signed_divide_int_def sgn_if abs_if)

lemma smod_int: "a smod b = (if 0 \<le> a then a mod b else - ((- a) mod b))" if "0 < b" for a b :: int
  using that by (cases "a = 0") (auto simp: signed_modulo_int_def sgn_if abs_if)

fun digs :: "nat \<Rightarrow> int \<Rightarrow> int list" where
  "digs 0 m = []"
| "digs (Suc i) m = digs i (m sdiv 10) @ [m smod 10]"

lemma length_digs [simp]: "length (digs i m) = i"
  by (induction i arbitrary: m) auto

lemma digs_zero: "digs i 0 = replicate i 0"
  by (induction i) (auto simp: signed_divide_int_def signed_modulo_int_def replicate_append_same)

lemma sdiv_less_power:
  assumes "\<bar>m\<bar> < 10 ^ Suc i"
  shows "\<bar>m sdiv 10\<bar> < (10 ^ i :: int)"
proof -
  have "a div 10 < 10 ^ i" if "0 \<le> a" "a < 10 ^ Suc i" for a :: int
    using that mult_div_mod_eq [of 10 a] pos_mod_sign [of 10 a] by simp
  from this [of "\<bar>m\<bar>"] assms show ?thesis
    by (auto simp: sdiv_int abs_if pos_imp_zdiv_nonneg_iff split: if_splits)
qed

lemma fill_micro_digs:
  assumes "\<bar>m\<bar> < 10 ^ i"
  shows "fill_micro i m (replicate i 0 @ t) = Some (digs i m @ t)"
  using assms
proof (induction i arbitrary: m t)
  case (Suc i)
  have "(replicate (Suc i) 0 @ t)[i := d] = replicate i 0 @ d # t" for d :: int
    using replicate_append_same [of i "0::int"]
    by (metis append.assoc append_Cons append_Nil length_replicate list_update_length replicate_Suc)
  with Suc sdiv_less_power [of m i] show ?case
    by (simp add: digs_zero replicate_append_same del: replicate_Suc)
      (simp add: digs_zero signed_divide_int_def signed_modulo_int_def replicate_append_same)
qed simp

lemma append_digits_append:
  "append_digits n v (xs @ ys) = append_digits n v xs \<bind> (\<lambda>w. append_digits n w ys)"
  by (induction xs arbitrary: v) simp_all

lemma strip_micro_nonneg:
  assumes "0 \<le> v"
  shows "strip_micro n v acc mult = (v div 10 ^ n, acc + mult * (v mod 10 ^ n))"
  using assms
proof (induction n arbitrary: v acc mult)
  case (Suc n)
  have "v div 10 div 10 ^ n = v div 10 ^ Suc n"
    using zdiv_zmult2_eq [of "10 ^ n" v 10] by simp
  moreover have "v mod 10 + 10 * (v div 10 mod 10 ^ n) = v mod 10 ^ Suc n"
    using zmod_zmult2_eq [of "10 ^ n" v 10] by simp
  ultimately show ?case
    using Suc by (simp add: sdiv_int smod_int pos_imp_zdiv_nonneg_iff algebra_simps flip: distrib_left)
qed simp

lemma strip_micro_neg:
  assumes "0 \<le> v"
  shows "strip_micro n (- v) acc mult = (- (v div 10 ^ n), acc - mult * (v mod 10 ^ n))"
  using assms
proof (induction n arbitrary: v acc mult)
  case (Suc n)
  have "v div 10 div 10 ^ n = v div 10 ^ Suc n"
    using zdiv_zmult2_eq [of "10 ^ n" v 10] by simp
  moreover have "v mod 10 + 10 * (v div 10 mod 10 ^ n) = v mod 10 ^ Suc n"
    using zmod_zmult2_eq [of "10 ^ n" v 10] by simp
  moreover have "(- v) sdiv 10 = - (v div 10)" "(- v) smod 10 = - (v mod 10)"
    using Suc.prems by (auto simp: sdiv_int smod_int)
  ultimately show ?case
    using Suc by (simp add: pos_imp_zdiv_nonneg_iff algebra_simps flip: distrib_left)
qed simp

section \<open>The format of a value\<close>

text \<open>The integer that a pair of seconds and microseconds is stored as.\<close>

definition internal :: "int \<Rightarrow> int \<Rightarrow> int" where
  "internal s m = s * 1000000 + (if s < 0 then m - 999999 else m)"

definition secs_ok :: "int \<Rightarrow> bool" where
  "secs_ok s \<longleftrightarrow> - 9223372036853 \<le> s \<and> s \<le> 9223372036853"

definition micro_ok :: "int \<Rightarrow> bool" where
  "micro_ok m \<longleftrightarrow> 0 \<le> m \<and> m \<le> 999999"

lemma append_digs:
  assumes "0 \<le> m" "neg \<longrightarrow> v \<le> 0" "\<not> neg \<longrightarrow> 0 \<le> v"
    and "\<bar>v\<bar> * 10 ^ i + m \<le> 9223372036854775807" "m < 10 ^ i"
  shows "append_digits neg v (digs i m) = Some (if neg then v * 10 ^ i - m else v * 10 ^ i + m)"
  using assms
proof (induction i arbitrary: m)
  case (Suc i)
  define q where "q = m div 10"
  define r where "r = m mod 10"
  have m: "m = 10 * q + r" "0 \<le> r" "r < 10" "0 \<le> q" using Suc.prems(1) by (auto simp: q_def r_def)
  have qr: "m sdiv 10 = q" "m smod 10 = r" using Suc.prems(1) by (simp_all add: sdiv_int smod_int q_def r_def)
  define w where "w = v * 10 ^ i"
  have aw: "\<bar>v\<bar> * 10 ^ i = \<bar>w\<bar>" "\<bar>v\<bar> * 10 ^ Suc i = 10 * \<bar>w\<bar>" by (simp_all add: w_def abs_mult)
  have b: "10 * \<bar>w\<bar> + (10 * q + r) \<le> 9223372036854775807"
    using Suc.prems(4) unfolding aw m(1) .
  have "\<bar>v\<bar> * 10 ^ i + q \<le> 9223372036854775807" unfolding aw using b m by linarith
  moreover have "q < 10 ^ i" using Suc.prems(5) m by simp
  ultimately have IH: "append_digits neg v (digs i q) = Some (if neg then w - q else w + q)"
    using Suc.IH [of q] Suc.prems m by (simp add: w_def)
  have sg: "neg \<longrightarrow> w \<le> 0" "\<not> neg \<longrightarrow> 0 \<le> w"
    using Suc.prems(2,3) by (simp_all add: w_def mult_nonpos_nonneg)
  define x where "x = (if neg then w - q else w + q) * 10"
  have "lng x = Some x" "lng (if neg then x - r else x + r) = Some (if neg then x - r else x + r)"
    using b m(2-4) sg by (auto simp: x_def lng_def LONG_MIN_def LONG_MAX_def)
  then have "append_digits neg v (digs (Suc i) m) = Some (if neg then x - r else x + r)"
    by (simp add: append_digits_append qr IH flip: x_def)
  also have "(if neg then x - r else x + r) = (if neg then v * 10 ^ Suc i - m else v * 10 ^ Suc i + m)"
    using m(1) by (simp add: x_def w_def)
  finally show ?case .
qed simp

lemma ADD_MICRO_SECONDS_internal:
  assumes "secs_ok s" "micro_ok m"
  shows "ADD_MICRO_SECONDS s m = Some (internal s m)"
proof -
  have fill: "fill_micro 6 k [0, 0, 0, 0, 0, 0] = Some (digs 6 k)" if "micro_ok k" for k
    using fill_micro_digs [of k 6 "[]"] that by (simp add: micro_ok_def numeral_eq_Suc)
  have app: "append_digits (s < 0) s (digs 6 k) = Some (if s < 0 then s * 1000000 - k else s * 1000000 + k)"
    if "micro_ok k" for k
    using append_digs [of k "s < 0" s 6] assms(1) that by (auto simp: secs_ok_def micro_ok_def)
  show ?thesis
  proof (cases "s < 0")
    case True
    have "micro_ok (999999 - m)" using assms(2) by (simp add: micro_ok_def)
    with True assms fill app show ?thesis
      by (simp add: ADD_MICRO_SECONDS_def NINES_COMPLIMENT_def internal_def micro_ok_def)
  next
    case False
    with assms fill app show ?thesis by (simp add: ADD_MICRO_SECONDS_def internal_def)
  qed
qed

lemma REMOVE_MICRO_SECONDS_internal:
  assumes "micro_ok m"
  shows "REMOVE_MICRO_SECONDS (internal s m) = Some (s, m)"
proof (cases "s < 0")
  case True
  define k where "k = 999999 - m"
  have k: "0 \<le> k" "k < 1000000" using assms by (auto simp: k_def micro_ok_def)
  have v: "internal s m = - ((- s) * 1000000 + k)" using True by (simp add: internal_def k_def)
  have "((- s) * 1000000 + k) div 1000000 = - s"
    using k by (intro int_div_pos_eq [where r = k]) auto
  moreover have "((- s) * 1000000 + k) mod 1000000 = k"
    using k by (intro int_mod_pos_eq [where q = "- s"]) auto
  moreover have "0 \<le> (- s) * 1000000 + k" using True k by simp
  ultimately show ?thesis
    unfolding v REMOVE_MICRO_SECONDS_def using True k
    by (simp only: strip_micro_neg) (simp add: NINES_COMPLIMENT_def k_def)
next
  case False
  with assms show ?thesis
    by (simp add: REMOVE_MICRO_SECONDS_def internal_def strip_micro_nonneg micro_ok_def)
qed

lemma append_digs_negative:
  assumes "0 \<le> k" "k < 10 ^ i" "1 \<le> v" "v * 10 ^ i \<le> 9223372036854775807"
  shows "append_digits False v (digs i (- k)) = Some (v * 10 ^ i - k)"
  using assms
proof (induction i arbitrary: k)
  case (Suc i)
  define q where "q = k div 10"
  define r where "r = k mod 10"
  have m: "k = 10 * q + r" "0 \<le> r" "r < 10" "0 \<le> q" using Suc.prems(1) by (auto simp: q_def r_def)
  have qr: "k sdiv 10 = q" "k smod 10 = r"
    using Suc.prems(1) by (auto simp: sdiv_int smod_int q_def r_def)
  define w where "w = v * 10 ^ i"
  have q: "q < 10 ^ i" using Suc.prems(2) m by simp
  have "10 ^ i \<le> w" "10 * w \<le> 9223372036854775807"
    using Suc.prems(3,4) by (simp_all add: w_def mult.left_commute)
  then have x: "0 \<le> (w - q) * 10" "r \<le> (w - q) * 10" "(w - q) * 10 \<le> 9223372036854775807"
    using q m(2-4) by auto
  have IH: "append_digits False v (digs i (- q)) = Some (w - q)"
    using Suc.IH [of q] Suc.prems m q by (simp add: w_def)
  have "lng ((w - q) * 10) = Some ((w - q) * 10)" "lng ((w - q) * 10 - r) = Some ((w - q) * 10 - r)"
    using x m by (auto simp: lng_def LONG_MIN_def LONG_MAX_def)
  then have "append_digits False v (digs (Suc i) (- k)) = Some ((w - q) * 10 - r)"
    by (simp add: append_digits_append qr IH)
  then show ?case using m(1) by (simp add: w_def)
qed simp

text \<open>A borrow that was left in the microseconds is resolved when the seconds are positive.\<close>

lemma ADD_MICRO_SECONDS_borrow:
  assumes "secs_ok s" "1 \<le> s" "- 999999 \<le> m" "m < 0"
  shows "ADD_MICRO_SECONDS s m = Some (internal (s - 1) (m + 1000000))"
proof -
  have "fill_micro 6 m [0, 0, 0, 0, 0, 0] = Some (digs 6 m)"
    using fill_micro_digs [of m 6 "[]"] assms by (simp add: numeral_eq_Suc)
  moreover have "append_digits False s (digs 6 m) = Some (s * 1000000 + m)"
    using append_digs_negative [of "- m" 6 s] assms by (simp add: secs_ok_def)
  ultimately show ?thesis
    using assms by (simp add: ADD_MICRO_SECONDS_def internal_def)
qed

section \<open>Points in time\<close>

text \<open>What an internal value stands for, ordered by time.\<close>

datatype stamp = Stamp (seconds: int) (micros: int)

instantiation stamp :: linorder
begin

definition less_eq_stamp :: "stamp \<Rightarrow> stamp \<Rightarrow> bool" where
  "less_eq_stamp a b \<longleftrightarrow> seconds a < seconds b \<or> seconds a = seconds b \<and> micros a \<le> micros b"

definition less_stamp :: "stamp \<Rightarrow> stamp \<Rightarrow> bool" where
  "less_stamp a b \<longleftrightarrow> seconds a < seconds b \<or> seconds a = seconds b \<and> micros a < micros b"

instance
  by standard (auto simp: less_eq_stamp_def less_stamp_def stamp.expand)

end

definition stamp_ok :: "stamp \<Rightarrow> bool" where
  "stamp_ok a \<longleftrightarrow> secs_ok (seconds a) \<and> micro_ok (micros a)"

text \<open>Microseconds since 1970, the scale on which intervals are added.\<close>

definition micro_time :: "stamp \<Rightarrow> int" where
  "micro_time a = seconds a * 1000000 + micros a"

lemma micro_time_mono: "stamp_ok a \<Longrightarrow> stamp_ok b \<Longrightarrow> micro_time a < micro_time b \<longleftrightarrow> a < b"
  by (auto simp: micro_time_def less_stamp_def stamp_ok_def micro_ok_def)

lemma internal_mono:
  assumes "micro_ok m" "micro_ok m'"
  shows "internal s m < internal s' m' \<longleftrightarrow> s < s' \<or> s = s' \<and> m < m'"
  using assms by (auto simp: internal_def micro_ok_def)

lemma internal_range:
  assumes "secs_ok s" "micro_ok m"
  shows "LONG_MIN \<le> internal s m \<and> internal s m \<le> LONG_MAX"
  using assms by (auto simp: internal_def secs_ok_def micro_ok_def LONG_MIN_def LONG_MAX_def)

section \<open>The contract of the format\<close>

locale micro_codec =
  fixes put :: "int \<Rightarrow> int \<Rightarrow> int option" and get :: "int \<Rightarrow> (int \<times> int) option"
  assumes put_total: "secs_ok s \<Longrightarrow> micro_ok m \<Longrightarrow> \<exists>v. put s m = Some v"
    and get_put: "secs_ok s \<Longrightarrow> micro_ok m \<Longrightarrow> put s m = Some v \<Longrightarrow> get v = Some (s, m)"
    and put_mono: "secs_ok s \<Longrightarrow> micro_ok m \<Longrightarrow> put s m = Some v \<Longrightarrow> secs_ok s' \<Longrightarrow> micro_ok m' \<Longrightarrow> put s' m' = Some v'
      \<Longrightarrow> Stamp s m < Stamp s' m' \<Longrightarrow> v < v'"
begin

definition encode :: "stamp \<Rightarrow> int" where
  "encode a = the (put (seconds a) (micros a))"

definition decode :: "int \<Rightarrow> stamp" where
  "decode v = (case get v of Some (s, m) \<Rightarrow> Stamp s m | None \<Rightarrow> Stamp 0 0)"

lemma put_encode: "stamp_ok a \<Longrightarrow> put (seconds a) (micros a) = Some (encode a)"
  using put_total by (auto simp: stamp_ok_def encode_def)

lemma get_encode: "stamp_ok a \<Longrightarrow> get (encode a) = Some (seconds a, micros a)"
  using put_encode [of a] by (intro get_put) (simp_all add: stamp_ok_def)

lemma decode_encode: "stamp_ok a \<Longrightarrow> decode (encode a) = a"
  by (simp add: decode_def get_encode)

lemma encode_mono:
  assumes "stamp_ok a" "stamp_ok b"
  shows "encode a < encode b \<longleftrightarrow> a < b"
proof -
  have *: "encode a < encode b" if "stamp_ok a" "stamp_ok b" "a < b" for a b
    using put_mono [OF _ _ put_encode [OF that(1)] _ _ put_encode [OF that(2)]] that by (auto simp: stamp_ok_def)
  show ?thesis
    using * [OF assms] * [OF assms(2,1)] by (metis less_irrefl linorder_neqE order_less_asym)
qed

lemma encode_inject: "stamp_ok a \<Longrightarrow> stamp_ok b \<Longrightarrow> encode a = encode b \<longleftrightarrow> a = b"
  by (metis decode_encode)

end

interpretation micro: micro_codec ADD_MICRO_SECONDS REMOVE_MICRO_SECONDS
proof
  fix s m s' m' v v' :: int
  assume "secs_ok s" "micro_ok m"
  note a = ADD_MICRO_SECONDS_internal [OF this]
  then show "\<exists>v. ADD_MICRO_SECONDS s m = Some v" by simp
  assume v: "ADD_MICRO_SECONDS s m = Some v"
  with a \<open>micro_ok m\<close> show "REMOVE_MICRO_SECONDS v = Some (s, m)"
    using REMOVE_MICRO_SECONDS_internal [of m s] by simp
  assume s': "secs_ok s'" "micro_ok m'" "ADD_MICRO_SECONDS s' m' = Some v'" "Stamp s m < Stamp s' m'"
  with a v internal_mono [OF \<open>micro_ok m\<close> s'(2), of s s'] ADD_MICRO_SECONDS_internal [OF s'(1,2)]
  show "v < v'" by (simp add: less_stamp_def)
qed

lemma encode_internal: "stamp_ok (Stamp s m) \<Longrightarrow> micro.encode (Stamp s m) = internal s m"
  by (simp add: micro.encode_def stamp_ok_def ADD_MICRO_SECONDS_internal)

lemma REMOVE_canonical:
  assumes "v \<le> - 1000000 \<or> 0 \<le> v" "REMOVE_MICRO_SECONDS v = Some (s, m)"
  shows "micro_ok m \<and> internal s m = v"
proof (cases "0 \<le> v")
  case True
  then have "s = v div 1000000" "m = v mod 1000000"
    using assms(2) pos_imp_zdiv_nonneg_iff [of 1000000 v]
    by (simp_all add: REMOVE_MICRO_SECONDS_def strip_micro_nonneg Let_def split: if_splits)
  with True show ?thesis by (auto simp: internal_def micro_ok_def pos_imp_zdiv_nonneg_iff)
next
  case False
  define k where "k = - v"
  have k: "1000000 \<le> k" "v = - k" using assms(1) False by (auto simp: k_def)
  then have q: "1 \<le> k div 1000000" by linarith
  have "REMOVE_MICRO_SECONDS v = Some (- (k div 1000000), 999999 - k mod 1000000)"
    unfolding k(2) REMOVE_MICRO_SECONDS_def using k(1) q
    by (subst strip_micro_neg) (auto simp: NINES_COMPLIMENT_def)
  then have "s = - (k div 1000000)" "m = 999999 - k mod 1000000" using assms(2) by simp_all
  moreover have "internal (- j) (999999 - r) = - k" if "k = 1000000 * j + r" "1 \<le> j" for j r
    using that by (simp add: internal_def)
  from this [OF _ q, of "k mod 1000000"] have "internal (- (k div 1000000)) (999999 - k mod 1000000) = - k" by simp
  ultimately show ?thesis
    by (simp add: micro_ok_def k(2))
qed

section \<open>Properties\<close>

text \<open>C5: The internal format is lossless. Whatever seconds (of about 292 thousand years around 1970,
  before it too) and microseconds are appended, the value fits in a \<open>long\<close>, no digit is written
  outside the array, and removing the microseconds gives both back.\<close>

theorem internal_format_round_trip:
  assumes "secs_ok s" "micro_ok m"
  shows "\<exists>v. ADD_MICRO_SECONDS s m = Some v \<and> LONG_MIN \<le> v \<and> v \<le> LONG_MAX
    \<and> REMOVE_MICRO_SECONDS v = Some (s, m)"
  using assms internal_range micro.get_encode [of "Stamp s m"] ADD_MICRO_SECONDS_internal encode_internal
  by (auto simp: stamp_ok_def)

theorem internal_format_round_trip_witness:
  "\<exists>v. ADD_MICRO_SECONDS (- 86400) 250000 = Some v \<and> LONG_MIN \<le> v \<and> v \<le> LONG_MAX
    \<and> REMOVE_MICRO_SECONDS v = Some (- 86400, 250000)"
  by (rule internal_format_round_trip) code_simp+

text \<open>C39: Internal values compare as the times they stand for, on both sides of 1970 and across it: that
  is what lets SQL compare dates and timestamps as plain integers, and it is the reason for
  the nine's complement.\<close>

theorem internal_format_order:
  assumes "stamp_ok a" "stamp_ok b"
    and "ADD_MICRO_SECONDS (seconds a) (micros a) = Some v" "ADD_MICRO_SECONDS (seconds b) (micros b) = Some w"
  shows "(v < w \<longleftrightarrow> a < b) \<and> (v = w \<longleftrightarrow> a = b)"
  using assms micro.encode_mono [OF assms(1,2)] micro.encode_inject [OF assms(1,2)]
  by (simp add: micro.put_encode)

theorem internal_format_order_witness:
  "((- 1999998) < (- 1000000 :: int) \<longleftrightarrow> Stamp (- 1) 1 < Stamp (- 1) 999999)
    \<and> ((- 1999998) = (- 1000000 :: int) \<longleftrightarrow> Stamp (- 1) 1 = Stamp (- 1) 999999)"
  by (rule internal_format_order) code_simp+

text \<open>Every value but those between -999999 and -1, which no time has, is the image of exactly the
  seconds and microseconds that \<open>REMOVE_MICRO_SECONDS\<close> extracts.\<close>

theorem internal_format_canonical:
  assumes "v \<le> - 1000000 \<or> 0 \<le> v" "REMOVE_MICRO_SECONDS v = Some (s, m)" "secs_ok s"
  shows "micro_ok m \<and> ADD_MICRO_SECONDS s m = Some v"
  using REMOVE_canonical [OF assms(1,2)] assms(3) ADD_MICRO_SECONDS_internal by auto

theorem internal_format_canonical_witness:
  "micro_ok 750000 \<and> ADD_MICRO_SECONDS (- 2) 750000 = Some (- 2249999)"
  by (rule internal_format_canonical) code_simp+

end
