(* ===== verification/OctoTypes.thy ===== *)
theory OctoTypes
  imports Prelude
begin

text \<open>
  The enumerations of \<open>src/octo_types.h\<close> that the date and time operations and the type checks of
  expressions work on: the types of values in the parse tree (\<open>SqlValueType\<close>), the types of
  columns (\<open>SqlDataType\<close>), the operators, and the keywords, among them the five formats of
  date and time literals. The constructors are those of the source in its order.
\<close>

datatype UnaryOperations =
    FORCE_NUM | NEGATIVE | BOOLEAN_NOT | BOOLEAN_EXISTS | BOOLEAN_NOT_EXISTS

datatype BinaryOperations =
    ADDITION | SUBTRACTION | DIVISION | MULTIPLICATION | MODULO | CONCAT | BOOLEAN_OR
    | BOOLEAN_AND | BOOLEAN_IS | BOOLEAN_IS_NOT | BOOLEAN_EQUALS | BOOLEAN_NOT_EQUALS
    | BOOLEAN_LESS_THAN | BOOLEAN_GREATER_THAN | BOOLEAN_LESS_THAN_OR_EQUALS
    | BOOLEAN_GREATER_THAN_OR_EQUALS | BOOLEAN_REGEX_SENSITIVE | BOOLEAN_REGEX_INSENSITIVE
    | BOOLEAN_REGEX_SENSITIVE_LIKE | BOOLEAN_REGEX_INSENSITIVE_LIKE
    | BOOLEAN_REGEX_SENSITIVE_SIMILARTO | BOOLEAN_IN | BOOLEAN_NOT_IN | BOOLEAN_ANY_EQUALS
    | BOOLEAN_ANY_NOT_EQUALS | BOOLEAN_ANY_LESS_THAN | BOOLEAN_ANY_GREATER_THAN
    | BOOLEAN_ANY_LESS_THAN_OR_EQUALS | BOOLEAN_ANY_GREATER_THAN_OR_EQUALS | BOOLEAN_ALL_EQUALS
    | BOOLEAN_ALL_NOT_EQUALS | BOOLEAN_ALL_LESS_THAN | BOOLEAN_ALL_GREATER_THAN
    | BOOLEAN_ALL_LESS_THAN_OR_EQUALS | BOOLEAN_ALL_GREATER_THAN_OR_EQUALS | DATE_TIME_ADDITION
    | DATE_TIME_SUBTRACTION

datatype SqlValueType =
    UNKNOWN_SqlValueType | BOOLEAN_VALUE | NUMERIC_LITERAL | INTEGER_LITERAL | STRING_LITERAL
    | COLUMN_REFERENCE | CALCULATED_VALUE | FUNCTION_NAME | FUNCTION_HASH | PARAMETER_VALUE
    | NUL_VALUE | COERCE_TYPE | DELIM_VALUE | IS_NULL_LITERAL | TABLE_ASTERISK
    | BOOLEAN_OR_STRING_LITERAL | SELECT_ASTERISK | DATE_LITERAL | TIME_LITERAL
    | TIME_WITH_TIME_ZONE_LITERAL | TIMESTAMP_LITERAL | TIMESTAMP_WITH_TIME_ZONE_LITERAL
    | INVALID_SqlValueType

datatype SqlDataType =
    UNKNOWN_SqlDataType | BOOLEAN_TYPE | INTEGER_TYPE | NUMERIC_TYPE | STRING_TYPE | NUL_TYPE
    | DATE_TYPE | TIME_TYPE | TIME_WITH_TIME_ZONE_TYPE | TIMESTAMP_TYPE
    | TIMESTAMP_WITH_TIME_ZONE_TYPE

datatype OptionalKeyword =
    NO_KEYWORD | PRIMARY_KEY | NOT_NULL | UNIQUE_CONSTRAINT | OPTIONAL_GLOBAL | OPTIONAL_END
    | OPTIONAL_START | OPTIONAL_DELIM | OPTIONAL_EXTRACT | OPTIONAL_CASCADE | OPTIONAL_RESTRICT
    | OPTIONAL_PIECE | OPTIONAL_KEY_NUM | OPTIONAL_ADVANCE | OPTIONAL_LIMIT | OPTIONAL_DISTINCT
    | OPTIONAL_XREF_INDEX | OPTIONAL_BOOLEAN_EXPANSION | OPTIONAL_ASC | OPTIONAL_DESC
    | OPTIONAL_STARTINCLUDE | OPTIONAL_READONLY | OPTIONAL_READWRITE | OPTIONAL_ENDPOINT
    | OPTIONAL_KEEPDATA | OPTIONAL_CHECK_CONSTRAINT | OPTIONAL_AIM_TYPE
    | OPTIONAL_OVERRIDING_SYSTEM_VALUE | OPTIONAL_OVERRIDING_USER_VALUE | OPTIONAL_DEFAULT
    | OPTIONAL_GENERATED_BY_DEFAULT_IDENTITY | OPTIONAL_GENERATED_ALWAYS_IDENTITY
    | OPTIONAL_DATE_TIME_HOROLOG | OPTIONAL_DATE_TIME_ZHOROLOG | OPTIONAL_DATE_TIME_FILEMAN
    | OPTIONAL_DATE_TIME_ZUT | OPTIONAL_DATE_TIME_TEXT

end
