(* ===== verification/DateOps.thy ===== *)
theory DateOps
  imports DateMicro OctoTypes
begin

text \<open>
  The arithmetic on dates and times of \<open>src/aux/ydboctodateoperations.c\<close>: the conversion from
  Unix time (\<open>ydboctoZutC\<close>), the casts between the date and time types (\<open>ydboctoDateTimeCastC\<close>), the
  shift to local time, and the operators \<open>-\<close> and \<open>+\<close> (\<open>ydboctoSubDateC\<close>,
  \<open>ydboctoSubDateTimeC\<close>, \<open>ydboctoAddDateTimeC\<close>). All of them take the microseconds off, work on
  \<open>struct tm\<close>, and put the microseconds back.

  The system's time zone and clock are the argument \<open>env\<close>. \<open>None\<close> is a violated
  \<open>assert\<close> or undefined behaviour: a signed overflow of \<open>int\<close> or \<open>long\<close>.
\<close>

section \<open>Definitions from the source\<close>

definition MAX_DATE_TIME_INTERNAL_FORMAT_VALUE :: int where
  "MAX_DATE_TIME_INTERNAL_FORMAT_VALUE = 253402300799999999"
definition MIN_DATE_TIME_INTERNAL_FORMAT_VALUE :: int where
  "MIN_DATE_TIME_INTERNAL_FORMAT_VALUE = - 62167219200999999"
definition DATE_TIME_ERROR_RETURN :: int where
  "DATE_TIME_ERROR_RETURN = MAX_DATE_TIME_INTERNAL_FORMAT_VALUE + 1"

definition int32 :: "int \<Rightarrow> int option" where
  "int32 x = (if INT_MIN \<le> x \<and> x \<le> INT_MAX then Some x else None)"

text \<open>\<open>mktime\<close> with the time zone set to UTC.\<close>

definition utc_mktime :: "tm \<Rightarrow> int" where
  "utc_mktime t = timegm (t\<lparr>tm_isdst := - 1\<rparr>)"

text \<open>\<open>gmtime\<close> gives NULL, which the code copies from, when the year does not fit in an \<open>int\<close>.\<close>

definition gmtime_result :: "int \<Rightarrow> tm option" where
  "gmtime_result t = (case int32 (tm_year (gmtime t)) of None \<Rightarrow> None | Some _ \<Rightarrow> Some (gmtime t))"

definition ydboctoZutC :: "int \<Rightarrow> int \<Rightarrow> string \<Rightarrow> int option" where
  "ydboctoZutC secs microsec format =
     (if CHR ''H'' \<in> set (c_str format) then ADD_MICRO_SECONDS secs microsec
      else do {
        tm1 \<leftarrow> gmtime_result secs;
        ADD_MICRO_SECONDS (utc_mktime (tm1\<lparr>tm_min := 0, tm_hour := 0, tm_sec := 0\<rparr>)) 0
      })"

definition convertToLocalTimezone :: "clock_env \<Rightarrow> SqlValueType \<Rightarrow> int \<Rightarrow> int" where
  "convertToLocalTimezone env type val =
     (let gmtoff = (if type = TIME_WITH_TIME_ZONE_LITERAL then tm_gmtoff (localtime env (now env))
                    else tm_gmtoff (localtime env val))
      in val + gmtoff)"

definition ydboctoConvertToLocalTimezoneC :: "clock_env \<Rightarrow> SqlValueType \<Rightarrow> int \<Rightarrow> int option" where
  "ydboctoConvertToLocalTimezoneC env type date_time_utc_value =
     do {
       (v, micro_op1) \<leftarrow> REMOVE_MICRO_SECONDS date_time_utc_value;
       ADD_MICRO_SECONDS (convertToLocalTimezone env type v) micro_op1
     }"

definition clear_time :: "tm \<Rightarrow> tm" where
  "clear_time t = t\<lparr>tm_sec := 0, tm_min := 0, tm_hour := 0\<rparr>"

definition clear_date :: "tm \<Rightarrow> tm" where
  "clear_date t = t\<lparr>tm_mday := 0, tm_mon := 0, tm_year := 0\<rparr>"

text \<open>The seconds of a cast: \<open>value\<close> without its microseconds, and its fields \<open>tm1\<close>.\<close>

definition cast_to_time :: "SqlValueType \<Rightarrow> int \<Rightarrow> tm \<Rightarrow> int option" where
  "cast_to_time input_type value tm1 =
     (if input_type = TIME_LITERAL then Some value
      else if input_type = TIME_WITH_TIME_ZONE_LITERAL then Some (utc_mktime tm1)
      else if input_type = TIMESTAMP_LITERAL then Some (utc_mktime (clear_date tm1))
      else if input_type = TIMESTAMP_WITH_TIME_ZONE_LITERAL then Some (utc_mktime (clear_date tm1))
      else None)"

definition cast_to_date :: "clock_env \<Rightarrow> SqlValueType \<Rightarrow> int \<Rightarrow> tm \<Rightarrow> int option" where
  "cast_to_date env input_type value tm1 =
     (if input_type = DATE_LITERAL then Some value
      else if input_type = TIMESTAMP_LITERAL then Some (utc_mktime (clear_time tm1))
      else if input_type = TIMESTAMP_WITH_TIME_ZONE_LITERAL then Some (mktime env (clear_time tm1))
      else None)"

definition cast_to_timestamp :: "SqlValueType \<Rightarrow> int \<Rightarrow> tm \<Rightarrow> int option" where
  "cast_to_timestamp input_type value tm1 =
     (if input_type = DATE_LITERAL then Some (utc_mktime (clear_time tm1))
      else if input_type = TIMESTAMP_LITERAL then Some value
      else if input_type = TIMESTAMP_WITH_TIME_ZONE_LITERAL then Some (utc_mktime tm1)
      else None)"

definition cast_to_time_tz :: "clock_env \<Rightarrow> SqlValueType \<Rightarrow> int \<Rightarrow> tm \<Rightarrow> int option" where
  "cast_to_time_tz env input_type value tm1 =
     (if input_type = TIME_LITERAL then Some (mktime env tm1)
      else if input_type = TIME_WITH_TIME_ZONE_LITERAL then Some value
      else None)"

definition cast_to_timestamp_tz :: "clock_env \<Rightarrow> SqlValueType \<Rightarrow> int \<Rightarrow> tm \<Rightarrow> int option" where
  "cast_to_timestamp_tz env input_type value tm1 =
     (if input_type = DATE_LITERAL then Some (mktime env ((clear_time tm1)\<lparr>tm_isdst := - 1\<rparr>))
      else if input_type = TIMESTAMP_LITERAL then Some (mktime env (tm1\<lparr>tm_isdst := - 1\<rparr>))
      else if input_type = TIMESTAMP_WITH_TIME_ZONE_LITERAL then Some value
      else None)"

definition ydboctoDateTimeCastC :: "clock_env \<Rightarrow> int \<Rightarrow> SqlValueType \<Rightarrow> SqlDataType \<Rightarrow> int option" where
  "ydboctoDateTimeCastC env value input_type output_type =
     do {
       (value, micro) \<leftarrow> REMOVE_MICRO_SECONDS value;
       let tm1 = (if input_type = DATE_LITERAL \<or> input_type = TIME_LITERAL \<or> input_type = TIMESTAMP_LITERAL
                  then gmtime value else localtime env value);
       if output_type = TIME_TYPE
       then do { ret \<leftarrow> cast_to_time input_type value tm1; ADD_MICRO_SECONDS ret micro }
       else if output_type = DATE_TYPE
       then do { ret \<leftarrow> cast_to_date env input_type value tm1; ADD_MICRO_SECONDS ret 0 }
       else if output_type = TIMESTAMP_TYPE
       then do { ret \<leftarrow> cast_to_timestamp input_type value tm1; ADD_MICRO_SECONDS ret micro }
       else if output_type = TIME_WITH_TIME_ZONE_TYPE
       then do { ret \<leftarrow> cast_to_time_tz env input_type value tm1; ADD_MICRO_SECONDS ret micro }
       else if output_type = TIMESTAMP_WITH_TIME_ZONE_TYPE
       then do { ret \<leftarrow> cast_to_timestamp_tz env input_type value tm1; ADD_MICRO_SECONDS ret micro }
       else None
     }"

definition validate_result :: "int \<Rightarrow> int" where
  "validate_result ret =
     (if ret > MAX_DATE_TIME_INTERNAL_FORMAT_VALUE \<or> ret < MIN_DATE_TIME_INTERNAL_FORMAT_VALUE
      then DATE_TIME_ERROR_RETURN else ret)"

definition ydboctoSubDateC :: "int \<Rightarrow> int \<Rightarrow> bool \<Rightarrow> int option" where
  "ydboctoSubDateC op1 op2 is_op2_integer =
     do {
       (op1, micro_op1) \<leftarrow> REMOVE_MICRO_SECONDS op1;
       if micro_op1 \<noteq> 0 then None
       else if is_op2_integer then
         (if INT_MAX < op2 \<or> INT_MIN > op2 then Some DATE_TIME_ERROR_RETURN
          else do {
            let tm1 = gmtime op1;
            mday \<leftarrow> int32 (tm_mday tm1 - op2);
            ret \<leftarrow> ADD_MICRO_SECONDS (utc_mktime (tm1\<lparr>tm_mday := mday\<rparr>)) micro_op1;
            Some (validate_result ret)
          })
       else do {
         (op2, micro_op2) \<leftarrow> REMOVE_MICRO_SECONDS op2;
         if micro_op2 \<noteq> 0 then None
         else do {
           result \<leftarrow> lng (op1 - op2);
           Some (validate_result (result sdiv 60 sdiv 60 sdiv 24))
         }
       }
     }"

text \<open>The fields of an operand, with the offset of local time when its type has a time zone.\<close>

definition operand_tm :: "clock_env \<Rightarrow> SqlValueType \<Rightarrow> int \<Rightarrow> tm \<times> int option" where
  "operand_tm env type v =
     (if type = TIMESTAMP_WITH_TIME_ZONE_LITERAL \<or> type = TIME_WITH_TIME_ZONE_LITERAL
      then (localtime env v, Some (tm_gmtoff (localtime env v)))
      else (gmtime v, None))"

definition sub_tm :: "tm \<Rightarrow> tm \<Rightarrow> tm" where
  "sub_tm tm1 tm2 = tm1\<lparr>tm_hour := tm_hour tm1 - tm_hour tm2, tm_min := tm_min tm1 - tm_min tm2,
     tm_sec := tm_sec tm1 - tm_sec tm2\<rparr>"

definition add_tm :: "tm \<Rightarrow> tm \<Rightarrow> tm" where
  "add_tm tm1 tm2 = tm1\<lparr>tm_hour := tm_hour tm1 + tm_hour tm2, tm_min := tm_min tm1 + tm_min tm2,
     tm_sec := tm_sec tm1 + tm_sec tm2\<rparr>"

definition add_seconds :: "int \<Rightarrow> tm \<Rightarrow> tm" where
  "add_seconds n t = t\<lparr>tm_sec := tm_sec t + n\<rparr>"

text \<open>
  \<open>micro_op_result\<close> is a \<open>float\<close> in the source, the sum or difference divided by 1000000. Its
  comparisons with integers are those of the undivided integers.
\<close>

definition ydboctoSubDateTimeC :: "clock_env \<Rightarrow> int \<Rightarrow> SqlValueType \<Rightarrow> int \<Rightarrow> SqlValueType \<Rightarrow> int option" where
  "ydboctoSubDateTimeC env op1 op1_type op2 op2_type =
     (if \<not> (op1_type = DATE_LITERAL \<or> op1_type = TIMESTAMP_LITERAL \<or> op1_type = TIME_WITH_TIME_ZONE_LITERAL
            \<or> op1_type = TIMESTAMP_WITH_TIME_ZONE_LITERAL) then None
      else if op2_type \<noteq> TIME_LITERAL then None
      else do {
        (op1, micro_op1) \<leftarrow> REMOVE_MICRO_SECONDS op1;
        let (tm1, gmtoff) = operand_tm env op1_type op1;
        (op2, micro_op2) \<leftarrow> REMOVE_MICRO_SECONDS op2;
        let (tm2, gmtoff2) = operand_tm env op2_type op2;
        let gmtoff = (case gmtoff2 of None \<Rightarrow> gmtoff | Some g \<Rightarrow> Some g);
        let tm1 = sub_tm tm1 tm2;
        let micro_op1 = micro_op1 - micro_op2;
        let (tm1, micro_op1) =
          (if 0 > micro_op1 \<and> - 1000000 > micro_op1 then (add_seconds (- 1) tm1, micro_op1 + 1000000)
           else (tm1, micro_op1));
        let tm1 = (case gmtoff of None \<Rightarrow> tm1 | Some g \<Rightarrow> add_seconds (- g) tm1);
        let ret = utc_mktime tm1;
        let micro_op1 = (if 0 > ret \<and> 0 > micro_op1 then - micro_op1 else micro_op1);
        ret \<leftarrow> ADD_MICRO_SECONDS ret micro_op1;
        Some (validate_result ret)
      })"

definition ydboctoAddDateTimeC :: "clock_env \<Rightarrow> int \<Rightarrow> SqlValueType \<Rightarrow> int \<Rightarrow> SqlValueType \<Rightarrow> int option" where
  "ydboctoAddDateTimeC env op1 op1_type op2 op2_type =
     do {
       (op1, micro_op1) \<leftarrow> REMOVE_MICRO_SECONDS op1;
       let (tm1, gmtoff) = operand_tm env op1_type op1;
       if op2_type = INTEGER_LITERAL then
         (if INT_MAX < op2 \<or> INT_MIN > op2 then Some DATE_TIME_ERROR_RETURN
          else do {
            mday \<leftarrow> int32 (tm_mday tm1 + op2);
            ret \<leftarrow> ADD_MICRO_SECONDS (utc_mktime (tm1\<lparr>tm_mday := mday\<rparr>)) micro_op1;
            Some (validate_result ret)
          })
       else do {
         (op2, micro_op2) \<leftarrow> REMOVE_MICRO_SECONDS op2;
         let (tm2, gmtoff2) = operand_tm env op2_type op2;
         let gmtoff = (case gmtoff2 of None \<Rightarrow> gmtoff | Some g \<Rightarrow> Some g);
         let tm1 = add_tm tm1 tm2;
         let micro_op1 = micro_op1 + micro_op2;
         if \<not> 1999999 > micro_op1 then None
         else do {
           let (tm1, micro_op1) =
             (if 1000000 \<le> micro_op1 then (add_seconds 1 tm1, micro_op1 - 1000000) else (tm1, micro_op1));
           let tm1 = (case gmtoff of None \<Rightarrow> tm1 | Some g \<Rightarrow> add_seconds (- g) tm1);
           ret \<leftarrow> ADD_MICRO_SECONDS (utc_mktime tm1) micro_op1;
           Some (validate_result ret)
         }
       }
     }"

section \<open>The operations on seconds\<close>

lemma utc_mktime_timegm [simp]: "utc_mktime t = timegm t"
  by (simp add: utc_mktime_def timegm_def Let_def)

lemma timegm_localtime: "timegm (localtime env t) = t + utc_offset env t"
proof -
  have "timegm (u\<lparr>tm_gmtoff := g, tm_isdst := d\<rparr>) = timegm u" for u g d
    by (simp add: timegm_def Let_def)
  then show ?thesis by (simp add: localtime_def timegm_gmtime)
qed

text \<open>Seconds that every operation can shift by a day or a month's days without leaving \<open>long\<close>.\<close>

definition civil_secs :: "int \<Rightarrow> bool" where
  "civil_secs s \<longleftrightarrow> - 62167219200 \<le> s \<and> s \<le> 253402300799"

lemma civil_secs_ok: "civil_secs s \<Longrightarrow> secs_ok s"
  by (simp add: civil_secs_def secs_ok_def)

lemmas codec_simps = REMOVE_MICRO_SECONDS_internal ADD_MICRO_SECONDS_internal

lemma validate_result_internal:
  assumes "civil_secs s" "micro_ok m"
  shows "validate_result (internal s m) = internal s m"
  using assms by (auto simp: validate_result_def internal_def civil_secs_def micro_ok_def
      MAX_DATE_TIME_INTERNAL_FORMAT_VALUE_def MIN_DATE_TIME_INTERNAL_FORMAT_VALUE_def)

lemma clear_time_midnight: "timegm (clear_time (gmtime s)) = s - s mod 86400"
  using utc.midnight [of s] by (simp add: clear_time_def)

lemma timegm_mday_shift: "timegm ((gmtime s)\<lparr>tm_mday := tm_mday (gmtime s) + n\<rparr>) = s + n * 86400"
  by (rule utc.shift_days)

lemma timegm_sub_tm: "timegm (sub_tm a b) = timegm a - tod b"
  by (simp add: sub_tm_def timegm_def Let_def algebra_simps)

lemma timegm_add_tm: "timegm (add_tm a b) = timegm a + tod b"
  by (simp add: add_tm_def timegm_def Let_def algebra_simps)

lemma timegm_add_seconds: "timegm (add_seconds n t) = timegm t + n"
  by (simp add: add_seconds_def timegm_def Let_def)

lemma operand_seconds:
  assumes "operand_tm env type v = (u, g)"
  shows "timegm (case g of None \<Rightarrow> u | Some g \<Rightarrow> add_seconds (- g) u) = v"
proof -
  have "timegm (add_seconds (- utc_offset env v) (localtime env v)) = v"
    by (simp add: timegm_add_seconds timegm_localtime)
  moreover have "tm_gmtoff (localtime env v) = utc_offset env v" by (simp add: localtime_def)
  ultimately show ?thesis
    using assms by (auto simp: operand_tm_def timegm_gmtime split: if_splits)
qed

lemma days_between: "(86400 * a - 86400 * b) sdiv 60 sdiv 60 sdiv 24 = (a - b :: int)"
proof -
  have "(86400 * d) sdiv 60 sdiv 60 sdiv 24 = (d :: int)" for d
  proof (cases "0 \<le> d")
    case True
    then show ?thesis by (simp add: sdiv_int)
  next
    case False
    define e where "e = - d"
    have "0 \<le> e" "d = - e" using False by (simp_all add: e_def)
    then show ?thesis by (simp add: sdiv_int)
  qed
  from this [of "a - b"] show ?thesis by (simp add: algebra_simps)
qed

text \<open>The two operators without a borrow, and the shift by days.\<close>

lemma day_floor:
  assumes "- 9223371900000 \<le> s" "s \<le> 9223372036853"
  shows "s - s mod 86400 = 86400 * (s div 86400)" "secs_ok (86400 * (s div 86400))"
proof -
  show e: "s - s mod 86400 = 86400 * (s div 86400)" by (simp add: minus_mod_eq_mult_div)
  have "0 \<le> s mod 86400" "s mod 86400 < 86400" by simp_all
  then show "secs_ok (86400 * (s div 86400))"
    unfolding e [symmetric] secs_ok_def using assms by (intro conjI) linarith+
qed

lemma add_time_seconds:
  assumes "micro_ok m" "micro_ok m'" "civil_secs (s + s' mod 86400 + (m + m') div 1000000)"
  shows "ydboctoAddDateTimeC env (internal s m) t (internal s' m') TIME_LITERAL
    = Some (internal (s + s' mod 86400 + (m + m') div 1000000) ((m + m') mod 1000000))"
proof -
  define c where "c = (if 1000000 \<le> m + m' then 1 else 0 :: int)"
  have c: "(m + m') div 1000000 = c" "(m + m') mod 1000000 = m + m' - c * 1000000" "micro_ok (m + m' - c * 1000000)"
    using assms(1,2) by (auto simp: c_def micro_ok_def div_pos_pos_trivial intro: int_div_pos_eq int_mod_pos_eq)
  have o2: "operand_tm env TIME_LITERAL s' = (gmtime s', None)" by (simp add: operand_tm_def)
  have tod: "timegm (add_tm u (gmtime s')) = timegm u + s' mod 86400" for u
    by (simp only: timegm_add_tm gmtime_tod)
  obtain u g where o1: "operand_tm env t s = (u, g)" by fastforce
  note u = operand_seconds [OF o1]
  have eq: "timegm (case g of None \<Rightarrow> v | Some g \<Rightarrow> add_seconds (- g) v) = s + s' mod 86400 + c"
    if "v = (if c = 1 then add_seconds 1 (add_tm u (gmtime s')) else add_tm u (gmtime s'))" for v
    using u that by (cases g) (auto simp: timegm_add_seconds tod c_def)
  have "m + m' < 1999999" using assms(1,2) by (simp add: micro_ok_def)
  moreover have "(if 1000000 \<le> m + m' then (add_seconds 1 v, m + m' - 1000000) else (v, m + m'))
      = (if c = 1 then add_seconds 1 v else v, m + m' - c * 1000000)" for v
    by (simp add: c_def)
  ultimately show ?thesis
    using assms c eq civil_secs_ok [OF assms(3)] validate_result_internal [OF assms(3)]
    by (simp add: ydboctoAddDateTimeC_def codec_simps o1 o2)
qed

lemma seconds_unique:
  assumes "a * 1000000 + x = b * 1000000 + y" "micro_ok x" "micro_ok y"
  shows "a = b \<and> x = y"
proof -
  have "(a * 1000000 + x) div 1000000 = a" "(b * 1000000 + y) div 1000000 = b"
    using assms(2,3) by (auto simp: micro_ok_def intro: int_div_pos_eq)
  with assms(1) show ?thesis by simp
qed

lemma sub_time_seconds:
  assumes "micro_ok m" "micro_ok m'" "t \<in> {DATE_LITERAL, TIMESTAMP_LITERAL, TIME_WITH_TIME_ZONE_LITERAL, TIMESTAMP_WITH_TIME_ZONE_LITERAL}"
  shows "ydboctoSubDateTimeC env (internal s m) t (internal s' m') TIME_LITERAL
    = map_option validate_result (ADD_MICRO_SECONDS (s - s' mod 86400)
        (if s - s' mod 86400 < 0 \<and> m < m' then m' - m else m - m'))"
proof -
  have o2: "operand_tm env TIME_LITERAL s' = (gmtime s', None)" by (simp add: operand_tm_def)
  have tod: "timegm (sub_tm u (gmtime s')) = timegm u - s' mod 86400" for u
    by (simp only: timegm_sub_tm gmtime_tod)
  obtain u g where o1: "operand_tm env t s = (u, g)" by fastforce
  note u = operand_seconds [OF o1]
  have ret: "timegm (case g of None \<Rightarrow> sub_tm u (gmtime s') | Some g \<Rightarrow> add_seconds (- g) (sub_tm u (gmtime s'))) = s - s' mod 86400"
    using u by (cases g) (auto simp: timegm_add_seconds tod)
  have "\<not> m - m' < - 1000000" using assms(1,2) by (simp add: micro_ok_def)
  then show ?thesis
    using assms ret by (auto simp: ydboctoSubDateTimeC_def codec_simps o1 o2 Let_def map_conv_bind_option comp_def)
qed

lemma ADD_MICRO_SECONDS_overflow:
  assumes "9223372036855 \<le> s \<or> s \<le> - 9223372036855"
  shows "ADD_MICRO_SECONDS s 0 = None"
proof (cases "0 \<le> s")
  case True
  then show ?thesis
    using assms by (simp add: ADD_MICRO_SECONDS_def numeral_eq_Suc lng_def LONG_MAX_def LONG_MIN_def)
next
  case False
  have "fill_micro 6 999999 [0, 0, 0, 0, 0, 0] = Some [9, 9, 9, 9, 9, 9]" by code_simp
  then show ?thesis
    using assms False by (simp add: ADD_MICRO_SECONDS_def NINES_COMPLIMENT_def lng_def LONG_MAX_def LONG_MIN_def)
qed

section \<open>Properties\<close>

text \<open>Casting a timestamp to a date keeps exactly its day: the result is the midnight that starts
  it, also before 1970, where truncating division would give the next day.\<close>

theorem cast_timestamp_to_date:
  assumes "- 9223371900000 \<le> s" "s \<le> 9223372036853" "micro_ok m"
  shows "ydboctoDateTimeCastC env (internal s m) TIMESTAMP_LITERAL DATE_TYPE = Some (internal (86400 * (s div 86400)) 0)"
proof -
  from day_floor [OF assms(1,2)] show ?thesis
    using assms by (simp add: ydboctoDateTimeCastC_def codec_simps cast_to_date_def clear_time_midnight micro_ok_def)
qed

theorem cast_timestamp_to_date_witness:
  "ydboctoDateTimeCastC (fixed_zone (- 18000) 0) (internal (- 1) 999999) TIMESTAMP_LITERAL DATE_TYPE
    = Some (internal (86400 * (- 1 div 86400)) 0)"
  by (rule cast_timestamp_to_date) code_simp+

text \<open>A date survives the cast to a timestamp and back, and the timestamp is its midnight.\<close>

theorem cast_date_round_trip:
  assumes "- 106751990 \<le> d" "d \<le> 106751990"
  shows "ydboctoDateTimeCastC env (internal (86400 * d) 0) DATE_LITERAL TIMESTAMP_TYPE = Some (internal (86400 * d) 0)
    \<and> ydboctoDateTimeCastC env (internal (86400 * d) 0) TIMESTAMP_LITERAL DATE_TYPE = Some (internal (86400 * d) 0)"
proof -
  have "secs_ok (86400 * d)" using assms by (simp add: secs_ok_def)
  then show ?thesis
    using clear_time_midnight [of "86400 * d"]
    by (simp add: ydboctoDateTimeCastC_def codec_simps cast_to_date_def cast_to_timestamp_def micro_ok_def)
qed

theorem cast_date_round_trip_witness:
  "ydboctoDateTimeCastC (fixed_zone 3600 0) (internal (86400 * 19774) 0) DATE_LITERAL TIMESTAMP_TYPE = Some (internal (86400 * 19774) 0)
    \<and> ydboctoDateTimeCastC (fixed_zone 3600 0) (internal (86400 * 19774) 0) TIMESTAMP_LITERAL DATE_TYPE = Some (internal (86400 * 19774) 0)"
  by (rule cast_date_round_trip) code_simp+

text \<open>C6: The cast of a timestamp to \<open>timestamp with time zone\<close> and back is the identity whenever
  \<open>mktime\<close> finds an instant whose local time is the given one; that fails only for the
  local times that a change to daylight saving time skips.\<close>

theorem cast_time_zone_round_trip:
  assumes "secs_ok s" "micro_ok m"
    and mktime_inverse: "local_to_utc env (- 1) s + utc_offset env (local_to_utc env (- 1) s) = s"
    and "secs_ok (local_to_utc env (- 1) s)"
  shows "\<exists>v. ydboctoDateTimeCastC env (internal s m) TIMESTAMP_LITERAL TIMESTAMP_WITH_TIME_ZONE_TYPE = Some v
    \<and> ydboctoDateTimeCastC env v TIMESTAMP_WITH_TIME_ZONE_LITERAL TIMESTAMP_TYPE = Some (internal s m)"
proof -
  let ?u = "local_to_utc env (- 1) s"
  have isdst: "timegm (t\<lparr>tm_isdst := d\<rparr>) = timegm t" for t d by (simp add: timegm_def Let_def)
  have "ydboctoDateTimeCastC env (internal s m) TIMESTAMP_LITERAL TIMESTAMP_WITH_TIME_ZONE_TYPE = Some (internal ?u m)"
    using assms by (simp add: ydboctoDateTimeCastC_def codec_simps cast_to_timestamp_tz_def mktime_def isdst timegm_gmtime)
  moreover have "ydboctoDateTimeCastC env (internal ?u m) TIMESTAMP_WITH_TIME_ZONE_LITERAL TIMESTAMP_TYPE = Some (internal s m)"
    using assms by (simp add: ydboctoDateTimeCastC_def codec_simps cast_to_timestamp_def timegm_localtime)
  ultimately show ?thesis by blast
qed

theorem cast_time_zone_round_trip_witness:
  "\<exists>v. ydboctoDateTimeCastC (fixed_zone (- 18000) 0) (internal 1708473600 5) TIMESTAMP_LITERAL TIMESTAMP_WITH_TIME_ZONE_TYPE = Some v
    \<and> ydboctoDateTimeCastC (fixed_zone (- 18000) 0) v TIMESTAMP_WITH_TIME_ZONE_LITERAL TIMESTAMP_TYPE = Some (internal 1708473600 5)"
  by (rule cast_time_zone_round_trip) code_simp+

text \<open>The difference of two dates is the number of days between them, for dates before 1970 too.\<close>

theorem sub_date_counts_days:
  assumes "- 106751990 \<le> a" "a \<le> 106751990" "- 106751990 \<le> b" "b \<le> 106751990"
  shows "ydboctoSubDateC (internal (86400 * a) 0) (internal (86400 * b) 0) False = Some (a - b)"
proof -
  have "lng (86400 * a - 86400 * b) = Some (86400 * a - 86400 * b)"
    using assms by (simp add: lng_def LONG_MIN_def LONG_MAX_def)
  moreover have "validate_result (a - b) = a - b"
    using assms by (simp add: validate_result_def MAX_DATE_TIME_INTERNAL_FORMAT_VALUE_def MIN_DATE_TIME_INTERNAL_FORMAT_VALUE_def)
  ultimately show ?thesis
    by (simp add: ydboctoSubDateC_def codec_simps micro_ok_def days_between)
qed

theorem sub_date_counts_days_witness:
  "ydboctoSubDateC (internal (86400 * 19774) 0) (internal (86400 * (- 1)) 0) False = Some (19774 - (- 1))"
  by (rule sub_date_counts_days) simp_all

text \<open>Subtracting a number of days from a date moves it by exactly that many days, adding the
  number brings it back, and the result is the error value exactly when it leaves the years 0 to 9999.\<close>

theorem sub_and_add_days:
  assumes "- 719528 \<le> d" "d \<le> 2932896" "\<bar>n\<bar> \<le> 100000000"
  shows "ydboctoSubDateC (internal (86400 * d) 0) n True
      = Some (if - 719528 \<le> d - n \<and> d - n \<le> 2932896 then internal (86400 * (d - n)) 0 else DATE_TIME_ERROR_RETURN)
    \<and> (- 719528 \<le> d - n \<and> d - n \<le> 2932896 \<longrightarrow>
        ydboctoAddDateTimeC env (internal (86400 * (d - n)) 0) DATE_LITERAL n INTEGER_LITERAL = Some (internal (86400 * d) 0))"
proof -
  have md: "1 \<le> tm_mday (gmtime x)" "tm_mday (gmtime x) \<le> 31" for x by (rule utc.gm_mday)+
  have i: "int32 (tm_mday (gmtime x) - n) = Some (tm_mday (gmtime x) - n)"
    "int32 (tm_mday (gmtime x) + n) = Some (tm_mday (gmtime x) + n)" for x
    using md [of x] assms(3) by (auto simp: int32_def INT_MIN_def INT_MAX_def)
  have sh: "timegm ((gmtime x)\<lparr>tm_mday := tm_mday (gmtime x) - n\<rparr>) = x - n * 86400" for x
    using timegm_mday_shift [of x "- n"] by simp
  have nn: "\<not> INT_MAX < n" "\<not> n < INT_MIN" using assms(3) by (auto simp: INT_MIN_def INT_MAX_def)
  have e: "86400 * d - n * 86400 = 86400 * (d - n)" "86400 * (d - n) + n * 86400 = 86400 * d" by simp_all
  have ok: "secs_ok (86400 * (d - n))" "secs_ok (86400 * d)" using assms by (auto simp: secs_ok_def)
  have v: "validate_result (internal (86400 * k) 0)
      = (if - 719528 \<le> k \<and> k \<le> 2932896 then internal (86400 * k) 0 else DATE_TIME_ERROR_RETURN)" for k
    by (auto simp: validate_result_def internal_def MAX_DATE_TIME_INTERNAL_FORMAT_VALUE_def
        MIN_DATE_TIME_INTERNAL_FORMAT_VALUE_def)
  have "ydboctoSubDateC (internal (86400 * d) 0) n True = Some (validate_result (internal (86400 * (d - n)) 0))"
    using nn ok by (simp add: ydboctoSubDateC_def codec_simps micro_ok_def i sh e)
  moreover have "ydboctoAddDateTimeC env (internal (86400 * (d - n)) 0) DATE_LITERAL n INTEGER_LITERAL
      = Some (validate_result (internal (86400 * d) 0))"
    using nn ok timegm_mday_shift [of "86400 * (d - n)" n]
    by (simp add: ydboctoAddDateTimeC_def operand_tm_def codec_simps micro_ok_def i e)
  ultimately show ?thesis using assms(1,2) by (simp only: v) simp
qed

theorem sub_and_add_days_witness:
  "ydboctoSubDateC (internal (86400 * 19774) 0) 20000 True = Some (internal (86400 * (19774 - 20000)) 0)
    \<and> ydboctoAddDateTimeC (fixed_zone 0 0) (internal (86400 * (19774 - 20000)) 0) DATE_LITERAL 20000 INTEGER_LITERAL
        = Some (internal (86400 * 19774) 0)"
proof -
  have r: "- 719528 \<le> 19774 - (20000::int) \<and> 19774 - (20000::int) \<le> 2932896" by simp
  have h: "- 719528 \<le> (19774::int)" "(19774::int) \<le> 2932896" "\<bar>20000::int\<bar> \<le> 100000000" by simp_all
  from sub_and_add_days [OF h, of "fixed_zone 0 0"] show ?thesis by (simp only: r if_True simp_thms)
qed

text \<open>The only guard of the day arithmetic is that the number fits in an \<open>int\<close>, and it is not
  enough: for every date of the years 0 to 9999 and every such number of more than 110 million days
  the multiplication by which the microseconds are appended overflows \<open>long\<close>, before the result
  is compared with the valid range.\<close>

theorem sub_days_overflow:
  assumes "- 719528 \<le> d" "d \<le> 2932896" "110000000 \<le> \<bar>n\<bar>" "INT_MIN \<le> n" "n \<le> INT_MAX"
  shows "ydboctoSubDateC (internal (86400 * d) 0) n True = None"
proof -
  have sh: "timegm ((gmtime x)\<lparr>tm_mday := tm_mday (gmtime x) - n\<rparr>) = x - n * 86400" for x
    using timegm_mday_shift [of x "- n"] by simp
  have "ADD_MICRO_SECONDS (86400 * d - n * 86400) 0 = None"
    using assms by (intro ADD_MICRO_SECONDS_overflow) (auto simp: abs_if split: if_splits)
  then show ?thesis
    using assms by (cases "int32 (tm_mday (gmtime (86400 * d)) - n)")
      (auto simp: ydboctoSubDateC_def codec_simps micro_ok_def sh int32_def split: if_splits)
qed

theorem sub_days_overflow_witness:
  "ydboctoSubDateC (internal (86400 * 19774) 0) 213503982 True = None"
  by (rule sub_days_overflow) code_simp+

text \<open>C40: Adding a time of day is exact. Whatever the type of the left operand (with or without a time
  zone, in any zone), the result stands for the microseconds of the operand plus those
  of the time of day, carries into the seconds included, provided it is in the valid range.\<close>

theorem add_date_time_exact:
  assumes "stamp_ok a" "stamp_ok b" "a' = Stamp (seconds b mod 86400) (micros b)"
    and "micro_time r = micro_time a + micro_time a'" "micro_ok (micros r)" "civil_secs (seconds r)"
  shows "ydboctoAddDateTimeC env (micro.encode a) t (micro.encode b) TIME_LITERAL = Some (micro.encode r)"
proof -
  obtain s m s' m' sr mr where st: "a = Stamp s m" "b = Stamp s' m'" "r = Stamp sr mr"
    by (metis stamp.exhaust)
  have m: "micro_ok m" "micro_ok m'" using assms(1,2) by (auto simp: st stamp_ok_def)
  have e: "sr * 1000000 + mr = (s + s' mod 86400) * 1000000 + (m + m')"
    using assms(3,4) by (simp add: st micro_time_def algebra_simps)
  then have e': "m + m' = 1000000 * (sr - (s + s' mod 86400)) + mr" by simp
  then have "(m + m') div 1000000 = sr - (s + s' mod 86400)"
    using assms(5) by (intro int_div_pos_eq [OF e']) (auto simp: st micro_ok_def)
  moreover have "(m + m') mod 1000000 = mr"
    using assms(5) by (intro int_mod_pos_eq [OF e']) (auto simp: st micro_ok_def)
  moreover have "civil_secs sr" "stamp_ok r" using assms(5,6) civil_secs_ok [of sr] by (auto simp: st stamp_ok_def)
  ultimately show ?thesis
    using add_time_seconds [OF m, of s s' env t] assms(1,2) by (simp add: st encode_internal)
qed

theorem add_date_time_exact_witness:
  "ydboctoAddDateTimeC (fixed_zone (- 18000) 0) (micro.encode (Stamp (- 1) 999999)) TIMESTAMP_LITERAL
      (micro.encode (Stamp (- 2209075199) 2)) TIME_LITERAL
    = Some (micro.encode (Stamp 1 1))"
  by (rule add_date_time_exact [where a' = "Stamp 1 2"]) code_simp+

text \<open>Subtracting a time of day is exact when no microseconds have to be borrowed, and also when they
  have to be but the result is at least one second after 1970.\<close>

theorem sub_date_time_exact:
  assumes "stamp_ok a" "stamp_ok b" "a' = Stamp (seconds b mod 86400) (micros b)"
    and "t \<in> {DATE_LITERAL, TIMESTAMP_LITERAL, TIME_WITH_TIME_ZONE_LITERAL, TIMESTAMP_WITH_TIME_ZONE_LITERAL}"
    and "micro_time r = micro_time a - micro_time a'" "micro_ok (micros r)" "civil_secs (seconds r)"
    and "micros b \<le> micros a \<or> 0 \<le> seconds r"
  shows "ydboctoSubDateTimeC env (micro.encode a) t (micro.encode b) TIME_LITERAL = Some (micro.encode r)"
proof -
  obtain s m s' m' sr mr where st: "a = Stamp s m" "b = Stamp s' m'" "r = Stamp sr mr"
    by (metis stamp.exhaust)
  have m: "micro_ok m" "micro_ok m'" "micro_ok mr" using assms(1,2,6) by (auto simp: st stamp_ok_def)
  define q where "q = s - s' mod 86400"
  have e: "sr * 1000000 + mr = q * 1000000 + (m - m')"
    using assms(3,5) by (simp add: st micro_time_def q_def algebra_simps)
  have sr: "civil_secs sr" "secs_ok sr" using assms(7) civil_secs_ok by (simp_all add: st)
  have enc: "micro.encode a = internal s m" "micro.encode b = internal s' m'" "micro.encode r = internal sr mr"
    using assms(1,2,6) sr by (simp_all add: st encode_internal stamp_ok_def)
  have "ADD_MICRO_SECONDS q (if q < 0 \<and> m < m' then m' - m else m - m') = Some (internal sr mr)"
  proof (cases "m' \<le> m")
    case True
    then have "sr = q \<and> mr = m - m'" using m by (intro seconds_unique [OF e]) (auto simp: micro_ok_def)
    with True sr(2) m(3) show ?thesis by (simp add: ADD_MICRO_SECONDS_internal)
  next
    case False
    have "sr * 1000000 + mr = (q - 1) * 1000000 + (m - m' + 1000000)" using e by simp
    then have "sr = q - 1 \<and> mr = m - m' + 1000000" using m False by (intro seconds_unique) (auto simp: micro_ok_def)
    then have "q = sr + 1" "mr = m - m' + 1000000" by auto
    moreover have "0 \<le> sr" using assms(8) False by (simp add: st)
    ultimately show ?thesis
      using False m sr ADD_MICRO_SECONDS_borrow [of q "m - m'"]
      by (auto simp: secs_ok_def civil_secs_def micro_ok_def)
  qed
  then show ?thesis
    using sub_time_seconds [OF m(1,2) assms(4), of env s s'] validate_result_internal [OF sr(1) m(3)]
    by (simp add: enc q_def)
qed

theorem sub_date_time_exact_witness:
  "ydboctoSubDateTimeC (fixed_zone 0 0) (micro.encode (Stamp 86400 0)) TIMESTAMP_LITERAL
      (micro.encode (Stamp (- 2209075199) 100000)) TIME_LITERAL
    = Some (micro.encode (Stamp 86398 900000))"
  by (rule sub_date_time_exact [where a' = "Stamp 1 100000"]) code_simp+

text \<open>C7: Before 1970 a borrow is lost. When microseconds have to be borrowed and the difference of the
  seconds is negative, the result is the difference of the seconds with the microseconds of the
  difference added instead of subtracted, so it is late by twice that amount.\<close>

theorem sub_date_time_lost_borrow:
  assumes "stamp_ok (Stamp s m)" "stamp_ok (Stamp s' m')" "m < m'"
    and "t \<in> {DATE_LITERAL, TIMESTAMP_LITERAL, TIME_WITH_TIME_ZONE_LITERAL, TIMESTAMP_WITH_TIME_ZONE_LITERAL}"
    and "q = s - s' mod 86400" "q < 0" "civil_secs q"
  shows "ydboctoSubDateTimeC env (micro.encode (Stamp s m)) t (micro.encode (Stamp s' m')) TIME_LITERAL
      = Some (micro.encode (Stamp q (m' - m)))
    \<and> micro_time (Stamp q (m' - m)) = (micro_time (Stamp s m) - micro_time (Stamp (s' mod 86400) m')) + 2 * (m' - m)"
proof -
  have m: "micro_ok m" "micro_ok m'" "micro_ok (m' - m)" using assms(1-3) by (auto simp: stamp_ok_def micro_ok_def)
  have q: "secs_ok q" using assms(7) by (rule civil_secs_ok)
  have "ydboctoSubDateTimeC env (internal s m) t (internal s' m') TIME_LITERAL = Some (internal q (m' - m))"
    using sub_time_seconds [OF m(1,2) assms(4), of env s s', folded assms(5)] assms(3,6) q m(3)
      validate_result_internal [OF assms(7) m(3)]
    by (simp add: ADD_MICRO_SECONDS_internal)
  moreover have "micro.encode (Stamp s m) = internal s m" "micro.encode (Stamp s' m') = internal s' m'"
    "micro.encode (Stamp q (m' - m)) = internal q (m' - m)"
    using assms(1,2) q m(3) by (auto intro!: encode_internal simp: stamp_ok_def)
  ultimately show ?thesis
    using assms(5) by (simp add: micro_time_def)
qed

theorem sub_date_time_lost_borrow_witness:
  "ydboctoSubDateTimeC (fixed_zone 0 0) (micro.encode (Stamp (- 1) 0)) TIMESTAMP_LITERAL
      (micro.encode (Stamp (- 2209071539) 100000)) TIME_LITERAL
      = Some (micro.encode (Stamp (- 3662) (100000 - 0)))
    \<and> micro_time (Stamp (- 3662) (100000 - 0))
      = (micro_time (Stamp (- 1) 0) - micro_time (Stamp (- 2209071539 mod 86400) 100000)) + 2 * (100000 - 0)"
  by (rule sub_date_time_lost_borrow) code_simp+

end
