(* ===== verification/DateText.thy ===== *)
theory DateText
  imports DateOps CText
begin

text \<open>
  The conversions between text and the internal format in \<open>src/aux/ydboctodateoperations.c\<close>:
  \<open>convert_to_std_time_lit\<close>, \<open>ydboctoText2InternalFormatC\<close> (with \<open>ydboctoDateTimeStringCastC\<close>, which only
  calls it) and \<open>ydboctoDateTimeInternalFormat2TextC\<close>.

  \<open>None\<close> is a violated \<open>assert\<close>, a write outside one of the fixed buffers (\<open>micro\<close>, \<open>time_zone\<close>,
  \<open>ret_str\<close>, the result) or the use of a string that has lost its terminating NUL.
\<close>

section \<open>From text to the internal format\<close>

text \<open>
  The loop of \<open>convert_to_std_time_lit\<close>: whether this is the first character, \<open>is_sub_second\<close>,
  and \<open>sub_second_count\<close>.
\<close>

fun std_loop :: "bool \<Rightarrow> bool \<Rightarrow> nat \<Rightarrow> string \<Rightarrow> string" where
  "std_loop first is_sub_second sub_second_count [] = []"
| "std_loop first is_sub_second sub_second_count (c # s) =
     (if c = CHR ''T'' \<or> c = CHR ''t'' then
        (if first then std_loop False is_sub_second sub_second_count s
         else CHR '' '' # std_loop False is_sub_second sub_second_count s)
      else if c = CHR ''.'' then c # std_loop False True sub_second_count s
      else if is_sub_second then
        (if c = CHR ''+'' \<or> c = CHR ''-'' then c # std_loop False False sub_second_count s
         else if sub_second_count \<le> 6 then c # std_loop False True (Suc sub_second_count) s
         else std_loop False True sub_second_count s)
      else c # std_loop False is_sub_second sub_second_count s)"

definition convert_to_std_time_lit :: "string \<Rightarrow> string" where
  "convert_to_std_time_lit time_str = std_loop True False 1 time_str"

definition is_gmt_offset :: "char \<Rightarrow> bool" where
  "is_gmt_offset c \<longleftrightarrow> c = CHR ''+'' \<or> c = CHR ''-''"

text \<open>
  The microseconds are cut out of the string: the string without them, the array \<open>micro\<close> and
  whether a time zone was found after them.
\<close>

definition extract_micro :: "string \<Rightarrow> (string \<times> string \<times> bool) option" where
  "extract_micro time_str =
     (if CHR ''.'' \<notin> set time_str then Some (time_str, ''000000'', False)
      else
        (let before = takeWhile (\<lambda>c. c \<noteq> CHR ''.'') time_str;
             rest = tl (dropWhile (\<lambda>c. c \<noteq> CHR ''.'') time_str);
             digits = takeWhile (\<lambda>c. \<not> is_gmt_offset c) rest;
             time_zone = dropWhile (\<lambda>c. \<not> is_gmt_offset c) rest
         in if 6 < length digits then None
            else if 9 < length time_zone then None
            else Some (before @ time_zone, digits @ replicate (6 - length digits) CHR ''0'', time_zone \<noteq> [])))"

definition atoi :: "string \<Rightarrow> int" where
  "atoi s = fst (strtol s)"

text \<open>\<open>NINES_COMPLIMENT\<close> on the array.\<close>

definition nines_digits :: "string \<Rightarrow> string option" where
  "nines_digits micro =
     (if list_all is_number micro then Some (map (\<lambda>c. digit_char (9 - digit_val c)) micro) else None)"

definition result_text :: "int \<Rightarrow> string \<Rightarrow> string option" where
  "result_text op1_time micro =
     do {
       micro \<leftarrow> (if 0 > op1_time then nines_digits micro else Some micro);
       let s = (if op1_time \<noteq> 0 then show_int op1_time @ micro
                else if atoi micro \<noteq> 0 then show_int (atoi micro)
                else ''0'');
       if 18 < length s then None else Some s
     }"

definition ydboctoText2InternalFormatC :: "clock_env \<Rightarrow> string \<Rightarrow> string \<Rightarrow> string option" where
  "ydboctoText2InternalFormatC env op1 format =
     (let time_format = c_str format;
          time_str = c_str (convert_to_std_time_lit op1);
          include_time = (CHR ''S'' \<in> set time_format);
          include_time_zone = (include_time \<and> CHR ''z'' \<in> set time_format)
      in if \<not> include_time \<and> (CHR ''H'' \<in> set time_format \<or> CHR ''M'' \<in> set time_format
            \<or> CHR ''z'' \<in> set time_format) then None
         else do {
           (time_str, micro, time_zone_set) \<leftarrow>
             (if include_time then extract_micro time_str else Some (time_str, ''000000'', False));
           let (end_ptr, tm1) = strptime time_str time_format tm_zero;
           let (format_match, time_zone_set, timezone_seconds) =
             (case end_ptr of
                None \<Rightarrow> (False, time_zone_set, 0)
              | Some r \<Rightarrow>
                  (if r = [] then (True, time_zone_set \<or> include_time_zone, 0)
                   else if include_time_zone \<and> peek r = CHR '':'' then
                     (True, True, if 0 > tm_gmtoff tm1 then - atoi (tl r) else atoi (tl r))
                   else (False, time_zone_set, 0)));
           let tm_sec_modified = (time_zone_set \<and> format_match);
           if time_zone_set \<and> \<not> format_match \<and> include_time_zone then None
           else do {
             let tm1 = (if tm_sec_modified then add_seconds (- (tm_gmtoff tm1 + timezone_seconds)) tm1 else tm1);
             let tm1 =
               (if include_time_zone \<and> \<not> tm_sec_modified then
                  (if tm_mday tm1 = 0 then add_seconds (- tm_gmtoff (localtime env (now env))) tm1
                   else (let tm1 = mktime_tm env (tm1\<lparr>tm_isdst := - 1\<rparr>)
                         in add_seconds (- tm_gmtoff tm1) tm1))
                else tm1);
             result_text (utc_mktime tm1) micro
           }
         })"

definition ydboctoDateTimeStringCastC :: "clock_env \<Rightarrow> string \<Rightarrow> string \<Rightarrow> string option" where
  "ydboctoDateTimeStringCastC env value value_format = ydboctoText2InternalFormatC env value value_format"

section \<open>From the internal format to text\<close>

text \<open>The fraction of a second, without its trailing zeros; none when there are no microseconds.\<close>

definition trim_zeros :: "string \<Rightarrow> string" where
  "trim_zeros s = rev (dropWhile (\<lambda>c. c = CHR ''0'') (rev s))"

definition fraction :: "int \<Rightarrow> string" where
  "fraction micro = (if micro = 0 then [] else trim_zeros (CHR ''.'' # show_padded 6 micro))"

text \<open>
  The offset of the zone as \<open>+hh\<close>, \<open>+hh:mm\<close> or \<open>+hh:mm:ss\<close>, from the five characters that \<open>%z\<close>
  printed and the seconds of \<open>tm_gmtoff\<close>.
\<close>

definition zone_suffix :: "string \<Rightarrow> int \<Rightarrow> string" where
  "zone_suffix time_zone gmtoff =
     (let s = \<bar>(gmtoff smod 3600) smod 60\<bar>;
          hhmm = drop 3 time_zone;
          ss = [digit_char (nat (s div 10)), digit_char (nat (s mod 10))]
      in take 3 time_zone
         @ (if hhmm = ''00'' \<and> ss = ''00'' then []
            else '':'' @ hhmm @ (if ss \<noteq> ''00'' then '':'' @ ss else [])))"

definition output_tm :: "clock_env \<Rightarrow> SqlValueType \<Rightarrow> int \<Rightarrow> tm" where
  "output_tm env type v =
     (if type = DATE_LITERAL \<or> type = TIMESTAMP_LITERAL \<or> type = TIME_LITERAL then gmtime v
      else if type = TIME_WITH_TIME_ZONE_LITERAL then
        (let tm2 = localtime env (now env)
         in mktime_tm env ((localtime env v)\<lparr>tm_mday := tm_mday tm2, tm_mon := tm_mon tm2, tm_year := tm_year tm2\<rparr>))
      else localtime env v)"

definition fits_40 :: "string \<Rightarrow> string option" where
  "fits_40 s = (if length s < 40 then Some s else None)"

text \<open>
  The text and the fraction before it is trimmed have to fit in the 40 bytes, as has the result.
\<close>

definition add_fraction :: "string \<Rightarrow> int \<Rightarrow> string option" where
  "add_fraction s micro =
     (if micro \<noteq> 0 \<and> 40 \<le> length s + 7 then None else Some (s @ fraction micro))"

definition ydboctoDateTimeInternalFormat2TextC ::
  "clock_env \<Rightarrow> int \<Rightarrow> SqlValueType \<Rightarrow> string \<Rightarrow> string option" where
  "ydboctoDateTimeInternalFormat2TextC env value type text_format_specifier =
     do {
       (v, micro) \<leftarrow> REMOVE_MICRO_SECONDS value;
       let format = c_str text_format_specifier;
       let tm1 = output_tm env type v;
       let ret_str = strftime 40 format tm1;
       let time_zone_shown = ((type = TIME_WITH_TIME_ZONE_LITERAL \<or> type = TIMESTAMP_WITH_TIME_ZONE_LITERAL)
                              \<and> CHR ''z'' \<in> set format);
       if type = DATE_LITERAL then Some ret_str
       else if \<not> time_zone_shown then add_fraction ret_str micro
       else if length ret_str < 5 then None
       else do {
         s \<leftarrow> add_fraction (take (length ret_str - 5) ret_str) micro;
         fits_40 (s @ zone_suffix (drop (length ret_str - 5) ret_str) (tm_gmtoff tm1))
       }
     }"

section \<open>Cutting out the microseconds\<close>

definition plain_date_text :: "string \<Rightarrow> bool" where
  "plain_date_text s \<longleftrightarrow> list_all (\<lambda>c. c \<noteq> CHR ''T'' \<and> c \<noteq> CHR ''t'' \<and> c \<noteq> CHR ''.'' \<and> c \<noteq> NUL) s"

lemma plain_date_text_append [simp]: "plain_date_text (s @ r) \<longleftrightarrow> plain_date_text s \<and> plain_date_text r"
  by (simp add: plain_date_text_def)

lemma plain_digits: "list_all is_number s \<Longrightarrow> plain_date_text s"
  by (auto simp: plain_date_text_def list_all_iff)

lemma std_loop_plain:
  "plain_date_text s \<Longrightarrow> std_loop f False n (s @ r) = s @ std_loop (f \<and> s = []) False n r"
  by (induction s arbitrary: f) (auto simp: plain_date_text_def)

lemma std_loop_digits:
  "list_all is_number s \<Longrightarrow> length s + n \<le> 7 \<Longrightarrow> std_loop False True n s = s"
  by (induction s arbitrary: n) auto

lemma convert_plain:
  assumes "plain_date_text s" "s \<noteq> []"
  shows "convert_to_std_time_lit s = s"
    "list_all is_number ds \<Longrightarrow> length ds \<le> 6 \<Longrightarrow> convert_to_std_time_lit (s @ CHR ''.'' # ds) = s @ CHR ''.'' # ds"
  using assms std_loop_plain [of s True 1 "[]"] std_loop_digits [of ds 1]
  by (simp_all add: convert_to_std_time_lit_def std_loop_plain)

lemma extract_micro_plain:
  assumes "plain_date_text s"
  shows "extract_micro s = Some (s, ''000000'', False)"
    "list_all is_number ds \<Longrightarrow> length ds \<le> 6
      \<Longrightarrow> extract_micro (s @ CHR ''.'' # ds) = Some (s, ds @ replicate (6 - length ds) CHR ''0'', False)"
proof -
  have dot: "CHR ''.'' \<notin> set s" using assms by (auto simp: plain_date_text_def list_all_iff)
  then show "extract_micro s = Some (s, ''000000'', False)" by (simp add: extract_micro_def)
  assume ds: "list_all is_number ds" "length ds \<le> 6"
  then have "\<forall>c \<in> set ds. \<not> is_gmt_offset c" by (auto simp: list_all_iff is_gmt_offset_def)
  then have tz: "takeWhile (\<lambda>c. \<not> is_gmt_offset c) ds = ds" "dropWhile (\<lambda>c. \<not> is_gmt_offset c) ds = []"
    by simp_all
  have "takeWhile (\<lambda>c. c \<noteq> CHR ''.'') (s @ CHR ''.'' # ds) = s"
    "dropWhile (\<lambda>c. c \<noteq> CHR ''.'') (s @ CHR ''.'' # ds) = CHR ''.'' # ds"
    using dot by (induction s) auto
  then show "extract_micro (s @ CHR ''.'' # ds) = Some (s, ds @ replicate (6 - length ds) CHR ''0'', False)"
    using ds by (simp add: extract_micro_def Let_def tz)
qed

lemma trim_zeros_split:
  "s = trim_zeros s @ replicate (length s - length (trim_zeros s)) CHR ''0''"
proof -
  have "rev s = takeWhile (\<lambda>c. c = CHR ''0'') (rev s) @ dropWhile (\<lambda>c. c = CHR ''0'') (rev s)" by simp
  moreover have "takeWhile (\<lambda>c. c = CHR ''0'') r = replicate (length (takeWhile (\<lambda>c. c = CHR ''0'') r)) CHR ''0''" for r
    by (induction r) auto
  ultimately have "rev s = replicate (length s - length (trim_zeros s)) CHR ''0'' @ dropWhile (\<lambda>c. c = CHR ''0'') (rev s)"
    by (metis (no_types, lifting) add_diff_cancel_right' length_append length_rev trim_zeros_def)
  then show ?thesis
    by (metis (no_types, lifting) rev_append rev_replicate rev_rev_ident trim_zeros_def)
qed

lemma trim_zeros_Cons: "c \<noteq> CHR ''0'' \<Longrightarrow> trim_zeros (c # s) = c # trim_zeros s"
  by (simp add: trim_zeros_def dropWhile_append)

lemma length_trim_zeros: "length (trim_zeros s) \<le> length s"
  by (simp add: trim_zeros_def) (metis length_dropWhile_le length_rev)

lemma trim_zeros_digits: "list_all is_number s \<Longrightarrow> list_all is_number (trim_zeros s)"
  by (auto simp: trim_zeros_def list_all_iff dest: set_dropWhileD)

lemma micro_digits:
  assumes "micro_ok m"
  shows "length (show_padded 6 m) = 6" "list_all is_number (show_padded 6 m)"
    "nat_of_digits (show_padded 6 m) = nat m"
proof -
  have m: "0 \<le> m" "m < 1000000" using assms by (auto simp: micro_ok_def)
  then have "length (show_nat (nat m)) \<le> 6"
    using length_show_nat_less [of "nat m" 5] by simp
  then show "length (show_padded 6 m) = 6" using m by (intro length_show_padded) auto
  show "list_all is_number (show_padded 6 m)" "nat_of_digits (show_padded 6 m) = nat m"
    using m by (simp_all add: show_padded_digits nat_of_digits_show_padded)
qed

text \<open>The fraction that is printed is read back as the six digits of the microseconds.\<close>

lemma fraction_round_trip:
  assumes "micro_ok m" "plain_date_text s" "s \<noteq> []"
  shows "convert_to_std_time_lit (s @ fraction m) = s @ fraction m"
    "extract_micro (s @ fraction m) = Some (s, show_padded 6 m, False)"
proof -
  let ?t = "trim_zeros (show_padded 6 m)"
  have t: "list_all is_number ?t" "length ?t \<le> 6" "?t @ replicate (6 - length ?t) CHR ''0'' = show_padded 6 m"
    using trim_zeros_split [of "show_padded 6 m"] length_trim_zeros [of "show_padded 6 m"]
    by (simp_all add: trim_zeros_digits micro_digits [OF assms(1)])
  have f: "fraction m = (if m = 0 then [] else CHR ''.'' # ?t)"
    by (simp add: fraction_def trim_zeros_Cons)
  have "show_padded 6 0 = ''000000''" by code_simp
  then show "convert_to_std_time_lit (s @ fraction m) = s @ fraction m"
    "extract_micro (s @ fraction m) = Some (s, show_padded 6 m, False)"
    using convert_plain [OF assms(2,3)] extract_micro_plain [OF assms(2)] t by (simp_all add: f)
qed

section \<open>Reading the printed date and time\<close>

definition date_time_format :: string where
  "date_time_format = ''%Y-%m-%d %H:%M:%S''"

text \<open>What \<open>strftime\<close> prints with that format.\<close>

definition date_time_text :: "tm \<Rightarrow> string" where
  "date_time_text t = show_int (tm_year t + 1900) @ ''-'' @ show_padded 2 (tm_mon t + 1) @ ''-'' @ show_padded 2 (tm_mday t)
     @ '' '' @ show_padded 2 (tm_hour t) @ '':'' @ show_padded 2 (tm_min t) @ '':'' @ show_padded 2 (tm_sec t)"

definition same_civil :: "tm \<Rightarrow> tm \<Rightarrow> bool" where
  "same_civil a b \<longleftrightarrow> tm_year a = tm_year b \<and> tm_mon a = tm_mon b \<and> tm_mday a = tm_mday b
     \<and> tm_hour a = tm_hour b \<and> tm_min a = tm_min b \<and> tm_sec a = tm_sec b"

lemma timegm_same_civil: "same_civil a b \<Longrightarrow> timegm a = timegm b"
  by (simp add: same_civil_def timegm_def)

definition civil_ok :: "tm \<Rightarrow> bool" where
  "civil_ok t \<longleftrightarrow> 0 \<le> tm_year t + 1900 \<and> tm_year t + 1900 \<le> 9999 \<and> 0 \<le> tm_mon t \<and> tm_mon t \<le> 11
     \<and> 1 \<le> tm_mday t \<and> tm_mday t \<le> 31 \<and> 0 \<le> tm_hour t \<and> tm_hour t \<le> 23
     \<and> 0 \<le> tm_min t \<and> tm_min t \<le> 59 \<and> 0 \<le> tm_sec t \<and> tm_sec t \<le> 59"

lemma strftime_date_time: "strftime_text date_time_format t = date_time_text t"
  by (simp add: date_time_format_def date_time_text_def strftime_conv_def)

lemma date_time_text_length: "civil_ok t \<Longrightarrow> length (date_time_text t) \<le> 19"
proof -
  assume "civil_ok t"
  moreover have "length (show_padded 2 i) = 2" if "0 \<le> i" "i \<le> 99" for i
    using that by (intro length_show_padded) (auto intro!: length_show_nat_2)
  moreover have "length (show_int i) \<le> 4" if "0 \<le> i" "i \<le> 9999" for i
    using that length_show_nat_4 [of "nat i"] by (simp add: show_int_def)
  ultimately show ?thesis by (simp add: civil_ok_def date_time_text_def)
qed

lemma date_time_text_plain: "civil_ok t \<Longrightarrow> plain_date_text (date_time_text t) \<and> date_time_text t \<noteq> []"
proof -
  assume "civil_ok t"
  moreover have "plain_date_text (show_int i)" "plain_date_text (show_padded 2 i)" if "0 \<le> i" for i
    using that by (auto intro!: plain_digits show_padded_digits simp: show_int_def)
  moreover have "plain_date_text ''-''" "plain_date_text '' ''" "plain_date_text '':''"
    by (simp_all add: plain_date_text_def NUL_def)
  ultimately show ?thesis by (simp only: civil_ok_def date_time_text_def plain_date_text_append) simp
qed

lemma show_padded_2_head: "0 \<le> i \<Longrightarrow> i \<le> 99 \<Longrightarrow> dropWhile is_space (show_padded 2 i @ r) = show_padded 2 i @ r"
proof -
  assume i: "0 \<le> i" "i \<le> 99"
  then have "length (show_padded 2 i) = 2"
    by (intro length_show_padded) (auto intro!: length_show_nat_2)
  with show_padded_digits [OF i(1), of 2] show ?thesis by (cases "show_padded 2 i") auto
qed

text \<open>Reading the printed text gives the printed fields, whatever follows it.\<close>

lemma strptime_date_time:
  assumes "civil_ok t"
  shows "\<exists>u. (\<forall>r fs. strptime_loop (date_time_text t @ r) (date_time_format @ fs) tm_zero False = strptime_loop r fs u True)
    \<and> same_civil u t \<and> tm_gmtoff u = 0"
proof (intro exI conjI allI)
  let ?u = "tm_zero\<lparr>tm_year := tm_year t, tm_mon := tm_mon t, tm_mday := tm_mday t, tm_hour := tm_hour t,
    tm_min := tm_min t, tm_sec := tm_sec t\<rparr>"
  show "same_civil ?u t" "tm_gmtoff ?u = 0" by (simp_all add: same_civil_def tm_zero_def)
  fix r fs
  have y: "get_number 0 9999 4 (show_int (tm_year t + 1900) @ CHR ''-'' # r) = Some (tm_year t + 1900, CHR ''-'' # r)" for r
    using assms length_show_nat_4 [of "nat (tm_year t + 1900)"] by (intro get_number_show_int) (auto simp: civil_ok_def)
  have m: "get_number 1 12 2 (show_padded 2 (tm_mon t + 1) @ r) = Some (tm_mon t + 1, r)" for r
    using assms by (intro get_number_show_padded) (auto simp: civil_ok_def)
  have d: "get_number 1 31 2 (show_padded 2 (tm_mday t) @ r) = Some (tm_mday t, r)" for r
    using assms by (intro get_number_show_padded) (auto simp: civil_ok_def)
  have h: "get_number 0 23 2 (show_padded 2 (tm_hour t) @ r) = Some (tm_hour t, r)" for r
    using assms by (intro get_number_show_padded) (auto simp: civil_ok_def)
  have i: "get_number 0 59 2 (show_padded 2 (tm_min t) @ r) = Some (tm_min t, r)" for r
    using assms by (intro get_number_show_padded) (auto simp: civil_ok_def)
  have s: "get_number 0 61 2 (show_padded 2 (tm_sec t) @ r) = Some (tm_sec t, r)" for r
    using assms by (intro get_number_show_padded) (auto simp: civil_ok_def)
  have sp: "is_space CHR '' ''" "\<not> is_space CHR ''%''" "\<not> is_space CHR ''-''" "\<not> is_space CHR '':''"
    by (simp_all add: is_space_def)
  have hd: "dropWhile is_space (show_padded 2 (tm_hour t) @ r) = show_padded 2 (tm_hour t) @ r" for r
    using assms by (intro show_padded_2_head) (auto simp: civil_ok_def)
  show "strptime_loop (date_time_text t @ r) (date_time_format @ fs) tm_zero False = strptime_loop r fs ?u True"
    by (simp add: date_time_text_def date_time_format_def sp strptime_conv_def y m d h i s hd)
qed

lemma set_week_same_civil: "same_civil (set_week_and_year_day u) u \<and> tm_gmtoff (set_week_and_year_day u) = tm_gmtoff u"
  by (simp add: same_civil_def set_week_and_year_day_def Let_def)

section \<open>The printed result\<close>

lemma nines_digits_correct:
  assumes "list_all is_number ds"
  shows "\<exists>es. nines_digits ds = Some es \<and> list_all is_number es \<and> length es = length ds
    \<and> nat_of_digits es + nat_of_digits ds = 10 ^ length ds - 1"
  using assms
proof (induction ds rule: rev_induct)
  case (snoc c ds)
  then obtain es where es: "nines_digits ds = Some es" "list_all is_number es" "length es = length ds"
    "nat_of_digits es + nat_of_digits ds = 10 ^ length ds - 1" by auto
  have c: "is_number c" "digit_val c < 10" using snoc.prems by (auto intro: digit_val_bound)
  then have d: "is_number (digit_char (9 - digit_val c))" "digit_val (digit_char (9 - digit_val c)) = 9 - digit_val c"
    by simp_all
  have "nines_digits (ds @ [c]) = Some (es @ [digit_char (9 - digit_val c)])"
    using es(1) c(1) by (auto simp: nines_digits_def split: if_splits)
  moreover have "10 * a + (9 - k) + (10 * b + k) = 10 * n - 1" if "a + b = n - 1" "1 \<le> n" "k < 10" for a b k n :: nat
    using that by simp
  from this [OF es(4) _ c(2)]
  have "10 * nat_of_digits es + (9 - digit_val c) + (10 * nat_of_digits ds + digit_val c) = 10 ^ length (ds @ [c]) - 1"
    by simp
  ultimately show ?case using es d by (intro exI [of _ "es @ [digit_char (9 - digit_val c)]"]) simp
qed (simp add: nines_digits_def)

lemma nines_show_padded:
  assumes "micro_ok m"
  shows "nines_digits (show_padded 6 m) = Some (show_padded 6 (999999 - m))"
proof -
  have m': "micro_ok (999999 - m)" using assms by (simp add: micro_ok_def)
  obtain es where "nines_digits (show_padded 6 m) = Some es" "list_all is_number es" "length es = 6"
    "nat_of_digits es + nat m = 999999"
    using nines_digits_correct [OF micro_digits(2) [OF assms]] by (auto simp: micro_digits [OF assms])
  moreover from this assms have "es = show_padded 6 (999999 - m)"
    by (intro digits_unique) (auto simp: micro_digits [OF m'] micro_ok_def nat_diff_distrib)
  ultimately show ?thesis by simp
qed

lemma result_text_internal:
  assumes "micro_ok m" "- 99999999999 \<le> s" "s \<le> 999999999999"
  shows "result_text s (show_padded 6 m) = Some (show_int (internal s m))"
proof -
  have join: "show_nat (nat k) @ show_padded 6 n = show_nat (nat (k * 1000000 + n))" if "1 \<le> k" "micro_ok n" for k n
  proof -
    have "nat (k * 1000000 + n) = nat k * 10 ^ 6 + nat n" using that by (simp add: micro_ok_def nat_add_distrib nat_mult_distrib)
    with that show ?thesis
      using show_nat_append [OF _ micro_digits(2) [OF that(2)], of "nat k"] by (simp add: micro_digits [OF that(2)])
  qed
  consider "s < 0" | "s = 0" | "1 \<le> s" by linarith
  then show ?thesis
  proof cases
    case 1
    have n: "micro_ok (999999 - m)" using assms(1) by (simp add: micro_ok_def)
    have "internal s m = - ((- s) * 1000000 + (999999 - m))" using 1 by (simp add: internal_def)
    moreover have "0 < (- s) * 1000000 + (999999 - m)" using 1 n by (simp add: micro_ok_def)
    ultimately have e: "show_int (internal s m) = CHR ''-'' # show_nat (nat (- s)) @ show_padded 6 (999999 - m)"
      using join [of "- s" "999999 - m"] n 1 by (simp add: show_int_def)
    have "length (show_nat (nat (- s))) \<le> 11"
      using assms(2) length_show_nat_less [of "nat (- s)" 10] by simp
    with 1 e show ?thesis
      by (simp add: result_text_def nines_show_padded [OF assms(1)] micro_digits [OF n] show_int_def)
  next
    case 2
    have "show_padded 6 m \<noteq> []" using micro_digits(1) [OF assms(1)] by auto
    then have "strtol (show_padded 6 m) = (m, False)"
      using strtol_digits [OF micro_digits(2) [OF assms(1)]] micro_digits [OF assms(1)] assms(1)
      by (auto simp: micro_ok_def LONG_MAX_def)
    moreover have "length (show_int m) \<le> 6"
      using assms(1) length_show_nat_less [of "nat m" 5] by (auto simp: micro_ok_def show_int_def)
    moreover have "show_int 0 = ''0''" by code_simp
    ultimately show ?thesis using 2 by (simp add: result_text_def atoi_def internal_def)
  next
    case 3
    have "length (show_nat (nat s)) \<le> 12"
      using assms(3) length_show_nat_less [of "nat s" 11] by simp
    with 3 join [of s m] assms(1) show ?thesis
      by (simp add: result_text_def internal_def show_int_def micro_digits [OF assms(1)] micro_ok_def)
  qed
qed


lemma gmtime_civil:
  assumes "- 62135596800 \<le> s" "s \<le> 253402300799"
  shows "civil_ok (gmtime s)" "1 \<le> tm_year (gmtime s) + 1900"
proof -
  let ?n = "s div 86400 + epoch_day" and ?y = "tm_year (gmtime s) + 1900"
  have n: "0 \<le> ?n" "?n < 3652059" using assms unfolding epoch_day_def by linarith+
  have y: "?y = year_of ?n" by (simp add: gmtime_def Let_def)
  note c = year_of_correct [of ?n, folded y]
  have e: "year_start 1 = 0" "year_start 10000 = 3652059" by (simp_all add: year_start_def)
  have "\<not> ?y < 1" using year_start_mono [of "?y + 1" 1] c n e by auto
  moreover have "\<not> 10000 \<le> ?y" using year_start_mono [of 10000 ?y] c n e by auto
  ultimately show "1 \<le> ?y" by simp
  then show "civil_ok (gmtime s)"
    using \<open>\<not> 10000 \<le> ?y\<close> gmtime_date(1) [of s] utc.gm_hour [of s] utc.gm_min [of s] utc.gm_sec [of s] utc.gm_mday [of s]
    by (auto simp: civil_ok_def valid_date_def)
qed

lemma fraction_no_nul: "micro_ok m \<Longrightarrow> NUL \<notin> set (fraction m)"
proof -
  assume "micro_ok m"
  then have "list_all is_number (trim_zeros (show_padded 6 m))"
    by (intro trim_zeros_digits micro_digits)
  then have "NUL \<notin> set (trim_zeros (show_padded 6 m))" by (auto simp: list_all_iff)
  then show ?thesis by (simp add: fraction_def trim_zeros_Cons NUL_def)
qed

section \<open>Properties\<close>

text \<open>C8: A timestamp of the years 1 to 9999 is printed with its date, its time and its fraction, and reading
  the printed text gives back the same internal value, with every digit of the microseconds, before
  1970 as after it. The conversion of timestamps does not depend on the time zone of the process.\<close>

theorem timestamp_text_round_trip:
  assumes "- 62135596800 \<le> s" "s \<le> 253402300799" "micro_ok m"
  shows "ydboctoDateTimeInternalFormat2TextC env (internal s m) TIMESTAMP_LITERAL date_time_format
      = Some (date_time_text (gmtime s) @ fraction m)
    \<and> ydboctoText2InternalFormatC env (date_time_text (gmtime s) @ fraction m) date_time_format
      = Some (show_int (internal s m))"
proof
  let ?t = "date_time_text (gmtime s)"
  note c = gmtime_civil [OF assms(1,2)]
  note p = date_time_text_plain [OF c(1)]
  have fmt: "c_str date_time_format = date_time_format" "CHR ''S'' \<in> set date_time_format"
    "CHR ''z'' \<notin> set date_time_format" "expand_T date_time_format = date_time_format"
    by code_simp+
  have len: "length ?t \<le> 19" using date_time_text_length [OF c(1)] .
  then show "ydboctoDateTimeInternalFormat2TextC env (internal s m) TIMESTAMP_LITERAL date_time_format = Some (?t @ fraction m)"
    using assms(3) by (simp add: ydboctoDateTimeInternalFormat2TextC_def REMOVE_MICRO_SECONDS_internal fmt output_tm_def
        strftime_def strftime_date_time add_fraction_def)
  obtain u where u: "\<And>r fs. strptime_loop (?t @ r) (date_time_format @ fs) tm_zero False = strptime_loop r fs u True"
    "same_civil u (gmtime s)" "tm_gmtoff u = 0"
    using strptime_date_time [OF c(1)] by blast
  have "strptime ?t date_time_format tm_zero = (Some [], set_week_and_year_day u)"
    using u(1) [of "[]" "[]"] u(2) c(1) by (simp add: strptime_def fmt same_civil_def civil_ok_def)
  moreover have "timegm (set_week_and_year_day u) = s"
    using timegm_same_civil [of "set_week_and_year_day u" u] timegm_same_civil [OF u(2)] set_week_same_civil [of u]
    by (simp add: timegm_gmtime)
  moreover have "NUL \<notin> set (?t @ fraction m)"
    using p fraction_no_nul [OF assms(3)] by (auto simp: plain_date_text_def list_all_iff)
  then have "c_str (convert_to_std_time_lit (?t @ fraction m)) = ?t @ fraction m"
    using fraction_round_trip(1) [OF assms(3)] p by (simp add: c_str_no_nul)
  ultimately show "ydboctoText2InternalFormatC env (?t @ fraction m) date_time_format = Some (show_int (internal s m))"
    using fraction_round_trip(2) [OF assms(3)] p set_week_same_civil [of u] u(3) assms
    by (simp add: ydboctoText2InternalFormatC_def fmt result_text_internal timegm_add_seconds)
qed

theorem timestamp_text_round_trip_witness:
  "ydboctoDateTimeInternalFormat2TextC (fixed_zone (- 18000) 0) (internal (- 1) 500000) TIMESTAMP_LITERAL date_time_format
      = Some (date_time_text (gmtime (- 1)) @ fraction 500000)
    \<and> ydboctoText2InternalFormatC (fixed_zone (- 18000) 0) (date_time_text (gmtime (- 1)) @ fraction 500000) date_time_format
      = Some (show_int (internal (- 1) 500000))"
  by (rule timestamp_text_round_trip) code_simp+

end
