(* ===== verification/DateValidate.thy ===== *)
theory DateValidate
  imports DateText "HOL-Library.Monad_Syntax"
begin

text \<open>
  The validation of date and time literals in \<open>src/aux/ydboctodateoperations.c\<close>: the scanners
  that its macros \<open>IS_MONTH_VALID\<close>, ..., \<open>IS_TIME_ZONE\<close> expand to, the range checks of the five formats
  of a literal, and \<open>validate_date_time_value\<close>, the body of \<open>ydboctoValidateDateTimeValueC\<close>.

  A scanner takes the string at \<open>lit_c\<close> and returns the string at \<open>lit_c\<close> after it, or \<open>None\<close>
  where the macro returns 1. The range checks return 0 or 1 as the functions do. \<open>ATOI\<close> looks at
  \<open>errno\<close>, which nothing here resets, so the checks also pass on whether \<open>errno\<close> is \<open>ERANGE\<close>;
  their result is \<open>None\<close> where an \<open>assert\<close> fails or a null pointer is used.
  The locale \<open>field_scanner\<close> states what the scanners of the fields promise: they accept exactly
  the decimal numbers of a range and a width.
\<close>

section \<open>The scanners\<close>

definition is_end :: "string \<Rightarrow> bool" where
  "is_end s \<longleftrightarrow> peek s = NUL"

definition is_sec_end :: "string \<Rightarrow> bool" where
  "is_sec_end s \<longleftrightarrow> peek s = CHR ''.'' \<or> is_end s \<or> is_gmt_offset (peek s)"

text \<open>The checks of the character at index \<open>i\<close> after the sign, and the loop over the indices.\<close>

definition time_zone_char_ok :: "nat \<Rightarrow> string \<Rightarrow> bool" where
  "time_zone_char_ok i s \<longleftrightarrow>
     (if i = 2 \<or> i = 5 then peek_at i s = CHR '':'' else is_number (peek_at i s))
     \<and> (i = 1 \<longrightarrow> \<not> code (peek_at 0 s) > 49 \<and> \<not> (peek_at 0 s = CHR ''1'' \<and> code (peek_at 1 s) > 53))
     \<and> (i = 4 \<longrightarrow> \<not> code (peek_at 3 s) > 53
         \<and> \<not> (peek_at 0 s = CHR ''1'' \<and> peek_at 1 s = CHR ''5'' \<and> code (peek_at 3 s) > 53))
     \<and> (i = 7 \<longrightarrow> \<not> code (peek_at 6 s) > 53)"

fun time_zone_loop :: "nat \<Rightarrow> string \<Rightarrow> string option" where
  "time_zone_loop 0 s = Some (drop 8 s)"
| "time_zone_loop (Suc n) s =
     (let i = 8 - Suc n
      in if (i = 2 \<or> i = 5) \<and> (peek_at i s = NUL \<or> peek_at i s = CHR '' '') then Some (drop i s)
         else if time_zone_char_ok i s then time_zone_loop n s
         else None)"

definition is_time_zone :: "string \<Rightarrow> string option" where
  "is_time_zone s =
     (if is_end s then Some s
      else if is_gmt_offset (peek s) then time_zone_loop 8 (tl s)
      else None)"

definition is_month_valid :: "string \<Rightarrow> string option" where
  "is_month_valid s =
     (if is_number (peek s) then
        (if is_number (peek_at 1 s) then
           (if peek s = CHR ''0'' then (if peek_at 1 s = CHR ''0'' then None else Some (drop 2 s))
            else if peek s = CHR ''1'' then
              (if peek_at 1 s = CHR ''0'' \<or> peek_at 1 s = CHR ''1'' \<or> peek_at 1 s = CHR ''2'' then Some (drop 2 s) else None)
            else None)
         else if peek s = CHR ''0'' then None else Some (drop 1 s))
      else None)"

definition is_date_valid :: "string \<Rightarrow> string option" where
  "is_date_valid s =
     (if is_number (peek s) then
        (if is_number (peek_at 1 s) then
           (if code (peek s) > 51 then None
            else if peek s = CHR ''0'' then (if peek_at 1 s = CHR ''0'' then None else Some (drop 2 s))
            else if peek s = CHR ''1'' \<or> peek s = CHR ''2'' then Some (drop 2 s)
            else if peek_at 1 s = CHR ''0'' \<or> peek_at 1 s = CHR ''1'' then Some (drop 2 s)
            else None)
         else if peek s = CHR ''0'' then None else Some (drop 1 s))
      else None)"

definition is_year_valid :: "string \<Rightarrow> string option" where
  "is_year_valid s =
     (if \<not> (is_number (peek s) \<and> is_number (peek_at 1 s) \<and> is_number (peek_at 2 s) \<and> is_number (peek_at 3 s)) then None
      else if peek s = CHR ''0'' \<and> peek_at 1 s = CHR ''0'' \<and> peek_at 2 s = CHR ''0'' \<and> peek_at 3 s = CHR ''0'' then None
      else Some (drop 4 s))"

definition hour_digits :: "string \<Rightarrow> string option" where
  "hour_digits s =
     (if is_number (peek s) then
        (if is_number (peek_at 1 s) then
           (if peek s = CHR ''0'' \<or> peek s = CHR ''1'' then Some (drop 2 s)
            else if peek s = CHR ''2'' then (if code (peek_at 1 s) \<le> 51 then Some (drop 2 s) else None)
            else None)
         else Some (drop 1 s))
      else None)"

definition is_hour_valid :: "string \<Rightarrow> string option" where
  "is_hour_valid s = hour_digits (if peek s = CHR ''t'' \<or> peek s = CHR ''T'' then tl s else s)"

definition is_min_valid :: "string \<Rightarrow> string option" where
  "is_min_valid s =
     (if is_number (peek s) then
        (if is_number (peek_at 1 s) then (if code (peek s) > 53 then None else Some (drop 2 s))
         else Some (drop 1 s))
      else None)"

text \<open>The first six digits of the fraction, then the rest of them.\<close>

fun micro_loop :: "nat \<Rightarrow> string \<Rightarrow> string option" where
  "micro_loop 0 s = Some (dropWhile is_number s)"
| "micro_loop (Suc n) s =
     (if is_end s \<or> is_gmt_offset (peek s) then Some (dropWhile is_number s)
      else if is_number (peek s) then micro_loop n (tl s)
      else None)"

definition is_microsecond_valid :: "string \<Rightarrow> string option" where
  "is_microsecond_valid s =
     (if peek s = CHR ''.'' then (if is_end (tl s) then None else micro_loop 6 (tl s)) else Some s)"

definition second_digits :: "string \<Rightarrow> string option" where
  "second_digits s =
     (if is_number (peek s) then
        (if is_number (peek_at 1 s) then
           (if code (peek s) > 54 \<or> peek s = CHR ''6'' \<and> peek_at 1 s \<noteq> CHR ''0'' then None else Some (drop 2 s))
         else Some (drop 1 s))
      else None)"

definition is_sec_valid :: "string \<Rightarrow> string option" where
  "is_sec_valid s =
     do {
       (if is_sec_end s then (if is_end s then None else is_microsecond_valid s) else Some s);
       r \<leftarrow> second_digits s;
       is_microsecond_valid r
     }"

section \<open>The range checks\<close>

type_synonym outcome = "int option \<times> bool"

text \<open>The conversion of a \<open>long\<close> to \<open>int\<close> keeps the low 32 bits.\<close>

definition int_of_long :: "int \<Rightarrow> int" where
  "int_of_long v = sint (word_of_int v :: u32)"

definition ATOI :: "string \<Rightarrow> bool \<Rightarrow> int option \<times> bool" where
  "ATOI s errno =
     (let (val, range) = strtol s
      in if range \<or> errno then (None, True) else (Some (int_of_long val), False))"

text \<open>The rest of a function after \<open>ATOI\<close>, which is skipped when the macro returns 1.\<close>

definition with_atoi :: "string \<Rightarrow> (int \<Rightarrow> bool \<Rightarrow> outcome) \<Rightarrow> bool \<Rightarrow> outcome" where
  "with_atoi s k errno =
     (case ATOI s errno of (None, errno) \<Rightarrow> (Some 1, errno) | (Some v, errno) \<Rightarrow> k v errno)"

definition until :: "char \<Rightarrow> string \<Rightarrow> string" where
  "until d s = takeWhile (\<lambda>c. c \<noteq> d) s"

definition from_delim :: "char \<Rightarrow> string \<Rightarrow> string" where
  "from_delim d s = dropWhile (\<lambda>c. c \<noteq> d) s"

definition is_date_in_horolog_range :: "string \<Rightarrow> bool \<Rightarrow> outcome" where
  "is_date_in_horolog_range literal errno =
     (if until CHR '','' literal = [] then (Some 1, errno)
      else (let (dateh, range) = strtol (until CHR '','' literal)
            in (Some (if - 365 > dateh \<or> 2980013 < dateh then 1 else 0), errno \<or> range)))"

definition is_time_in_horolog_range :: "string \<Rightarrow> bool \<Rightarrow> outcome" where
  "is_time_in_horolog_range literal errno =
     (let time_range = (\<lambda>timeh micro errno.
            (Some (if 0 > timeh \<or> 86399 < timeh then 1 else if 0 > micro \<or> 999999 < micro then 1 else 0), errno))
      in case from_delim CHR '','' literal of
        [] \<Rightarrow> (let (timeh, range) = strtol literal in time_range timeh 0 (errno \<or> range))
      | _ # rest \<Rightarrow>
          (if until CHR '','' rest = [] then (Some 1, errno)
           else (let (timeh, range) = strtol (until CHR '','' rest)
                 in case from_delim CHR '','' rest of
                      [] \<Rightarrow> time_range timeh 0 (errno \<or> range)
                    | _ # rest \<Rightarrow>
                        (if until CHR '','' rest = [] then time_range timeh 0 (errno \<or> range)
                         else with_atoi (until CHR '','' rest) (time_range timeh) (errno \<or> range)))))"

text \<open>\<open>strrchr\<close> finds the last comma; without one the null pointer is used.\<close>

definition is_time_zone_in_zhorolog_range :: "string \<Rightarrow> bool \<Rightarrow> outcome" where
  "is_time_zone_in_zhorolog_range literal errno =
     (if CHR '','' \<notin> set literal then (None, errno)
      else with_atoi (rev (until CHR '','' (rev literal)))
             (\<lambda>time_zone errno. (Some (if - 50400 > time_zone \<or> 43200 < time_zone then 1 else 0), errno)) errno)"

definition is_date_in_fileman_range :: "string \<Rightarrow> bool \<Rightarrow> outcome" where
  "is_date_in_fileman_range literal errno =
     (if peek literal = CHR ''-'' \<or> peek literal = CHR ''+'' then (Some 1, errno)
      else if length (until CHR ''.'' literal) \<noteq> 7 then (Some 1, errno)
      else with_atoi (take 3 literal) (\<lambda>year_int.
           with_atoi (take 2 (drop 3 literal)) (\<lambda>mon_int.
           with_atoi (take 2 (drop 5 literal)) (\<lambda>day_int errno.
             (if \<not> (0 \<le> year_int \<and> year_int \<le> 999) \<or> \<not> (0 \<le> mon_int \<and> 0 \<le> day_int) then (None, errno)
              else if 12 < mon_int \<or> 31 < day_int then (Some 1, errno)
              else if year_int = 0 then (Some 1, errno)
              else if mon_int = 0 \<and> day_int \<noteq> 0 then (Some 1, errno)
              else (Some 0, errno))))) errno)"

definition is_time_in_fileman_range :: "string \<Rightarrow> bool \<Rightarrow> outcome" where
  "is_time_in_fileman_range literal errno =
     (case from_delim CHR ''.'' literal of
        [] \<Rightarrow> (Some 0, errno)
      | _ # t \<Rightarrow>
          (let time_len = length t;
               hour = (if 2 \<le> time_len then take 2 t else ''00'');
               min = (if 3 \<le> time_len then take 2 (drop 2 t) else ''00'');
               sec = (if 5 \<le> time_len then take 2 (drop 4 t) else ''00'')
           in if 6 < time_len then (Some 1, errno)
              else with_atoi hour (\<lambda>hour_int errno.
                if time_len = 2 \<and> (hour_int = 10 \<or> hour_int = 20) then (Some 1, errno)
                else if time_len = 1 \<and> 3 \<le> hour_int then (Some 1, errno)
                else with_atoi min (\<lambda>min_int errno.
                  if time_len = 3 \<and> 6 \<le> min_int then (Some 1, errno)
                  else with_atoi sec (\<lambda>sec_int errno.
                    if time_len = 5 \<and> 6 \<le> sec_int then (Some 1, errno)
                    else if 24 < hour_int then (Some 1, errno)
                    else if hour_int = 24 then (Some (if min_int \<noteq> 0 \<or> sec_int \<noteq> 0 then 1 else 0), errno)
                    else if 59 < min_int then (Some 1, errno)
                    else if 59 < sec_int then (Some 1, errno)
                    else (Some 0, errno)) errno) errno) errno))"

text \<open>
  The loop over the characters: \<open>None\<close> where it returns 1, else whether a digit was seen and
  the number of delimiters.
\<close>

fun delims_loop :: "char \<Rightarrow> nat \<Rightarrow> nat \<Rightarrow> bool \<Rightarrow> string \<Rightarrow> (nat \<times> bool) option" where
  "delims_loop delim num delim_count seen [] = Some (delim_count, seen)"
| "delims_loop delim num delim_count seen (c # s) =
     (if c = delim then
        (if Suc delim_count > num then None
         else if peek s = CHR ''+'' \<or> peek s = CHR ''-'' then
           (if is_number (peek_at 1 s) then delims_loop delim num (Suc delim_count) seen (tl s) else None)
         else delims_loop delim num (Suc delim_count) seen s)
      else if is_number c then delims_loop delim num delim_count True s
      else None)"

definition is_all_numbers_and_has_specified_num_of_delims :: "string \<Rightarrow> char \<Rightarrow> nat \<Rightarrow> int" where
  "is_all_numbers_and_has_specified_num_of_delims str delim num_of_delims =
     (case delims_loop delim num_of_delims 0 False
             (if peek str = CHR ''+'' \<or> peek str = CHR ''-'' then tl str else str) of
        None \<Rightarrow> 1
      | Some (delim_count, seen) \<Rightarrow> (if \<not> seen then 1 else if delim_count < num_of_delims then 1 else 0))"

definition is_date_time_value_in_zut_range :: "string \<Rightarrow> SqlValueType \<Rightarrow> bool \<Rightarrow> outcome" where
  "is_date_time_value_in_zut_range value type errno =
     (if type = TIME_LITERAL \<or> type = TIME_WITH_TIME_ZONE_LITERAL then (Some 1, errno)
      else (let (v, range) = strtol value
            in if type = DATE_LITERAL then
                 (Some (if - 62135596800000000 \<le> v \<and> 253402214400000000 \<ge> v then 0 else 1), errno \<or> range)
               else if type = TIMESTAMP_LITERAL then
                 (Some (if - 62135596800000000 \<le> v \<and> 253402300799999999 \<ge> v then 0 else 1), errno \<or> range)
               else (None, errno \<or> range)))"

section \<open>Literals in a text format\<close>

definition skip_spaces :: "string \<Rightarrow> string" where
  "skip_spaces s = dropWhile (\<lambda>c. c = CHR '' '') s"

text \<open>A macro in the body of a function: it returns 1 or goes on.\<close>

definition or_return :: "string option \<Rightarrow> int + string" where
  "or_return scan = (case scan of None \<Rightarrow> Inl 1 | Some r \<Rightarrow> Inr r)"

definition is_timestamp :: "SqlValueType \<Rightarrow> bool" where
  "is_timestamp type \<longleftrightarrow> type = TIMESTAMP_LITERAL \<or> type = TIMESTAMP_WITH_TIME_ZONE_LITERAL"

definition format_separator :: "SqlValueType \<Rightarrow> char \<Rightarrow> string \<Rightarrow> int + string" where
  "format_separator type f lit_c =
     (if f = CHR '' '' \<and> \<not> is_timestamp type then Inl 1
      else if peek lit_c \<noteq> f then
        (if f = CHR '' '' \<and> (peek lit_c = CHR ''T'' \<or> peek lit_c = CHR ''t'') then
           Inr (dropWhile (\<lambda>c. c = CHR ''T'' \<or> c = CHR ''t'') (tl lit_c))
         else if f = CHR '' '' \<and> is_end lit_c then Inl 0
         else Inl 1)
      else if peek lit_c = CHR '' '' then Inr (skip_spaces lit_c)
      else Inr (tl lit_c))"

text \<open>One iteration of the loop over the format: what is returned, or the literal for the next one.\<close>

definition format_step :: "SqlValueType \<Rightarrow> char \<Rightarrow> string \<Rightarrow> int + string" where
  "format_step type f lit_c =
     (if f = CHR ''%'' then Inr lit_c
      else if f = CHR ''m'' then or_return (is_month_valid lit_c)
      else if f = CHR ''d'' then or_return (is_date_valid lit_c)
      else if f = CHR ''Y'' then or_return (is_year_valid lit_c)
      else if f = CHR ''H'' then
        (if is_end lit_c \<and> is_timestamp type then Inl 0 else or_return (is_hour_valid lit_c))
      else if f = CHR ''M'' then or_return (is_min_valid lit_c)
      else if f = CHR ''S'' then or_return (is_sec_valid lit_c)
      else if f = CHR ''z'' then or_return (is_time_zone lit_c)
      else if f = CHR ''-'' \<or> f = CHR '':'' \<or> f = CHR '' '' then format_separator type f lit_c
      else Inl 1)"

text \<open>The loop, with the flags that a month, a day and a year have been read.\<close>

datatype format_result = Return int | Go_on string bool bool bool

primrec format_loop :: "SqlValueType \<Rightarrow> string \<Rightarrow> string \<Rightarrow> bool \<Rightarrow> bool \<Rightarrow> bool \<Rightarrow> format_result" where
  "format_loop type [] lit_c mon day year = Go_on lit_c mon day year"
| "format_loop type (f # fmt_c) lit_c mon day year =
     (case format_step type f lit_c of
        Inl ret \<Rightarrow> Return ret
      | Inr r \<Rightarrow> format_loop type fmt_c r (mon \<or> f = CHR ''m'') (day \<or> f = CHR ''d'') (year \<or> f = CHR ''Y''))"

text \<open>A scanner used as a statement of a function that goes on to return 0 at the end.\<close>

definition ends_in_time_zone :: "string \<Rightarrow> int" where
  "ends_in_time_zone lit_c =
     (if peek lit_c = CHR '' '' \<and> \<not> is_end (skip_spaces lit_c) then 1
      else (case is_time_zone (skip_spaces lit_c) of None \<Rightarrow> 1 | Some _ \<Rightarrow> 0))"

definition expect_colon :: "string \<Rightarrow> string option" where
  "expect_colon s = (if peek s = CHR '':'' then Some (tl s) else None)"

text \<open>What follows the part of the literal that the format describes.\<close>

definition date_then_time :: "string \<Rightarrow> int" where
  "date_then_time lit_c =
     (if is_end lit_c then 0
      else (case do { r \<leftarrow> is_hour_valid lit_c; r \<leftarrow> expect_colon r; r \<leftarrow> is_min_valid r;
                      r \<leftarrow> expect_colon r; is_sec_valid r } of
              None \<Rightarrow> 1 | Some r \<Rightarrow> ends_in_time_zone r))"

definition is_date_time_literal_in_valid_format :: "SqlValueType \<Rightarrow> string \<Rightarrow> string \<Rightarrow> int option" where
  "is_date_time_literal_in_valid_format date_time_type literal text_format =
     (if date_time_type \<notin> {DATE_LITERAL, TIME_LITERAL, TIMESTAMP_LITERAL, TIME_WITH_TIME_ZONE_LITERAL,
           TIMESTAMP_WITH_TIME_ZONE_LITERAL} then None
      else Some (case format_loop date_time_type text_format (skip_spaces literal) False False False of
        Return ret \<Rightarrow> ret
      | Go_on lit_c is_month_parsed is_day_parsed is_year_parsed \<Rightarrow>
          (if is_end lit_c then 0
           else if date_time_type = DATE_LITERAL
             \<and> (peek lit_c = CHR '' '' \<or> peek lit_c = CHR ''T'' \<or> peek lit_c = CHR ''t'')
             \<and> is_year_parsed \<and> is_month_parsed \<and> is_day_parsed then date_then_time (skip_spaces (tl lit_c))
           else ends_in_time_zone lit_c)))"

section \<open>The validation\<close>

text \<open>\<open>ret = f; if (0 != ret) break; ret = g\<close>\<close>

definition and_then :: "(bool \<Rightarrow> outcome) \<Rightarrow> (bool \<Rightarrow> outcome) \<Rightarrow> bool \<Rightarrow> outcome" where
  "and_then f g errno =
     (case f errno of (None, errno) \<Rightarrow> (None, errno)
      | (Some ret, errno) \<Rightarrow> if ret \<noteq> 0 then (Some ret, errno) else g errno)"

definition or_else :: "int \<Rightarrow> int \<Rightarrow> int" where
  "or_else f g = (if f \<noteq> 0 then g else f)"

definition result :: "int \<Rightarrow> bool \<Rightarrow> outcome" where
  "result ret errno = (Some ret, errno)"

definition validate_horolog :: "string \<Rightarrow> SqlValueType \<Rightarrow> bool \<Rightarrow> outcome" where
  "validate_horolog literal date_time_type =
     (let delims = is_all_numbers_and_has_specified_num_of_delims literal CHR '',''
      in if date_time_type = DATE_LITERAL then
           and_then (result (or_else (delims 0) (delims 1))) (is_date_in_horolog_range literal)
         else if date_time_type = TIME_LITERAL then
           and_then (result (delims 0)) (is_time_in_horolog_range literal)
         else if date_time_type = TIMESTAMP_LITERAL then
           and_then (result (delims 1))
             (and_then (is_date_in_horolog_range literal) (is_time_in_horolog_range literal))
         else if date_time_type = TIME_WITH_TIME_ZONE_LITERAL then
           and_then (result (delims 0)) (is_time_in_horolog_range literal)
         else if date_time_type = TIMESTAMP_WITH_TIME_ZONE_LITERAL then
           and_then (result (delims 1))
             (and_then (is_date_in_horolog_range literal) (is_time_in_horolog_range literal))
         else result 0)"

definition validate_zhorolog :: "string \<Rightarrow> SqlValueType \<Rightarrow> bool \<Rightarrow> outcome" where
  "validate_zhorolog literal date_time_type =
     (let delims = result (is_all_numbers_and_has_specified_num_of_delims literal CHR '','' 3)
      in if date_time_type = DATE_LITERAL then and_then delims (is_date_in_horolog_range literal)
         else if date_time_type = TIME_LITERAL then and_then delims (is_time_in_horolog_range literal)
         else if date_time_type = TIMESTAMP_LITERAL then
           and_then delims (and_then (is_date_in_horolog_range literal) (is_time_in_horolog_range literal))
         else if date_time_type = TIME_WITH_TIME_ZONE_LITERAL then
           and_then delims (and_then (is_time_in_horolog_range literal) (is_time_zone_in_zhorolog_range literal))
         else if date_time_type = TIMESTAMP_WITH_TIME_ZONE_LITERAL then
           and_then delims (and_then (is_date_in_horolog_range literal)
             (and_then (is_time_in_horolog_range literal) (is_time_zone_in_zhorolog_range literal)))
         else result 0)"

text \<open>Only the last of the two cases without a time of day returns before the final \<open>assert\<close>.\<close>

definition validate_fileman :: "string \<Rightarrow> SqlValueType \<Rightarrow> bool \<Rightarrow> outcome" where
  "validate_fileman literal date_time_type =
     (let delims = is_all_numbers_and_has_specified_num_of_delims literal CHR ''.''
      in if date_time_type = DATE_LITERAL then
           and_then (result (or_else (delims 0) (delims 1))) (is_date_in_fileman_range literal)
         else if date_time_type = TIME_LITERAL then result (- 1)
         else if date_time_type = TIMESTAMP_LITERAL \<or> date_time_type = TIMESTAMP_WITH_TIME_ZONE_LITERAL then
           and_then (result (or_else (delims 1) (delims 0)))
             (and_then (is_date_in_fileman_range literal) (is_time_in_fileman_range literal))
         else if date_time_type = TIME_WITH_TIME_ZONE_LITERAL then (\<lambda>errno. (None, errno))
         else result 0)"

definition validate_date_time_value ::
  "string \<Rightarrow> SqlValueType \<Rightarrow> OptionalKeyword \<Rightarrow> string \<Rightarrow> bool \<Rightarrow> outcome" where
  "validate_date_time_value literal date_time_type internal_format text_format =
     (if internal_format = OPTIONAL_DATE_TIME_HOROLOG then validate_horolog literal date_time_type
      else if internal_format = OPTIONAL_DATE_TIME_ZHOROLOG then validate_zhorolog literal date_time_type
      else if internal_format = OPTIONAL_DATE_TIME_FILEMAN then validate_fileman literal date_time_type
      else if internal_format = OPTIONAL_DATE_TIME_ZUT then
        and_then (result (is_all_numbers_and_has_specified_num_of_delims literal CHR ''.'' 0))
          (is_date_time_value_in_zut_range literal date_time_type)
      else if internal_format = OPTIONAL_DATE_TIME_TEXT then
        (\<lambda>errno. (is_date_time_literal_in_valid_format date_time_type literal text_format, errno))
      else (\<lambda>errno. (None, errno)))"

text \<open>The external call; \<open>text_format\<close> is only read when the format of the literal is a text.\<close>

definition ydboctoValidateDateTimeValueC ::
  "string \<Rightarrow> SqlValueType \<Rightarrow> OptionalKeyword \<Rightarrow> string \<Rightarrow> bool \<Rightarrow> outcome" where
  "ydboctoValidateDateTimeValueC value vt vf text_format =
     validate_date_time_value (c_str value) vt vf (c_str text_format)"

section \<open>Scanners of number fields\<close>

text \<open>
  A field is the longest run of at most \<open>w\<close> digits at the start of the string; the scanner
  accepts it when it has at least \<open>k\<close> digits and its value is in the range, and leaves the rest.
\<close>

definition number_field :: "nat \<Rightarrow> nat \<Rightarrow> string \<Rightarrow> string \<Rightarrow> string \<Rightarrow> bool" where
  "number_field k w s ds r \<longleftrightarrow> s = ds @ r \<and> list_all is_number ds \<and> k \<le> length ds \<and> length ds \<le> w
     \<and> (length ds = w \<or> \<not> is_number (peek r))"

lemma code_digit: "is_number c \<Longrightarrow> code c = 48 + digit_val c"
  by (simp add: is_number_def digit_val_def)

lemma digit_eq: "is_number c \<Longrightarrow> is_number d \<Longrightarrow> c = d \<longleftrightarrow> digit_val c = digit_val d"
  by (metis digit_char_val)

lemma digit_val_numerals [simp]:
  "digit_val CHR ''1'' = 1" "digit_val CHR ''2'' = 2" "digit_val CHR ''6'' = 6"
  "is_number CHR ''1''" "is_number CHR ''2''" "is_number CHR ''6''"
  by (simp_all add: digit_val_def is_number_def)

lemmas digit_tests = code_digit digit_eq

lemma number_field_2:
  "(\<exists>ds. number_field 1 2 s ds r \<and> lo \<le> nat_of_digits ds \<and> nat_of_digits ds \<le> hi) \<longleftrightarrow>
     (\<exists>a. s = a # r \<and> is_number a \<and> \<not> is_number (peek r) \<and> lo \<le> digit_val a \<and> digit_val a \<le> hi)
     \<or> (\<exists>a b. s = a # b # r \<and> is_number a \<and> is_number b
          \<and> lo \<le> 10 * digit_val a + digit_val b \<and> 10 * digit_val a + digit_val b \<le> hi)"
  (is "?L \<longleftrightarrow> ?R")
proof
  assume ?L
  then obtain ds where ds: "number_field 1 2 s ds r" "lo \<le> nat_of_digits ds" "nat_of_digits ds \<le> hi" by blast
  then have "length ds = 1 \<or> length ds = 2" by (auto simp: number_field_def)
  then show ?R
  proof
    assume "length ds = 1"
    then obtain a where "ds = [a]" by (auto simp: length_Suc_conv)
    with ds show ?R by (auto simp: number_field_def)
  next
    assume "length ds = 2"
    then obtain a b where "ds = [a, b]" by (auto simp: length_Suc_conv numeral_2_eq_2)
    with ds show ?R by (auto simp: number_field_def nat_of_digits_Cons algebra_simps)
  qed
next
  assume ?R
  then show ?L
  proof (elim disjE exE conjE)
    fix a assume a: "s = a # r" "is_number a" "\<not> is_number (peek r)" "lo \<le> digit_val a" "digit_val a \<le> hi"
    then show ?L by (intro exI [of _ "[a]"]) (simp add: number_field_def)
  next
    fix a b assume a: "s = a # b # r" "is_number a" "is_number b" "lo \<le> 10 * digit_val a + digit_val b" "10 * digit_val a + digit_val b \<le> hi"
    then show ?L by (intro exI [of _ "[a, b]"]) (simp add: number_field_def nat_of_digits_Cons algebra_simps)
  qed
qed

text \<open>The interface: what every scanner of a field promises.\<close>

locale field_scanner =
  fixes scan :: "string \<Rightarrow> string option"
    and k w lo hi :: nat
  assumes width: "0 < k"
    and scan_field: "scan s = Some r \<longleftrightarrow>
      (\<exists>ds. number_field k w s ds r \<and> lo \<le> nat_of_digits ds \<and> nat_of_digits ds \<le> hi)"
begin

lemma scan_accepts:
  assumes "list_all is_number ds" "k \<le> length ds" "length ds \<le> w" "length ds = w \<or> \<not> is_number (peek r)"
    and "lo \<le> nat_of_digits ds" "nat_of_digits ds \<le> hi"
  shows "scan (ds @ r) = Some r"
  using assms unfolding scan_field number_field_def by blast

lemma scan_number:
  assumes "scan s = Some r"
  obtains ds where "s = ds @ r" "list_all is_number ds" "ds \<noteq> []" "length ds \<le> w"
    "length ds = w \<or> \<not> is_number (peek r)" "lo \<le> nat_of_digits ds" "nat_of_digits ds \<le> hi"
  using assms width unfolding scan_field number_field_def by fastforce

text \<open>What the scanner accepts, \<open>strptime\<close> reads with the same range and width, and stops at the same place.\<close>

lemma scan_get_number:
  assumes "scan s = Some r" "lo' \<le> int lo"
  obtains v where "int lo \<le> v" "v \<le> int hi" "get_number lo' (int hi) w s = Some (v, r)"
proof -
  obtain ds where ds: "s = ds @ r" "list_all is_number ds" "ds \<noteq> []" "length ds \<le> w"
    "length ds = w \<or> \<not> is_number (peek r)" "lo \<le> nat_of_digits ds" "nat_of_digits ds \<le> hi"
    using assms(1) by (rule scan_number)
  then have "get_number lo' (int hi) w (ds @ r) = Some (int (nat_of_digits ds), r)"
    using assms(2) by (intro get_number_digits) auto
  with ds show thesis by (intro that [of "int (nat_of_digits ds)"]) auto
qed

end

interpretation month: field_scanner is_month_valid 1 2 1 12
proof unfold_locales
  fix s r
  show "is_month_valid s = Some r \<longleftrightarrow>
      (\<exists>ds. number_field 1 2 s ds r \<and> 1 \<le> nat_of_digits ds \<and> nat_of_digits ds \<le> 12)"
    unfolding number_field_2
    using digit_val_bound [of "peek s"] digit_val_bound [of "peek_at 1 s"]
    by (cases s; cases "tl s") (auto simp: is_month_valid_def digit_tests)
qed simp

interpretation day: field_scanner is_date_valid 1 2 1 31
proof unfold_locales
  fix s r
  show "is_date_valid s = Some r \<longleftrightarrow>
      (\<exists>ds. number_field 1 2 s ds r \<and> 1 \<le> nat_of_digits ds \<and> nat_of_digits ds \<le> 31)"
    unfolding number_field_2
    using digit_val_bound [of "peek s"] digit_val_bound [of "peek_at 1 s"]
    by (cases s; cases "tl s") (auto simp: is_date_valid_def digit_tests)
qed simp

interpretation hour: field_scanner hour_digits 1 2 0 23
proof unfold_locales
  fix s r
  show "hour_digits s = Some r \<longleftrightarrow>
      (\<exists>ds. number_field 1 2 s ds r \<and> 0 \<le> nat_of_digits ds \<and> nat_of_digits ds \<le> 23)"
    unfolding number_field_2
    using digit_val_bound [of "peek s"] digit_val_bound [of "peek_at 1 s"]
    by (cases s; cases "tl s") (auto simp: hour_digits_def digit_tests)
qed simp

interpretation minute: field_scanner is_min_valid 1 2 0 59
proof unfold_locales
  fix s r
  show "is_min_valid s = Some r \<longleftrightarrow>
      (\<exists>ds. number_field 1 2 s ds r \<and> 0 \<le> nat_of_digits ds \<and> nat_of_digits ds \<le> 59)"
    unfolding number_field_2
    using digit_val_bound [of "peek s"] digit_val_bound [of "peek_at 1 s"]
    by (cases s; cases "tl s") (auto simp: is_min_valid_def digit_tests)
qed simp

interpretation second: field_scanner second_digits 1 2 0 60
proof unfold_locales
  fix s r
  show "second_digits s = Some r \<longleftrightarrow>
      (\<exists>ds. number_field 1 2 s ds r \<and> 0 \<le> nat_of_digits ds \<and> nat_of_digits ds \<le> 60)"
    unfolding number_field_2
    using digit_val_bound [of "peek s"] digit_val_bound [of "peek_at 1 s"]
    by (cases s; cases "tl s") (auto simp: second_digits_def digit_tests)
qed simp
lemma number_field_4:
  "(\<exists>ds. number_field 4 4 s ds r \<and> lo \<le> nat_of_digits ds \<and> nat_of_digits ds \<le> hi) \<longleftrightarrow>
     (\<exists>a b c d. s = a # b # c # d # r \<and> list_all is_number [a, b, c, d]
        \<and> lo \<le> nat_of_digits [a, b, c, d] \<and> nat_of_digits [a, b, c, d] \<le> hi)"
  (is "?L \<longleftrightarrow> ?R")
proof
  assume ?L
  then obtain ds where ds: "number_field 4 4 s ds r" "lo \<le> nat_of_digits ds" "nat_of_digits ds \<le> hi" by blast
  then have "length ds = Suc (Suc (Suc (Suc 0)))" by (simp add: number_field_def)
  then obtain a b c d where "ds = [a, b, c, d]" by (auto simp: length_Suc_conv)
  with ds show ?R by (auto simp: number_field_def)
next
  assume ?R
  then obtain a b c d where "s = a # b # c # d # r" "list_all is_number [a, b, c, d]"
    "lo \<le> nat_of_digits [a, b, c, d]" "nat_of_digits [a, b, c, d] \<le> hi" by blast
  then show ?L by (intro exI [of _ "[a, b, c, d]"]) (simp add: number_field_def)
qed

lemma is_year_valid_digits:
  "is_year_valid s = Some r \<longleftrightarrow>
     (\<exists>a b c d. s = a # b # c # d # r \<and> list_all is_number [a, b, c, d] \<and> 1 \<le> nat_of_digits [a, b, c, d])"
proof -
  have zero: "nat_of_digits [a, b, c, d] = 0 \<longleftrightarrow> a = CHR ''0'' \<and> b = CHR ''0'' \<and> c = CHR ''0'' \<and> d = CHR ''0''"
    if "list_all is_number [a, b, c, d]" for a b c d
    using that by (auto simp: nat_of_digits_Cons digit_eq)
  have "Suc 0 \<le> n \<longleftrightarrow> n \<noteq> 0" for n :: nat by auto
  with zero show ?thesis
    by (cases s; cases "tl s"; cases "tl (tl s)"; cases "tl (tl (tl s))")
      (auto simp: is_year_valid_def numeral_eq_Suc simp del: Suc_le_eq)
qed

interpretation year: field_scanner is_year_valid 4 4 1 9999
proof unfold_locales
  fix s r
  have "nat_of_digits [a, b, c, d] \<le> 9999" if "list_all is_number [a, b, c, d]" for a b c d
    using nat_of_digits_bound [OF that] by simp
  then show "is_year_valid s = Some r \<longleftrightarrow>
      (\<exists>ds. number_field 4 4 s ds r \<and> 1 \<le> nat_of_digits ds \<and> nat_of_digits ds \<le> 9999)"
    unfolding number_field_4 is_year_valid_digits by blast
qed simp

section \<open>Dates that are accepted are read\<close>

definition date_layout :: "string \<Rightarrow> string \<Rightarrow> string \<Rightarrow> string \<Rightarrow> string" where
  "date_layout fmt y m d =
     (if fmt = ''%Y-%m-%d'' then y @ ''-'' @ m @ ''-'' @ d
      else if fmt = ''%m-%d-%Y'' then m @ ''-'' @ d @ ''-'' @ y
      else d @ ''-'' @ m @ ''-'' @ y)"

definition date_formats :: "string list" where
  "date_formats = [''%Y-%m-%d'', ''%m-%d-%Y'', ''%d-%m-%Y'']"

text \<open>The digits of the three fields, with what follows the last one.\<close>

definition date_digits :: "string \<Rightarrow> string \<Rightarrow> string \<Rightarrow> string \<Rightarrow> string \<Rightarrow> bool" where
  "date_digits fmt y m d rest \<longleftrightarrow>
     list_all is_number y \<and> list_all is_number m \<and> list_all is_number d
     \<and> length y = 4 \<and> length m \<in> {1, 2} \<and> length d \<in> {1, 2}
     \<and> 1 \<le> nat_of_digits y \<and> nat_of_digits m \<in> {1..12} \<and> nat_of_digits d \<in> {1..31}
     \<and> (fmt = ''%Y-%m-%d'' \<longrightarrow> length d = 2 \<or> \<not> is_number (peek rest))"

lemma year_parts:
  assumes "is_year_valid s = Some r"
  obtains y where "s = y @ r" "list_all is_number y" "length y = 4" "1 \<le> nat_of_digits y"
  using assms year.scan_field [of s r] by (auto simp: number_field_def)

lemma month_parts:
  assumes "is_month_valid s = Some r"
  obtains m where "s = m @ r" "list_all is_number m" "length m \<in> {1, 2}" "nat_of_digits m \<in> {1..12}"
    "length m = 2 \<or> \<not> is_number (peek r)"
proof -
  obtain m where "number_field 1 2 s m r" "1 \<le> nat_of_digits m" "nat_of_digits m \<le> 12"
    using assms month.scan_field by blast
  then show thesis by (intro that [of m]) (auto simp: number_field_def)
qed

lemma day_parts:
  assumes "is_date_valid s = Some r"
  obtains m where "s = m @ r" "list_all is_number m" "length m \<in> {1, 2}" "nat_of_digits m \<in> {1..31}"
    "length m = 2 \<or> \<not> is_number (peek r)"
proof -
  obtain m where "number_field 1 2 s m r" "1 \<le> nat_of_digits m" "nat_of_digits m \<le> 31"
    using assms day.scan_field by blast
  then show thesis by (intro that [of m]) (auto simp: number_field_def)
qed

lemmas format_simps = format_step_def format_separator_def or_return_def is_timestamp_def

lemma minus_split: "peek s = CHR ''-'' \<Longrightarrow> s = CHR ''-'' # tl s"
  by (cases s) (auto simp: NUL_def)

lemma format_loop_date:
  assumes "fmt \<in> set date_formats"
  shows "format_loop DATE_LITERAL fmt s False False False = Return 1
    \<or> (\<exists>y m d rest. format_loop DATE_LITERAL fmt s False False False = Go_on rest True True True
         \<and> s = date_layout fmt y m d @ rest \<and> date_digits fmt y m d rest)"
proof -
  consider "fmt = ''%Y-%m-%d''" | "fmt = ''%m-%d-%Y''" | "fmt = ''%d-%m-%Y''"
    using assms by (auto simp: date_formats_def)
  then show ?thesis
  proof cases
    case 1
    show ?thesis
      by (auto simp: 1 format_simps split: option.splits if_splits elim!: year_parts month_parts day_parts dest!: minus_split)
        (auto simp: date_layout_def date_digits_def)
  next
    case 2
    show ?thesis
      by (auto simp: 2 format_simps split: option.splits if_splits elim!: year_parts month_parts day_parts dest!: minus_split)
        (auto simp: date_layout_def date_digits_def)
  next
    case 3
    show ?thesis
      by (auto simp: 3 format_simps split: option.splits if_splits elim!: year_parts month_parts day_parts dest!: minus_split)
        (auto simp: date_layout_def date_digits_def)
  qed
qed

lemma get_number_skip_spaces: "get_number lo hi n (skip_spaces s) = get_number lo hi n s"
  by (simp add: get_number_def skip_spaces_def)

lemma get_number_field:
  assumes "list_all is_number ds" "length ds \<in> {1, 2}" "nat_of_digits ds \<in> {1..hi}" "length ds = 2 \<or> \<not> is_number (peek r)"
  shows "get_number 1 (int hi) 2 (ds @ r) = Some (int (nat_of_digits ds), r)"
  using assms get_number_digits [of ds 2 1 "int hi" r] by (cases "ds = []") auto

lemma get_number_year:
  assumes "list_all is_number ds" "length ds = 4"
  shows "get_number 0 9999 4 (ds @ r) = Some (int (nat_of_digits ds), r)"
proof -
  have "nat_of_digits ds \<le> 9999" using nat_of_digits_bound [OF assms(1)] assms(2) by simp
  with assms show ?thesis using get_number_digits [of ds 4 0 9999 r] by (cases "ds = []") auto
qed

text \<open>The three fields that \<open>strptime\<close> sets.\<close>

definition set_date :: "string \<Rightarrow> string \<Rightarrow> string \<Rightarrow> tm \<Rightarrow> tm" where
  "set_date y m d t = t\<lparr>tm_year := int (nat_of_digits y) - 1900, tm_mon := int (nat_of_digits m) - 1,
     tm_mday := int (nat_of_digits d)\<rparr>"

lemma strptime_loop_date:
  assumes "fmt \<in> set date_formats" "skip_spaces s = date_layout fmt y m d @ rest" "date_digits fmt y m d rest"
  shows "strptime_loop s fmt t False = (Some rest, set_date y m d t, True)"
proof -
  have first: "get_number lo hi n s = get_number lo hi n (date_layout fmt y m d @ rest)" for lo hi n
    by (metis assms(2) get_number_skip_spaces)
  have num: "get_number 0 9999 4 (y @ r) = Some (int (nat_of_digits y), r)" for r
    using assms(3) by (intro get_number_year) (auto simp: date_digits_def)
  have num2: "get_number 1 12 2 (m @ r) = Some (int (nat_of_digits m), r)"
    "get_number 1 31 2 (d @ r) = Some (int (nat_of_digits d), r)" if "\<not> is_number (peek r)" for r
    using assms(3) that get_number_field [of m 12 r] get_number_field [of d 31 r] by (auto simp: date_digits_def)
  have last: "fmt = ''%Y-%m-%d'' \<Longrightarrow> get_number 1 31 2 (d @ rest) = Some (int (nat_of_digits d), rest)"
    using assms(3) get_number_field [of d 31 rest] by (auto simp: date_digits_def)
  consider "fmt = ''%Y-%m-%d''" | "fmt = ''%m-%d-%Y''" | "fmt = ''%d-%m-%Y''"
    using assms by (auto simp: date_formats_def)
  then show ?thesis
    by cases (simp_all add: first num num2 last strptime_conv_def date_layout_def set_date_def is_space_def)
qed
lemma plain_spaces: "plain_date_text (takeWhile (\<lambda>c. c = CHR '' '') s)"
  by (induction s) (auto simp: plain_date_text_def NUL_def)

lemma spaces_split: "s = takeWhile (\<lambda>c. c = CHR '' '') s @ skip_spaces s"
  by (simp add: skip_spaces_def)

lemma std_loop_head:
  "is_number (peek (std_loop False False n s)) \<longleftrightarrow> is_number (peek s)"
  by (cases s) auto

lemma skip_spaces_append:
  "\<forall>c \<in> set a. c = CHR '' '' \<Longrightarrow> skip_spaces (a @ s) = skip_spaces s"
  by (simp add: skip_spaces_def dropWhile_append2)

text \<open>The literal up to the end of the date has nothing that the preparation of the text changes.\<close>

lemma date_text_prepared:
  assumes "skip_spaces (c_str value) = date_layout fmt y m d @ rest" "date_digits fmt y m d rest"
  obtains rest' where "skip_spaces (c_str (convert_to_std_time_lit value)) = date_layout fmt y m d @ rest'"
    "date_digits fmt y m d rest'"
proof -
  define sp where "sp = takeWhile (\<lambda>c. c = CHR '' '') (c_str value)"
  define body where "body = date_layout fmt y m d"
  have sp: "\<forall>c \<in> set sp. c = CHR '' ''" by (auto simp: sp_def dest: set_takeWhileD)
  have digits: "plain_date_text y" "plain_date_text m" "plain_date_text d" "y \<noteq> []" "m \<noteq> []" "d \<noteq> []"
    using assms(2) by (auto simp: date_digits_def intro: plain_digits)
  then have body: "plain_date_text body" "body \<noteq> []"
    by (auto simp: body_def date_layout_def plain_date_text_def NUL_def)
  have "is_number (hd body)" "body \<noteq> []"
    using assms(2) digits(4-6) by (cases y; cases m; cases d; auto simp: body_def date_layout_def date_digits_def)+
  then have hd: "skip_spaces (body @ r) = body @ r" for r
    by (cases body) (auto simp: skip_spaces_def)
  have c: "c_str value = sp @ body @ rest"
    using assms(1) spaces_split [of "c_str value"] by (simp add: sp_def body_def)
  obtain tail where v: "value = sp @ body @ rest @ tail" "c_str (rest @ tail) = rest"
  proof -
    have "value = c_str value @ dropWhile (\<lambda>c. c \<noteq> NUL) value" by (simp add: c_str_def)
    moreover have "c_str (rest @ dropWhile (\<lambda>c. c \<noteq> NUL) value) = rest"
    proof -
      have "NUL \<notin> set (c_str value)" by (auto simp: c_str_def dest: set_takeWhileD)
      then have "NUL \<notin> set rest" by (simp add: c)
      moreover have "c_str (dropWhile (\<lambda>c. c \<noteq> NUL) value) = []"
        by (induction "value") (auto simp: c_str_def)
      ultimately show ?thesis by (simp add: c_str_append)
    qed
    ultimately show thesis using that c by simp
  qed
  have pl: "plain_date_text (sp @ body)" "sp @ body \<noteq> []"
    using body plain_spaces [of "c_str value"] by (simp_all add: sp_def)
  let ?r = "std_loop False False 1 (rest @ tail)"
  have "convert_to_std_time_lit value = (sp @ body) @ ?r"
    using std_loop_plain [OF pl(1), of True 1 "rest @ tail"] body(2) v(1) by (simp add: convert_to_std_time_lit_def)
  moreover have "NUL \<notin> set (sp @ body)" using pl(1) by (auto simp: plain_date_text_def list_all_iff)
  ultimately have "c_str (convert_to_std_time_lit value) = sp @ body @ c_str ?r"
    by (simp add: c_str_append)
  then have one: "skip_spaces (c_str (convert_to_std_time_lit value)) = body @ c_str ?r"
    by (simp add: skip_spaces_append [OF sp] hd)
  have peek_c: "peek (c_str s) = peek s" for s by (cases s) (auto simp: c_str_def)
  have "is_number (peek (c_str ?r)) \<longleftrightarrow> is_number (peek rest)"
    using peek_c [of "rest @ tail"] v(2) by (simp add: peek_c std_loop_head)
  then have "date_digits fmt y m d (c_str ?r)" using assms(2) by (simp add: date_digits_def)
  with one show thesis by (intro that) (simp_all add: body_def)
qed

lemma set_date_timegm:
  assumes "date_digits fmt y m d rest"
  shows "timegm (set_week_and_year_day (set_date y m d tm_zero))
      = (day_number (int (nat_of_digits y)) (int (nat_of_digits m) - 1) (int (nat_of_digits d)) - epoch_day) * 86400"
    "0 \<le> tm_mon (set_date y m d tm_zero)" "tm_mon (set_date y m d tm_zero) \<le> 11"
proof -
  let ?t = "set_date y m d tm_zero"
  show m: "0 \<le> tm_mon ?t" "tm_mon ?t \<le> 11"
    using assms by (auto simp: set_date_def date_digits_def)
  have "timegm (set_week_and_year_day ?t) = timegm ?t"
    by (rule timegm_same_civil) (simp add: same_civil_def set_week_and_year_day_def Let_def)
  then show "timegm (set_week_and_year_day ?t)
      = (day_number (int (nat_of_digits y)) (int (nat_of_digits m) - 1) (int (nat_of_digits d)) - epoch_day) * 86400"
    using timegm_day_number [OF m] by (simp add: set_date_def tm_zero_def)
qed

lemma day_number_range:
  assumes "1 \<le> y" "y \<le> 9999" "0 \<le> m" "m \<le> 11" "1 \<le> d" "d \<le> 31"
  shows "- 10 \<le> day_number y m d" "day_number y m d \<le> 3700000"
proof -
  have "- 2 \<le> year_start y" "year_start y \<le> 3660000"
    using year_start_linear [of y] assms(1,2) by auto
  moreover have "0 \<le> month_start (leap y) m" "month_start (leap y) m \<le> 366"
    using month_start_bounds [OF assms(3,4), of "leap y"] by (auto split: if_splits)
  ultimately show "- 10 \<le> day_number y m d" "day_number y m d \<le> 3700000"
    using assms(5,6) by (auto simp: day_number_def)
qed

text \<open>C9: Whatever the validation accepts as a date in one of the three formats, the conversion reads: the
  whole date is matched, and the value is the midnight of the year, month and day that the
  digits say, with the days past the end of a short month counted on into the next one.\<close>

theorem validated_date_is_read:
  assumes "fmt \<in> set date_formats"
    and "fst (ydboctoValidateDateTimeValueC value DATE_LITERAL OPTIONAL_DATE_TIME_TEXT fmt errno) = Some 0"
  shows "\<exists>y m d rest. skip_spaces (c_str value) = date_layout fmt y m d @ rest \<and> date_digits fmt y m d rest
    \<and> ydboctoText2InternalFormatC env value fmt = Some (show_int (internal
        ((day_number (int (nat_of_digits y)) (int (nat_of_digits m) - 1) (int (nat_of_digits d)) - epoch_day) * 86400) 0))"
proof -
  have fmt: "c_str fmt = fmt" "expand_T fmt = fmt"
    "CHR ''S'' \<notin> set fmt" "CHR ''H'' \<notin> set fmt" "CHR ''M'' \<notin> set fmt" "CHR ''z'' \<notin> set fmt"
    using assms(1) by (auto simp: date_formats_def c_str_def NUL_def)
  have "is_date_time_literal_in_valid_format DATE_LITERAL (c_str value) fmt = Some 0"
    using assms(2) by (simp add: ydboctoValidateDateTimeValueC_def validate_date_time_value_def fmt)
  then have "format_loop DATE_LITERAL fmt (skip_spaces (c_str value)) False False False \<noteq> Return 1"
    by (auto simp: is_date_time_literal_in_valid_format_def)
  then obtain y m d rest where r: "skip_spaces (c_str value) = date_layout fmt y m d @ rest" "date_digits fmt y m d rest"
    using format_loop_date [OF assms(1)] by blast
  obtain rest' where r': "skip_spaces (c_str (convert_to_std_time_lit value)) = date_layout fmt y m d @ rest'"
    "date_digits fmt y m d rest'"
    using date_text_prepared [OF r] by blast
  let ?t = "set_date y m d tm_zero"
  let ?s = "(day_number (int (nat_of_digits y)) (int (nat_of_digits m) - 1) (int (nat_of_digits d)) - epoch_day) * 86400"
  have p: "strptime (c_str (convert_to_std_time_lit value)) fmt tm_zero = (Some rest', set_week_and_year_day ?t)"
    using strptime_loop_date [OF assms(1) r'] set_date_timegm(2,3) [OF r(2)] by (simp add: strptime_def fmt)
  have range: "- 99999999999 \<le> ?s" "?s \<le> 999999999999"
    using day_number_range [of "int (nat_of_digits y)" "int (nat_of_digits m) - 1" "int (nat_of_digits d)"] r(2)
      nat_of_digits_bound [of y]
    by (auto simp: date_digits_def epoch_day_def)
  have zero: "''000000'' = show_padded 6 0" by code_simp
  have "ydboctoText2InternalFormatC env value fmt = result_text ?s ''000000''"
    using set_date_timegm(1) [OF r(2)] by (simp add: ydboctoText2InternalFormatC_def fmt p split: if_splits)
  also have "\<dots> = Some (show_int (internal ?s 0))"
    unfolding zero using range by (intro result_text_internal) (simp_all add: micro_ok_def)
  finally show ?thesis using r by blast
qed

theorem validated_date_is_read_witness:
  "\<exists>y m d rest. skip_spaces (c_str ''  29-2-2024 10:11:12'') = date_layout ''%d-%m-%Y'' y m d @ rest
    \<and> date_digits ''%d-%m-%Y'' y m d rest
    \<and> ydboctoText2InternalFormatC (fixed_zone 0 0) ''  29-2-2024 10:11:12'' ''%d-%m-%Y'' = Some (show_int (internal
        ((day_number (int (nat_of_digits y)) (int (nat_of_digits m) - 1) (int (nat_of_digits d)) - epoch_day) * 86400) 0))"
  by (rule validated_date_is_read [where errno = False]) code_simp+
section \<open>Lists of numbers\<close>

primrec split_on :: "char \<Rightarrow> string \<Rightarrow> string list" where
  "split_on d [] = [[]]"
| "split_on d (c # s) = (if c = d then [] # split_on d s else (c # hd (split_on d s)) # tl (split_on d s))"

definition has_sign :: "string \<Rightarrow> bool" where
  "has_sign s \<longleftrightarrow> peek s = CHR ''+'' \<or> peek s = CHR ''-''"

definition strip_sign :: "string \<Rightarrow> string" where
  "strip_sign s = (if has_sign s then tl s else s)"

text \<open>A field: empty, or digits with an optional sign.\<close>

definition signed_field :: "string \<Rightarrow> bool" where
  "signed_field f \<longleftrightarrow> list_all is_number (strip_sign f) \<and> (has_sign f \<longrightarrow> strip_sign f \<noteq> [])"

text \<open>
  The language of the check: \<open>n + 1\<close> fields; the first may also be a sign alone; there is a digit.
\<close>

definition number_list :: "char \<Rightarrow> nat \<Rightarrow> string \<Rightarrow> bool" where
  "number_list d n s \<longleftrightarrow>
     length (split_on d s) = Suc n \<and> list_all is_number (strip_sign (hd (split_on d s)))
     \<and> list_all signed_field (tl (split_on d s)) \<and> \<not> list_all (\<lambda>c. \<not> is_number c) s"

definition delimiter :: "char \<Rightarrow> bool" where
  "delimiter d \<longleftrightarrow> \<not> is_number d \<and> d \<noteq> CHR ''+'' \<and> d \<noteq> CHR ''-'' \<and> d \<noteq> NUL"

lemma split_on_nonempty [simp]: "split_on d s \<noteq> []"
  by (cases s) auto

lemma split_on_cases:
  obtains f fs where "split_on d s = f # fs"
  using split_on_nonempty [of d s] by (cases "split_on d s") auto

lemma split_on_sign:
  assumes "delimiter d" "has_sign s" "split_on d s = f # fs"
  shows "split_on d (tl s) = strip_sign f # fs" "has_sign f" "s = hd f # tl s"
proof -
  obtain c r where s: "s = c # r" "c \<noteq> d" using assms(1,2) by (cases s) (auto simp: delimiter_def has_sign_def NUL_def)
  obtain g gs where g: "split_on d r = g # gs" by (rule split_on_cases)
  with assms s show "split_on d (tl s) = strip_sign f # fs" "has_sign f" "s = hd f # tl s"
    by (auto simp: strip_sign_def has_sign_def)
qed

lemma strip_sign_no_sign: "\<not> has_sign s \<Longrightarrow> split_on d s = f # fs \<Longrightarrow> \<not> has_sign f \<and> strip_sign f = f"
  by (cases s) (auto simp: strip_sign_def has_sign_def NUL_def split: if_splits)

lemma split_on_number:
  assumes "delimiter d" "split_on d s = f # fs"
  shows "is_number (peek s) \<longleftrightarrow> f \<noteq> [] \<and> is_number (hd f)"
  using assms by (cases s) (auto simp: delimiter_def split: if_splits)

lemma delims_loop_number_list:
  "delimiter d \<Longrightarrow> k \<le> num \<Longrightarrow> delims_loop d num k seen s =
    (let f = hd (split_on d s); fs = tl (split_on d s)
     in if list_all is_number f \<and> list_all signed_field fs \<and> k + length fs \<le> num
        then Some (k + length fs, seen \<or> \<not> list_all (\<lambda>c. \<not> is_number c) s) else None)"
proof (induction d num k seen s rule: delims_loop.induct)
  case (1 delim num k seen)
  then show ?case by simp
next
  case (2 delim num k seen c s)
  obtain f fs where f: "split_on delim s = f # fs" by (rule split_on_cases)
  note d = \<open>delimiter delim\<close> [unfolded delimiter_def]
  consider "c = delim" "num < Suc k" | "c = delim" "Suc k \<le> num" "has_sign s" | "c = delim" "Suc k \<le> num" "\<not> has_sign s"
    | "c \<noteq> delim" by linarith
  then show ?case
  proof cases
    case 1
    then show ?thesis using f by simp
  next
    case 2
    note s = split_on_sign [OF \<open>delimiter delim\<close> 2(3) f]
    have sg: "\<not> is_number (hd f)" "hd f \<noteq> delim"
      using s(2) d by (cases f; auto simp: has_sign_def NUL_def)+
    have num: "is_number (peek_at 1 s) \<longleftrightarrow> strip_sign f \<noteq> [] \<and> is_number (hd (strip_sign f))"
      using split_on_number [OF \<open>delimiter delim\<close> s(1)] s(3) by (metis One_nat_def peek_at_simps(3) peek_at_def peek_def list.exhaust_sel length_greater_0_conv nth_Cons_0 list.case_eq_if hd_conv_nth list.sel(3))
    have all: "list_all (\<lambda>c. \<not> is_number c) s = list_all (\<lambda>c. \<not> is_number c) (tl s)"
      by (subst s(3)) (simp add: sg)
    show ?thesis
    proof (cases "is_number (peek_at 1 s)")
      case True
      have "delims_loop delim num k seen (c # s) = delims_loop delim num (Suc k) seen (tl s)"
        using 2 True by (simp add: has_sign_def)
      also have "\<dots> = (if list_all is_number (strip_sign f) \<and> list_all signed_field fs \<and> Suc k + length fs \<le> num
          then Some (Suc k + length fs, seen \<or> \<not> list_all (\<lambda>c. \<not> is_number c) s) else None)"
        using 2 True "2.IH"(1) \<open>delimiter delim\<close> by (simp add: s(1) all has_sign_def Let_def)
      finally have step: "delims_loop delim num k seen (c # s) = \<dots>" .
      moreover have "signed_field f \<longleftrightarrow> list_all is_number (strip_sign f)"
        using True num s(2) by (auto simp: signed_field_def)
      ultimately show ?thesis using 2 f d by auto
    next
      case False
      then have "delims_loop delim num k seen (c # s) = None" using 2 by (simp add: has_sign_def)
      moreover have "\<not> signed_field f"
        using False num s(2) by (cases "strip_sign f") (auto simp: signed_field_def)
      ultimately show ?thesis using 2(1) f by simp
    qed
  next
    case 3
    have "delims_loop delim num k seen (c # s) = delims_loop delim num (Suc k) seen s"
      using 3 by (simp add: has_sign_def)
    also have "\<dots> = (if list_all is_number f \<and> list_all signed_field fs \<and> Suc k + length fs \<le> num
        then Some (Suc k + length fs, seen \<or> \<not> list_all (\<lambda>c. \<not> is_number c) s) else None)"
      using 3 "2.IH"(2) \<open>delimiter delim\<close> by (simp add: f has_sign_def)
    finally have step: "delims_loop delim num k seen (c # s) = \<dots>" .
    moreover have "signed_field f \<longleftrightarrow> list_all is_number f"
      using strip_sign_no_sign [OF 3(3) f] by (auto simp: signed_field_def)
    ultimately show ?thesis using 3 f d by auto
  next
    case 4
    then show ?thesis
      using 2 f by (cases "is_number c") auto
  qed
qed

lemma delims_check:
  assumes "delimiter d"
  shows "is_all_numbers_and_has_specified_num_of_delims s d n = 0 \<longleftrightarrow> number_list d n s"
    "is_all_numbers_and_has_specified_num_of_delims s d n \<in> {0, 1}"
proof -
  obtain f fs where f: "split_on d s = f # fs" by (rule split_on_cases)
  define t where "t = (if has_sign s then tl s else s)"
  have t: "split_on d t = strip_sign f # fs" "list_all (\<lambda>c. \<not> is_number c) t = list_all (\<lambda>c. \<not> is_number c) s"
  proof -
    show "split_on d t = strip_sign f # fs"
      using split_on_sign(1) [OF assms _ f] strip_sign_no_sign [OF _ f] f by (simp add: t_def)
    show "list_all (\<lambda>c. \<not> is_number c) t = list_all (\<lambda>c. \<not> is_number c) s"
      by (cases s) (auto simp: t_def has_sign_def)
  qed
  have "is_all_numbers_and_has_specified_num_of_delims s d n =
     (case delims_loop d n 0 False t of None \<Rightarrow> 1
      | Some (c, seen) \<Rightarrow> (if \<not> seen then 1 else if c < n then 1 else 0))"
    by (simp add: is_all_numbers_and_has_specified_num_of_delims_def t_def has_sign_def)
  also have "delims_loop d n 0 False t = (if list_all is_number (strip_sign f) \<and> list_all signed_field fs \<and> length fs \<le> n
      then Some (length fs, \<not> list_all (\<lambda>c. \<not> is_number c) s) else None)"
    using delims_loop_number_list [OF assms, of 0 n False t] by (simp add: t)
  finally show "is_all_numbers_and_has_specified_num_of_delims s d n = 0 \<longleftrightarrow> number_list d n s"
    "is_all_numbers_and_has_specified_num_of_delims s d n \<in> {0, 1}"
    by (auto simp: number_list_def f)
qed
section \<open>Ranges of numbers\<close>

lemma split_on_until:
  "split_on d s = until d s # (case from_delim d s of [] \<Rightarrow> [] | _ # r \<Rightarrow> split_on d r)"
  by (induction s) (auto simp: until_def from_delim_def)

lemma until_from: "s = until d s @ from_delim d s" "from_delim d s = c # r \<Longrightarrow> c = d"
  by (simp_all add: until_def from_delim_def) (metis (full_types) dropWhile_eq_Cons_conv)

lemma from_delim_Nil: "from_delim d s = [] \<longleftrightarrow> d \<notin> set s"
  by (auto simp: from_delim_def)

lemma until_append [simp]: "d \<notin> set a \<Longrightarrow> until d (a @ d # b) = a" "d \<notin> set a \<Longrightarrow> until d a = a"
  by (induction a) (auto simp: until_def)

lemma from_delim_append [simp]: "d \<notin> set a \<Longrightarrow> from_delim d (a @ d # b) = d # b" "d \<notin> set a \<Longrightarrow> from_delim d a = []"
  by (induction a) (auto simp: from_delim_def)

lemma split_on_length_1: "length (split_on d s) = Suc 0 \<longleftrightarrow> d \<notin> set s"
  by (subst split_on_until) (auto simp: from_delim_Nil [symmetric] split: list.splits)

lemma split_on_length_2:
  "length (split_on d s) = Suc (Suc 0) \<longleftrightarrow> (\<exists>a b. s = a @ d # b \<and> d \<notin> set a \<and> d \<notin> set b)"
proof
  assume l: "length (split_on d s) = Suc (Suc 0)"
  then obtain c r where r: "from_delim d s = c # r" by (subst (asm) split_on_until) (auto split: list.splits)
  with l have "length (split_on d r) = Suc 0" by (subst (asm) split_on_until) simp
  then have "d \<notin> set r" by (simp add: split_on_length_1)
  moreover have "s = until d s @ d # r" using until_from(1) [of s d] until_from(2) [OF r] r by simp
  moreover have "d \<notin> set (until d s)" by (auto simp: until_def dest: set_takeWhileD)
  ultimately show "\<exists>a b. s = a @ d # b \<and> d \<notin> set a \<and> d \<notin> set b" by blast
next
  assume "\<exists>a b. s = a @ d # b \<and> d \<notin> set a \<and> d \<notin> set b"
  then obtain a b where s: "s = a @ d # b" "d \<notin> set a" "d \<notin> set b" by blast
  then show "length (split_on d s) = Suc (Suc 0)"
    using split_on_until [of d s] split_on_length_1 [of d b] by simp
qed

lemma split_on_pair:
  assumes "d \<notin> set a" "d \<notin> set b"
  shows "split_on d (a @ d # b) = [a, b]"
proof -
  have "split_on d b = [b]" using assms(2) by (subst split_on_until) simp
  then show ?thesis using assms(1) by (subst split_on_until) simp
qed

lemma signed_field_delim:
  assumes "delimiter d" "list_all is_number (strip_sign f)"
  shows "d \<notin> set f"
proof
  assume "d \<in> set f"
  then have "d \<in> set (strip_sign f) \<or> has_sign f \<and> d = peek f"
    by (cases f) (auto simp: strip_sign_def)
  with assms show False unfolding delimiter_def has_sign_def list_all_iff by blast
qed

text \<open>Two fields: what \<open>1\<close> delimiter means.\<close>

lemma number_list_1:
  assumes "delimiter d"
  shows "number_list d 1 s \<longleftrightarrow>
    (\<exists>a b. s = a @ d # b \<and> list_all is_number (strip_sign a) \<and> signed_field b
       \<and> \<not> list_all (\<lambda>c. \<not> is_number c) (a @ b))"
proof
  assume n: "number_list d 1 s"
  then obtain a b where "s = a @ d # b" "d \<notin> set a" "d \<notin> set b"
    by (auto simp: number_list_def split_on_length_2)
  with n assms show "\<exists>a b. s = a @ d # b \<and> list_all is_number (strip_sign a) \<and> signed_field b
       \<and> \<not> list_all (\<lambda>c. \<not> is_number c) (a @ b)"
    by (intro exI [of _ a] exI [of _ b]) (auto simp: number_list_def split_on_pair delimiter_def)
next
  assume "\<exists>a b. s = a @ d # b \<and> list_all is_number (strip_sign a) \<and> signed_field b
       \<and> \<not> list_all (\<lambda>c. \<not> is_number c) (a @ b)"
  then obtain a b where s: "s = a @ d # b" "list_all is_number (strip_sign a)" "signed_field b"
    "\<not> list_all (\<lambda>c. \<not> is_number c) (a @ b)" by blast
  moreover from s have "d \<notin> set a" "d \<notin> set b"
    using signed_field_delim [OF assms] by (auto simp: signed_field_def)
  ultimately show "number_list d 1 s" by (auto simp: number_list_def split_on_pair)
qed

text \<open>Such a field has no white space, so \<open>strtol\<close> reads all of it, and saturates when it is too long.\<close>

lemma strtol_field:
  assumes "list_all is_number (strip_sign f)"
  shows "strtol f = (let v = signed_digits f in if LONG_MAX < v then (LONG_MAX, True) else if v < LONG_MIN then (LONG_MIN, True) else (v, False))"
proof -
  have "\<not> is_space (peek f)" if "f \<noteq> []"
    using assms that by (cases f) (auto simp: strip_sign_def has_sign_def is_space_def is_number_def split: if_splits)
  then have "dropWhile is_space f = f" by (cases f) auto
  then show ?thesis by (simp add: strtol_def)
qed

lemma strtol_in_range:
  assumes "list_all is_number (strip_sign f)" "LONG_MIN < lo" "hi < LONG_MAX"
  shows "lo \<le> fst (strtol f) \<and> fst (strtol f) \<le> hi \<longleftrightarrow> lo \<le> signed_digits f \<and> signed_digits f \<le> hi"
  using assms(2,3) by (auto simp: strtol_field [OF assms(1)] Let_def)

lemma delimiters [simp]: "delimiter CHR '',''" "delimiter CHR ''.''"
  by (simp_all add: delimiter_def NUL_def)

text \<open>The check of the characters accepts exactly the lists of \<open>n + 1\<close> fields of digits between
  delimiters, each with an optional sign, in which there is a digit; a sign needs a digit after it in every field but
  the first, and a field may be empty.\<close>

theorem delims_language:
  assumes "d \<in> {CHR '','', CHR ''.''}"
  shows "is_all_numbers_and_has_specified_num_of_delims s d n = (if number_list d n s then 0 else 1)"
  using assms delims_check [of d s n] by auto

theorem delims_language_witness:
  "is_all_numbers_and_has_specified_num_of_delims ''66753,-49110'' CHR '','' 1
     = (if number_list CHR '','' 1 ''66753,-49110'' then 0 else 1)"
  by (rule delims_language) simp

text \<open>The timestamps accepted in the \<open>$HOROLOG\<close> format are exactly the pairs of a day between -365 and
  2980013 and a second between 0 and 86399 (a day that is a sign alone counts as 0); the answer does not
  depend on \<open>errno\<close>.\<close>

theorem horolog_timestamps:
  assumes "t \<in> {TIMESTAMP_LITERAL, TIMESTAMP_WITH_TIME_ZONE_LITERAL}"
  shows "fst (validate_date_time_value s t OPTIONAL_DATE_TIME_HOROLOG fmt errno)
    = (if \<exists>a b. s = a @ '','' @ b \<and> list_all is_number (strip_sign a) \<and> a \<noteq> [] \<and> signed_field b \<and> b \<noteq> []
            \<and> - 365 \<le> signed_digits a \<and> signed_digits a \<le> 2980013 \<and> 0 \<le> signed_digits b \<and> signed_digits b \<le> 86399
       then Some 0 else Some 1)"
proof -
  let ?d = "is_all_numbers_and_has_specified_num_of_delims s CHR '','' 1"
  have v: "fst (validate_date_time_value s t OPTIONAL_DATE_TIME_HOROLOG fmt errno)
      = fst (and_then (result ?d) (and_then (is_date_in_horolog_range s) (is_time_in_horolog_range s)) errno)"
    using assms by (auto simp: validate_date_time_value_def validate_horolog_def Let_def)
  show ?thesis
  proof (cases "number_list CHR '','' 1 s")
    case False
    then have "\<not> (\<exists>a b. s = a @ '','' @ b \<and> list_all is_number (strip_sign a) \<and> a \<noteq> [] \<and> signed_field b \<and> b \<noteq> [])"
    proof -
      have "\<not> list_all (\<lambda>c. \<not> is_number c) b" if "signed_field b" "b \<noteq> []" for b
        using that by (cases b; cases "tl b") (auto simp: signed_field_def strip_sign_def split: if_splits)
      with False show ?thesis unfolding number_list_1 [OF delimiters(1)] by auto
    qed
    moreover have "?d = 1" using False delims_check [of "CHR '',''" s 1] by auto
    ultimately show ?thesis unfolding v by (simp add: and_then_def result_def) blast
  next
    case True
    then obtain a b where s: "s = a @ CHR '','' # b" "list_all is_number (strip_sign a)" "signed_field b"
      unfolding number_list_1 [OF delimiters(1)] by blast
    then have b: "list_all is_number (strip_sign b)" by (simp add: signed_field_def)
    have c: "CHR '','' \<notin> set a" "CHR '','' \<notin> set b"
      using s b signed_field_delim [OF delimiters(1)] by auto
    then have unique: "s = a' @ CHR '','' # b' \<longleftrightarrow> a' = a \<and> b' = b" if "CHR '','' \<notin> set a'" for a' b'
      using that s(1) by (metis from_delim_append(1) list.inject until_append(1))
    have "?d = 0" using True delims_check [of "CHR '',''" s 1] by auto
    moreover have "fst (and_then (is_date_in_horolog_range s) (is_time_in_horolog_range s) errno)
       = (if a \<noteq> [] \<and> - 365 \<le> signed_digits a \<and> signed_digits a \<le> 2980013
             \<and> b \<noteq> [] \<and> 0 \<le> signed_digits b \<and> signed_digits b \<le> 86399 then Some 0 else Some 1)"
      using strtol_in_range [OF s(2), of "- 365" 2980013] strtol_in_range [OF b, of 0 86399] c
      by (auto simp: s(1) and_then_def is_date_in_horolog_range_def is_time_in_horolog_range_def LONG_MIN_def LONG_MAX_def
          Let_def split: prod.splits)
    moreover have "(\<exists>a' b'. s = a' @ '','' @ b' \<and> list_all is_number (strip_sign a') \<and> a' \<noteq> [] \<and> signed_field b' \<and> b' \<noteq> []
            \<and> - 365 \<le> signed_digits a' \<and> signed_digits a' \<le> 2980013 \<and> 0 \<le> signed_digits b' \<and> signed_digits b' \<le> 86399)
       \<longleftrightarrow> a \<noteq> [] \<and> - 365 \<le> signed_digits a \<and> signed_digits a \<le> 2980013
             \<and> b \<noteq> [] \<and> 0 \<le> signed_digits b \<and> signed_digits b \<le> 86399"
      using unique signed_field_delim [OF delimiters(1)] s by (simp, blast)
    ultimately show ?thesis unfolding v by (simp add: and_then_def [of "result _"] result_def)
  qed
qed

theorem horolog_timestamps_witness:
  "fst (validate_date_time_value ''66753,49110'' TIMESTAMP_LITERAL OPTIONAL_DATE_TIME_HOROLOG [] False)
    = (if \<exists>a b. ''66753,49110'' = a @ '','' @ b \<and> list_all is_number (strip_sign a) \<and> a \<noteq> [] \<and> signed_field b \<and> b \<noteq> []
            \<and> - 365 \<le> signed_digits a \<and> signed_digits a \<le> 2980013 \<and> 0 \<le> signed_digits b \<and> signed_digits b \<le> 86399
       then Some 0 else Some 1)"
  by (rule horolog_timestamps) simp
section \<open>FileMan times and \<open>errno\<close>\<close>

lemma int_of_long_small: "- 2147483648 \<le> v \<Longrightarrow> v \<le> 2147483647 \<Longrightarrow> int_of_long v = v"
  by (simp add: int_of_long_def signed_of_int signed_take_bit_int_eq_self)

text \<open>A short run of digits is read as its value when \<open>errno\<close> is clear.\<close>

lemma with_atoi_digits:
  assumes "list_all is_number ds" "ds \<noteq> []" "length ds \<le> 3"
  shows "with_atoi ds k False = k (int (nat_of_digits ds)) False"
proof -
  have "nat_of_digits ds < 10 ^ length ds" by (rule nat_of_digits_bound) fact
  also have "\<dots> \<le> 10 ^ 3" using assms(3) by (intro power_increasing) auto
  finally have n: "int (nat_of_digits ds) < 1000" by simp
  then have "strtol ds = (int (nat_of_digits ds), False)"
    using assms by (intro strtol_digits) (auto simp: LONG_MAX_def)
  with n show ?thesis by (simp add: with_atoi_def ATOI_def int_of_long_small)
qed

lemma with_atoi_errno: "with_atoi ds k True = (Some 1, True)"
  by (simp add: with_atoi_def ATOI_def split: prod.splits)

text \<open>
  A time of day as FileMan writes it: the six digits \<open>hhmmss\<close> without their trailing zeros.
\<close>

definition fileman_digits :: "string \<Rightarrow> string" where
  "fileman_digits t = t @ replicate (6 - length t) CHR ''0''"

definition fileman_time_ok :: "string \<Rightarrow> bool" where
  "fileman_time_ok t \<longleftrightarrow>
     (let hhmmss = fileman_digits t; hour = nat_of_digits (take 2 hhmmss);
          min = nat_of_digits (take 2 (drop 2 hhmmss)); sec = nat_of_digits (drop 4 hhmmss)
      in length t \<le> 6 \<and> t \<noteq> ''10'' \<and> t \<noteq> ''20''
         \<and> (hour = 24 \<and> min = 0 \<and> sec = 0 \<or> hour \<le> 23 \<and> min \<le> 59 \<and> sec \<le> 59))"

lemma two_digits_eq:
  assumes "is_number a" "is_number b"
  shows "10 * digit_val a + digit_val b = 10 \<longleftrightarrow> [a, b] = ''10''" "10 * digit_val a + digit_val b = 20 \<longleftrightarrow> [a, b] = ''20''"
  using assms digit_val_bound [of a] digit_val_bound [of b] by (auto simp: digit_eq, presburger+)

lemma nat_of_digits_two: "nat_of_digits [a, b] = 10 * digit_val a + digit_val b"
  by (simp add: nat_of_digits_Cons)

lemma length_le_6:
  assumes "length t \<le> 6"
  obtains "t = []" | a where "t = [a]" | a b where "t = [a, b]" | a b c where "t = [a, b, c]"
    | a b c d where "t = [a, b, c, d]" | a b c d e where "t = [a, b, c, d, e]"
    | a b c d e f where "t = [a, b, c, d, e, f]"
  using assms by (auto simp: numeral_eq_Suc le_Suc_eq length_Suc_conv)

text \<open>The time of day of a FileMan value is accepted exactly when its digits, filled up with zeros on
  the right to \<open>hhmmss\<close>, are a time of day or 24 hours, and the hours 10 and 20 are not written with their
  zero. The one exception is a single digit, which is an hour of ten or more: every one is accepted, also
  3 to 9 (30 to 90 hours), although the code means to reject them.\<close>

theorem fileman_times:
  assumes "list_all is_number t" "CHR ''.'' \<notin> set date"
  shows "is_time_in_fileman_range (date @ ''.'' @ t) False
    = (Some (if length t = 1 \<or> fileman_time_ok t then 0 else 1), False)"
proof (cases "length t \<le> 6")
  case False
  then show ?thesis
    using assms(2) by (auto simp: is_time_in_fileman_range_def fileman_time_ok_def Let_def)
next
  case True
  have d: "digit_val c \<le> 9" if "is_number c" for c using digit_val_bound [OF that] by simp
  note a = with_atoi_digits is_time_in_fileman_range_def fileman_time_ok_def fileman_digits_def Let_def nat_of_digits_two
    two_digits_eq
  from True show ?thesis
  proof (cases rule: length_le_6)
    case 1
    then show ?thesis using assms by (simp add: a numeral_eq_Suc)
  next
    case (2 c)
    then show ?thesis using assms by (simp add: a numeral_eq_Suc)
  next
    case (3 c d)
    then show ?thesis using assms two_digits_eq [of c d] by (auto simp: a numeral_eq_Suc)
  next
    case (4 c d e)
    then show ?thesis using assms by (auto simp: a numeral_eq_Suc)
  next
    case (5 c d e f)
    then show ?thesis using assms by (auto simp: a numeral_eq_Suc)
  next
    case (6 c d e f g)
    then show ?thesis using assms by (auto simp: a numeral_eq_Suc)
  next
    case (7 c d e f g h)
    then show ?thesis using assms by (auto simp: a numeral_eq_Suc)
  qed
qed

theorem fileman_times_witness:
  "is_time_in_fileman_range (''2960124'' @ ''.'' @ ''1626'') False
    = (Some (if length ''1626'' = 1 \<or> fileman_time_ok ''1626'' then 0 else 1), False)"
  by (rule fileman_times) code_simp+
lemma digits_delims:
  assumes "list_all is_number s" "s \<noteq> []" "delimiter d"
  shows "is_all_numbers_and_has_specified_num_of_delims s d 0 = 0"
proof -
  have n: "\<not> has_sign s" "d \<notin> set s" "strip_sign s = s" "\<not> list_all (\<lambda>c. \<not> is_number c) s"
    using assms by (cases s; auto simp: has_sign_def strip_sign_def delimiter_def list_all_iff)+
  then have "split_on d s = [s]" using split_on_until [of d s] by simp
  with n assms have "number_list d 0 s" by (simp add: number_list_def)
  then show ?thesis using delims_check(1) [OF assms(3)] by simp
qed

lemma fileman_date_errno: "is_date_in_fileman_range s True = (Some 1, True)"
  by (simp add: is_date_in_fileman_range_def with_atoi_errno)

text \<open>One date with too many digits makes every later FileMan literal invalid. Reading it sets \<open>errno\<close>, the date is
  rejected as it should be, but \<open>errno\<close> stays, and \<open>ATOI\<close> takes it for an error of its own call.\<close>

theorem errno_sticks:
  assumes "list_all is_number big" "LONG_MAX < int (nat_of_digits big)"
    and "t \<in> {DATE_LITERAL, TIMESTAMP_LITERAL, TIMESTAMP_WITH_TIME_ZONE_LITERAL}"
  shows "fst (validate_date_time_value big DATE_LITERAL OPTIONAL_DATE_TIME_HOROLOG fmt errno) = Some 1
    \<and> fst (validate_date_time_value s t OPTIONAL_DATE_TIME_FILEMAN fmt
        (snd (validate_date_time_value big DATE_LITERAL OPTIONAL_DATE_TIME_HOROLOG fmt errno))) \<noteq> Some 0"
proof -
  have ne: "big \<noteq> []" using assms(2) by (auto simp: LONG_MAX_def)
  then have "until CHR '','' big = big"
    using assms(1) by (intro until_append(2)) (auto simp: list_all_iff)
  moreover have "strtol big = (LONG_MAX, True)"
    using assms(1,2) signed_digits_digits [OF assms(1) ne] strtol_field [of big] ne
    by (cases big) (auto simp: strip_sign_def has_sign_def)
  ultimately have "is_date_in_horolog_range big errno = (Some 1, True)"
    using ne by (simp add: is_date_in_horolog_range_def LONG_MAX_def)
  then have "validate_date_time_value big DATE_LITERAL OPTIONAL_DATE_TIME_HOROLOG fmt errno = (Some 1, True)"
    using digits_delims [OF assms(1) ne]
    by (simp add: validate_date_time_value_def validate_horolog_def Let_def and_then_def result_def or_else_def)
  moreover have "fst (validate_date_time_value s t OPTIONAL_DATE_TIME_FILEMAN fmt True) \<noteq> Some 0"
    using assms(3) fileman_date_errno [of s]
    by (auto simp: validate_date_time_value_def validate_fileman_def Let_def and_then_def result_def)
  ultimately show ?thesis by simp
qed

theorem errno_sticks_witness:
  "fst (validate_date_time_value ''99999999999999999999'' DATE_LITERAL OPTIONAL_DATE_TIME_HOROLOG [] False) = Some 1
    \<and> fst (validate_date_time_value ''2960124.16'' TIMESTAMP_LITERAL OPTIONAL_DATE_TIME_FILEMAN []
        (snd (validate_date_time_value ''99999999999999999999'' DATE_LITERAL OPTIONAL_DATE_TIME_HOROLOG [] False))) \<noteq> Some 0"
  by (rule errno_sticks) (simp_all add: is_number_def nat_of_digits_Cons digit_val_def LONG_MAX_def)

text \<open>After the period of a FileMan timestamp a sign and one digit are accepted, so that the time of day can be
  minus nine hours: the check of the characters allows a sign there, and the hour is only compared with upper bounds.\<close>

theorem fileman_signed_hour:
  assumes "list_all is_number date" "is_date_in_fileman_range date False = (Some 0, False)"
    and "sg = CHR ''+'' \<or> sg = CHR ''-''" "is_number c"
  shows "validate_date_time_value (date @ ''.'' @ [sg, c]) TIMESTAMP_LITERAL OPTIONAL_DATE_TIME_FILEMAN fmt False = (Some 0, False)"
proof -
  have dot: "CHR ''.'' \<notin> set date" using assms(1) by (auto simp: list_all_iff)
  have len: "length date = 7"
    using assms(2) dot by (auto simp: is_date_in_fileman_range_def split: if_splits)
  then obtain x r where date: "date = x # r" by (cases date) auto
  have peek_date: "peek (date @ z) = peek date" for z using date by simp
  have "is_date_in_fileman_range (date @ ''.'' @ [sg, c]) False = is_date_in_fileman_range date False"
    using len dot by (simp add: is_date_in_fileman_range_def peek_date)
  moreover have "is_time_in_fileman_range (date @ ''.'' @ [sg, c]) False = (Some 0, False)"
  proof -
    have "strtol [sg, c] = (if sg = CHR ''-'' then - int (digit_val c) else int (digit_val c), False)"
      using assms(3,4) digit_val_bound [OF assms(4)]
      by (auto simp: strtol_field strip_sign_def has_sign_def signed_digits_def LONG_MAX_def LONG_MIN_def)
    then have "with_atoi [sg, c] k False = k (if sg = CHR ''-'' then - int (digit_val c) else int (digit_val c)) False" for k
      using digit_val_bound [OF assms(4)] by (simp add: with_atoi_def ATOI_def int_of_long_small)
    then show ?thesis
      using dot digit_val_bound [OF assms(4)] by (simp add: is_time_in_fileman_range_def with_atoi_digits nat_of_digits_two)
  qed
  moreover have "number_list CHR ''.'' 1 (date @ ''.'' @ [sg, c])"
  proof -
    have "\<not> has_sign date" using assms(1) date by (auto simp: has_sign_def)
    then have "strip_sign date = date" by (simp add: strip_sign_def)
    then show ?thesis
      unfolding number_list_1 [OF delimiters(2)] using assms
      by (intro exI [of _ date] exI [of _ "[sg, c]"]) (auto simp: signed_field_def strip_sign_def has_sign_def)
  qed
  ultimately show ?thesis
    using assms(2) delims_check(1) [of "CHR ''.''"]
    by (simp add: validate_date_time_value_def validate_fileman_def Let_def and_then_def result_def or_else_def)
qed

theorem fileman_signed_hour_witness:
  "validate_date_time_value (''2960124'' @ ''.'' @ ''-9'') TIMESTAMP_LITERAL OPTIONAL_DATE_TIME_FILEMAN [] False = (Some 0, False)"
  by (rule fileman_signed_hour) code_simp+
section \<open>Printed timestamps are accepted\<close>

lemma length_show_nat_ge:
  assumes "10 ^ k \<le> n"
  shows "k < length (show_nat n)"
proof (rule ccontr)
  assume "\<not> k < length (show_nat n)"
  then have "n < 10 ^ k"
    using nat_of_digits_bound [OF show_nat_digits [of n]] power_increasing [of "length (show_nat n)" k "10 :: nat"]
    by (metis linorder_not_less nat_of_digits_show_nat one_le_numeral order_less_le_trans)
  with assms show False by simp
qed

lemma is_year_valid_show_int:
  assumes "1 \<le> y" "y \<le> 9999"
  shows "is_year_valid (show_int y @ CHR ''-'' # r) = (if 1000 \<le> y then Some (CHR ''-'' # r) else None)"
proof -
  let ?ds = "show_nat (nat y)"
  have s: "show_int y = ?ds" using assms by (simp add: show_int_def)
  have n: "list_all is_number ?ds" "nat_of_digits ?ds = nat y" by simp_all
  show ?thesis
  proof (cases "1000 \<le> y")
    case True
    have "length ?ds \<le> 4" using assms by (intro length_show_nat_4) auto
    moreover have "3 < length ?ds" using True by (intro length_show_nat_ge) auto
    ultimately show ?thesis
      using True assms n by (simp add: s year.scan_accepts)
  next
    case False
    then have l: "length ?ds \<le> 3" using length_show_nat_less [of "nat y" 2] by simp
    have "is_year_valid (?ds @ CHR ''-'' # r) \<noteq> Some q" for q
    proof
      assume "is_year_valid (?ds @ CHR ''-'' # r) = Some q"
      then obtain a b c d where "?ds @ CHR ''-'' # r = [a, b, c, d] @ q" "list_all is_number [a, b, c, d]"
        by (auto simp: is_year_valid_digits)
      then have "(?ds @ CHR ''-'' # r) ! length ?ds = ([a, b, c, d] @ q) ! length ?ds" "list_all is_number [a, b, c, d]"
        by simp_all
      with l show False by (auto simp: nth_append le_Suc_eq numeral_eq_Suc)
    qed
    with False show ?thesis by (cases "is_year_valid (?ds @ CHR ''-'' # r)") (auto simp: s)
  qed
qed

lemma show_padded_2_field:
  assumes "0 \<le> v" "v \<le> 99"
  shows "list_all is_number (show_padded 2 v)" "length (show_padded 2 v) = 2" "nat_of_digits (show_padded 2 v) = nat v"
  using assms length_show_nat_2 [of "nat v"]
  by (simp_all add: show_padded_digits length_show_padded nat_of_digits_show_padded)

lemma scan_show_padded:
  assumes "0 \<le> v"
  shows "v \<le> 59 \<Longrightarrow> is_min_valid (show_padded 2 v @ r) = Some r"
    "v \<le> 23 \<Longrightarrow> hour_digits (show_padded 2 v @ r) = Some r"
    "v \<le> 60 \<Longrightarrow> second_digits (show_padded 2 v @ r) = Some r"
    "1 \<le> v \<Longrightarrow> v \<le> 12 \<Longrightarrow> is_month_valid (show_padded 2 v @ r) = Some r"
    "1 \<le> v \<Longrightarrow> v \<le> 31 \<Longrightarrow> is_date_valid (show_padded 2 v @ r) = Some r"
  using assms show_padded_2_field [of v]
  by (auto intro!: minute.scan_accepts hour.scan_accepts second.scan_accepts month.scan_accepts day.scan_accepts)

lemma peek_show_padded:
  assumes "0 \<le> v" "v \<le> 99"
  shows "is_number (peek (show_padded 2 v @ r))"
  using show_padded_2_field [OF assms] by (cases "show_padded 2 v") auto

lemma micro_loop_digits: "list_all is_number ds \<Longrightarrow> length ds \<le> n \<Longrightarrow> micro_loop n ds = Some []"
proof (induction n arbitrary: ds)
  case (Suc n)
  then show ?case by (cases ds) (auto simp: is_end_def is_gmt_offset_def)
qed simp

lemma is_microsecond_valid_fraction:
  assumes "micro_ok m"
  shows "is_microsecond_valid (fraction m) = Some []"
proof (cases "m = 0")
  case True
  then show ?thesis by (simp add: is_microsecond_valid_def fraction_def NUL_def)
next
  case False
  let ?t = "trim_zeros (show_padded 6 m)"
  have t: "list_all is_number ?t" "length ?t \<le> 6"
    using length_trim_zeros [of "show_padded 6 m"] by (simp_all add: trim_zeros_digits micro_digits [OF assms])
  have "?t \<noteq> []"
  proof
    assume e: "?t = []"
    have "nat_of_digits (show_padded 6 m) = 0"
      using trim_zeros_split [of "show_padded 6 m"] nat_of_digits_zeros [of _ "[]"] unfolding e by (metis append_Nil append_Nil2 nat_of_digits_Nil)
    with False assms show False by (simp add: micro_digits [OF assms] micro_ok_def)
  qed
  with t False show ?thesis
    by (cases ?t) (auto simp: is_microsecond_valid_def fraction_def trim_zeros_Cons is_end_def micro_loop_digits simp del: micro_loop.simps)
qed

lemma is_sec_valid_text:
  assumes "0 \<le> v" "v \<le> 60" "micro_ok m"
  shows "is_sec_valid (show_padded 2 v @ fraction m) = Some []"
proof -
  have "\<not> is_sec_end (show_padded 2 v @ fraction m)"
    using peek_show_padded [of v "fraction m"] assms by (auto simp: is_sec_end_def is_end_def is_gmt_offset_def)
  then show ?thesis
    using assms by (simp add: is_sec_valid_def scan_show_padded is_microsecond_valid_fraction)
qed

text \<open>C10: The text of a timestamp is accepted by the validation when its year has four digits, and only then:
  the years before 1000 are printed without leading zeros, and \<open>IS_YEAR_VALID\<close> wants four digits. So from the year
  1000 on every value that is printed can be entered again.\<close>

theorem printed_timestamp_is_valid:
  assumes "- 62135596800 \<le> s" "s \<le> 253402300799" "micro_ok m"
    and "ydboctoDateTimeInternalFormat2TextC env (internal s m) TIMESTAMP_LITERAL date_time_format = Some v"
  shows "ydboctoValidateDateTimeValueC v TIMESTAMP_LITERAL OPTIONAL_DATE_TIME_TEXT date_time_format errno
    = (Some (if 1000 \<le> tm_year (gmtime s) + 1900 then 0 else 1), errno)"
proof -
  let ?t = "gmtime s"
  have v: "v = date_time_text ?t @ fraction m"
    using timestamp_text_round_trip [OF assms(1-3), of env] assms(4) by simp
  have c: "civil_ok ?t" "1 \<le> tm_year ?t + 1900" using gmtime_civil [OF assms(1,2)] by simp_all
  have "NUL \<notin> set v"
    using date_time_text_plain [OF c(1)] fraction_no_nul [OF assms(3)] by (auto simp: v plain_date_text_def list_all_iff)
  then have cv: "c_str v = v" by (rule c_str_no_nul)
  have fmt: "c_str date_time_format = date_time_format" by code_simp
  have f: "0 \<le> tm_mon ?t + 1" "1 \<le> tm_mon ?t + 1" "tm_mon ?t + 1 \<le> 12" "0 \<le> tm_mday ?t" "1 \<le> tm_mday ?t" "tm_mday ?t \<le> 31"
    "0 \<le> tm_hour ?t" "tm_hour ?t \<le> 23" "0 \<le> tm_min ?t" "tm_min ?t \<le> 59" "0 \<le> tm_sec ?t" "tm_sec ?t \<le> 60" "tm_year ?t + 1900 \<le> 9999"
    using c(1) by (auto simp: civil_ok_def)
  have pk: "peek (show_padded 2 (tm_hour ?t) @ r) \<noteq> d" if "\<not> is_number d" for d r
    using peek_show_padded [of "tm_hour ?t" r] f that by auto
  have hour: "is_hour_valid (show_padded 2 (tm_hour ?t) @ r) = Some r" "\<not> is_end (show_padded 2 (tm_hour ?t) @ r)" for r
    using f pk by (simp_all add: is_hour_valid_def is_end_def scan_show_padded)
  have sp: "skip_spaces v = v" "skip_spaces (CHR '' '' # show_padded 2 (tm_hour ?t) @ r) = show_padded 2 (tm_hour ?t) @ r" for r
  proof -
    have id: "skip_spaces q = q" if "peek q \<noteq> CHR '' ''" for q using that by (cases q) (auto simp: skip_spaces_def)
    have "is_number (peek (show_nat n @ q))" for n q
      using show_nat_digits [of n] show_nat_nonempty [of n] by (cases "show_nat n") auto
    then have "peek v \<noteq> CHR '' ''" using c(2) by (auto simp: v date_time_text_def show_int_def)
    then show "skip_spaces v = v" by (rule id)
    have "skip_spaces (CHR '' '' # q) = skip_spaces q" for q by (simp add: skip_spaces_def)
    then show "skip_spaces (CHR '' '' # show_padded 2 (tm_hour ?t) @ r) = show_padded 2 (tm_hour ?t) @ r"
      using pk by (simp add: id)
  qed
  have "format_loop TIMESTAMP_LITERAL date_time_format v False False False
      = (if 1000 \<le> tm_year ?t + 1900 then Go_on [] True True True else Return 1)"
    unfolding v date_time_format_def date_time_text_def using f c(2) assms(3)
    by (simp add: format_simps is_year_valid_show_int scan_show_padded hour sp is_sec_valid_text)
  then show ?thesis
    by (simp add: ydboctoValidateDateTimeValueC_def validate_date_time_value_def is_date_time_literal_in_valid_format_def
        cv fmt sp is_end_def)
qed

theorem printed_timestamp_is_valid_witness:
  "ydboctoValidateDateTimeValueC ''1969-12-31 23:59:59.5'' TIMESTAMP_LITERAL OPTIONAL_DATE_TIME_TEXT date_time_format False
    = (Some (if 1000 \<le> tm_year (gmtime (- 1)) + 1900 then 0 else 1), False)"
  by (rule printed_timestamp_is_valid [where m = 500000 and env = "fixed_zone 0 0"]) code_simp+

end
