(* ===== verification/TypeCheck.thy ===== *)
theory TypeCheck
  imports OctoTypes "HOL-Library.Monad_Syntax"
begin

text \<open>
  The types of expressions: the names and conversions of types (\<open>get_user_visible_type_string.c\<close>,
  \<open>get_sqldatatype_from_sqlvaluetype.c\<close>, \<open>get_sqlvaluetype_from_sqldatatype.c\<close>,
  \<open>get_psql_type_from_sqlvaluetype.c\<close>, \<open>get_sqlvaluetype_from_psql_type.c\<close>), the macros of
  \<open>octo_type_check.h\<close>, among them \<open>CAST_AMBIGUOUS_TYPES\<close>, and the checks of \<open>ensure_same_type.c\<close> and
  \<open>unary_operation_data_type_check.c\<close>.

  The errors that a check reports (\<open>ERROR\<close>, each followed by \<open>yyerror\<close>, which prints the place) are collected in a
  list. \<open>None\<close> is a failed \<open>assert\<close> or an access outside an array.
  Of the parse tree the model has the statements that the checks look into, with the fields they read.
\<close>

section \<open>Names and conversions of types\<close>

definition get_user_visible_type_string :: "SqlValueType \<Rightarrow> string option" where
  "get_user_visible_type_string type =
     (case type of
        BOOLEAN_VALUE \<Rightarrow> Some ''BOOLEAN''
      | NUMERIC_LITERAL \<Rightarrow> Some ''NUMERIC''
      | INTEGER_LITERAL \<Rightarrow> Some ''INTEGER''
      | BOOLEAN_OR_STRING_LITERAL \<Rightarrow> Some ''VARCHAR''
      | STRING_LITERAL \<Rightarrow> Some ''VARCHAR''
      | TABLE_ASTERISK \<Rightarrow> Some ''TABLENAME.*''
      | PARAMETER_VALUE \<Rightarrow> Some ''PARAMETER''
      | NUL_VALUE \<Rightarrow> Some ''NULL''
      | DATE_LITERAL \<Rightarrow> Some ''DATE''
      | TIME_LITERAL \<Rightarrow> Some ''TIME''
      | TIME_WITH_TIME_ZONE_LITERAL \<Rightarrow> Some ''TIME WITH TIME ZONE''
      | TIMESTAMP_LITERAL \<Rightarrow> Some ''TIMESTAMP''
      | TIMESTAMP_WITH_TIME_ZONE_LITERAL \<Rightarrow> Some ''TIMESTAMP WITH TIME ZONE''
      | _ \<Rightarrow> None)"

definition MAX_TYPE_NAME_LEN :: nat where "MAX_TYPE_NAME_LEN = 25"

definition get_sqldatatype_from_sqlvaluetype :: "SqlValueType \<Rightarrow> SqlDataType option" where
  "get_sqldatatype_from_sqlvaluetype type =
     (case type of
        BOOLEAN_VALUE \<Rightarrow> Some BOOLEAN_TYPE
      | INTEGER_LITERAL \<Rightarrow> Some INTEGER_TYPE
      | NUMERIC_LITERAL \<Rightarrow> Some NUMERIC_TYPE
      | STRING_LITERAL \<Rightarrow> Some STRING_TYPE
      | NUL_VALUE \<Rightarrow> Some NUL_TYPE
      | DATE_LITERAL \<Rightarrow> Some DATE_TYPE
      | TIME_LITERAL \<Rightarrow> Some TIME_TYPE
      | TIME_WITH_TIME_ZONE_LITERAL \<Rightarrow> Some TIME_WITH_TIME_ZONE_TYPE
      | TIMESTAMP_LITERAL \<Rightarrow> Some TIMESTAMP_TYPE
      | TIMESTAMP_WITH_TIME_ZONE_LITERAL \<Rightarrow> Some TIMESTAMP_WITH_TIME_ZONE_TYPE
      | _ \<Rightarrow> None)"

definition get_sqlvaluetype_from_sqldatatype :: "SqlDataType \<Rightarrow> bool \<Rightarrow> SqlValueType option" where
  "get_sqlvaluetype_from_sqldatatype type is_unknown_type_okay =
     (case type of
        BOOLEAN_TYPE \<Rightarrow> Some BOOLEAN_VALUE
      | INTEGER_TYPE \<Rightarrow> Some INTEGER_LITERAL
      | NUMERIC_TYPE \<Rightarrow> Some NUMERIC_LITERAL
      | STRING_TYPE \<Rightarrow> Some STRING_LITERAL
      | NUL_TYPE \<Rightarrow> Some NUL_VALUE
      | DATE_TYPE \<Rightarrow> Some DATE_LITERAL
      | TIME_TYPE \<Rightarrow> Some TIME_LITERAL
      | TIME_WITH_TIME_ZONE_TYPE \<Rightarrow> Some TIME_WITH_TIME_ZONE_LITERAL
      | TIMESTAMP_TYPE \<Rightarrow> Some TIMESTAMP_LITERAL
      | TIMESTAMP_WITH_TIME_ZONE_TYPE \<Rightarrow> Some TIMESTAMP_WITH_TIME_ZONE_LITERAL
      | UNKNOWN_SqlDataType \<Rightarrow> (if is_unknown_type_okay then Some UNKNOWN_SqlValueType else None))"

datatype PSQL_TypeOid =
    PSQL_TypeOid_bool | PSQL_TypeOid_int8 | PSQL_TypeOid_int2 | PSQL_TypeOid_int4 | PSQL_TypeOid_unknown
  | PSQL_TypeOid_varchar | PSQL_TypeOid_numeric | PSQL_TypeOid_date | PSQL_TypeOid_time | PSQL_TypeOid_timetz
  | PSQL_TypeOid_timestamp | PSQL_TypeOid_timestamptz

definition get_psql_type_from_sqlvaluetype :: "SqlValueType \<Rightarrow> PSQL_TypeOid option" where
  "get_psql_type_from_sqlvaluetype type =
     (case type of
        BOOLEAN_VALUE \<Rightarrow> Some PSQL_TypeOid_bool
      | INTEGER_LITERAL \<Rightarrow> Some PSQL_TypeOid_int4
      | NUMERIC_LITERAL \<Rightarrow> Some PSQL_TypeOid_numeric
      | STRING_LITERAL \<Rightarrow> Some PSQL_TypeOid_varchar
      | PARAMETER_VALUE \<Rightarrow> Some PSQL_TypeOid_unknown
      | NUL_VALUE \<Rightarrow> Some PSQL_TypeOid_unknown
      | DATE_LITERAL \<Rightarrow> Some PSQL_TypeOid_date
      | TIME_LITERAL \<Rightarrow> Some PSQL_TypeOid_time
      | TIME_WITH_TIME_ZONE_LITERAL \<Rightarrow> Some PSQL_TypeOid_timetz
      | TIMESTAMP_LITERAL \<Rightarrow> Some PSQL_TypeOid_timestamp
      | TIMESTAMP_WITH_TIME_ZONE_LITERAL \<Rightarrow> Some PSQL_TypeOid_timestamptz
      | _ \<Rightarrow> None)"

definition get_sqlvaluetype_from_psql_type :: "PSQL_TypeOid \<Rightarrow> SqlValueType option" where
  "get_sqlvaluetype_from_psql_type type =
     (case type of
        PSQL_TypeOid_int2 \<Rightarrow> Some INTEGER_LITERAL
      | PSQL_TypeOid_int4 \<Rightarrow> Some INTEGER_LITERAL
      | PSQL_TypeOid_int8 \<Rightarrow> Some INTEGER_LITERAL
      | PSQL_TypeOid_numeric \<Rightarrow> Some NUMERIC_LITERAL
      | PSQL_TypeOid_varchar \<Rightarrow> Some STRING_LITERAL
      | PSQL_TypeOid_date \<Rightarrow> Some DATE_LITERAL
      | PSQL_TypeOid_time \<Rightarrow> Some TIME_LITERAL
      | PSQL_TypeOid_timetz \<Rightarrow> Some TIME_WITH_TIME_ZONE_LITERAL
      | PSQL_TypeOid_timestamp \<Rightarrow> Some TIMESTAMP_LITERAL
      | PSQL_TypeOid_timestamptz \<Rightarrow> Some TIMESTAMP_WITH_TIME_ZONE_LITERAL
      | _ \<Rightarrow> None)"

definition IS_BOOLEAN_TYPE :: "SqlValueType \<Rightarrow> bool" where
  "IS_BOOLEAN_TYPE t \<longleftrightarrow> t = BOOLEAN_VALUE \<or> t = BOOLEAN_OR_STRING_LITERAL \<or> t = NUL_VALUE"

definition IS_STRING_TYPE :: "SqlValueType \<Rightarrow> bool" where
  "IS_STRING_TYPE t \<longleftrightarrow> t = STRING_LITERAL \<or> t = BOOLEAN_OR_STRING_LITERAL \<or> t = NUL_VALUE"

definition IS_DATE_TIME_TYPE :: "SqlValueType \<Rightarrow> bool" where
  "IS_DATE_TIME_TYPE t \<longleftrightarrow> t = DATE_LITERAL \<or> t = TIME_LITERAL \<or> t = TIME_WITH_TIME_ZONE_LITERAL
     \<or> t = TIMESTAMP_LITERAL \<or> t = TIMESTAMP_WITH_TIME_ZONE_LITERAL"

definition IS_TIME :: "SqlValueType \<Rightarrow> bool" where
  "IS_TIME t \<longleftrightarrow> t = TIME_LITERAL \<or> t = TIME_WITH_TIME_ZONE_LITERAL"

definition IS_TIMESTAMP :: "SqlValueType \<Rightarrow> bool" where
  "IS_TIMESTAMP t \<longleftrightarrow> t = TIMESTAMP_LITERAL \<or> t = TIMESTAMP_WITH_TIME_ZONE_LITERAL"

section \<open>Parameters and ambiguous types\<close>

datatype type_error =
    ERR_FEATURE_NOT_IMPLEMENTED string
  | ERR_TYPE_MISMATCH string string
  | ERR_TYPE_NOT_COMPATIBLE string string
  | ERR_INVALID_INPUT_SYNTAX string
  | ERR_INVALID_BOOLEAN_SYNTAX string
  | ERR_NOT_OPERATION_TYPE_MISMATCH string
  | ERR_TABLE_ASTERISK_SCALAR_COMPARISON
  | ERR_TABLE_ASTERISK_COLUMN_COUNT_MISMATCH nat nat
  | ERR_TABLE_ASTERISK_COLUMN_TYPE_MISMATCH string string

text \<open>
  The fields of \<open>ParseContext\<close> that the checks use: the number of the last parameter that was visited, and the
  array of the types of the parameters, whose length is \<open>types_size\<close> (\<open>None\<close> is a zero entry).
\<close>

record parse_context =
  cur_param_num :: nat
  param_types :: "PSQL_TypeOid option list"

definition INT16_MAX :: nat where "INT16_MAX = 32767"

text \<open>\<open>EXPAND_ARRAY_ALLOCATION\<close> and \<open>DOUBLE_ARRAY_ALLOCATION\<close> copy the array and fill it up with zeros.\<close>

definition expand_array :: "nat \<Rightarrow> 'a option list \<Rightarrow> 'a option list option" where
  "expand_array new_size xs = (if new_size < length xs then None else Some (xs @ replicate (new_size - length xs) None))"

definition double_array :: "nat \<Rightarrow> 'a option list \<Rightarrow> 'a option list option" where
  "double_array limit xs =
     (let new_size = (if 0 < limit \<and> limit < length xs * 2 then limit else length xs * 2) in expand_array new_size xs)"

definition grow_types :: "nat \<Rightarrow> 'a option list \<Rightarrow> 'a option list option" where
  "grow_types cur types =
     (if cur \<ge> length types then
        (if cur > 2 * length types then Option.bind (expand_array cur types) (double_array INT16_MAX)
         else double_array INT16_MAX types)
      else Some types)"

text \<open>The type of the last parameter is set to that of the other operand.\<close>

definition set_parameter_type :: "SqlValueType \<Rightarrow> parse_context option \<Rightarrow> parse_context option option" where
  "set_parameter_type t ctx =
     (case ctx of
        None \<Rightarrow> Some None
      | Some c \<Rightarrow>
          (if cur_param_num c = 0 then Some (Some c)
           else do {
             types \<leftarrow> grow_types (cur_param_num c) (param_types c);
             oid \<leftarrow> get_psql_type_from_sqlvaluetype t;
             if cur_param_num c \<le> length types
             then Some (Some (c\<lparr>param_types := types[cur_param_num c - 1 := Some oid]\<rparr>))
             else None
           }))"

text \<open>The new value of \<open>TYPE_1\<close>, whether \<open>RESULT\<close> is set, the context and the errors.\<close>

definition MAP_TYPE_TO_PARAMETER_VALUE ::
  "SqlValueType \<Rightarrow> SqlValueType \<Rightarrow> parse_context option
     \<Rightarrow> (SqlValueType \<times> bool \<times> parse_context option \<times> type_error list) option" where
  "MAP_TYPE_TO_PARAMETER_VALUE t1 t2 ctx =
     (if t2 = PARAMETER_VALUE \<and> t1 = PARAMETER_VALUE then
        Some (t1, True, ctx, [ERR_FEATURE_NOT_IMPLEMENTED ''comparison between literal parameters, e.g. $1 = $2''])
      else if (IS_DATE_TIME_TYPE t1 \<and> t2 = PARAMETER_VALUE) \<or> (t1 = PARAMETER_VALUE \<and> IS_DATE_TIME_TYPE t2) then
        do {
          s1 \<leftarrow> get_user_visible_type_string t1;
          s2 \<leftarrow> get_user_visible_type_string t2;
          Some (t1, True, ctx, [ERR_TYPE_MISMATCH s1 s2])
        }
      else do {
        ctx \<leftarrow> set_parameter_type t2 ctx;
        Some (t2, False, ctx, [])
      })"

definition FIX_BOOLEAN_OR_STRING :: "SqlValueType \<Rightarrow> SqlValueType" where
  "FIX_BOOLEAN_OR_STRING other =
     (if other = BOOLEAN_VALUE then BOOLEAN_VALUE else if other = STRING_LITERAL then STRING_LITERAL
      else BOOLEAN_OR_STRING_LITERAL)"

definition CAST_AMBIGUOUS_TYPES ::
  "SqlValueType \<Rightarrow> SqlValueType \<Rightarrow> parse_context option
     \<Rightarrow> (SqlValueType \<times> SqlValueType \<times> bool \<times> parse_context option \<times> type_error list) option" where
  "CAST_AMBIGUOUS_TYPES t1 t2 ctx =
     (if t1 = PARAMETER_VALUE \<or> t1 = NUL_VALUE then
        map_option (\<lambda>(t, failed, c, log). (t, t2, failed, c, log)) (MAP_TYPE_TO_PARAMETER_VALUE t1 t2 ctx)
      else if t2 = PARAMETER_VALUE \<or> t2 = NUL_VALUE then
        map_option (\<lambda>(t, failed, c, log). (t1, t, failed, c, log)) (MAP_TYPE_TO_PARAMETER_VALUE t2 t1 ctx)
      else if t1 = INTEGER_LITERAL \<and> t2 = NUMERIC_LITERAL then Some (t2, t2, False, ctx, [])
      else if t2 = INTEGER_LITERAL \<and> t1 = NUMERIC_LITERAL then Some (t1, t1, False, ctx, [])
      else if t1 = BOOLEAN_OR_STRING_LITERAL then Some (FIX_BOOLEAN_OR_STRING t2, t2, False, ctx, [])
      else if t2 = BOOLEAN_OR_STRING_LITERAL then Some (t1, FIX_BOOLEAN_OR_STRING t1, False, ctx, [])
      else Some (t1, t2, False, ctx, []))"

section \<open>Statements\<close>

text \<open>
  A value has its type, its text and the index of its stored parameter (0 is none); a value of type
  \<open>COERCE_TYPE\<close> has the type it is cast to, the type it is cast from, and what is cast; a value of type \<open>CALCULATED_VALUE\<close> what is
  calculated. A column alias has its column, the types of the columns of its table alias, those of its set operation if it has one, and the
  number of the column. A column list alias has the value of its first column. A binary operation ends with its
  \<open>date_time_return_type\<close>, and a CASE has its value, its branches (\<open>cas_branch_STATEMENT\<close>: condition and value) and its ELSE. Lists are
  the circular lists of the sources.
\<close>

datatype SqlStatement =
    value_STATEMENT SqlValueType string nat
  | coerce_STATEMENT SqlDataType SqlValueType SqlStatement
  | calculated_STATEMENT SqlStatement
  | column_alias_STATEMENT SqlStatement "SqlValueType list" "SqlValueType list option" nat
  | column_list_STATEMENT "SqlStatement list"
  | column_list_alias_STATEMENT SqlStatement
  | function_call_STATEMENT string "SqlStatement list"
  | unary_STATEMENT UnaryOperations SqlStatement
  | binary_STATEMENT BinaryOperations SqlStatement SqlStatement SqlValueType
  | array_STATEMENT SqlStatement
  | coalesce_STATEMENT "SqlStatement list"
  | greatest_STATEMENT "SqlStatement list"
  | least_STATEMENT "SqlStatement list"
  | null_if_STATEMENT SqlStatement SqlStatement
  | cas_STATEMENT "SqlStatement option" "(SqlStatement \<times> SqlStatement) list" "SqlStatement option"
  | aggregate_function_STATEMENT
  | table_alias_STATEMENT
  | set_operation_STATEMENT
  | other_STATEMENT

definition ADD_DATE_TIME_TIMESTAMP_CAST_STMT ::
  "SqlStatement \<Rightarrow> SqlValueType \<Rightarrow> SqlValueType \<Rightarrow> SqlStatement option" where
  "ADD_DATE_TIME_TIMESTAMP_CAST_STMT stmt coerced_type pre_coerced_type =
     map_option (\<lambda>d. coerce_STATEMENT d pre_coerced_type stmt) (get_sqldatatype_from_sqlvaluetype coerced_type)"

section \<open>\<open>ensure_same_type\<close>\<close>

record same_type =
  result :: int
  left_type :: SqlValueType
  right_type :: SqlValueType
  left_stmt :: SqlStatement
  right_stmt :: SqlStatement
  parse_ctx :: "parse_context option"
  errors :: "type_error list"

definition cast_left :: "same_type \<Rightarrow> same_type option" where
  "cast_left s =
     map_option (\<lambda>stmt. s\<lparr>left_stmt := stmt, left_type := right_type s\<rparr>)
       (ADD_DATE_TIME_TIMESTAMP_CAST_STMT (left_stmt s) (right_type s) (left_type s))"

definition cast_right :: "same_type \<Rightarrow> same_type option" where
  "cast_right s =
     map_option (\<lambda>stmt. s\<lparr>right_stmt := stmt, right_type := left_type s\<rparr>)
       (ADD_DATE_TIME_TIMESTAMP_CAST_STMT (right_stmt s) (left_type s) (right_type s))"

definition fix_string :: "SqlValueType \<Rightarrow> SqlValueType" where
  "fix_string t = (if t = BOOLEAN_OR_STRING_LITERAL then STRING_LITERAL else t)"

text \<open>The casts between different types, and the error when there is none.\<close>

definition convert_types :: "same_type \<Rightarrow> same_type option" where
  "convert_types s =
     (let l = left_type s; r = right_type s
      in if l = DATE_LITERAL \<and> IS_TIMESTAMP r then cast_left s
         else if IS_TIMESTAMP l \<and> r = DATE_LITERAL then cast_right s
         else if l = TIMESTAMP_WITH_TIME_ZONE_LITERAL \<and> r = TIMESTAMP_LITERAL then cast_right s
         else if l = TIMESTAMP_LITERAL \<and> r = TIMESTAMP_WITH_TIME_ZONE_LITERAL then cast_left s
         else if l = TIME_LITERAL \<and> r = TIME_WITH_TIME_ZONE_LITERAL then cast_left s
         else if l = TIME_WITH_TIME_ZONE_LITERAL \<and> r = TIME_LITERAL then cast_right s
         else if l = STRING_LITERAL \<and> IS_DATE_TIME_TYPE r then cast_left s
         else if IS_DATE_TIME_TYPE l \<and> r = STRING_LITERAL then cast_right s
         else do {
           sl \<leftarrow> get_user_visible_type_string l;
           sr \<leftarrow> get_user_visible_type_string r;
           Some (s\<lparr>result := 1, errors := errors s @ [ERR_TYPE_MISMATCH sl sr]\<rparr>)
         })"

definition ensure_same_type ::
  "SqlValueType \<Rightarrow> SqlValueType \<Rightarrow> SqlStatement \<Rightarrow> SqlStatement \<Rightarrow> parse_context option \<Rightarrow> same_type option" where
  "ensure_same_type l r ls rs c =
     do {
       (l, r, failed, c, log) \<leftarrow> CAST_AMBIGUOUS_TYPES l r c;
       let s = \<lparr>result = (if failed then 1 else 0), left_type = l, right_type = r, left_stmt = ls, right_stmt = rs,
                parse_ctx = c, errors = log\<rparr>;
       if failed \<or> l = r then Some s
       else convert_types (s\<lparr>left_type := fix_string l, right_type := fix_string r\<rparr>)
     }"

section \<open>Unary operators\<close>

text \<open>The result, the type of the operand and the type of the operation, and the errors.\<close>

definition reject :: "(string \<Rightarrow> type_error) \<Rightarrow> SqlValueType \<Rightarrow> SqlValueType \<Rightarrow> (int \<times> SqlValueType \<times> SqlValueType \<times> type_error list) option" where
  "reject err child type = map_option (\<lambda>s. (1, child, type, [err s])) (get_user_visible_type_string child)"

definition unary_sign :: "UnaryOperations \<Rightarrow> SqlValueType \<Rightarrow> SqlValueType \<Rightarrow> (int \<times> SqlValueType \<times> SqlValueType \<times> type_error list) option" where
  "unary_sign operation child type =
     (if child = TABLE_ASTERISK then reject (\<lambda>s. ERR_TYPE_NOT_COMPATIBLE s ''+ or - operation'') child type
      else if child = BOOLEAN_OR_STRING_LITERAL then reject ERR_INVALID_INPUT_SYNTAX STRING_LITERAL type
      else if IS_DATE_TIME_TYPE child \<or> child = STRING_LITERAL \<or> child = BOOLEAN_VALUE then
        reject ERR_INVALID_INPUT_SYNTAX child type
      else if child = NUL_VALUE then
        (if operation = NEGATIVE then reject (\<lambda>s. ERR_TYPE_NOT_COMPATIBLE s ''- operation'') child type
         else Some (0, child, child, []))
      else if child = INTEGER_LITERAL \<or> child = NUMERIC_LITERAL then Some (0, child, child, [])
      else None)"

definition unary_not :: "SqlStatement \<Rightarrow> SqlValueType \<Rightarrow> SqlValueType \<Rightarrow> (int \<times> SqlValueType \<times> SqlValueType \<times> type_error list) option" where
  "unary_not operand child type =
     (if child = STRING_LITERAL then
        (case operand of
           value_STATEMENT STRING_LITERAL _ _ \<Rightarrow> reject ERR_INVALID_BOOLEAN_SYNTAX child type
         | _ \<Rightarrow> reject ERR_NOT_OPERATION_TYPE_MISMATCH child type)
      else if child = BOOLEAN_OR_STRING_LITERAL then Some (0, BOOLEAN_VALUE, BOOLEAN_VALUE, [])
      else if child = BOOLEAN_VALUE \<or> child = NUL_VALUE then Some (0, child, child, [])
      else if child = SELECT_ASTERISK then None
      else reject ERR_NOT_OPERATION_TYPE_MISMATCH child type)"

definition unary_operation_data_type_check ::
  "UnaryOperations \<Rightarrow> SqlStatement \<Rightarrow> SqlValueType \<Rightarrow> SqlValueType \<Rightarrow> (int \<times> SqlValueType \<times> SqlValueType \<times> type_error list) option" where
  "unary_operation_data_type_check operation operand child type =
     (case operation of
        FORCE_NUM \<Rightarrow> unary_sign operation child type
      | NEGATIVE \<Rightarrow> unary_sign operation child type
      | BOOLEAN_NOT \<Rightarrow> unary_not operand child type
      | BOOLEAN_NOT_EXISTS \<Rightarrow> None
      | BOOLEAN_EXISTS \<Rightarrow> Some (0, child, BOOLEAN_VALUE, []))"
section \<open>Conversions are inverse to each other\<close>

text \<open>The types that a checked expression can have: those that have a column type, and the three that are still open.\<close>

definition concrete :: "SqlValueType \<Rightarrow> bool" where
  "concrete t \<longleftrightarrow> t \<in> {BOOLEAN_VALUE, INTEGER_LITERAL, NUMERIC_LITERAL, STRING_LITERAL, NUL_VALUE}
     \<or> IS_DATE_TIME_TYPE t"

definition resolved :: "SqlValueType \<Rightarrow> bool" where
  "resolved t \<longleftrightarrow> concrete t \<or> t \<in> {BOOLEAN_OR_STRING_LITERAL, PARAMETER_VALUE, TABLE_ASTERISK}"

lemmas type_class_defs = IS_BOOLEAN_TYPE_def IS_STRING_TYPE_def IS_DATE_TIME_TYPE_def IS_TIME_def IS_TIMESTAMP_def

lemma type_string_defined: "get_user_visible_type_string t \<noteq> None \<longleftrightarrow> resolved t"
  by (cases t) (simp_all add: get_user_visible_type_string_def resolved_def concrete_def IS_DATE_TIME_TYPE_def)

lemma type_string_resolved:
  assumes "resolved t"
  obtains s where "get_user_visible_type_string t = Some s"
  using assms type_string_defined [of t] by auto

lemma psql_type_defined: "get_psql_type_from_sqlvaluetype t \<noteq> None \<longleftrightarrow> concrete t \<or> t = PARAMETER_VALUE"
  by (cases t) (simp_all add: get_psql_type_from_sqlvaluetype_def concrete_def IS_DATE_TIME_TYPE_def)

lemma sqldatatype_defined: "get_sqldatatype_from_sqlvaluetype t \<noteq> None \<longleftrightarrow> concrete t"
  by (cases t) (simp_all add: get_sqldatatype_from_sqlvaluetype_def concrete_def IS_DATE_TIME_TYPE_def)

text \<open>The types of values and of columns translate into each other without loss, in both directions, and exactly the
  concrete types of values have a column type; the name of every type that is printed fits in the length reserved for it.\<close>

theorem type_conversions_inverse:
  "(get_sqldatatype_from_sqlvaluetype t = Some d) = (get_sqlvaluetype_from_sqldatatype d False = Some t)
   \<and> (get_sqldatatype_from_sqlvaluetype t = None) = (\<not> concrete t)
   \<and> (case get_user_visible_type_string t of None \<Rightarrow> \<not> resolved t | Some s \<Rightarrow> resolved t \<and> length s < MAX_TYPE_NAME_LEN)"
proof (intro conjI)
  show "(get_sqldatatype_from_sqlvaluetype t = Some d) = (get_sqlvaluetype_from_sqldatatype d False = Some t)"
    by (cases t; cases d; simp add: get_sqldatatype_from_sqlvaluetype_def get_sqlvaluetype_from_sqldatatype_def)
  show "(get_sqldatatype_from_sqlvaluetype t = None) = (\<not> concrete t)"
    using sqldatatype_defined [of t] by blast
  show "case get_user_visible_type_string t of None \<Rightarrow> \<not> resolved t | Some s \<Rightarrow> resolved t \<and> length s < MAX_TYPE_NAME_LEN"
    by (cases t) (simp_all add: get_user_visible_type_string_def resolved_def concrete_def IS_DATE_TIME_TYPE_def MAX_TYPE_NAME_LEN_def)
qed

section \<open>The array of parameter types\<close>

lemma expand_array_length: "expand_array n xs = Some ys \<Longrightarrow> length ys = n \<and> take (length xs) ys = xs"
  by (auto simp: expand_array_def split: if_splits)

lemma grow_types_ok:
  assumes "1 \<le> cur" "cur \<le> INT16_MAX" "length types \<le> INT16_MAX"
  obtains ys where "grow_types cur types = Some ys" "cur \<le> length ys" "length types \<le> length ys" "length ys \<le> INT16_MAX"
    "take (length types) ys = types"
proof (cases "cur \<ge> length types")
  case True
  define base where "base = (if cur > 2 * length types then types @ replicate (cur - length types) None else types)"
  have b: "length base \<le> INT16_MAX" "cur \<le> 2 * length base" "take (length types) base = types" "length types \<le> length base"
    using assms True by (auto simp: base_def)
  define n where "n = (if INT16_MAX < 2 * length base then INT16_MAX else 2 * length base)"
  have n: "length base \<le> n" "cur \<le> n" "n \<le> INT16_MAX" using b assms by (auto simp: n_def)
  have "double_array INT16_MAX base = Some (base @ replicate (n - length base) None)"
    using n by (simp add: double_array_def expand_array_def n_def INT16_MAX_def mult.commute)
  moreover have "grow_types cur types = double_array INT16_MAX base"
    using True by (simp add: grow_types_def base_def expand_array_def)
  ultimately have "grow_types cur types = Some (base @ replicate (n - length base) None)" by simp
  with b n show thesis by (intro that [of "base @ replicate (n - length base) None"]) auto
next
  case False
  with assms show thesis by (intro that [of types]) (auto simp: grow_types_def)
qed

lemma set_parameter_type_defined:
  assumes "cur_param_num c \<le> INT16_MAX" "length (param_types c) \<le> INT16_MAX" "get_psql_type_from_sqlvaluetype t = Some oid"
  shows "set_parameter_type t (Some c) \<noteq> None"
proof (cases "cur_param_num c = 0")
  case False
  with assms obtain ys where "grow_types (cur_param_num c) (param_types c) = Some ys" "cur_param_num c \<le> length ys"
    using grow_types_ok [of "cur_param_num c" "param_types c"] by auto
  with False assms(3) show ?thesis by (simp add: set_parameter_type_def)
qed (simp add: set_parameter_type_def)

text \<open>Setting the type of a parameter never writes outside the array, whatever the number of the parameter: the array
  grows as far as needed, at most to 32767 entries, the entry of the parameter is set and all the others keep their types.\<close>

theorem parameter_types_in_bounds:
  assumes "1 \<le> cur_param_num c" "cur_param_num c \<le> INT16_MAX" "length (param_types c) \<le> INT16_MAX"
    and "get_psql_type_from_sqlvaluetype t = Some oid"
  shows "\<exists>c'. set_parameter_type t (Some c) = Some (Some c') \<and> cur_param_num c' = cur_param_num c
    \<and> length (param_types c') \<le> INT16_MAX \<and> length (param_types c) \<le> length (param_types c')
    \<and> cur_param_num c \<le> length (param_types c') \<and> param_types c' ! (cur_param_num c - 1) = Some oid
    \<and> list_all (\<lambda>i. i = cur_param_num c - 1 \<or> param_types c' ! i = param_types c ! i) [0..<length (param_types c)]"
proof -
  obtain ys where ys: "grow_types (cur_param_num c) (param_types c) = Some ys" "cur_param_num c \<le> length ys"
    "length (param_types c) \<le> length ys" "length ys \<le> INT16_MAX" "take (length (param_types c)) ys = param_types c"
    using assms grow_types_ok by blast
  have "ys ! i = param_types c ! i" if "i < length (param_types c)" for i
    using that ys(5) by (metis nth_take)
  with ys assms show ?thesis
    by (intro exI [of _ "c\<lparr>param_types := ys[cur_param_num c - 1 := Some oid]\<rparr>"])
      (auto simp: set_parameter_type_def list_all_iff nth_list_update)
qed

theorem parameter_types_in_bounds_witness:
  "\<exists>c'. set_parameter_type INTEGER_LITERAL (Some \<lparr>cur_param_num = 5, param_types = [Some PSQL_TypeOid_date, None]\<rparr>) = Some (Some c')
    \<and> cur_param_num c' = 5 \<and> length (param_types c') \<le> INT16_MAX \<and> 2 \<le> length (param_types c')
    \<and> 5 \<le> length (param_types c') \<and> param_types c' ! 4 = Some PSQL_TypeOid_int4
    \<and> list_all (\<lambda>i. i = 4 \<or> param_types c' ! i = [Some PSQL_TypeOid_date, None] ! i) [0..<2]"
  using parameter_types_in_bounds [of "\<lparr>cur_param_num = 5, param_types = [Some PSQL_TypeOid_date, None]\<rparr>" INTEGER_LITERAL
      PSQL_TypeOid_int4] by (simp add: INT16_MAX_def get_psql_type_from_sqlvaluetype_def numeral_2_eq_2)

section \<open>What the cast of ambiguous types does\<close>

text \<open>
  Two types are compatible when one expression can take both: \<open>NULL\<close> and parameters take the type of the other side, integers are
  numbers, and a literal like \<open>'t'\<close> is a boolean or a string as the other side wants it.
\<close>

definition compatible :: "SqlValueType \<Rightarrow> SqlValueType \<Rightarrow> bool" where
  "compatible t u \<longleftrightarrow> t = u \<or> t \<in> {NUL_VALUE, PARAMETER_VALUE} \<or> u \<in> {NUL_VALUE, PARAMETER_VALUE}
     \<or> {t, u} = {INTEGER_LITERAL, NUMERIC_LITERAL}
     \<or> {t, u} = {BOOLEAN_OR_STRING_LITERAL, BOOLEAN_VALUE} \<or> {t, u} = {BOOLEAN_OR_STRING_LITERAL, STRING_LITERAL}"

lemma set_parameter_type_none: "set_parameter_type t None = Some None"
  by (simp add: set_parameter_type_def)

lemma MAP_ok:
  assumes "MAP_TYPE_TO_PARAMETER_VALUE t1 t2 ctx = Some (t, failed, c, log)"
  shows "failed \<and> t = t1 \<and> log \<noteq> [] \<and> (t1 = PARAMETER_VALUE \<or> t2 = PARAMETER_VALUE) \<or> \<not> failed \<and> t = t2 \<and> log = []"
  using assms by (auto simp: MAP_TYPE_TO_PARAMETER_VALUE_def bind_eq_Some_conv split: if_splits)

lemma cast_cases:
  assumes "CAST_AMBIGUOUS_TYPES t u ctx = Some (t', u', failed, c, log)"
  shows "\<not> failed \<Longrightarrow> compatible t u \<Longrightarrow> t' = u'"
    and "\<not> failed \<Longrightarrow> \<not> compatible t u \<Longrightarrow> t' = t \<and> u' = u"
    and "failed \<Longrightarrow> t = PARAMETER_VALUE \<or> u = PARAMETER_VALUE"
    and "failed \<longleftrightarrow> log \<noteq> []"
    and "\<not> failed \<Longrightarrow> t' \<in> {t, u} \<and> u' \<in> {t, u}"
  using assms by (auto simp: CAST_AMBIGUOUS_TYPES_def compatible_def FIX_BOOLEAN_OR_STRING_def doubleton_eq_iff
      split: if_splits dest!: MAP_ok)

lemma MAP_defined:
  assumes "resolved t1" "resolved t2" "t2 \<notin> {TABLE_ASTERISK, BOOLEAN_OR_STRING_LITERAL}"
    and "\<And>c. ctx = Some c \<Longrightarrow> cur_param_num c \<le> INT16_MAX \<and> length (param_types c) \<le> INT16_MAX"
  shows "MAP_TYPE_TO_PARAMETER_VALUE t1 t2 ctx \<noteq> None"
proof -
  have "concrete t2 \<or> t2 = PARAMETER_VALUE" using assms(2,3) by (auto simp: resolved_def)
  then obtain oid where oid: "get_psql_type_from_sqlvaluetype t2 = Some oid" using psql_type_defined [of t2] by auto
  have "set_parameter_type t2 ctx \<noteq> None"
  proof (cases ctx)
    case (Some c)
    then show ?thesis
      using assms(4) [OF Some] set_parameter_type_defined oid by simp
  qed (simp add: set_parameter_type_none)
  moreover obtain s1 s2 where "get_user_visible_type_string t1 = Some s1" "get_user_visible_type_string t2 = Some s2"
    using assms(1,2) type_string_resolved by metis
  ultimately show ?thesis by (auto simp: MAP_TYPE_TO_PARAMETER_VALUE_def)
qed
section \<open>Types are made the same, or an error is reported\<close>

definition convertible :: "SqlValueType \<Rightarrow> SqlValueType \<Rightarrow> bool" where
  "convertible t u \<longleftrightarrow> compatible t u
     \<or> (IS_DATE_TIME_TYPE t \<and> IS_DATE_TIME_TYPE u \<and> IS_TIME t = IS_TIME u)
     \<or> (t \<in> {STRING_LITERAL, BOOLEAN_OR_STRING_LITERAL} \<and> IS_DATE_TIME_TYPE u)
     \<or> (IS_DATE_TIME_TYPE t \<and> u \<in> {STRING_LITERAL, BOOLEAN_OR_STRING_LITERAL})"

lemma compatible_sym: "compatible t u = compatible u t"
  by (auto simp: compatible_def doubleton_eq_iff)

lemma convertible_sym: "convertible t u = convertible u t"
  unfolding convertible_def compatible_sym [of t u] by blast

text \<open>
  The statement that becomes of one with the type \<open>old\<close> when its type becomes \<open>t\<close>: a cast of it, from its type as it is after the choice between
  boolean and string, when \<open>t\<close> is a date or time and differs from \<open>old\<close>, and else the statement itself. A NULL takes on a type without a
  cast, and so do integers that become numerics.
\<close>

definition cast_to :: "SqlValueType \<Rightarrow> SqlValueType \<Rightarrow> SqlStatement \<Rightarrow> SqlStatement option" where
  "cast_to old t stmt =
     (if IS_DATE_TIME_TYPE t \<and> old \<noteq> t \<and> old \<noteq> NUL_VALUE
      then map_option (\<lambda>d. coerce_STATEMENT d (if old = BOOLEAN_OR_STRING_LITERAL then STRING_LITERAL else old) stmt)
        (get_sqldatatype_from_sqlvaluetype t)
      else Some stmt)"

lemma cast_left_ok:
  assumes "IS_DATE_TIME_TYPE (right_type s)"
  obtains s' d where "cast_left s = Some s'" "left_type s' = right_type s" "right_type s' = right_type s" "right_stmt s' = right_stmt s"
    "result s' = result s" "errors s' = errors s" "get_sqldatatype_from_sqlvaluetype (right_type s) = Some d"
    "left_stmt s' = coerce_STATEMENT d (left_type s) (left_stmt s)"
  using assms sqldatatype_defined [of "right_type s"]
  by (auto simp: cast_left_def ADD_DATE_TIME_TIMESTAMP_CAST_STMT_def concrete_def)

lemma cast_right_ok:
  assumes "IS_DATE_TIME_TYPE (left_type s)"
  obtains s' d where "cast_right s = Some s'" "right_type s' = left_type s" "left_type s' = left_type s" "left_stmt s' = left_stmt s"
    "result s' = result s" "errors s' = errors s" "get_sqldatatype_from_sqlvaluetype (left_type s) = Some d"
    "right_stmt s' = coerce_STATEMENT d (right_type s) (right_stmt s)"
  using assms sqldatatype_defined [of "left_type s"]
  by (auto simp: cast_right_def ADD_DATE_TIME_TIMESTAMP_CAST_STMT_def concrete_def)

text \<open>What \<open>convert_types\<close> does, by which of the two sides it casts.\<close>

definition casts_left :: "SqlValueType \<Rightarrow> SqlValueType \<Rightarrow> bool" where
  "casts_left l r \<longleftrightarrow> (l = DATE_LITERAL \<and> IS_TIMESTAMP r) \<or> (l = TIMESTAMP_LITERAL \<and> r = TIMESTAMP_WITH_TIME_ZONE_LITERAL)
     \<or> (l = TIME_LITERAL \<and> r = TIME_WITH_TIME_ZONE_LITERAL) \<or> (l = STRING_LITERAL \<and> IS_DATE_TIME_TYPE r)"

lemma cast_directions:
  "(if l = DATE_LITERAL \<and> IS_TIMESTAMP r then L
    else if IS_TIMESTAMP l \<and> r = DATE_LITERAL then R
    else if l = TIMESTAMP_WITH_TIME_ZONE_LITERAL \<and> r = TIMESTAMP_LITERAL then R
    else if l = TIMESTAMP_LITERAL \<and> r = TIMESTAMP_WITH_TIME_ZONE_LITERAL then L
    else if l = TIME_LITERAL \<and> r = TIME_WITH_TIME_ZONE_LITERAL then L
    else if l = TIME_WITH_TIME_ZONE_LITERAL \<and> r = TIME_LITERAL then R
    else if l = STRING_LITERAL \<and> IS_DATE_TIME_TYPE r then L
    else if IS_DATE_TIME_TYPE l \<and> r = STRING_LITERAL then R
    else E) = (if casts_left l r then L else if casts_left r l then R else E)"
  by (cases l) (simp_all add: casts_left_def type_class_defs)

lemma convert_types_cases:
  assumes "convert_types s = Some s'"
  obtains "casts_left (left_type s) (right_type s)" "cast_left s = Some s'"
    | "casts_left (right_type s) (left_type s)" "cast_right s = Some s'"
    | "\<not> casts_left (left_type s) (right_type s)" "\<not> casts_left (right_type s) (left_type s)" "result s' = 1" "errors s' \<noteq> []"
      "left_stmt s' = left_stmt s" "right_stmt s' = right_stmt s"
  using assms unfolding convert_types_def Let_def cast_directions by (auto simp: bind_eq_Some_conv split: if_splits)

lemma casts_left_types:
  assumes "casts_left l r"
  shows "IS_DATE_TIME_TYPE r" "l \<noteq> r"
  using assms by (auto simp: casts_left_def type_class_defs)

lemma convertible_casts:
  assumes "\<not> compatible l r"
  shows "convertible l r \<longleftrightarrow> casts_left (fix_string l) (fix_string r) \<or> casts_left (fix_string r) (fix_string l)"
  using assms
  by (cases l; cases r) (simp_all add: convertible_def compatible_def casts_left_def fix_string_def type_class_defs)

text \<open>Types that are made the same by \<open>CAST_AMBIGUOUS_TYPES\<close> need no cast.\<close>

lemma compatible_uncast:
  assumes "CAST_AMBIGUOUS_TYPES l r ctx = Some (t, t', False, c, log)" and "compatible l r" and "l \<noteq> PARAMETER_VALUE" and "r \<noteq> PARAMETER_VALUE"
  shows "cast_to l t ls = Some ls" "cast_to r t rs = Some rs"
proof -
  have "t \<in> {l, r}"
    using cast_cases(5) [OF assms(1)] by simp
  then have "cast_to l t ls = Some ls \<and> cast_to r t rs = Some rs"
    using assms(2-4) by (auto simp: cast_to_def compatible_def doubleton_eq_iff type_class_defs)
  then show "cast_to l t ls = Some ls" "cast_to r t rs = Some rs"
    by blast+
qed

text \<open>Between others only dates and times can be the common type.\<close>

lemma casts_left_cast_to:
  assumes "casts_left (fix_string l) (fix_string r)" and "get_sqldatatype_from_sqlvaluetype (fix_string r) = Some d" and "\<not> compatible l r"
  shows "cast_to l (fix_string r) ls = Some (coerce_STATEMENT d (fix_string l) ls)" "cast_to r (fix_string r) rs = Some rs"
  using assms by (auto simp: cast_to_def casts_left_def fix_string_def compatible_def type_class_defs split: if_splits)

text \<open>C15: \<open>ensure_same_type\<close> accepts exactly the pairs of types that can be converted, which is a symmetric relation, and reports an error for
  all others and then leaves both expressions as they were. After it has accepted two expressions they have the same type. An expression
  whose type became another date or time is wrapped in a cast from its old type to the new one; every other expression is left as it was,
  also a NULL and an integer whose type changed. At most one of the two is cast.\<close>

theorem ensure_same_type_agrees:
  assumes "ensure_same_type l r ls rs ctx = Some s" "l \<noteq> PARAMETER_VALUE" "r \<noteq> PARAMETER_VALUE"
  shows "(result s = 0) = convertible l r \<and> (result s = 0) = (errors s = [])
    \<and> (if result s = 0
       then left_type s = right_type s \<and> cast_to l (left_type s) ls = Some (left_stmt s) \<and> cast_to r (left_type s) rs = Some (right_stmt s)
         \<and> (left_stmt s = ls \<or> right_stmt s = rs)
       else left_stmt s = ls \<and> right_stmt s = rs)
    \<and> convertible l r = convertible r l"
proof -
  have sym: "convertible l r = convertible r l"
    by (rule convertible_sym)
  from assms(1) obtain l' r' failed c log where cast: "CAST_AMBIGUOUS_TYPES l r ctx = Some (l', r', failed, c, log)"
    and rest: "(let s0 = \<lparr>result = (if failed then 1 else 0), left_type = l', right_type = r', left_stmt = ls, right_stmt = rs,
                parse_ctx = c, errors = log\<rparr>
       in if failed \<or> l' = r' then Some s0
          else convert_types (s0\<lparr>left_type := fix_string l', right_type := fix_string r'\<rparr>)) = Some s"
    by (auto simp: ensure_same_type_def bind_eq_Some_conv)
  note cc = cast_cases [OF cast]
  have ok: "\<not> failed" "log = []" using cc(3,4) assms(2,3) by blast+
  have "(result s = 0) = convertible l r \<and> (result s = 0) = (errors s = [])
    \<and> (if result s = 0
       then left_type s = right_type s \<and> cast_to l (left_type s) ls = Some (left_stmt s) \<and> cast_to r (left_type s) rs = Some (right_stmt s)
         \<and> (left_stmt s = ls \<or> right_stmt s = rs)
       else left_stmt s = ls \<and> right_stmt s = rs)"
  proof (cases "compatible l r")
    case True
    have "CAST_AMBIGUOUS_TYPES l r ctx = Some (l', r', False, c, log)" using cast ok by simp
    note uncast = compatible_uncast [OF this True assms(2,3)]
    from True rest cc(1) ok uncast show ?thesis by (auto simp: convertible_def)
  next
    case False
    then have same: "l' = l" "r' = r" and ne: "l \<noteq> r" using cc(2) ok(1) by (auto simp: compatible_def)
    have False': "\<not> compatible r l" using False by (simp add: compatible_sym)
    define s0 where "s0 = \<lparr>result = 0, left_type = fix_string l, right_type = fix_string r, left_stmt = ls, right_stmt = rs,
                parse_ctx = c, errors = []\<rparr>"
    have "convert_types s0 = Some s" using rest ok same ne by (simp add: s0_def)
    then show ?thesis
    proof (cases rule: convert_types_cases)
      case c: 1
      obtain s' d where s': "cast_left s0 = Some s'" "left_type s' = right_type s0" "right_type s' = right_type s0" "right_stmt s' = right_stmt s0"
        "result s' = result s0" "errors s' = errors s0" "get_sqldatatype_from_sqlvaluetype (right_type s0) = Some d"
        "left_stmt s' = coerce_STATEMENT d (left_type s0) (left_stmt s0)"
        by (rule cast_left_ok [OF casts_left_types(1) [OF c(1)]])
      have "convertible l r" using c(1) convertible_casts [OF False] by (simp add: s0_def)
      with c(2) s' casts_left_cast_to [of l r d] c(1) False show ?thesis by (simp add: s0_def)
    next
      case c: 2
      obtain s' d where s': "cast_right s0 = Some s'" "right_type s' = left_type s0" "left_type s' = left_type s0" "left_stmt s' = left_stmt s0"
        "result s' = result s0" "errors s' = errors s0" "get_sqldatatype_from_sqlvaluetype (left_type s0) = Some d"
        "right_stmt s' = coerce_STATEMENT d (right_type s0) (right_stmt s0)"
        by (rule cast_right_ok [OF casts_left_types(1) [OF c(1)]])
      have "convertible l r" using c(1) convertible_casts [OF False] by (simp add: s0_def)
      with c(2) s' casts_left_cast_to [of r l d] c(1) False' show ?thesis by (simp add: s0_def)
    next
      case c: 3
      with convertible_casts [OF False] show ?thesis by (simp add: s0_def)
    qed
  qed
  with sym show ?thesis by blast
qed

theorem ensure_same_type_agrees_witness:
  "\<exists>s. ensure_same_type DATE_LITERAL TIMESTAMP_LITERAL (value_STATEMENT DATE_LITERAL ''2024-02-29'' 0) other_STATEMENT None = Some s
    \<and> result s = 0 \<and> left_type s = right_type s \<and> right_stmt s = other_STATEMENT"
proof -
  let ?v = "value_STATEMENT DATE_LITERAL ''2024-02-29'' 0"
  obtain s where s: "ensure_same_type DATE_LITERAL TIMESTAMP_LITERAL ?v other_STATEMENT None = Some s" "right_type s = TIMESTAMP_LITERAL"
    by (simp add: ensure_same_type_def CAST_AMBIGUOUS_TYPES_def convert_types_def fix_string_def cast_left_def
        ADD_DATE_TIME_TIMESTAMP_CAST_STMT_def get_sqldatatype_from_sqlvaluetype_def IS_TIMESTAMP_def)
  have 1: "convertible DATE_LITERAL TIMESTAMP_LITERAL"
    by (simp add: convertible_def type_class_defs)
  have "result s = 0 \<and> left_type s = right_type s \<and> cast_to TIMESTAMP_LITERAL (left_type s) other_STATEMENT = Some (right_stmt s)"
    using ensure_same_type_agrees [OF s(1)] 1 by auto
  then show ?thesis using s by (auto simp: cast_to_def)
qed

text \<open>C16: A comparison with \<open>NULL\<close> overwrites the type of a parameter that it has nothing to do with: neither of the two types
  is that of a parameter, and still the entry of the last parameter that was visited becomes the type of the other side,
  whatever it was.\<close>

theorem null_overwrites_parameter_type:
  assumes "1 \<le> cur_param_num c" "cur_param_num c < length (param_types c)" "get_psql_type_from_sqlvaluetype t = Some oid"
    and "t \<noteq> PARAMETER_VALUE"
  shows "CAST_AMBIGUOUS_TYPES NUL_VALUE t (Some c)
    = Some (t, t, False, Some (c\<lparr>param_types := (param_types c)[cur_param_num c - 1 := Some oid]\<rparr>), [])"
  using assms by (simp add: CAST_AMBIGUOUS_TYPES_def MAP_TYPE_TO_PARAMETER_VALUE_def IS_DATE_TIME_TYPE_def set_parameter_type_def
      grow_types_def)

theorem null_overwrites_parameter_type_witness:
  "CAST_AMBIGUOUS_TYPES NUL_VALUE STRING_LITERAL (Some \<lparr>cur_param_num = 1, param_types = [Some PSQL_TypeOid_int4, None]\<rparr>)
    = Some (STRING_LITERAL, STRING_LITERAL, False, Some \<lparr>cur_param_num = 1, param_types = [Some PSQL_TypeOid_varchar, None]\<rparr>, [])"
  using null_overwrites_parameter_type [of "\<lparr>cur_param_num = 1, param_types = [Some PSQL_TypeOid_int4, None]\<rparr>" STRING_LITERAL
      PSQL_TypeOid_varchar] by (simp add: get_psql_type_from_sqlvaluetype_def)

section \<open>The types of unary operators\<close>

definition unary_accepts :: "UnaryOperations \<Rightarrow> SqlValueType \<Rightarrow> bool" where
  "unary_accepts operation t \<longleftrightarrow>
     (case operation of
        FORCE_NUM \<Rightarrow> t \<in> {INTEGER_LITERAL, NUMERIC_LITERAL, NUL_VALUE}
      | NEGATIVE \<Rightarrow> t \<in> {INTEGER_LITERAL, NUMERIC_LITERAL}
      | BOOLEAN_NOT \<Rightarrow> IS_BOOLEAN_TYPE t
      | _ \<Rightarrow> True)"

text \<open>The check of a unary operator decides for every resolved type of its operand but an untyped parameter under a sign, where it asserts:
  it accepts numbers under a sign (\<open>NULL\<close> under plus only), booleans, \<open>NULL\<close> and literals like \<open>'t'\<close> under \<open>NOT\<close>, and everything
  under \<open>EXISTS\<close>. The type of an accepted operation is that of its operand, a boolean for \<open>'t'\<close> and for \<open>EXISTS\<close>; a
  rejected one keeps the type and has exactly one error.\<close>

theorem unary_operation_types:
  assumes "resolved t" "operation \<noteq> BOOLEAN_NOT_EXISTS" "t \<noteq> PARAMETER_VALUE \<or> operation \<in> {BOOLEAN_NOT, BOOLEAN_EXISTS}"
  shows "case unary_operation_data_type_check operation operand t type of
      None \<Rightarrow> False
    | Some (res, child, type', errs) \<Rightarrow>
        if unary_accepts operation t
        then res = 0 \<and> errs = [] \<and> type' = (if operation = BOOLEAN_EXISTS \<or> t = BOOLEAN_OR_STRING_LITERAL then BOOLEAN_VALUE else t)
        else res = 1 \<and> length errs = 1 \<and> type' = type"
  using assms
  by (cases operation; cases t)
    (simp_all add: unary_operation_data_type_check_def unary_sign_def unary_not_def unary_accepts_def reject_def
      get_user_visible_type_string_def resolved_def concrete_def type_class_defs split: SqlStatement.splits SqlValueType.splits)

theorem unary_operation_types_witness:
  "case unary_operation_data_type_check NEGATIVE other_STATEMENT INTEGER_LITERAL UNKNOWN_SqlValueType of
      None \<Rightarrow> False
    | Some (res, child, type', errs) \<Rightarrow>
        if unary_accepts NEGATIVE INTEGER_LITERAL
        then res = 0 \<and> errs = [] \<and> type' = (if NEGATIVE = BOOLEAN_EXISTS \<or> INTEGER_LITERAL = BOOLEAN_OR_STRING_LITERAL then BOOLEAN_VALUE else INTEGER_LITERAL)
        else res = 1 \<and> length errs = 1 \<and> type' = UNKNOWN_SqlValueType"
  by (rule unary_operation_types) (simp_all add: resolved_def concrete_def)

end
