(* ===== verification/FunctionStore.thy ===== *)
theory FunctionStore
  imports TypeCheck "HOL-Library.Word"
begin

text \<open>
  The definitions of SQL functions in the database and in the cache of a process:
  \<open>store_function_definition.c\<close> cuts a definition into fragments, \<open>store_function_in_pg_proc.c\<close> gives it an OID,
  \<open>find_function.c\<close> puts the fragments together again and keeps the parse tree in the process as long as the OID in the
  database is the same, and \<open>drop_schema_from_local_cache.c\<close> removes it.

  The state has the nodes of \<open>^%ydboctoocto("functions",name,hash)\<close> and the counter \<open>^%ydboctoocto("oid")\<close>, both
  shared by all processes, and of the process the nodes of \<open>%ydboctoloadedschemas\<close> and the memory chunks that are allocated.
  The argument \<open>fails\<close> tells which calls of the database return an error; a node that does not exist is \<open>None\<close>.
  \<open>None\<close> as a result is a failed \<open>assert\<close> or an access outside of allocated memory.
  The translation between a parse tree and its binary form (\<open>compress_statement.c\<close>, \<open>decompress_statement.c\<close>) is an argument of the
  definitions.
\<close>

section \<open>The state\<close>

text \<open>The types of the parameters, empty if \<open>parameter_type_list\<close> is \<open>NULL\<close>.\<close>

record SqlFunction =
  parameter_types :: "SqlDataType list"
  return_type :: SqlDataType
  extrinsic_function :: string
  oid :: "64 word"

text \<open>The fragments have the subscripts 0, 1, and so on.\<close>

record function_node =
  oid_node :: "string option"
  length_node :: "string option"
  binary_node :: "string list"

definition no_node :: function_node where
  "no_node = \<lparr>oid_node = None, length_node = None, binary_node = []\<rparr>"

text \<open>A local node points to a parse tree, which is at the start of the memory of a chunk, or to the structure of a chunk.\<close>

datatype local_node = Stmt nat SqlFunction | Chunk nat

record session =
  octo :: "string \<times> string \<Rightarrow> function_node"
  octo_oid :: int
  loaded_schemas :: "string list \<Rightarrow> local_node option"
  next_chunk :: nat
  live_values :: "nat list"
  live_chunks :: "nat list"

datatype ydb_call =
    Set_fragment nat | Set_length | Incr_oid | Set_pg_proc | Set_oid
  | Get_loaded | Get_oid | Get_length | Next_fragment nat | Get_fragment nat | Set_loaded | Set_chunk
  | Drop_get | Drop_get_chunk | Drop_delete

definition MAX_DEFINITION_FRAGMENT_SIZE :: nat where "MAX_DEFINITION_FRAGMENT_SIZE = 32768"

definition OCTOLIT_FUNCTIONS :: string where "OCTOLIT_FUNCTIONS = ''functions''"
definition OCTOLIT_TABLES :: string where "OCTOLIT_TABLES = ''tables''"
definition OCTOLIT_CHUNK :: string where "OCTOLIT_CHUNK = ''chunk''"
definition OCTOLIT_BINARY :: string where "OCTOLIT_BINARY = ''binary''"

section \<open>Storing a definition\<close>

text \<open>The loop sets the node with subscript \<open>i\<close>; the nodes after the last one stay.\<close>

definition set_nth :: "nat \<Rightarrow> string \<Rightarrow> string list \<Rightarrow> string list" where
  "set_nth i v nodes = (if i < length nodes then nodes[i := v] else nodes @ [v])"

text \<open>\<open>cur_length\<close> is an \<open>int\<close>, and adding to it beyond \<open>INT_MAX\<close> is \<open>None\<close>: for a definition of more than 2147450880 bytes.\<close>

function store_fragments :: "(ydb_call \<Rightarrow> bool) \<Rightarrow> string \<Rightarrow> nat \<Rightarrow> int \<Rightarrow> string list \<Rightarrow> (bool \<times> string list) option" where
  "store_fragments fails function_defn i cur_length nodes =
     (if \<not> cur_length < int (length function_defn) then Some (True, nodes)
      else if fails (Set_fragment i) then Some (False, nodes)
      else (let nodes = set_nth i (take MAX_DEFINITION_FRAGMENT_SIZE (drop (nat cur_length) function_defn)) nodes;
                cur_length = cur_length + int MAX_DEFINITION_FRAGMENT_SIZE
            in if INT_MAX < cur_length then None
               else store_fragments fails function_defn (Suc i) cur_length nodes))"
  by pat_completeness auto
termination
  by (relation "measure (\<lambda>(_, function_defn, _, cur_length, _). nat (int (length function_defn) - cur_length))")
    (auto simp: MAX_DEFINITION_FRAGMENT_SIZE_def)

text \<open>For the binary definition (\<open>is_text\<close> is false). The first component is whether the status is \<open>YDB_OK\<close>.\<close>

definition store_function_definition ::
  "(ydb_call \<Rightarrow> bool) \<Rightarrow> string \<Rightarrow> function_node \<Rightarrow> (bool \<times> function_node) option" where
  "store_function_definition fails function_defn node = do {
     (ok, nodes) \<leftarrow> store_fragments fails function_defn 0 0 (binary_node node);
     let node = node\<lparr>binary_node := nodes\<rparr>;
     if \<not> ok then Some (False, node)
     else if fails Set_length then Some (False, node)
     else Some (True, node\<lparr>length_node := Some (show_int (int (length function_defn)))\<rparr>)
   }"

definition strtoll_oid :: "string \<Rightarrow> 64 word option" where
  "strtoll_oid s = (let v = fst (strtol s) in if v = LONG_MIN \<or> v = LONG_MAX then None else Some (word_of_int v))"

text \<open>The OID of a new function: the incremented counter, its node and the field of the function. The row of \<open>pg_proc\<close> is left
  out.\<close>

definition store_function_in_pg_proc ::
  "(ydb_call \<Rightarrow> bool) \<Rightarrow> string \<Rightarrow> string \<Rightarrow> SqlFunction \<Rightarrow> session \<Rightarrow> bool \<times> SqlFunction \<times> session" where
  "store_function_in_pg_proc fails function_name function_hash f s =
     (if fails Incr_oid then (False, f, s)
      else
        (let s = s\<lparr>octo_oid := octo_oid s + 1\<rparr>; proc_oid_str = show_int (octo_oid s); key = (function_name, function_hash)
         in if fails Set_pg_proc then (False, f, s)
            else if fails Set_oid then (False, f, s)
            else
              (let s = s\<lparr>octo := (octo s)(key := (octo s key)\<lparr>oid_node := Some proc_oid_str\<rparr>)\<rparr>
               in case strtoll_oid proc_oid_str of
                    None \<Rightarrow> (False, f, s)
                  | Some proc_oid \<Rightarrow> (True, f\<lparr>oid := proc_oid\<rparr>, s))))"

section \<open>The cache\<close>

text \<open>\<open>free\<close> of something that is not allocated is \<open>None\<close>.\<close>

definition free :: "nat \<Rightarrow> nat list \<Rightarrow> nat list option" where
  "free c live = (if c \<in> set live then Some (remove1 c live) else None)"

definition free_value :: "nat \<Rightarrow> session \<Rightarrow> session option" where
  "free_value c s = map_option (\<lambda>l. s\<lparr>live_values := l\<rparr>) (free c (live_values s))"

definition free_chunk_struct :: "nat \<Rightarrow> session \<Rightarrow> session option" where
  "free_chunk_struct c s = map_option (\<lambda>l. s\<lparr>live_chunks := l\<rparr>) (free c (live_chunks s))"

fun is_prefix :: "string list \<Rightarrow> string list \<Rightarrow> bool" where
  "is_prefix [] ys = True"
| "is_prefix (x # xs) [] = False"
| "is_prefix (x # xs) (y # ys) = (x = y \<and> is_prefix xs ys)"

definition delete_tree :: "string list \<Rightarrow> session \<Rightarrow> session" where
  "delete_tree key s = s\<lparr>loaded_schemas := (\<lambda>k. if is_prefix key k then None else loaded_schemas s k)\<rparr>"

datatype SqlSchemaType = TableSchema | FunctionSchema

text \<open>The result is whether the status is \<open>YDB_OK\<close>, and the state.\<close>

definition drop_schema_from_local_cache ::
  "(ydb_call \<Rightarrow> bool) \<Rightarrow> string \<Rightarrow> SqlSchemaType \<Rightarrow> string option \<Rightarrow> session \<Rightarrow> (bool \<times> session) option" where
  "drop_schema_from_local_cache fails name schema_type function_hash s =
     do {
       key \<leftarrow> (case (schema_type, function_hash) of
                 (TableSchema, None) \<Rightarrow> Some [OCTOLIT_TABLES, name]
               | (FunctionSchema, Some hash) \<Rightarrow> Some [OCTOLIT_FUNCTIONS, name, hash]
               | _ \<Rightarrow> None);
       if fails Drop_get then Some (False, s)
       else do {
         s \<leftarrow> (case loaded_schemas s key of
                None \<Rightarrow> Some s
              | Some (Stmt c _) \<Rightarrow> free_value c s
              | Some (Chunk c) \<Rightarrow> free_chunk_struct c s);
         if fails Drop_get_chunk then Some (False, s)
         else do {
           s \<leftarrow> (case loaded_schemas s (key @ [OCTOLIT_CHUNK]) of
                  None \<Rightarrow> Some s
                | Some (Stmt c _) \<Rightarrow> free_value c s
                | Some (Chunk c) \<Rightarrow> free_chunk_struct c s);
           if fails Drop_delete then Some (False, s) else Some (True, delete_tree key s)
         }
       }
     }"

text \<open>Whether the cached function can be used: the function, an error, or that it has to be dropped, or is not cached.\<close>

datatype cache_answer = Cached SqlFunction | Failed | Stale | Absent

definition check_cache :: "(ydb_call \<Rightarrow> bool) \<Rightarrow> string \<Rightarrow> string \<Rightarrow> session \<Rightarrow> cache_answer option" where
  "check_cache fails function_name function_hash s =
     (if fails Get_loaded then Some Failed
      else (case loaded_schemas s [OCTOLIT_FUNCTIONS, function_name, function_hash] of
          None \<Rightarrow> Some Absent
        | Some (Chunk _) \<Rightarrow> None
        | Some (Stmt c f) \<Rightarrow>
            if c \<notin> set (live_values s) then None
            else if fails Get_oid then Some Failed
            else (case oid_node (octo s (function_name, function_hash)) of
                None \<Rightarrow> Some Stale
              | Some t \<Rightarrow>
                  (case strtoll_oid t of
                     None \<Rightarrow> Some Failed
                   | Some db_oid \<Rightarrow> if db_oid \<noteq> oid f then Some Stale else Some (Cached f)))))"

section \<open>Loading a definition\<close>

text \<open>
  The loop over the fragments, from subscript \<open>i\<close> with what is in the buffer of \<open>len\<close> bytes; the result is whether
  the status is \<open>YDB_OK\<close>, and the buffer. An overflow of the buffer is \<open>None\<close>.
\<close>

fun read_fragments :: "(ydb_call \<Rightarrow> bool) \<Rightarrow> nat \<Rightarrow> nat \<Rightarrow> string \<Rightarrow> string list \<Rightarrow> (bool \<times> string) option" where
  "read_fragments fails len i buff [] =
     (if fails (Next_fragment i) then (if length buff < len then Some (False, buff) else None) else Some (True, buff))"
| "read_fragments fails len i buff (v # vs) =
     (if len \<le> length buff then None
      else if fails (Next_fragment i) \<or> fails (Get_fragment i) then Some (False, buff)
      else if len < length buff + length v \<or> MAX_DEFINITION_FRAGMENT_SIZE < length v then None
      else if length buff + length v = len then Some (True, buff @ v)
      else read_fragments fails len (Suc i) (buff @ v) vs)"

definition new_chunk :: "session \<Rightarrow> nat \<times> session" where
  "new_chunk s =
     (let c = next_chunk s
      in (c, s\<lparr>next_chunk := Suc c, live_values := c # live_values s, live_chunks := c # live_chunks s\<rparr>))"

definition OCTO_CFREE :: "nat \<Rightarrow> session \<Rightarrow> session option" where
  "OCTO_CFREE c s = Option.bind (free_value c s) (free_chunk_struct c)"

text \<open>The length of a definition: \<open>None\<close> if the node does not exist or has no number from 0 to \<open>INT32_MAX\<close>.\<close>

definition stored_length :: "function_node \<Rightarrow> nat option" where
  "stored_length node =
     (case length_node node of
        None \<Rightarrow> None
      | Some t \<Rightarrow> (let v = fst (strtol t) in if 0 \<le> v \<and> v \<le> INT_MAX then Some (nat v) else None))"

text \<open>
  The parse tree is noted under its function. The chunk is to be noted beneath it, but the call has
  the subscript of the hash overwritten and that of the fragments still in the fourth place.
\<close>

definition note_loaded :: "(ydb_call \<Rightarrow> bool) \<Rightarrow> string \<Rightarrow> string \<Rightarrow> nat \<Rightarrow> SqlFunction \<Rightarrow> session \<Rightarrow> (SqlFunction option \<times> session) option" where
  "note_loaded fails function_name function_hash c f s =
     (if fails Set_loaded then map_option (Pair None) (OCTO_CFREE c s)
      else
        (let s = s\<lparr>loaded_schemas := (loaded_schemas s)([OCTOLIT_FUNCTIONS, function_name, function_hash] \<mapsto> Stmt c f)\<rparr>
         in if fails Set_chunk then map_option (Pair None) (OCTO_CFREE c s)
            else Some (Some f, s\<lparr>loaded_schemas :=
              (loaded_schemas s)([OCTOLIT_FUNCTIONS, function_name, OCTOLIT_CHUNK, OCTOLIT_BINARY] \<mapsto> Chunk c)\<rparr>)))"

definition load_function ::
  "(ydb_call \<Rightarrow> bool) \<Rightarrow> (string \<Rightarrow> SqlFunction) \<Rightarrow> string \<Rightarrow> string \<Rightarrow> session \<Rightarrow> (SqlFunction option \<times> session) option" where
  "load_function fails decompress function_name function_hash s =
     (let node = octo s (function_name, function_hash)
      in if fails Get_length then Some (None, s)
         else (case stored_length node of
             None \<Rightarrow> Some (None, s)
           | Some len \<Rightarrow>
               (let (c, s) = new_chunk s
                in do {
                  (ok, buff) \<leftarrow> read_fragments fails len 0 [] (binary_node node);
                  if \<not> ok then map_option (Pair None) (OCTO_CFREE c s)
                  else if length buff \<noteq> len then None
                  else note_loaded fails function_name function_hash c (decompress buff) s
                })))"

text \<open>\<open>drop_expected\<close>: the environment variable \<open>octo_dbg_drop_cache_expected\<close>, which the \<open>assert\<close> asks for, is set.\<close>

definition find_function ::
  "(ydb_call \<Rightarrow> bool) \<Rightarrow> (string \<Rightarrow> SqlFunction) \<Rightarrow> bool \<Rightarrow> string \<Rightarrow> string \<Rightarrow> session \<Rightarrow> (SqlFunction option \<times> session) option" where
  "find_function fails decompress drop_expected function_name function_hash s =
     do {
       answer \<leftarrow> check_cache fails function_name function_hash s;
       (case answer of
          Cached f \<Rightarrow> Some (Some f, s)
        | Failed \<Rightarrow> Some (None, s)
        | Absent \<Rightarrow> load_function fails decompress function_name function_hash s
        | Stale \<Rightarrow>
            (if \<not> drop_expected then None
             else do {
               (ok, s) \<leftarrow> drop_schema_from_local_cache fails function_name FunctionSchema (Some function_hash) s;
               if ok then load_function fails decompress function_name function_hash s else Some (None, s)
             }))
     }"
section \<open>A stored definition is read back\<close>

function fragments :: "string \<Rightarrow> string list" where
  "fragments d = (if d = [] then [] else take MAX_DEFINITION_FRAGMENT_SIZE d # fragments (drop MAX_DEFINITION_FRAGMENT_SIZE d))"
  by pat_completeness auto
termination
  by (relation "measure length") (auto simp: MAX_DEFINITION_FRAGMENT_SIZE_def)

declare fragments.simps [simp del] store_fragments.simps [simp del]

lemma set_nth_take:
  "i \<le> length nodes \<Longrightarrow> set_nth i v nodes = take i nodes @ v # drop (Suc i) nodes"
  by (auto simp: set_nth_def upd_conv_take_nth_drop)

text \<open>Without errors all fragments are stored, unless \<open>cur_length\<close> overflows, which takes more than 2147450880 bytes.\<close>

lemma store_fragments_spec:
  assumes "i \<le> length nodes"
  shows "store_fragments (\<lambda>_. False) D i (int k) nodes
      = Some (True, take i nodes @ fragments (drop k D) @ drop (i + length (fragments (drop k D))) nodes)
    \<or> store_fragments (\<lambda>_. False) D i (int k) nodes = None \<and> 2147450880 < length D"
  using assms
proof (induction "length D - k" arbitrary: i k nodes rule: less_induct)
  case less
  show ?case
  proof (cases "k < length D")
    case False
    then show ?thesis
      by (simp add: store_fragments.simps [of _ D i] fragments.simps [of "[]"])
  next
    case k: True
    let ?v = "take MAX_DEFINITION_FRAGMENT_SIZE (drop k D)" and ?k = "k + MAX_DEFINITION_FRAGMENT_SIZE"
    have step: "store_fragments (\<lambda>_. False) D i (int k) nodes =
        (if INT_MAX < int ?k then None else store_fragments (\<lambda>_. False) D (Suc i) (int ?k) (set_nth i ?v nodes))"
      using k by (simp add: store_fragments.simps [of _ D i] Let_def)
    show ?thesis
    proof (cases "INT_MAX < int ?k")
      case True
      then have "2147450880 \<le> k" by (simp add: INT_MAX_def MAX_DEFINITION_FRAGMENT_SIZE_def)
      with k True show ?thesis by (simp add: step)
    next
      case small: False
      have l: "Suc i \<le> length (set_nth i ?v nodes)" using less.prems by (simp add: set_nth_take)
      have m: "length D - ?k < length D - k" using k by (simp add: MAX_DEFINITION_FRAGMENT_SIZE_def)
      have f: "fragments (drop k D) = ?v # fragments (drop ?k D)"
        using k by (simp add: fragments.simps [of "drop k D"] add.commute)
      have "take (Suc i) (set_nth i ?v nodes) = take i nodes @ [?v]"
        using less.prems by (simp add: set_nth_take take_Suc_conv_app_nth)
      moreover have "drop (Suc i + n) (set_nth i ?v nodes) = drop (Suc i + n) nodes" for n
        using less.prems by (simp add: set_nth_take add.commute)
      ultimately have "take (Suc i) (set_nth i ?v nodes) @ fragments (drop ?k D) @ drop (Suc i + length (fragments (drop ?k D))) (set_nth i ?v nodes)
          = take i nodes @ fragments (drop k D) @ drop (i + length (fragments (drop k D))) nodes"
        unfolding f by simp
      with less.hyps [OF m l] small step show ?thesis by simp
    qed
  qed
qed

lemma read_fragments_spec:
  "d \<noteq> [] \<Longrightarrow> read_fragments (\<lambda>_. False) (length buff + length d) i buff (fragments d @ rest) = Some (True, buff @ d)"
proof (induction "length d" arbitrary: i d buff rule: less_induct)
  case less
  let ?d = "drop MAX_DEFINITION_FRAGMENT_SIZE d" and ?v = "take MAX_DEFINITION_FRAGMENT_SIZE d"
  have frag: "fragments d @ rest = ?v # fragments ?d @ rest"
    using less.prems by (simp add: fragments.simps [of d])
  show ?case
  proof (cases "?d = []")
    case True
    then show ?thesis using less.prems unfolding frag by (auto simp: MAX_DEFINITION_FRAGMENT_SIZE_def)
  next
    case False
    then have "length ?d < length d" using less.prems by (simp add: MAX_DEFINITION_FRAGMENT_SIZE_def)
    from less.hyps [OF this False, of "buff @ ?v" "Suc i"]
    have "read_fragments (\<lambda>_. False) (length buff + length d) (Suc i) (buff @ ?v) (fragments ?d @ rest) = Some (True, buff @ d)"
      by (simp add: min_def split: if_splits)
    then show ?thesis using less.prems False unfolding frag by (auto simp: min_def split: if_splits)
  qed
qed

lemma stored_length_show:
  assumes "int n \<le> INT_MAX" and "length_node node = Some (show_int (int n))"
  shows "stored_length node = Some n"
proof -
  have "int n \<le> LONG_MAX" using assms(1) by (simp add: INT_MAX_def LONG_MAX_def)
  then have "fst (strtol (show_int (int n))) = int n" by (simp add: show_int_def strtol_digits)
  then show ?thesis using assms by (simp add: stored_length_def)
qed

lemma stored_and_read:
  fixes node :: function_node
  assumes "d \<noteq> []" and "int (length d) \<le> INT_MAX"
  defines "node' \<equiv> node\<lparr>binary_node := fragments d @ drop (length (fragments d)) (binary_node node), length_node := Some (show_int (int (length d)))\<rparr>"
  shows "store_function_definition (\<lambda>_. False) d node = Some (True, node')
      \<or> store_function_definition (\<lambda>_. False) d node = None \<and> 2147450880 < length d"
    and "oid_node node' = oid_node node" and "stored_length node' = Some (length d)"
    and "read_fragments (\<lambda>_. False) (length d) 0 [] (binary_node node') = Some (True, d)"
proof -
  show "store_function_definition (\<lambda>_. False) d node = Some (True, node')
      \<or> store_function_definition (\<lambda>_. False) d node = None \<and> 2147450880 < length d"
    using store_fragments_spec [of 0 "binary_node node" d 0] by (auto simp: store_function_definition_def node'_def Let_def)
  show "oid_node node' = oid_node node" by (simp add: node'_def)
  show "stored_length node' = Some (length d)"
    by (rule stored_length_show) (use assms(2) in \<open>simp_all add: node'_def\<close>)
  show "read_fragments (\<lambda>_. False) (length d) 0 [] (binary_node node') = Some (True, d)"
    using read_fragments_spec [OF assms(1), of "[]" 0] by (simp add: node'_def)
qed

text \<open>What is stored under a name and a hash: the parse tree of the stored definition.\<close>

definition node_definition :: "(string \<Rightarrow> SqlFunction) \<Rightarrow> function_node \<Rightarrow> SqlFunction option" where
  "node_definition decompress node =
     (case stored_length node of
        None \<Rightarrow> None
      | Some len \<Rightarrow>
          (case read_fragments (\<lambda>_. False) len 0 [] (binary_node node) of
             Some (True, b) \<Rightarrow> if length b = len then Some (decompress b) else None
           | _ \<Rightarrow> None))"

text \<open>Errors of the database only make the loop stop earlier.\<close>

lemma read_fragments_ok:
  "read_fragments fails len i buff vs = Some (True, b) \<Longrightarrow> read_fragments (\<lambda>_. False) len i buff vs = Some (True, b)"
  by (induction vs arbitrary: i buff) (auto split: if_splits)
section \<open>Sessions\<close>

text \<open>
  CREATE FUNCTION (\<open>run_query.c\<close>) gives the function its OID and stores the binary form of the parse tree that has it; it only comes
  so far when there are no nodes of the function. DROP FUNCTION deletes the nodes.
\<close>

definition create_function ::
  "(ydb_call \<Rightarrow> bool) \<Rightarrow> (SqlFunction \<Rightarrow> string) \<Rightarrow> string \<Rightarrow> string \<Rightarrow> SqlFunction \<Rightarrow> session \<Rightarrow> (bool \<times> session) option" where
  "create_function fails compress function_name function_hash f s =
     (let (ok, f, s) = store_function_in_pg_proc fails function_name function_hash f s
      in if \<not> ok then Some (False, s)
         else
           (let key = (function_name, function_hash)
            in map_option (\<lambda>(ok, node). (ok, s\<lparr>octo := (octo s)(key := node)\<rparr>))
                 (store_function_definition fails (compress f) (octo s key))))"

definition delete_function :: "string \<Rightarrow> string \<Rightarrow> session \<Rightarrow> session" where
  "delete_function function_name function_hash s = s\<lparr>octo := (octo s)((function_name, function_hash) := no_node)\<rparr>"

text \<open>The local variables of the process can be set, read and deleted; all other calls may fail.\<close>

definition local_calls_work :: "(ydb_call \<Rightarrow> bool) \<Rightarrow> bool" where
  "local_calls_work fails \<longleftrightarrow> \<not> fails Set_chunk \<and> \<not> fails Drop_get_chunk \<and> \<not> fails Drop_delete"

text \<open>The binary form of a parse tree is not empty, has less than 2 GB, and gives the parse tree back.\<close>

definition codec_works :: "(SqlFunction \<Rightarrow> string) \<Rightarrow> (string \<Rightarrow> SqlFunction) \<Rightarrow> SqlFunction \<Rightarrow> bool" where
  "codec_works compress decompress f \<longleftrightarrow>
     compress f \<noteq> [] \<and> int (length (compress f)) \<le> INT_MAX \<and> decompress (compress f) = f"

definition start :: session where
  "start = \<lparr>octo = (\<lambda>_. no_node), octo_oid = 0, loaded_schemas = (\<lambda>_. None), next_chunk = 0, live_values = [], live_chunks = []\<rparr>"

text \<open>
  The states that a process sees: functions are created and dropped by any process, and this one looks functions up and
  removes from its cache what it drops itself.
\<close>

inductive reachable :: "(SqlFunction \<Rightarrow> string) \<Rightarrow> (string \<Rightarrow> SqlFunction) \<Rightarrow> session \<Rightarrow> bool"
  for compress decompress where
  start: "reachable compress decompress start"
| create: "reachable compress decompress s \<Longrightarrow> octo s (name, hash) = no_node \<Longrightarrow>
    codec_works compress decompress (f\<lparr>oid := word_of_int (octo_oid s + 1)\<rparr>) \<Longrightarrow>
    create_function fails compress name hash f s = Some (ok, s') \<Longrightarrow> reachable compress decompress s'"
| drop_elsewhere: "reachable compress decompress s \<Longrightarrow> reachable compress decompress (delete_function name hash s)"
| drop_here: "reachable compress decompress s \<Longrightarrow> local_calls_work fails \<Longrightarrow>
    drop_schema_from_local_cache fails name FunctionSchema (Some hash) (delete_function name hash s) = Some (ok, s') \<Longrightarrow>
    reachable compress decompress s'"
| find: "reachable compress decompress s \<Longrightarrow> local_calls_work fails \<Longrightarrow>
    find_function fails decompress drop_expected name hash s = Some (r, s') \<Longrightarrow> reachable compress decompress s'"

text \<open>A node either has no definition yet, or that of a function with the OID of the node.\<close>

definition node_ok :: "(string \<Rightarrow> SqlFunction) \<Rightarrow> int \<Rightarrow> function_node \<Rightarrow> bool" where
  "node_ok decompress m node \<longleftrightarrow>
     (oid_node node = None \<or> (\<exists>i. oid_node node = Some (show_int i) \<and> 0 < i \<and> i \<le> m))
     \<and> (stored_length node = None \<or> (\<exists>i f. oid_node node = Some (show_int i) \<and> 0 < i \<and> i < LONG_MAX \<and> i \<le> m
          \<and> node_definition decompress node = Some f \<and> oid f = word_of_int i))"

text \<open>A cached function has an OID that was given once, and is the one stored under that OID if it is still there.\<close>

definition cached_ok :: "(string \<Rightarrow> SqlFunction) \<Rightarrow> session \<Rightarrow> string list \<Rightarrow> nat \<Rightarrow> SqlFunction \<Rightarrow> bool" where
  "cached_ok decompress s key c f \<longleftrightarrow>
     c \<in> set (live_values s) \<and> (\<exists>name hash i. key = [OCTOLIT_FUNCTIONS, name, hash] \<and> 0 < i \<and> i < LONG_MAX
       \<and> i \<le> octo_oid s \<and> oid f = word_of_int i
       \<and> (oid_node (octo s (name, hash)) = Some (show_int i) \<longrightarrow> node_definition decompress (octo s (name, hash)) = Some f))"

definition wf_session :: "(string \<Rightarrow> SqlFunction) \<Rightarrow> session \<Rightarrow> bool" where
  "wf_session decompress s \<longleftrightarrow> 0 \<le> octo_oid s
     \<and> (\<forall>key. node_ok decompress (octo_oid s) (octo s key))
     \<and> (\<forall>key c f. loaded_schemas s key = Some (Stmt c f) \<longrightarrow> cached_ok decompress s key c f)
     \<and> (\<forall>key c. loaded_schemas s key = Some (Chunk c) \<longrightarrow> (\<exists>name. key = [OCTOLIT_FUNCTIONS, name, OCTOLIT_CHUNK, OCTOLIT_BINARY]))
     \<and> (\<forall>key key' c f f'. loaded_schemas s key = Some (Stmt c f) \<longrightarrow> loaded_schemas s key' = Some (Stmt c f') \<longrightarrow> key = key')
     \<and> distinct (live_values s) \<and> (\<forall>c \<in> set (live_values s) \<union> set (live_chunks s). c < next_chunk s)"

lemma wf_sessionD:
  assumes "wf_session decompress s"
  shows "0 \<le> octo_oid s" and "node_ok decompress (octo_oid s) (octo s key)"
    and "loaded_schemas s k = Some (Stmt c f) \<Longrightarrow> cached_ok decompress s k c f"
    and "loaded_schemas s k = Some (Chunk c) \<Longrightarrow> \<exists>name. k = [OCTOLIT_FUNCTIONS, name, OCTOLIT_CHUNK, OCTOLIT_BINARY]"
    and "loaded_schemas s k = Some (Stmt c f) \<Longrightarrow> loaded_schemas s k' = Some (Stmt c f') \<Longrightarrow> k = k'"
    and "distinct (live_values s)" and "c \<in> set (live_values s) \<Longrightarrow> c < next_chunk s" and "c \<in> set (live_chunks s) \<Longrightarrow> c < next_chunk s"
  using assms unfolding wf_session_def by blast+

lemma wf_start: "wf_session decompress start"
  by (simp add: wf_session_def start_def node_ok_def no_node_def stored_length_def)

text \<open>A session with other nodes in the database.\<close>

lemma wf_octo:
  assumes "wf_session decompress s" and "octo_oid s \<le> m"
    and "\<And>k. node_ok decompress m (nodes k)"
    and "\<And>k i. 0 < i \<Longrightarrow> i \<le> octo_oid s \<Longrightarrow> oid_node (nodes k) = Some (show_int i) \<Longrightarrow> nodes k = octo s k"
  shows "wf_session decompress (s\<lparr>octo := nodes, octo_oid := m\<rparr>)"
proof -
  have "cached_ok decompress (s\<lparr>octo := nodes, octo_oid := m\<rparr>) k c f" if cached: "cached_ok decompress s k c f" for k c f
  proof -
    obtain name hash i where k: "k = [OCTOLIT_FUNCTIONS, name, hash]" and i: "0 < i" "i < LONG_MAX" "i \<le> octo_oid s"
      and f: "oid f = word_of_int i" "c \<in> set (live_values s)"
      and d: "oid_node (octo s (name, hash)) = Some (show_int i) \<longrightarrow> node_definition decompress (octo s (name, hash)) = Some f"
      using cached unfolding cached_ok_def by blast
    have "oid_node (nodes (name, hash)) = Some (show_int i) \<longrightarrow> node_definition decompress (nodes (name, hash)) = Some f"
      using assms(4) [OF i(1,3)] d by metis
    then show ?thesis using k i f assms(2) by (auto simp: cached_ok_def)
  qed
  then show ?thesis using assms(1-3) by (simp add: wf_session_def)
qed

lemma node_ok_mono: "node_ok decompress m node \<Longrightarrow> m \<le> m' \<Longrightarrow> node_ok decompress m' node"
  unfolding node_ok_def by (meson order_trans)

lemma node_ok_no_node [simp]: "node_ok decompress m no_node"
  by (simp add: node_ok_def no_node_def stored_length_def)

lemma wf_delete_function:
  assumes "wf_session decompress s"
  shows "wf_session decompress (delete_function name hash s)"
proof -
  have "wf_session decompress (s\<lparr>octo := (octo s)((name, hash) := no_node), octo_oid := octo_oid s\<rparr>)"
    by (rule wf_octo) (use assms in \<open>auto simp: no_node_def wf_session_def node_ok_no_node [unfolded no_node_def]\<close>)
  then show ?thesis by (simp add: delete_function_def)
qed

lemma show_int_inject: "0 < i \<Longrightarrow> 0 < j \<Longrightarrow> show_int i = show_int j \<Longrightarrow> i = j"
  by (simp add: show_int_def)

lemma oid_inject: "0 < i \<Longrightarrow> i \<le> LONG_MAX \<Longrightarrow> 0 < j \<Longrightarrow> j \<le> LONG_MAX \<Longrightarrow> (word_of_int i :: 64 word) = word_of_int j \<Longrightarrow> i = j"
  by (simp add: word_of_int_eq_iff take_bit_int_eq_self LONG_MAX_def)

lemma strtoll_show:
  assumes "0 < i"
  shows "strtoll_oid (show_int i) = (if i < LONG_MAX then Some (word_of_int i) else None)"
proof (cases "i \<le> LONG_MAX")
  case True
  then have "fst (strtol (show_int i)) = i" using assms by (simp add: show_int_def strtol_digits)
  then show ?thesis using assms True by (auto simp: strtoll_oid_def LONG_MIN_def)
next
  case False
  have "dropWhile is_space (show_nat (nat i)) = show_nat (nat i)"
    using show_nat_hd_number [of "nat i"] show_nat_nonempty [of "nat i"] by (cases "show_nat (nat i)") auto
  then have "fst (strtol (show_int i)) = LONG_MAX"
    using False assms by (simp add: strtol_def show_int_def signed_digits_digits)
  then show ?thesis using False by (simp add: strtoll_oid_def)
qed

lemma store_fragments_ok:
  "store_fragments fails d i cur nodes = Some (True, nodes') \<Longrightarrow> store_fragments (\<lambda>_. False) d i cur nodes = Some (True, nodes')"
proof (induction fails d i cur nodes rule: store_fragments.induct)
  case (1 fails d i cur nodes)
  show ?case
  proof (cases "cur < int (length d)")
    case False
    then show ?thesis using "1.prems" by (simp add: store_fragments.simps [of _ d i cur])
  next
    case True
    then have f: "\<not> fails (Set_fragment i)" using "1.prems" by (auto simp: store_fragments.simps [of fails d i cur])
    show ?thesis using "1.IH" [OF _ f refl refl] "1.prems" True f
      by (simp add: store_fragments.simps [of fails d i cur] store_fragments.simps [of "\<lambda>_. False" d i cur] Let_def split: if_splits)
  qed
qed

lemma store_definition_cases:
  assumes "store_function_definition fails d node = Some (ok, node')"
  shows "oid_node node' = oid_node node" and "\<not> ok \<Longrightarrow> length_node node' = length_node node"
    and "ok \<Longrightarrow> store_function_definition (\<lambda>_. False) d node = Some (True, node')"
  using assms store_fragments_ok [of fails d 0 0 "binary_node node"]
  by (auto simp: store_function_definition_def Let_def split: bind_splits if_splits)

text \<open>The node of a new function, complete or not.\<close>

lemma new_node_ok:
  assumes works: "codec_works compress decompress f" and o: "oid f = word_of_int i" "0 < i" "i < LONG_MAX" "i \<le> m"
    and node: "oid_node node = Some (show_int i)" "length_node node = None"
    and store: "store_function_definition fails (compress f) node = Some (ok, node')"
  shows "node_ok decompress m node'"
proof (cases ok)
  case True
  then have s: "store_function_definition (\<lambda>_. False) (compress f) node = Some (True, node')"
    using store_definition_cases(3) [OF store] by simp
  have c: "compress f \<noteq> []" "int (length (compress f)) \<le> INT_MAX" using works by (simp_all add: codec_works_def)
  have "stored_length node' = Some (length (compress f))"
    and "read_fragments (\<lambda>_. False) (length (compress f)) 0 [] (binary_node node') = Some (True, compress f)"
    using stored_and_read [OF c, of node] s by auto
  then have "node_definition decompress node' = Some f" using works by (simp add: node_definition_def codec_works_def)
  then show ?thesis using o node(1) store_definition_cases(1) [OF store] by (auto simp: node_ok_def)
next
  case False
  then show ?thesis using o node store_definition_cases(1,2) [OF store] by (auto simp: node_ok_def stored_length_def)
qed

lemma wf_create:
  assumes wf: "wf_session decompress s" and new: "octo s (name, hash) = no_node"
    and works: "codec_works compress decompress (f\<lparr>oid := word_of_int (octo_oid s + 1)\<rparr>)"
    and create: "create_function fails compress name hash f s = Some (ok, s')"
  shows "wf_session decompress s'"
proof -
  let ?i = "octo_oid s + 1"
  let ?node = "no_node\<lparr>oid_node := Some (show_int ?i)\<rparr>"
  have i: "0 < ?i" using wf_sessionD(1) [OF wf] by simp
  have same: "wf_session decompress (s\<lparr>octo_oid := ?i\<rparr>)"
    using wf_octo [OF wf, of ?i "octo s"] node_ok_mono [OF wf_sessionD(2) [OF wf], of ?i] by simp
  have other: "wf_session decompress (s\<lparr>octo := (octo s)((name, hash) := node), octo_oid := ?i\<rparr>)"
    if n: "node_ok decompress ?i node" "oid_node node = Some (show_int ?i)" for node
  proof (rule wf_octo [OF wf])
    show "node_ok decompress ?i (((octo s)((name, hash) := node)) k)" for k
      using node_ok_mono [OF wf_sessionD(2) [OF wf], of ?i] n by simp
    show "((octo s)((name, hash) := node)) k = octo s k"
      if "0 < j" "j \<le> octo_oid s" "oid_node (((octo s)((name, hash) := node)) k) = Some (show_int j)" for k j
      using that n show_int_inject [OF i, of j] by (auto split: if_splits)
  qed simp
  have node: "oid_node ?node = Some (show_int ?i)" "length_node ?node = None"
    by (simp_all add: no_node_def)
  consider (nothing) "fails Incr_oid"
    | (counted) "\<not> fails Incr_oid" "fails Set_pg_proc \<or> fails Set_oid"
    | (numbered) "\<not> fails Incr_oid" "\<not> fails Set_pg_proc" "\<not> fails Set_oid" by blast
  then show ?thesis
  proof cases
    case nothing
    then show ?thesis using create wf by (simp add: create_function_def store_function_in_pg_proc_def)
  next
    case counted
    then have "store_function_in_pg_proc fails name hash f s = (False, f, s\<lparr>octo_oid := ?i\<rparr>)"
      by (simp add: store_function_in_pg_proc_def Let_def) blast
    then show ?thesis using create same by (simp add: create_function_def)
  next
    case numbered
    show ?thesis
    proof (cases "?i < LONG_MAX")
      case False
      then have "s' = s\<lparr>octo := (octo s)((name, hash) := ?node), octo_oid := ?i\<rparr>"
        using create numbered i new strtoll_show [OF i]
        by (auto simp: create_function_def store_function_in_pg_proc_def Let_def)
      moreover have "node_ok decompress ?i ?node" using i by (auto simp: node_ok_def stored_length_def no_node_def)
      ultimately show ?thesis using other node by simp
    next
      case True
      obtain ok' node' where store: "store_function_definition fails (compress (f\<lparr>oid := word_of_int ?i\<rparr>)) ?node = Some (ok', node')"
        using create numbered i new True strtoll_show [OF i]
        by (auto simp: create_function_def store_function_in_pg_proc_def Let_def)
      have "s' = s\<lparr>octo := (octo s)((name, hash) := node'), octo_oid := ?i\<rparr>"
        using create numbered i new True strtoll_show [OF i] store
        by (auto simp: create_function_def store_function_in_pg_proc_def Let_def)
      moreover have "node_ok decompress ?i node'"
        by (rule new_node_ok [OF works _ i True _ node store]) simp_all
      ultimately show ?thesis using other node store_definition_cases(1) [OF store] by simp
    qed
  qed
qed

text \<open>Removing from the cache.\<close>

lemma free_live: "c \<in> set live \<Longrightarrow> free c live = Some (remove1 c live)"
  by (simp add: free_def)

lemma wf_drop:
  assumes wf: "wf_session decompress s" and works: "local_calls_work fails"
  shows "\<exists>ok s'. drop_schema_from_local_cache fails name FunctionSchema (Some hash) s = Some (ok, s')
    \<and> wf_session decompress s' \<and> octo s' = octo s \<and> (ok \<longrightarrow> loaded_schemas s' [OCTOLIT_FUNCTIONS, name, hash] = None)
    \<and> (\<not> fails Drop_get \<longrightarrow> ok)"
proof -
  let ?key = "[OCTOLIT_FUNCTIONS, name, hash]"
  note D = wf_sessionD [OF wf]
  have chunk: "loaded_schemas s (?key @ [OCTOLIT_CHUNK]) = None"
  proof (cases "loaded_schemas s (?key @ [OCTOLIT_CHUNK])")
    case (Some n)
    then show ?thesis using D(3) D(4) by (cases n) (fastforce simp: cached_ok_def OCTOLIT_CHUNK_def OCTOLIT_BINARY_def)+
  qed simp
  have not_chunk: "loaded_schemas s ?key \<noteq> Some (Chunk c)" for c using D(4) by fastforce
  have others: "cached_ok decompress (delete_tree ?key (s\<lparr>live_values := remove1 c (live_values s)\<rparr>)) k d g"
    if "loaded_schemas s ?key = Some (Stmt c f)" "k \<noteq> ?key" "loaded_schemas s k = Some (Stmt d g)" for c f k d g
  proof -
    have "d \<noteq> c" using D(5) that by blast
    moreover have "cached_ok decompress s k d g" using D(3) that by blast
    ultimately show ?thesis by (simp add: cached_ok_def delete_tree_def)
  qed
  show ?thesis
  proof (cases "fails Drop_get")
    case True
    then show ?thesis using wf by (intro exI [of _ False]) (simp add: drop_schema_from_local_cache_def)
  next
    case False
    show ?thesis
    proof (cases "loaded_schemas s ?key")
      case None
      have "wf_session decompress (delete_tree ?key s)"
        using wf by (auto simp: wf_session_def delete_tree_def cached_ok_def split: if_splits)
      then show ?thesis using False None chunk works
        by (intro exI [of _ True]) (simp add: drop_schema_from_local_cache_def local_calls_work_def delete_tree_def)
    next
      case (Some n)
      then obtain c f where n: "loaded_schemas s ?key = Some (Stmt c f)" using not_chunk by (cases n) auto
      then have c: "c \<in> set (live_values s)" using D(3) by (auto simp: cached_ok_def)
      let ?s = "delete_tree ?key (s\<lparr>live_values := remove1 c (live_values s)\<rparr>)"
      have "cached_ok decompress ?s k d g" if "loaded_schemas ?s k = Some (Stmt d g)" for k d g
      proof (rule others [OF n])
        show "k \<noteq> ?key" "loaded_schemas s k = Some (Stmt d g)"
          using that by (auto simp: delete_tree_def split: if_splits)
      qed
      moreover have "k = k'" if "loaded_schemas ?s k = Some (Stmt d g)" "loaded_schemas ?s k' = Some (Stmt d g')" for k k' d g g'
        using D(5) that by (auto simp: delete_tree_def split: if_splits)
      moreover have "\<exists>name. k = [OCTOLIT_FUNCTIONS, name, OCTOLIT_CHUNK, OCTOLIT_BINARY]"
        if "loaded_schemas ?s k = Some (Chunk d)" for k d
        using D(4) that by (auto simp: delete_tree_def split: if_splits)
      moreover have "octo ?s = octo s" "octo_oid ?s = octo_oid s" "next_chunk ?s = next_chunk s"
        "live_values ?s = remove1 c (live_values s)" "live_chunks ?s = live_chunks s" by (simp_all add: delete_tree_def)
      moreover have "\<forall>d\<in>set (remove1 c (live_values s)) \<union> set (live_chunks s). d < next_chunk s"
        using D(7,8) set_remove1_subset [of c "live_values s"] by blast
      ultimately have "wf_session decompress ?s"
        unfolding wf_session_def using D(1,2,6) by (metis distinct_remove1)
      then show ?thesis using False n c chunk works free_live [OF c]
        by (intro exI [of _ True]) (simp add: drop_schema_from_local_cache_def local_calls_work_def free_value_def delete_tree_def)
    qed
  qed
qed

section \<open>Looking a function up\<close>

text \<open>The effect of loading: the parse tree is noted under the key of the function.\<close>

definition cached_session :: "string \<Rightarrow> string \<Rightarrow> SqlFunction \<Rightarrow> session \<Rightarrow> session" where
  "cached_session name hash f s =
     (snd (new_chunk s))\<lparr>loaded_schemas := (loaded_schemas s)
        ([OCTOLIT_FUNCTIONS, name, hash] \<mapsto> Stmt (next_chunk s) f,
         [OCTOLIT_FUNCTIONS, name, OCTOLIT_CHUNK, OCTOLIT_BINARY] \<mapsto> Chunk (next_chunk s))\<rparr>"

lemma free_new: "OCTO_CFREE (next_chunk s) (snd (new_chunk s)) = Some (s\<lparr>next_chunk := Suc (next_chunk s)\<rparr>)"
  by (simp add: OCTO_CFREE_def new_chunk_def free_value_def free_chunk_struct_def free_def Let_def)

lemma wf_next_chunk: "wf_session decompress s \<Longrightarrow> wf_session decompress (s\<lparr>next_chunk := Suc (next_chunk s)\<rparr>)"
  unfolding wf_session_def cached_ok_def by (simp add: less_Suc_eq)

lemma wf_cached_session:
  assumes wf: "wf_session decompress s"
    and f: "oid f = word_of_int i" "0 < i" "i < LONG_MAX" "i \<le> octo_oid s"
      "node_definition decompress (octo s (name, hash)) = Some f"
  shows "wf_session decompress (cached_session name hash f s)"
proof -
  let ?s = "cached_session name hash f s" and ?key = "[OCTOLIT_FUNCTIONS, name, hash]"
  note D = wf_sessionD [OF wf]
  have parts: "octo ?s = octo s" "octo_oid ?s = octo_oid s" "next_chunk ?s = Suc (next_chunk s)"
    "live_values ?s = next_chunk s # live_values s" "live_chunks ?s = next_chunk s # live_chunks s"
    by (simp_all add: cached_session_def new_chunk_def Let_def)
  have stmts: "k = ?key \<and> c = next_chunk s \<and> g = f \<or> k \<noteq> ?key \<and> loaded_schemas s k = Some (Stmt c g)"
    if "loaded_schemas ?s k = Some (Stmt c g)" for k c g
    using that by (auto simp: cached_session_def split: if_splits)
  have live: "c < next_chunk s" if "loaded_schemas s k = Some (Stmt c g)" for k c g
    using D(3) D(7) that by (auto simp: cached_ok_def)
  have "cached_ok decompress ?s k c g" if "loaded_schemas ?s k = Some (Stmt c g)" for k c g
    using stmts [OF that]
  proof
    assume "k = ?key \<and> c = next_chunk s \<and> g = f"
    then show ?thesis using f by (auto simp: cached_ok_def parts)
  next
    assume "k \<noteq> ?key \<and> loaded_schemas s k = Some (Stmt c g)"
    then have "cached_ok decompress s k c g" using D(3) by blast
    then show ?thesis by (simp add: cached_ok_def parts)
  qed
  moreover have "k = k'" if "loaded_schemas ?s k = Some (Stmt c g)" "loaded_schemas ?s k' = Some (Stmt c g')" for k k' c g g'
    using stmts [OF that(1)] stmts [OF that(2)] D(5) live by blast
  moreover have "\<exists>name. k = [OCTOLIT_FUNCTIONS, name, OCTOLIT_CHUNK, OCTOLIT_BINARY]"
    if "loaded_schemas ?s k = Some (Chunk c)" for k c
    using D(4) that by (auto simp: cached_session_def split: if_splits)
  moreover have "distinct (next_chunk s # live_values s)" using D(6,7) by auto
  moreover have "\<forall>c\<in>set (next_chunk s # live_values s) \<union> set (next_chunk s # live_chunks s). c < Suc (next_chunk s)"
    using D(7,8) by (auto simp: less_Suc_eq)
  ultimately show ?thesis unfolding wf_session_def using D(1,2) unfolding parts by metis
qed

text \<open>Without errors the stored definition is loaded; with errors nothing or the same.\<close>

lemma load_function_cases:
  assumes "load_function fails decompress name hash s = Some (r, s')" and "\<not> fails Set_chunk"
  shows "r = None \<and> (s' = s \<or> s' = s\<lparr>next_chunk := Suc (next_chunk s)\<rparr>)
    \<or> (\<exists>f. r = Some f \<and> node_definition decompress (octo s (name, hash)) = Some f \<and> s' = cached_session name hash f s)"
proof -
  let ?node = "octo s (name, hash)"
  consider (none) "fails Get_length \<or> stored_length ?node = None"
    | (some) len where "\<not> fails Get_length" "stored_length ?node = Some len" by fastforce
  then show ?thesis
  proof cases
    case none
    then show ?thesis using assms(1) by (auto simp: load_function_def Let_def split: if_splits)
  next
    case some
    then obtain ok buff where read: "read_fragments fails len 0 [] (binary_node ?node) = Some (ok, buff)"
      using assms(1) by (auto simp: load_function_def Let_def new_chunk_def split: bind_splits)
    show ?thesis
    proof (cases ok)
      case False
      then show ?thesis using assms(1) some read free_new [of s]
        by (simp add: load_function_def Let_def new_chunk_def)
    next
      case True
      have "length buff = len" using assms(1) some read True
        by (auto simp: load_function_def Let_def new_chunk_def split: if_splits)
      then have "node_definition decompress ?node = Some (decompress buff)"
        using read_fragments_ok [of fails len 0 "[]" "binary_node ?node" buff] read some True by (simp add: node_definition_def)
      then show ?thesis
        using assms some read True free_new [of s]
        by (auto simp: load_function_def Let_def new_chunk_def note_loaded_def cached_session_def split: if_splits)
    qed
  qed
qed

lemma wf_load:
  assumes wf: "wf_session decompress s" and load: "load_function fails decompress name hash s = Some (r, s')"
    and "\<not> fails Set_chunk"
  shows "wf_session decompress s' \<and> octo s' = octo s \<and> octo_oid s' = octo_oid s"
proof -
  consider "s' = s" | "s' = s\<lparr>next_chunk := Suc (next_chunk s)\<rparr>"
    | f where "node_definition decompress (octo s (name, hash)) = Some f" "s' = cached_session name hash f s"
    using load_function_cases [OF load assms(3)] by blast
  then show ?thesis
  proof cases
    case 3
    then have "stored_length (octo s (name, hash)) \<noteq> None" by (auto simp: node_definition_def split: option.splits)
    then obtain i where "oid f = word_of_int i" "0 < i" "i < LONG_MAX" "i \<le> octo_oid s"
      using wf_sessionD(2) [OF wf, of "(name, hash)"] 3(1) by (auto simp: node_ok_def)
    then show ?thesis using wf_cached_session [OF wf] 3 by (simp add: cached_session_def new_chunk_def Let_def)
  qed (use wf wf_next_chunk in auto)
qed

lemma wf_find:
  assumes wf: "wf_session decompress s" and works: "local_calls_work fails"
    and find: "find_function fails decompress drop_expected name hash s = Some (r, s')"
  shows "wf_session decompress s' \<and> octo s' = octo s"
proof -
  have chunk: "\<not> fails Set_chunk" using works by (simp add: local_calls_work_def)
  obtain answer where a: "check_cache fails name hash s = Some answer"
    using find by (auto simp: find_function_def split: bind_splits)
  show ?thesis
  proof (cases answer)
    case Stale
    obtain ok s1 where drop: "drop_schema_from_local_cache fails name FunctionSchema (Some hash) s = Some (ok, s1)"
      and s1: "wf_session decompress s1" "octo s1 = octo s" using wf_drop [OF wf works] by blast
    then show ?thesis
      using find a Stale wf_load [where s = s1 and fails = fails and name = name and hash = hash and r = r and s' = s', OF s1(1) _ chunk] by (auto simp: find_function_def split: if_splits)
  qed (use find a wf wf_load [where s = s and fails = fails and name = name and hash = hash and r = r and s' = s', OF wf _ chunk] in \<open>auto simp: find_function_def\<close>)
qed

lemma reachable_wf: "reachable compress decompress s \<Longrightarrow> wf_session decompress s"
proof (induction rule: reachable.induct)
  case (create s name hash f fails ok s')
  then show ?case using wf_create by blast
next
  case (drop_here s fails name hash ok s')
  from wf_drop [OF wf_delete_function [OF drop_here.IH] drop_here.hyps(2), of name hash name hash]
  show ?case using drop_here.hyps(3) by auto
next
  case (find s fails drop_expected name hash r s')
  then show ?case using wf_find by blast
qed (simp_all add: wf_start wf_delete_function)
lemma load_function_works:
  assumes "\<And>len. stored_length (octo s (name, hash)) = Some len \<Longrightarrow> node_definition decompress (octo s (name, hash)) \<noteq> None"
  shows "load_function (\<lambda>_. False) decompress name hash s =
    (case node_definition decompress (octo s (name, hash)) of
       None \<Rightarrow> Some (None, s) | Some f \<Rightarrow> Some (Some f, cached_session name hash f s))"
proof (cases "stored_length (octo s (name, hash))")
  case None
  then show ?thesis by (simp add: load_function_def node_definition_def)
next
  case (Some len)
  then obtain b where "read_fragments (\<lambda>_. False) len 0 [] (binary_node (octo s (name, hash))) = Some (True, b)" "length b = len"
    using assms by (fastforce simp: node_definition_def split: option.splits prod.splits if_splits bool.splits)
  then show ?thesis using Some
    by (simp add: load_function_def node_definition_def Let_def new_chunk_def note_loaded_def cached_session_def)
qed

lemma wf_load_works:
  assumes "wf_session decompress s"
  shows "\<exists>s'. load_function (\<lambda>_. False) decompress name hash s = Some (node_definition decompress (octo s (name, hash)), s')
    \<and> octo s' = octo s"
proof -
  have "node_definition decompress (octo s (name, hash)) \<noteq> None" if "stored_length (octo s (name, hash)) = Some len" for len
    using wf_sessionD(2) [OF assms, of "(name, hash)"] that by (auto simp: node_ok_def)
  then show ?thesis
    by (auto simp: load_function_works cached_session_def new_chunk_def Let_def split: option.splits)
qed

text \<open>The cached function is used only if it is the one stored.\<close>

lemma check_cache_coherent:
  assumes wf: "wf_session decompress s"
  shows "case check_cache (\<lambda>_. False) name hash s of
      None \<Rightarrow> False
    | Some (Cached f) \<Rightarrow> node_definition decompress (octo s (name, hash)) = Some f
    | Some Failed \<Rightarrow> node_definition decompress (octo s (name, hash)) = None
    | Some _ \<Rightarrow> True"
proof -
  let ?node = "octo s (name, hash)"
  note D = wf_sessionD [OF wf]
  show ?thesis
  proof (cases "loaded_schemas s [OCTOLIT_FUNCTIONS, name, hash]")
    case None
    then show ?thesis by (simp add: check_cache_def)
  next
    case (Some n)
    then obtain c f where n: "loaded_schemas s [OCTOLIT_FUNCTIONS, name, hash] = Some (Stmt c f)"
      using D(4) by (cases n) fastforce+
    then obtain i where c: "c \<in> set (live_values s)" and i: "0 < i" "i < LONG_MAX" "oid f = word_of_int i"
      and d: "oid_node ?node = Some (show_int i) \<longrightarrow> node_definition decompress ?node = Some f"
      using D(3) by (fastforce simp: cached_ok_def)
    show ?thesis
    proof (cases "oid_node ?node")
      case None
      then show ?thesis using n c by (simp add: check_cache_def)
    next
      case (Some t)
      then obtain j where j: "t = show_int j" "0 < j" using D(2) [of "(name, hash)"] by (auto simp: node_ok_def)
      show ?thesis
      proof (cases "j < LONG_MAX")
        case True
        then have "i = j" if "word_of_int j = oid f" using oid_inject [of i j] i j that by simp
        then show ?thesis using n c Some j True d by (simp add: check_cache_def strtoll_show)
      next
        case False
        then have "stored_length ?node = None"
          using D(2) [of "(name, hash)"] Some j show_int_inject by (auto simp: node_ok_def)
        then show ?thesis using n c Some j False by (simp add: check_cache_def strtoll_show node_definition_def)
      qed
    qed
  qed
qed

lemma find_coherent:
  assumes wf: "wf_session decompress s"
  shows "\<exists>s'. find_function (\<lambda>_. False) decompress True name hash s = Some (node_definition decompress (octo s (name, hash)), s')
    \<and> octo s' = octo s"
proof -
  obtain answer where a: "check_cache (\<lambda>_. False) name hash s = Some answer"
    using check_cache_coherent [OF wf, of name hash] by (cases "check_cache (\<lambda>_. False) name hash s") auto
  show ?thesis
  proof (cases answer)
    case (Cached f)
    then show ?thesis using a check_cache_coherent [OF wf, of name hash] by (simp add: find_function_def)
  next
    case Failed
    then show ?thesis using a check_cache_coherent [OF wf, of name hash] by (simp add: find_function_def)
  next
    case Absent
    then show ?thesis using a wf_load_works [OF wf] by (simp add: find_function_def)
  next
    case Stale
    obtain s1 where "drop_schema_from_local_cache (\<lambda>_. False) name FunctionSchema (Some hash) s = Some (True, s1)"
      "wf_session decompress s1" "octo s1 = octo s"
      using wf_drop [OF wf, of "\<lambda>_. False" name hash] by (auto simp: local_calls_work_def)
    then show ?thesis using a Stale wf_load_works [of decompress s1 name hash] by (simp add: find_function_def)
  qed
qed

text \<open>When the chunk cannot be noted, its memory is freed, but the node of the function still points to it: the next lookup reads
  freed memory.\<close>

lemma chunk_not_noted_dangles:
  assumes "reachable compress decompress s" and "loaded_schemas s [OCTOLIT_FUNCTIONS, name, hash] = None"
    and "node_definition decompress (octo s (name, hash)) = Some f"
  shows "\<exists>s1. find_function (\<lambda>c. c = Set_chunk) decompress True name hash s = Some (None, s1)
    \<and> find_function (\<lambda>_. False) decompress True name hash s1 = None"
proof -
  let ?fails = "\<lambda>c. c = Set_chunk"
  obtain len b where b: "stored_length (octo s (name, hash)) = Some len" "length b = len" "decompress b = f"
    "read_fragments (\<lambda>_. False) len 0 [] (binary_node (octo s (name, hash))) = Some (True, b)"
    using assms(3) by (auto simp: node_definition_def split: option.splits prod.splits bool.splits if_splits)
  have "read_fragments ?fails len i buff vs = read_fragments (\<lambda>_. False) len i buff vs" for i buff vs
    by (induction vs arbitrary: i buff) simp_all
  then have "find_function ?fails decompress True name hash s = Some (None, s\<lparr>next_chunk := Suc (next_chunk s),
      loaded_schemas := (loaded_schemas s)([OCTOLIT_FUNCTIONS, name, hash] \<mapsto> Stmt (next_chunk s) f)\<rparr>)"
    using assms(2) b by (simp add: find_function_def check_cache_def load_function_def new_chunk_def note_loaded_def Let_def
        OCTO_CFREE_def free_value_def free_chunk_struct_def free_def)
  moreover have "next_chunk s \<notin> set (live_values s)"
    using wf_sessionD(7) [OF reachable_wf [OF assms(1)]] by blast
  ultimately show ?thesis by (simp add: find_function_def check_cache_def)
qed

section \<open>Properties\<close>

text \<open>C27: A definition of up to 2147450880 bytes is read back as it was stored, also over the fragments of an older and longer definition
  that are still there. Beyond that the \<open>int\<close> that counts the bytes overflows.\<close>

theorem definition_round_trip:
  assumes "d \<noteq> []" and "length d \<le> 2147450880"
  shows "\<exists>node'. store_function_definition (\<lambda>_. False) d node = Some (True, node') \<and> stored_length node' = Some (length d)
    \<and> read_fragments (\<lambda>_. False) (length d) 0 [] (binary_node node') = Some (True, d)"
proof -
  have "int (length d) \<le> INT_MAX" using assms(2) by (simp add: INT_MAX_def)
  from stored_and_read [OF assms(1) this, of node] assms(2) show ?thesis by auto
qed

lemma definition_round_trip_witness:
  "\<exists>node'. store_function_definition (\<lambda>_. False) (replicate 40000 CHR ''a'')
      \<lparr>oid_node = None, length_node = None, binary_node = [''x'', ''y'', ''z'']\<rparr> = Some (True, node')
    \<and> stored_length node' = Some 40000
    \<and> read_fragments (\<lambda>_. False) 40000 0 [] (binary_node node') = Some (True, replicate 40000 CHR ''a'')"
  using definition_round_trip [of "replicate 40000 CHR ''a''"] by simp

text \<open>C26: The cache is coherent: whatever functions were created and dropped by this process or by others, with or without errors of the
  database, \<open>find_function\<close> gives exactly the definition that is stored in the database under the name and the hash, or
  nothing if there is none, and changes nothing in the database.\<close>

theorem find_function_coherent:
  assumes "reachable compress decompress s"
  shows "\<exists>s'. find_function (\<lambda>_. False) decompress True name hash s = Some (node_definition decompress (octo s (name, hash)), s')
    \<and> octo s' = octo s"
  by (rule find_coherent [OF reachable_wf [OF assms]])

definition sample_function :: SqlFunction where
  "sample_function = \<lparr>parameter_types = [INTEGER_TYPE], return_type = STRING_TYPE, extrinsic_function = ''$$f^x'', oid = 1\<rparr>"

lemma sample_reachable:
  "\<exists>s. reachable (\<lambda>_. ''x'') (\<lambda>_. sample_function) s \<and> node_definition (\<lambda>_. sample_function) (octo s (''F'', ''h'')) = Some sample_function
    \<and> loaded_schemas s = (\<lambda>_. None) \<and> octo s (''F'', ''g'') = no_node"
proof -
  let ?s = "snd (the (create_function (\<lambda>_. False) (\<lambda>_. ''x'') ''F'' ''h'' sample_function start))"
  have c: "create_function (\<lambda>_. False) (\<lambda>_. ''x'') ''F'' ''h'' sample_function start = Some (True, ?s)"
    and "node_definition (\<lambda>_. sample_function) (octo ?s (''F'', ''h'')) = Some sample_function"
    and "loaded_schemas ?s = (\<lambda>_. None)" and "octo ?s (''F'', ''g'') = no_node"
    using stored_and_read [of "''x''" "no_node\<lparr>oid_node := Some (show_int 1)\<rparr>"] strtoll_show [of 1]
    by (auto simp: create_function_def store_function_in_pg_proc_def Let_def start_def node_definition_def LONG_MAX_def INT_MAX_def
          split: prod.splits)
  moreover have "reachable (\<lambda>_. ''x'') (\<lambda>_. sample_function) ?s"
    by (rule reachable.create [OF reachable.start _ _ c])
      (simp_all add: start_def codec_works_def sample_function_def INT_MAX_def)
  ultimately show ?thesis by blast
qed

lemma find_function_coherent_witness:
  "\<exists>s s'. reachable (\<lambda>_. ''x'') (\<lambda>_. sample_function) s
    \<and> find_function (\<lambda>_. False) (\<lambda>_. sample_function) True ''F'' ''h'' s = Some (Some sample_function, s')"
proof -
  obtain s where s: "reachable (\<lambda>_. ''x'') (\<lambda>_. sample_function) s"
    "node_definition (\<lambda>_. sample_function) (octo s (''F'', ''h'')) = Some sample_function"
    using sample_reachable by blast
  from find_function_coherent [OF s(1), of "''F''" "''h''"] s show ?thesis by auto
qed

text \<open>The structure of the chunk of a cached function is never freed: it is noted under other subscripts than those at which
  \<open>drop_schema_from_local_cache\<close> looks for it, so that dropping a function that was just loaded frees its memory but leaves the
  structure allocated.\<close>

theorem chunk_is_leaked:
  assumes "reachable compress decompress s" and "loaded_schemas s [OCTOLIT_FUNCTIONS, name, hash] = None"
    and "node_definition decompress (octo s (name, hash)) = Some f"
  shows "\<exists>s1 s2. find_function (\<lambda>_. False) decompress True name hash s = Some (Some f, s1)
    \<and> drop_schema_from_local_cache (\<lambda>_. False) name FunctionSchema (Some hash) s1 = Some (True, s2)
    \<and> live_values s2 = live_values s \<and> live_chunks s2 = next_chunk s # live_chunks s"
proof -
  let ?s1 = "cached_session name hash f s"
  have "find_function (\<lambda>_. False) decompress True name hash s = Some (Some f, ?s1)"
    using assms(2,3) by (simp add: find_function_def check_cache_def load_function_works)
  moreover have "loaded_schemas ?s1 [OCTOLIT_FUNCTIONS, name, hash] = Some (Stmt (next_chunk s) f)"
    by (simp add: cached_session_def)
  moreover have "loaded_schemas s [OCTOLIT_FUNCTIONS, name, hash, OCTOLIT_CHUNK] = None"
  proof (cases "loaded_schemas s [OCTOLIT_FUNCTIONS, name, hash, OCTOLIT_CHUNK]")
    case (Some n)
    then show ?thesis
      using wf_sessionD(3,4) [OF reachable_wf [OF assms(1)], of "[OCTOLIT_FUNCTIONS, name, hash, OCTOLIT_CHUNK]"]
      by (cases n) (fastforce simp: cached_ok_def OCTOLIT_CHUNK_def OCTOLIT_BINARY_def)+
  qed
  then have "loaded_schemas ?s1 [OCTOLIT_FUNCTIONS, name, hash, OCTOLIT_CHUNK] = None"
    by (simp add: cached_session_def OCTOLIT_CHUNK_def OCTOLIT_BINARY_def)
  moreover have "live_values ?s1 = next_chunk s # live_values s" "live_chunks ?s1 = next_chunk s # live_chunks s"
    by (simp_all add: cached_session_def new_chunk_def Let_def)
  ultimately show ?thesis
    by (simp add: drop_schema_from_local_cache_def free_value_def free_def delete_tree_def)
qed

lemma chunk_is_leaked_witness:
  "\<exists>s s1 s2. find_function (\<lambda>_. False) (\<lambda>_. sample_function) True ''F'' ''h'' s = Some (Some sample_function, s1)
    \<and> drop_schema_from_local_cache (\<lambda>_. False) ''F'' FunctionSchema (Some ''h'') s1 = Some (True, s2)
    \<and> live_values s2 = live_values s \<and> live_chunks s2 = next_chunk s # live_chunks s"
proof -
  obtain s where s: "reachable (\<lambda>_. ''x'') (\<lambda>_. sample_function) s"
    "node_definition (\<lambda>_. sample_function) (octo s (''F'', ''h'')) = Some sample_function" "loaded_schemas s = (\<lambda>_. None)"
    using sample_reachable by blast
  from chunk_is_leaked [OF s(1) _ s(2)] s(3) show ?thesis by fastforce
qed

end
