(* ===== verification/FunctionLookup.thy ===== *)
theory FunctionLookup
  imports FunctionStore
begin

text \<open>
  Which definition a function call uses: \<open>function_definition_lookup.c\<close>, and the check of a call in
  \<open>function_call_data_type_check.c\<close>.

  The lookup works on any store of functions with the contract of the locale \<open>function_store\<close>: looking up gives what is
  defined. \<open>FunctionStore.find_function\<close> keeps it.
  Arguments of the definitions are the hash of a name and the types of parameters (MurmurHash, in the library of YottaDB), the
  hashes under a name as the database gives them in its order (\<open>None\<close> is an error), and the most
  parameters a function may have (\<open>YDB_MAX_PARMS\<close>). \<open>None\<close> as a result is a failed \<open>assert\<close>.
\<close>

section \<open>The lookup\<close>

definition argument_matches :: "SqlValueType \<Rightarrow> SqlValueType \<Rightarrow> bool" where
  "argument_matches arg_type value_type =
     (case arg_type of
        NUL_VALUE \<Rightarrow> True
      | INTEGER_LITERAL \<Rightarrow> value_type = INTEGER_LITERAL \<or> value_type = NUMERIC_LITERAL
      | _ \<Rightarrow> arg_type = value_type)"

text \<open>The loop over the parameters of a prototype, which must use up the arguments.\<close>

fun parameters_match :: "SqlDataType list \<Rightarrow> SqlValueType list \<Rightarrow> bool option" where
  "parameters_match [] args = Some (args = [])"
| "parameters_match (p # ps) args =
     do {
       value_type \<leftarrow> get_sqlvaluetype_from_sqldatatype p False;
       (case args of
          [] \<Rightarrow> Some False
        | a # args \<Rightarrow> if argument_matches a value_type then parameters_match ps args else Some False)
     }"

record match_context =
  best_match :: "SqlFunction option"
  num_matches :: nat

definition differs :: "SqlFunction option \<Rightarrow> SqlFunction \<Rightarrow> bool" where
  "differs best f = (case best of None \<Rightarrow> True | Some g \<Rightarrow> extrinsic_function g \<noteq> extrinsic_function f)"

fun prototype_loop ::
  "(string \<Rightarrow> string \<Rightarrow> 's \<Rightarrow> (SqlFunction option \<times> 's) option) \<Rightarrow> string \<Rightarrow> SqlValueType list \<Rightarrow> string option list
     \<Rightarrow> match_context \<Rightarrow> 's \<Rightarrow> (int \<times> match_context \<times> 's) option" where
  "prototype_loop look name args [] m s = Some (0, m, s)"
| "prototype_loop look name args (None # hs) m s = Some (1, m, s)"
| "prototype_loop look name args (Some h # hs) m s =
     do {
       (function, s) \<leftarrow> look name h s;
       (case function of
          None \<Rightarrow> Some (1, m, s)
        | Some f \<Rightarrow>
            do {
              ok \<leftarrow> parameters_match (parameter_types f) args;
              if ok \<and> differs (best_match m) f then
                (let n = num_matches m + 1
                 in if 1 < n then Some (0, m\<lparr>num_matches := n\<rparr>, s)
                    else prototype_loop look name args hs \<lparr>best_match = Some f, num_matches = n\<rparr> s)
              else prototype_loop look name args hs m s
            })
     }"

text \<open>\<open>NULL\<close> counts as a string for the exact lookup; then there must be an ambiguous argument.\<close>

definition hashed_types :: "SqlValueType list \<Rightarrow> SqlValueType list" where
  "hashed_types args = map (\<lambda>t. if t = NUL_VALUE then STRING_LITERAL else t) args"

definition function_definition_lookup ::
  "(string \<Rightarrow> string \<Rightarrow> 's \<Rightarrow> (SqlFunction option \<times> 's) option) \<Rightarrow> (string \<Rightarrow> SqlValueType list \<Rightarrow> string) \<Rightarrow> string option list
     \<Rightarrow> string \<Rightarrow> SqlValueType list \<Rightarrow> nat \<Rightarrow> 's \<Rightarrow> (int \<times> match_context \<times> 's) option" where
  "function_definition_lookup look hash hashes name args num_ambiguous_args s =
     (if NUL_VALUE \<in> set args \<and> num_ambiguous_args = 0 then None
      else do {
        (function, s) \<leftarrow> look name (hash name (hashed_types args)) s;
        let m = \<lparr>best_match = function, num_matches = (if function = None then 0 else 1)\<rparr>;
        if num_ambiguous_args = 0 \<or> num_matches m \<noteq> 0 then Some (0, m, s)
        else if args = [] then None
        else prototype_loop look name args hashes m s
      })"

section \<open>The check of a call\<close>

datatype call_error =
    ERR_TOO_MANY_FUNCTION_ARGUMENTS string nat
  | ERR_UNKNOWN_FUNCTION string string
  | ERR_FUNCTION_NOT_UNIQUE string string

definition FUNC_PARM_SEPARATOR :: string where "FUNC_PARM_SEPARATOR = '', ''"

definition OCTOLIT_NONE :: string where "OCTOLIT_NONE = ''none''"

definition MAX_FUNC_TYPES_LEN :: "nat \<Rightarrow> nat" where
  "MAX_FUNC_TYPES_LEN max_parms = max_parms * (MAX_TYPE_NAME_LEN + (length FUNC_PARM_SEPARATOR + 1))"

text \<open>\<open>snprintf\<close> at the end of the text, with the \<open>assert\<close> that nothing is cut off.\<close>

definition append_text :: "nat \<Rightarrow> string \<Rightarrow> string \<Rightarrow> string option" where
  "append_text len text s = (if length s < len - length text then Some (text @ s) else None)"

record call_context =
  arg_types :: "SqlValueType list"
  ambiguous_args :: nat
  parm_types :: string
  call_type :: SqlValueType
  call_result :: int
  call_errors :: "call_error list"

text \<open>
  The loop over the arguments. \<open>populate\<close> is \<open>populate_data_type\<close> or \<open>qualify_check_constraint\<close>: whether it reports an error, and
  the type of the expression, which the second call fixes.
\<close>

fun argument_loop ::
  "nat \<Rightarrow> ('e \<Rightarrow> SqlValueType option \<Rightarrow> bool \<times> SqlValueType) \<Rightarrow> string \<Rightarrow> 'e list \<Rightarrow> call_context \<Rightarrow> call_context option" where
  "argument_loop max_parms populate name [] fc = Some fc"
| "argument_loop max_parms populate name (e # es) fc =
     (if max_parms < length (arg_types fc) + 1 then
        Some (fc\<lparr>call_result := 1, call_errors := call_errors fc @ [ERR_TOO_MANY_FUNCTION_ARGUMENTS name max_parms]\<rparr>)
      else
        (let (failed, t) = populate e None
         in if failed then Some (fc\<lparr>call_result := 1, call_type := t\<rparr>)
            else do {
              t \<leftarrow> (if t \<noteq> BOOLEAN_OR_STRING_LITERAL then Some t
                   else if populate e (Some STRING_LITERAL) = (False, STRING_LITERAL) then Some STRING_LITERAL else None);
              s \<leftarrow> get_user_visible_type_string t;
              text \<leftarrow> append_text (MAX_FUNC_TYPES_LEN max_parms) (parm_types fc) s;
              text \<leftarrow> (if es = [] then Some text else append_text (MAX_FUNC_TYPES_LEN max_parms) text FUNC_PARM_SEPARATOR);
              argument_loop max_parms populate name es
                (fc\<lparr>arg_types := arg_types fc @ [t],
                    ambiguous_args := ambiguous_args fc + (if t = NUL_VALUE \<or> t = INTEGER_LITERAL then 1 else 0),
                    parm_types := text, call_type := t\<rparr>)
            }))"

text \<open>The result, the type, the definition that is chosen (\<open>function_schema\<close>) and the errors.\<close>

definition function_call_data_type_check ::
  "(string \<Rightarrow> string \<Rightarrow> 's \<Rightarrow> (SqlFunction option \<times> 's) option) \<Rightarrow> (string \<Rightarrow> SqlValueType list \<Rightarrow> string) \<Rightarrow> string option list
     \<Rightarrow> nat \<Rightarrow> ('e \<Rightarrow> SqlValueType option \<Rightarrow> bool \<times> SqlValueType) \<Rightarrow> string \<Rightarrow> 'e list \<Rightarrow> SqlValueType \<Rightarrow> 's
     \<Rightarrow> (int \<times> SqlValueType \<times> SqlFunction option \<times> call_error list \<times> 's) option" where
  "function_call_data_type_check look hash hashes max_parms populate name parameters type s =
     do {
       fc \<leftarrow> argument_loop max_parms populate name parameters
              \<lparr>arg_types = [], ambiguous_args = 0, parm_types = (if parameters = [] then OCTOLIT_NONE else []),
               call_type = type, call_result = 0, call_errors = []\<rparr>;
       if call_result fc \<noteq> 0 then Some (call_result fc, call_type fc, None, call_errors fc, s)
       else do {
         (ret, m, s) \<leftarrow> function_definition_lookup look hash hashes name (arg_types fc) (ambiguous_args fc) s;
         if ret \<noteq> 0 then Some (1, call_type fc, None, [], s)
         else if num_matches m = 0 then Some (1, call_type fc, None, [ERR_UNKNOWN_FUNCTION name (parm_types fc)], s)
         else if 1 < num_matches m then
           (if best_match m = None then None
            else Some (1, call_type fc, None, [ERR_FUNCTION_NOT_UNIQUE name (parm_types fc)], s))
         else do {
           f \<leftarrow> best_match m;
           t \<leftarrow> get_sqlvaluetype_from_sqldatatype (return_type f) False;
           Some (0, t, Some f, [], s)
         }
       }
     }"
section \<open>The contract of the store\<close>

text \<open>A lookup gives what is defined, and changes neither that nor the invariant of the store.\<close>

locale function_store =
  fixes look :: "string \<Rightarrow> string \<Rightarrow> 's \<Rightarrow> (SqlFunction option \<times> 's) option"
    and defs :: "'s \<Rightarrow> string \<times> string \<Rightarrow> SqlFunction option"
    and inv :: "'s \<Rightarrow> bool"
  assumes look_gives: "inv s \<Longrightarrow> \<exists>s'. look name h s = Some (defs s (name, h), s') \<and> inv s' \<and> defs s' = defs s"

text \<open>A prototype fits when each of its parameters takes the argument in its place.\<close>

definition accepts :: "SqlValueType list \<Rightarrow> SqlFunction \<Rightarrow> bool" where
  "accepts args f \<longleftrightarrow> list_all2 (\<lambda>a p. case get_sqlvaluetype_from_sqldatatype p False of
     None \<Rightarrow> False | Some v \<Rightarrow> argument_matches a v) args (parameter_types f)"

definition known_types :: "SqlFunction \<Rightarrow> bool" where
  "known_types f \<longleftrightarrow> UNKNOWN_SqlDataType \<notin> set (parameter_types f)"

lemma known_type: "p \<noteq> UNKNOWN_SqlDataType \<Longrightarrow> \<exists>v. get_sqlvaluetype_from_sqldatatype p False = Some v"
  by (cases p) (simp_all add: get_sqlvaluetype_from_sqldatatype_def)

lemma parameters_match_accepts:
  "UNKNOWN_SqlDataType \<notin> set ps \<Longrightarrow> parameters_match ps args = Some (list_all2 (\<lambda>a p. case get_sqlvaluetype_from_sqldatatype p False of
     None \<Rightarrow> False | Some v \<Rightarrow> argument_matches a v) args ps)"
proof (induction ps arbitrary: args)
  case (Cons p ps)
  then obtain v where "get_sqlvaluetype_from_sqldatatype p False = Some v" using known_type [of p] by auto
  then show ?case using Cons by (cases args) auto
qed simp

lemma prototype_accepts: "known_types f \<Longrightarrow> parameters_match (parameter_types f) args = Some (accepts args f)"
  by (simp add: known_types_def accepts_def parameters_match_accepts)

text \<open>The prototypes that fit, and how many different routines they call, counted up to two.\<close>

definition fitting :: "SqlValueType list \<Rightarrow> SqlFunction list \<Rightarrow> SqlFunction list" where
  "fitting args fs = filter (accepts args) fs"

definition routines :: "SqlFunction list \<Rightarrow> string set" where
  "routines fs = extrinsic_function ` set fs"

text \<open>The loop over a list of prototypes, without the store.\<close>

fun scan :: "SqlFunction option \<Rightarrow> nat \<Rightarrow> SqlFunction list \<Rightarrow> SqlFunction option \<times> nat" where
  "scan best n [] = (best, n)"
| "scan best n (f # fs) =
     (if differs best f then (if 1 < n + 1 then (best, n + 1) else scan (Some f) (n + 1) fs) else scan best n fs)"

lemma scan_one:
  "scan (Some g) (Suc 0) fs = (Some g, if routines fs \<subseteq> {extrinsic_function g} then 1 else 2)"
  by (induction fs) (auto simp: differs_def routines_def)

lemma scan_result:
  "scan None 0 fs = (case fs of [] \<Rightarrow> None | f # _ \<Rightarrow> Some f, min 2 (card (routines fs)))"
proof (cases fs)
  case (Cons f gs)
  have fin: "finite (routines gs)" by (simp add: routines_def)
  have "card (routines fs) = Suc (card (routines gs - {extrinsic_function f}))"
    using Cons by (simp add: routines_def card.insert_remove)
  moreover have "routines gs \<subseteq> {extrinsic_function f} \<longleftrightarrow> card (routines gs - {extrinsic_function f}) = 0"
    using fin by auto
  moreover have "scan None 0 fs = scan (Some f) (Suc 0) gs" by (simp add: Cons differs_def)
  ultimately show ?thesis unfolding scan_one using Cons by simp
qed (simp add: routines_def)

context function_store
begin

lemma look_step:
  assumes "inv s"
  obtains s' where "look name h s = Some (defs s (name, h), s')" "inv s'" "defs s' = defs s"
  using look_gives [OF assms] by blast

lemma prototype_loop_scan:
  assumes "inv s" and "map (\<lambda>h. defs s (name, h)) hs = map Some fs" and "list_all known_types fs" and "num_matches m \<le> 1"
    and "best_match m = None \<longleftrightarrow> num_matches m = 0"
  shows "\<exists>m' s'. prototype_loop look name args (map Some hs) m s = Some (0, m', s') \<and> inv s' \<and> defs s' = defs s
    \<and> scan (best_match m) (num_matches m) (fitting args fs) = (best_match m', num_matches m')"
  using assms
proof (induction hs arbitrary: fs m s)
  case Nil
  then show ?case by (auto simp: fitting_def)
next
  case (Cons h hs)
  then obtain f gs where fs: "fs = f # gs" and f: "defs s (name, h) = Some f" and gs: "map (\<lambda>h. defs s (name, h)) hs = map Some gs"
    by (cases fs) auto
  obtain s1 where s1: "look name h s = Some (Some f, s1)" "inv s1" "defs s1 = defs s"
    using look_step [OF Cons.prems(1), of name h] f by metis
  have k: "known_types f" "list_all known_types gs" using Cons.prems(3) fs by simp_all
  have gs1: "map (\<lambda>h. defs s1 (name, h)) hs = map Some gs" using gs s1 by simp
  note step = prototype_accepts [OF k(1), of args] s1(1)
  show ?case
  proof (cases "accepts args f \<and> differs (best_match m) f")
    case False
    with Cons.IH [OF s1(2) gs1 k(2) Cons.prems(4,5)] step s1(3) fs show ?thesis by (auto simp: fitting_def)
  next
    case True
    show ?thesis
    proof (cases "num_matches m = 0")
      case True
      let ?m = "\<lparr>best_match = Some f, num_matches = num_matches m + 1\<rparr>"
      have "num_matches ?m \<le> 1" "best_match ?m = None \<longleftrightarrow> num_matches ?m = 0" using True by simp_all
      from Cons.IH [OF s1(2) gs1 k(2) this] step s1(3) fs \<open>accepts args f \<and> differs (best_match m) f\<close> True
      show ?thesis by (auto simp: fitting_def)
    next
      case False
      then show ?thesis using step s1 fs True by (auto simp: fitting_def)
    qed
  qed
qed

lemma lookup_exact:
  assumes "inv s" and "NUL_VALUE \<notin> set args \<or> 0 < num" and "defs s (name, hash name (hashed_types args)) = Some f"
  shows "\<exists>s'. function_definition_lookup look hash hashes name args num s
    = Some (0, \<lparr>best_match = Some f, num_matches = 1\<rparr>, s') \<and> inv s' \<and> defs s' = defs s"
  using look_gives [OF assms(1), of name "hash name (hashed_types args)"] assms(2,3)
  by (auto simp: function_definition_lookup_def)

lemma lookup_unambiguous:
  assumes "inv s" and "NUL_VALUE \<notin> set args" and "defs s (name, hash name (hashed_types args)) = None"
  shows "\<exists>s'. function_definition_lookup look hash hashes name args 0 s
    = Some (0, \<lparr>best_match = None, num_matches = 0\<rparr>, s') \<and> inv s' \<and> defs s' = defs s"
  using look_gives [OF assms(1), of name "hash name (hashed_types args)"] assms(2,3)
  by (auto simp: function_definition_lookup_def)

lemma lookup_scan:
  assumes "inv s" and "0 < num" and "args \<noteq> []" and "defs s (name, hash name (hashed_types args)) = None"
    and "map (\<lambda>h. defs s (name, h)) hs = map Some fs" and "list_all known_types fs"
  shows "\<exists>m s'. function_definition_lookup look hash (map Some hs) name args num s = Some (0, m, s') \<and> inv s' \<and> defs s' = defs s
    \<and> num_matches m = min 2 (card (routines (fitting args fs)))
    \<and> best_match m = (case fitting args fs of [] \<Rightarrow> None | f # _ \<Rightarrow> Some f)"
proof -
  obtain s1 where s1: "look name (hash name (hashed_types args)) s = Some (None, s1)" "inv s1" "defs s1 = defs s"
    using look_step [OF assms(1), of name "hash name (hashed_types args)"] assms(4) by metis
  have "map (\<lambda>h. defs s1 (name, h)) hs = map Some fs" using assms(5) s1 by simp
  from prototype_loop_scan [OF s1(2) this assms(6), of "\<lparr>best_match = None, num_matches = 0\<rparr>" args]
  show ?thesis using s1 assms(2,3) by (auto simp: function_definition_lookup_def scan_result)
qed

end
section \<open>The store of the sessions\<close>

lemma session_store:
  assumes "wf_session decompress s"
  shows "\<exists>s'. find_function (\<lambda>_. False) decompress True name h s = Some (node_definition decompress (octo s (name, h)), s')
    \<and> wf_session decompress s'
    \<and> (\<lambda>key. node_definition decompress (octo s' key)) = (\<lambda>key. node_definition decompress (octo s key))"
proof -
  obtain s' where s': "find_function (\<lambda>_. False) decompress True name h s = Some (node_definition decompress (octo s (name, h)), s')"
    "octo s' = octo s"
    using find_coherent [OF assms] by blast
  then have "wf_session decompress s'" using wf_find [OF assms _ s'(1)] by (simp add: local_calls_work_def)
  then show ?thesis using s' by simp
qed

interpretation sessions: function_store "find_function (\<lambda>_. False) decompress True"
    "\<lambda>s key. node_definition decompress (octo s key)" "wf_session decompress" for decompress
  by unfold_locales (rule session_store)

section \<open>The arguments of a call\<close>

definition argument_type :: "('e \<Rightarrow> SqlValueType option \<Rightarrow> bool \<times> SqlValueType) \<Rightarrow> 'e \<Rightarrow> SqlValueType" where
  "argument_type populate e =
     (let t = snd (populate e None) in if t = BOOLEAN_OR_STRING_LITERAL then STRING_LITERAL else t)"

definition populated :: "('e \<Rightarrow> SqlValueType option \<Rightarrow> bool \<times> SqlValueType) \<Rightarrow> 'e \<Rightarrow> bool" where
  "populated populate e \<longleftrightarrow> \<not> fst (populate e None) \<and> resolved (argument_type populate e)
     \<and> (snd (populate e None) = BOOLEAN_OR_STRING_LITERAL \<longrightarrow> populate e (Some STRING_LITERAL) = (False, STRING_LITERAL))"

definition ambiguous :: "SqlValueType \<Rightarrow> bool" where
  "ambiguous t \<longleftrightarrow> t = NUL_VALUE \<or> t = INTEGER_LITERAL"

lemma resolved_name:
  "resolved t \<Longrightarrow> \<exists>s. get_user_visible_type_string t = Some s \<and> length s < MAX_TYPE_NAME_LEN"
  by (cases t) (simp_all add: resolved_def concrete_def IS_DATE_TIME_TYPE_def get_user_visible_type_string_def MAX_TYPE_NAME_LEN_def)

text \<open>One argument more, which leaves room for the next one.\<close>

definition add_argument :: "SqlValueType \<Rightarrow> string \<Rightarrow> call_context \<Rightarrow> call_context" where
  "add_argument t msg fc =
     fc\<lparr>arg_types := arg_types fc @ [t], ambiguous_args := ambiguous_args fc + (if ambiguous t then 1 else 0),
        parm_types := msg, call_type := t\<rparr>"

lemma argument_step:
  assumes "length (arg_types fc) < n" and "length (parm_types fc) \<le> 26 * length (arg_types fc)" and ok: "populated populate e"
  shows "\<exists>msg. argument_loop n populate name (e # es) fc
      = argument_loop n populate name es (add_argument (argument_type populate e) msg fc)
    \<and> length msg \<le> 26 * (length (arg_types fc) + 1)"
proof -
  let ?t = "argument_type populate e"
  obtain s where s: "get_user_visible_type_string ?t = Some s" "length s < 25"
    using resolved_name ok by (fastforce simp: populated_def MAX_TYPE_NAME_LEN_def)
  let ?msg = "parm_types fc @ s @ (if es = [] then [] else FUNC_PARM_SEPARATOR)"
  have room: "26 * length (arg_types fc) + 26 \<le> 26 * n" using assms(1) by simp
  have len: "MAX_FUNC_TYPES_LEN n = 28 * n" by (simp add: MAX_FUNC_TYPES_LEN_def MAX_TYPE_NAME_LEN_def FUNC_PARM_SEPARATOR_def)
  have msg: "append_text (MAX_FUNC_TYPES_LEN n) (parm_types fc) s = Some (parm_types fc @ s)"
    "append_text (MAX_FUNC_TYPES_LEN n) (parm_types fc @ s) FUNC_PARM_SEPARATOR = Some (parm_types fc @ s @ FUNC_PARM_SEPARATOR)"
    using room s(2) assms(1,2) by (auto simp: append_text_def len FUNC_PARM_SEPARATOR_def)
  have "argument_loop n populate name (e # es) fc = argument_loop n populate name es (add_argument ?t ?msg fc)"
    using assms(1) ok s(1) msg
    by (cases "populate e None") (auto simp: populated_def argument_type_def add_argument_def ambiguous_def Let_def)
  moreover have "length ?msg \<le> 26 * (length (arg_types fc) + 1)"
    using s(2) assms(2) by (simp add: FUNC_PARM_SEPARATOR_def)
  ultimately show ?thesis by blast
qed

lemma argument_loop_total:
  assumes "length (arg_types fc) + length es \<le> n" and "length (parm_types fc) \<le> 26 * length (arg_types fc)"
    and "list_all (populated populate) es" and "call_result fc = 0"
  shows "\<exists>fc'. argument_loop n populate name es fc = Some fc' \<and> arg_types fc' = arg_types fc @ map (argument_type populate) es
    \<and> ambiguous_args fc' = ambiguous_args fc + length (filter ambiguous (map (argument_type populate) es))
    \<and> call_result fc' = 0 \<and> call_errors fc' = call_errors fc"
  using assms
proof (induction es arbitrary: fc)
  case (Cons e es)
  have "length (arg_types fc) < n" "populated populate e" using Cons.prems by simp_all
  then obtain msg where msg: "argument_loop n populate name (e # es) fc
      = argument_loop n populate name es (add_argument (argument_type populate e) msg fc)"
    "length msg \<le> 26 * (length (arg_types fc) + 1)"
    using argument_step [OF _ Cons.prems(2)] by metis
  let ?fc = "add_argument (argument_type populate e) msg fc"
  have "length (arg_types ?fc) + length es \<le> n" "length (parm_types ?fc) \<le> 26 * length (arg_types ?fc)"
    "list_all (populated populate) es" "call_result ?fc = 0"
    using Cons.prems msg(2) by (simp_all add: add_argument_def)
  from Cons.IH [OF this] msg(1) show ?case by (auto simp: add_argument_def)
qed simp

text \<open>What the loop has done when it reports no error.\<close>

lemma argument_loop_types:
  "argument_loop n populate name es fc = Some fc' \<Longrightarrow> call_result fc' = 0 \<Longrightarrow> call_result fc = 0 \<Longrightarrow>
     arg_types fc' = arg_types fc @ map (argument_type populate) es
     \<and> ambiguous_args fc' = ambiguous_args fc + length (filter ambiguous (map (argument_type populate) es))"
proof (induction es arbitrary: fc)
  case (Cons e es)
  obtain failed t where p: "populate e None = (failed, t)" by fastforce
  have n: "\<not> n < length (arg_types fc) + 1" "\<not> failed" using Cons.prems p by (auto split: if_splits)
  then obtain msg where step: "argument_loop n populate name es (add_argument (argument_type populate e) msg fc) = Some fc'"
    using Cons.prems(1) p
    by (auto simp: argument_type_def add_argument_def ambiguous_def split: if_splits bind_splits)
  from Cons.IH [OF step Cons.prems(2)] Cons.prems(3) show ?case by (auto simp: add_argument_def)
qed simp
section \<open>The verdict on a call\<close>

lemma ambiguous_num:
  "(\<exists>t\<in>set ts. ambiguous t) \<Longrightarrow> 0 < length (filter ambiguous ts)"
  by (auto simp: filter_empty_conv)

lemma null_is_ambiguous: "NUL_VALUE \<notin> set ts \<or> 0 < length (filter ambiguous ts)"
  using ambiguous_num [of ts] by (auto simp: ambiguous_def)

definition initial_call :: "SqlValueType \<Rightarrow> 'e list \<Rightarrow> call_context" where
  "initial_call type parameters =
     \<lparr>arg_types = [], ambiguous_args = 0, parm_types = (if parameters = [] then OCTOLIT_NONE else []),
      call_type = type, call_result = 0, call_errors = []\<rparr>"

lemma initial_loop:
  assumes "parameters \<noteq> []" and "length parameters \<le> n" and "list_all (populated populate) parameters"
  shows "\<exists>fc. argument_loop n populate name parameters (initial_call type parameters) = Some fc
    \<and> arg_types fc = map (argument_type populate) parameters
    \<and> ambiguous_args fc = length (filter ambiguous (map (argument_type populate) parameters)) \<and> call_result fc = 0"
  using argument_loop_total [of "initial_call type parameters" parameters n populate name] assms
  by (auto simp: initial_call_def)

definition returns :: "SqlFunction \<Rightarrow> SqlValueType option" where
  "returns f = get_sqlvaluetype_from_sqldatatype (return_type f) False"

text \<open>The outcome of a call: the function that is used with its type, or the error.\<close>

datatype outcome = Uses SqlFunction SqlValueType | Unknown | Not_unique

definition outcome :: "(int \<times> SqlValueType \<times> SqlFunction option \<times> call_error list \<times> 's) option \<Rightarrow> outcome option" where
  "outcome r =
     (case r of
        None \<Rightarrow> None
      | Some (res, t, schema, errs, _) \<Rightarrow>
          (if res = 0 then map_option (\<lambda>f. Uses f t) schema
           else (case errs of
               [ERR_UNKNOWN_FUNCTION _ _] \<Rightarrow> Some Unknown
             | [ERR_FUNCTION_NOT_UNIQUE _ _] \<Rightarrow> Some Not_unique
             | _ \<Rightarrow> None)))"

definition expected :: "SqlFunction list \<Rightarrow> outcome option" where
  "expected fs =
     (case fs of
        [] \<Rightarrow> Some Unknown
      | f # _ \<Rightarrow> if card (routines fs) = 1 then map_option (Uses f) (returns f) else Some Not_unique)"

lemma routines_empty: "card (routines fs) = 0 \<longleftrightarrow> fs = []"
  by (simp add: routines_def)

lemma call_outcome:
  assumes s: "wf_session decompress s" and p: "parameters \<noteq> []" "length parameters \<le> n" "list_all (populated populate) parameters"
    and args: "args = map (argument_type populate) parameters" and amb: "\<exists>t\<in>set args. ambiguous t"
    and no_exact: "node_definition decompress (octo s (name, hash name (hashed_types args))) = None"
    and hs: "map (\<lambda>h. node_definition decompress (octo s (name, h))) hs = map Some fs" and known: "list_all known_types fs"
    and ret: "list_all (\<lambda>f. return_type f \<noteq> UNKNOWN_SqlDataType) fs"
  shows "outcome (function_call_data_type_check (find_function (\<lambda>_. False) decompress True) hash (map Some hs) n populate name
    parameters type s) = expected (fitting args fs)"
proof -
  obtain fc where fc: "argument_loop n populate name parameters (initial_call type parameters) = Some fc"
    "arg_types fc = args" "ambiguous_args fc = length (filter ambiguous args)" "call_result fc = 0"
    using initial_loop [OF p] args by blast
  have "0 < length (filter ambiguous args)" by (rule ambiguous_num [OF amb])
  moreover have "args \<noteq> []" using p(1) args by simp
  ultimately obtain m s' where m: "function_definition_lookup (find_function (\<lambda>_. False) decompress True) hash (map Some hs) name args
      (length (filter ambiguous args)) s = Some (0, m, s')"
    "num_matches m = min 2 (card (routines (fitting args fs)))"
    "best_match m = (case fitting args fs of [] \<Rightarrow> None | f # _ \<Rightarrow> Some f)"
    using sessions.lookup_scan [where hash = hash and name = name and args = args and hs = hs, OF s _ _ no_exact hs known] by blast
  have check: "function_call_data_type_check (find_function (\<lambda>_. False) decompress True) hash (map Some hs) n populate name parameters type s =
    (if num_matches m = 0 then Some (1, call_type fc, None, [ERR_UNKNOWN_FUNCTION name (parm_types fc)], s')
     else if 1 < num_matches m then
       (if best_match m = None then None else Some (1, call_type fc, None, [ERR_FUNCTION_NOT_UNIQUE name (parm_types fc)], s'))
     else Option.bind (best_match m) (\<lambda>f. Option.bind (returns f) (\<lambda>t. Some (0, t, Some f, [], s'))))"
    using fc m(1) by (simp add: function_call_data_type_check_def initial_call_def [symmetric] returns_def)
  show ?thesis
  proof (cases "fitting args fs")
    case Nil
    then show ?thesis using m(2) by (simp add: check outcome_def expected_def routines_def)
  next
    case (Cons f gs)
    then have "f \<in> set (fitting args fs)" by simp
    then have "f \<in> set fs" by (simp add: fitting_def)
    then have "return_type f \<noteq> UNKNOWN_SqlDataType" using ret by (auto simp: list_all_iff)
    then obtain t where t: "returns f = Some t" using known_type by (auto simp: returns_def)
    have c: "card (routines (f # gs)) \<noteq> 0" using routines_empty by blast
    have best: "best_match m = Some f" using m(3) Cons by simp
    show ?thesis
    proof (cases "card (routines (f # gs)) = 1")
      case True
      then have "num_matches m = 1" using m(2) Cons by simp
      then show ?thesis using True Cons best t by (simp add: check outcome_def expected_def)
    next
      case False
      then have "num_matches m = 2" using m(2) Cons c by simp
      then show ?thesis using False Cons best by (simp add: check outcome_def expected_def)
    qed
  qed
qed



lemma match_accepts: "parameters_match (parameter_types f) args = Some True \<Longrightarrow> accepts args f"
proof -
  have "parameters_match ps args = Some True \<Longrightarrow> list_all2 (\<lambda>a p. case get_sqlvaluetype_from_sqldatatype p False of
     None \<Rightarrow> False | Some v \<Rightarrow> argument_matches a v) args ps" for ps
    by (induction ps args rule: parameters_match.induct) (auto split: bind_splits list.splits if_splits)
  then show "parameters_match (parameter_types f) args = Some True \<Longrightarrow> accepts args f" by (simp add: accepts_def)
qed

context function_store
begin

text \<open>Whatever the loop ends with fits, if what it began with does.\<close>

lemma prototype_loop_fits:
  assumes "prototype_loop look name args hs m s = Some (r, m', s')" and "inv s"
    and "\<And>f. best_match m = Some f \<Longrightarrow> accepts args f" and "best_match m' = Some f"
  shows "accepts args f"
  using assms
proof (induction hs arbitrary: m s)
  case (Cons h hs)
  show ?case
  proof (cases h)
    case None
    then show ?thesis using Cons.prems by auto
  next
    case (Some k)
    obtain s1 where s1: "look name k s = Some (defs s (name, k), s1)" "inv s1"
      using look_step [OF Cons.prems(2)] by metis
    show ?thesis
    proof (cases "defs s (name, k)")
      case None
      then show ?thesis using Cons.prems s1 Some by auto
    next
      case g: (Some g)
      then obtain ok where ok: "parameters_match (parameter_types g) args = Some ok"
        using Cons.prems(1) s1(1) Some by (auto split: bind_splits)
      have fits: "ok \<Longrightarrow> accepts args g" using match_accepts ok by simp
      show ?thesis
      proof (cases "ok \<and> differs (best_match m) g")
        case False
        have "(if ok \<and> differs (best_match m) g
            then (let n = num_matches m + 1
                  in if 1 < n then Some (0, m\<lparr>num_matches := n\<rparr>, s1)
                     else prototype_loop look name args hs \<lparr>best_match = Some g, num_matches = n\<rparr> s1)
            else prototype_loop look name args hs m s1) = Some (r, m', s')"
          using Cons.prems(1) s1(1) Some g ok by simp
        then have "prototype_loop look name args hs m s1 = Some (r, m', s')"
          by (simp only: False if_False)
        then show ?thesis using Cons.IH s1(2) Cons.prems(3,4) by blast
      next
        case True
        show ?thesis
        proof (cases "num_matches m = 0")
          case False
          then show ?thesis using Cons.prems s1(1) Some g ok True by auto
        next
          case zero: True
          then have "prototype_loop look name args hs \<lparr>best_match = Some g, num_matches = 1\<rparr> s1 = Some (r, m', s')"
            using Cons.prems(1) s1(1) Some g ok True by simp
          then show ?thesis by (rule Cons.IH [OF _ s1(2) _ Cons.prems(4)]) (use fits True in auto)
        qed
      qed
    qed
  qed
qed auto

lemma lookup_fits:
  assumes "function_definition_lookup look hash hashes name args num s = Some (r, m, s')" and "inv s"
    and "\<And>f. defs s (name, hash name (hashed_types args)) = Some f \<Longrightarrow> accepts args f" and "best_match m = Some f"
  shows "accepts args f"
proof -
  obtain s1 where s1: "look name (hash name (hashed_types args)) s = Some (defs s (name, hash name (hashed_types args)), s1)" "inv s1"
    using look_step [OF assms(2)] by metis
  let ?m = "\<lparr>best_match = defs s (name, hash name (hashed_types args)),
    num_matches = if defs s (name, hash name (hashed_types args)) = None then 0 else 1\<rparr>"
  have "m = ?m \<or> prototype_loop look name args hashes ?m s1 = Some (r, m, s')"
    using assms(1) s1(1) by (auto simp: function_definition_lookup_def Let_def split: if_splits)
  then show ?thesis
  proof
    assume "m = ?m"
    then show ?thesis using assms(3,4) by simp
  next
    assume "prototype_loop look name args hashes ?m s1 = Some (r, m, s')"
    from prototype_loop_fits [OF this s1(2) _ assms(4)] assms(3) show ?thesis by simp
  qed
qed

end

text \<open>The hash of a definition is that of its name and of the types of its parameters (\<open>hash_canonical_query.c\<close>), without collisions.\<close>

definition hashed_by_types :: "(string \<Rightarrow> SqlValueType list \<Rightarrow> string) \<Rightarrow> string \<Rightarrow> (string \<Rightarrow> SqlFunction option) \<Rightarrow> bool" where
  "hashed_by_types hash name defs \<longleftrightarrow>
     (\<forall>types f. defs (hash name types) = Some f \<longrightarrow>
        map (\<lambda>p. get_sqlvaluetype_from_sqldatatype p False) (parameter_types f) = map Some types)"

lemma hashed_types_match:
  "map (\<lambda>p. get_sqlvaluetype_from_sqldatatype p False) ps = map Some (hashed_types args) \<Longrightarrow>
     list_all2 (\<lambda>a p. case get_sqlvaluetype_from_sqldatatype p False of None \<Rightarrow> False | Some v \<Rightarrow> argument_matches a v) args ps"
proof (induction args arbitrary: ps)
  case (Cons a args)
  then show ?case
    by (cases ps) (auto simp: hashed_types_def argument_matches_def split: SqlValueType.splits)
qed (simp add: hashed_types_def)

lemma exact_accepts:
  assumes "hashed_by_types hash name defs" and "defs (hash name (hashed_types args)) = Some f"
  shows "accepts args f"
  using assms hashed_types_match [of "parameter_types f" args] unfolding hashed_by_types_def accepts_def by blast
section \<open>Properties\<close>

text \<open>C28: A call with an argument that is \<open>NULL\<close> or an integer always gets a verdict when there is no prototype whose types are exactly those of the
  arguments, with STRING in place of NULL (such a prototype would be used, whatever else fits): it is unknown if no prototype fits, not unique
  if those that fit call different routines, and otherwise uses the first one that fits, in the order of the hashes. The text of the types always
  has room. So which prototypes there are decides on the error alone, but the type of the call depends on the order of the hashes when
  prototypes of one routine return different types.\<close>

theorem call_verdict:
  assumes "reachable compress decompress s" and "parameters \<noteq> []" and "length parameters \<le> max_parms"
    and "list_all (populated populate) parameters" and "args = map (argument_type populate) parameters"
    and "list_ex ambiguous args" and "node_definition decompress (octo s (name, hash name (hashed_types args))) = None"
    and "map (\<lambda>h. node_definition decompress (octo s (name, h))) hs = map Some fs" and "list_all known_types fs"
    and "list_all (\<lambda>f. return_type f \<noteq> UNKNOWN_SqlDataType) fs"
  shows "outcome (function_call_data_type_check (find_function (\<lambda>_. False) decompress True) hash (map Some hs) max_parms populate name
    parameters type s) = expected (fitting args fs)"
  by (rule call_outcome [where hash = hash and name = name, OF reachable_wf [OF assms(1)] assms(2-5) _ assms(7-10)]) (use assms(6) in \<open>simp add: list_ex_iff\<close>)

definition sample_populate :: "SqlValueType \<Rightarrow> SqlValueType option \<Rightarrow> bool \<times> SqlValueType" where
  "sample_populate t fix_type = (False, case fix_type of None \<Rightarrow> t | Some u \<Rightarrow> u)"

lemma call_verdict_witness:
  "\<exists>s. reachable (\<lambda>_. ''x'') (\<lambda>_. sample_function) s
    \<and> outcome (function_call_data_type_check (find_function (\<lambda>_. False) (\<lambda>_. sample_function) True) (\<lambda>_ _. ''g'') [Some ''h''] 32
        sample_populate ''F'' [NUL_VALUE] UNKNOWN_SqlValueType s) = Some (Uses sample_function STRING_LITERAL)"
proof -
  obtain s where s: "reachable (\<lambda>_. ''x'') (\<lambda>_. sample_function) s"
    "node_definition (\<lambda>_. sample_function) (octo s (''F'', ''h'')) = Some sample_function"
    "node_definition (\<lambda>_. sample_function) (octo s (''F'', ''g'')) = None"
    using sample_reachable by (auto simp: node_definition_def stored_length_def no_node_def)
  have args: "[NUL_VALUE] = map (argument_type sample_populate) [NUL_VALUE]"
    by (simp add: argument_type_def sample_populate_def)
  have "accepts [NUL_VALUE] sample_function"
    by (simp add: accepts_def sample_function_def argument_matches_def get_sqlvaluetype_from_sqldatatype_def)
  then have "expected (fitting [NUL_VALUE] [sample_function]) = Some (Uses sample_function STRING_LITERAL)"
    by (simp add: fitting_def expected_def routines_def returns_def sample_function_def get_sqlvaluetype_from_sqldatatype_def)
  moreover have "outcome (function_call_data_type_check (find_function (\<lambda>_. False) (\<lambda>_. sample_function) True) (\<lambda>_ _. ''g'')
      (map Some [''h'']) 32 sample_populate ''F'' [NUL_VALUE] UNKNOWN_SqlValueType s)
    = expected (fitting [NUL_VALUE] [sample_function])"
    by (rule call_verdict [OF s(1) _ _ _ args])
      (use s in \<open>simp_all add: populated_def sample_populate_def argument_type_def ambiguous_def known_types_def sample_function_def
         resolved_def concrete_def\<close>)
  ultimately show ?thesis using s(1) by auto
qed

text \<open>A call that is accepted uses a function that takes its arguments, each of them for the parameter in its place, and has the
  type that this function returns; it reports no error.\<close>

theorem accepted_call_fits:
  assumes "reachable compress decompress s" and "hashed_by_types hash name (\<lambda>h. node_definition decompress (octo s (name, h)))"
    and "function_call_data_type_check (find_function (\<lambda>_. False) decompress True) hash hashes max_parms populate name parameters type s
      = Some (0, t, schema, errs, s')"
  shows "errs = [] \<and> (case schema of None \<Rightarrow> False
    | Some f \<Rightarrow> accepts (map (argument_type populate) parameters) f \<and> returns f = Some t)"
proof -
  obtain fc where fc: "argument_loop max_parms populate name parameters (initial_call type parameters) = Some fc" "call_result fc = 0"
    using assms(3) by (auto simp: function_call_data_type_check_def initial_call_def split: bind_splits if_splits)
  then have args: "arg_types fc = map (argument_type populate) parameters"
    using argument_loop_types [OF fc] by (simp add: initial_call_def)
  obtain m s1 f where m: "function_definition_lookup (find_function (\<lambda>_. False) decompress True) hash hashes name (arg_types fc) (ambiguous_args fc) s
      = Some (0, m, s1)" "best_match m = Some f" and r: "schema = Some f" "returns f = Some t" "errs = []"
    using assms(3) fc by (auto simp: function_call_data_type_check_def initial_call_def [symmetric] returns_def split: bind_splits if_splits)
  have "accepts (arg_types fc) f"
    by (rule sessions.lookup_fits [OF m(1) reachable_wf [OF assms(1)] _ m(2)]) (rule exact_accepts [OF assms(2)])
  then show ?thesis using r args by simp
qed

lemma accepted_call_fits_witness:
  "accepts [NUL_VALUE] sample_function \<and> returns sample_function = Some STRING_LITERAL"
proof -
  obtain s where s: "reachable (\<lambda>_. ''x'') (\<lambda>_. sample_function) s"
    "node_definition (\<lambda>_. sample_function) (octo s (''F'', ''h'')) = Some sample_function"
    "node_definition (\<lambda>_. sample_function) (octo s (''F'', ''g'')) = None"
    using sample_reachable by (auto simp: node_definition_def stored_length_def no_node_def)
  let ?call = "function_call_data_type_check (find_function (\<lambda>_. False) (\<lambda>_. sample_function) True) (\<lambda>_ _. ''g'') [Some ''h''] 32
        sample_populate ''F'' [NUL_VALUE] UNKNOWN_SqlValueType s"
  note wf = reachable_wf [OF s(1)]
  obtain s1 where s1: "find_function (\<lambda>_. False) (\<lambda>_. sample_function) True ''F'' ''g'' s = Some (None, s1)" "octo s1 = octo s"
    using find_coherent [OF wf, of "''F''" "''g''"] unfolding s(3) by blast
  have wf1: "wf_session (\<lambda>_. sample_function) s1"
    using wf_find [OF wf _ s1(1)] by (simp add: local_calls_work_def)
  obtain s2 where s2: "find_function (\<lambda>_. False) (\<lambda>_. sample_function) True ''F'' ''h'' s1 = Some (Some sample_function, s2)"
    using find_coherent [OF wf1, of "''F''" "''h''"] unfolding s1(2) s(2) by blast
  have "argument_loop 32 sample_populate ''F'' [NUL_VALUE] (initial_call UNKNOWN_SqlValueType [NUL_VALUE])
    = Some \<lparr>arg_types = [NUL_VALUE], ambiguous_args = 1, parm_types = ''NULL'', call_type = NUL_VALUE, call_result = 0, call_errors = []\<rparr>"
    by (simp add: initial_call_def sample_populate_def get_user_visible_type_string_def append_text_def MAX_FUNC_TYPES_LEN_def
        MAX_TYPE_NAME_LEN_def FUNC_PARM_SEPARATOR_def)
  then have "?call = Some (0, STRING_LITERAL, Some sample_function, [], s2)"
    using s1(1) s2
    by (simp add: function_call_data_type_check_def initial_call_def function_definition_lookup_def hashed_types_def differs_def
        sample_function_def argument_matches_def get_sqlvaluetype_from_sqldatatype_def)
  moreover have "hashed_by_types (\<lambda>_ _. ''g'') ''F'' (\<lambda>h. node_definition (\<lambda>_. sample_function) (octo s (''F'', h)))"
    using s(3) by (simp add: hashed_by_types_def)
  ultimately show ?thesis using accepted_call_fits [OF s(1)] by (fastforce simp: argument_type_def sample_populate_def)
qed

end
