(* ===== verification/Regex.thy ===== *)
theory Regex
  imports TypeCheck
begin

text \<open>
  \<open>regex_has_no_special_characters.c\<close>: the check whether the pattern of \<open>LIKE\<close> or \<open>SIMILAR TO\<close> is a plain string, by
  which the comparison becomes an equality. The buffer \<open>ptr_minus_escape\<close> is the string written to it so far, \<open>None\<close> before it is
  allocated. \<open>None\<close> as a result is a failed \<open>assert\<close>.

  The meaning of a \<open>LIKE\<close> pattern is defined beside it: the two wildcards, and the backslash that
  takes the next character literally. The theorem is that the check returns 1 or -1 exactly for the patterns with a single match, and that
  this is the string that replaces the pattern.
\<close>

section \<open>The check\<close>

datatype RegexType = REGEX_LIKE | REGEX_SIMILARTO

definition special :: "RegexType \<Rightarrow> char \<Rightarrow> bool" where
  "special regex_type ch \<longleftrightarrow> ch = CHR ''%'' \<or> ch = CHR ''_''
     \<or> (ch \<in> set ''|*+([{?'' \<and> regex_type = REGEX_SIMILARTO)"

text \<open>The loop: the characters before the current one, whether it is escaped, the buffer, and the rest of the pattern.
  The result is whether there are special characters, and the buffer.\<close>

fun regex_loop :: "RegexType \<Rightarrow> string \<Rightarrow> bool \<Rightarrow> string option \<Rightarrow> string \<Rightarrow> bool \<times> string option" where
  "regex_loop regex_type seen esc_state buffer [] = (esc_state, buffer)"
| "regex_loop regex_type seen esc_state buffer (ch # s) =
     (if esc_state then
        regex_loop regex_type (seen @ [ch]) False
          (Some ((case buffer of None \<Rightarrow> butlast seen | Some b \<Rightarrow> b) @ [ch])) s
      else if ch = CHR 0x5C then regex_loop regex_type (seen @ [ch]) True buffer s
      else if special regex_type ch then (True, buffer)
      else regex_loop regex_type (seen @ [ch]) False (map_option (\<lambda>b. b @ [ch]) buffer) s)"

text \<open>
  \<open>parse_literal_to_parameter\<close> stores the new text of the literal under its parameter; whether that succeeds depends on the
  database and is the argument \<open>stored\<close>. The result is 1, 0 or -1, and the statement.
\<close>

definition regex_has_no_special_characters ::
  "(nat \<Rightarrow> string \<Rightarrow> bool) \<Rightarrow> SqlStatement \<Rightarrow> RegexType \<Rightarrow> (int \<times> SqlStatement) option" where
  "regex_has_no_special_characters stored stmt regex_type =
     (case stmt of
        value_STATEMENT type string_literal parameter_index \<Rightarrow>
          (if \<not> IS_STRING_TYPE type then Some (0, stmt)
           else
             (let (has_regex_chars, buffer) = regex_loop regex_type [] False None string_literal
              in if has_regex_chars then Some (0, stmt)
                 else (case buffer of
                     None \<Rightarrow> Some (1, stmt)
                   | Some b \<Rightarrow>
                       if length b \<ge> length string_literal then None
                       else if parameter_index \<noteq> 0 \<and> \<not> stored parameter_index b
                       then Some (- 1, value_STATEMENT type b parameter_index)
                       else Some (1, value_STATEMENT type b parameter_index))))
      | _ \<Rightarrow> Some (0, stmt))"

section \<open>The meaning of a pattern\<close>

text \<open>A pattern matches the whole text; a pattern that ends in an escape character is an error and matches nothing.\<close>

fun like :: "string \<Rightarrow> string \<Rightarrow> bool" where
  "like [] t = (t = [])"
| "like (p # ps) t =
     (if p = CHR 0x5C then (case ps of [] \<Rightarrow> False | q # qs \<Rightarrow> (case t of [] \<Rightarrow> False | c # t' \<Rightarrow> c = q \<and> like qs t'))
      else if p = CHR ''%'' then like ps t \<or> (case t of [] \<Rightarrow> False | c # t' \<Rightarrow> like (p # ps) t')
      else (case t of [] \<Rightarrow> False | c # t' \<Rightarrow> (p = CHR ''_'' \<or> c = p) \<and> like ps t'))"

text \<open>A pattern with its escapes resolved, when it has no wildcard.\<close>

fun unescape :: "RegexType \<Rightarrow> string \<Rightarrow> string option" where
  "unescape r [] = Some []"
| "unescape r (p # ps) =
     (if p = CHR 0x5C then (case ps of [] \<Rightarrow> None | q # qs \<Rightarrow> map_option ((#) q) (unescape r qs))
      else if special r p then None else map_option ((#) p) (unescape r ps))"

lemma like_unescape: "unescape REGEX_LIKE p = Some u \<Longrightarrow> like p t = (t = u)"
proof (induction p arbitrary: u t rule: length_induct)
  case (1 p)
  show ?case
  proof (cases p)
    case Nil
    with 1 show ?thesis by simp
  next
    case (Cons c ps)
    show ?thesis
    proof (cases "c = CHR 0x5C")
      case True
      with 1 Cons obtain q qs v where q: "ps = q # qs" "unescape REGEX_LIKE qs = Some v" "u = q # v"
        by (cases ps) auto
      with 1 Cons have "like qs t = (t = v)" for t by simp
      with q Cons True show ?thesis by (cases t) auto
    next
      case False
      with 1 Cons obtain v where v: "\<not> special REGEX_LIKE c" "unescape REGEX_LIKE ps = Some v" "u = c # v"
        by (auto split: if_splits)
      with 1 Cons have "like ps t = (t = v)" for t by simp
      with v Cons False show ?thesis by (cases t) (auto simp: special_def)
    qed
  qed
qed

text \<open>
  The loop resolves the escapes: with nothing written yet all characters seen are plain, else the buffer has
  the resolved form of what was seen.
\<close>

lemma regex_loop_escaped:
  assumes "regex_loop r seen False (Some b) s = (False, buf)"
  shows "\<exists>u. unescape r s = Some u \<and> buf = Some (b @ u)"
  using assms
proof (induction s arbitrary: seen b rule: length_induct)
  case (1 s)
  show ?case
  proof (cases s)
    case Nil
    with 1 show ?thesis by simp
  next
    case (Cons c ps)
    show ?thesis
    proof (cases "c = CHR 0x5C")
      case True
      with 1 Cons obtain q qs where q: "ps = q # qs" by (cases ps) auto
      with 1(2) Cons True have "regex_loop r (seen @ [c, q]) False (Some (b @ [q])) qs = (False, buf)" by simp
      then have "\<exists>u. unescape r qs = Some u \<and> buf = Some ((b @ [q]) @ u)"
        by (intro 1(1) [rule_format, of qs]) (simp_all add: Cons q)
      with q Cons True show ?thesis by auto
    next
      case False
      with 1(2) Cons have "\<not> special r c" "regex_loop r (seen @ [c]) False (Some (b @ [c])) ps = (False, buf)"
        by (auto split: if_splits)
      with 1(1) Cons False show ?thesis by fastforce
    qed
  qed
qed

lemma unescape_length: "unescape r s = Some u \<Longrightarrow> length u \<le> length s"
proof (induction s arbitrary: u rule: length_induct)
  case (1 s)
  show ?case
  proof (cases s)
    case (Cons c ps)
    have "\<exists>v qs. unescape r qs = Some v \<and> length u = Suc (length v) \<and> length qs < length s"
    proof (cases "c = CHR 0x5C")
      case True
      with 1(2) Cons obtain q qs z where "ps = q # qs" "unescape r qs = Some z" "u = q # z" by (cases ps) auto
      with Cons show ?thesis by (intro exI [of _ z] exI [of _ qs]) simp
    next
      case False
      with 1(2) Cons obtain z where "unescape r ps = Some z" "u = c # z" by (auto split: if_splits)
      with Cons show ?thesis by (intro exI [of _ z] exI [of _ ps]) simp
    qed
    then obtain v qs where v: "unescape r qs = Some v" "length u = Suc (length v)" "length qs < length s" by blast
    then have "length v \<le> length qs" by (intro 1(1) [rule_format]) auto
    with v show ?thesis by simp
  qed (use 1 in simp)
qed

lemma regex_loop_plain:
  assumes "regex_loop r seen False None s = (False, buf)"
  shows "\<exists>u. unescape r s = Some u \<and> (buf = None \<and> u = s \<or> buf = Some (seen @ u) \<and> length u < length s)"
  using assms
proof (induction s arbitrary: seen rule: length_induct)
  case (1 s)
  show ?case
  proof (cases s)
    case Nil
    with 1 show ?thesis by simp
  next
    case (Cons c ps)
    show ?thesis
    proof (cases "c = CHR 0x5C")
      case True
      with 1 Cons obtain q qs where q: "ps = q # qs" by (cases ps) auto
      with 1 Cons True have "regex_loop r (seen @ [c, q]) False (Some (seen @ [q])) qs = (False, buf)" by simp
      from regex_loop_escaped [OF this] obtain u where "unescape r qs = Some u" "buf = Some ((seen @ [q]) @ u)" by blast
      with q Cons True unescape_length [of r qs u] show ?thesis by auto
    next
      case False
      with 1(2) Cons have "\<not> special r c" "regex_loop r (seen @ [c]) False None ps = (False, buf)"
        by (auto split: if_splits)
      with 1(1) Cons False show ?thesis by fastforce
    qed
  qed
qed

lemma regex_loop_special:
  "regex_loop r seen False buffer s = (True, buf) \<Longrightarrow> unescape r s = None"
proof (induction s arbitrary: seen buffer rule: length_induct)
  case (1 s)
  show ?case
  proof (cases s)
    case (Cons c ps)
    show ?thesis
    proof (cases "c = CHR 0x5C")
      case True
      show ?thesis
      proof (cases ps)
        case q: (Cons q qs)
        with 1(2) Cons True obtain b where "regex_loop r (seen @ [c, q]) False (Some b) qs = (True, buf)" by auto
        then have "unescape r qs = None" by (intro 1(1) [rule_format, of qs]) (simp_all add: Cons q)
        with Cons True q show ?thesis by simp
      qed (use Cons True in simp)
    next
      case False
      with 1 Cons show ?thesis by (fastforce split: if_splits)
    qed
  qed (use 1 in simp)
qed

lemma regex_loop_unescape: "unescape r s = Some u \<Longrightarrow> \<not> fst (regex_loop r seen False b s)"
proof (induction s arbitrary: seen b u rule: length_induct)
  case (1 s)
  show ?case
  proof (cases s)
    case (Cons c ps)
    show ?thesis
    proof (cases "c = CHR 0x5C")
      case True
      with 1(2) Cons obtain q qs v where "ps = q # qs" "unescape r qs = Some v"
        by (cases ps) auto
      with 1(1) Cons True show ?thesis by simp
    next
      case False
      with 1(2) Cons obtain v where "\<not> special r c" "unescape r ps = Some v"
        by (auto split: if_splits)
      with 1(1) Cons False show ?thesis by simp
    qed
  qed simp
qed

text \<open>A pattern with a wildcard that matches something matches more than that, so that it is no plain string.\<close>

lemma like_any: "like (p # ps) t \<Longrightarrow> p = CHR ''%'' \<Longrightarrow> like (p # ps) (c # t)"
  by simp

lemma like_not_plain:
  "unescape REGEX_LIKE p = None \<Longrightarrow> like p t \<Longrightarrow> \<exists>t'. like p t' \<and> t' \<noteq> t"
proof (induction p arbitrary: t rule: length_induct)
  case (1 p)
  show ?case
  proof (cases p)
    case (Cons c ps)
    consider (escape) "c = CHR 0x5C" | (any) "c = CHR ''%''" | (one) "c = CHR ''_''"
      | (plain) "c \<noteq> CHR 0x5C" "c \<noteq> CHR ''%''" "c \<noteq> CHR ''_''"
      by blast
    then show ?thesis
    proof cases
      case escape
      then obtain q qs t' where q: "ps = q # qs" "t = q # t'" "like qs t'" "unescape REGEX_LIKE qs = None"
        using 1(2,3) Cons by (cases ps; cases t) auto
      then obtain t'' where "like qs t''" "t'' \<noteq> t'"
        using 1(1) Cons by force
      with q Cons escape show ?thesis by (intro exI [of _ "q # t''"]) simp
    next
      case any
      with 1(3) Cons show ?thesis by (intro exI [of _ "CHR ''a'' # t"] conjI) (auto intro: like_any)
    next
      case one
      with 1(3) Cons obtain d t' where t: "t = d # t'" "like ps t'" by (cases t) auto
      have "CHR ''a'' \<noteq> d \<or> CHR ''b'' \<noteq> d" by auto
      then obtain d' where "d' \<noteq> d" by blast
      with t one Cons show ?thesis by (intro exI [of _ "d' # t'"]) simp
    next
      case plain
      with 1(2,3) Cons obtain t' where t: "t = c # t'" "like ps t'" "unescape REGEX_LIKE ps = None"
        by (cases t) (auto simp: special_def)
      then obtain t'' where "like ps t''" "t'' \<noteq> t'"
        using 1(1) Cons by force
      with t plain Cons show ?thesis by (intro exI [of _ "c # t''"]) simp
    qed
  qed (use 1 in simp)
qed

text \<open>C14: \<open>LIKE\<close> becomes an equality exactly when that is right. When the pattern has just one match \<open>u\<close>, the result is 1 and
  the literal becomes \<open>u\<close>, which is the pattern with its escapes resolved and fits in the buffer; when it has none or
  more than one, the result is 0 and the statement is not touched. The result is -1 when the resolved text differs from the
  pattern and cannot be stored as a parameter: then the statement has been changed all the same, though the comment of the function
  says that it is untouched.\<close>

theorem like_becomes_equality:
  assumes "IS_STRING_TYPE type"
  shows "case regex_has_no_special_characters stored (value_STATEMENT type p i) REGEX_LIKE of
      None \<Rightarrow> False
    | Some (status, stmt) \<Rightarrow>
        if \<exists>u. \<forall>t. like p t = (t = u)
        then (\<exists>u. (\<forall>t. like p t = (t = u)) \<and> stmt = value_STATEMENT type u i
                \<and> status = (if u \<noteq> p \<and> i \<noteq> 0 \<and> \<not> stored i u then - 1 else 1) \<and> (u = p \<or> length u < length p))
        else status = 0 \<and> stmt = value_STATEMENT type p i"
proof (cases "regex_loop REGEX_LIKE [] False None p")
  case (Pair has buf)
  show ?thesis
  proof (cases has)
    case True
    then have "unescape REGEX_LIKE p = None"
      using regex_loop_unescape [of REGEX_LIKE p _ "[]" None] Pair by (cases "unescape REGEX_LIKE p") auto
    then have "\<not> (\<exists>u. \<forall>t. like p t = (t = u))" using like_not_plain by blast
    then show ?thesis using True Pair assms by (simp add: regex_has_no_special_characters_def)
  next
    case False
    with Pair obtain u where u: "unescape REGEX_LIKE p = Some u"
      "buf = None \<and> u = p \<or> buf = Some u \<and> length u < length p"
      using regex_loop_plain [of REGEX_LIKE "[]" p buf] by auto
    have m: "\<forall>t. like p t = (t = u)" using like_unescape [OF u(1)] by blast
    from u(2) show ?thesis
    proof
      assume "buf = None \<and> u = p"
      with Pair False assms m show ?thesis by (auto simp: regex_has_no_special_characters_def)
    next
      assume "buf = Some u \<and> length u < length p"
      with Pair False assms m show ?thesis by (auto simp: regex_has_no_special_characters_def)
    qed
  qed
qed

theorem like_becomes_equality_witness:
  "case regex_has_no_special_characters (\<lambda>_ _. False) (value_STATEMENT STRING_LITERAL (''100'' @ [CHR 0x5C, CHR ''%'']) 3) REGEX_LIKE of
      None \<Rightarrow> False
    | Some (status, stmt) \<Rightarrow>
        if \<exists>u. \<forall>t. like (''100'' @ [CHR 0x5C, CHR ''%'']) t = (t = u)
        then (\<exists>u. (\<forall>t. like (''100'' @ [CHR 0x5C, CHR ''%'']) t = (t = u)) \<and> stmt = value_STATEMENT STRING_LITERAL u 3
                \<and> status = (if u \<noteq> ''100'' @ [CHR 0x5C, CHR ''%''] \<and> (3 :: nat) \<noteq> 0 \<and> \<not> False then - 1 else 1)
                \<and> (u = ''100'' @ [CHR 0x5C, CHR ''%''] \<or> length u < length (''100'' @ [CHR 0x5C, CHR ''%''])))
        else status = 0 \<and> stmt = value_STATEMENT STRING_LITERAL (''100'' @ [CHR 0x5C, CHR ''%'']) 3"
  by (rule like_becomes_equality) (simp add: IS_STRING_TYPE_def)

end
