(* ===== verification/BinaryCheck.thy ===== *)
theory BinaryCheck
  imports Regex
begin

text \<open>
  The type check of binary operators: \<open>binary_operation_data_type_check.c\<close> with what it calls,
  \<open>validate_table_asterisk_binary_operation.c\<close>, \<open>compare_column_count_and_column_type_of_tables.c\<close>,
  \<open>get_set_operation_column_alias_type.c\<close>, \<open>is_stmt_table_asterisk.c\<close> and \<open>get_num_cols_in_table_alias.c\<close>.

  The record \<open>binary\<close> holds what the function reads and writes: the fields of \<open>SqlBinaryOperation\<close>, the two entries of
  \<open>child_type\<close>, \<open>*type\<close>, \<open>result\<close>, the parse context and the errors. Each block of the switch is a function on
  it. \<open>None\<close> is a failed \<open>assert\<close>.
\<close>

record binary =
  operation :: BinaryOperations
  operand0 :: SqlStatement
  operand1 :: SqlStatement
  date_time_return_type :: SqlValueType
  child0 :: SqlValueType
  child1 :: SqlValueType
  result_type :: SqlValueType
  failed :: bool
  parse_ctx :: "parse_context option"
  errors :: "type_error list"

definition fail :: "type_error \<Rightarrow> binary \<Rightarrow> binary" where
  "fail e b = b\<lparr>failed := True, errors := errors b @ [e]\<rparr>"

definition set_children :: "SqlValueType \<Rightarrow> binary \<Rightarrow> binary" where
  "set_children t b = b\<lparr>child0 := t, child1 := t\<rparr>"

definition ISSUE_TYPE_COMPATIBILITY_ERROR :: "SqlValueType \<Rightarrow> string \<Rightarrow> binary \<Rightarrow> binary option" where
  "ISSUE_TYPE_COMPATIBILITY_ERROR t name b =
     map_option (\<lambda>s. fail (ERR_TYPE_NOT_COMPATIBLE s name) b) (get_user_visible_type_string t)"

definition cast_children :: "binary \<Rightarrow> binary option" where
  "cast_children b =
     map_option (\<lambda>(t, u, f, c, log). b\<lparr>child0 := t, child1 := u, failed := failed b \<or> f, parse_ctx := c, errors := errors b @ log\<rparr>)
       (CAST_AMBIGUOUS_TYPES (child0 b) (child1 b) (parse_ctx b))"

section \<open>Arithmetic\<close>

definition arithmetic_operand :: "SqlValueType \<Rightarrow> binary \<Rightarrow> binary option" where
  "arithmetic_operand t b =
     (if t = INTEGER_LITERAL \<or> t = NUMERIC_LITERAL \<or> t = NUL_VALUE then Some b
      else if IS_DATE_TIME_TYPE t then
        Some (if operation b \<noteq> ADDITION \<and> operation b \<noteq> SUBTRACTION
              then fail (ERR_FEATURE_NOT_IMPLEMENTED ''Date/time arithmetic operations'') b else b)
      else ISSUE_TYPE_COMPATIBILITY_ERROR t ''arithmetic operations'' b)"

text \<open>The type of a difference or a sum of dates and times, from the original types of the operands, and the common
  type of the operands if it is set; an interval is not implemented.\<close>

datatype date_time_type = Typed SqlValueType "SqlValueType option" | Interval | Incompatible

definition date_time_subtraction :: "SqlValueType \<Rightarrow> SqlValueType \<Rightarrow> date_time_type" where
  "date_time_subtraction l r =
     (if l = DATE_LITERAL \<and> r = DATE_LITERAL then Typed INTEGER_LITERAL (Some DATE_LITERAL)
      else if l = DATE_LITERAL \<and> r = TIME_LITERAL then Typed TIMESTAMP_LITERAL (Some TIMESTAMP_LITERAL)
      else if l = DATE_LITERAL \<and> r = TIMESTAMP_LITERAL then Interval
      else if l = DATE_LITERAL \<and> r = TIMESTAMP_WITH_TIME_ZONE_LITERAL then Interval
      else if l = TIMESTAMP_LITERAL \<and> r = DATE_LITERAL then Interval
      else if l = DATE_LITERAL \<and> r = INTEGER_LITERAL then Typed DATE_LITERAL (Some DATE_LITERAL)
      else if l = DATE_LITERAL \<and> r = NUL_VALUE then Typed INTEGER_LITERAL None
      else if l = TIME_LITERAL \<and> r = TIME_LITERAL then Interval
      else if l = TIME_WITH_TIME_ZONE_LITERAL \<and> r = TIME_LITERAL then
        Typed TIME_WITH_TIME_ZONE_LITERAL (Some TIME_WITH_TIME_ZONE_LITERAL)
      else if l = TIMESTAMP_LITERAL \<and> r = TIME_LITERAL then Typed TIMESTAMP_LITERAL (Some TIMESTAMP_LITERAL)
      else if l = TIMESTAMP_WITH_TIME_ZONE_LITERAL \<and> r = TIME_LITERAL then
        Typed TIMESTAMP_WITH_TIME_ZONE_LITERAL (Some TIMESTAMP_WITH_TIME_ZONE_LITERAL)
      else if l = TIME_WITH_TIME_ZONE_LITERAL \<and> r = NUL_VALUE then Typed TIME_WITH_TIME_ZONE_LITERAL None
      else if l = TIME_LITERAL \<and> r = NUL_VALUE then Interval
      else if IS_TIMESTAMP l \<and> IS_TIMESTAMP r then Interval
      else if l = TIMESTAMP_WITH_TIME_ZONE_LITERAL \<and> r = NUL_VALUE then Typed TIMESTAMP_WITH_TIME_ZONE_LITERAL None
      else if l = TIMESTAMP_LITERAL \<and> r = NUL_VALUE then Typed TIMESTAMP_LITERAL None
      else Incompatible)"

text \<open>A pair of types in either order.\<close>

definition pair :: "SqlValueType \<Rightarrow> SqlValueType \<Rightarrow> SqlValueType \<Rightarrow> SqlValueType \<Rightarrow> bool" where
  "pair l r t u \<longleftrightarrow> l = t \<and> r = u \<or> r = t \<and> l = u"

definition date_time_addition :: "SqlValueType \<Rightarrow> SqlValueType \<Rightarrow> date_time_type" where
  "date_time_addition l r =
     (if l = DATE_LITERAL \<and> IS_TIME r \<or> r = DATE_LITERAL \<and> IS_TIME l then
        Typed (if l = TIME_WITH_TIME_ZONE_LITERAL \<or> r = TIME_WITH_TIME_ZONE_LITERAL
               then TIMESTAMP_WITH_TIME_ZONE_LITERAL else TIMESTAMP_LITERAL) (Some DATE_LITERAL)
      else if pair l r DATE_LITERAL INTEGER_LITERAL then Typed DATE_LITERAL (Some DATE_LITERAL)
      else if pair l r TIME_WITH_TIME_ZONE_LITERAL TIME_LITERAL then
        Typed TIME_WITH_TIME_ZONE_LITERAL (Some TIME_WITH_TIME_ZONE_LITERAL)
      else if pair l r TIME_LITERAL TIMESTAMP_LITERAL then Typed TIMESTAMP_LITERAL (Some TIMESTAMP_LITERAL)
      else if pair l r TIME_LITERAL TIMESTAMP_WITH_TIME_ZONE_LITERAL then
        Typed TIMESTAMP_WITH_TIME_ZONE_LITERAL (Some TIMESTAMP_WITH_TIME_ZONE_LITERAL)
      else if pair l r NUL_VALUE TIME_LITERAL then Typed TIME_LITERAL None
      else if pair l r NUL_VALUE TIMESTAMP_LITERAL then Typed TIMESTAMP_LITERAL None
      else Incompatible)"

definition date_time_arithmetic :: "date_time_type \<Rightarrow> string \<Rightarrow> SqlValueType \<Rightarrow> SqlValueType \<Rightarrow> binary \<Rightarrow> binary option" where
  "date_time_arithmetic d name orig0 orig1 b =
     map_option (\<lambda>b. b\<lparr>date_time_return_type := result_type b\<rparr>)
       (case d of
          Typed t None \<Rightarrow> Some (b\<lparr>result_type := t\<rparr>)
        | Typed t (Some u) \<Rightarrow> Some (set_children u (b\<lparr>result_type := t\<rparr>))
        | Interval \<Rightarrow> Some (fail (ERR_FEATURE_NOT_IMPLEMENTED ''Operation result is INTERVAL'') b)
        | Incompatible \<Rightarrow>
            do { b \<leftarrow> ISSUE_TYPE_COMPATIBILITY_ERROR orig0 name b; ISSUE_TYPE_COMPATIBILITY_ERROR orig1 name b })"

definition check_arithmetic :: "SqlValueType \<Rightarrow> SqlValueType \<Rightarrow> binary \<Rightarrow> binary option" where
  "check_arithmetic orig0 orig1 b =
     do {
       let is_date_time_operation = (IS_DATE_TIME_TYPE (child0 b) \<or> IS_DATE_TIME_TYPE (child1 b));
       b \<leftarrow> arithmetic_operand (child0 b) b;
       b \<leftarrow> arithmetic_operand (child1 b) b;
       if failed b then Some b
       else if \<not> is_date_time_operation then Some (b\<lparr>result_type := child0 b\<rparr>)
       else if operation b = SUBTRACTION then
         date_time_arithmetic (date_time_subtraction orig0 orig1) ''subtraction operation'' orig0 orig1
           (b\<lparr>operation := DATE_TIME_SUBTRACTION\<rparr>)
       else if operation b = ADDITION then
         date_time_arithmetic (date_time_addition orig0 orig1) ''addition operation'' orig0 orig1
           (b\<lparr>operation := DATE_TIME_ADDITION\<rparr>)
       else None
     }"

section \<open>Concatenation, booleans and patterns\<close>

definition to_string :: "SqlStatement \<Rightarrow> SqlStatement" where
  "to_string stmt = coerce_STATEMENT STRING_TYPE BOOLEAN_VALUE stmt"

definition check_concat :: "SqlValueType \<Rightarrow> SqlValueType \<Rightarrow> binary \<Rightarrow> binary option" where
  "check_concat orig0 orig1 b =
     map_option (\<lambda>b. set_children STRING_LITERAL (b\<lparr>result_type := STRING_LITERAL\<rparr>))
       (let c0 = child0 b; c1 = child1 b; null = (orig0 = NUL_VALUE \<or> orig1 = NUL_VALUE)
        in if \<not> IS_STRING_TYPE c0 \<and> \<not> IS_STRING_TYPE c1 then
             (if c0 = TABLE_ASTERISK \<and> c1 = TABLE_ASTERISK \<and> null then Some b
              else if IS_DATE_TIME_TYPE c0 \<and> IS_DATE_TIME_TYPE c1 \<and> null then Some b
              else if IS_DATE_TIME_TYPE c0 \<and> IS_DATE_TIME_TYPE c1 then
                Some (fail (ERR_FEATURE_NOT_IMPLEMENTED ''Date/time concat operation'') b)
              else if \<not> failed b then
                do { b \<leftarrow> ISSUE_TYPE_COMPATIBILITY_ERROR c0 ''|| operator'' b;
                     ISSUE_TYPE_COMPATIBILITY_ERROR c1 ''|| operator'' b }
              else Some b)
           else if c0 = BOOLEAN_VALUE then
             (if c1 = BOOLEAN_VALUE then None else Some (b\<lparr>operand0 := to_string (operand0 b)\<rparr>))
           else if c1 = BOOLEAN_VALUE then Some (b\<lparr>operand1 := to_string (operand1 b)\<rparr>)
           else Some b)"

text \<open>Both operands are checked, each with its own error.\<close>

definition require :: "(SqlValueType \<Rightarrow> bool) \<Rightarrow> string \<Rightarrow> SqlValueType \<Rightarrow> binary \<Rightarrow> binary option" where
  "require ok name t b = (if ok t then Some b else ISSUE_TYPE_COMPATIBILITY_ERROR t name b)"

definition check_boolean :: "binary \<Rightarrow> binary option" where
  "check_boolean b =
     do {
       b \<leftarrow> require IS_BOOLEAN_TYPE ''boolean operations'' (child0 b) b;
       b \<leftarrow> require IS_BOOLEAN_TYPE ''boolean operations'' (child1 b) b;
       Some (b\<lparr>result_type := BOOLEAN_VALUE\<rparr>)
     }"

definition check_regex :: "(nat \<Rightarrow> string \<Rightarrow> bool) \<Rightarrow> binary \<Rightarrow> binary option" where
  "check_regex stored b =
     do {
       b \<leftarrow> require IS_STRING_TYPE ''regex operations'' (child0 b) b;
       b \<leftarrow> require IS_STRING_TYPE ''regex operations'' (child1 b) b;
       b \<leftarrow> (if \<not> failed b \<and> (operation b = BOOLEAN_REGEX_SENSITIVE_LIKE \<or> operation b = BOOLEAN_REGEX_SENSITIVE_SIMILARTO)
             then do {
               (status, stmt) \<leftarrow> regex_has_no_special_characters stored (operand1 b)
                 (if operation b = BOOLEAN_REGEX_SENSITIVE_LIKE then REGEX_LIKE else REGEX_SIMILARTO);
               if status = - 1 then None
               else Some (b\<lparr>operand1 := stmt, operation := (if status = 0 then operation b else BOOLEAN_EQUALS)\<rparr>)
             }
             else Some b);
       Some (b\<lparr>result_type := BOOLEAN_VALUE\<rparr>)
     }"

section \<open>Comparison of tables\<close>

fun is_stmt_table_asterisk :: "SqlStatement \<Rightarrow> bool" where
  "is_stmt_table_asterisk (value_STATEMENT type _ _) = (type = TABLE_ASTERISK)"
| "is_stmt_table_asterisk (column_list_alias_STATEMENT value) =
     (case value of
        column_alias_STATEMENT _ _ _ _ \<Rightarrow> is_stmt_table_asterisk value
      | value_STATEMENT _ _ _ \<Rightarrow> is_stmt_table_asterisk value
      | _ \<Rightarrow> False)"
| "is_stmt_table_asterisk (column_alias_STATEMENT column _ _ _) = is_stmt_table_asterisk column"
| "is_stmt_table_asterisk _ = False"

text \<open>Only for a column alias with a set operation; the loop counts from 1 around the circular list.\<close>

definition get_set_operation_column_alias_type :: "SqlStatement \<Rightarrow> SqlValueType option" where
  "get_set_operation_column_alias_type ca_stmt =
     (case ca_stmt of
        column_alias_STATEMENT _ _ (Some col_type_list) column_num \<Rightarrow>
          (if 1 \<le> column_num \<and> column_num \<le> length col_type_list then Some (col_type_list ! (column_num - 1)) else None)
      | _ \<Rightarrow> None)"

definition get_num_cols_in_table_alias :: "SqlValueType list \<Rightarrow> nat" where
  "get_num_cols_in_table_alias columns = length columns"

text \<open>The loop over the columns of the first table; the list of the second one starts again at its end.\<close>

fun compare_types ::
  "SqlValueType list \<Rightarrow> SqlValueType list \<Rightarrow> SqlValueType list \<Rightarrow> parse_context option
     \<Rightarrow> (bool \<times> parse_context option \<times> type_error list) option" where
  "compare_types [] second whole ctx = Some (False, ctx, [])"
| "compare_types (l # first) second whole ctx =
     (case (case second of [] \<Rightarrow> whole | _ \<Rightarrow> second) of
        [] \<Rightarrow> None
      | r # second \<Rightarrow>
          do {
            (l', r', f, ctx, log) \<leftarrow> CAST_AMBIGUOUS_TYPES l r ctx;
            if f then Some (True, ctx, log)
            else if pair l r NUMERIC_LITERAL INTEGER_LITERAL \<or> l' \<noteq> r' then
              do {
                sl \<leftarrow> get_user_visible_type_string l;
                sr \<leftarrow> get_user_visible_type_string r;
                Some (True, ctx, log @ [ERR_TABLE_ASTERISK_COLUMN_TYPE_MISMATCH sl sr])
              }
            else map_option (\<lambda>(f, c, rest). (f, c, log @ rest)) (compare_types first second whole ctx)
          })"

definition compare_column_count_and_column_type_of_tables :: "SqlStatement \<Rightarrow> SqlStatement \<Rightarrow> binary \<Rightarrow> binary option" where
  "compare_column_count_and_column_type_of_tables first second b =
     (case (first, second) of
        (column_alias_STATEMENT _ cols0 set0 _, column_alias_STATEMENT _ cols1 set1 _) \<Rightarrow>
          (let n0 = get_num_cols_in_table_alias cols0; n1 = get_num_cols_in_table_alias cols1;
               first_cla = (case set0 of Some l \<Rightarrow> l | None \<Rightarrow> cols0);
               second_cla = (case set1 of Some l \<Rightarrow> l | None \<Rightarrow> cols1)
           in if n0 \<noteq> n1 then Some (fail (ERR_TABLE_ASTERISK_COLUMN_COUNT_MISMATCH n0 n1) b)
              else if first_cla = [] \<or> second_cla = [] then None
              else map_option (\<lambda>(f, c, log). b\<lparr>failed := failed b \<or> f, parse_ctx := c, errors := errors b @ log\<rparr>)
                     (compare_types first_cla second_cla second_cla (parse_ctx b)))
      | _ \<Rightarrow> None)"

definition CHECK_NULL_SUBQUERY :: "binary \<Rightarrow> binary option" where
  "CHECK_NULL_SUBQUERY b =
     (case (if is_stmt_table_asterisk (operand0 b) then operand1 b else operand0 b) of
        table_alias_STATEMENT \<Rightarrow> ISSUE_TYPE_COMPATIBILITY_ERROR TABLE_ASTERISK ''NULL type subquery comparison'' b
      | set_operation_STATEMENT \<Rightarrow> ISSUE_TYPE_COMPATIBILITY_ERROR TABLE_ASTERISK ''NULL type subquery comparison'' b
      | _ \<Rightarrow> Some b)"

text \<open>The list of an \<open>IN\<close>: the tables in it are compared with the first operand until one differs.\<close>

fun compare_in_list :: "SqlStatement \<Rightarrow> SqlStatement list \<Rightarrow> binary \<Rightarrow> binary option" where
  "compare_in_list first [] b = Some b"
| "compare_in_list first (v # vs) b =
     (if \<not> is_stmt_table_asterisk v then compare_in_list first vs b
      else do {
        b \<leftarrow> compare_column_count_and_column_type_of_tables first v b;
        if failed b then Some b else compare_in_list first vs b
      })"

definition is_column_alias :: "SqlStatement \<Rightarrow> bool" where
  "is_column_alias stmt = (case stmt of column_alias_STATEMENT _ _ _ _ \<Rightarrow> True | _ \<Rightarrow> False)"

definition is_in :: "BinaryOperations \<Rightarrow> bool" where
  "is_in op \<longleftrightarrow> op = BOOLEAN_IN \<or> op = BOOLEAN_NOT_IN"

definition is_is :: "BinaryOperations \<Rightarrow> bool" where
  "is_is op \<longleftrightarrow> op = BOOLEAN_IS \<or> op = BOOLEAN_IS_NOT"

definition is_comparison :: "BinaryOperations \<Rightarrow> bool" where
  "is_comparison op \<longleftrightarrow> op \<in> {BOOLEAN_EQUALS, BOOLEAN_NOT_EQUALS, BOOLEAN_LESS_THAN, BOOLEAN_GREATER_THAN,
     BOOLEAN_LESS_THAN_OR_EQUALS, BOOLEAN_GREATER_THAN_OR_EQUALS}"

definition is_any_all :: "BinaryOperations \<Rightarrow> bool" where
  "is_any_all op \<longleftrightarrow> op \<in> {BOOLEAN_ANY_EQUALS, BOOLEAN_ANY_NOT_EQUALS, BOOLEAN_ANY_LESS_THAN,
     BOOLEAN_ANY_GREATER_THAN, BOOLEAN_ANY_LESS_THAN_OR_EQUALS, BOOLEAN_ANY_GREATER_THAN_OR_EQUALS,
     BOOLEAN_ALL_EQUALS, BOOLEAN_ALL_NOT_EQUALS, BOOLEAN_ALL_LESS_THAN, BOOLEAN_ALL_GREATER_THAN,
     BOOLEAN_ALL_LESS_THAN_OR_EQUALS, BOOLEAN_ALL_GREATER_THAN_OR_EQUALS}"

definition validate_table_asterisk_binary_operation :: "SqlValueType \<Rightarrow> SqlValueType \<Rightarrow> binary \<Rightarrow> binary option" where
  "validate_table_asterisk_binary_operation orig0 orig1 b =
     (let no_null = (orig0 \<noteq> NUL_VALUE \<and> orig1 \<noteq> NUL_VALUE);
          table0 = is_stmt_table_asterisk (operand0 b); table1 = is_stmt_table_asterisk (operand1 b)
      in if is_in (operation b) then
           do {
             b \<leftarrow> CHECK_NULL_SUBQUERY b;
             if failed b \<or> \<not> no_null then Some b
             else if \<not> (is_column_alias (operand0 b) \<and> table0) then None
             else (case operand1 b of column_list_STATEMENT vs \<Rightarrow> compare_in_list (operand0 b) vs b | _ \<Rightarrow> None)
           }
         else if is_is (operation b) then (if orig1 = NUL_VALUE then Some b else None)
         else if is_comparison (operation b) then
           (if \<not> ((table0 \<or> orig0 = NUL_VALUE) \<and> (table1 \<or> orig1 = NUL_VALUE)) then None
            else do {
              b \<leftarrow> CHECK_NULL_SUBQUERY b;
              if failed b then Some b
              else if no_null then
                (if table0 \<and> table1 then compare_column_count_and_column_type_of_tables (operand0 b) (operand1 b) b else None)
              else if is_column_alias (if table0 then operand1 b else operand0 b) then
                Some (fail ERR_TABLE_ASTERISK_SCALAR_COMPARISON b)
              else Some b
            })
         else if is_any_all (operation b) then
           do { b \<leftarrow> CHECK_NULL_SUBQUERY b; if failed b then Some b else None }
         else None)"

section \<open>Comparison\<close>

text \<open>The column alias of a set operation: its type is that of the column of the set operation.\<close>

definition set_operation_type :: "SqlStatement \<Rightarrow> SqlValueType \<Rightarrow> SqlValueType option" where
  "set_operation_type stmt t =
     (case stmt of
        column_alias_STATEMENT _ _ (Some _) _ \<Rightarrow> get_set_operation_column_alias_type stmt
      | _ \<Rightarrow> Some t)"

fun in_list_types :: "SqlStatement list \<Rightarrow> binary \<Rightarrow> binary option" where
  "in_list_types [] b = Some b"
| "in_list_types (v # vs) b =
     (case v of
        column_alias_STATEMENT _ _ (Some _) _ \<Rightarrow>
          do {
            t \<leftarrow> get_set_operation_column_alias_type v;
            let b = b\<lparr>child1 := t\<rparr>;
            if child0 b \<noteq> child1 b then cast_children b else in_list_types vs b
          }
      | _ \<Rightarrow> in_list_types vs b)"

definition alias_type :: "SqlStatement \<Rightarrow> SqlValueType \<Rightarrow> SqlValueType option" where
  "alias_type stmt t =
     (case stmt of
        column_alias_STATEMENT column _ (Some _) _ \<Rightarrow>
          (if is_stmt_table_asterisk column then Some t else get_set_operation_column_alias_type stmt)
      | _ \<Rightarrow> Some t)"

text \<open>The types of the operands before they are compared; the flag tells that the function returns at once.\<close>

definition comparison_types :: "binary \<Rightarrow> (bool \<times> binary) option" where
  "comparison_types b =
     (if is_in (operation b) then
        do {
          t \<leftarrow> set_operation_type (operand0 b) (child0 b);
          b \<leftarrow> (case operand1 b of
                 column_list_STATEMENT vs \<Rightarrow> in_list_types vs (b\<lparr>child0 := t\<rparr>)
               | _ \<Rightarrow> Some (b\<lparr>child0 := t\<rparr>));
          Some (False, b)
        }
      else if is_column_alias (operand0 b) \<or> is_column_alias (operand1 b) then
        (if is_column_alias (operand0 b) \<and> is_column_alias (operand1 b)
            \<and> (child0 b = TABLE_ASTERISK \<or> child1 b = TABLE_ASTERISK) then
           Some (True, fail ERR_TABLE_ASTERISK_SCALAR_COMPARISON b)
         else do {
           t \<leftarrow> alias_type (operand0 b) (child0 b);
           u \<leftarrow> alias_type (operand1 b) (child1 b);
           b \<leftarrow> cast_children (b\<lparr>child0 := t, child1 := u\<rparr>);
           Some (False, b)
         })
      else Some (False, b))"

text \<open>
  \<open>IS_TIME(child_type[1] && !IS_TIME(child_type[0]))\<close>: the macro does not put its argument in parentheses
  and expands to \<open>(TIME_LITERAL == child_type[1] && !..) || (TIME_WITH_TIME_ZONE_LITERAL == child_type[1] && !..)\<close>,
  as \<open>==\<close> binds stronger than \<open>&&\<close>. So the condition is the intended one, although a parenthesis is misplaced.
\<close>

definition time_with_date :: "SqlValueType \<Rightarrow> SqlValueType \<Rightarrow> bool" where
  "time_with_date c0 c1 \<longleftrightarrow> IS_TIME c0 \<and> \<not> IS_TIME c1
     \<or> (c1 = TIME_LITERAL \<and> \<not> IS_TIME c0 \<or> c1 = TIME_WITH_TIME_ZONE_LITERAL \<and> \<not> IS_TIME c0)"

definition date_time_comparison :: "SqlValueType \<Rightarrow> binary \<Rightarrow> binary" where
  "date_time_comparison orig1 b =
     (if IS_DATE_TIME_TYPE (child0 b) \<and> IS_DATE_TIME_TYPE (child1 b) \<and> \<not> time_with_date (child0 b) (child1 b)
         \<and> (is_is (operation b) \<longrightarrow> orig1 = NUL_VALUE)
      then b\<lparr>child0 := child1 b\<rparr> else b)"

definition finish_comparison :: "SqlValueType \<Rightarrow> binary \<Rightarrow> binary" where
  "finish_comparison orig1 b = (date_time_comparison orig1 b)\<lparr>result_type := BOOLEAN_VALUE\<rparr>"

definition check_comparison :: "SqlValueType \<Rightarrow> SqlValueType \<Rightarrow> binary \<Rightarrow> (bool \<times> binary) option" where
  "check_comparison orig0 orig1 b =
     (if child0 b = TABLE_ASTERISK \<and> child1 b = TABLE_ASTERISK then
        map_option (\<lambda>b. (False, if failed b then b else finish_comparison orig1 b))
          (validate_table_asterisk_binary_operation orig0 orig1 b)
      else if is_in (operation b) \<and> child0 b = TABLE_ASTERISK then Some (False, b)
      else map_option (\<lambda>(returned, b). (returned, if returned then b else finish_comparison orig1 b)) (comparison_types b))"

section \<open>The check\<close>

definition check_mismatch :: "binary \<Rightarrow> binary option" where
  "check_mismatch b =
     (if \<not> failed b \<and> child0 b \<noteq> child1 b then
        do {
          s0 \<leftarrow> get_user_visible_type_string (child0 b);
          s1 \<leftarrow> get_user_visible_type_string (child1 b);
          Some (fail (ERR_TYPE_MISMATCH s0 s1) b)
        }
      else Some b)"

definition is_arithmetic :: "BinaryOperations \<Rightarrow> bool" where
  "is_arithmetic op \<longleftrightarrow> op \<in> {ADDITION, SUBTRACTION, DIVISION, MULTIPLICATION, MODULO}"

definition is_regex :: "BinaryOperations \<Rightarrow> bool" where
  "is_regex op \<longleftrightarrow> op \<in> {BOOLEAN_REGEX_SENSITIVE, BOOLEAN_REGEX_INSENSITIVE, BOOLEAN_REGEX_SENSITIVE_LIKE,
     BOOLEAN_REGEX_INSENSITIVE_LIKE, BOOLEAN_REGEX_SENSITIVE_SIMILARTO}"

text \<open>The switch: whether the function returns at once, and the state after it.\<close>

definition check_operation ::
  "(nat \<Rightarrow> string \<Rightarrow> bool) \<Rightarrow> SqlValueType \<Rightarrow> SqlValueType \<Rightarrow> binary \<Rightarrow> (bool \<times> binary) option" where
  "check_operation stored orig0 orig1 b =
     (let go_on = map_option (\<lambda>b. (False, b))
      in if is_arithmetic (operation b) then go_on (check_arithmetic orig0 orig1 b)
         else if operation b = CONCAT then go_on (check_concat orig0 orig1 b)
         else if operation b = BOOLEAN_OR \<or> operation b = BOOLEAN_AND then go_on (check_boolean b)
         else if is_regex (operation b) then go_on (check_regex stored b)
         else if operation b = DATE_TIME_ADDITION \<or> operation b = DATE_TIME_SUBTRACTION then
           go_on (Some (set_children (date_time_return_type b) (b\<lparr>result_type := date_time_return_type b\<rparr>)))
         else check_comparison orig0 orig1 b)"

definition binary_operation_data_type_check :: "(nat \<Rightarrow> string \<Rightarrow> bool) \<Rightarrow> binary \<Rightarrow> binary option" where
  "binary_operation_data_type_check stored b =
     do {
       let orig0 = child0 b;
      let orig1 = child1 b;
       b \<leftarrow> cast_children b;
       if failed b then Some b
       else do {
         (returned, b) \<leftarrow> check_operation stored orig0 orig1 b;
         if returned then Some b else check_mismatch b
       }
     }"
section \<open>Verdict and errors\<close>

text \<open>The check failed exactly when it has reported an error.\<close>

definition reported :: "binary \<Rightarrow> bool" where
  "reported b \<longleftrightarrow> (failed b \<longleftrightarrow> errors b \<noteq> [])"

definition keeps_report :: "(binary \<Rightarrow> binary option) \<Rightarrow> bool" where
  "keeps_report f \<longleftrightarrow> (\<forall>b b'. f b = Some b' \<longrightarrow> reported b \<longrightarrow> reported b')"

lemma keeps_reportI: "(\<And>b b'. f b = Some b' \<Longrightarrow> reported b \<Longrightarrow> reported b') \<Longrightarrow> keeps_report f"
  by (simp add: keeps_report_def)

lemma keeps_reportD: "keeps_report f \<Longrightarrow> f b = Some b' \<Longrightarrow> reported b \<Longrightarrow> reported b'"
  by (simp add: keeps_report_def)

lemma reported_fail [simp]: "reported (fail e b)"
  by (simp add: reported_def fail_def)

lemma reported_simps [simp]:
  "reported (b\<lparr>child0 := t\<rparr>) = reported b"
  "reported (b\<lparr>child1 := t\<rparr>) = reported b"
  "reported (b\<lparr>operation := f\<rparr>) = reported b"
  "reported (b\<lparr>operand0 := s\<rparr>) = reported b"
  "reported (b\<lparr>operand1 := s\<rparr>) = reported b"
  "reported (b\<lparr>result_type := t\<rparr>) = reported b"
  "reported (b\<lparr>date_time_return_type := t\<rparr>) = reported b"
  by (simp_all add: reported_def)

lemma reported_set_children [simp]: "reported (set_children t b) = reported b"
  by (simp add: set_children_def)

lemma cast_reports: "CAST_AMBIGUOUS_TYPES t u c = Some (t', u', f, c', log) \<Longrightarrow> f \<longleftrightarrow> log \<noteq> []"
  by (auto simp: CAST_AMBIGUOUS_TYPES_def MAP_TYPE_TO_PARAMETER_VALUE_def split: if_splits bind_splits)

lemma cast_children_keeps: "keeps_report cast_children"
proof (rule keeps_reportI)
  fix b b' assume "cast_children b = Some b'" "reported b"
  then show "reported b'"
    using cast_reports [of "child0 b" "child1 b" "binary.parse_ctx b"]
    by (auto simp: cast_children_def reported_def)
qed

lemma issue_keeps [simp]: "keeps_report (ISSUE_TYPE_COMPATIBILITY_ERROR t name)"
  by (rule keeps_reportI) (auto simp: ISSUE_TYPE_COMPATIBILITY_ERROR_def)

lemma issue_reported: "ISSUE_TYPE_COMPATIBILITY_ERROR t name b = Some b' \<Longrightarrow> reported b' \<and> failed b'"
  by (auto simp: ISSUE_TYPE_COMPATIBILITY_ERROR_def fail_def reported_def)

lemma issue_unfold: "ISSUE_TYPE_COMPATIBILITY_ERROR t name b = Some b' \<Longrightarrow> \<exists>s. b' = fail (ERR_TYPE_NOT_COMPATIBLE s name) b"
  by (auto simp: ISSUE_TYPE_COMPATIBILITY_ERROR_def)

lemma require_keeps: "keeps_report (require ok name t)"
  by (rule keeps_reportI) (auto simp: require_def dest: issue_unfold split: if_splits)

lemma arithmetic_operand_keeps: "keeps_report (arithmetic_operand t)"
  by (rule keeps_reportI) (auto simp: arithmetic_operand_def dest: issue_unfold split: if_splits)

lemma date_time_arithmetic_keeps: "keeps_report (date_time_arithmetic d name t u)"
  by (rule keeps_reportI)
     (auto simp: date_time_arithmetic_def dest!: issue_unfold split: date_time_type.splits option.splits bind_splits)

lemma check_arithmetic_keeps: "keeps_report (check_arithmetic t u)"
proof (rule keeps_reportI)
  fix b b' assume c: "check_arithmetic t u b = Some b'" and r: "reported b"
  obtain b1 where 1: "arithmetic_operand (child0 b) b = Some b1"
    using c by (auto simp: check_arithmetic_def split: bind_splits)
  obtain b2 where 2: "arithmetic_operand (child1 b1) b1 = Some b2"
    using c 1 by (auto simp: check_arithmetic_def split: bind_splits)
  have "reported b2" using r 1 2 keeps_reportD [OF arithmetic_operand_keeps] by blast
  then show "reported b'"
    using c 1 2 keeps_reportD [OF date_time_arithmetic_keeps]
    by (fastforce simp: check_arithmetic_def Let_def split: if_splits)
qed

lemma check_concat_keeps: "keeps_report (check_concat t u)"
  by (rule keeps_reportI)
     (auto simp: check_concat_def Let_def dest!: issue_unfold split: if_splits bind_splits)

lemma check_boolean_keeps: "keeps_report check_boolean"
  by (rule keeps_reportI)
     (auto simp: check_boolean_def dest: keeps_reportD [OF require_keeps] split: bind_splits)

lemma check_regex_keeps: "keeps_report (check_regex stored)"
proof (rule keeps_reportI)
  fix b b' assume c: "check_regex stored b = Some b'" and r: "reported b"
  obtain b1 where 1: "require IS_STRING_TYPE ''regex operations'' (child0 b) b = Some b1"
    using c by (auto simp: check_regex_def split: bind_splits)
  obtain b2 where 2: "require IS_STRING_TYPE ''regex operations'' (child1 b1) b1 = Some b2"
    using c 1 by (auto simp: check_regex_def split: bind_splits)
  have "reported b2" using r 1 2 keeps_reportD [OF require_keeps] by blast
  then show "reported b'"
    using c 1 2 by (auto simp: check_regex_def split: if_splits bind_splits)
qed

lemma compare_types_reports: "compare_types ls rs whole c = Some (f, c', log) \<Longrightarrow> f \<longleftrightarrow> log \<noteq> []"
proof (induction ls rs whole c arbitrary: f c' log rule: compare_types.induct)
  case (1 rs whole c)
  then show ?case by simp
next
  case (2 l ls rs whole c)
  then obtain r rs' where r: "(case rs of [] \<Rightarrow> whole | _ \<Rightarrow> rs) = r # rs'"
    by (cases "case rs of [] \<Rightarrow> whole | _ \<Rightarrow> rs") auto
  then obtain t u g d log1 where cast: "CAST_AMBIGUOUS_TYPES l r c = Some (t, u, g, d, log1)"
    using "2.prems" by (auto split: bind_splits)
  have g: "g \<longleftrightarrow> log1 \<noteq> []" by (rule cast_reports [OF cast])
  show ?case
  proof (cases "g \<or> pair l r NUMERIC_LITERAL INTEGER_LITERAL \<or> t \<noteq> u")
    case True
    then show ?thesis using "2.prems" r cast g by (auto simp del: compare_types.simps simp: compare_types.simps(2) split: if_splits bind_splits)
  next
    case False
    then obtain rest where rest: "compare_types ls rs' whole d = Some (f, c', rest)" and log: "log = log1 @ rest"
      using "2.prems" r cast by (auto split: if_splits)
    have "f \<longleftrightarrow> rest \<noteq> []" by (rule "2.IH" [OF r cast refl refl refl refl _ _ rest]) (use False in auto)
    then show ?thesis using log g False by simp
  qed
qed

lemma compare_tables_keeps: "keeps_report (compare_column_count_and_column_type_of_tables x y)"
  by (rule keeps_reportI)
     (auto simp: compare_column_count_and_column_type_of_tables_def Let_def reported_def fail_def
           dest: compare_types_reports split: SqlStatement.splits if_splits)

lemma null_subquery_keeps: "keeps_report CHECK_NULL_SUBQUERY"
  by (rule keeps_reportI)
     (auto simp: CHECK_NULL_SUBQUERY_def dest: issue_unfold split: SqlStatement.splits if_splits)

lemma compare_in_list_reported: "compare_in_list x vs b = Some b' \<Longrightarrow> reported b \<Longrightarrow> reported b'"
  by (induction x vs b arbitrary: b' rule: compare_in_list.induct)
     (auto split: if_splits bind_splits dest: keeps_reportD [OF compare_tables_keeps])

lemma validate_table_keeps: "keeps_report (validate_table_asterisk_binary_operation t u)"
  by (rule keeps_reportI)
     (auto simp: validate_table_asterisk_binary_operation_def Let_def
           split: if_splits bind_splits SqlStatement.splits
           dest: keeps_reportD [OF compare_tables_keeps] keeps_reportD [OF null_subquery_keeps] compare_in_list_reported)

lemma in_list_reported: "in_list_types vs b = Some b' \<Longrightarrow> reported b \<Longrightarrow> reported b'"
  by (induction vs arbitrary: b)
     (auto simp: Let_def split: SqlStatement.splits option.splits if_splits bind_splits
           dest: keeps_reportD [OF cast_children_keeps])

lemma comparison_types_reported: "comparison_types b = Some (f, b') \<Longrightarrow> reported b \<Longrightarrow> reported b'"
  by (auto simp: comparison_types_def split: if_splits bind_splits SqlStatement.splits
           dest: in_list_reported keeps_reportD [OF cast_children_keeps])

lemma finish_comparison_reported [simp]: "reported (finish_comparison t b) = reported b"
  by (simp add: finish_comparison_def date_time_comparison_def)

lemma check_comparison_reported: "check_comparison t u b = Some (f, b') \<Longrightarrow> reported b \<Longrightarrow> reported b'"
  by (auto simp: check_comparison_def split: if_splits
           dest: keeps_reportD [OF validate_table_keeps] comparison_types_reported)

lemma check_operation_reported: "check_operation stored t u b = Some (f, b') \<Longrightarrow> reported b \<Longrightarrow> reported b'"
  by (auto simp: check_operation_def Let_def split: if_splits
           dest: keeps_reportD [OF check_arithmetic_keeps] keeps_reportD [OF check_concat_keeps]
             keeps_reportD [OF check_boolean_keeps] keeps_reportD [OF check_regex_keeps] check_comparison_reported)
section \<open>The type of the result\<close>

text \<open>What the type of an accepted operation is, by the operator and the common type of the operands.\<close>

definition result_types :: "BinaryOperations \<Rightarrow> SqlValueType set" where
  "result_types op =
     (if op = CONCAT then {STRING_LITERAL}
      else if is_arithmetic op then {INTEGER_LITERAL, NUMERIC_LITERAL, NUL_VALUE}
      else {BOOLEAN_VALUE})"

definition date_time_operation :: "BinaryOperations \<Rightarrow> bool" where
  "date_time_operation op \<longleftrightarrow> op = DATE_TIME_ADDITION \<or> op = DATE_TIME_SUBTRACTION"

lemma arithmetic_operand_passes:
  "arithmetic_operand t b = Some b' \<Longrightarrow> \<not> failed b' \<Longrightarrow>
     b' = b \<and> (t \<in> {INTEGER_LITERAL, NUMERIC_LITERAL, NUL_VALUE} \<or> IS_DATE_TIME_TYPE t)"
  by (auto simp: arithmetic_operand_def fail_def dest: issue_reported split: if_splits)

lemma issue_fails: "ISSUE_TYPE_COMPATIBILITY_ERROR t name b = Some b' \<Longrightarrow> failed b'"
  using issue_reported by blast

lemma fail_failed [simp]: "failed (fail e b)"
  by (simp add: fail_def)

lemma fail_operation [simp]: "operation (fail e b) = operation b"
  by (simp add: fail_def)

lemma set_children_simps [simp]:
  "operation (set_children t b) = operation b" "result_type (set_children t b) = result_type b"
  "failed (set_children t b) = failed b" "child0 (set_children t b) = t" "child1 (set_children t b) = t"
  by (simp_all add: set_children_def)

lemma issue_operation: "ISSUE_TYPE_COMPATIBILITY_ERROR t name b = Some b' \<Longrightarrow> operation b' = operation b"
  by (auto simp: ISSUE_TYPE_COMPATIBILITY_ERROR_def)

lemma date_time_arithmetic_operation:
  "date_time_arithmetic d name t u b = Some b' \<Longrightarrow> operation b' = operation b"
  by (auto simp: date_time_arithmetic_def dest!: issue_operation split: date_time_type.splits option.splits bind_splits)

lemma arithmetic_result:
  assumes "check_arithmetic t u b = Some b'" and "\<not> failed b'"
  shows "date_time_operation (operation b') \<or> operation b' = operation b \<and> result_type b' \<in> {INTEGER_LITERAL, NUMERIC_LITERAL, NUL_VALUE}"
proof -
  obtain b1 where 1: "arithmetic_operand (child0 b) b = Some b1"
    using assms(1) by (auto simp: check_arithmetic_def split: bind_splits)
  obtain b2 where 2: "arithmetic_operand (child1 b1) b1 = Some b2"
    using assms(1) 1 by (auto simp: check_arithmetic_def split: bind_splits)
  have nf: "\<not> failed b2" using assms 1 2 by (auto simp: check_arithmetic_def)
  then have "\<not> failed b1" using 2 by (auto simp: arithmetic_operand_def dest: issue_fails split: if_splits)
  then have b: "b1 = b" "b2 = b1" and c: "child0 b \<in> {INTEGER_LITERAL, NUMERIC_LITERAL, NUL_VALUE} \<or> IS_DATE_TIME_TYPE (child0 b)"
    using arithmetic_operand_passes [OF 1] arithmetic_operand_passes [OF 2 nf] by simp_all
  then show ?thesis
    using assms(1) 1 2 nf
    by (auto simp: check_arithmetic_def Let_def date_time_operation_def dest!: date_time_arithmetic_operation split: if_splits)
qed

lemma concat_result: "check_concat t u b = Some b' \<Longrightarrow> result_type b' = STRING_LITERAL \<and> operation b' = operation b"
  by (auto simp: check_concat_def Let_def dest!: issue_operation split: if_splits bind_splits)

lemma require_operation: "require ok name t b = Some b' \<Longrightarrow> operation b' = operation b"
  by (auto simp: require_def dest: issue_operation split: if_splits)

lemma boolean_result: "check_boolean b = Some b' \<Longrightarrow> result_type b' = BOOLEAN_VALUE \<and> operation b' = operation b"
  by (auto simp: check_boolean_def dest!: require_operation split: bind_splits)

lemma regex_result:
  "check_regex stored b = Some b' \<Longrightarrow> result_type b' = BOOLEAN_VALUE \<and> operation b' \<in> {operation b, BOOLEAN_EQUALS}"
  by (auto simp: check_regex_def dest!: require_operation split: bind_splits if_splits)

lemma null_subquery_operation:
  "CHECK_NULL_SUBQUERY b = Some b' \<Longrightarrow> operation b' = operation b"
  by (auto simp: CHECK_NULL_SUBQUERY_def dest: issue_operation split: SqlStatement.splits if_splits)

lemma compare_tables_operation:
  "compare_column_count_and_column_type_of_tables x y b = Some b' \<Longrightarrow> operation b' = operation b"
  by (auto simp: compare_column_count_and_column_type_of_tables_def Let_def split: SqlStatement.splits if_splits)

lemma compare_in_list_operation: "compare_in_list x vs b = Some b' \<Longrightarrow> operation b' = operation b"
  by (induction vs arbitrary: b)
     (auto split: if_splits bind_splits dest!: compare_tables_operation)

lemma validate_table_operation:
  "validate_table_asterisk_binary_operation t u b = Some b' \<Longrightarrow> operation b' = operation b"
  by (auto simp: validate_table_asterisk_binary_operation_def Let_def
        split: if_splits bind_splits SqlStatement.splits
        dest!: compare_tables_operation null_subquery_operation compare_in_list_operation)

lemma cast_children_operation: "cast_children b = Some b' \<Longrightarrow> operation b' = operation b"
  by (auto simp: cast_children_def)

lemma in_list_operation: "in_list_types vs b = Some b' \<Longrightarrow> operation b' = operation b"
  by (induction vs arbitrary: b)
     (auto simp: Let_def split: SqlStatement.splits option.splits if_splits bind_splits dest: cast_children_operation)

lemma comparison_types_operation: "comparison_types b = Some (f, b') \<Longrightarrow> operation b' = operation b \<and> (f \<longrightarrow> failed b')"
  by (auto simp: comparison_types_def split: if_splits bind_splits SqlStatement.splits
        dest: in_list_operation cast_children_operation)

lemma finish_comparison_simps [simp]:
  "result_type (finish_comparison t b) = BOOLEAN_VALUE" "operation (finish_comparison t b) = operation b"
  "failed (finish_comparison t b) = failed b"
  by (simp_all add: finish_comparison_def date_time_comparison_def)

lemma result_of_finish: "b = finish_comparison t b' \<Longrightarrow> result_type b = BOOLEAN_VALUE"
  by simp

lemma comparison_result:
  assumes "check_comparison t u b = Some (f, b')" and "\<not> failed b'" and "child0 b' = child1 b'"
  shows "result_type b' = BOOLEAN_VALUE \<and> operation b' = operation b"
  using assms
  by (auto simp: check_comparison_def split: if_splits intro: result_of_finish
        dest: validate_table_operation comparison_types_operation)

lemma returned_fails: "check_operation stored t u b = Some (True, b') \<Longrightarrow> failed b'"
  by (auto simp: check_operation_def check_comparison_def Let_def split: if_splits
        dest: comparison_types_operation)

lemma check_mismatch_passes: "check_mismatch b = Some b' \<Longrightarrow> \<not> failed b' \<Longrightarrow> b' = b \<and> child0 b = child1 b"
  by (auto simp: check_mismatch_def split: if_splits bind_splits)

lemma check_mismatch_keeps: "keeps_report check_mismatch"
  by (rule keeps_reportI) (auto simp: check_mismatch_def split: if_splits bind_splits)

lemma accepted_steps:
  assumes "binary_operation_data_type_check stored b = Some b'" and "\<not> failed b'"
  obtains b1 where "cast_children b = Some b1" and "\<not> failed b1"
    and "check_operation stored (child0 b) (child1 b) b1 = Some (False, b')" and "child0 b' = child1 b'"
proof -
  obtain b1 where 1: "cast_children b = Some b1"
    using assms(1) by (auto simp: binary_operation_data_type_check_def Let_def split: bind_splits)
  have nf: "\<not> failed b1" using assms 1 by (auto simp: binary_operation_data_type_check_def)
  then obtain f b2 where 2: "check_operation stored (child0 b) (child1 b) b1 = Some (f, b2)"
    using assms(1) 1 by (auto simp: binary_operation_data_type_check_def Let_def split: bind_splits)
  have f: "\<not> f" using returned_fails 2 assms 1 nf
    by (cases f) (auto simp: binary_operation_data_type_check_def Let_def)
  then have "check_mismatch b2 = Some b'" using assms(1) 1 2 nf
    by (simp add: binary_operation_data_type_check_def Let_def)
  then have "b' = b2" "child0 b' = child1 b'" using check_mismatch_passes assms(2) by blast+
  then show ?thesis using that [OF 1 nf] 2 f by simp
qed

lemma operation_result:
  assumes "check_operation stored t u b = Some (False, b')" and "\<not> failed b'" and "child0 b' = child1 b'"
  shows "date_time_operation (operation b') \<or> result_type b' \<in> result_types (operation b')"
  using assms
  by (auto simp: check_operation_def Let_def result_types_def is_arithmetic_def is_regex_def date_time_operation_def
        split: if_splits dest!: arithmetic_result concat_result boolean_result regex_result comparison_result)
lemma date_time_result:
  assumes "check_operation stored t u b = Some (False, b')" and "\<not> failed b'" and "child0 b' = child1 b'"
    and "date_time_operation (operation b')"
  shows "result_type b' = date_time_return_type b'"
proof (cases "date_time_operation (operation b)")
  case True
  then show ?thesis using assms
    by (auto simp: check_operation_def Let_def date_time_operation_def is_arithmetic_def is_regex_def set_children_def)
next
  case False
  have "is_arithmetic (operation b)" using assms False
    by (auto simp: check_operation_def Let_def date_time_operation_def split: if_splits
          dest!: concat_result boolean_result regex_result comparison_result)
  then have c: "check_arithmetic t u b = Some b'" using assms by (simp add: check_operation_def Let_def)
  then obtain b1 where 1: "arithmetic_operand (child0 b) b = Some b1"
    by (auto simp: check_arithmetic_def split: bind_splits)
  then obtain b2 where 2: "arithmetic_operand (child1 b1) b1 = Some b2"
    using c by (auto simp: check_arithmetic_def split: bind_splits)
  have nf: "\<not> failed b2" using c assms(2) 1 2 by (auto simp: check_arithmetic_def)
  then have "\<not> failed b1" using 2 by (auto simp: arithmetic_operand_def dest: issue_fails split: if_splits)
  then have b: "b1 = b" "b2 = b1" using arithmetic_operand_passes [OF 1] arithmetic_operand_passes [OF 2 nf] by simp_all
  show ?thesis
    using c 1 2 nf b False assms(4)
    by (auto simp: check_arithmetic_def Let_def date_time_arithmetic_def date_time_operation_def split: if_splits)
qed

lemma check_reported:
  assumes "binary_operation_data_type_check stored b = Some b'" and "reported b"
  shows "reported b'"
proof -
  obtain b1 where 1: "cast_children b = Some b1"
    using assms(1) by (auto simp: binary_operation_data_type_check_def Let_def split: bind_splits)
  then have r: "reported b1" using keeps_reportD [OF cast_children_keeps 1] assms(2) by simp
  show ?thesis
  proof (cases "failed b1")
    case True
    then show ?thesis using assms(1) 1 r by (simp add: binary_operation_data_type_check_def)
  next
    case False
    then obtain f b2 where 2: "check_operation stored (child0 b) (child1 b) b1 = Some (f, b2)"
      using assms(1) 1 by (auto simp: binary_operation_data_type_check_def Let_def split: bind_splits)
    then have "reported b2" using check_operation_reported r by blast
    then show ?thesis using assms(1) 1 2 False keeps_reportD [OF check_mismatch_keeps]
      by (auto simp: binary_operation_data_type_check_def Let_def split: if_splits)
  qed
qed

section \<open>Comparisons\<close>

text \<open>The types of expressions that are neither parameters nor tables, and which of them can be compared.\<close>

definition scalar_types :: "SqlValueType list" where
  "scalar_types = [BOOLEAN_VALUE, NUMERIC_LITERAL, INTEGER_LITERAL, STRING_LITERAL, NUL_VALUE, BOOLEAN_OR_STRING_LITERAL,
     DATE_LITERAL, TIME_LITERAL, TIME_WITH_TIME_ZONE_LITERAL, TIMESTAMP_LITERAL, TIMESTAMP_WITH_TIME_ZONE_LITERAL]"

definition numeric :: "SqlValueType \<Rightarrow> bool" where
  "numeric t \<longleftrightarrow> t = INTEGER_LITERAL \<or> t = NUMERIC_LITERAL"

definition textual :: "SqlValueType \<Rightarrow> bool" where
  "textual t \<longleftrightarrow> t = STRING_LITERAL \<or> t = BOOLEAN_VALUE"

text \<open>The two types are the same after the cast of ambiguous types.\<close>

definition unifiable :: "SqlValueType \<Rightarrow> SqlValueType \<Rightarrow> bool" where
  "unifiable t u \<longleftrightarrow> t = u \<or> t = NUL_VALUE \<or> u = NUL_VALUE \<or> numeric t \<and> numeric u
     \<or> t = BOOLEAN_OR_STRING_LITERAL \<and> textual u \<or> textual t \<and> u = BOOLEAN_OR_STRING_LITERAL"

definition unify :: "SqlValueType \<Rightarrow> SqlValueType \<Rightarrow> SqlValueType \<times> SqlValueType" where
  "unify t u =
     (if t = NUL_VALUE then (u, u) else if u = NUL_VALUE then (t, t)
      else if numeric t \<and> numeric u \<and> t \<noteq> u then (NUMERIC_LITERAL, NUMERIC_LITERAL)
      else if t = BOOLEAN_OR_STRING_LITERAL \<and> textual u then (u, u)
      else if u = BOOLEAN_OR_STRING_LITERAL \<and> textual t then (t, t)
      else (t, u))"

lemma scalar_cases:
  "t \<in> set scalar_types \<longleftrightarrow> numeric t \<or> textual t \<or> t = NUL_VALUE \<or> t = BOOLEAN_OR_STRING_LITERAL \<or> IS_DATE_TIME_TYPE t"
  by (auto simp: scalar_types_def numeric_def textual_def IS_DATE_TIME_TYPE_def)

text \<open>No parameter has been seen, so that the cast only looks at the types.\<close>

definition no_parameters :: "parse_context option \<Rightarrow> bool" where
  "no_parameters c \<longleftrightarrow> (case c of None \<Rightarrow> True | Some c \<Rightarrow> cur_param_num c = 0)"

lemma no_parameters_set: "no_parameters c \<Longrightarrow> set_parameter_type t c = Some c"
  by (auto simp: no_parameters_def set_parameter_type_def split: option.splits)

lemma scalar_not_parameter: "t \<in> set scalar_types \<Longrightarrow> t \<noteq> PARAMETER_VALUE \<and> t \<noteq> TABLE_ASTERISK"
  by (auto simp: scalar_types_def)

lemma cast_scalar:
  assumes "t \<in> set scalar_types" and "u \<in> set scalar_types" and "no_parameters c"
  shows "CAST_AMBIGUOUS_TYPES t u c = Some (fst (unify t u), snd (unify t u), False, c, [])"
  using assms scalar_not_parameter [OF assms(1)] scalar_not_parameter [OF assms(2)] no_parameters_set [OF assms(3)]
  by (auto simp: CAST_AMBIGUOUS_TYPES_def MAP_TYPE_TO_PARAMETER_VALUE_def unify_def numeric_def textual_def
        FIX_BOOLEAN_OR_STRING_def)

lemma unify_same: "fst (unify t u) = snd (unify t u) \<longleftrightarrow> unifiable t u"
  by (auto simp: unify_def unifiable_def numeric_def textual_def)

lemma unify_scalar: "t \<in> set scalar_types \<Longrightarrow> u \<in> set scalar_types \<Longrightarrow>
    fst (unify t u) \<in> set scalar_types \<and> snd (unify t u) \<in> set scalar_types"
  by (auto simp: unify_def scalar_types_def)

lemma cast_children_scalar:
  assumes "child0 b \<in> set scalar_types" and "child1 b \<in> set scalar_types" and "no_parameters (binary.parse_ctx b)"
  shows "cast_children b = Some (b\<lparr>child0 := fst (unify (child0 b) (child1 b)), child1 := snd (unify (child0 b) (child1 b))\<rparr>)"
  using cast_scalar [OF assms] by (simp add: cast_children_def)

lemma scalar_has_name: "t \<in> set scalar_types \<Longrightarrow> \<exists>s. get_user_visible_type_string t = Some s"
  by (auto simp: scalar_types_def get_user_visible_type_string_def)

lemma mismatch_scalar:
  assumes "child0 b \<in> set scalar_types" and "child1 b \<in> set scalar_types" and "\<not> failed b"
  shows "\<exists>b'. check_mismatch b = Some b' \<and> (failed b' \<longleftrightarrow> child0 b \<noteq> child1 b)"
  using scalar_has_name [OF assms(1)] scalar_has_name [OF assms(2)] assms(3)
  by (auto simp: check_mismatch_def)

lemma time_with_date_iff: "time_with_date t u \<longleftrightarrow> (IS_TIME t \<longleftrightarrow> \<not> IS_TIME u)"
  by (auto simp: time_with_date_def IS_TIME_def)

lemma unify_date_time:
  assumes "IS_DATE_TIME_TYPE t" and "IS_DATE_TIME_TYPE u"
  shows "unify t u = (t, u)"
  using assms by (auto simp: unify_def IS_DATE_TIME_TYPE_def numeric_def textual_def)

lemma unify_not_both_date_time:
  assumes "\<not> unifiable t u" and "\<not> (IS_DATE_TIME_TYPE t \<and> IS_DATE_TIME_TYPE u)"
  shows "\<not> (IS_DATE_TIME_TYPE (fst (unify t u)) \<and> IS_DATE_TIME_TYPE (snd (unify t u)))"
  using assms by (auto simp: unify_def unifiable_def IS_DATE_TIME_TYPE_def)

lemma comparison_not_in: "is_comparison op \<Longrightarrow> \<not> is_in op \<and> \<not> is_is op"
  by (auto simp: is_comparison_def is_in_def is_is_def)

lemma comparison_scalar:
  assumes op: "is_comparison (operation b)" and plain: "\<not> is_column_alias (operand0 b)" "\<not> is_column_alias (operand1 b)"
    and types: "child0 b \<in> set scalar_types"
  shows "check_comparison t u b = Some (False, finish_comparison u b)"
  using comparison_not_in [OF op] plain scalar_not_parameter [OF types]
  by (simp add: check_comparison_def comparison_types_def)

lemma comparison_is_checked:
  "is_comparison (operation b) \<Longrightarrow> check_operation stored t u b = check_comparison t u b"
  by (auto simp: check_operation_def is_comparison_def is_arithmetic_def is_regex_def)

lemma comparison_mismatch:
  assumes op: "is_comparison (operation b)"
    and b1: "b1 = b\<lparr>child0 := fst (unify (child0 b) (child1 b)), child1 := snd (unify (child0 b) (child1 b))\<rparr>"
  shows "child0 (finish_comparison (child1 b) b1) = child1 (finish_comparison (child1 b) b1) \<longleftrightarrow>
    unifiable (child0 b) (child1 b)
      \<or> IS_DATE_TIME_TYPE (child0 b) \<and> IS_DATE_TIME_TYPE (child1 b) \<and> (IS_TIME (child0 b) \<longleftrightarrow> IS_TIME (child1 b))"
proof (cases "IS_DATE_TIME_TYPE (child0 b) \<and> IS_DATE_TIME_TYPE (child1 b)")
  case True
  then show ?thesis
    using comparison_not_in [OF op] unify_date_time [of "child0 b" "child1 b"] unify_same [of "child0 b" "child1 b"]
    by (simp add: b1 finish_comparison_def date_time_comparison_def time_with_date_iff)
next
  case False
  show ?thesis
  proof (cases "unifiable (child0 b) (child1 b)")
    case True
    then show ?thesis using unify_same [of "child0 b" "child1 b"]
      by (simp add: b1 finish_comparison_def date_time_comparison_def)
  next
    case not_unifiable: False
    then show ?thesis using False unify_not_both_date_time [of "child0 b" "child1 b"] unify_same [of "child0 b" "child1 b"]
      by (auto simp: b1 finish_comparison_def date_time_comparison_def)
  qed
qed

lemma finish_comparison_children:
  "child0 (finish_comparison t b) \<in> {child0 b, child1 b} \<and> child1 (finish_comparison t b) = child1 b"
  by (simp add: finish_comparison_def date_time_comparison_def)

definition comparable :: "SqlValueType \<Rightarrow> SqlValueType \<Rightarrow> bool" where
  "comparable t u \<longleftrightarrow> unifiable t u
     \<or> IS_DATE_TIME_TYPE t \<and> IS_DATE_TIME_TYPE u \<and> (IS_TIME t \<longleftrightarrow> IS_TIME u)"

lemma comparison_verdict:
  assumes op: "is_comparison (operation b)" and plain: "\<not> is_column_alias (operand0 b)" "\<not> is_column_alias (operand1 b)"
    and types: "child0 b \<in> set scalar_types" "child1 b \<in> set scalar_types" and np: "no_parameters (binary.parse_ctx b)"
    and nf: "\<not> failed b"
  shows "\<exists>b'. binary_operation_data_type_check stored b = Some b' \<and> (failed b' \<longleftrightarrow> \<not> comparable (child0 b) (child1 b))"
proof -
  let ?b1 = "b\<lparr>child0 := fst (unify (child0 b) (child1 b)), child1 := snd (unify (child0 b) (child1 b))\<rparr>"
  let ?b2 = "finish_comparison (child1 b) ?b1"
  have s: "child0 ?b1 \<in> set scalar_types" "child1 ?b1 \<in> set scalar_types" using unify_scalar [OF types] by simp_all
  have 1: "check_comparison (child0 b) (child1 b) ?b1 = Some (False, ?b2)"
    by (rule comparison_scalar) (use op plain s in simp_all)
  have 2: "child0 ?b2 \<in> set scalar_types" "child1 ?b2 \<in> set scalar_types"
    using finish_comparison_children [of "child1 b" ?b1] s by auto
  have "\<not> failed ?b2" using nf by simp
  then obtain b' where "check_mismatch ?b2 = Some b'" "failed b' \<longleftrightarrow> child0 ?b2 \<noteq> child1 ?b2"
    using mismatch_scalar [OF 2] by blast
  then show ?thesis
    using cast_children_scalar [OF types np] 1 nf comparison_is_checked [of ?b1] op comparison_mismatch [OF op refl]
    by (simp add: binary_operation_data_type_check_def Let_def comparable_def)
qed
section \<open>Additions\<close>

definition addable :: "SqlValueType \<Rightarrow> bool" where
  "addable t \<longleftrightarrow> numeric t \<or> t = NUL_VALUE \<or> IS_DATE_TIME_TYPE t"

text \<open>The type of a sum: that of the numbers, or that of a date or time with a number of days or a time.\<close>

definition addition_type :: "SqlValueType \<Rightarrow> SqlValueType \<Rightarrow> SqlValueType option" where
  "addition_type t u =
     (if (numeric t \<or> t = NUL_VALUE) \<and> (numeric u \<or> u = NUL_VALUE) then Some (fst (unify t u))
      else (case date_time_addition t u of Typed r _ \<Rightarrow> Some r | _ \<Rightarrow> None))"

lemma pair_commute: "pair l r t u = pair r l t u"
  by (auto simp: pair_def)

lemma date_time_addition_commute: "date_time_addition t u = date_time_addition u t"
  unfolding date_time_addition_def by (simp only: pair_commute [of t u] disj_commute conj_commute)

lemma unify_commute: "unify u t = (snd (unify t u), fst (unify t u))"
  by (auto simp: unify_def textual_def numeric_def)

lemma addition_type_commute: "addition_type t u = addition_type u t"
  using unify_same [of t u] by (auto simp: addition_type_def date_time_addition_commute [of t u] unify_commute [of t u] unifiable_def)

lemma operand_verdict:
  assumes "t \<in> set scalar_types" and "operation b = ADDITION"
  shows "\<exists>b'. arithmetic_operand t b = Some b' \<and> (addable t \<longrightarrow> b' = b) \<and> (\<not> addable t \<longrightarrow> failed b')
    \<and> operation b' = ADDITION \<and> child0 b' = child0 b \<and> child1 b' = child1 b \<and> (failed b \<longrightarrow> failed b')"
  using assms scalar_has_name [OF assms(1)]
  by (auto simp: arithmetic_operand_def addable_def ISSUE_TYPE_COMPATIBILITY_ERROR_def fail_def numeric_def)

lemma addition_not_addable:
  assumes "child0 b \<in> set scalar_types" and "child1 b \<in> set scalar_types" and "operation b = ADDITION"
    and "\<not> (addable (child0 b) \<and> addable (child1 b))"
  shows "\<exists>b'. check_arithmetic t u b = Some b' \<and> failed b'"
proof -
  obtain b1 where 1: "arithmetic_operand (child0 b) b = Some b1" "addable (child0 b) \<longrightarrow> b1 = b" "\<not> addable (child0 b) \<longrightarrow> failed b1"
    "operation b1 = ADDITION" "child1 b1 = child1 b"
    using operand_verdict [OF assms(1,3)] by blast
  obtain b2 where 2: "arithmetic_operand (child1 b) b1 = Some b2" "\<not> addable (child1 b) \<longrightarrow> failed b2" "failed b1 \<longrightarrow> failed b2"
    using operand_verdict [OF assms(2) 1(4)] by blast
  have "failed b2" using assms(4) 1 2 by blast
  then show ?thesis using 1 2 by (simp add: check_arithmetic_def)
qed

lemma addition_addable:
  assumes "child0 b \<in> set scalar_types" and "child1 b \<in> set scalar_types" and "operation b = ADDITION"
    and "addable (child0 b)" and "addable (child1 b)" and "\<not> failed b"
  shows "check_arithmetic t u b =
    (if IS_DATE_TIME_TYPE (child0 b) \<or> IS_DATE_TIME_TYPE (child1 b)
     then date_time_arithmetic (date_time_addition t u) ''addition operation'' t u (b\<lparr>operation := DATE_TIME_ADDITION\<rparr>)
     else Some (b\<lparr>result_type := child0 b\<rparr>))"
  using operand_verdict [OF assms(1,3)] operand_verdict [OF assms(2,3)] assms
  by (auto simp: check_arithmetic_def)

lemma typed_addition:
  "date_time_addition t u = Typed r s \<Longrightarrow>
     addable t \<and> addable u \<and> (IS_DATE_TIME_TYPE t \<or> IS_DATE_TIME_TYPE u) \<and> (s = None \<longrightarrow> unifiable t u)"
  by (auto simp: date_time_addition_def pair_def addable_def numeric_def IS_DATE_TIME_TYPE_def IS_TIME_def unifiable_def
        split: if_splits)

lemma date_time_arithmetic_typed:
  "date_time_arithmetic (Typed r s) name t u b =
     Some ((case s of None \<Rightarrow> b | Some v \<Rightarrow> set_children v b)\<lparr>result_type := r, date_time_return_type := r\<rparr>)"
  by (auto simp: date_time_arithmetic_def set_children_def split: option.splits)

lemma date_time_arithmetic_rejects:
  assumes "t \<in> set scalar_types" and "u \<in> set scalar_types" and "\<And>r s. d \<noteq> Typed r s"
  shows "\<exists>b'. date_time_arithmetic d name t u b = Some b' \<and> failed b'"
  using assms(3) scalar_has_name [OF assms(1)] scalar_has_name [OF assms(2)]
  by (cases d) (auto simp: date_time_arithmetic_def ISSUE_TYPE_COMPATIBILITY_ERROR_def fail_def)

lemma addable_unify:
  "addable t \<Longrightarrow> addable u \<Longrightarrow> addable (fst (unify t u)) \<and> addable (snd (unify t u))"
  by (auto simp: unify_def addable_def numeric_def textual_def)

lemma date_time_unify:
  assumes "addable t" and "addable u"
  shows "IS_DATE_TIME_TYPE (fst (unify t u)) \<or> IS_DATE_TIME_TYPE (snd (unify t u)) \<longleftrightarrow> IS_DATE_TIME_TYPE t \<or> IS_DATE_TIME_TYPE u"
  using assms by (auto simp: unify_def addable_def numeric_def textual_def IS_DATE_TIME_TYPE_def)

lemma not_addable_unify:
  assumes "t \<in> set scalar_types" and "u \<in> set scalar_types" and "\<not> (addable t \<and> addable u)"
  shows "\<not> (addable (fst (unify t u)) \<and> addable (snd (unify t u))) \<and> addition_type t u = None"
proof -
  have "\<not> (addable (fst (unify t u)) \<and> addable (snd (unify t u)))"
    using assms(3) by (auto simp: unify_def addable_def numeric_def textual_def IS_DATE_TIME_TYPE_def)
  moreover have "addition_type t u = None"
    using assms(3) typed_addition [of t u] by (auto simp: addition_type_def addable_def split: date_time_type.splits)
  ultimately show ?thesis by blast
qed

lemma check_mismatch_id: "failed b \<or> child0 b = child1 b \<Longrightarrow> check_mismatch b = Some b"
  by (auto simp: check_mismatch_def)

lemma addition_is_checked: "operation b = ADDITION \<Longrightarrow> check_operation stored t u b = map_option (\<lambda>b. (False, b)) (check_arithmetic t u b)"
  by (simp add: check_operation_def is_arithmetic_def)
lemma numeric_addition:
  assumes "numeric t \<or> t = NUL_VALUE" and "numeric u \<or> u = NUL_VALUE"
  shows "unifiable t u" and "addable t" and "addable u" and "\<not> IS_DATE_TIME_TYPE t" and "\<not> IS_DATE_TIME_TYPE u"
    and "addition_type t u = Some (fst (unify t u))"
  using assms by (auto simp: unifiable_def addable_def numeric_def IS_DATE_TIME_TYPE_def addition_type_def)

lemma date_time_addition_verdict:
  assumes types: "child0 b \<in> set scalar_types" "child1 b \<in> set scalar_types" "t \<in> set scalar_types" "u \<in> set scalar_types"
    and op: "operation b = ADDITION" and ok: "addable (child0 b)" "addable (child1 b)" and nf: "\<not> failed b"
    and date: "IS_DATE_TIME_TYPE (child0 b) \<or> IS_DATE_TIME_TYPE (child1 b)"
    and same: "unifiable t u \<Longrightarrow> child0 b = child1 b"
  shows "\<exists>b'. check_arithmetic t u b = Some b' \<and>
    (case date_time_addition t u of
       Typed r _ \<Rightarrow> \<not> failed b' \<and> child0 b' = child1 b' \<and> result_type b' = r | _ \<Rightarrow> failed b')"
proof (cases "\<exists>r s. date_time_addition t u = Typed r s")
  case True
  then obtain r s where d: "date_time_addition t u = Typed r s" by blast
  then have "s = None \<longrightarrow> child0 b = child1 b" using typed_addition same by blast
  then show ?thesis using addition_addable [OF types(1,2) op ok nf] date nf
    by (auto simp: d date_time_arithmetic_typed split: option.splits)
next
  case False
  then obtain b' where "date_time_arithmetic (date_time_addition t u) ''addition operation'' t u (b\<lparr>operation := DATE_TIME_ADDITION\<rparr>) = Some b'"
    "failed b'"
    using date_time_arithmetic_rejects [OF types(3,4)] by blast
  then show ?thesis using addition_addable [OF types(1,2) op ok nf] date False
    by (auto split: date_time_type.splits)
qed

lemma checked_arithmetic:
  assumes types: "child0 b \<in> set scalar_types" "child1 b \<in> set scalar_types" and np: "no_parameters (binary.parse_ctx b)"
    and nf: "\<not> failed b" and op: "operation b = ADDITION"
    and c: "check_arithmetic (child0 b) (child1 b)
      (b\<lparr>child0 := fst (unify (child0 b) (child1 b)), child1 := snd (unify (child0 b) (child1 b))\<rparr>) = Some b'"
    and "failed b' \<or> child0 b' = child1 b'"
  shows "binary_operation_data_type_check stored b = Some b'"
  using assms cast_children_scalar [OF types np] check_mismatch_id [of b']
  by (simp add: binary_operation_data_type_check_def addition_is_checked)

lemma addition_verdict:
  assumes types: "child0 b \<in> set scalar_types" "child1 b \<in> set scalar_types" and np: "no_parameters (binary.parse_ctx b)"
    and nf: "\<not> failed b" and op: "operation b = ADDITION"
  shows "\<exists>b'. binary_operation_data_type_check stored b = Some b' \<and>
    (if failed b' then None else Some (result_type b')) = addition_type (child0 b) (child1 b)"
proof -
  let ?t = "child0 b" and ?u = "child1 b"
  let ?b1 = "b\<lparr>child0 := fst (unify ?t ?u), child1 := snd (unify ?t ?u)\<rparr>"
  have s: "child0 ?b1 \<in> set scalar_types" "child1 ?b1 \<in> set scalar_types" using unify_scalar [OF types] by simp_all
  note finish = checked_arithmetic [OF types np nf op]
  consider (no) "\<not> (addable ?t \<and> addable ?u)"
    | (numbers) "numeric ?t \<or> ?t = NUL_VALUE" "numeric ?u \<or> ?u = NUL_VALUE"
    | (dates) "addable ?t" "addable ?u" "IS_DATE_TIME_TYPE ?t \<or> IS_DATE_TIME_TYPE ?u"
    by (auto simp: addable_def)
  then show ?thesis
  proof cases
    case no
    obtain b' where b': "check_arithmetic ?t ?u ?b1 = Some b'" "failed b'"
      using addition_not_addable [OF s] op not_addable_unify [OF types no] by fastforce
    then show ?thesis using finish [OF b'(1)] not_addable_unify [OF types no] by simp
  next
    case numbers
    note n = numeric_addition [OF numbers]
    have "check_arithmetic ?t ?u ?b1 = Some (?b1\<lparr>result_type := fst (unify ?t ?u)\<rparr>)"
      using addition_addable [OF s] addable_unify [OF n(2,3)] date_time_unify [OF n(2,3)] n(4,5) op nf by simp
    from finish [OF this] show ?thesis using unify_same [of ?t ?u] n nf by simp
  next
    case dates
    have a: "addable (child0 ?b1)" "addable (child1 ?b1)" using addable_unify [OF dates(1,2)] by simp_all
    have d: "IS_DATE_TIME_TYPE (child0 ?b1) \<or> IS_DATE_TIME_TYPE (child1 ?b1)"
      using date_time_unify [OF dates(1,2)] dates(3) by simp
    have same: "unifiable ?t ?u \<Longrightarrow> child0 ?b1 = child1 ?b1" using unify_same [of ?t ?u] by simp
    obtain b' where b': "check_arithmetic ?t ?u ?b1 = Some b'"
      and r: "case date_time_addition ?t ?u of
        Typed r _ \<Rightarrow> \<not> failed b' \<and> child0 b' = child1 b' \<and> result_type b' = r | _ \<Rightarrow> failed b'"
      using date_time_addition_verdict [OF s types _ a _ d same] op nf by auto
    have "addition_type ?t ?u = (case date_time_addition ?t ?u of Typed r _ \<Rightarrow> Some r | _ \<Rightarrow> None)"
      using dates(3) by (auto simp: addition_type_def numeric_def IS_DATE_TIME_TYPE_def)
    then show ?thesis using finish [OF b'] r by (auto split: date_time_type.splits)
  qed
qed

section \<open>Properties\<close>

definition swap_operands :: "binary \<Rightarrow> binary" where
  "swap_operands b = b\<lparr>operand0 := operand1 b, operand1 := operand0 b, child0 := child1 b, child1 := child0 b\<rparr>"

text \<open>C11: An accepted binary operation has operands of one type and the result type of its operator: BOOLEAN for
  comparisons, patterns and logic, VARCHAR for concatenation, a number or NULL for arithmetic, and for dates and times
  the type that the operation carries to its second check. The check fails exactly when it reports an error.\<close>

theorem binary_check_sound:
  assumes "binary_operation_data_type_check stored b = Some b'" and "reported b"
  shows "(failed b' \<longleftrightarrow> errors b' \<noteq> [])
    \<and> (failed b' \<or> child0 b' = child1 b'
        \<and> (if date_time_operation (operation b') then result_type b' = date_time_return_type b'
           else result_type b' \<in> result_types (operation b')))"
proof (cases "failed b'")
  case True
  then show ?thesis using check_reported [OF assms] by (simp add: reported_def)
next
  case False
  from accepted_steps [OF assms(1) False] obtain b1 where
    1: "check_operation stored (child0 b) (child1 b) b1 = Some (False, b')" and 2: "child0 b' = child1 b'" by blast
  then show ?thesis
    using False check_reported [OF assms] operation_result [OF 1 False 2] date_time_result [OF 1 False 2]
    by (auto simp: reported_def)
qed

definition sample_operation :: "BinaryOperations \<Rightarrow> SqlValueType \<Rightarrow> SqlValueType \<Rightarrow> binary" where
  "sample_operation op t u =
     \<lparr>operation = op, operand0 = value_STATEMENT t ''a'' 0, operand1 = value_STATEMENT u ''b'' 0,
      date_time_return_type = UNKNOWN_SqlValueType, child0 = t, child1 = u, result_type = UNKNOWN_SqlValueType,
      failed = False, parse_ctx = None, errors = []\<rparr>"

lemma binary_check_sound_witness:
  "(let b = sample_operation ADDITION DATE_LITERAL INTEGER_LITERAL; b' = the (binary_operation_data_type_check (\<lambda>_ _. False) b)
    in operation b' = DATE_TIME_ADDITION \<and> result_type b' = DATE_LITERAL \<and> (failed b' \<longleftrightarrow> errors b' \<noteq> []))"
proof -
  let ?b = "sample_operation ADDITION DATE_LITERAL INTEGER_LITERAL"
  let ?b' = "the (binary_operation_data_type_check (\<lambda>_ _. False) ?b)"
  have 1: "binary_operation_data_type_check (\<lambda>_ _. False) ?b = Some ?b'" by code_simp
  have 2: "reported ?b" by code_simp
  have "operation ?b' = DATE_TIME_ADDITION" by code_simp
  moreover have "result_type ?b' = DATE_LITERAL" by code_simp
  ultimately show ?thesis using binary_check_sound [OF 1 2] by (simp add: Let_def)
qed

text \<open>C13: A comparison of two plain operands whose types are known always ends with a verdict: it is accepted exactly when
  the types can be unified, or both are dates or times and either both of them are times of day or none is. So a date or
  a timestamp can be compared with each other, but not with a time, in either order of the operands.\<close>

theorem comparison_verdict_of_types:
  assumes "is_comparison (operation b)" and "\<not> is_column_alias (operand0 b)" and "\<not> is_column_alias (operand1 b)"
    and "child0 b \<in> set scalar_types" and "child1 b \<in> set scalar_types" and "no_parameters (binary.parse_ctx b)"
    and "\<not> failed b"
  shows "map_option failed (binary_operation_data_type_check stored b) = Some (\<not> comparable (child0 b) (child1 b))"
  using comparison_verdict [OF assms] by auto

lemma comparison_verdict_of_types_witness:
  "map_option failed (binary_operation_data_type_check (\<lambda>_ _. False) (sample_operation BOOLEAN_LESS_THAN DATE_LITERAL TIME_LITERAL)) = Some True
   \<and> map_option failed (binary_operation_data_type_check (\<lambda>_ _. False) (sample_operation BOOLEAN_LESS_THAN TIME_LITERAL DATE_LITERAL)) = Some True
   \<and> map_option failed (binary_operation_data_type_check (\<lambda>_ _. False) (sample_operation BOOLEAN_LESS_THAN DATE_LITERAL TIMESTAMP_LITERAL)) = Some False"
proof -
  have 1: "map_option failed (binary_operation_data_type_check (\<lambda>_ _. False) (sample_operation BOOLEAN_LESS_THAN t u)) = Some (\<not> comparable t u)"
    if "t \<in> set scalar_types" "u \<in> set scalar_types" for t u
    using comparison_verdict_of_types [of "sample_operation BOOLEAN_LESS_THAN t u" "\<lambda>_ _. False"] that
    by (simp add: sample_operation_def is_comparison_def is_column_alias_def no_parameters_def)
  have 2: "\<not> comparable DATE_LITERAL TIME_LITERAL" "\<not> comparable TIME_LITERAL DATE_LITERAL" "comparable DATE_LITERAL TIMESTAMP_LITERAL"
    by (simp_all add: comparable_def unifiable_def numeric_def textual_def IS_DATE_TIME_TYPE_def IS_TIME_def)
  show ?thesis
    using 1 [of DATE_LITERAL TIME_LITERAL] 1 [of TIME_LITERAL DATE_LITERAL] 1 [of DATE_LITERAL TIMESTAMP_LITERAL] 2
    by (simp add: scalar_types_def)
qed

text \<open>Addition is commutative in its types: for operands of known types the check gives the type of
  \<open>addition_type\<close>, or rejects the sum when there is none, and gives the same verdict and type when they are swapped.\<close>

theorem addition_types:
  assumes "operation b = ADDITION" and "child0 b \<in> set scalar_types" and "child1 b \<in> set scalar_types"
    and "no_parameters (binary.parse_ctx b)" and "\<not> failed b"
  shows "map_option (\<lambda>b'. if failed b' then None else Some (result_type b')) (binary_operation_data_type_check stored b)
      = Some (addition_type (child0 b) (child1 b))
    \<and> map_option (\<lambda>b'. if failed b' then None else Some (result_type b')) (binary_operation_data_type_check stored (swap_operands b))
      = Some (addition_type (child0 b) (child1 b))"
  using addition_verdict [OF assms(2-5,1), of stored]
    addition_verdict [of "swap_operands b" stored] assms addition_type_commute [of "child0 b" "child1 b"]
  by (auto simp: swap_operands_def)

lemma addition_types_witness:
  "map_option (\<lambda>b'. if failed b' then None else Some (result_type b'))
     (binary_operation_data_type_check (\<lambda>_ _. False) (swap_operands (sample_operation ADDITION DATE_LITERAL TIME_WITH_TIME_ZONE_LITERAL)))
   = Some (Some TIMESTAMP_WITH_TIME_ZONE_LITERAL)"
proof -
  have "addition_type DATE_LITERAL TIME_WITH_TIME_ZONE_LITERAL = Some TIMESTAMP_WITH_TIME_ZONE_LITERAL"
    by (simp add: addition_type_def date_time_addition_def numeric_def IS_TIME_def)
  then show ?thesis
    using addition_types [of "sample_operation ADDITION DATE_LITERAL TIME_WITH_TIME_ZONE_LITERAL" "\<lambda>_ _. False"]
    by (simp add: sample_operation_def scalar_types_def no_parameters_def)
qed

end
