(* ===== verification/OperatorTypes.thy ===== *)
theory OperatorTypes
  imports BinaryCheck
begin

text \<open>
  What the checks of \<open>ensure_same_type.c\<close>, \<open>binary_operation_data_type_check.c\<close> and \<open>unary_operation_data_type_check.c\<close> amount to
  on operands that are neither parameters nor the asterisk of a table: two orders on types, and tables that give the type of an operation from
  those of its operands. The lemmas show that the code of \<open>TypeCheck\<close> and \<open>BinaryCheck\<close> always gives the verdict of these
  specifications; \<open>CheckTyping\<close> builds on them.
\<close>

section \<open>Two orders on types\<close>

text \<open>
  What \<open>ensure_same_type\<close> and \<open>CAST_AMBIGUOUS_TYPES\<close> amount to: two orders on types, in which the types below a type are a chain. The
  types of a list that can be made the same have a greatest one.
\<close>

definition plain_below :: "SqlValueType \<Rightarrow> SqlValueType \<Rightarrow> bool" where
  "plain_below t u \<longleftrightarrow> t = u \<or> t = NUL_VALUE \<or> (t = INTEGER_LITERAL \<and> u = NUMERIC_LITERAL) \<or> (t = BOOLEAN_OR_STRING_LITERAL \<and> textual u)"

definition below :: "SqlValueType \<Rightarrow> SqlValueType \<Rightarrow> bool" where
  "below t u \<longleftrightarrow> plain_below t u \<or> (t \<in> {BOOLEAN_OR_STRING_LITERAL, STRING_LITERAL} \<and> IS_DATE_TIME_TYPE u)
     \<or> (t = DATE_LITERAL \<and> IS_TIMESTAMP u) \<or> (t = TIMESTAMP_LITERAL \<and> u = TIMESTAMP_WITH_TIME_ZONE_LITERAL)
     \<or> (t = TIME_LITERAL \<and> u = TIME_WITH_TIME_ZONE_LITERAL)"

definition greatest :: "(SqlValueType \<Rightarrow> SqlValueType \<Rightarrow> bool) \<Rightarrow> SqlValueType list \<Rightarrow> SqlValueType option" where
  "greatest le ts = find (\<lambda>t. list_all (\<lambda>u. le u t) ts) ts"

definition scalar :: "SqlValueType \<Rightarrow> bool" where
  "scalar t \<longleftrightarrow> t \<in> set scalar_types"

lemma below_refl [simp]: "below t t"
  by (simp add: below_def plain_below_def)

lemma plain_below_refl [simp]: "plain_below t t"
  by (simp add: plain_below_def)

lemma below_trans: "below t u \<Longrightarrow> below u v \<Longrightarrow> below t v"
  by (cases u) (auto simp: below_def plain_below_def textual_def type_class_defs)

lemma plain_below_trans: "plain_below t u \<Longrightarrow> plain_below u v \<Longrightarrow> plain_below t v"
  by (cases u) (auto simp: plain_below_def textual_def)

lemma below_antisym: "below t u \<Longrightarrow> below u t \<Longrightarrow> t = u"
  by (cases u) (auto simp: below_def plain_below_def textual_def type_class_defs)

lemma plain_below_antisym: "plain_below t u \<Longrightarrow> plain_below u t \<Longrightarrow> t = u"
  by (cases u) (auto simp: plain_below_def textual_def)

lemma below_chain: "below t v \<Longrightarrow> below u v \<Longrightarrow> below t u \<or> below u t"
  by (cases v) (auto simp: below_def plain_below_def textual_def type_class_defs)

lemma plain_below_chain: "plain_below t v \<Longrightarrow> plain_below u v \<Longrightarrow> plain_below t u \<or> plain_below u t"
  by (cases v) (auto simp: plain_below_def textual_def)

lemma greatestD: "greatest le ts = Some t \<Longrightarrow> t \<in> set ts \<and> (\<forall>u\<in>set ts. le u t)"
  by (auto simp: greatest_def find_Some_iff list_all_iff)

lemma greatest_below: "greatest below ts = Some t \<longleftrightarrow> t \<in> set ts \<and> (\<forall>u\<in>set ts. below u t)"
proof
  assume t: "t \<in> set ts \<and> (\<forall>u\<in>set ts. below u t)"
  then obtain u where u: "greatest below ts = Some u"
    by (cases "greatest below ts") (auto simp: greatest_def find_None_iff list_all_iff)
  with greatestD [OF u] t below_antisym show "greatest below ts = Some t"
    by metis
qed (rule greatestD)

lemma greatest_plain_below: "greatest plain_below ts = Some t \<longleftrightarrow> t \<in> set ts \<and> (\<forall>u\<in>set ts. plain_below u t)"
proof
  assume t: "t \<in> set ts \<and> (\<forall>u\<in>set ts. plain_below u t)"
  then obtain u where u: "greatest plain_below ts = Some u"
    by (cases "greatest plain_below ts") (auto simp: greatest_def find_None_iff list_all_iff)
  with greatestD [OF u] t plain_below_antisym show "greatest plain_below ts = Some t"
    by metis
qed (rule greatestD)

lemma column_type_scalar: "get_sqlvaluetype_from_sqldatatype d False = Some t \<Longrightarrow> scalar t \<and> t \<noteq> BOOLEAN_OR_STRING_LITERAL"
  by (cases d) (auto simp: get_sqlvaluetype_from_sqldatatype_def scalar_def scalar_types_def)

text \<open>A statement as it is, or cast to a type.\<close>

definition maybe_cast :: "SqlStatement \<Rightarrow> SqlValueType \<Rightarrow> SqlStatement \<Rightarrow> bool" where
  "maybe_cast v t v' \<longleftrightarrow> v' = v \<or> (\<exists>d p. v' = coerce_STATEMENT d p v \<and> get_sqlvaluetype_from_sqldatatype d False = Some t)"

definition larger :: "(SqlValueType \<Rightarrow> SqlValueType \<Rightarrow> bool) \<Rightarrow> SqlValueType \<Rightarrow> SqlValueType \<Rightarrow> SqlValueType option" where
  "larger le t u = (if le t u then Some u else if le u t then Some t else None)"

lemma cast_statement:
  "IS_DATE_TIME_TYPE t \<Longrightarrow> \<exists>d. ADD_DATE_TIME_TIMESTAMP_CAST_STMT v t p = Some (coerce_STATEMENT d p v) \<and> get_sqlvaluetype_from_sqldatatype d False = Some t"
  by (cases t) (auto simp: ADD_DATE_TIME_TIMESTAMP_CAST_STMT_def get_sqldatatype_from_sqlvaluetype_def get_sqlvaluetype_from_sqldatatype_def
      IS_DATE_TIME_TYPE_def)

text \<open>The cast of ambiguous types is the order without dates and times.\<close>

lemma unify_larger: "scalar t \<Longrightarrow> scalar u \<Longrightarrow>
    (case larger plain_below t u of Some w \<Rightarrow> unify t u = (w, w) | None \<Rightarrow> unify t u = (t, u) \<and> t \<noteq> u)"
  by (auto simp: larger_def plain_below_def unify_def numeric_def textual_def scalar_def scalar_types_def)

lemma cast_None: "scalar t \<Longrightarrow> scalar u \<Longrightarrow> CAST_AMBIGUOUS_TYPES t u None = Some (fst (unify t u), snd (unify t u), False, None, [])"
  unfolding scalar_def by (rule cast_scalar) (simp_all add: no_parameters_def)

lemma scalar_fix_string [simp]: "scalar t \<Longrightarrow> scalar (fix_string t)"
  by (auto simp: scalar_def scalar_types_def fix_string_def)

lemma scalar_name: "scalar t \<Longrightarrow> \<exists>s. get_user_visible_type_string t = Some s"
  unfolding scalar_def by (rule scalar_has_name)


lemma convert_larger:
  assumes "IS_DATE_TIME_TYPE w" and "{t, u} = {w, v}" and "below v w" and "v \<noteq> w" and "v \<noteq> NUL_VALUE" and "v \<noteq> BOOLEAN_OR_STRING_LITERAL"
    and "left_type s = t" and "right_type s = u"
  shows "\<exists>s'. convert_types s = Some s' \<and> result s' = result s \<and> same_type.errors s' = same_type.errors s \<and> left_type s' = w \<and> right_type s' = w
    \<and> maybe_cast (left_stmt s) w (left_stmt s') \<and> maybe_cast (right_stmt s) w (right_stmt s')"
proof -
  have v: "casts_left v w" "\<not> casts_left w v"
    using assms(1,3-6) by (cases v; cases w; simp add: casts_left_def type_class_defs below_def plain_below_def textual_def)+
  obtain d where d: "ADD_DATE_TIME_TIMESTAMP_CAST_STMT x w p = Some (coerce_STATEMENT d p x)" "get_sqlvaluetype_from_sqldatatype d False = Some w" for x p
    using cast_statement [OF assms(1)] unfolding ADD_DATE_TIME_TIMESTAMP_CAST_STMT_def by fastforce
  from assms(2) consider "t = v" "u = w" | "t = w" "u = v"
    by (auto simp: doubleton_eq_iff)
  then show ?thesis
    using v d assms(7,8) unfolding convert_types_def Let_def cast_directions
    by cases (auto simp: cast_left_def cast_right_def maybe_cast_def)
qed

lemma same_type_larger:
  assumes "scalar t" and "scalar u" and "larger below t u = Some w"
  shows "\<exists>s. ensure_same_type t u x y None = Some s \<and> result s = 0 \<and> same_type.errors s = [] \<and> left_type s = w \<and> right_type s = w
    \<and> maybe_cast x w (left_stmt s) \<and> maybe_cast y w (right_stmt s)"
proof (cases "larger plain_below t u")
  case (Some z)
  with assms(3) have "z = w"
    using below_antisym [of t u] by (auto simp: larger_def below_def split: if_splits)
  then show ?thesis
    using unify_larger [OF assms(1,2)] cast_None [OF assms(1,2)] Some
    by (simp add: ensure_same_type_def maybe_cast_def)
next
  case None
  then have cast: "CAST_AMBIGUOUS_TYPES t u None = Some (t, u, False, None, [])" and neq: "t \<noteq> u"
    using unify_larger [OF assms(1,2)] cast_None [OF assms(1,2)] by simp_all
  let ?s = "\<lparr>result = 0, left_type = fix_string t, right_type = fix_string u, left_stmt = x, right_stmt = y, parse_ctx = None, errors = []\<rparr>"
  define v where "v = (if w = t then u else t)"
  have w: "w = t \<or> w = u" "below v w" "v \<noteq> w" "\<not> plain_below v w"
    using assms(3) None neq by (auto simp: larger_def v_def split: if_splits)
  then have dt: "IS_DATE_TIME_TYPE w" "v \<noteq> NUL_VALUE"
    by (auto simp: below_def plain_below_def type_class_defs)
  have "{fix_string t, fix_string u} = {w, fix_string v}" "below (fix_string v) w" "fix_string v \<noteq> w" "fix_string v \<noteq> NUL_VALUE"
      "fix_string v \<noteq> BOOLEAN_OR_STRING_LITERAL"
    using w dt by (auto simp: v_def fix_string_def below_def IS_DATE_TIME_TYPE_def)
  from convert_larger [OF dt(1) this(1-5), of ?s] show ?thesis
    using cast neq by (auto simp: ensure_same_type_def Let_def)
qed

lemma same_type_fails:
  assumes "scalar t" and "scalar u" and "larger below t u = None"
  shows "\<exists>s. ensure_same_type t u x y None = Some s \<and> result s \<noteq> 0"
proof -
  from assms(3) have "larger plain_below t u = None" and nb: "\<not> below t u" "\<not> below u t"
    by (auto simp: larger_def below_def split: if_splits)
  then have cast: "CAST_AMBIGUOUS_TYPES t u None = Some (t, u, False, None, [])" and neq: "t \<noteq> u"
    using unify_larger [OF assms(1,2)] cast_None [OF assms(1,2)] by simp_all
  have "\<not> casts_left (fix_string t) (fix_string u)" "\<not> casts_left (fix_string u) (fix_string t)"
    using nb by (auto simp: casts_left_def below_def plain_below_def fix_string_def type_class_defs split: if_splits)
  moreover obtain n m where "get_user_visible_type_string (fix_string t) = Some n" "get_user_visible_type_string (fix_string u) = Some m"
    using scalar_name assms(1,2) scalar_fix_string by metis
  ultimately show ?thesis
    using cast neq unfolding ensure_same_type_def convert_types_def Let_def cast_directions by auto
qed

lemma larger_scalar: "larger le t u = Some w \<Longrightarrow> scalar t \<Longrightarrow> scalar u \<Longrightarrow> scalar w"
  by (auto simp: larger_def split: if_splits)

lemma larger_below: "larger below t u = Some w \<Longrightarrow> below t w \<and> below u w \<and> (w = t \<or> w = u)"
  by (auto simp: larger_def split: if_splits)

lemma larger_plain_below: "larger plain_below t u = Some w \<Longrightarrow> plain_below t w \<and> plain_below u w \<and> (w = t \<or> w = u)"
  by (auto simp: larger_def split: if_splits)

section \<open>Types of operators\<close>

text \<open>The type of an operation on operands of scalar types, none of them ambiguous; \<open>dt\<close> is the \<open>date_time_return_type\<close>.\<close>

definition number_or_null :: "SqlValueType \<Rightarrow> bool" where
  "number_or_null t \<longleftrightarrow> numeric t \<or> t = NUL_VALUE"

definition date_time_result :: "date_time_type \<Rightarrow> SqlValueType option" where
  "date_time_result d = (case d of Typed t _ \<Rightarrow> Some t | _ \<Rightarrow> None)"

definition settled :: "SqlValueType \<Rightarrow> bool" where
  "settled t \<longleftrightarrow> scalar t \<and> t \<noteq> BOOLEAN_OR_STRING_LITERAL"

definition binary_type :: "BinaryOperations \<Rightarrow> SqlValueType \<Rightarrow> SqlValueType \<Rightarrow> SqlValueType \<Rightarrow> SqlValueType option" where
  "binary_type op dt t u =
     (let (c0, c1) = unify t u; date_time = (\<lambda>t. IS_DATE_TIME_TYPE t)
      in if is_arithmetic op then
           (if \<not> date_time c0 \<and> \<not> date_time c1 then (if number_or_null c0 \<and> number_or_null c1 then Some c0 else None)
            else if op = SUBTRACTION then date_time_result (date_time_subtraction t u)
            else if op = ADDITION then date_time_result (date_time_addition t u)
            else None)
         else if op = CONCAT then
           (if IS_STRING_TYPE c0 \<or> IS_STRING_TYPE c1 \<or> date_time c0 \<and> date_time c1 \<and> (t = NUL_VALUE \<or> u = NUL_VALUE)
            then Some STRING_LITERAL else None)
         else if op = BOOLEAN_OR \<or> op = BOOLEAN_AND then
           (if IS_BOOLEAN_TYPE c0 \<and> IS_BOOLEAN_TYPE c1 then Some BOOLEAN_VALUE else None)
         else if is_regex op then (if IS_STRING_TYPE c0 \<and> IS_STRING_TYPE c1 then Some BOOLEAN_VALUE else None)
         else if date_time_operation op then (if settled dt then Some dt else None)
         else if c0 = c1 \<or> date_time c0 \<and> date_time c1 \<and> (IS_TIME c0 \<longleftrightarrow> IS_TIME c1) \<and> (is_is op \<longrightarrow> u = NUL_VALUE)
         then Some BOOLEAN_VALUE else None)"

definition plain_operand :: "SqlStatement \<Rightarrow> bool" where
  "plain_operand v \<longleftrightarrow> \<not> is_column_alias v \<and> (case v of column_list_STATEMENT vs \<Rightarrow> list_all (\<lambda>v. \<not> is_column_alias v) vs | _ \<Rightarrow> True)"

lemma settled_unify: "settled t \<Longrightarrow> settled u \<Longrightarrow> unify t u = (c0, c1) \<Longrightarrow> settled c0 \<and> settled c1"
  by (auto simp: settled_def scalar_def scalar_types_def unify_def numeric_def textual_def split: if_splits)

lemma settled_cases:
  "settled t \<longleftrightarrow> t \<in> {BOOLEAN_VALUE, NUMERIC_LITERAL, INTEGER_LITERAL, STRING_LITERAL, NUL_VALUE} \<or> IS_DATE_TIME_TYPE t"
  by (auto simp: settled_def scalar_def scalar_types_def IS_DATE_TIME_TYPE_def)

lemma in_list_types_plain: "list_all (\<lambda>v. \<not> is_column_alias v) vs \<Longrightarrow> in_list_types vs b = Some b"
  by (induction vs) (auto simp: is_column_alias_def split: SqlStatement.splits)

lemma comparison_types_plain: "plain_operand (operand0 b) \<Longrightarrow> plain_operand (operand1 b) \<Longrightarrow> comparison_types b = Some (False, b)"
  using in_list_types_plain [of _ b]
  by (auto simp: comparison_types_def plain_operand_def set_operation_type_def is_column_alias_def split: SqlStatement.splits)

text \<open>What the check of an operation on settled operands returns: always a verdict, which is that of the table of types.\<close>

definition verdict :: "SqlValueType option \<Rightarrow> binary \<Rightarrow> binary \<Rightarrow> bool" where
  "verdict T b b' \<longleftrightarrow>
     (case T of
        None \<Rightarrow> binary.failed b'
      | Some t \<Rightarrow> \<not> binary.failed b' \<and> result_type b' = t \<and> errors b' = errors b
          \<and> (operand0 b' = operand0 b \<or> child0 b = BOOLEAN_VALUE \<and> operation b = CONCAT \<and> operand0 b' = to_string (operand0 b))
          \<and> (operand1 b' = operand1 b \<or> child1 b = BOOLEAN_VALUE \<and> operation b = CONCAT \<and> operand1 b' = to_string (operand1 b)
             \<or> is_regex (operation b) \<and> (\<exists>ty s s' i. operand1 b = value_STATEMENT ty s i \<and> operand1 b' = value_STATEMENT ty s' i \<and> IS_STRING_TYPE ty))
          \<and> (operation b' = operation b \<and> date_time_return_type b' = date_time_return_type b
             \<or> is_regex (operation b) \<and> operation b' = BOOLEAN_EQUALS \<and> date_time_return_type b' = date_time_return_type b
             \<or> is_arithmetic (operation b) \<and> date_time_operation (operation b') \<and> date_time_return_type b' = t))"

lemma settled_scalar: "settled t \<Longrightarrow> t \<in> set scalar_types"
  by (simp add: settled_def scalar_def)

text \<open>The state after the cast of the ambiguous types.\<close>

definition unified :: "binary \<Rightarrow> binary" where
  "unified b = b\<lparr>child0 := fst (unify (child0 b) (child1 b)), child1 := snd (unify (child0 b) (child1 b))\<rparr>"

lemma unified_simps [simp]:
  "operation (unified b) = operation b" "operand0 (unified b) = operand0 b" "operand1 (unified b) = operand1 b"
  "date_time_return_type (unified b) = date_time_return_type b" "binary.failed (unified b) = binary.failed b"
  "binary.errors (unified b) = binary.errors b" "child0 (unified b) = fst (unify (child0 b) (child1 b))"
  "child1 (unified b) = snd (unify (child0 b) (child1 b))"
  by (simp_all add: unified_def)

lemma check_unified:
  assumes "settled (child0 b)" and "settled (child1 b)" and "binary.parse_ctx b = None" and "\<not> binary.failed b"
  shows "binary_operation_data_type_check stored b
    = Option.bind (check_operation stored (child0 b) (child1 b) (unified b)) (\<lambda>(r, b). if r then Some b else check_mismatch b)"
  using cast_children_scalar [of b] settled_scalar assms
  by (simp add: binary_operation_data_type_check_def unified_def no_parameters_def)

lemma check_group:
  assumes "settled (child0 b)" and "settled (child1 b)" and "binary.parse_ctx b = None" and "\<not> binary.failed b"
    and "check_operation stored (child0 b) (child1 b) (unified b) = map_option (\<lambda>b. (False, b)) r"
  shows "binary_operation_data_type_check stored b = Option.bind r check_mismatch"
  using check_unified [OF assms(1-4)] assms(5) by (cases r) simp_all

lemma mismatch_cases:
  assumes "scalar (child0 b)" and "scalar (child1 b)"
  shows "if binary.failed b \<or> child0 b = child1 b then check_mismatch b = Some b else \<exists>b'. check_mismatch b = Some b' \<and> binary.failed b'"
  using scalar_name [OF assms(1)] scalar_name [OF assms(2)] by (auto simp: check_mismatch_def)

lemma issue_scalar: "scalar t \<Longrightarrow> \<exists>s. BinaryCheck.ISSUE_TYPE_COMPATIBILITY_ERROR t name b = Some (fail (ERR_TYPE_NOT_COMPATIBLE s name) b)"
  using scalar_name [of t] by (auto simp: BinaryCheck.ISSUE_TYPE_COMPATIBILITY_ERROR_def)

lemma fail_children [simp]: "child0 (fail e b) = child0 b" "child1 (fail e b) = child1 b"
  by (simp_all add: fail_def)

lemma mismatch_failed: "binary.failed b \<Longrightarrow> check_mismatch b = Some b"
  by (simp add: check_mismatch_def)

lemma require_cases:
  assumes "scalar t"
  obtains "ok t" "require ok name t b = Some b" | e where "\<not> ok t" "require ok name t b = Some (fail e b)"
  using issue_scalar [OF assms] by (auto simp: require_def)

text \<open>Both operands are checked; the rest does not matter when one is rejected.\<close>

lemma require_both:
  assumes "scalar t" and "scalar u" and "\<not> binary.failed b"
  shows "if ok t \<and> ok u then Option.bind (require ok name t b) (require ok name u) = Some b
    else \<exists>b'. Option.bind (require ok name t b) (require ok name u) = Some b' \<and> binary.failed b'"
proof (rule require_cases [OF assms(1), of ok name b])
  assume *: "ok t" "require ok name t b = Some b"
  show ?thesis
    by (rule require_cases [OF assms(2), of ok name b]) (simp_all add: *)
next
  fix e assume *: "\<not> ok t" "require ok name t b = Some (fail e b)"
  show ?thesis
    by (rule require_cases [OF assms(2), of ok name "fail e b"]) (simp_all add: *)
qed

lemma require_child1: "require ok name t b = Some b' \<Longrightarrow> child1 b' = child1 b"
  by (auto simp: require_def dest: issue_unfold split: if_splits)

lemma check_boolean_eq: "check_boolean b = map_option (\<lambda>b. b\<lparr>result_type := BOOLEAN_VALUE\<rparr>)
    (Option.bind (require IS_BOOLEAN_TYPE ''boolean operations'' (child0 b) b) (require IS_BOOLEAN_TYPE ''boolean operations'' (child1 b)))"
  by (cases "require IS_BOOLEAN_TYPE ''boolean operations'' (child0 b) b") (auto simp: check_boolean_def require_child1 map_conv_bind_option comp_def)

lemma boolean_equal: "settled t \<Longrightarrow> settled u \<Longrightarrow> unify t u = (c0, c1) \<Longrightarrow> IS_BOOLEAN_TYPE c0 \<Longrightarrow> IS_BOOLEAN_TYPE c1 \<Longrightarrow> c0 = c1"
  by (auto simp: IS_BOOLEAN_TYPE_def unify_def settled_def numeric_def textual_def split: if_splits)

lemma string_equal: "settled t \<Longrightarrow> settled u \<Longrightarrow> unify t u = (c0, c1) \<Longrightarrow> IS_STRING_TYPE c0 \<Longrightarrow> IS_STRING_TYPE c1 \<Longrightarrow> c0 = c1"
  by (auto simp: IS_STRING_TYPE_def unify_def settled_def numeric_def textual_def split: if_splits)

lemma number_equal: "settled t \<Longrightarrow> settled u \<Longrightarrow> unify t u = (c0, c1) \<Longrightarrow> number_or_null c0 \<Longrightarrow> number_or_null c1 \<Longrightarrow> c0 = c1"
  by (auto simp: number_or_null_def unify_def settled_def numeric_def textual_def split: if_splits)

lemma boolean_verdict:
  assumes "settled (child0 b)" and "settled (child1 b)" and "binary.parse_ctx b = None" and "\<not> binary.failed b"
    and op: "operation b = BOOLEAN_OR \<or> operation b = BOOLEAN_AND"
  shows "\<exists>b'. binary_operation_data_type_check stored b = Some b'
    \<and> verdict (binary_type (operation b) (date_time_return_type b) (child0 b) (child1 b)) b b'"
proof -
  obtain c0 c1 where c: "unify (child0 b) (child1 b) = (c0, c1)"
    by fastforce
  have s: "settled c0" "settled c1"
    using settled_unify [OF assms(1,2) c] by simp_all
  have check: "binary_operation_data_type_check stored b = Option.bind (check_boolean (unified b)) check_mismatch"
    by (rule check_group [OF assms(1-4)]) (use op in \<open>auto simp: check_operation_def is_arithmetic_def\<close>)
  have T: "binary_type (operation b) (date_time_return_type b) (child0 b) (child1 b)
      = (if IS_BOOLEAN_TYPE c0 \<and> IS_BOOLEAN_TYPE c1 then Some BOOLEAN_VALUE else None)"
    unfolding binary_type_def c Let_def prod.case using op by (elim disjE) (simp_all add: is_arithmetic_def)
  have eq: "IS_BOOLEAN_TYPE c0 \<and> IS_BOOLEAN_TYPE c1 \<Longrightarrow> c0 = c1"
    using boolean_equal [OF assms(1,2) c] by simp
  have "scalar c0" "scalar c1"
    using s by (simp_all add: settled_def)
  from require_both [OF this, of "unified b" IS_BOOLEAN_TYPE "''boolean operations''"] c assms(4)
  have "if IS_BOOLEAN_TYPE c0 \<and> IS_BOOLEAN_TYPE c1 then check_boolean (unified b) = Some ((unified b)\<lparr>result_type := BOOLEAN_VALUE\<rparr>)
    else \<exists>b'. check_boolean (unified b) = Some b' \<and> binary.failed b'"
    by (auto simp: check_boolean_eq split: if_splits)
  then show ?thesis
    using eq c assms(4) by (cases "IS_BOOLEAN_TYPE c0 \<and> IS_BOOLEAN_TYPE c1") (auto simp: check T verdict_def check_mismatch_def)
qed

text \<open>A literal that is not stored as a parameter.\<close>

definition not_stored :: "SqlStatement \<Rightarrow> bool" where
  "not_stored v \<longleftrightarrow> (case v of value_STATEMENT t _ i \<Rightarrow> IS_STRING_TYPE t \<longrightarrow> i = 0 | _ \<Rightarrow> True)"

lemma regex_status:
  assumes "not_stored v"
  obtains "regex_has_no_special_characters stored v r = Some (0, v)" | "regex_has_no_special_characters stored v r = Some (1, v)"
    | t s s' i where "v = value_STATEMENT t s i" "IS_STRING_TYPE t" "regex_has_no_special_characters stored v r = Some (1, value_STATEMENT t s' i)"
proof (cases "\<exists>t s i. v = value_STATEMENT t s i \<and> IS_STRING_TYPE t")
  case True
  then obtain t s i where v: "v = value_STATEMENT t s i" "IS_STRING_TYPE t"
    by blast
  with assms have "i = 0"
    by (simp add: not_stored_def)
  obtain has buf where loop: "regex_loop r [] False None s = (has, buf)"
    by fastforce
  show thesis
  proof (cases "has \<or> buf = None")
    case True
    with v loop that(1,2) show thesis
      by (cases has) (auto simp: regex_has_no_special_characters_def)
  next
    case False
    then obtain b where "buf = Some b" "length b < length s"
      using regex_loop_plain [of r "[]" s buf] loop by auto
    with v loop False \<open>i = 0\<close> that(3) show thesis
      by (auto simp: regex_has_no_special_characters_def)
  qed
next
  case False
  with that(1) show thesis
    by (cases v) (auto simp: regex_has_no_special_characters_def)
qed

lemma regex_verdict:
  assumes "settled (child0 b)" and "settled (child1 b)" and "binary.parse_ctx b = None" and "\<not> binary.failed b"
    and op: "is_regex (operation b)" and "not_stored (operand1 b)"
  shows "\<exists>b'. binary_operation_data_type_check stored b = Some b'
    \<and> verdict (binary_type (operation b) (date_time_return_type b) (child0 b) (child1 b)) b b'"
proof -
  obtain c0 c1 where c: "unify (child0 b) (child1 b) = (c0, c1)"
    by fastforce
  have s: "settled c0" "settled c1"
    using settled_unify [OF assms(1,2) c] by simp_all
  let ?u = "unified b"
  have no: "\<not> is_arithmetic (operation b)" "operation b \<noteq> CONCAT" "operation b \<noteq> BOOLEAN_OR" "operation b \<noteq> BOOLEAN_AND"
    using op by (auto simp: is_regex_def is_arithmetic_def)
  have check: "binary_operation_data_type_check stored b = Option.bind (check_regex stored ?u) check_mismatch"
    by (rule check_group [OF assms(1-4)]) (use op no in \<open>simp add: check_operation_def\<close>)
  have T: "binary_type (operation b) (date_time_return_type b) (child0 b) (child1 b)
      = (if IS_STRING_TYPE c0 \<and> IS_STRING_TYPE c1 then Some BOOLEAN_VALUE else None)"
    using op no by (simp add: binary_type_def c)
  have "scalar c0" "scalar c1"
    using s by (simp_all add: settled_def)
  from require_both [OF this, of ?u IS_STRING_TYPE "''regex operations''"]
  have r: "if IS_STRING_TYPE c0 \<and> IS_STRING_TYPE c1
    then Option.bind (require IS_STRING_TYPE ''regex operations'' c0 ?u) (require IS_STRING_TYPE ''regex operations'' c1) = Some ?u
    else \<exists>b'. Option.bind (require IS_STRING_TYPE ''regex operations'' c0 ?u) (require IS_STRING_TYPE ''regex operations'' c1) = Some b' \<and> binary.failed b'"
    using assms(4) by simp
  define k :: "binary \<Rightarrow> binary option" where "k = (\<lambda>b. Option.bind (if \<not> failed b \<and> (operation b = BOOLEAN_REGEX_SENSITIVE_LIKE \<or> operation b = BOOLEAN_REGEX_SENSITIVE_SIMILARTO)
             then Option.bind (regex_has_no_special_characters stored (operand1 b)
                 (if operation b = BOOLEAN_REGEX_SENSITIVE_LIKE then REGEX_LIKE else REGEX_SIMILARTO)) (\<lambda>(status, stmt).
               if status = - 1 then None
               else Some (b\<lparr>operand1 := stmt, operation := (if status = 0 then operation b else BOOLEAN_EQUALS)\<rparr>))
             else Some b) (\<lambda>b. Some (b\<lparr>result_type := BOOLEAN_VALUE\<rparr>)))"
  have unfold: "check_regex stored ?u = Option.bind
      (Option.bind (require IS_STRING_TYPE ''regex operations'' c0 ?u) (require IS_STRING_TYPE ''regex operations'' c1)) k"
    by (cases "require IS_STRING_TYPE ''regex operations'' c0 ?u") (auto simp: check_regex_def k_def c dest: require_child1)
  show ?thesis
  proof (cases "IS_STRING_TYPE c0 \<and> IS_STRING_TYPE c1")
    case True
    then have eq: "c0 = c1"
      using string_equal [OF assms(1,2) c] by simp
    from True r have "check_regex stored ?u = k ?u"
      by (simp only: unfold) simp
    then have check': "binary_operation_data_type_check stored b = Option.bind (k ?u) check_mismatch"
      by (simp only: check)
    show ?thesis
    proof (cases "operation b = BOOLEAN_REGEX_SENSITIVE_LIKE \<or> operation b = BOOLEAN_REGEX_SENSITIVE_SIMILARTO")
      case like: True
      show ?thesis
        by (rule regex_status [OF assms(6), of stored "if operation b = BOOLEAN_REGEX_SENSITIVE_LIKE then REGEX_LIKE else REGEX_SIMILARTO"])
          (use True eq like op assms(4) c in \<open>simp_all add: check' T k_def check_mismatch_def verdict_def\<close>)
    next
      case False
      with True eq op assms(4) c show ?thesis
        by (simp add: check' T k_def check_mismatch_def verdict_def)
    qed
  next
    case False
    with r obtain b' where "Option.bind (require IS_STRING_TYPE ''regex operations'' c0 ?u) (require IS_STRING_TYPE ''regex operations'' c1) = Some b'"
        "binary.failed b'"
      by auto
    with False have "check_regex stored ?u = Some (b'\<lparr>result_type := BOOLEAN_VALUE\<rparr>)" "T = None \<Longrightarrow> binary.failed b'" for T :: "SqlValueType option"
      by (simp_all only: unfold) (simp add: k_def)
    then show ?thesis
      using False \<open>binary.failed b'\<close> by (auto simp: check T mismatch_failed verdict_def)
  qed
qed

lemma date_time_operation_verdict:
  assumes "settled (child0 b)" and "settled (child1 b)" and "binary.parse_ctx b = None" and "\<not> binary.failed b"
    and op: "date_time_operation (operation b)" and "settled (date_time_return_type b)"
  shows "\<exists>b'. binary_operation_data_type_check stored b = Some b'
    \<and> verdict (binary_type (operation b) (date_time_return_type b) (child0 b) (child1 b)) b b'"
proof -
  have no: "\<not> is_arithmetic (operation b)" "operation b \<noteq> CONCAT" "operation b \<noteq> BOOLEAN_OR" "operation b \<noteq> BOOLEAN_AND" "\<not> is_regex (operation b)"
    using op by (auto simp: is_regex_def is_arithmetic_def date_time_operation_def)
  have check: "binary_operation_data_type_check stored b
      = Option.bind (Some (set_children (date_time_return_type b) ((unified b)\<lparr>result_type := date_time_return_type b\<rparr>))) check_mismatch"
    by (rule check_group [OF assms(1-4)]) (use op no in \<open>auto simp: check_operation_def date_time_operation_def\<close>)
  have "binary_type (operation b) (date_time_return_type b) (child0 b) (child1 b) = Some (date_time_return_type b)"
    using op no assms(6) by (simp add: binary_type_def split: prod.split)
  then show ?thesis
    using assms(4) by (simp add: check check_mismatch_def verdict_def set_children_def)
qed

lemma comparison_group_verdict:
  assumes "settled (child0 b)" and "settled (child1 b)" and "binary.parse_ctx b = None" and "\<not> binary.failed b"
    and plain: "plain_operand (operand0 b)" "plain_operand (operand1 b)"
    and op: "\<not> is_arithmetic (operation b)" "operation b \<noteq> CONCAT" "operation b \<noteq> BOOLEAN_OR" "operation b \<noteq> BOOLEAN_AND" "\<not> is_regex (operation b)"
      "\<not> date_time_operation (operation b)"
  shows "\<exists>b'. binary_operation_data_type_check stored b = Some b'
    \<and> verdict (binary_type (operation b) (date_time_return_type b) (child0 b) (child1 b)) b b'"
proof -
  obtain c0 c1 where c: "unify (child0 b) (child1 b) = (c0, c1)"
    by fastforce
  have s: "settled c0" "settled c1"
    using settled_unify [OF assms(1,2) c] by simp_all
  then have na: "c0 \<noteq> TABLE_ASTERISK" and sc: "scalar c0" "scalar c1"
    by (auto simp: settled_def scalar_def scalar_types_def)
  let ?f = "finish_comparison (child1 b) (unified b)"
  have "check_comparison (child0 b) (child1 b) (unified b) = Some (False, ?f)"
    using comparison_types_plain [of "unified b"] plain na c by (simp add: check_comparison_def)
  then have check: "binary_operation_data_type_check stored b = check_mismatch ?f"
    using check_unified [OF assms(1-4)] op by (simp add: check_operation_def date_time_operation_def)
  let ?T = "c0 = c1 \<or> IS_DATE_TIME_TYPE c0 \<and> IS_DATE_TIME_TYPE c1 \<and> (IS_TIME c0 \<longleftrightarrow> IS_TIME c1) \<and> (is_is (operation b) \<longrightarrow> child1 b = NUL_VALUE)"
  have T: "binary_type (operation b) (date_time_return_type b) (child0 b) (child1 b) = (if ?T then Some BOOLEAN_VALUE else None)"
    using op by (simp add: binary_type_def c)
  have eq: "child0 ?f = child1 ?f \<longleftrightarrow> ?T"
    using c by (auto simp: finish_comparison_def date_time_comparison_def time_with_date_iff)
  have sf: "scalar (child0 ?f)" "scalar (child1 ?f)"
    using sc c finish_comparison_children [of "child1 b" "unified b"] by auto
  show ?thesis
    using mismatch_cases [OF sf] eq assms(4) by (auto simp: check T verdict_def finish_comparison_def date_time_comparison_def split: if_splits)
qed

lemma unify_kept: "unify t u = (c0, c1) \<Longrightarrow> c0 \<noteq> c1 \<Longrightarrow> settled t \<Longrightarrow> settled u \<Longrightarrow> t = c0 \<and> u = c1"
  by (auto simp: unify_def settled_def split: if_splits)

lemma issue_two:
  assumes "scalar t" and "scalar u"
  shows "\<exists>b'. Option.bind (BinaryCheck.ISSUE_TYPE_COMPATIBILITY_ERROR t name b) (BinaryCheck.ISSUE_TYPE_COMPATIBILITY_ERROR u name) = Some b' \<and> binary.failed b'"
proof -
  obtain s where s: "BinaryCheck.ISSUE_TYPE_COMPATIBILITY_ERROR t name b = Some (fail (ERR_TYPE_NOT_COMPATIBLE s name) b)"
    using issue_scalar [OF assms(1)] by blast
  obtain s' where "BinaryCheck.ISSUE_TYPE_COMPATIBILITY_ERROR u name (fail (ERR_TYPE_NOT_COMPATIBLE s name) b)
      = Some (fail (ERR_TYPE_NOT_COMPATIBLE s' name) (fail (ERR_TYPE_NOT_COMPATIBLE s name) b))"
    using issue_scalar [OF assms(2)] by blast
  with s show ?thesis
    by simp
qed

lemma concat_verdict:
  assumes "settled (child0 b)" and "settled (child1 b)" and "binary.parse_ctx b = None" and "\<not> binary.failed b" and op: "operation b = CONCAT"
  shows "\<exists>b'. binary_operation_data_type_check stored b = Some b'
    \<and> verdict (binary_type (operation b) (date_time_return_type b) (child0 b) (child1 b)) b b'"
proof -
  obtain c0 c1 where c: "unify (child0 b) (child1 b) = (c0, c1)"
    by fastforce
  have s: "settled c0" "settled c1"
    using settled_unify [OF assms(1,2) c] by simp_all
  then have na: "c0 \<noteq> TABLE_ASTERISK" "c1 \<noteq> TABLE_ASTERISK" and sc: "scalar c0" "scalar c1"
    by (auto simp: settled_def scalar_def scalar_types_def)
  let ?u = "unified b" and ?null = "child0 b = NUL_VALUE \<or> child1 b = NUL_VALUE"
  have check: "binary_operation_data_type_check stored b = Option.bind (check_concat (child0 b) (child1 b) ?u) check_mismatch"
    by (rule check_group [OF assms(1-4)]) (use op in \<open>simp add: check_operation_def is_arithmetic_def\<close>)
  have T: "binary_type (operation b) (date_time_return_type b) (child0 b) (child1 b)
      = (if IS_STRING_TYPE c0 \<or> IS_STRING_TYPE c1 \<or> IS_DATE_TIME_TYPE c0 \<and> IS_DATE_TIME_TYPE c1 \<and> ?null then Some STRING_LITERAL else None)"
    using op by (simp add: binary_type_def c is_arithmetic_def)
  show ?thesis
  proof (cases "IS_STRING_TYPE c0 \<or> IS_STRING_TYPE c1")
    case True
    then have "\<not> (c0 = BOOLEAN_VALUE \<and> c1 = BOOLEAN_VALUE)"
      by (auto simp: IS_STRING_TYPE_def)
    moreover define w where "w = (if c0 = BOOLEAN_VALUE then ?u\<lparr>operand0 := to_string (operand0 ?u)\<rparr>
        else if c1 = BOOLEAN_VALUE then ?u\<lparr>operand1 := to_string (operand1 ?u)\<rparr> else ?u)"
    ultimately have "check_concat (child0 b) (child1 b) ?u = Some (set_children STRING_LITERAL (w\<lparr>result_type := STRING_LITERAL\<rparr>))"
      using True c by (auto simp: check_concat_def IS_STRING_TYPE_def)
    then have "binary_operation_data_type_check stored b = Some (set_children STRING_LITERAL (w\<lparr>result_type := STRING_LITERAL\<rparr>))"
      by (simp add: check check_mismatch_def)
    moreover have "c0 = BOOLEAN_VALUE \<Longrightarrow> child0 b = BOOLEAN_VALUE" "c1 = BOOLEAN_VALUE \<Longrightarrow> child1 b = BOOLEAN_VALUE"
      using True unify_kept [OF c _ assms(1,2)] by (auto simp: IS_STRING_TYPE_def)
    moreover have "binary_type (operation b) (date_time_return_type b) (child0 b) (child1 b) = Some STRING_LITERAL"
      unfolding T using True by auto
    ultimately show ?thesis
      unfolding verdict_def using op assms(4) by (simp add: w_def set_children_def)
  next
    case False
    show ?thesis
    proof (cases "IS_DATE_TIME_TYPE c0 \<and> IS_DATE_TIME_TYPE c1")
      case True
      then show ?thesis
        unfolding T verdict_def using False na c op assms(4)
        by (cases ?null) (auto simp: check check_concat_def check_mismatch_def set_children_def)
    next
      case not_dates: False
      obtain b' where "Option.bind (BinaryCheck.ISSUE_TYPE_COMPATIBILITY_ERROR c0 ''|| operator'' ?u)
            (BinaryCheck.ISSUE_TYPE_COMPATIBILITY_ERROR c1 ''|| operator'') = Some b'" "binary.failed b'"
        using issue_two [OF sc] by blast
      moreover have "check_concat (child0 b) (child1 b) ?u = map_option (\<lambda>b. set_children STRING_LITERAL (b\<lparr>result_type := STRING_LITERAL\<rparr>))
          (Option.bind (BinaryCheck.ISSUE_TYPE_COMPATIBILITY_ERROR c0 ''|| operator'' ?u)
            (BinaryCheck.ISSUE_TYPE_COMPATIBILITY_ERROR c1 ''|| operator''))"
        using False not_dates na c assms(4) by (auto simp: check_concat_def)
      ultimately show ?thesis
        unfolding T verdict_def using False not_dates by (auto simp: check check_mismatch_def)
    qed
  qed
qed

lemma arithmetic_operand_cases:
  assumes "scalar t"
  shows "if number_or_null t \<or> IS_DATE_TIME_TYPE t \<and> (operation b = ADDITION \<or> operation b = SUBTRACTION) then arithmetic_operand t b = Some b
    else \<exists>e. arithmetic_operand t b = Some (fail e b)"
  using issue_scalar [OF assms, of "''arithmetic operations''" b]
  by (auto simp: arithmetic_operand_def number_or_null_def numeric_def)

lemma arithmetic_operands:
  assumes "scalar t" and "scalar u" and "\<not> binary.failed b"
  defines "ok \<equiv> \<lambda>t. number_or_null t \<or> IS_DATE_TIME_TYPE t \<and> (operation b = ADDITION \<or> operation b = SUBTRACTION)"
  shows "if ok t \<and> ok u then Option.bind (arithmetic_operand t b) (arithmetic_operand u) = Some b
    else \<exists>b'. Option.bind (arithmetic_operand t b) (arithmetic_operand u) = Some b' \<and> binary.failed b'"
proof (cases "ok t")
  case True
  then have "arithmetic_operand t b = Some b"
    using arithmetic_operand_cases [OF assms(1), of b] by (auto simp: ok_def split: if_splits)
  then show ?thesis
    using arithmetic_operand_cases [OF assms(2), of b] True by (auto simp: ok_def split: if_splits)
next
  case False
  then obtain e where e: "arithmetic_operand t b = Some (fail e b)"
    using arithmetic_operand_cases [OF assms(1), of b] by (auto simp: ok_def split: if_splits)
  then show ?thesis
    using arithmetic_operand_cases [OF assms(2), of "fail e b"] False by (auto split: if_splits)
qed

lemma date_time_result_settled: "date_time_result (date_time_subtraction t u) = Some T \<or> date_time_result (date_time_addition t u) = Some T \<Longrightarrow> settled T"
  by (auto simp: date_time_result_def date_time_subtraction_def date_time_addition_def settled_cases IS_DATE_TIME_TYPE_def split: if_splits)

text \<open>The operands of a sum or difference that has a type are dates, times, numbers or NULL.\<close>

lemma date_time_typed:
  assumes "date_time_subtraction t u = Typed T c \<or> date_time_addition t u = Typed T c" and "unify t u = (c0, c1)"
  shows "(number_or_null c0 \<or> IS_DATE_TIME_TYPE c0) \<and> (number_or_null c1 \<or> IS_DATE_TIME_TYPE c1) \<and> (c = None \<longrightarrow> c0 = c1)"
  using assms
  by (cases t; cases u; simp add: date_time_subtraction_def date_time_addition_def pair_def unify_def number_or_null_def numeric_def textual_def
      IS_DATE_TIME_TYPE_def IS_TIME_def IS_TIMESTAMP_def split: if_splits; blast?)

lemma date_time_arithmetic_cases:
  assumes "scalar t" and "scalar u"
  shows "case date_time_result d of
      Some T \<Rightarrow> \<exists>c. d = Typed T c \<and> date_time_arithmetic d name t u b
        = Some (case c of None \<Rightarrow> b\<lparr>result_type := T, date_time_return_type := T\<rparr>
            | Some w \<Rightarrow> (set_children w (b\<lparr>result_type := T\<rparr>))\<lparr>date_time_return_type := T\<rparr>)
    | None \<Rightarrow> \<exists>b'. date_time_arithmetic d name t u b = Some b' \<and> binary.failed b'"
proof (cases d)
  case (Typed T c)
  then show ?thesis
    by (cases c) (simp_all add: date_time_result_def date_time_arithmetic_def set_children_def)
next
  case Interval
  then show ?thesis
    by (simp add: date_time_result_def date_time_arithmetic_def fail_def)
next
  case Incompatible
  then show ?thesis
    using issue_two [OF assms, of name b] by (auto simp: date_time_result_def date_time_arithmetic_def)
qed

lemma arithmetic_verdict:
  assumes "settled (child0 b)" and "settled (child1 b)" and "binary.parse_ctx b = None" and "\<not> binary.failed b"
    and op: "is_arithmetic (operation b)"
  shows "\<exists>b'. binary_operation_data_type_check stored b = Some b'
    \<and> verdict (binary_type (operation b) (date_time_return_type b) (child0 b) (child1 b)) b b'"
proof -
  obtain c0 c1 where c: "unify (child0 b) (child1 b) = (c0, c1)"
    by fastforce
  have s: "settled c0" "settled c1"
    using settled_unify [OF assms(1,2) c] by simp_all
  then have sc: "scalar c0" "scalar c1" "scalar (child0 b)" "scalar (child1 b)"
    using assms(1,2) by (auto simp: settled_def)
  let ?u = "unified b" and ?add = "operation b = ADDITION \<or> operation b = SUBTRACTION"
    and ?dt = "IS_DATE_TIME_TYPE c0 \<or> IS_DATE_TIME_TYPE c1"
  define k :: "binary \<Rightarrow> binary option" where "k = (\<lambda>b'. if failed b' then Some b'
       else if \<not> ?dt then Some (b'\<lparr>result_type := child0 b'\<rparr>)
       else if operation b' = SUBTRACTION then
         date_time_arithmetic (date_time_subtraction (child0 b) (child1 b)) ''subtraction operation'' (child0 b) (child1 b)
           (b'\<lparr>operation := DATE_TIME_SUBTRACTION\<rparr>)
       else if operation b' = ADDITION then
         date_time_arithmetic (date_time_addition (child0 b) (child1 b)) ''addition operation'' (child0 b) (child1 b)
           (b'\<lparr>operation := DATE_TIME_ADDITION\<rparr>)
       else None)"
  have child1: "child1 b' = c1" if "arithmetic_operand c0 ?u = Some b'" for b'
    using that c by (auto simp: arithmetic_operand_def dest: issue_unfold split: if_splits)
  have unfold: "check_arithmetic (child0 b) (child1 b) ?u = Option.bind (Option.bind (arithmetic_operand c0 ?u) (arithmetic_operand c1)) k"
    by (cases "arithmetic_operand c0 ?u") (auto simp: check_arithmetic_def k_def c child1 Let_def)
  have check: "binary_operation_data_type_check stored b = Option.bind (check_arithmetic (child0 b) (child1 b) ?u) check_mismatch"
    by (rule check_group [OF assms(1-4)]) (use op in \<open>simp add: check_operation_def\<close>)
  have T: "binary_type (operation b) (date_time_return_type b) (child0 b) (child1 b) =
      (if \<not> ?dt then (if number_or_null c0 \<and> number_or_null c1 then Some c0 else None)
       else if operation b = SUBTRACTION then date_time_result (date_time_subtraction (child0 b) (child1 b))
       else if operation b = ADDITION then date_time_result (date_time_addition (child0 b) (child1 b))
       else None)"
    using op by (simp add: binary_type_def c)
  have number_not_date: "number_or_null t \<Longrightarrow> \<not> IS_DATE_TIME_TYPE t" for t
    by (auto simp: number_or_null_def numeric_def IS_DATE_TIME_TYPE_def)
  show ?thesis
  proof (cases "(number_or_null c0 \<or> IS_DATE_TIME_TYPE c0 \<and> ?add) \<and> (number_or_null c1 \<or> IS_DATE_TIME_TYPE c1 \<and> ?add)")
    case False
    then obtain b' where b': "Option.bind (arithmetic_operand c0 ?u) (arithmetic_operand c1) = Some b'" "binary.failed b'"
      using arithmetic_operands [OF sc(1,2), of ?u] assms(4) by auto
    have "date_time_result (date_time_subtraction (child0 b) (child1 b)) = None \<and> date_time_result (date_time_addition (child0 b) (child1 b)) = None"
      if ?add
      using date_time_typed [OF _ c] False that unfolding date_time_result_def by (auto split: date_time_type.splits)
    then have "binary_type (operation b) (date_time_return_type b) (child0 b) (child1 b) = None"
      unfolding T using False by auto
    then show ?thesis
      using b' by (simp add: check unfold k_def mismatch_failed verdict_def)
  next
    case True
    then have "Option.bind (arithmetic_operand c0 ?u) (arithmetic_operand c1) = Some ?u"
      using arithmetic_operands [OF sc(1,2), of ?u] assms(4) by auto
    then have check': "binary_operation_data_type_check stored b = Option.bind (k ?u) check_mismatch"
      by (simp only: check unfold) simp
    show ?thesis
    proof (cases ?dt)
      case False
      with True have num: "number_or_null c0" "number_or_null c1"
        by auto
      then have "c0 = c1"
        by (rule number_equal [OF assms(1,2) c])
      with False num c assms(4) show ?thesis
        by (simp add: check' k_def T verdict_def check_mismatch_def)
    next
      case dt: True
      define d where "d = (if operation b = SUBTRACTION then date_time_subtraction (child0 b) (child1 b) else date_time_addition (child0 b) (child1 b))"
      define op' where "op' = (if operation b = SUBTRACTION then DATE_TIME_SUBTRACTION else DATE_TIME_ADDITION)"
      from dt True number_not_date have add: ?add
        by blast
      then obtain name where k: "k ?u = date_time_arithmetic d name (child0 b) (child1 b) (?u\<lparr>operation := op'\<rparr>)"
        using dt assms(4) by (auto simp: k_def d_def op'_def)
      have T: "binary_type (operation b) (date_time_return_type b) (child0 b) (child1 b) = date_time_result d"
        unfolding T d_def using dt add by auto
      have eq: "d = Typed w None \<Longrightarrow> c0 = c1" for w
        using date_time_typed [OF _ c, of w None] by (auto simp: d_def split: if_splits)
      show ?thesis
      proof (cases "date_time_result d")
        case None
        then obtain b' where "date_time_arithmetic d name (child0 b) (child1 b) (?u\<lparr>operation := op'\<rparr>) = Some b'" "binary.failed b'"
          using date_time_arithmetic_cases [OF sc(3,4), of d name "?u\<lparr>operation := op'\<rparr>"] by auto
        then show ?thesis
          unfolding T by (simp add: check' k verdict_def mismatch_failed None)
      next
        case (Some w)
        then obtain e where e: "d = Typed w e" "date_time_arithmetic d name (child0 b) (child1 b) (?u\<lparr>operation := op'\<rparr>)
            = Some (case e of None \<Rightarrow> ?u\<lparr>operation := op', result_type := w, date_time_return_type := w\<rparr>
                | Some z \<Rightarrow> (set_children z (?u\<lparr>operation := op', result_type := w\<rparr>))\<lparr>date_time_return_type := w\<rparr>)"
          using date_time_arithmetic_cases [OF sc(3,4), of d name "?u\<lparr>operation := op'\<rparr>"] by auto
        have "date_time_operation op'"
          by (simp add: op'_def date_time_operation_def)
        then show ?thesis
          unfolding T Some verdict_def option.case using e eq [of w] c assms(4) op
          by (cases e) (simp_all add: check' k check_mismatch_def set_children_def)
      qed
    qed
  qed
qed

text \<open>The check always gives the verdict of the table.\<close>

lemma binary_check_verdict:
  assumes "settled (child0 b)" and "settled (child1 b)" and "binary.parse_ctx b = None" and "\<not> binary.failed b"
    and "plain_operand (operand0 b)" and "plain_operand (operand1 b)" and "not_stored (operand1 b)"
    and "date_time_operation (operation b) \<longrightarrow> settled (date_time_return_type b)"
  shows "\<exists>b'. binary_operation_data_type_check stored b = Some b'
    \<and> verdict (binary_type (operation b) (date_time_return_type b) (child0 b) (child1 b)) b b'"
  using arithmetic_verdict [OF assms(1-4)] concat_verdict [OF assms(1-4)] boolean_verdict [OF assms(1-4)] regex_verdict [OF assms(1-4) _ assms(7)]
    date_time_operation_verdict [OF assms(1-4)] comparison_group_verdict [OF assms(1-6)] assms(8)
  by blast

text \<open>A second check of an accepted operation, as the first one left it, gives the same type.\<close>

lemma binary_type_settled:
  assumes "binary_type op dt t u = Some w" and "settled t" and "settled u"
  shows "settled w"
proof -
  obtain c0 c1 where c: "unify t u = (c0, c1)"
    by fastforce
  have "settled c0"
    using settled_unify [OF assms(2,3) c] by simp
  then show ?thesis
    using assms(1) date_time_result_settled by (auto simp: binary_type_def c settled_cases split: if_splits)
qed

lemma binary_type_again:
  assumes "binary_type op dt t u = Some w" and "settled t" and "settled u"
    and "op' = op \<and> dt' = dt \<or> is_regex op \<and> op' = BOOLEAN_EQUALS \<and> dt' = dt \<or> is_arithmetic op \<and> date_time_operation op' \<and> dt' = w"
    and "t' = t \<or> t = BOOLEAN_VALUE \<and> op = CONCAT \<and> t' = STRING_LITERAL" and "u' = u \<or> u = BOOLEAN_VALUE \<and> op = CONCAT \<and> u' = STRING_LITERAL"
  shows "binary_type op' dt' t' u' = Some w"
proof -
  obtain c0 c1 where c: "unify t u = (c0, c1)"
    by fastforce
  have concat: "binary_type CONCAT dt t' u' = Some w" if "op = CONCAT"
  proof -
    have concat_type: "binary_type CONCAT dt t u = (case unify t u of (c0, c1) \<Rightarrow>
        if IS_STRING_TYPE c0 \<or> IS_STRING_TYPE c1 \<or> IS_DATE_TIME_TYPE c0 \<and> IS_DATE_TIME_TYPE c1 \<and> (t = NUL_VALUE \<or> u = NUL_VALUE)
        then Some STRING_LITERAL else None)" for t u
      by (simp add: binary_type_def is_arithmetic_def)
    have w: "w = STRING_LITERAL" and s: "IS_STRING_TYPE c0 \<or> IS_STRING_TYPE c1 \<or> IS_DATE_TIME_TYPE c0 \<and> IS_DATE_TIME_TYPE c1"
      using assms(1) unfolding that concat_type c prod.case by (auto split: if_splits)
    then have "t = BOOLEAN_VALUE \<Longrightarrow> u = STRING_LITERAL" "u = BOOLEAN_VALUE \<Longrightarrow> t = STRING_LITERAL"
      using c assms(2,3) by (auto simp: unify_def numeric_def IS_STRING_TYPE_def IS_DATE_TIME_TYPE_def settled_def split: if_splits)
    with assms(5,6) consider "t' = t" "u' = u" | "t' = STRING_LITERAL" "u' = STRING_LITERAL"
      by blast
    then show ?thesis
    proof cases
      case 1
      with assms(1) that show ?thesis by (simp only:)
    next
      case 2
      with w show ?thesis by (simp add: concat_type unify_def IS_STRING_TYPE_def)
    qed
  qed
  from assms(4) show ?thesis
  proof (elim disjE conjE)
    assume "op' = op" "dt' = dt"
    then show ?thesis
      using concat assms(1,5,6) by auto
  next
    assume op: "is_regex op" "op' = BOOLEAN_EQUALS" "dt' = dt"
    then have no: "\<not> is_arithmetic op" "op \<noteq> CONCAT" "op \<noteq> BOOLEAN_OR" "op \<noteq> BOOLEAN_AND"
      by (auto simp: is_regex_def is_arithmetic_def)
    with assms(1,5,6) op have "IS_STRING_TYPE c0" "IS_STRING_TYPE c1" "w = BOOLEAN_VALUE" "t' = t" "u' = u"
      by (auto simp: binary_type_def c split: if_splits)
    moreover from this(1,2) have "c0 = c1"
      by (rule string_equal [OF assms(2,3) c])
    ultimately show ?thesis
      using op by (simp add: binary_type_def c is_arithmetic_def is_regex_def date_time_operation_def)
  next
    assume op: "is_arithmetic op" "date_time_operation op'" "dt' = w"
    have "settled w"
      by (rule binary_type_settled [OF assms(1-3)])
    with op show ?thesis
      by (auto simp: binary_type_def date_time_operation_def is_arithmetic_def is_regex_def split: prod.splits)
  qed
qed

definition unary_type :: "UnaryOperations \<Rightarrow> SqlValueType \<Rightarrow> SqlValueType option" where
  "unary_type op t =
     (case op of
        NEGATIVE \<Rightarrow> if numeric t then Some t else None
      | FORCE_NUM \<Rightarrow> if number_or_null t then Some t else None
      | BOOLEAN_NOT \<Rightarrow> if t = BOOLEAN_VALUE \<or> t = BOOLEAN_OR_STRING_LITERAL then Some BOOLEAN_VALUE else if t = NUL_VALUE then Some t else None
      | BOOLEAN_EXISTS \<Rightarrow> Some BOOLEAN_VALUE
      | BOOLEAN_NOT_EXISTS \<Rightarrow> None)"

lemma reject_scalar: "scalar t \<Longrightarrow> \<exists>s. reject err t type = Some (1, t, type, [err s])"
  using scalar_name [of t] by (auto simp: reject_def)

lemma unary_verdict:
  assumes "scalar t" and "op \<noteq> BOOLEAN_NOT_EXISTS"
  shows "\<exists>r c w errs. unary_operation_data_type_check op v t type = Some (r, c, w, errs)
    \<and> (case unary_type op t of Some x \<Rightarrow> r = 0 \<and> w = x \<and> errs = [] | None \<Rightarrow> r \<noteq> 0 \<and> w = type)"
proof -
  have sign: "\<exists>r c w errs. unary_sign op v' type = Some (r, c, w, errs)
      \<and> (if (if op = NEGATIVE then numeric t else number_or_null t) then r = 0 \<and> w = t \<and> errs = [] else r \<noteq> 0 \<and> w = type)"
    if "v' = t" for v'
  proof -
    have "scalar STRING_LITERAL"
      by (simp add: scalar_def scalar_types_def)
    note r = reject_scalar [OF this] reject_scalar [OF assms(1)]
    show ?thesis
      using assms(1) r that unfolding unary_sign_def number_or_null_def numeric_def
      by (fastforce simp: scalar_def scalar_types_def IS_DATE_TIME_TYPE_def)
  qed
  have "\<exists>r c w errs. unary_not v t type = Some (r, c, w, errs)
      \<and> (case unary_type BOOLEAN_NOT t of Some x \<Rightarrow> r = 0 \<and> w = x \<and> errs = [] | None \<Rightarrow> r \<noteq> 0 \<and> w = type)"
  proof (cases "t = STRING_LITERAL")
    case True
    then show ?thesis
      using reject_scalar [OF assms(1), of _ type] by (fastforce simp: unary_not_def unary_type_def split: SqlStatement.splits SqlValueType.splits)
  next
    case False
    moreover have "t \<noteq> SELECT_ASTERISK"
      using assms(1) by (auto simp: scalar_def scalar_types_def)
    ultimately show ?thesis
      using reject_scalar [OF assms(1), of ERR_NOT_OPERATION_TYPE_MISMATCH type] by (auto simp: unary_not_def unary_type_def)
  qed
  with sign [OF refl] assms(2) show ?thesis
    by (cases op) (auto simp: unary_operation_data_type_check_def unary_type_def)
qed

lemma unary_type_settled: "unary_type op t = Some w \<Longrightarrow> settled w"
  by (auto simp: unary_type_def settled_cases numeric_def number_or_null_def split: UnaryOperations.splits if_splits)

section \<open>Properties\<close>


definition sample_binary :: binary where
  "sample_binary = \<lparr>operation = SUBTRACTION, operand0 = value_STATEMENT DATE_LITERAL ''2024-02-29'' 0,
     operand1 = value_STATEMENT INTEGER_LITERAL ''1'' 0, date_time_return_type = UNKNOWN_SqlValueType, child0 = DATE_LITERAL,
     child1 = INTEGER_LITERAL, result_type = UNKNOWN_SqlValueType, failed = False, parse_ctx = None, errors = []\<rparr>"


end
