(* ===== verification/CheckConstraint.thy ===== *)
theory CheckConstraint
  imports FunctionLookup OperatorTypes "HOL-Library.Monad_Syntax"
begin

text \<open>
  The check of the expression of a CHECK constraint: \<open>qualify_check_constraint.c\<close>, with \<open>find_column.c\<close> and the loop of
  \<open>function_call_data_type_check.c\<close> over the arguments. One recursion over the expression finds the columns of the table, gives
  types to the expressions and fixes literals that may be a boolean or a string, by a second call with the wanted type.

  The expression is changed in place, so a call returns it with its type. Each case that has calls of its own is a definition with the
  recursion as an argument \<open>q\<close>; \<open>qualify_check_constraint\<close> ties the knot. \<open>None\<close> is a failed \<open>assert\<close>. The nodes of
  the database in which columns and functions are noted are in the state; \<open>ydb_set_s\<close> on them does not fail. The result of \<open>yyerror\<close>, which
  prints where an error is, is not modelled.
\<close>

section \<open>The state of the check\<close>

datatype check_error =
    Type_error type_error
  | Call_error call_error
  | ERR_AGGREGATE_FUNCTION_CHECK
  | ERR_SUBQUERY_CHECK
  | ERR_INVALID_CONSTRAINT_EXPRESSION string
  | ERR_MISSING_FROM_ENTRY string
  | ERR_UNKNOWN_COLUMN_NAME string
  | ERR_CASE_VALUE_TYPE_MISMATCH string string
  | ERR_CASE_BRANCH_TYPE_MISMATCH string string

text \<open>
  The nodes of \<open>ydboctoTblConstraint\<close> that are set: the columns below \<open>OCTOLIT_COLUMNS\<close>, and the functions, with their names, that are noted by
  their hashes below \<open>OCTOLIT_FUNCTIONS\<close>; the store of the functions; the errors.
\<close>

record 's check_state =
  noted_columns :: "string set"
  noted_functions :: "(string \<times> SqlFunction) set"
  store :: 's
  check_errors :: "check_error list"

text \<open>
  The table, of which the columns without a name are constraints; the arguments of \<open>function_call_data_type_check\<close>, for each name the
  hashes of the functions of that name; \<open>stored\<close> as in \<open>Regex\<close>.
\<close>

record 's check_env =
  tableName :: string
  columns :: "(string option \<times> SqlDataType) list"
  look :: "string \<Rightarrow> string \<Rightarrow> 's \<Rightarrow> (SqlFunction option \<times> 's) option"
  function_hash :: "string \<Rightarrow> SqlValueType list \<Rightarrow> string"
  hashes :: "string \<Rightarrow> string option list"
  max_parms :: nat
  stored :: "nat \<Rightarrow> string \<Rightarrow> bool"

definition report :: "check_error list \<Rightarrow> 's check_state \<Rightarrow> 's check_state" where
  "report es st = st\<lparr>check_errors := check_errors st @ es\<rparr>"

text \<open>What a call returns: \<open>result\<close>, \<open>*type\<close>, and the statement and the state as it leaves them.\<close>

type_synonym 's answer = "(bool \<times> SqlValueType \<times> SqlStatement \<times> 's check_state) option"

type_synonym 's recursion = "SqlStatement \<Rightarrow> SqlValueType \<Rightarrow> SqlValueType option \<Rightarrow> 's check_state \<Rightarrow> 's answer"

section \<open>Values\<close>

definition lower_char :: "char \<Rightarrow> char" where
  "lower_char c = (if 65 \<le> (of_char c :: nat) \<and> (of_char c :: nat) \<le> 90 then char_of (of_char c + 32 :: nat) else c)"

definition is_literal_type :: "SqlValueType \<Rightarrow> bool" where
  "is_literal_type t \<longleftrightarrow> t \<in> {BOOLEAN_OR_STRING_LITERAL, BOOLEAN_VALUE, NUMERIC_LITERAL, INTEGER_LITERAL, STRING_LITERAL, NUL_VALUE}
     \<or> IS_DATE_TIME_TYPE t"

text \<open>The texts that the parser takes for true, in any case of letters; the others of its list are false.\<close>

definition truth_value :: "string \<Rightarrow> bool" where
  "truth_value s \<longleftrightarrow> s \<in> {''1'', ''y'', ''Y'', ''t'', ''T''} \<or> map lower_char s \<in> {''yes'', ''true''}"

definition fix_literal :: "SqlValueType option \<Rightarrow> SqlValueType \<Rightarrow> string \<Rightarrow> (SqlValueType \<times> string) option" where
  "fix_literal fix_type type string_literal =
     (if type \<noteq> BOOLEAN_OR_STRING_LITERAL then Some (type, string_literal)
      else (case fix_type of
          None \<Rightarrow> Some (type, string_literal)
        | Some f \<Rightarrow>
            if f = BOOLEAN_VALUE then Some (BOOLEAN_VALUE, if truth_value string_literal then ''1'' else ''0'')
            else if f = STRING_LITERAL then Some (STRING_LITERAL, string_literal)
            else None))"

text \<open>The name of the table in a reference, up to the second period or, without one, the first; and the name of the column.\<close>

definition split_reference :: "string \<Rightarrow> string option \<times> string" where
  "split_reference c =
     (let first = takeWhile (\<lambda>ch. ch \<noteq> CHR ''.'') c; rest = dropWhile (\<lambda>ch. ch \<noteq> CHR ''.'') c
      in if rest = [] then (None, c)
         else let second = takeWhile (\<lambda>ch. ch \<noteq> CHR ''.'') (tl rest); rest2 = dropWhile (\<lambda>ch. ch \<noteq> CHR ''.'') (tl rest)
              in if rest2 = [] then (Some first, tl rest) else (Some (first @ CHR ''.'' # second), tl rest2))"

definition find_column :: "string \<Rightarrow> (string option \<times> SqlDataType) list \<Rightarrow> SqlDataType option" where
  "find_column column_name cols = map_option snd (find (\<lambda>(name, _). name = Some column_name) cols)"

definition qualify_column :: "'s check_env \<Rightarrow> string \<Rightarrow> SqlValueType \<Rightarrow> 's check_state \<Rightarrow> (bool \<times> SqlValueType \<times> 's check_state) option" where
  "qualify_column env column_name type st =
     (case find_column column_name (columns env) of
        None \<Rightarrow> Some (True, type, report [ERR_UNKNOWN_COLUMN_NAME column_name] st)
      | Some d \<Rightarrow>
          map_option (\<lambda>t. (False, t, st\<lparr>noted_columns := insert column_name (noted_columns st)\<rparr>)) (get_sqlvaluetype_from_sqldatatype d False))"

definition column_reference :: "'s check_env \<Rightarrow> string \<Rightarrow> SqlValueType \<Rightarrow> 's check_state \<Rightarrow> (bool \<times> SqlValueType \<times> 's check_state) option" where
  "column_reference env ref type st =
     (case split_reference ref of
        (table_name, column_name) \<Rightarrow>
          (case table_name of
             Some t \<Rightarrow> if t \<noteq> tableName env then Some (True, type, report [ERR_MISSING_FROM_ENTRY t] st)
                       else qualify_column env column_name type st
           | None \<Rightarrow> qualify_column env column_name type st))"

definition qualify_value :: "'s check_env \<Rightarrow> SqlValueType \<Rightarrow> string \<Rightarrow> nat \<Rightarrow> SqlValueType \<Rightarrow> SqlValueType option \<Rightarrow> 's check_state \<Rightarrow> 's answer" where
  "qualify_value env value_type string_literal parameter_index type fix_type st =
     (let stmt = value_STATEMENT value_type string_literal parameter_index
      in if is_literal_type value_type then
           map_option (\<lambda>(t, s). (False, t, value_STATEMENT t s 0, st)) (fix_literal fix_type value_type string_literal)
         else if value_type = FUNCTION_NAME then Some (False, type, stmt, st)
         else if value_type = TABLE_ASTERISK then Some (True, type, stmt, report [ERR_INVALID_CONSTRAINT_EXPRESSION ''TABLENAME.*''] st)
         else if value_type = PARAMETER_VALUE then
           Some (True, type, stmt, report [ERR_INVALID_CONSTRAINT_EXPRESSION ''Prepared statement''] st)
         else if value_type = COLUMN_REFERENCE then
           map_option (\<lambda>(failed, t, st). (failed, t, stmt, st)) (column_reference env string_literal type st)
         else None)"

section \<open>Lists\<close>

text \<open>
  The first pass over a list of columns: \<open>seen\<close> are the elements before the current one, \<open>first\<close> is the number of \<open>first_value\<close>.
  \<open>callback\<close> tells whether \<open>ensure_same_type\<close> is called, which may change the first value and the current one.
\<close>

fun column_list_loop ::
  "'s recursion \<Rightarrow> SqlValueType option \<Rightarrow> bool \<Rightarrow> nat \<Rightarrow> SqlStatement list \<Rightarrow> SqlStatement list \<Rightarrow> SqlValueType \<Rightarrow> bool
     \<Rightarrow> 's check_state \<Rightarrow> (bool \<times> SqlValueType \<times> bool \<times> SqlStatement list \<times> 's check_state) option" where
  "column_list_loop q fix_type callback first seen [] type saw st = Some (False, type, saw, seen, st)"
| "column_list_loop q fix_type callback first seen (v # vs) type saw st =
     do {
       (failed, current_type, v, st) \<leftarrow> q v UNKNOWN_SqlValueType fix_type st;
       if failed then Some (True, type, saw, seen @ v # vs, st)
       else
         (let saw = (saw \<or> current_type = BOOLEAN_OR_STRING_LITERAL)
          in if type = UNKNOWN_SqlValueType then
               column_list_loop q fix_type callback (length seen) (seen @ [v]) vs current_type saw st
             else if \<not> callback then column_list_loop q fix_type callback first (seen @ [v]) vs current_type saw st
             else do {
               s \<leftarrow> ensure_same_type type current_type (seen ! first) v None;
               let st = report (map Type_error (same_type.errors s)) st;
               let seen = seen[first := left_stmt s];
               if result s \<noteq> 0 then Some (True, left_type s, saw, seen @ right_stmt s # vs, st)
               else column_list_loop q fix_type callback first (seen @ [right_stmt s]) vs (right_type s) saw st
             })
     }"

text \<open>The second pass, which fixes what is ambiguous and must not fail.\<close>

fun fix_loop :: "'s recursion \<Rightarrow> SqlValueType \<Rightarrow> SqlStatement list \<Rightarrow> SqlValueType \<Rightarrow> 's check_state
    \<Rightarrow> (SqlStatement list \<times> 's check_state) option" where
  "fix_loop q fix_type [] type st = Some ([], st)"
| "fix_loop q fix_type (v # vs) type st =
     do {
       (failed, type, v, st) \<leftarrow> q v type (Some fix_type) st;
       if failed then None
       else do {
         (vs, st) \<leftarrow> fix_loop q fix_type vs type st;
         Some (v # vs, st)
       }
     }"

definition qualify_check_constraint_column_list ::
  "'s recursion \<Rightarrow> SqlStatement list \<Rightarrow> SqlValueType option \<Rightarrow> bool \<Rightarrow> 's check_state
     \<Rightarrow> (bool \<times> SqlValueType \<times> SqlStatement list \<times> 's check_state) option" where
  "qualify_check_constraint_column_list q vs fix_type callback st =
     do {
       (failed, type, saw, vs, st) \<leftarrow> column_list_loop q fix_type callback 0 [] vs UNKNOWN_SqlValueType False st;
       if \<not> failed \<and> saw \<and> type \<noteq> BOOLEAN_OR_STRING_LITERAL then
         (if type = BOOLEAN_VALUE \<or> type = STRING_LITERAL then
            do { (vs, st) \<leftarrow> fix_loop q type vs type st; Some (False, type, vs, st) }
          else None)
       else Some (failed, type, vs, st)
     }"

text \<open>The cases of COALESCE, GREATEST and LEAST; \<open>c\<close> is the constructor of the statement.\<close>

definition qualify_list_function ::
  "'s recursion \<Rightarrow> (SqlStatement list \<Rightarrow> SqlStatement) \<Rightarrow> SqlStatement list \<Rightarrow> 's check_state \<Rightarrow> 's answer" where
  "qualify_list_function q c vs st =
     map_option (\<lambda>(failed, t, vs, st). (failed, t, c vs, st)) (qualify_check_constraint_column_list q vs None True st)"

section \<open>Operators\<close>

text \<open>The second call on an operand: it must not fail, and gives the type it was asked for.\<close>

definition fix_operand :: "'s recursion \<Rightarrow> SqlStatement \<Rightarrow> SqlValueType \<Rightarrow> SqlValueType \<Rightarrow> 's check_state \<Rightarrow> (SqlStatement \<times> 's check_state) option" where
  "fix_operand q v type fix_type st =
     do {
       (failed, t, v, st) \<leftarrow> q v type (Some fix_type) st;
       if failed \<or> t \<noteq> fix_type then None else Some (v, st)
     }"

text \<open>The second operand of \<open>IN\<close> may be a list.\<close>

definition qualify_right :: "'s recursion \<Rightarrow> BinaryOperations \<Rightarrow> bool \<Rightarrow> 's recursion" where
  "qualify_right q op callback v type fix_type st =
     (case v of
        column_list_STATEMENT vs \<Rightarrow>
          if is_in op then
            map_option (\<lambda>(failed, t, vs, st). (failed, t, column_list_STATEMENT vs, st))
              (qualify_check_constraint_column_list q vs fix_type callback st)
          else q v type fix_type st
      | _ \<Rightarrow> q v type fix_type st)"

definition is_boolean_operator :: "BinaryOperations \<Rightarrow> bool" where
  "is_boolean_operator op \<longleftrightarrow> op = BOOLEAN_OR \<or> op = BOOLEAN_AND \<or> op = BOOLEAN_IS \<or> op = BOOLEAN_IS_NOT"

definition other_type :: "SqlValueType \<Rightarrow> SqlValueType" where
  "other_type t = (if t = BOOLEAN_VALUE then BOOLEAN_VALUE else STRING_LITERAL)"

definition fix_operands ::
  "'s recursion \<Rightarrow> BinaryOperations \<Rightarrow> SqlValueType \<Rightarrow> SqlStatement \<Rightarrow> SqlValueType \<Rightarrow> SqlStatement \<Rightarrow> 's check_state
     \<Rightarrow> (SqlValueType \<times> SqlStatement \<times> SqlValueType \<times> SqlStatement \<times> 's check_state) option" where
  "fix_operands q op t0 v0 t1 v1 st =
     (if t0 = BOOLEAN_OR_STRING_LITERAL then
        (if t1 = BOOLEAN_OR_STRING_LITERAL then
           do {
             let f = (if is_boolean_operator op then BOOLEAN_VALUE else STRING_LITERAL);
             (v0, st) \<leftarrow> fix_operand q v0 t0 f st;
             (v1, st) \<leftarrow> fix_operand (qualify_right q op False) v1 t1 f st;
             Some (f, v0, f, v1, st)
           }
         else do {
           (v0, st) \<leftarrow> fix_operand q v0 t0 (other_type t1) st;
           Some (other_type t1, v0, t1, v1, st)
         })
      else if t1 = BOOLEAN_OR_STRING_LITERAL then
        do {
          (failed, t, v1, st) \<leftarrow> qualify_right q op False v1 t1 (Some (other_type t0)) st;
          if failed \<or> (t \<noteq> other_type t0 \<and> t \<noteq> STRING_LITERAL) then None else Some (t0, v0, t, v1, st)
        }
      else Some (t0, v0, t1, v1, st))"

definition qualify_binary ::
  "'s check_env \<Rightarrow> 's recursion \<Rightarrow> BinaryOperations \<Rightarrow> SqlStatement \<Rightarrow> SqlStatement \<Rightarrow> SqlValueType \<Rightarrow> SqlValueType \<Rightarrow> 's check_state \<Rightarrow> 's answer" where
  "qualify_binary env q op v0 v1 dt_type type st =
     do {
       (failed, t0, v0, st) \<leftarrow> q v0 UNKNOWN_SqlValueType None st;
       if failed then Some (True, type, binary_STATEMENT op v0 v1 dt_type, st)
       else do {
         (failed, t1, v1, st) \<leftarrow> qualify_right q op True v1 UNKNOWN_SqlValueType None st;
         if failed then Some (True, type, binary_STATEMENT op v0 v1 dt_type, st)
         else do {
           (t0, v0, t1, v1, st) \<leftarrow> fix_operands q op t0 v0 t1 v1 st;
           if t0 = BOOLEAN_OR_STRING_LITERAL \<or> t1 = BOOLEAN_OR_STRING_LITERAL then None
           else do {
             b \<leftarrow> binary_operation_data_type_check (stored env)
                   \<lparr>operation = op, operand0 = v0, operand1 = v1, date_time_return_type = dt_type, child0 = t0, child1 = t1,
                    result_type = type, failed = False, parse_ctx = None, errors = []\<rparr>;
             Some (binary.failed b, result_type b,
                   binary_STATEMENT (operation b) (operand0 b) (operand1 b) (date_time_return_type b), report (map Type_error (errors b)) st)
           }
         }
       }
     }"

text \<open>After an error of the operator the operand is still fixed, if it was ambiguous.\<close>

definition qualify_unary :: "'s recursion \<Rightarrow> UnaryOperations \<Rightarrow> SqlStatement \<Rightarrow> SqlValueType \<Rightarrow> 's check_state \<Rightarrow> 's answer" where
  "qualify_unary q op v type st =
     do {
       (failed, t, v, st) \<leftarrow> q v UNKNOWN_SqlValueType None st;
       if failed then Some (True, type, unary_STATEMENT op v, st)
       else do {
         (result, child, type, errs) \<leftarrow> unary_operation_data_type_check op v t type;
         let st = report (map Type_error errs) st;
         if type = BOOLEAN_OR_STRING_LITERAL then None
         else if t \<noteq> BOOLEAN_OR_STRING_LITERAL then Some (result \<noteq> 0, type, unary_STATEMENT op v, st)
         else if type \<noteq> BOOLEAN_VALUE then None
         else do {
           (failed, _, v, st) \<leftarrow> q v child (Some type) st;
           if result \<noteq> 0 \<or> failed then None else Some (False, type, unary_STATEMENT op v, st)
         }
       }
     }"

section \<open>Function calls\<close>

text \<open>The arguments of a call, up to the first that fails.\<close>

fun qualify_arguments ::
  "'s recursion \<Rightarrow> SqlStatement list \<Rightarrow> SqlValueType \<Rightarrow> 's check_state
     \<Rightarrow> (bool \<times> SqlValueType \<times> SqlValueType list \<times> SqlStatement list \<times> 's check_state) option" where
  "qualify_arguments q [] type st = Some (False, type, [], [], st)"
| "qualify_arguments q (v # vs) type st =
     do {
       (failed, type, v, st) \<leftarrow> q v type None st;
       if failed then Some (True, type, [], v # vs, st)
       else do {
         (v, st) \<leftarrow> (if type = BOOLEAN_OR_STRING_LITERAL then fix_operand q v type STRING_LITERAL st else Some (v, st));
         let type = (if type = BOOLEAN_OR_STRING_LITERAL then STRING_LITERAL else type);
         (failed, result_type, types, vs, st) \<leftarrow> qualify_arguments q vs type st;
         Some (failed, result_type, type # types, v # vs, st)
       }
     }"

text \<open>
  \<open>function_call_data_type_check\<close> with the types of the arguments. At most \<open>max_parms\<close> arguments are qualified; the others are
  counted only, which gives the error.
\<close>

definition call_check ::
  "'s check_env \<Rightarrow> string \<Rightarrow> SqlValueType list \<Rightarrow> nat \<Rightarrow> SqlValueType \<Rightarrow> 's
     \<Rightarrow> (int \<times> SqlValueType \<times> SqlFunction option \<times> call_error list \<times> 's) option" where
  "call_check env name types others type s =
     function_call_data_type_check (look env) (function_hash env) (hashes env name) (max_parms env) (\<lambda>t _. (False, t)) name
       (types @ replicate others UNKNOWN_SqlValueType) type s"

definition qualify_call :: "'s check_env \<Rightarrow> 's recursion \<Rightarrow> string \<Rightarrow> SqlStatement list \<Rightarrow> SqlValueType \<Rightarrow> 's check_state \<Rightarrow> 's answer" where
  "qualify_call env q name vs type st =
     do {
       (failed, type, types, vs', st) \<leftarrow> qualify_arguments q (take (max_parms env) vs) type st;
       let stmt = function_call_STATEMENT name (vs' @ drop (max_parms env) vs);
       if failed then Some (True, type, stmt, st)
       else do {
         (result, type, function_schema, errs, s) \<leftarrow> call_check env name types (length vs - max_parms env) type (store st);
         let st = report (map Call_error errs) (st\<lparr>store := s\<rparr>);
         if result \<noteq> 0 then Some (True, type, stmt, st)
         else do {
           f \<leftarrow> function_schema;
           Some (False, type, stmt, st\<lparr>noted_functions := insert (name, f) (noted_functions st)\<rparr>)
         }
       }
     }"

section \<open>NULLIF and CASE\<close>

definition null_if_fix ::
  "'s recursion \<Rightarrow> SqlValueType \<Rightarrow> SqlStatement \<Rightarrow> SqlValueType \<Rightarrow> SqlStatement \<Rightarrow> 's check_state
     \<Rightarrow> (SqlValueType \<times> SqlStatement \<times> SqlValueType \<times> SqlStatement \<times> 's check_state) option" where
  "null_if_fix q t0 v0 t1 v1 st =
     (if t0 = BOOLEAN_OR_STRING_LITERAL then
        do {
          (v1, st) \<leftarrow> (if t1 = BOOLEAN_OR_STRING_LITERAL then fix_operand q v1 t1 STRING_LITERAL st else Some (v1, st));
          let t1' = (if t1 = BOOLEAN_OR_STRING_LITERAL then STRING_LITERAL else t1);
          (v0, st) \<leftarrow> fix_operand q v0 t0 (other_type t1) st;
          Some (other_type t1, v0, t1', v1, st)
        }
      else if t1 = BOOLEAN_OR_STRING_LITERAL then
        do {
          (v1, st) \<leftarrow> fix_operand q v1 t1 (other_type t0) st;
          Some (t0, v0, other_type t0, v1, st)
        }
      else Some (t0, v0, t1, v1, st))"

definition qualify_null_if :: "'s recursion \<Rightarrow> SqlStatement \<Rightarrow> SqlStatement \<Rightarrow> SqlValueType \<Rightarrow> 's check_state \<Rightarrow> 's answer" where
  "qualify_null_if q v0 v1 type st =
     do {
       (failed, t0, v0, st) \<leftarrow> q v0 type None st;
       if failed then Some (True, t0, null_if_STATEMENT v0 v1, st)
       else do {
         (failed, t1, v1, st) \<leftarrow> q v1 UNKNOWN_SqlValueType None st;
         if failed then Some (True, t0, null_if_STATEMENT v0 v1, st)
         else do {
           (t0, v0, t1, v1, st) \<leftarrow> null_if_fix q t0 v0 t1 v1 st;
           s \<leftarrow> ensure_same_type t0 t1 v0 v1 None;
           Some (result s \<noteq> 0, left_type s, null_if_STATEMENT (left_stmt s) (right_stmt s),
                 report (map Type_error (same_type.errors s)) st)
         }
       }
     }"

text \<open>\<open>CAST_AMBIGUOUS_TYPES\<close> and \<open>CHECK_TYPE_AND_BREAK_ON_MISMATCH\<close>; the error has the types in the given order.\<close>

definition check_types ::
  "(string \<Rightarrow> string \<Rightarrow> check_error) \<Rightarrow> bool \<Rightarrow> SqlValueType \<Rightarrow> SqlValueType \<Rightarrow> 's check_state
     \<Rightarrow> (bool \<times> SqlValueType \<times> SqlValueType \<times> 's check_state) option" where
  "check_types err swapped t u st =
     do {
       (t, u, failed, _, log) \<leftarrow> CAST_AMBIGUOUS_TYPES t u None;
       let st = report (map Type_error log) st;
       if failed then Some (True, t, u, st)
       else if t = u then Some (False, t, u, st)
       else do {
         s \<leftarrow> get_user_visible_type_string (fix_string t);
         s' \<leftarrow> get_user_visible_type_string (fix_string u);
         Some (True, fix_string t, fix_string u, report [if swapped then err s' s else err s s'] st)
       }
     }"

text \<open>The type to which an ambiguous condition is fixed, if the wanted one says so.\<close>

definition fix_condition :: "'s recursion \<Rightarrow> SqlValueType \<Rightarrow> SqlValueType \<Rightarrow> SqlStatement \<Rightarrow> 's check_state
    \<Rightarrow> (SqlValueType \<times> SqlStatement \<times> 's check_state) option" where
  "fix_condition q wanted t v st =
     (if t = BOOLEAN_OR_STRING_LITERAL \<and> (wanted = BOOLEAN_VALUE \<or> wanted = STRING_LITERAL)
      then map_option (\<lambda>(v, st). (wanted, v, st)) (fix_operand q v t wanted st)
      else Some (t, v, st))"

text \<open>
  The loop over the branches, with the expected type of the conditions and that of the values so far; the value of the
  first branch has been qualified before. The branches are given without the values that are done.
\<close>

fun branch_loop ::
  "'s recursion \<Rightarrow> SqlValueType \<Rightarrow> SqlValueType \<Rightarrow> SqlStatement \<Rightarrow> SqlStatement \<Rightarrow> (SqlStatement \<times> SqlStatement) list \<Rightarrow> 's check_state
     \<Rightarrow> (bool \<times> SqlValueType \<times> (SqlStatement \<times> SqlStatement) list \<times> 's check_state) option" where
  "branch_loop q wanted t condition val [] st =
     do {
       (failed, u, condition, st) \<leftarrow> q condition UNKNOWN_SqlValueType None st;
       if failed then Some (True, wanted, [(condition, val)], st)
       else if u = UNKNOWN_SqlValueType then None
       else do {
         (u, condition, st) \<leftarrow> fix_condition q wanted u condition st;
         (failed, wanted, u, st) \<leftarrow> check_types ERR_CASE_VALUE_TYPE_MISMATCH True wanted u st;
         Some (failed, if failed then wanted else t, [(condition, val)], st)
       }
     }"
| "branch_loop q wanted t condition val ((next_condition, next_val) # branches) st =
     do {
       (failed, u, condition, st) \<leftarrow> q condition UNKNOWN_SqlValueType None st;
       if failed then Some (True, wanted, (condition, val) # (next_condition, next_val) # branches, st)
       else if u = UNKNOWN_SqlValueType then None
       else do {
         (u, condition, st) \<leftarrow> fix_condition q wanted u condition st;
         (failed, wanted, u, st) \<leftarrow> check_types ERR_CASE_VALUE_TYPE_MISMATCH True wanted u st;
         if failed then Some (True, wanted, (condition, val) # (next_condition, next_val) # branches, st)
         else do {
           (failed, u, next_val, st) \<leftarrow> q next_val u None st;
           if failed then Some (True, wanted, (condition, val) # (next_condition, next_val) # branches, st)
           else do {
             (failed, t, u, st) \<leftarrow> check_types ERR_CASE_BRANCH_TYPE_MISMATCH False t u st;
             if failed then Some (True, wanted, (condition, val) # (next_condition, next_val) # branches, st)
             else do {
               (failed, type, branches, st) \<leftarrow> branch_loop q wanted t next_condition next_val branches st;
               Some (failed, type, (condition, val) # branches, st)
             }
           }
         }
       }
     }"

text \<open>\<open>cas_branch_STATEMENT\<close>: the type is that of the values, if nothing failed.\<close>

definition qualify_branches ::
  "'s recursion \<Rightarrow> (SqlStatement \<times> SqlStatement) list \<Rightarrow> SqlValueType \<Rightarrow> 's check_state
     \<Rightarrow> (bool \<times> SqlValueType \<times> (SqlStatement \<times> SqlStatement) list \<times> 's check_state) option" where
  "qualify_branches q branches wanted st =
     (case branches of
        [] \<Rightarrow> None
      | (condition, val) # rest \<Rightarrow>
          if wanted = UNKNOWN_SqlValueType then None
          else do {
            (failed, t, val, st) \<leftarrow> q val UNKNOWN_SqlValueType None st;
            if failed then Some (True, wanted, (condition, val) # rest, st)
            else branch_loop q wanted t condition val rest st
          })"

text \<open>The value of a CASE, and the type that its conditions should have.\<close>

definition case_value ::
  "'s recursion \<Rightarrow> SqlStatement option \<Rightarrow> SqlValueType \<Rightarrow> 's check_state
     \<Rightarrow> (bool \<times> SqlValueType \<times> SqlStatement option \<times> 's check_state) option" where
  "case_value q val type st =
     (case val of
        None \<Rightarrow> Some (False, BOOLEAN_VALUE, None, st)
      | Some v \<Rightarrow>
          do {
            (failed, type, v, st) \<leftarrow> q v type None st;
            if failed then Some (True, type, Some v, st)
            else if type \<noteq> BOOLEAN_OR_STRING_LITERAL then Some (False, type, Some v, st)
            else map_option (\<lambda>(v, st). (False, STRING_LITERAL, Some v, st)) (fix_operand q v type STRING_LITERAL st)
          })"

definition case_else ::
  "'s recursion \<Rightarrow> SqlStatement option \<Rightarrow> SqlValueType \<Rightarrow> 's check_state
     \<Rightarrow> (bool \<times> SqlValueType \<times> SqlStatement option \<times> 's check_state) option" where
  "case_else q optional_else type st =
     (case optional_else of
        None \<Rightarrow> Some (False, type, None, st)
      | Some v \<Rightarrow>
          do {
            (failed, u, v, st) \<leftarrow> q v UNKNOWN_SqlValueType None st;
            if failed then Some (True, type, Some v, st)
            else do {
              (failed, type, _, st) \<leftarrow> check_types ERR_CASE_BRANCH_TYPE_MISMATCH False type u st;
              Some (failed, type, Some v, st)
            }
          })"

text \<open>When all values are ambiguous they become strings.\<close>

definition case_fix ::
  "'s recursion \<Rightarrow> (SqlStatement \<times> SqlStatement) list \<Rightarrow> SqlStatement option \<Rightarrow> 's check_state
     \<Rightarrow> ((SqlStatement \<times> SqlStatement) list \<times> SqlStatement option \<times> 's check_state) option" where
  "case_fix q branches optional_else st =
     do {
       (vals, st) \<leftarrow> fix_loop q STRING_LITERAL (map snd branches) UNKNOWN_SqlValueType st;
       let branches = zip (map fst branches) vals;
       (case optional_else of
          None \<Rightarrow> Some (branches, None, st)
        | Some v \<Rightarrow>
            do {
              (failed, _, v, st) \<leftarrow> q v UNKNOWN_SqlValueType (Some STRING_LITERAL) st;
              if failed then None else Some (branches, Some v, st)
            })
     }"

definition qualify_case ::
  "'s recursion \<Rightarrow> SqlStatement option \<Rightarrow> (SqlStatement \<times> SqlStatement) list \<Rightarrow> SqlStatement option \<Rightarrow> SqlValueType \<Rightarrow> 's check_state
     \<Rightarrow> 's answer" where
  "qualify_case q val branches optional_else type st =
     do {
       (failed, type, val, st) \<leftarrow> case_value q val type st;
       if failed then Some (True, type, cas_STATEMENT val branches optional_else, st)
       else do {
         (failed, type, branches, st) \<leftarrow> qualify_branches q branches type st;
         if failed then Some (True, type, cas_STATEMENT val branches optional_else, st)
         else do {
           (failed, type, optional_else, st) \<leftarrow> case_else q optional_else type st;
           if failed then Some (True, type, cas_STATEMENT val branches optional_else, st)
           else if type = TABLE_ASTERISK then None
           else if type = BOOLEAN_OR_STRING_LITERAL then
             do {
               (branches, optional_else, st) \<leftarrow> case_fix q branches optional_else st;
               Some (False, STRING_LITERAL, cas_STATEMENT val branches optional_else, st)
             }
           else Some (False, type, cas_STATEMENT val branches optional_else, st)
         }
       }
     }"

section \<open>The recursion\<close>

text \<open>The helpers are monotone in the recursion.\<close>

lemma map_option_mono [partial_function_mono]: "mono_option B \<Longrightarrow> mono_option (\<lambda>f. map_option g (B f))"
  by (simp add: map_conv_bind_option partial_function_mono)

lemma column_list_loop_mono [partial_function_mono]:
  "(\<And>v t x st. mono_option (\<lambda>f. B f v t x st)) \<Longrightarrow> mono_option (\<lambda>f. column_list_loop (B f) fix_type callback first seen vs type saw st)"
  by (induction vs arbitrary: first seen type saw st) (auto simp: Let_def intro!: partial_function_mono)

lemma fix_loop_mono [partial_function_mono]:
  "(\<And>v t x st. mono_option (\<lambda>f. B f v t x st)) \<Longrightarrow> mono_option (\<lambda>f. fix_loop (B f) fix_type vs type st)"
  by (induction vs arbitrary: type st) (auto intro!: partial_function_mono)

lemma column_list_mono [partial_function_mono]:
  "(\<And>v t x st. mono_option (\<lambda>f. B f v t x st)) \<Longrightarrow> mono_option (\<lambda>f. qualify_check_constraint_column_list (B f) vs fix_type callback st)"
  unfolding qualify_check_constraint_column_list_def by (auto intro!: partial_function_mono)

lemma list_function_mono [partial_function_mono]:
  "(\<And>v t x st. mono_option (\<lambda>f. B f v t x st)) \<Longrightarrow> mono_option (\<lambda>f. qualify_list_function (B f) c vs st)"
  unfolding qualify_list_function_def by (intro partial_function_mono)

lemma fix_operand_mono [partial_function_mono]:
  "(\<And>v t x st. mono_option (\<lambda>f. B f v t x st)) \<Longrightarrow> mono_option (\<lambda>f. fix_operand (B f) v type fix_type st)"
  unfolding fix_operand_def by (auto intro!: partial_function_mono)

lemma qualify_right_mono [partial_function_mono]:
  "(\<And>v t x st. mono_option (\<lambda>f. B f v t x st)) \<Longrightarrow> mono_option (\<lambda>f. qualify_right (B f) op callback v type fix_type st)"
  by (cases v) (auto simp: qualify_right_def intro!: partial_function_mono)

lemma fix_operands_mono [partial_function_mono]:
  "(\<And>v t x st. mono_option (\<lambda>f. B f v t x st)) \<Longrightarrow> mono_option (\<lambda>f. fix_operands (B f) op t0 v0 t1 v1 st)"
  unfolding fix_operands_def by (auto simp: Let_def intro!: partial_function_mono)

lemma qualify_binary_mono [partial_function_mono]:
  "(\<And>v t x st. mono_option (\<lambda>f. B f v t x st)) \<Longrightarrow> mono_option (\<lambda>f. qualify_binary env (B f) op v0 v1 dt_type type st)"
  unfolding qualify_binary_def by (auto intro!: partial_function_mono)

lemma qualify_unary_mono [partial_function_mono]:
  "(\<And>v t x st. mono_option (\<lambda>f. B f v t x st)) \<Longrightarrow> mono_option (\<lambda>f. qualify_unary (B f) op v type st)"
  unfolding qualify_unary_def by (auto simp: Let_def intro!: partial_function_mono)

lemma qualify_arguments_mono [partial_function_mono]:
  "(\<And>v t x st. mono_option (\<lambda>f. B f v t x st)) \<Longrightarrow> mono_option (\<lambda>f. qualify_arguments (B f) vs type st)"
  by (induction vs arbitrary: type st) (auto simp: Let_def intro!: partial_function_mono)

lemma qualify_call_mono [partial_function_mono]:
  "(\<And>v t x st. mono_option (\<lambda>f. B f v t x st)) \<Longrightarrow> mono_option (\<lambda>f. qualify_call env (B f) name vs type st)"
  unfolding qualify_call_def by (auto simp: Let_def intro!: partial_function_mono)

lemma null_if_fix_mono [partial_function_mono]:
  "(\<And>v t x st. mono_option (\<lambda>f. B f v t x st)) \<Longrightarrow> mono_option (\<lambda>f. null_if_fix (B f) t0 v0 t1 v1 st)"
  unfolding null_if_fix_def by (auto simp: Let_def intro!: partial_function_mono)

lemma qualify_null_if_mono [partial_function_mono]:
  "(\<And>v t x st. mono_option (\<lambda>f. B f v t x st)) \<Longrightarrow> mono_option (\<lambda>f. qualify_null_if (B f) v0 v1 type st)"
  unfolding qualify_null_if_def by (auto intro!: partial_function_mono)

lemma fix_condition_mono [partial_function_mono]:
  "(\<And>v t x st. mono_option (\<lambda>f. B f v t x st)) \<Longrightarrow> mono_option (\<lambda>f. fix_condition (B f) wanted t v st)"
  unfolding fix_condition_def by (auto intro!: partial_function_mono)

lemma branch_loop_mono [partial_function_mono]:
  "(\<And>v t x st. mono_option (\<lambda>f. B f v t x st)) \<Longrightarrow> mono_option (\<lambda>f. branch_loop (B f) wanted t condition val branches st)"
  by (induction branches arbitrary: wanted t condition val st) (auto intro!: partial_function_mono)

lemma qualify_branches_mono [partial_function_mono]:
  "(\<And>v t x st. mono_option (\<lambda>f. B f v t x st)) \<Longrightarrow> mono_option (\<lambda>f. qualify_branches (B f) branches wanted st)"
  by (cases branches) (auto simp: qualify_branches_def intro!: partial_function_mono)

lemma case_value_mono [partial_function_mono]:
  "(\<And>v t x st. mono_option (\<lambda>f. B f v t x st)) \<Longrightarrow> mono_option (\<lambda>f. case_value (B f) val type st)"
  by (cases val) (auto simp: case_value_def intro!: partial_function_mono)

lemma case_else_mono [partial_function_mono]:
  "(\<And>v t x st. mono_option (\<lambda>f. B f v t x st)) \<Longrightarrow> mono_option (\<lambda>f. case_else (B f) optional_else type st)"
  by (cases optional_else) (auto simp: case_else_def intro!: partial_function_mono)

lemma case_fix_mono [partial_function_mono]:
  "(\<And>v t x st. mono_option (\<lambda>f. B f v t x st)) \<Longrightarrow> mono_option (\<lambda>f. case_fix (B f) branches optional_else st)"
  by (cases optional_else) (auto simp: case_fix_def Let_def intro!: partial_function_mono)

lemma qualify_case_mono [partial_function_mono]:
  "(\<And>v t x st. mono_option (\<lambda>f. B f v t x st)) \<Longrightarrow> mono_option (\<lambda>f. qualify_case (B f) val branches optional_else type st)"
  unfolding qualify_case_def by (auto intro!: partial_function_mono)

partial_function (option) qualify_check_constraint ::
  "'s check_env \<Rightarrow> SqlStatement \<Rightarrow> SqlValueType \<Rightarrow> SqlValueType option \<Rightarrow> 's check_state \<Rightarrow> 's answer" where
  "qualify_check_constraint env stmt type fix_type st =
     (case stmt of
        aggregate_function_STATEMENT \<Rightarrow> Some (True, type, stmt, report [ERR_AGGREGATE_FUNCTION_CHECK] st)
      | table_alias_STATEMENT \<Rightarrow> Some (True, type, stmt, report [ERR_SUBQUERY_CHECK] st)
      | set_operation_STATEMENT \<Rightarrow> Some (True, type, stmt, report [ERR_SUBQUERY_CHECK] st)
      | value_STATEMENT t s i \<Rightarrow> qualify_value env t s i type fix_type st
      | calculated_STATEMENT v \<Rightarrow>
          do { (failed, t, v, st) \<leftarrow> qualify_check_constraint env v type None st; Some (failed, t, calculated_STATEMENT v, st) }
      | coerce_STATEMENT coerced_type pre v \<Rightarrow>
          do {
            (failed, t, v, st) \<leftarrow> qualify_check_constraint env v pre None st;
            if failed then Some (True, type, coerce_STATEMENT coerced_type (fix_string t) v, st)
            else map_option (\<lambda>u. (False, u, coerce_STATEMENT coerced_type (fix_string t) v, st))
                   (get_sqlvaluetype_from_sqldatatype coerced_type False)
          }
      | binary_STATEMENT op v0 v1 t \<Rightarrow> qualify_binary env (\<lambda>v t x s. qualify_check_constraint env v t x s) op v0 v1 t type st
      | unary_STATEMENT op v \<Rightarrow> qualify_unary (\<lambda>v t x s. qualify_check_constraint env v t x s) op v type st
      | array_STATEMENT v \<Rightarrow>
          do { (failed, t, v, st) \<leftarrow> qualify_check_constraint env v type fix_type st; Some (failed, t, array_STATEMENT v, st) }
      | function_call_STATEMENT name vs \<Rightarrow> qualify_call env (\<lambda>v t x s. qualify_check_constraint env v t x s) name vs type st
      | coalesce_STATEMENT vs \<Rightarrow> qualify_list_function (\<lambda>v t x s. qualify_check_constraint env v t x s) coalesce_STATEMENT vs st
      | greatest_STATEMENT vs \<Rightarrow> qualify_list_function (\<lambda>v t x s. qualify_check_constraint env v t x s) greatest_STATEMENT vs st
      | least_STATEMENT vs \<Rightarrow> qualify_list_function (\<lambda>v t x s. qualify_check_constraint env v t x s) least_STATEMENT vs st
      | null_if_STATEMENT v0 v1 \<Rightarrow> qualify_null_if (\<lambda>v t x s. qualify_check_constraint env v t x s) v0 v1 type st
      | cas_STATEMENT val branches optional_else \<Rightarrow>
          qualify_case (\<lambda>v t x s. qualify_check_constraint env v t x s) val branches optional_else type st
      | _ \<Rightarrow> None)"


declare qualify_check_constraint.simps [code]
section \<open>Properties\<close>

lemma literal_answer:
  "is_literal_type t \<Longrightarrow> qualify_check_constraint env (value_STATEMENT t s i) type fix_type st
     = map_option (\<lambda>(t, s). (False, t, value_STATEMENT t s 0, st)) (fix_literal fix_type t s)"
  by (simp add: qualify_check_constraint.simps qualify_value_def)

lemma column_answer:
  "column_reference env ref type st = Some (r, t, st') \<Longrightarrow>
     qualify_check_constraint env (value_STATEMENT COLUMN_REFERENCE ref i) type fix_type st
       = Some (r, t, value_STATEMENT COLUMN_REFERENCE ref i, st')"
  by (simp add: qualify_check_constraint.simps qualify_value_def is_literal_type_def IS_DATE_TIME_TYPE_def)

text \<open>C31: The comment at each second call says that it should never fail. It does, on three constraints: a minus or plus before a text that may be a
  boolean; a COALESCE of two such texts, compared with a boolean; and, for a column of strings, IN with such a text and NULL after it.\<close>

theorem second_call_fails:
  assumes "column_reference env ref UNKNOWN_SqlValueType st = Some (False, STRING_LITERAL, st')"
  shows "qualify_check_constraint env (unary_STATEMENT NEGATIVE (value_STATEMENT BOOLEAN_OR_STRING_LITERAL s i)) type fix_type st = None
    \<and> qualify_check_constraint env (binary_STATEMENT BOOLEAN_EQUALS
          (coalesce_STATEMENT [value_STATEMENT BOOLEAN_OR_STRING_LITERAL s i, value_STATEMENT BOOLEAN_OR_STRING_LITERAL s' i'])
          (value_STATEMENT BOOLEAN_VALUE b j) dt) type fix_type st = None
    \<and> qualify_check_constraint env (binary_STATEMENT BOOLEAN_IN (value_STATEMENT COLUMN_REFERENCE ref k)
          (column_list_STATEMENT [value_STATEMENT BOOLEAN_OR_STRING_LITERAL s i, value_STATEMENT NUL_VALUE s' i']) dt) type fix_type st = None"
proof -
  have lit: "is_literal_type BOOLEAN_OR_STRING_LITERAL" "is_literal_type NUL_VALUE" "is_literal_type BOOLEAN_VALUE"
    by (simp_all add: is_literal_type_def)
  have same: "ensure_same_type BOOLEAN_OR_STRING_LITERAL t x y None
      = Some \<lparr>result = 0, left_type = BOOLEAN_OR_STRING_LITERAL, right_type = BOOLEAN_OR_STRING_LITERAL, left_stmt = x, right_stmt = y, parse_ctx = None, errors = []\<rparr>"
    if "t = BOOLEAN_OR_STRING_LITERAL \<or> t = NUL_VALUE" for t x y
    using that by (auto simp: ensure_same_type_def cast_None unify_def textual_def numeric_def scalar_def scalar_types_def)
  note run = qualify_check_constraint.simps [of env "unary_STATEMENT _ _"] qualify_check_constraint.simps [of env "binary_STATEMENT _ _ _ _"]
    qualify_check_constraint.simps [of env "coalesce_STATEMENT _"] literal_answer [OF lit(1)] literal_answer [OF lit(2)] literal_answer [OF lit(3)] fix_literal_def same
    report_def same_type.simps check_state.simps
  have minus: "qualify_check_constraint env (unary_STATEMENT NEGATIVE (value_STATEMENT BOOLEAN_OR_STRING_LITERAL s i)) type fix_type st = None"
    by (simp add: run qualify_unary_def unary_operation_data_type_check_def unary_sign_def reject_def get_user_visible_type_string_def Let_def
        split: Option.bind_split)
  have coalesce: "qualify_check_constraint env (binary_STATEMENT BOOLEAN_EQUALS
          (coalesce_STATEMENT [value_STATEMENT BOOLEAN_OR_STRING_LITERAL s i, value_STATEMENT BOOLEAN_OR_STRING_LITERAL s' i'])
          (value_STATEMENT BOOLEAN_VALUE b j) dt) type fix_type st = None"
    by (simp add: run qualify_binary_def qualify_list_function_def qualify_check_constraint_column_list_def qualify_right_def fix_operands_def fix_operand_def other_type_def)
  have list: "qualify_check_constraint env (binary_STATEMENT BOOLEAN_IN (value_STATEMENT COLUMN_REFERENCE ref k)
          (column_list_STATEMENT [value_STATEMENT BOOLEAN_OR_STRING_LITERAL s i, value_STATEMENT NUL_VALUE s' i']) dt) type fix_type st = None"
    by (simp add: run column_answer [OF assms] qualify_binary_def qualify_check_constraint_column_list_def qualify_right_def is_in_def fix_operands_def
        other_type_def)
  from minus coalesce list show ?thesis
    by blast
qed

definition sample_env :: "unit check_env" where
  "sample_env = \<lparr>tableName = ''names'', columns = [(Some ''id'', INTEGER_TYPE), (Some ''flag'', STRING_TYPE), (Some ''born'', DATE_TYPE)],
     look = (\<lambda>_ _ s. Some (None, s)), function_hash = (\<lambda>_ _. ''h''), hashes = (\<lambda>_. []), max_parms = 32, stored = (\<lambda>_ _. True)\<rparr>"

definition sample_state :: "unit check_state" where
  "sample_state = \<lparr>noted_columns = {}, noted_functions = {}, store = (), check_errors = []\<rparr>"

lemma second_call_fails_witness:
  "qualify_check_constraint sample_env (binary_STATEMENT BOOLEAN_IN (value_STATEMENT COLUMN_REFERENCE ''names.flag'' 0)
     (column_list_STATEMENT [value_STATEMENT BOOLEAN_OR_STRING_LITERAL ''Y'' 1, value_STATEMENT NUL_VALUE [] 0]) UNKNOWN_SqlValueType)
     UNKNOWN_SqlValueType None sample_state = None"
proof -
  have "column_reference sample_env ''names.flag'' UNKNOWN_SqlValueType sample_state
      = Some (False, STRING_LITERAL, sample_state\<lparr>noted_columns := {''flag''}\<rparr>)"
    by (simp add: column_reference_def split_reference_def qualify_column_def find_column_def sample_env_def sample_state_def
        get_sqlvaluetype_from_sqldatatype_def)
  then show ?thesis
    by (rule second_call_fails [THEN conjunct2, THEN conjunct2])
qed

end
