(* ===== verification/CheckTyping.thy ===== *)
theory CheckTyping
  imports CheckConstraint
begin

text \<open>
  The specification of the check of CHECK constraints: the columns and functions that an expression uses, its type, as a function on expressions
  in the form the check gives them (\<open>typing\<close>), and how the check may change an expression (\<open>revised\<close>). The locale \<open>constraint_recursion\<close> has
  the contract of a call: what it accepts has a type. \<open>CheckSound\<close> proves it for the code.
\<close>

section \<open>Expressions\<close>

definition children :: "SqlStatement \<Rightarrow> SqlStatement list" where
  "children v =
     (case v of
        coerce_STATEMENT _ _ v \<Rightarrow> [v]
      | calculated_STATEMENT v \<Rightarrow> [v]
      | column_list_STATEMENT vs \<Rightarrow> vs
      | function_call_STATEMENT _ vs \<Rightarrow> vs
      | unary_STATEMENT _ v \<Rightarrow> [v]
      | binary_STATEMENT _ v w _ \<Rightarrow> [v, w]
      | array_STATEMENT v \<Rightarrow> [v]
      | coalesce_STATEMENT vs \<Rightarrow> vs
      | greatest_STATEMENT vs \<Rightarrow> vs
      | least_STATEMENT vs \<Rightarrow> vs
      | null_if_STATEMENT v w \<Rightarrow> [v, w]
      | cas_STATEMENT v branches e \<Rightarrow>
          (case v of None \<Rightarrow> [] | Some v \<Rightarrow> [v]) @ map fst branches @ map snd branches @ (case e of None \<Rightarrow> [] | Some e \<Rightarrow> [e])
      | _ \<Rightarrow> [])"

lemma children_simps [simp]:
  "children (value_STATEMENT t s i) = []" "children (coerce_STATEMENT d p v) = [v]" "children (calculated_STATEMENT v) = [v]"
  "children (column_alias_STATEMENT v ts us n) = []" "children (column_list_STATEMENT vs) = vs" "children (column_list_alias_STATEMENT v) = []"
  "children (function_call_STATEMENT name vs) = vs" "children (unary_STATEMENT op v) = [v]" "children (binary_STATEMENT b v w t) = [v, w]"
  "children (array_STATEMENT v) = [v]" "children (coalesce_STATEMENT vs) = vs" "children (greatest_STATEMENT vs) = vs"
  "children (least_STATEMENT vs) = vs" "children (null_if_STATEMENT v w) = [v, w]"
  "children (cas_STATEMENT x branches e) = (case x of None \<Rightarrow> [] | Some v \<Rightarrow> [v]) @ map fst branches @ map snd branches @ (case e of None \<Rightarrow> [] | Some e \<Rightarrow> [e])"
  "children aggregate_function_STATEMENT = []" "children table_alias_STATEMENT = []" "children set_operation_STATEMENT = []" "children other_STATEMENT = []"
  by (simp_all add: children_def)

lemma branch_size: "(b :: SqlStatement \<times> SqlStatement) \<in> set branches \<Longrightarrow> size (fst b) + size (snd b) < size_list (size_prod size size) branches"
  by (induction branches) auto

lemma element_size: "(v :: SqlStatement) \<in> set vs \<Longrightarrow> size v < size_list size vs"
  by (induction vs) auto

lemma children_size [termination_simp]: "w \<in> set (children v) \<Longrightarrow> size w < size v"
  by (cases v) (auto simp: less_Suc_eq split: option.splits dest!: branch_size element_size)

fun subterms :: "SqlStatement \<Rightarrow> SqlStatement list" where
  "subterms v = v # concat (map subterms (children v))"

declare subterms.simps [simp del]

lemma subterms_self [simp]: "v \<in> set (subterms v)"
  by (subst subterms.simps) simp

text \<open>The columns that are referenced.\<close>

definition refs :: "SqlStatement \<Rightarrow> string set" where
  "refs v = {c. \<exists>r i. value_STATEMENT COLUMN_REFERENCE r i \<in> set (subterms v) \<and> c = snd (split_reference r)}"

lemma subterms_node: "w \<in> set (subterms v) \<longleftrightarrow> w = v \<or> (\<exists>c\<in>set (children v). w \<in> set (subterms c))"
  by (subst subterms.simps) auto

lemma refs_value [simp]: "refs (value_STATEMENT t s i) = (if t = COLUMN_REFERENCE then {snd (split_reference s)} else {})"
  by (auto simp: refs_def subterms_node [of _ "value_STATEMENT t s i"])

lemma refs_node: "(\<And>t s i. v \<noteq> value_STATEMENT t s i) \<Longrightarrow> refs v = \<Union> (refs ` set (children v))"
  by (fastforce simp: refs_def subterms_node [of _ v])

lemma refs_simps [simp]:
  "refs (coerce_STATEMENT d p v) = refs v"
  "refs (calculated_STATEMENT v) = refs v"
  "refs (column_alias_STATEMENT v ts us n) = {}"
  "refs (column_list_STATEMENT vs) = \<Union> (refs ` set vs)"
  "refs (column_list_alias_STATEMENT v) = {}"
  "refs (function_call_STATEMENT name vs) = \<Union> (refs ` set vs)"
  "refs (unary_STATEMENT op v) = refs v"
  "refs (binary_STATEMENT b v w t) = refs v \<union> refs w"
  "refs (array_STATEMENT v) = refs v"
  "refs (coalesce_STATEMENT vs) = \<Union> (refs ` set vs)"
  "refs (greatest_STATEMENT vs) = \<Union> (refs ` set vs)"
  "refs (least_STATEMENT vs) = \<Union> (refs ` set vs)"
  "refs (null_if_STATEMENT v w) = refs v \<union> refs w"
  "refs (cas_STATEMENT x branches e) = \<Union> (refs ` set_option x) \<union> \<Union> (refs ` fst ` set branches) \<union> \<Union> (refs ` snd ` set branches) \<union> \<Union> (refs ` set_option e)"
  by (subst refs_node; auto simp: image_Un split: option.splits)+

text \<open>The names of the functions that are called.\<close>

definition called :: "SqlStatement \<Rightarrow> string set" where
  "called v = {name. \<exists>vs. function_call_STATEMENT name vs \<in> set (subterms v)}"

lemma called_node: "called v = (case v of function_call_STATEMENT name vs \<Rightarrow> {name} | _ \<Rightarrow> {}) \<union> \<Union> (called ` set (children v))"
proof -
  have "function_call_STATEMENT name vs \<in> set (subterms v)
      \<longleftrightarrow> v = function_call_STATEMENT name vs \<or> (\<exists>w\<in>set (children v). function_call_STATEMENT name vs \<in> set (subterms w))" for name vs
    using subterms_node [of _ v] by auto
  then show ?thesis
    by (cases v) (auto simp: called_def)
qed

lemma called_simps [simp]:
  "called (value_STATEMENT y s i) = {}"
  "called (coerce_STATEMENT d p v) = called v"
  "called (calculated_STATEMENT v) = called v"
  "called (column_alias_STATEMENT v ts us n) = {}"
  "called (column_list_STATEMENT vs) = \<Union> (called ` set vs)"
  "called (column_list_alias_STATEMENT v) = {}"
  "called (function_call_STATEMENT name vs) = insert name (\<Union> (called ` set vs))"
  "called (unary_STATEMENT op v) = called v"
  "called (binary_STATEMENT b v w t) = called v \<union> called w"
  "called (array_STATEMENT v) = called v"
  "called (coalesce_STATEMENT vs) = \<Union> (called ` set vs)"
  "called (greatest_STATEMENT vs) = \<Union> (called ` set vs)"
  "called (least_STATEMENT vs) = \<Union> (called ` set vs)"
  "called (null_if_STATEMENT v w) = called v \<union> called w"
  "called (cas_STATEMENT x branches e) = \<Union> (called ` set_option x) \<union> \<Union> (called ` fst ` set branches) \<union> \<Union> (called ` snd ` set branches) \<union> \<Union> (called ` set_option e)"
  by (subst called_node; auto split: option.splits)+

text \<open>The height, in which casts do not count; the check does not change it.\<close>

fun height :: "SqlStatement \<Rightarrow> nat" where
  "height v = (case v of coerce_STATEMENT _ _ _ \<Rightarrow> 0 | _ \<Rightarrow> 1) + foldr max (map height (children v)) 0"

declare height.simps [simp del]
lemma height_value [simp]: "height (value_STATEMENT t s i) = 1"
  by (subst height.simps) simp

lemma height_coerce [simp]: "height (coerce_STATEMENT d p v) = height v"
  by (subst height.simps) simp

lemma height_node: "(\<And>d p w. v \<noteq> coerce_STATEMENT d p w) \<Longrightarrow> height v = 1 + foldr max (map height (children v)) 0"
  by (subst height.simps) (cases v; auto)

lemma foldr_max_less: "(x :: nat) \<in> set xs \<Longrightarrow> x \<le> foldr max xs 0"
  by (induction xs) auto

lemma height_child: "w \<in> set (children v) \<Longrightarrow> height w \<le> height v \<and> ((\<forall>d p w. v \<noteq> coerce_STATEMENT d p w) \<longrightarrow> height w < height v)"
  using foldr_max_less [of "height w" "map height (children v)"]
  by (cases "\<exists>d p w. v = coerce_STATEMENT d p w") (auto simp: height_node)

text \<open>
  What the parser makes: the name of a function is only found in its call, no list is empty, and an operation on a date or time, which only the
  check of types makes, has its type.
\<close>

definition node_parsed :: "SqlStatement \<Rightarrow> bool" where
  "node_parsed v =
     (case v of
        value_STATEMENT t _ _ \<Rightarrow> t \<noteq> FUNCTION_NAME
      | binary_STATEMENT op _ _ t \<Rightarrow> date_time_operation op \<longrightarrow> settled t
      | column_list_STATEMENT vs \<Rightarrow> vs \<noteq> []
      | coalesce_STATEMENT vs \<Rightarrow> vs \<noteq> []
      | greatest_STATEMENT vs \<Rightarrow> vs \<noteq> []
      | least_STATEMENT vs \<Rightarrow> vs \<noteq> []
      | _ \<Rightarrow> True)"

definition parsed :: "SqlStatement \<Rightarrow> bool" where
  "parsed v = list_all node_parsed (subterms v)"

lemma parsed_node: "parsed v \<longleftrightarrow> node_parsed v \<and> (\<forall>w\<in>set (children v). parsed w)"
  unfolding parsed_def list_all_iff by (subst subterms.simps) auto

lemma parsed_simps [simp]:
  "parsed (value_STATEMENT y s i) \<longleftrightarrow> y \<noteq> FUNCTION_NAME"
  "parsed (coerce_STATEMENT d p v) \<longleftrightarrow> parsed v"
  "parsed (calculated_STATEMENT v) \<longleftrightarrow> parsed v"
  "parsed (array_STATEMENT v) \<longleftrightarrow> parsed v"
  "parsed (unary_STATEMENT op v) \<longleftrightarrow> parsed v"
  "parsed (binary_STATEMENT b v w t) \<longleftrightarrow> (date_time_operation b \<longrightarrow> settled t) \<and> parsed v \<and> parsed w"
  "parsed (null_if_STATEMENT v w) \<longleftrightarrow> parsed v \<and> parsed w"
  "parsed (column_list_STATEMENT vs) \<longleftrightarrow> vs \<noteq> [] \<and> (\<forall>v\<in>set vs. parsed v)"
  "parsed (function_call_STATEMENT name vs) \<longleftrightarrow> (\<forall>v\<in>set vs. parsed v)"
  "parsed (coalesce_STATEMENT vs) \<longleftrightarrow> vs \<noteq> [] \<and> (\<forall>v\<in>set vs. parsed v)"
  "parsed (greatest_STATEMENT vs) \<longleftrightarrow> vs \<noteq> [] \<and> (\<forall>v\<in>set vs. parsed v)"
  "parsed (least_STATEMENT vs) \<longleftrightarrow> vs \<noteq> [] \<and> (\<forall>v\<in>set vs. parsed v)"
  "parsed (cas_STATEMENT x branches e) \<longleftrightarrow> (\<forall>v\<in>set_option x. parsed v) \<and> (\<forall>b\<in>set branches. parsed (fst b) \<and> parsed (snd b))
     \<and> (\<forall>v\<in>set_option e. parsed v)"
  by (subst parsed_node; auto simp: node_parsed_def split: option.splits)+

section \<open>Types of expressions\<close>

text \<open>
  The type of an expression as the check leaves it: literals are not stored as parameters, columns are those of the table, and no literal that may
  be a boolean or a string is an operand. \<open>calls\<close> gives the type of a call from its name and the types of its arguments. The elements of a
  list have a greatest type in the order of \<open>ensure_same_type\<close>, the branches of a CASE in that of \<open>CAST_AMBIGUOUS_TYPES\<close>.
\<close>

definition column_type :: "'s check_env \<Rightarrow> string \<Rightarrow> SqlValueType option" where
  "column_type env ref =
     (case split_reference ref of
        (table_name, column_name) \<Rightarrow>
          if table_name = None \<or> table_name = Some (tableName env)
          then Option.bind (find_column column_name (columns env)) (\<lambda>d. get_sqlvaluetype_from_sqldatatype d False) else None)"

definition common_type :: "SqlValueType option list \<Rightarrow> SqlValueType option" where
  "common_type ts = Option.bind (those ts) (greatest below)"

definition operand_types :: "SqlValueType option \<Rightarrow> SqlValueType option \<Rightarrow> (SqlValueType \<times> SqlValueType) option" where
  "operand_types t u =
     (case (t, u) of
        (Some t, Some u) \<Rightarrow> if t = BOOLEAN_OR_STRING_LITERAL \<or> u = BOOLEAN_OR_STRING_LITERAL then None else Some (t, u)
      | _ \<Rightarrow> None)"

definition case_type :: "SqlValueType option option \<Rightarrow> SqlValueType option list \<Rightarrow> SqlValueType option list \<Rightarrow> SqlValueType option" where
  "case_type val conditions vals =
     do {
       wanted \<leftarrow> (case val of None \<Rightarrow> Some BOOLEAN_VALUE | Some t \<Rightarrow> t);
       cs \<leftarrow> those conditions;
       vs \<leftarrow> those vals;
       if wanted = BOOLEAN_OR_STRING_LITERAL \<or> cs = [] \<or> greatest plain_below (wanted # cs) = None then None
       else map_option fix_string (greatest plain_below vs)
     }"

fun typing :: "'s check_env \<Rightarrow> (string \<Rightarrow> SqlValueType list \<Rightarrow> SqlValueType option) \<Rightarrow> SqlStatement \<Rightarrow> SqlValueType option" where
  "typing env calls (value_STATEMENT t s i) =
     (if is_literal_type t then if i = 0 then Some t else None else if t = COLUMN_REFERENCE then column_type env s else None)"
| "typing env calls (coerce_STATEMENT d p v) =
     (if typing env calls v = None then None else get_sqlvaluetype_from_sqldatatype d False)"
| "typing env calls (calculated_STATEMENT v) = typing env calls v"
| "typing env calls (array_STATEMENT v) = typing env calls v"
| "typing env calls (column_list_STATEMENT vs) = common_type (map (typing env calls) vs)"
| "typing env calls (function_call_STATEMENT name vs) =
     do {
       ts \<leftarrow> those (map (typing env calls) vs);
       if BOOLEAN_OR_STRING_LITERAL \<in> set ts \<or> max_parms env < length vs then None else calls name ts
     }"
| "typing env calls (unary_STATEMENT op v) = Option.bind (typing env calls v) (unary_type op)"
| "typing env calls (binary_STATEMENT op v w dt) =
     do {
       (t, u) \<leftarrow> operand_types (typing env calls v) (typing env calls w);
       binary_type op dt t u
     }"
| "typing env calls (coalesce_STATEMENT vs) = common_type (map (typing env calls) vs)"
| "typing env calls (greatest_STATEMENT vs) = common_type (map (typing env calls) vs)"
| "typing env calls (least_STATEMENT vs) = common_type (map (typing env calls) vs)"
| "typing env calls (null_if_STATEMENT v w) =
     do {
       (t, u) \<leftarrow> operand_types (typing env calls v) (typing env calls w);
       larger below t u
     }"
| "typing env calls (cas_STATEMENT val branches e) =
     case_type (map_option (typing env calls) val) (map (\<lambda>b. typing env calls (fst b)) branches)
       (map (\<lambda>b. typing env calls (snd b)) branches @ (case e of None \<Rightarrow> [] | Some e \<Rightarrow> [typing env calls e]))"
| "typing env calls _ = None"
section \<open>What the check changes\<close>

text \<open>Literals get their type and lose their parameter, casts are added, and operators are replaced by those for dates and for plain patterns.\<close>

inductive revised :: "SqlStatement \<Rightarrow> SqlStatement \<Rightarrow> bool" where
  same: "revised v v"
| trans: "revised v v' \<Longrightarrow> revised v' v'' \<Longrightarrow> revised v v''"
| literal: "is_literal_type t \<Longrightarrow> fix_literal fix_type t s = Some (t', s') \<Longrightarrow> revised (value_STATEMENT t s i) (value_STATEMENT t' s' 0)"
| cast: "revised v (coerce_STATEMENT d p v)"
| coerced: "revised v v' \<Longrightarrow> revised (coerce_STATEMENT d p v) (coerce_STATEMENT d p' v')"
| calculated: "revised v v' \<Longrightarrow> revised (calculated_STATEMENT v) (calculated_STATEMENT v')"
| array: "revised v v' \<Longrightarrow> revised (array_STATEMENT v) (array_STATEMENT v')"
| unary: "revised v v' \<Longrightarrow> revised (unary_STATEMENT op v) (unary_STATEMENT op v')"
| binary: "revised v v' \<Longrightarrow> revised w w' \<Longrightarrow> revised (binary_STATEMENT op v w dt) (binary_STATEMENT op v' w' dt)"
| date_time: "is_arithmetic op \<Longrightarrow> date_time_operation op' \<Longrightarrow> settled t \<Longrightarrow>
    revised (binary_STATEMENT op v w dt) (binary_STATEMENT op' v w t)"
| plain_pattern: "is_regex op \<Longrightarrow> op' = op \<or> op' = BOOLEAN_EQUALS \<Longrightarrow> revised (binary_STATEMENT op v w dt) (binary_STATEMENT op' v w dt)"
| pattern_text: "is_regex op \<Longrightarrow> IS_STRING_TYPE t \<Longrightarrow>
    revised (binary_STATEMENT op v (value_STATEMENT t s i) dt) (binary_STATEMENT op v (value_STATEMENT t s' i) dt)"
| elements: "list_all2 revised vs vs' \<Longrightarrow> revised (column_list_STATEMENT vs) (column_list_STATEMENT vs')"
| arguments: "list_all2 revised vs vs' \<Longrightarrow> revised (function_call_STATEMENT name vs) (function_call_STATEMENT name vs')"
| coalesce: "list_all2 revised vs vs' \<Longrightarrow> revised (coalesce_STATEMENT vs) (coalesce_STATEMENT vs')"
| greatest: "list_all2 revised vs vs' \<Longrightarrow> revised (greatest_STATEMENT vs) (greatest_STATEMENT vs')"
| least: "list_all2 revised vs vs' \<Longrightarrow> revised (least_STATEMENT vs) (least_STATEMENT vs')"
| null_if: "revised v v' \<Longrightarrow> revised w w' \<Longrightarrow> revised (null_if_STATEMENT v w) (null_if_STATEMENT v' w')"
| cas: "rel_option revised val val' \<Longrightarrow> list_all2 (rel_prod revised revised) branches branches' \<Longrightarrow> rel_option revised e e' \<Longrightarrow>
    revised (cas_STATEMENT val branches e) (cas_STATEMENT val' branches' e')"
lemma list_all2_image: "list_all2 (\<lambda>x y. f y = f x) xs ys \<Longrightarrow> map f ys = map f xs \<and> f ` set ys = f ` set xs"
  by (induction rule: list_all2_induct) auto

lemma list_all2_all: "list_all2 (\<lambda>x y. P x \<longrightarrow> P y) xs ys \<Longrightarrow> \<forall>x\<in>set xs. P x \<Longrightarrow> \<forall>y\<in>set ys. P y"
  by (induction rule: list_all2_induct) auto

text \<open>What stays the same.\<close>

definition kept :: "SqlStatement \<Rightarrow> SqlStatement \<Rightarrow> bool" where
  "kept v v' \<longleftrightarrow> refs v' = refs v \<and> called v' = called v \<and> height v' = height v \<and> (parsed v \<longrightarrow> parsed v')"

lemma kept_refl [simp]: "kept v v"
  by (simp add: kept_def)

lemma kept_list:
  assumes "list_all2 kept vs vs'"
  shows "refs ` set vs' = refs ` set vs" and "called ` set vs' = called ` set vs" and "map height vs' = map height vs"
    and "\<forall>v\<in>set vs. parsed v \<Longrightarrow> \<forall>v\<in>set vs'. parsed v" and "vs' = [] \<longleftrightarrow> vs = []"
proof -
  have k: "list_all2 (\<lambda>v v'. refs v' = refs v) vs vs'" "list_all2 (\<lambda>v v'. called v' = called v) vs vs'"
    "list_all2 (\<lambda>v v'. height v' = height v) vs vs'" "list_all2 (\<lambda>v v'. parsed v \<longrightarrow> parsed v') vs vs'"
    using assms by (rule list_all2_mono, simp add: kept_def)+
  show "refs ` set vs' = refs ` set vs" "called ` set vs' = called ` set vs" "map height vs' = map height vs"
    using list_all2_image [OF k(1)] list_all2_image [OF k(2)] list_all2_image [OF k(3)] by simp_all
  show "\<forall>v\<in>set vs'. parsed v" if "\<forall>v\<in>set vs. parsed v"
    using list_all2_all [OF k(4) that] .
  show "vs' = [] \<longleftrightarrow> vs = []"
    using assms by auto
qed

lemma kept_node:
  assumes "list_all2 kept (children v) (children v')" and "node_parsed v \<longrightarrow> node_parsed v'"
    and "\<And>t s i. v \<noteq> value_STATEMENT t s i" and "\<And>t s i. v' \<noteq> value_STATEMENT t s i"
    and "\<And>d p w. v \<noteq> coerce_STATEMENT d p w" and "\<And>d p w. v' \<noteq> coerce_STATEMENT d p w"
    and "(case v' of function_call_STATEMENT name vs \<Rightarrow> {name} | _ \<Rightarrow> {}) = (case v of function_call_STATEMENT name vs \<Rightarrow> {name} | _ \<Rightarrow> {})"
  shows "kept v v'"
  using kept_list [OF assms(1)] assms(2,7)
  by (simp add: kept_def refs_node [OF assms(3)] refs_node [OF assms(4)] height_node [OF assms(5)] height_node [OF assms(6)] called_node [of v]
      called_node [of v'] parsed_node [of v] parsed_node [of v'])

lemma kept_lists:
  assumes "list_all2 kept vs vs'"
  shows "kept (column_list_STATEMENT vs) (column_list_STATEMENT vs')" and "kept (function_call_STATEMENT name vs) (function_call_STATEMENT name vs')"
    and "kept (coalesce_STATEMENT vs) (coalesce_STATEMENT vs')" and "kept (greatest_STATEMENT vs) (greatest_STATEMENT vs')"
    and "kept (least_STATEMENT vs) (least_STATEMENT vs')"
  using assms kept_list(5) [OF assms] by (auto intro!: kept_node simp: node_parsed_def)

lemma kept_nodes:
  assumes "kept v v'"
  shows "kept (coerce_STATEMENT d p v) (coerce_STATEMENT d p' v')" and "kept (calculated_STATEMENT v) (calculated_STATEMENT v')"
    and "kept (array_STATEMENT v) (array_STATEMENT v')" and "kept (unary_STATEMENT op v) (unary_STATEMENT op v')"
proof -
  show "kept (coerce_STATEMENT d p v) (coerce_STATEMENT d p' v')"
    using assms by (simp add: kept_def parsed_node [of "coerce_STATEMENT _ _ _"] node_parsed_def)
qed (use assms in \<open>auto intro!: kept_node simp: node_parsed_def\<close>)

lemma kept_binary:
  assumes "kept v v'" and "kept w w'" and "date_time_operation op' \<longrightarrow> op' = op \<and> dt' = dt \<or> settled dt'"
  shows "kept (binary_STATEMENT op v w dt) (binary_STATEMENT op' v' w' dt')" and "kept (null_if_STATEMENT v w) (null_if_STATEMENT v' w')"
  using assms by (auto intro!: kept_node simp: node_parsed_def)

lemma kept_cast: "kept v (coerce_STATEMENT d p v)"
  by (auto simp: kept_def parsed_node [of "coerce_STATEMENT _ _ _"] node_parsed_def)

lemma kept_values: "t \<noteq> COLUMN_REFERENCE \<Longrightarrow> t' \<noteq> COLUMN_REFERENCE \<Longrightarrow> t' \<noteq> FUNCTION_NAME \<Longrightarrow> kept (value_STATEMENT t s i) (value_STATEMENT t' s' i')"
  by (auto simp: kept_def parsed_node [of "value_STATEMENT _ _ _"] node_parsed_def)

lemma fix_literal_type: "is_literal_type t \<Longrightarrow> fix_literal fix_type t s = Some (t', s') \<Longrightarrow> is_literal_type t'"
  by (auto simp: fix_literal_def is_literal_type_def split: if_splits option.splits)

lemma literal_types: "is_literal_type t \<Longrightarrow> t \<noteq> COLUMN_REFERENCE \<and> t \<noteq> FUNCTION_NAME \<and> scalar t"
  by (auto simp: is_literal_type_def IS_DATE_TIME_TYPE_def scalar_def scalar_types_def)

lemma kept_cas:
  assumes "rel_option kept val val'" and "list_all2 (rel_prod kept kept) branches branches'" and "rel_option kept e e'"
  shows "kept (cas_STATEMENT val branches e) (cas_STATEMENT val' branches' e')"
proof -
  have "list_all2 kept (map fst branches) (map fst branches')" "list_all2 kept (map snd branches) (map snd branches')"
    using assms(2) by (auto simp: list_all2_map1 list_all2_map2 rel_prod_sel elim: list_all2_mono)
  with assms(1,3) show ?thesis
    by (intro kept_node) (auto simp: node_parsed_def intro!: list_all2_appendI split: option.splits)
qed

lemma revised_kept: "revised v v' \<Longrightarrow> kept v v'"
proof (induction rule: revised.induct)
  case (trans v v' v'')
  then show ?case
    by (auto simp: kept_def)
next
  case (literal t fix_type s t' s' i)
  then show ?case
    using fix_literal_type literal_types by (intro kept_values) blast+
next
  case (pattern_text op t v s i dt s')
  then show ?case
    by (intro kept_binary kept_values) (auto simp: IS_STRING_TYPE_def)
next
  case (cas val val' branches branches' e e')
  then show ?case
    by (intro kept_cas) (auto elim: option.rel_mono_strong list_all2_mono simp: rel_prod_sel)
qed (auto intro!: kept_nodes kept_binary kept_lists kept_cast simp: is_regex_def date_time_operation_def elim: list_all2_mono)
section \<open>Answers\<close>

text \<open>The nodes that an accepted expression has set.\<close>

definition noted :: "string set \<Rightarrow> string set \<Rightarrow> 's check_state \<Rightarrow> 's check_state \<Rightarrow> bool" where
  "noted cs fs st st' \<longleftrightarrow> noted_columns st' = noted_columns st \<union> cs \<and> fst ` noted_functions st' = fst ` noted_functions st \<union> fs
     \<and> check_errors st' = check_errors st"

lemma noted_none [simp]: "noted {} {} st st"
  by (simp add: noted_def)

lemma noted_trans: "noted cs fs st st' \<Longrightarrow> noted cs' fs' st' st'' \<Longrightarrow> noted (cs \<union> cs') (fs \<union> fs') st st''"
  by (auto simp: noted_def)

lemma noted_again: "noted cs fs st st' \<Longrightarrow> noted cs' fs' st' st'' \<Longrightarrow> cs' \<subseteq> cs \<Longrightarrow> fs' \<subseteq> fs \<Longrightarrow> noted cs fs st st''"
  by (auto simp: noted_def)

text \<open>An expression gets a type, which is the one it had unless a text was to be fixed to \<open>fix_type\<close>.\<close>

definition checked :: "'s check_env \<Rightarrow> (string \<Rightarrow> SqlValueType list \<Rightarrow> SqlValueType option) \<Rightarrow> SqlValueType option
    \<Rightarrow> SqlStatement \<Rightarrow> SqlStatement \<Rightarrow> bool" where
  "checked env calls fix_type v v' \<longleftrightarrow> revised v v' \<and>
     (\<exists>t. typing env calls v' = Some t \<and> scalar t
        \<and> (\<forall>u. typing env calls v = Some u \<longrightarrow> t = u \<or> u = BOOLEAN_OR_STRING_LITERAL \<and> fix_type = Some t))"

definition answer ::
  "'s check_env \<Rightarrow> (string \<Rightarrow> SqlValueType list \<Rightarrow> SqlValueType option) \<Rightarrow> ('s \<Rightarrow> bool) \<Rightarrow> SqlStatement \<Rightarrow> SqlValueType option
     \<Rightarrow> 's check_state \<Rightarrow> bool \<Rightarrow> SqlValueType \<Rightarrow> SqlStatement \<Rightarrow> 's check_state \<Rightarrow> bool" where
  "answer env calls good_store v fix_type st r t v' st' \<longleftrightarrow> good_store (store st')
     \<and> (\<not> r \<longrightarrow> typing env calls v' = Some t \<and> checked env calls fix_type v v' \<and> noted (refs v) (called v) st st')"

definition fix_types :: "SqlValueType option set" where
  "fix_types = {None, Some BOOLEAN_VALUE, Some STRING_LITERAL}"

lemma fix_types_simps [simp]: "None \<in> fix_types" "Some t \<in> fix_types \<longleftrightarrow> t = BOOLEAN_VALUE \<or> t = STRING_LITERAL"
  by (auto simp: fix_types_def)

text \<open>The contract of the check of a call: what it accepts has the type that \<open>calls\<close> gives.\<close>

locale call_typing =
  fixes env :: "'s check_env" and calls :: "string \<Rightarrow> SqlValueType list \<Rightarrow> SqlValueType option" and good_store :: "'s \<Rightarrow> bool"
  assumes call_accepted: "good_store s \<Longrightarrow> list_all settled ts \<Longrightarrow> call_check env name ts others t s = Some (r, u, f, errs, s') \<Longrightarrow>
      good_store s' \<and> (r = 0 \<longrightarrow> errs = [] \<and> others = 0 \<and> calls name ts = Some u)"
    and calls_settled: "calls name ts = Some u \<Longrightarrow> settled u"

text \<open>The contract of the recursion, in which the cases are proved.\<close>

locale constraint_recursion = call_typing env calls good_store
  for env :: "'s check_env" and calls :: "string \<Rightarrow> SqlValueType list \<Rightarrow> SqlValueType option" and good_store :: "'s \<Rightarrow> bool" +
  fixes q :: "'s recursion"
  assumes q_answer: "q v t fix_type st = Some (r, u, v', st') \<Longrightarrow> parsed v \<Longrightarrow> good_store (store st) \<Longrightarrow> fix_type \<in> fix_types \<Longrightarrow>
      answer env calls good_store v fix_type st r u v' st'"

lemma column_answer_typing:
  assumes "column_reference env ref t st = Some (r, u, st')"
  shows "store st' = store st \<and> (\<not> r \<longrightarrow> column_type env ref = Some u \<and> settled u \<and> noted {snd (split_reference ref)} {} st st')"
proof -
  obtain table_name column_name where ref: "split_reference ref = (table_name, column_name)"
    by fastforce
  have "get_sqlvaluetype_from_sqldatatype d False = Some u \<Longrightarrow> settled u" for d
    using column_type_scalar [of d u] by (simp add: settled_def)
  with assms ref show ?thesis
    by (auto simp: column_reference_def qualify_column_def column_type_def noted_def report_def split: option.splits if_splits)
qed

lemma greatest_member: "greatest le ts = Some t \<Longrightarrow> t \<in> set ts"
  using greatestD by blast

lemma common_type_Some: "common_type (map f vs) = Some t \<longleftrightarrow> (\<exists>ts. map f vs = map Some ts \<and> greatest below ts = Some t)"
proof -
  have "those (map f vs) = Some ts \<longleftrightarrow> map f vs = map Some ts" for ts
    by (induction vs arbitrary: ts) (auto split: option.splits)
  then show ?thesis
    by (auto simp: common_type_def bind_eq_Some_conv)
qed

end
