(* ===== verification/CheckSound.thy ===== *)
theory CheckSound
  imports CheckTyping
begin

text \<open>
  The cases of \<open>qualify_check_constraint\<close> keep the contract of \<open>CheckTyping\<close>: the loops over lists, operators, calls, NULLIF and CASE, each
  for any recursion that keeps it, and then the recursion itself. What a second call does, on an expression that has been checked, is part of the
  contract: the type stays, except that an ambiguous text gets the wanted one.
\<close>

section \<open>Values\<close>

context call_typing
begin

lemma checkedI: "revised v v' \<Longrightarrow> typing env calls v' = Some t \<Longrightarrow> scalar t \<Longrightarrow>
    (\<And>u. typing env calls v = Some u \<Longrightarrow> t = u \<or> u = BOOLEAN_OR_STRING_LITERAL \<and> fix_type = Some t) \<Longrightarrow> checked env calls fix_type v v'"
  by (auto simp: checked_def)

lemma value_sound:
  assumes "qualify_value env t s i ty fix_type st = Some (r, u, v', st')" and "parsed (value_STATEMENT t s i)" and "good_store (store st)"
    and "fix_type \<in> fix_types"
  shows "answer env calls good_store (value_STATEMENT t s i) fix_type st r u v' st'"
proof -
  have "t \<noteq> FUNCTION_NAME"
    using assms(2) by simp
  show ?thesis
  proof (cases "is_literal_type t")
    case True
    then obtain s' where l: "fix_literal fix_type t s = Some (u, s')" "v' = value_STATEMENT u s' 0" "\<not> r" "st' = st"
      using assms(1) by (auto simp: qualify_value_def)
    have u: "is_literal_type u"
      using fix_literal_type [OF True l(1)] .
    have "checked env calls fix_type (value_STATEMENT t s i) v'"
      unfolding l(2)
    proof (rule checkedI)
      show "revised (value_STATEMENT t s i) (value_STATEMENT u s' 0)"
        using True l(1) by (rule revised.literal)
      show "typing env calls (value_STATEMENT u s' 0) = Some u" "scalar u"
        using u literal_types by auto
      show "u = w \<or> w = BOOLEAN_OR_STRING_LITERAL \<and> fix_type = Some u" if "typing env calls (value_STATEMENT t s i) = Some w" for w
        using that True l(1) by (auto simp: fix_literal_def split: if_splits option.splits)
    qed
    with l u literal_types [OF True] assms(3) show ?thesis
      by (simp add: answer_def)
  next
    case False
    show ?thesis
    proof (cases "t = COLUMN_REFERENCE")
      case True
      then have c: "column_reference env s ty st = Some (r, u, st')" "v' = value_STATEMENT t s i"
        using assms(1) False by (auto simp: qualify_value_def split: if_splits)
      with column_answer_typing [OF c(1)] True False assms(3) show ?thesis
        by (auto simp: answer_def checked_def settled_def intro: revised.same)
    next
      case no_column: False
      with assms(1,3) False \<open>t \<noteq> FUNCTION_NAME\<close> show ?thesis
        by (auto simp: qualify_value_def Let_def answer_def report_def split: if_splits)
    qed
  qed
qed

end

section \<open>Lists\<close>

lemma greatest_larger:
  assumes "larger below a b = Some c" and "greatest below (a # b # ts) = Some w"
  shows "greatest below (c # ts) = Some w"
proof -
  have c: "below a c" "below b c" "c = a \<or> c = b"
    using larger_below [OF assms(1)] by simp_all
  have w: "w \<in> {a, b} \<union> set ts" "below a w" "below b w" "\<forall>u\<in>set ts. below u w"
    using assms(2) by (auto simp: greatest_below)
  with c have "w \<in> {a, b} \<Longrightarrow> w = c"
    using below_antisym by auto
  with w c show ?thesis
    unfolding greatest_below by auto
qed

lemma larger_exists: "greatest below (a # b # ts) = Some w \<Longrightarrow> \<exists>c. larger below a b = Some c"
  using below_chain [of a w b] by (auto simp: greatest_below larger_def)

context constraint_recursion
begin

lemma q_accepted:
  assumes "q v t fix_type st = Some (r, u, v', st')" and "\<not> r" and "parsed v" and "good_store (store st)" and "fix_type \<in> fix_types"
  shows "good_store (store st')" and "typing env calls v' = Some u" and "checked env calls fix_type v v'" and "noted (refs v) (called v) st st'"
    and "scalar u" and "parsed v'" and "refs v' = refs v" and "called v' = called v"
  using q_answer [OF assms(1,3-)] revised_kept [of v v'] assms(2,3) by (auto simp: answer_def checked_def kept_def)

end
lemma common_type_iff:
  "common_type (map f vs) = Some t \<longleftrightarrow> (\<forall>v\<in>set vs. \<exists>u. f v = Some u \<and> below u t) \<and> (\<exists>v\<in>set vs. f v = Some t)"
proof -
  have "map f vs = map Some ts \<Longrightarrow> t \<in> set ts \<longleftrightarrow> (\<exists>v\<in>set vs. f v = Some t)" for ts
    by (metis (no_types, lifting) image_iff list.set_map option.inject)
  moreover have "map f vs = map Some ts \<Longrightarrow> (\<forall>u\<in>set ts. below u t) \<longleftrightarrow> (\<forall>v\<in>set vs. \<exists>u. f v = Some u \<and> below u t)" for ts
    by (induction vs arbitrary: ts) auto
  moreover have "\<forall>v\<in>set vs. \<exists>u. f v = Some u \<and> below u t \<Longrightarrow> \<exists>ts. map f vs = map Some ts"
    by (rule exI [of _ "map (the \<circ> f) vs"]) auto
  ultimately show ?thesis
    unfolding common_type_Some greatest_below by blast
qed

lemma cast_typing:
  assumes "maybe_cast v w v'" and "typing env calls v = Some u"
  shows "(typing env calls v' = Some u \<or> typing env calls v' = Some w) \<and> revised v v'"
  using assms by (auto simp: maybe_cast_def intro: revised.intros)

text \<open>One call of \<open>ensure_same_type\<close> on the first value and the current one.\<close>

lemma callback_step:
  assumes "common_type (map (typing env calls) seen) = Some t" and "scalar t" and "first < length seen"
    and "typing env calls v = Some u" and "scalar u" and "larger below t u = Some w"
  obtains s where "ensure_same_type t u (seen ! first) v None = Some s" "result s = 0" "same_type.errors s = []" "right_type s = w"
    "common_type (map (typing env calls) (seen[first := left_stmt s] @ [right_stmt s])) = Some w"
    "list_all2 revised seen (seen[first := left_stmt s])" "revised v (right_stmt s)"
proof -
  obtain s where s: "ensure_same_type t u (seen ! first) v None = Some s" "result s = 0" "same_type.errors s = []" "right_type s = w"
    "maybe_cast (seen ! first) w (left_stmt s)" "maybe_cast v w (right_stmt s)"
    using same_type_larger [OF assms(2,5,6)] by blast
  let ?seen = "seen[first := left_stmt s] @ [right_stmt s]"
  have types: "\<forall>v\<in>set seen. \<exists>u. typing env calls v = Some u \<and> below u t" "\<exists>v\<in>set seen. typing env calls v = Some t"
    using assms(1) by (simp_all add: common_type_iff)
  obtain u0 where u0: "typing env calls (seen ! first) = Some u0" "below u0 t"
    using types(1) assms(3) by force
  have w: "below t w" "below u w" "w = t \<or> w = u"
    using larger_below [OF assms(6)] by simp_all
  have left: "typing env calls (left_stmt s) = Some u0 \<or> typing env calls (left_stmt s) = Some w" "revised (seen ! first) (left_stmt s)"
    and right: "typing env calls (right_stmt s) = Some u \<or> typing env calls (right_stmt s) = Some w" "revised v (right_stmt s)"
    using cast_typing [OF s(5) u0(1)] cast_typing [OF s(6) assms(4)] by simp_all
  have all: "\<forall>v\<in>set ?seen. \<exists>u. typing env calls v = Some u \<and> below u w"
    using left(1) right(1) w types(1) u0(2) below_trans [of _ t w] by (auto dest!: set_update_subset_insert [THEN subsetD])
  have "\<exists>v\<in>set ?seen. typing env calls v = Some w"
  proof (cases "w = u")
    case True
    with right(1) show ?thesis by auto
  next
    case False
    then have "w = t"
      using w(3) by simp
    obtain j where j: "j < length seen" "typing env calls (seen ! j) = Some t"
      using types(2) by (auto simp: in_set_conv_nth)
    have "typing env calls (seen[first := left_stmt s] ! j) = Some w"
      using j left(1) u0(1) \<open>w = t\<close> by (cases "j = first") auto
    with j(1) show ?thesis
      by (metis Un_iff length_list_update nth_mem set_append)
  qed
  with all have "common_type (map (typing env calls) ?seen) = Some w"
    unfolding common_type_iff by blast
  moreover have "revised (seen ! i) (seen[first := left_stmt s] ! i)" if "i < length seen" for i
    using left(2) that by (cases "i = first") (auto intro: revised.same)
  then have "list_all2 revised seen (seen[first := left_stmt s])"
    by (simp add: list_all2_conv_all_nth)
  ultimately show thesis
    using that s(1-4) right(2) by blast
qed

context constraint_recursion
begin

text \<open>The loop without \<open>ensure_same_type\<close>: the type is that of the last element.\<close>

lemma loop_without_callback:
  assumes "column_list_loop q fix_type False first seen vs t saw st = Some (r, u, saw', out, st')"
    and "\<forall>v\<in>set vs. parsed v" and "good_store (store st)" and "fix_type \<in> fix_types"
  shows "good_store (store st') \<and> (\<not> r \<longrightarrow> (\<exists>vs'. out = seen @ vs' \<and> list_all2 (checked env calls fix_type) vs vs'
    \<and> (if vs = [] then u = t else \<exists>v\<in>set vs'. typing env calls v = Some u) \<and> noted (\<Union> (refs ` set vs)) (\<Union> (called ` set vs)) st st'))"
  using assms(1-3)
proof (induction vs arbitrary: first seen t saw st)
  case (Cons v vs)
  obtain r1 t1 v1 st1 where q1: "q v UNKNOWN_SqlValueType fix_type st = Some (r1, t1, v1, st1)"
    using Cons.prems(1) by (auto simp: bind_eq_Some_conv)
  have p: "parsed v" "\<forall>v\<in>set vs. parsed v"
    using Cons.prems(2) by simp_all
  have g1: "good_store (store st1)"
    using q_answer [OF q1 p(1) Cons.prems(3) assms(4)] by (simp add: answer_def)
  show ?case
  proof (cases r1)
    case True
    then show ?thesis
      using Cons.prems(1) q1 g1 by auto
  next
    case False
    then obtain first' where rest: "column_list_loop q fix_type False first' (seen @ [v1]) vs t1 (saw \<or> t1 = BOOLEAN_OR_STRING_LITERAL) st1
        = Some (r, u, saw', out, st')"
      using Cons.prems(1) q1 by (auto simp: Let_def split: if_splits)
    note q1' = q_accepted [OF q1 False p(1) Cons.prems(3) assms(4)]
    show ?thesis
    proof (intro conjI impI)
      show "good_store (store st')"
        using Cons.IH [OF rest p(2) g1] by simp
      assume "\<not> r"
      then obtain vs' where vs': "out = seen @ v1 # vs'" "list_all2 (checked env calls fix_type) vs vs'"
          "if vs = [] then u = t1 else \<exists>v\<in>set vs'. typing env calls v = Some u"
        and noted: "noted (\<Union> (refs ` set vs)) (\<Union> (called ` set vs)) st1 st'"
        using Cons.IH [OF rest p(2) g1] by auto
      then show "\<exists>vs'. out = seen @ vs' \<and> list_all2 (checked env calls fix_type) (v # vs) vs'
          \<and> (if v # vs = [] then u = t else \<exists>v\<in>set vs'. typing env calls v = Some u)
          \<and> noted (\<Union> (refs ` set (v # vs))) (\<Union> (called ` set (v # vs))) st st'"
        using q1'(2,3) noted_trans [OF q1'(4) noted] by (intro exI [of _ "v1 # vs'"]) (simp split: if_splits)
    qed
  qed
qed auto

text \<open>The loop with it: the type is the greatest of all.\<close>

lemma loop_with_callback:
  assumes "column_list_loop q None True first seen vs t saw st = Some (r, u, saw', out, st')"
    and "\<forall>v\<in>set vs. parsed v" and "good_store (store st)"
    and "common_type (map (typing env calls) seen) = Some t" and "scalar t" and "first < length seen"
  shows "good_store (store st') \<and> (\<not> r \<longrightarrow> (\<exists>seen' vs'. out = seen' @ vs' \<and> list_all2 revised seen seen' \<and> list_all2 revised vs vs'
    \<and> common_type (map (typing env calls) out) = Some u \<and> scalar u \<and> noted (\<Union> (refs ` set vs)) (\<Union> (called ` set vs)) st st'
    \<and> (\<forall>ts w. map (typing env calls) vs = map Some ts \<longrightarrow> greatest below (t # ts) = Some w \<longrightarrow> u = w)))"
  using assms
proof (induction vs arbitrary: first seen t saw st)
  case Nil
  then show ?case
    by (auto simp: greatest_below list.rel_refl revised.same)
next
  case (Cons v vs)
  obtain r1 t1 v1 st1 where q1: "q v UNKNOWN_SqlValueType None st = Some (r1, t1, v1, st1)"
    using Cons.prems(1) by (auto simp: bind_eq_Some_conv)
  have p: "parsed v" "\<forall>v\<in>set vs. parsed v"
    using Cons.prems(2) by simp_all
  have g1: "good_store (store st1)"
    using q_answer [OF q1 p(1) Cons.prems(3)] by (simp add: answer_def)
  have known: "t \<noteq> UNKNOWN_SqlValueType"
    using Cons.prems(5) by (auto simp: scalar_def scalar_types_def)
  show ?case
  proof (cases r1)
    case True
    then show ?thesis
      using Cons.prems(1) q1 g1 by auto
  next
    case False
    note q1' = q_accepted [OF q1 False p(1) Cons.prems(3), simplified]
    show ?thesis
    proof (cases "larger below t t1")
      case None
      obtain s where s: "ensure_same_type t t1 (seen ! first) v1 None = Some s" "result s \<noteq> 0"
        using same_type_fails [OF Cons.prems(5) q1'(5) None] by blast
      then show ?thesis
        using Cons.prems(1) q1 known False g1 by (auto simp: Let_def report_def)
    next
      case (Some w)
      obtain s where s: "ensure_same_type t t1 (seen ! first) v1 None = Some s" "result s = 0" "same_type.errors s = []" "right_type s = w"
        "common_type (map (typing env calls) (seen[first := left_stmt s] @ [right_stmt s])) = Some w"
        "list_all2 revised seen (seen[first := left_stmt s])" "revised v1 (right_stmt s)"
        using callback_step [OF Cons.prems(4-6) q1'(2,5) Some] by blast
      have rest: "column_list_loop q None True first (seen[first := left_stmt s] @ [right_stmt s]) vs w (saw \<or> t1 = BOOLEAN_OR_STRING_LITERAL) st1
          = Some (r, u, saw', out, st')"
        using Cons.prems(1) q1 known False s(1-4) by (simp add: Let_def report_def)
      have rev: "revised v (right_stmt s)"
        using revised.trans [OF _ s(7)] q1'(3) by (simp add: checked_def)
      note IH = Cons.IH [OF rest p(2) g1 s(5) larger_scalar [OF Some Cons.prems(5) q1'(5)], simplified, OF less_SucI, OF Cons.prems(6)]
      show ?thesis
      proof (intro conjI impI)
        show "good_store (store st')"
          using IH by simp
        assume "\<not> r"
        with IH obtain seen' vs' where out: "out = seen' @ vs'" "list_all2 revised (seen[first := left_stmt s] @ [right_stmt s]) seen'" "list_all2 revised vs vs'"
            "common_type (map (typing env calls) out) = Some u" "scalar u" "noted (\<Union> (refs ` set vs)) (\<Union> (called ` set vs)) st1 st'"
          and again: "\<And>ts x. map (typing env calls) vs = map Some ts \<Longrightarrow> greatest below (w # ts) = Some x \<Longrightarrow> u = x"
          by blast
        from out(2) obtain seen1 v2 where seen': "seen' = seen1 @ [v2]" "list_all2 revised (seen[first := left_stmt s]) seen1" "revised (right_stmt s) v2"
          by (auto simp: list_all2_append1 list_all2_Cons1)
        have "list_all2 revised seen seen1"
          using s(6) seen'(2) by (rule list_all2_trans [rotated]) (blast intro: revised.trans)
        moreover have "list_all2 revised (v # vs) (v2 # vs')"
          using out(3) revised.trans [OF rev seen'(3)] by simp
        moreover have "u = x" if ts: "map (typing env calls) (v # vs) = map Some ts" "greatest below (t # ts) = Some x" for ts x
        proof -
          obtain us where us: "ts = t1 # us" "map (typing env calls) vs = map Some us"
            using ts(1) q1'(2,3) by (cases ts) (auto simp: checked_def)
          with greatest_larger [OF Some] ts(2) again show ?thesis
            by simp
        qed
        ultimately show "\<exists>seen' vs'. out = seen' @ vs' \<and> list_all2 revised seen seen' \<and> list_all2 revised (v # vs) vs'
            \<and> common_type (map (typing env calls) out) = Some u \<and> scalar u
            \<and> noted (\<Union> (refs ` set (v # vs))) (\<Union> (called ` set (v # vs))) st st'
            \<and> (\<forall>ts w. map (typing env calls) (v # vs) = map Some ts \<longrightarrow> greatest below (t # ts) = Some w \<longrightarrow> u = w)"
          using out seen'(1) noted_trans [OF q1'(4) out(6)] by (intro exI [of _ seen1] exI [of _ "v2 # vs'"]) simp
      qed
    qed
  qed
qed

end
lemma checked_common:
  assumes "list_all2 (checked env calls (Some f)) vs vs'" and "common_type (map (typing env calls) vs) = Some f" and "f \<noteq> BOOLEAN_OR_STRING_LITERAL"
  shows "common_type (map (typing env calls) vs') = Some f"
proof -
  have step: "(\<exists>u. typing env calls v = Some u \<and> below u f) \<Longrightarrow> (\<exists>u. typing env calls v' = Some u \<and> below u f)
      \<and> (typing env calls v = Some f \<longrightarrow> typing env calls v' = Some f)" if "checked env calls (Some f) v v'" for v v'
    using that assms(3) by (auto simp: checked_def)
  have "(\<forall>v\<in>set vs. \<exists>u. typing env calls v = Some u \<and> below u f) \<Longrightarrow> (\<forall>v\<in>set vs'. \<exists>u. typing env calls v = Some u \<and> below u f)
      \<and> ((\<exists>v\<in>set vs. typing env calls v = Some f) \<longrightarrow> (\<exists>v\<in>set vs'. typing env calls v = Some f))"
    using assms(1) by (induction rule: list_all2_induct) (use step in force)+
  with assms(2) show ?thesis
    unfolding common_type_iff by blast
qed

lemma checked_revised: "list_all2 (checked env calls fix_type) vs vs' \<Longrightarrow> list_all2 revised vs vs'"
  by (induction rule: list_all2_induct) (auto simp: checked_def)

lemma revised_trans_list: "list_all2 revised us vs \<Longrightarrow> list_all2 revised vs ws \<Longrightarrow> list_all2 revised us ws"
  by (rule list_all2_trans [of revised revised revised]) (blast intro: revised.trans)+

lemma revised_list:
  assumes "list_all2 revised vs vs'"
  shows "refs ` set vs' = refs ` set vs" and "called ` set vs' = called ` set vs" and "\<forall>v\<in>set vs. parsed v \<Longrightarrow> \<forall>v\<in>set vs'. parsed v"
    and "vs' = [] \<longleftrightarrow> vs = []"
proof -
  have "list_all2 kept vs vs'"
    using assms by (rule list_all2_mono) (rule revised_kept)
  from kept_list [OF this] show "refs ` set vs' = refs ` set vs" and "called ` set vs' = called ` set vs"
    and "\<forall>v\<in>set vs. parsed v \<Longrightarrow> \<forall>v\<in>set vs'. parsed v" and "vs' = [] \<longleftrightarrow> vs = []"
    by simp_all
qed

text \<open>The types of a list of ambiguous texts, some of them fixed.\<close>

definition fixed_to :: "'s check_env \<Rightarrow> (string \<Rightarrow> SqlValueType list \<Rightarrow> SqlValueType option) \<Rightarrow> SqlValueType \<Rightarrow> SqlStatement \<Rightarrow> bool" where
  "fixed_to env calls f v \<longleftrightarrow> (\<exists>u. typing env calls v = Some u \<and> (u = NUL_VALUE \<or> u = BOOLEAN_OR_STRING_LITERAL \<or> u = f))"

lemma fixed_to_checked:
  "list_all2 (checked env calls (Some f)) vs vs' \<Longrightarrow> \<forall>v\<in>set vs. fixed_to env calls f v \<Longrightarrow> \<forall>v\<in>set vs'. fixed_to env calls f v"
  by (induction rule: list_all2_induct) (auto simp: checked_def fixed_to_def)

lemma fixed_to_ambiguous: "common_type (map (typing env calls) vs) = Some BOOLEAN_OR_STRING_LITERAL \<Longrightarrow> \<forall>v\<in>set vs. fixed_to env calls f v"
  unfolding common_type_iff by (fastforce simp: fixed_to_def below_def plain_below_def type_class_defs)

lemma fixed_to_common: "\<forall>v\<in>set vs. fixed_to env calls f v \<Longrightarrow> \<exists>v\<in>set vs. typing env calls v = Some f \<Longrightarrow> f = BOOLEAN_VALUE \<or> f = STRING_LITERAL \<Longrightarrow>
    common_type (map (typing env calls) vs) = Some f"
  unfolding common_type_iff by (fastforce simp: fixed_to_def below_def plain_below_def textual_def)

context constraint_recursion
begin

lemma fix_loop_sound:
  assumes "fix_loop q f vs t st = Some (vs', st')" and "\<forall>v\<in>set vs. parsed v" and "good_store (store st)" and "f = BOOLEAN_VALUE \<or> f = STRING_LITERAL"
  shows "good_store (store st') \<and> list_all2 (checked env calls (Some f)) vs vs' \<and> noted (\<Union> (refs ` set vs)) (\<Union> (called ` set vs)) st st'"
  using assms(1-3)
proof (induction vs arbitrary: t st vs')
  case (Cons v vs)
  obtain t1 v1 st1 vs1 where q1: "q v t (Some f) st = Some (False, t1, v1, st1)" and rest: "fix_loop q f vs t1 st1 = Some (vs1, st')" and vs': "vs' = v1 # vs1"
    using Cons.prems(1) by (auto simp: bind_eq_Some_conv split: if_splits)
  have p: "parsed v" "\<forall>v\<in>set vs. parsed v"
    using Cons.prems(2) by simp_all
  have "Some f \<in> fix_types"
    using assms(4) by simp
  note q1' = q_accepted [OF q1 _ p(1) Cons.prems(3) this, simplified]
  show ?case
    using Cons.IH [OF rest p(2) q1'(1)] q1'(3) noted_trans [OF q1'(4)] by (simp add: vs')
qed simp

text \<open>The list of COALESCE, GREATEST, LEAST and, at first, of IN.\<close>

lemma column_list_sound:
  assumes "qualify_check_constraint_column_list q vs None True st = Some (r, u, vs', st')" and "vs \<noteq> []" and "\<forall>v\<in>set vs. parsed v" and "good_store (store st)"
  shows "good_store (store st') \<and> (\<not> r \<longrightarrow> list_all2 revised vs vs' \<and> common_type (map (typing env calls) vs') = Some u \<and> scalar u
    \<and> noted (\<Union> (refs ` set vs)) (\<Union> (called ` set vs)) st st' \<and> (\<forall>w. common_type (map (typing env calls) vs) = Some w \<longrightarrow> u = w))"
proof -
  obtain r1 u1 saw vs1 st1 where loop: "column_list_loop q None True 0 [] vs UNKNOWN_SqlValueType False st = Some (r1, u1, saw, vs1, st1)"
    using assms(1) by (auto simp: qualify_check_constraint_column_list_def bind_eq_Some_conv)
  have first: "good_store (store st1) \<and> (\<not> r1 \<longrightarrow> list_all2 revised vs vs1 \<and> common_type (map (typing env calls) vs1) = Some u1 \<and> scalar u1
      \<and> noted (\<Union> (refs ` set vs)) (\<Union> (called ` set vs)) st st1 \<and> (\<forall>w. common_type (map (typing env calls) vs) = Some w \<longrightarrow> u1 = w))"
  proof -
    obtain v ws where vs: "vs = v # ws"
      using assms(2) by (cases vs) auto
    obtain r2 t2 v2 st2 where q2: "q v UNKNOWN_SqlValueType None st = Some (r2, t2, v2, st2)"
      using loop by (auto simp: vs bind_eq_Some_conv)
    have p: "parsed v" "\<forall>v\<in>set ws. parsed v"
      using assms(3) by (simp_all add: vs)
    have g2: "good_store (store st2)"
      using q_answer [OF q2 p(1) assms(4)] by (simp add: answer_def)
    show ?thesis
    proof (cases r2)
      case True
      with loop q2 g2 show ?thesis by (auto simp: vs)
    next
      case False
      note q2' = q_accepted [OF q2 False p(1) assms(4), simplified]
      have rest: "column_list_loop q None True 0 [v2] ws t2 (t2 = BOOLEAN_OR_STRING_LITERAL) st2 = Some (r1, u1, saw, vs1, st1)"
        using loop q2 False by (simp add: vs Let_def)
      have "common_type (map (typing env calls) [v2]) = Some t2"
        using q2'(2) unfolding common_type_iff by simp
      note loop' = loop_with_callback [OF rest p(2) g2 this q2'(5), simplified]
      show ?thesis
      proof (intro conjI impI allI)
        show "good_store (store st1)"
          using loop' by simp
      next
        fix w assume "\<not> r1" and w: "common_type (map (typing env calls) vs) = Some w"
        then obtain ts where "map (typing env calls) vs = map Some ts" "greatest below ts = Some w"
          by (auto simp: common_type_Some)
        with loop' \<open>\<not> r1\<close> q2'(2,3) show "u1 = w"
          by (cases ts) (auto simp: vs checked_def)
      next
        assume "\<not> r1"
        with loop' obtain seen' ws' where out: "vs1 = seen' @ ws'" "list_all2 revised [v2] seen'" "list_all2 revised ws ws'"
          "common_type (map (typing env calls) vs1) = Some u1" "scalar u1" "noted (\<Union> (refs ` set ws)) (\<Union> (called ` set ws)) st2 st1"
          by blast
        then show "common_type (map (typing env calls) vs1) = Some u1" "scalar u1"
          by simp_all
        show "list_all2 revised vs vs1"
          using out(1-3) q2'(3) by (auto simp: vs checked_def list_all2_Cons1 intro: revised.trans)
        show "noted (\<Union> (refs ` set vs)) (\<Union> (called ` set vs)) st st1"
          using noted_trans [OF q2'(4) out(6)] by (simp add: vs)
      qed
    qed
  qed
  show ?thesis
  proof (cases "\<not> r1 \<and> saw \<and> u1 \<noteq> BOOLEAN_OR_STRING_LITERAL")
    case True
    with loop assms(1) have u1: "u1 = BOOLEAN_VALUE \<or> u1 = STRING_LITERAL" and fixed: "fix_loop q u1 vs1 u1 st1 = Some (vs', st')" and r: "\<not> r" "u = u1"
      by (auto simp: qualify_check_constraint_column_list_def bind_eq_Some_conv split: if_splits)
    have l: "list_all2 revised vs vs1" "common_type (map (typing env calls) vs1) = Some u1"
      using first True by simp_all
    note f = fix_loop_sound [OF fixed revised_list(3) [OF l(1) assms(3)] conjunct1 [OF first] u1]
    have "common_type (map (typing env calls) vs') = Some u1"
      using checked_common [OF _ l(2)] f True by blast
    moreover have "noted (\<Union> (refs ` set vs)) (\<Union> (called ` set vs)) st st'"
      using first True f by (auto intro: noted_again simp: revised_list(1,2) [OF l(1)])
    ultimately show ?thesis
      using f first True l(1) checked_revised revised_trans_list r by blast
  next
    case False
    then have "r = r1" "u = u1" "vs' = vs1" "st' = st1"
      using loop assms(1) by (auto simp: qualify_check_constraint_column_list_def split: if_splits)
    with first show ?thesis by simp
  qed
qed

text \<open>The second call on the list of IN.\<close>

lemma fixed_list_sound:
  assumes "qualify_check_constraint_column_list q vs (Some f) False st = Some (r, u, vs', st')" and "vs \<noteq> []" and "\<forall>v\<in>set vs. parsed v"
    and "good_store (store st)" and f: "f = BOOLEAN_VALUE \<or> f = STRING_LITERAL"
  shows "good_store (store st') \<and> (\<not> r \<longrightarrow> list_all2 revised vs vs' \<and> noted (\<Union> (refs ` set vs)) (\<Union> (called ` set vs)) st st'
    \<and> (common_type (map (typing env calls) vs) = Some BOOLEAN_OR_STRING_LITERAL \<longrightarrow> u = BOOLEAN_VALUE \<or> u = STRING_LITERAL \<longrightarrow>
        u = f \<and> common_type (map (typing env calls) vs') = Some u))"
proof -
  obtain r1 u1 saw vs1 st1 where loop: "column_list_loop q (Some f) False 0 [] vs UNKNOWN_SqlValueType False st = Some (r1, u1, saw, vs1, st1)"
    using assms(1) by (auto simp: qualify_check_constraint_column_list_def bind_eq_Some_conv)
  have "Some f \<in> fix_types"
    using f by simp
  note first = loop_without_callback [OF loop assms(3,4) this, simplified]
  have amb: "\<forall>v\<in>set vs1. fixed_to env calls f v" if "common_type (map (typing env calls) vs) = Some BOOLEAN_OR_STRING_LITERAL" "\<not> r1"
    using fixed_to_checked fixed_to_ambiguous [OF that(1)] first that(2) by blast
  show ?thesis
  proof (cases "\<not> r1 \<and> saw \<and> u1 \<noteq> BOOLEAN_OR_STRING_LITERAL")
    case True
    with loop assms(1) have u1: "u1 = BOOLEAN_VALUE \<or> u1 = STRING_LITERAL" and fixed: "fix_loop q u1 vs1 u1 st1 = Some (vs', st')" and r: "\<not> r" "u = u1"
      by (auto simp: qualify_check_constraint_column_list_def bind_eq_Some_conv split: if_splits)
    have l: "list_all2 revised vs vs1" "\<exists>v\<in>set vs1. typing env calls v = Some u1"
      using first True assms(2) checked_revised by auto
    note f2 = fix_loop_sound [OF fixed revised_list(3) [OF l(1) assms(3)] conjunct1 [OF first] u1]
    have "noted (\<Union> (refs ` set vs)) (\<Union> (called ` set vs)) st st'"
      using first True f2 by (auto intro: noted_again simp: revised_list(1,2) [OF l(1)])
    moreover have "u = f \<and> common_type (map (typing env calls) vs') = Some u"
      if a: "common_type (map (typing env calls) vs) = Some BOOLEAN_OR_STRING_LITERAL"
    proof -
      have "u1 = f"
        using amb [OF a] l(2) True u1 by (auto simp: fixed_to_def)
      with fixed_to_common [OF amb [OF a]] l(2) True f have "common_type (map (typing env calls) vs1) = Some f"
        by simp
      with checked_common [OF _ this] f2 \<open>u1 = f\<close> f r(2) show ?thesis
        by auto
    qed
    ultimately show ?thesis
      using f2 l(1) checked_revised revised_trans_list by blast
  next
    case False
    then have eq: "r = r1" "u = u1" "vs' = vs1" "st' = st1"
      using loop assms(1) by (auto simp: qualify_check_constraint_column_list_def split: if_splits)
    have "u1 = f \<and> common_type (map (typing env calls) vs1) = Some u1"
      if a: "common_type (map (typing env calls) vs) = Some BOOLEAN_OR_STRING_LITERAL" "u1 = BOOLEAN_VALUE \<or> u1 = STRING_LITERAL" "\<not> r1"
    proof -
      have m: "\<exists>v\<in>set vs1. typing env calls v = Some u1"
        using first a(3) assms(2) by simp
      with amb [OF a(1,3)] a(2) have "u1 = f"
        by (auto simp: fixed_to_def)
      with fixed_to_common [OF amb [OF a(1,3)]] m f show ?thesis
        by simp
    qed
    with first checked_revised show ?thesis
      unfolding eq by blast
  qed
qed

end
section \<open>Operators\<close>

definition noted_within :: "string set \<Rightarrow> string set \<Rightarrow> 's check_state \<Rightarrow> 's check_state \<Rightarrow> bool" where
  "noted_within cs fs st st' \<longleftrightarrow> (\<exists>cs' fs'. cs' \<subseteq> cs \<and> fs' \<subseteq> fs \<and> noted cs' fs' st st')"

lemma noted_within_refl [simp]: "noted_within cs fs st st"
  using noted_none unfolding noted_within_def by blast

lemma noted_is_within: "noted cs' fs' st st' \<Longrightarrow> cs' \<subseteq> cs \<Longrightarrow> fs' \<subseteq> fs \<Longrightarrow> noted_within cs fs st st'"
  unfolding noted_within_def by blast

lemma noted_within_trans: "noted_within cs fs st st' \<Longrightarrow> noted_within cs fs st' st'' \<Longrightarrow> noted_within cs fs st st''"
  unfolding noted_within_def by (meson Un_least noted_trans)

lemma noted_and_within: "noted cs fs st st' \<Longrightarrow> noted_within cs fs st' st'' \<Longrightarrow> noted cs fs st st''"
  unfolding noted_within_def by (meson noted_again)

lemma string_literal_type: "IS_STRING_TYPE t \<Longrightarrow> is_literal_type t"
  by (auto simp: IS_STRING_TYPE_def is_literal_type_def)

lemma typing_plain: "typing env calls v = Some t \<Longrightarrow> plain_operand v \<and> not_stored v"
  by (cases v) (auto simp: plain_operand_def not_stored_def is_column_alias_def string_literal_type common_type_iff list_all_iff split: SqlStatement.splits if_splits)

lemma settled_iff: "settled t \<longleftrightarrow> scalar t \<and> t \<noteq> BOOLEAN_OR_STRING_LITERAL"
  by (simp add: settled_def)

lemma other_type_fix [simp]: "Some (other_type t) \<in> fix_types" "other_type t \<noteq> BOOLEAN_OR_STRING_LITERAL"
  by (simp_all add: other_type_def)

lemma other_type_cases: "other_type t = BOOLEAN_VALUE \<or> other_type t = STRING_LITERAL"
  by (simp add: other_type_def)

context constraint_recursion
begin

lemma fix_operand_sound:
  assumes "fix_operand q v t f st = Some (v', st')" and "parsed v" and "good_store (store st)" and "f = BOOLEAN_VALUE \<or> f = STRING_LITERAL"
  shows "good_store (store st') \<and> typing env calls v' = Some f \<and> revised v v' \<and> noted (refs v) (called v) st st'"
proof -
  have q1: "q v t (Some f) st = Some (False, f, v', st')"
    using assms(1) by (auto simp: fix_operand_def bind_eq_Some_conv split: if_splits)
  have "Some f \<in> fix_types"
    using assms(4) by simp
  from q_accepted [OF q1 _ assms(2,3) this] show ?thesis
    by (simp add: checked_def)
qed

lemma right_sound:
  assumes "qualify_right q op True v t None st = Some (r, u, v', st')" and "parsed v" and "good_store (store st)"
  shows "answer env calls good_store v None st r u v' st'"
proof (cases "\<exists>vs. v = column_list_STATEMENT vs \<and> is_in op")
  case True
  then obtain vs vs' where v: "v = column_list_STATEMENT vs" "v' = column_list_STATEMENT vs'"
      "qualify_check_constraint_column_list q vs None True st = Some (r, u, vs', st')"
    using assms(1) by (auto simp: qualify_right_def)
  with assms(2) have "vs \<noteq> []" "\<forall>v\<in>set vs. parsed v"
    by simp_all
  from column_list_sound [OF v(3) this assms(3)] show ?thesis
    by (auto simp: answer_def checked_def v(1,2) intro: revised.elements)
next
  case False
  with assms(1) have "q v t None st = Some (r, u, v', st')"
    by (auto simp: qualify_right_def split: SqlStatement.splits if_splits)
  from q_answer [OF this assms(2,3)] show ?thesis
    by simp
qed

text \<open>The second call on the right operand.\<close>

lemma right_fixed:
  assumes "qualify_right q op False v t (Some f) st = Some (False, u, v', st')" and "parsed v" and "good_store (store st)"
    and f: "f = BOOLEAN_VALUE \<or> f = STRING_LITERAL" and "typing env calls v = Some BOOLEAN_OR_STRING_LITERAL" and u: "u = BOOLEAN_VALUE \<or> u = STRING_LITERAL"
  shows "good_store (store st') \<and> typing env calls v' = Some u \<and> u = f \<and> revised v v' \<and> noted (refs v) (called v) st st'"
proof (cases "\<exists>vs. v = column_list_STATEMENT vs \<and> is_in op")
  case True
  then obtain vs vs' where v: "v = column_list_STATEMENT vs" "v' = column_list_STATEMENT vs'"
      "qualify_check_constraint_column_list q vs (Some f) False st = Some (False, u, vs', st')"
    using assms(1) by (auto simp: qualify_right_def)
  with assms(2) have "vs \<noteq> []" "\<forall>v\<in>set vs. parsed v"
    by simp_all
  from fixed_list_sound [OF v(3) this assms(3) f] assms(5) u show ?thesis
    by (auto simp: v(1,2) intro: revised.elements)
next
  case False
  with assms(1) have q1: "q v t (Some f) st = Some (False, u, v', st')"
    by (auto simp: qualify_right_def split: SqlStatement.splits if_splits)
  have "Some f \<in> fix_types"
    using f by simp
  from q_accepted [OF q1 _ assms(2,3) this] assms(5) u show ?thesis
    by (auto simp: checked_def)
qed

lemma fix_right_sound:
  assumes "fix_operand (qualify_right q op False) v t f st = Some (v', st')" and "parsed v" and "good_store (store st)"
    and "f = BOOLEAN_VALUE \<or> f = STRING_LITERAL" and "typing env calls v = Some BOOLEAN_OR_STRING_LITERAL"
  shows "good_store (store st') \<and> typing env calls v' = Some f \<and> revised v v' \<and> noted (refs v) (called v) st st'"
proof -
  have "qualify_right q op False v t (Some f) st = Some (False, f, v', st')"
    using assms(1) by (auto simp: fix_operand_def bind_eq_Some_conv split: if_splits)
  from right_fixed [OF this assms(2-5,4)] show ?thesis
    by simp
qed

lemma fix_operands_sound:
  assumes "fix_operands q op t0 v0 t1 v1 st = Some (t0', v0', t1', v1', st')" and "parsed v0" and "parsed v1" and "good_store (store st)"
    and "typing env calls v0 = Some t0" and "typing env calls v1 = Some t1" and "scalar t0" and "scalar t1"
  shows "good_store (store st') \<and> typing env calls v0' = Some t0' \<and> typing env calls v1' = Some t1' \<and> revised v0 v0' \<and> revised v1 v1'
    \<and> settled t0' \<and> settled t1' \<and> noted_within (refs v0 \<union> refs v1) (called v0 \<union> called v1) st st'
    \<and> (settled t0 \<and> settled t1 \<longrightarrow> t0' = t0 \<and> t1' = t1)"
proof -
  let ?within = "noted_within (refs v0 \<union> refs v1) (called v0 \<union> called v1)"
  have within: "noted (refs v0) (called v0) a b \<Longrightarrow> ?within a b" "noted (refs v1) (called v1) a b \<Longrightarrow> ?within a b" for a b
    by (auto intro: noted_is_within)
  have fixed: "settled BOOLEAN_VALUE" "settled STRING_LITERAL"
    by (simp_all add: settled_cases)
  consider (both) "t0 = BOOLEAN_OR_STRING_LITERAL" "t1 = BOOLEAN_OR_STRING_LITERAL" | (left) "t0 = BOOLEAN_OR_STRING_LITERAL" "t1 \<noteq> BOOLEAN_OR_STRING_LITERAL"
    | (right) "t0 \<noteq> BOOLEAN_OR_STRING_LITERAL" "t1 = BOOLEAN_OR_STRING_LITERAL" | (none) "t0 \<noteq> BOOLEAN_OR_STRING_LITERAL" "t1 \<noteq> BOOLEAN_OR_STRING_LITERAL"
    by blast
  then show ?thesis
  proof cases
    case both
    define f where "f = (if is_boolean_operator op then BOOLEAN_VALUE else STRING_LITERAL)"
    then have f: "f = BOOLEAN_VALUE \<or> f = STRING_LITERAL"
      by simp
    obtain st1 where s: "fix_operand q v0 t0 f st = Some (v0', st1)" "fix_operand (qualify_right q op False) v1 t1 f st1 = Some (v1', st')"
        "t0' = f" "t1' = f"
      using assms(1) both by (auto simp: fix_operands_def f_def Let_def bind_eq_Some_conv)
    note s0 = fix_operand_sound [OF s(1) assms(2,4) f]
    note s1 = fix_right_sound [OF s(2) assms(3) conjunct1 [OF s0] f assms(6) [unfolded both(2)]]
    have "?within st st'"
      using s0 s1 within noted_within_trans by blast
    with s0 s1 s(3,4) f fixed both show ?thesis
      by (auto simp: settled_iff)
  next
    case left
    then have s: "fix_operand q v0 t0 (other_type t1) st = Some (v0', st')" "t0' = other_type t1" "t1' = t1" "v1' = v1"
      using assms(1) by (auto simp: fix_operands_def bind_eq_Some_conv)
    note s0 = fix_operand_sound [OF s(1) assms(2,4) other_type_cases]
    with s left assms(6,8) within fixed other_type_cases [of t1] show ?thesis
      by (auto simp: settled_iff intro: revised.same)
  next
    case right
    then have s: "qualify_right q op False v1 t1 (Some (other_type t0)) st = Some (False, t1', v1', st')" "t0' = t0" "v0' = v0"
        "t1' = other_type t0 \<or> t1' = STRING_LITERAL"
      using assms(1) by (auto simp: fix_operands_def bind_eq_Some_conv split: if_splits)
    then have "t1' = BOOLEAN_VALUE \<or> t1' = STRING_LITERAL"
      using other_type_cases by auto
    note s1 = right_fixed [OF s(1) assms(3,4) other_type_cases assms(6) [unfolded right(2)] this]
    with s right assms(5,7) within fixed other_type_cases [of t0] show ?thesis
      by (auto simp: settled_iff intro: revised.same)
  next
    case none
    with assms show ?thesis
      by (auto simp: fix_operands_def settled_iff intro: revised.same)
  qed
qed

end
lemma operand_typing:
  assumes "typing env calls v = Some t" and "v' = v \<or> t = BOOLEAN_VALUE \<and> op = CONCAT \<and> v' = to_string v"
  shows "revised v v' \<and> (\<exists>t'. typing env calls v' = Some t' \<and> (t' = t \<or> t = BOOLEAN_VALUE \<and> op = CONCAT \<and> t' = STRING_LITERAL)
    \<and> (settled t \<longrightarrow> settled t'))"
  using assms by (auto simp: to_string_def get_sqlvaluetype_from_sqldatatype_def settled_cases intro: revised.intros)

lemma operand_types_Some: "operand_types t u = Some (x, y) \<longleftrightarrow> t = Some x \<and> u = Some y \<and> x \<noteq> BOOLEAN_OR_STRING_LITERAL \<and> y \<noteq> BOOLEAN_OR_STRING_LITERAL"
  by (auto simp: operand_types_def split: option.splits)

lemma typing_binary: "typing env calls (binary_STATEMENT op v w dt) = Some t \<longleftrightarrow>
    (\<exists>x y. typing env calls v = Some x \<and> typing env calls w = Some y \<and> x \<noteq> BOOLEAN_OR_STRING_LITERAL \<and> y \<noteq> BOOLEAN_OR_STRING_LITERAL
       \<and> binary_type op dt x y = Some t)"
  by (auto simp: bind_eq_Some_conv operand_types_Some)

text \<open>An accepted operation is changed as \<open>revised\<close> allows, and keeps its type.\<close>

lemma verdict_typing:
  assumes "verdict (Some t) b b'" and "binary_type (operation b) (date_time_return_type b) (child0 b) (child1 b) = Some t"
    and "typing env calls (operand0 b) = Some (child0 b)" and "typing env calls (operand1 b) = Some (child1 b)"
    and "settled (child0 b)" and "settled (child1 b)"
  shows "revised (binary_STATEMENT (operation b) (operand0 b) (operand1 b) (date_time_return_type b))
      (binary_STATEMENT (operation b') (operand0 b') (operand1 b') (date_time_return_type b'))
    \<and> typing env calls (binary_STATEMENT (operation b') (operand0 b') (operand1 b') (date_time_return_type b')) = Some t"
proof -
  let ?op = "operation b" and ?dt = "date_time_return_type b"
  have t: "settled t"
    by (rule binary_type_settled [OF assms(2,5,6)])
  have op: "operation b' = ?op \<and> date_time_return_type b' = ?dt
      \<or> is_regex ?op \<and> operation b' = BOOLEAN_EQUALS \<and> date_time_return_type b' = ?dt
      \<or> is_arithmetic ?op \<and> date_time_operation (operation b') \<and> date_time_return_type b' = t"
    and l: "operand0 b' = operand0 b \<or> child0 b = BOOLEAN_VALUE \<and> ?op = CONCAT \<and> operand0 b' = to_string (operand0 b)"
    and r: "operand1 b' = operand1 b \<or> child1 b = BOOLEAN_VALUE \<and> ?op = CONCAT \<and> operand1 b' = to_string (operand1 b)
      \<or> is_regex ?op \<and> (\<exists>ty s s' i. operand1 b = value_STATEMENT ty s i \<and> operand1 b' = value_STATEMENT ty s' i \<and> IS_STRING_TYPE ty)"
    using assms(1) by (auto simp: verdict_def)
  obtain t0 where t0: "revised (operand0 b) (operand0 b')" "typing env calls (operand0 b') = Some t0" "settled t0"
      "t0 = child0 b \<or> child0 b = BOOLEAN_VALUE \<and> ?op = CONCAT \<and> t0 = STRING_LITERAL"
    using operand_typing [OF assms(3) l] assms(5) by blast
  have "revised (binary_STATEMENT ?op (operand0 b) (operand1 b) ?dt) (binary_STATEMENT ?op (operand0 b') (operand1 b') ?dt)
    \<and> (\<exists>t1. typing env calls (operand1 b') = Some t1 \<and> settled t1
      \<and> (t1 = child1 b \<or> child1 b = BOOLEAN_VALUE \<and> ?op = CONCAT \<and> t1 = STRING_LITERAL))"
  proof (cases "is_regex ?op \<and> (\<exists>ty s s' i. operand1 b = value_STATEMENT ty s i \<and> operand1 b' = value_STATEMENT ty s' i \<and> IS_STRING_TYPE ty)")
    case True
    then obtain ty s s' i where v: "operand1 b = value_STATEMENT ty s i" "operand1 b' = value_STATEMENT ty s' i" "IS_STRING_TYPE ty"
      by blast
    have "revised (binary_STATEMENT ?op (operand0 b) (operand1 b) ?dt) (binary_STATEMENT ?op (operand0 b') (operand1 b) ?dt)"
      using t0(1) revised.same by (rule revised.binary)
    moreover have "revised (binary_STATEMENT ?op (operand0 b') (operand1 b) ?dt) (binary_STATEMENT ?op (operand0 b') (operand1 b') ?dt)"
      unfolding v(1,2) using True v(3) by (intro revised.pattern_text) simp_all
    moreover have "typing env calls (operand1 b') = Some (child1 b)"
      using assms(4) string_literal_type [OF v(3)] by (simp add: v(1,2))
    ultimately show ?thesis
      using assms(6) revised.trans by blast
  next
    case False
    with r have "operand1 b' = operand1 b \<or> child1 b = BOOLEAN_VALUE \<and> ?op = CONCAT \<and> operand1 b' = to_string (operand1 b)"
      by blast
    from operand_typing [OF assms(4) this] t0(1) assms(6) show ?thesis
      by (auto intro: revised.binary)
  qed
  then obtain t1 where t1: "revised (binary_STATEMENT ?op (operand0 b) (operand1 b) ?dt) (binary_STATEMENT ?op (operand0 b') (operand1 b') ?dt)"
      "typing env calls (operand1 b') = Some t1" "settled t1" "t1 = child1 b \<or> child1 b = BOOLEAN_VALUE \<and> ?op = CONCAT \<and> t1 = STRING_LITERAL"
    by blast
  have "revised (binary_STATEMENT ?op (operand0 b') (operand1 b') ?dt)
      (binary_STATEMENT (operation b') (operand0 b') (operand1 b') (date_time_return_type b'))"
    using op t by (auto intro: revised.same revised.plain_pattern revised.date_time)
  moreover have "binary_type (operation b') (date_time_return_type b') t0 t1 = Some t"
    by (rule binary_type_again [OF assms(2,5,6) _ t0(4) t1(4)]) (use op in blast)
  ultimately show ?thesis
    using t1(1-3) t0(2,3) revised.trans unfolding typing_binary by (blast dest: settled_iff [THEN iffD1])
qed

lemma unary_verdict_any:
  assumes "unary_operation_data_type_check op v t type = Some (r, c, w, errs)" and "scalar t"
  shows "case unary_type op t of Some x \<Rightarrow> r = 0 \<and> w = x \<and> errs = [] | None \<Rightarrow> r \<noteq> 0 \<and> w = type"
proof (cases "op = BOOLEAN_NOT_EXISTS")
  case True
  with assms(1) show ?thesis
    by (simp add: unary_operation_data_type_check_def)
next
  case False
  from unary_verdict [OF assms(2) this, of v type] assms(1) show ?thesis
    by auto
qed

lemma unary_type_fixed:
  assumes "unary_type op BOOLEAN_OR_STRING_LITERAL = Some x" and "x = BOOLEAN_VALUE"
  shows "unary_type op BOOLEAN_VALUE = Some x"
  using assms by (cases op) (auto simp: unary_type_def numeric_def number_or_null_def)

context constraint_recursion
begin

lemma binary_sound:
  assumes "qualify_binary env q op v0 v1 dt type st = Some (r, u, v', st')" and "parsed (binary_STATEMENT op v0 v1 dt)" and "good_store (store st)"
  shows "answer env calls good_store (binary_STATEMENT op v0 v1 dt) fix_type st r u v' st'"
proof -
  have p: "parsed v0" "parsed v1" "date_time_operation op \<longrightarrow> settled dt"
    using assms(2) by simp_all
  obtain r0 t0 w0 st0 where q0: "q v0 UNKNOWN_SqlValueType None st = Some (r0, t0, w0, st0)"
    using assms(1) by (auto simp: qualify_binary_def bind_eq_Some_conv)
  have g0: "good_store (store st0)"
    using q_answer [OF q0 p(1) assms(3)] by (simp add: answer_def)
  show ?thesis
  proof (cases r0)
    case True
    with assms(1) q0 g0 show ?thesis
      by (auto simp: qualify_binary_def answer_def)
  next
    case r0: False
    note q0' = q_accepted [OF q0 r0 p(1) assms(3), simplified]
    obtain r1 t1 w1 st1 where q1: "qualify_right q op True v1 UNKNOWN_SqlValueType None st0 = Some (r1, t1, w1, st1)"
      using assms(1) q0 r0 by (auto simp: qualify_binary_def bind_eq_Some_conv)
    note a1 = right_sound [OF q1 p(2) g0]
    show ?thesis
    proof (cases r1)
      case True
      with assms(1) q0 r0 q1 a1 show ?thesis
        by (auto simp: qualify_binary_def answer_def)
    next
      case r1: False
      with a1 have q1': "good_store (store st1)" "typing env calls w1 = Some t1" "checked env calls None v1 w1" "noted (refs v1) (called v1) st0 st1"
          "scalar t1" "revised v1 w1"
        by (auto simp: answer_def checked_def)
      have k1: "parsed w1" "refs w1 = refs v1" "called w1 = called v1"
        using revised_kept [OF q1'(6)] p(2) by (simp_all add: kept_def)
      obtain t0' w0' t1' w1' st2 where fixed: "fix_operands q op t0 w0 t1 w1 st1 = Some (t0', w0', t1', w1', st2)"
        using assms(1) q0 r0 q1 r1 by (auto simp: qualify_binary_def bind_eq_Some_conv)
      note f = fix_operands_sound [OF fixed q0'(6) k1(1) q1'(1) q0'(2) q1'(2) q0'(5) q1'(5), unfolded q0'(7,8) k1(2,3)]
      let ?b = "\<lparr>operation = op, operand0 = w0', operand1 = w1', date_time_return_type = dt, child0 = t0', child1 = t1',
        result_type = type, failed = False, parse_ctx = None, errors = []\<rparr>"
      obtain b where b: "binary_operation_data_type_check (stored env) ?b = Some b" "r = binary.failed b" "u = result_type b"
          "v' = binary_STATEMENT (operation b) (operand0 b) (operand1 b) (date_time_return_type b)"
          "st' = report (map Type_error (errors b)) st2"
        using assms(1) q0 r0 q1 r1 fixed by (auto simp: qualify_binary_def bind_eq_Some_conv split: if_splits)
      have plain: "plain_operand w0'" "plain_operand w1'" "not_stored w1'"
        using typing_plain f by blast+
      have "\<exists>b'. binary_operation_data_type_check (stored env) ?b = Some b' \<and> verdict (binary_type op dt t0' t1') ?b b'"
        using binary_check_verdict [of ?b "stored env"] f plain p(3) by simp
      then have verdict: "verdict (binary_type op dt t0' t1') ?b b"
        using b(1) by simp
      have g: "good_store (store st')"
        using f b(5) by (simp add: report_def)
      show ?thesis
      proof (cases "binary_type op dt t0' t1'")
        case None
        with verdict b(2) g show ?thesis
          by (simp add: verdict_def answer_def)
      next
        case (Some t)
        then have t: "result_type b = t" "errors b = []"
          using verdict by (auto simp: verdict_def)
        have new: "revised (binary_STATEMENT op w0' w1' dt) v' \<and> typing env calls v' = Some t"
          using verdict_typing [of t ?b b env calls] verdict Some f b(4) by simp
        have "revised v0 w0'" "revised v1 w1'"
          using f q0'(3) q1'(6) revised.trans by (auto simp: checked_def)
        then have rev: "revised (binary_STATEMENT op v0 v1 dt) v'"
          using new revised.binary revised.trans by blast
        have sc: "scalar t"
          using binary_type_settled [OF Some] f by (simp add: settled_iff)
        have again: "t = w" if w: "typing env calls (binary_STATEMENT op v0 v1 dt) = Some w" for w
        proof -
          obtain x y where xy: "typing env calls v0 = Some x" "typing env calls v1 = Some y" "x \<noteq> BOOLEAN_OR_STRING_LITERAL" "y \<noteq> BOOLEAN_OR_STRING_LITERAL"
              "binary_type op dt x y = Some w"
            using w unfolding typing_binary by blast
          then have "t0 = x" "t1 = y"
            using q0'(2,3) q1'(2,3) by (auto simp: checked_def)
          with f xy q0'(5) q1'(5) have "t0' = x" "t1' = y"
            by (simp_all add: settled_iff)
          with Some xy show ?thesis by simp
        qed
        have "noted (refs v0 \<union> refs v1) (called v0 \<union> called v1) st st2"
          by (rule noted_and_within [OF noted_trans [OF q0'(4) q1'(4)]]) (use f in blast)
        then have "noted (refs v0 \<union> refs v1) (called v0 \<union> called v1) st st'"
          using b(5) t(2) by (simp add: report_def)
        moreover have "checked env calls fix_type (binary_STATEMENT op v0 v1 dt) v'"
          using rev new sc again unfolding checked_def by blast
        ultimately show ?thesis
          using g new b(3) t(1) by (simp add: answer_def)
      qed
    qed
  qed
qed

lemma unary_sound:
  assumes "qualify_unary q op v type st = Some (r, u, v', st')" and "parsed v" and "good_store (store st)"
  shows "answer env calls good_store (unary_STATEMENT op v) fix_type st r u v' st'"
proof -
  obtain r0 t w st0 where q0: "q v UNKNOWN_SqlValueType None st = Some (r0, t, w, st0)"
    using assms(1) by (auto simp: qualify_unary_def bind_eq_Some_conv)
  have g0: "good_store (store st0)"
    using q_answer [OF q0 assms(2,3)] by (simp add: answer_def)
  show ?thesis
  proof (cases r0)
    case True
    with assms(1) q0 g0 show ?thesis
      by (auto simp: qualify_unary_def answer_def)
  next
    case False
    note q0' = q_accepted [OF q0 False assms(2,3), simplified]
    obtain res child x errs where c: "unary_operation_data_type_check op w t type = Some (res, child, x, errs)"
      using assms(1) q0 False by (auto simp: qualify_unary_def bind_eq_Some_conv)
    note verdict = unary_verdict_any [OF c q0'(5)]
    let ?st = "report (map Type_error errs) st0"
    have g: "good_store (store ?st)"
      using g0 by (simp add: report_def)
    have again: "unary_type op t = Some y" if "typing env calls (unary_STATEMENT op v) = Some y" "t \<noteq> BOOLEAN_OR_STRING_LITERAL \<or> True" for y
      using that q0'(2,3) by (auto simp: bind_eq_Some_conv checked_def)
    show ?thesis
    proof (cases "t = BOOLEAN_OR_STRING_LITERAL")
      case no: False
      then have eq: "r = (res \<noteq> 0)" "u = x" "v' = unary_STATEMENT op w" "st' = ?st"
        using assms(1) q0 False c by (auto simp: qualify_unary_def Let_def split: if_splits)
      show ?thesis
      proof (cases "unary_type op t")
        case None
        with verdict eq g show ?thesis
          by (simp add: answer_def)
      next
        case (Some y)
        then have "checked env calls fix_type (unary_STATEMENT op v) (unary_STATEMENT op w)"
          using q0'(2,3) again unary_type_settled [OF Some] by (auto simp: checked_def settled_iff intro: revised.unary)
        with Some verdict eq g q0'(2,4) show ?thesis
          by (auto simp: answer_def report_def)
      qed
    next
      case yes: True
      then obtain r2 t2 w2 where x: "x = BOOLEAN_VALUE" and q2: "q w child (Some x) ?st = Some (r2, t2, w2, st')" "\<not> r2" "res = 0" "\<not> r" "u = x"
          "v' = unary_STATEMENT op w2"
        using assms(1) q0 False c by (auto simp: qualify_unary_def Let_def bind_eq_Some_conv split: if_splits)
      have ut: "unary_type op t = Some BOOLEAN_VALUE" and errs: "errs = []"
        using verdict q2(3) x by (auto split: option.splits)
      have "Some x \<in> fix_types"
        using x by simp
      note q2' = q_accepted [OF q2(1,2) q0'(6) g this, unfolded q0'(7,8)]
      have "typing env calls v' = Some BOOLEAN_VALUE"
        using q2'(2,3) q0'(2) ut unary_type_fixed [of op BOOLEAN_VALUE] yes x q2(6) by (auto simp: checked_def)
      moreover have "revised (unary_STATEMENT op v) v'"
        using q0'(3) q2'(3) q2(6) revised.trans by (auto simp: checked_def intro: revised.unary)
      moreover have "scalar BOOLEAN_VALUE"
        by (simp add: scalar_def scalar_types_def)
      moreover have "noted (refs v) (called v) st st'"
        using noted_again [OF q0'(4), of _ _ st'] q2'(4) errs by (auto simp: report_def)
      ultimately show ?thesis
        using q2'(1) q2(4,5) x again ut unfolding answer_def checked_def by (auto simp del: typing.simps)
    qed
  qed
qed

end
section \<open>Calls and NULLIF\<close>

lemma those_map_Some: "those (map f vs) = Some ts \<longleftrightarrow> map f vs = map Some ts"
  by (induction vs arbitrary: ts) (auto split: option.splits)

lemma typing_call: "typing env calls (function_call_STATEMENT name vs) = Some t \<longleftrightarrow>
    (\<exists>ts. map (typing env calls) vs = map Some ts \<and> BOOLEAN_OR_STRING_LITERAL \<notin> set ts \<and> length vs \<le> max_parms env \<and> calls name ts = Some t)"
  by (auto simp: bind_eq_Some_conv those_map_Some not_less)

lemma larger_again:
  assumes "larger below t u = Some w" and "t' = t \<or> t' = w" and "u' = u \<or> u' = w"
  shows "larger below t' u' = Some w"
  using larger_below [OF assms(1)] assms(2,3) below_antisym by (auto simp: larger_def)

lemma typing_null_if: "typing env calls (null_if_STATEMENT v w) = Some t \<longleftrightarrow>
    (\<exists>x y. typing env calls v = Some x \<and> typing env calls w = Some y \<and> x \<noteq> BOOLEAN_OR_STRING_LITERAL \<and> y \<noteq> BOOLEAN_OR_STRING_LITERAL
       \<and> larger below x y = Some t)"
  by (auto simp: bind_eq_Some_conv operand_types_Some)

context constraint_recursion
begin

lemma arguments_sound:
  assumes "qualify_arguments q vs t st = Some (r, u, ts, vs', st')" and "\<forall>v\<in>set vs. parsed v" and "good_store (store st)"
  shows "good_store (store st') \<and> (\<not> r \<longrightarrow> map (typing env calls) vs' = map Some ts \<and> list_all settled ts \<and> list_all2 revised vs vs'
    \<and> noted (\<Union> (refs ` set vs)) (\<Union> (called ` set vs)) st st'
    \<and> (\<forall>us. map (typing env calls) vs = map Some us \<longrightarrow> BOOLEAN_OR_STRING_LITERAL \<notin> set us \<longrightarrow> ts = us))"
  using assms
proof (induction vs arbitrary: t st r u ts vs')
  case (Cons v vs)
  obtain r1 t1 v1 st1 where q1: "q v t None st = Some (r1, t1, v1, st1)"
    using Cons.prems(1) by (auto simp: bind_eq_Some_conv)
  have p: "parsed v" "\<forall>v\<in>set vs. parsed v"
    using Cons.prems(2) by simp_all
  have g1: "good_store (store st1)"
    using q_answer [OF q1 p(1) Cons.prems(3)] by (simp add: answer_def)
  show ?case
  proof (cases r1)
    case True
    with Cons.prems(1) q1 g1 show ?thesis by auto
  next
    case False
    note q1' = q_accepted [OF q1 False p(1) Cons.prems(3), simplified]
    let ?t = "if t1 = BOOLEAN_OR_STRING_LITERAL then STRING_LITERAL else t1"
    obtain v2 st2 where fixed: "(if t1 = BOOLEAN_OR_STRING_LITERAL then fix_operand q v1 t1 STRING_LITERAL st1 else Some (v1, st1)) = Some (v2, st2)"
      using Cons.prems(1) q1 False by (auto simp: bind_eq_Some_conv simp del: not_None_eq)
    have f: "good_store (store st2) \<and> typing env calls v2 = Some ?t \<and> revised v1 v2 \<and> noted (refs v) (called v) st st2"
    proof (cases "t1 = BOOLEAN_OR_STRING_LITERAL")
      case True
      with fix_operand_sound [of v1 t1 STRING_LITERAL st1 v2 st2] fixed q1'(1,6,7,8) noted_again [OF q1'(4)] show ?thesis
        by auto
    next
      case False
      with fixed q1'(1,2,4) show ?thesis by (auto intro: revised.same)
    qed
    obtain ts1 vs1 where rest: "qualify_arguments q vs ?t st2 = Some (r, u, ts1, vs1, st')" "ts = ?t # ts1" "vs' = v2 # vs1"
      using Cons.prems(1) q1 False fixed by (auto simp: Let_def bind_eq_Some_conv)
    have set: "settled ?t"
      using q1'(5) by (auto simp: settled_iff scalar_def scalar_types_def)
    have rev: "revised v v2"
      using q1'(3) f revised.trans by (auto simp: checked_def)
    note IH = Cons.IH [OF rest(1) p(2) conjunct1 [OF f]]
    have "ts = us" if us: "map (typing env calls) (v # vs) = map Some us" "BOOLEAN_OR_STRING_LITERAL \<notin> set us" "\<not> r" for us
      using us IH q1'(2,3) rest(2) by (cases us) (auto simp: checked_def)
    then show ?thesis
      using IH f set rev noted_trans [of "refs v" "called v" st st2] rest(2,3) by auto
  qed
qed auto

lemma call_sound:
  assumes "qualify_call env q name vs type st = Some (r, u, v', st')" and "\<forall>v\<in>set vs. parsed v" and "good_store (store st)"
  shows "answer env calls good_store (function_call_STATEMENT name vs) fix_type st r u v' st'"
proof -
  obtain r1 t1 ts ws st1 where a: "qualify_arguments q (take (max_parms env) vs) type st = Some (r1, t1, ts, ws, st1)"
    using assms(1) by (auto simp: qualify_call_def bind_eq_Some_conv)
  have "\<forall>v\<in>set (take (max_parms env) vs). parsed v"
    using assms(2) by (auto dest: in_set_takeD)
  note a' = arguments_sound [OF a this assms(3)]
  show ?thesis
  proof (cases r1)
    case True
    with assms(1) a a' show ?thesis
      by (auto simp: qualify_call_def answer_def Let_def)
  next
    case False
    obtain res t f errs s where c: "call_check env name ts (length vs - max_parms env) t1 (store st1) = Some (res, t, f, errs, s)"
      using assms(1) a False by (auto simp: qualify_call_def Let_def bind_eq_Some_conv)
    have "list_all settled ts"
      using a' False by simp
    note law = call_accepted [OF conjunct1 [OF a'] this c]
    show ?thesis
    proof (cases "res = 0")
      case failed: False
      with assms(1) a False c law show ?thesis
        by (auto simp: qualify_call_def answer_def Let_def report_def)
    next
      case True
      with law have l: "errs = []" "length vs \<le> max_parms env" "calls name ts = Some t" "good_store s"
        by auto
      obtain fn where fn: "r = False" "u = t" "v' = function_call_STATEMENT name ws"
          "st' = (report (map Type_error []) (st1\<lparr>store := s\<rparr>))\<lparr>noted_functions := insert (name, fn) (noted_functions st1)\<rparr>"
        using assms(1) a False c True l(1,2) by (auto simp: qualify_call_def Let_def report_def bind_eq_Some_conv split: if_splits)
      have w: "map (typing env calls) ws = map Some ts" "list_all settled ts" "list_all2 revised vs ws"
          "noted (\<Union> (refs ` set vs)) (\<Union> (called ` set vs)) st st1"
          "\<And>us. map (typing env calls) vs = map Some us \<Longrightarrow> BOOLEAN_OR_STRING_LITERAL \<notin> set us \<Longrightarrow> ts = us"
        using a' False l(2) by auto
      have typed: "typing env calls v' = Some t"
        unfolding fn(3) typing_call using w(1-3) l(2,3) by (auto simp: list_all_iff settled_iff dest: list_all2_lengthD)
      have "t = y" if "typing env calls (function_call_STATEMENT name vs) = Some y" for y
        using that w(5) l(3) unfolding typing_call by auto
      moreover have "scalar t"
        using calls_settled [OF l(3)] by (simp add: settled_iff)
      moreover have "revised (function_call_STATEMENT name vs) v'"
        using w(3) fn(3) by (auto intro: revised.arguments)
      ultimately have "checked env calls fix_type (function_call_STATEMENT name vs) v'"
        using typed unfolding checked_def by blast
      moreover have "noted (refs (function_call_STATEMENT name vs)) (called (function_call_STATEMENT name vs)) st st'"
        using w(4) by (auto simp: noted_def fn(4) report_def)
      ultimately show ?thesis
        using typed l(4) fn by (simp add: answer_def report_def)
    qed
  qed
qed

lemma null_if_fix_sound:
  assumes "null_if_fix q t0 v0 t1 v1 st = Some (t0', v0', t1', v1', st')" and "parsed v0" and "parsed v1" and "good_store (store st)"
    and "typing env calls v0 = Some t0" and "typing env calls v1 = Some t1" and "scalar t0" and "scalar t1"
  shows "good_store (store st') \<and> typing env calls v0' = Some t0' \<and> typing env calls v1' = Some t1' \<and> revised v0 v0' \<and> revised v1 v1'
    \<and> settled t0' \<and> settled t1' \<and> noted_within (refs v0 \<union> refs v1) (called v0 \<union> called v1) st st'
    \<and> (settled t0 \<and> settled t1 \<longrightarrow> t0' = t0 \<and> t1' = t1)"
proof -
  let ?within = "noted_within (refs v0 \<union> refs v1) (called v0 \<union> called v1)"
  have within: "noted (refs v0) (called v0) a b \<Longrightarrow> ?within a b" "noted (refs v1) (called v1) a b \<Longrightarrow> ?within a b" for a b
    by (auto intro: noted_is_within)
  have fixed: "settled BOOLEAN_VALUE" "settled STRING_LITERAL"
    by (simp_all add: settled_cases)
  consider (both) "t0 = BOOLEAN_OR_STRING_LITERAL" "t1 = BOOLEAN_OR_STRING_LITERAL" | (left) "t0 = BOOLEAN_OR_STRING_LITERAL" "t1 \<noteq> BOOLEAN_OR_STRING_LITERAL"
    | (right) "t0 \<noteq> BOOLEAN_OR_STRING_LITERAL" "t1 = BOOLEAN_OR_STRING_LITERAL" | (none) "t0 \<noteq> BOOLEAN_OR_STRING_LITERAL" "t1 \<noteq> BOOLEAN_OR_STRING_LITERAL"
    by blast
  then show ?thesis
  proof cases
    case both
    then obtain st1 where s: "fix_operand q v1 BOOLEAN_OR_STRING_LITERAL STRING_LITERAL st = Some (v1', st1)"
        "fix_operand q v0 BOOLEAN_OR_STRING_LITERAL STRING_LITERAL st1 = Some (v0', st')" "t0' = STRING_LITERAL" "t1' = STRING_LITERAL"
      using assms(1) by (auto simp: null_if_fix_def other_type_def bind_eq_Some_conv)
    note s1 = fix_operand_sound [OF s(1) assms(3,4), simplified]
    note s0 = fix_operand_sound [OF s(2) assms(2) conjunct1 [OF s1], simplified]
    have "?within st st'"
      using s0 s1 within noted_within_trans by blast
    with s0 s1 s(3,4) both fixed show ?thesis
      by (simp add: settled_iff)
  next
    case left
    then have s: "fix_operand q v0 t0 (other_type t1) st = Some (v0', st')" "t0' = other_type t1" "t1' = t1" "v1' = v1"
      using assms(1) by (auto simp: null_if_fix_def bind_eq_Some_conv)
    note s0 = fix_operand_sound [OF s(1) assms(2,4) other_type_cases]
    with s left assms(6,8) within fixed other_type_cases [of t1] show ?thesis
      by (auto simp: settled_iff intro: revised.same)
  next
    case right
    then have s: "fix_operand q v1 t1 (other_type t0) st = Some (v1', st')" "t1' = other_type t0" "t0' = t0" "v0' = v0"
      using assms(1) by (auto simp: null_if_fix_def bind_eq_Some_conv)
    note s1 = fix_operand_sound [OF s(1) assms(3,4) other_type_cases]
    with s right assms(5,7) within fixed other_type_cases [of t0] show ?thesis
      by (auto simp: settled_iff intro: revised.same)
  next
    case none
    with assms show ?thesis
      by (auto simp: null_if_fix_def settled_iff intro: revised.same)
  qed
qed

lemma null_if_sound:
  assumes "qualify_null_if q v0 v1 type st = Some (r, u, v', st')" and "parsed v0" and "parsed v1" and "good_store (store st)"
  shows "answer env calls good_store (null_if_STATEMENT v0 v1) fix_type st r u v' st'"
proof -
  obtain r0 t0 w0 st0 where q0: "q v0 type None st = Some (r0, t0, w0, st0)"
    using assms(1) by (auto simp: qualify_null_if_def bind_eq_Some_conv)
  have g0: "good_store (store st0)"
    using q_answer [OF q0 assms(2,4)] by (simp add: answer_def)
  show ?thesis
  proof (cases r0)
    case True
    with assms(1) q0 g0 show ?thesis
      by (auto simp: qualify_null_if_def answer_def)
  next
    case r0: False
    note q0' = q_accepted [OF q0 r0 assms(2,4), simplified]
    obtain r1 t1 w1 st1 where q1: "q v1 UNKNOWN_SqlValueType None st0 = Some (r1, t1, w1, st1)"
      using assms(1) q0 r0 by (auto simp: qualify_null_if_def bind_eq_Some_conv)
    have g1: "good_store (store st1)"
      using q_answer [OF q1 assms(3) g0] by (simp add: answer_def)
    show ?thesis
    proof (cases r1)
      case True
      with assms(1) q0 r0 q1 g1 show ?thesis
        by (auto simp: qualify_null_if_def answer_def)
    next
      case r1: False
      note q1' = q_accepted [OF q1 r1 assms(3) g0, simplified]
      obtain t0' w0' t1' w1' st2 where fixed: "null_if_fix q t0 w0 t1 w1 st1 = Some (t0', w0', t1', w1', st2)"
        using assms(1) q0 r0 q1 r1 by (auto simp: qualify_null_if_def bind_eq_Some_conv)
      note f = null_if_fix_sound [OF fixed q0'(6) q1'(6) g1 q0'(2) q1'(2) q0'(5) q1'(5), unfolded q0'(7,8) q1'(7,8)]
      have sc: "scalar t0'" "scalar t1'"
        using f by (simp_all add: settled_iff)
      obtain s where s: "ensure_same_type t0' t1' w0' w1' None = Some s" "r = (result s \<noteq> 0)" "u = left_type s"
          "v' = null_if_STATEMENT (left_stmt s) (right_stmt s)" "st' = report (map Type_error (same_type.errors s)) st2"
        using assms(1) q0 r0 q1 r1 fixed by (auto simp: qualify_null_if_def bind_eq_Some_conv)
      have g: "good_store (store st')"
        using f s(5) by (simp add: report_def)
      show ?thesis
      proof (cases "larger below t0' t1'")
        case None
        then have "r"
          using same_type_fails [OF sc None, of w0' w1'] s(1,2) by auto
        with g show ?thesis
          by (simp add: answer_def)
      next
        case (Some w)
        then have e: "\<not> r" "u = w" "same_type.errors s = []" "maybe_cast w0' w (left_stmt s)" "maybe_cast w1' w (right_stmt s)"
          using same_type_larger [OF sc Some, of w0' w1'] s by auto
        obtain l where l: "typing env calls (left_stmt s) = Some l" "l = t0' \<or> l = w" "revised w0' (left_stmt s)"
          using cast_typing [OF e(4)] f by blast
        obtain rr where rr: "typing env calls (right_stmt s) = Some rr" "rr = t1' \<or> rr = w" "revised w1' (right_stmt s)"
          using cast_typing [OF e(5)] f by blast
        have w: "settled w"
          using larger_below [OF Some] f by auto
        have typed: "typing env calls v' = Some w"
          unfolding s(4) typing_null_if using l rr larger_again [OF Some l(2) rr(2)] f w by (auto simp: settled_iff)
        have "revised v0 (left_stmt s)" "revised v1 (right_stmt s)"
          using f q0'(3) q1'(3) l(3) rr(3) revised.trans unfolding checked_def by blast+
        then have rev: "revised (null_if_STATEMENT v0 v1) v'"
          unfolding s(4) by (rule revised.null_if)
        have "w = y" if y: "typing env calls (null_if_STATEMENT v0 v1) = Some y" for y
          using y Some f q0'(2,3,5) q1'(2,3,5) unfolding typing_null_if checked_def by (auto simp: settled_iff)
        then have "checked env calls fix_type (null_if_STATEMENT v0 v1) v'"
          using rev typed w unfolding checked_def settled_iff by blast
        moreover have "noted (refs v0 \<union> refs v1) (called v0 \<union> called v1) st st2"
          by (rule noted_and_within [OF noted_trans [OF q0'(4) q1'(4)]]) (use f in blast)
        ultimately show ?thesis
          using typed e(2,3) g s(5) by (simp add: answer_def report_def)
      qed
    qed
  qed
qed

end
section \<open>CASE\<close>

lemma greatest_plain_larger:
  assumes "larger plain_below a b = Some c"
  shows "greatest plain_below (c # ts) = Some w \<longleftrightarrow> greatest plain_below (a # b # ts) = Some w"
proof -
  have c: "plain_below a c" "plain_below b c" "c = a \<or> c = b"
    using larger_plain_below [OF assms] by simp_all
  then have "plain_below a w \<and> plain_below b w \<longleftrightarrow> plain_below c w"
    using plain_below_trans by blast
  moreover have "w = a \<or> w = b \<Longrightarrow> plain_below c w \<Longrightarrow> w = c"
    using c plain_below_antisym by blast
  ultimately show ?thesis
    using c(3) unfolding greatest_plain_below by auto
qed

lemma greatest_plain_one [simp]: "greatest plain_below [t] = Some t"
  unfolding greatest_plain_below by simp

lemma greatest_plain_snoc:
  assumes "greatest plain_below ts = Some a" and "larger plain_below a b = Some c"
  shows "greatest plain_below (ts @ [b]) = Some c"
proof -
  have c: "plain_below a c" "plain_below b c" "c = a \<or> c = b"
    using larger_plain_below [OF assms(2)] by simp_all
  then show ?thesis
    using assms(1) plain_below_trans [of _ a c] unfolding greatest_plain_below by auto
qed

lemma check_types_cases:
  assumes "scalar t" and "scalar u"
  shows "case larger plain_below t u of
      Some w \<Rightarrow> check_types err swapped t u st = Some (False, w, w, st)
    | None \<Rightarrow> \<exists>t' u' st'. check_types err swapped t u st = Some (True, t', u', st')"
proof -
  obtain s s' where "get_user_visible_type_string (fix_string t) = Some s" "get_user_visible_type_string (fix_string u) = Some s'"
    using assms scalar_name scalar_fix_string by metis
  then show ?thesis
    using unify_larger [OF assms] cast_None [OF assms]
    by (auto simp: check_types_def Let_def report_def split: option.splits)
qed

lemma check_types_result:
  assumes "check_types err swapped t u st = Some (r, t', u', st')" and "scalar t" and "scalar u"
  shows "store st' = store st \<and> (\<not> r \<longrightarrow> larger plain_below t u = Some t' \<and> u' = t' \<and> st' = st)"
proof -
  have "store st' = store st"
    using assms(1) by (auto simp: check_types_def Let_def report_def bind_eq_Some_conv split: if_splits)
  then show ?thesis
    using check_types_cases [OF assms(2,3), of err swapped st] assms(1) by (auto split: option.splits)
qed

lemma typing_cas: "typing env calls (cas_STATEMENT val branches e) = Some t \<longleftrightarrow>
    (\<exists>wanted cs ts u. (case val of None \<Rightarrow> Some BOOLEAN_VALUE | Some v \<Rightarrow> typing env calls v) = Some wanted
       \<and> map (\<lambda>b. typing env calls (fst b)) branches = map Some cs
       \<and> map (\<lambda>b. typing env calls (snd b)) branches @ (case e of None \<Rightarrow> [] | Some e \<Rightarrow> [typing env calls e]) = map Some ts
       \<and> wanted \<noteq> BOOLEAN_OR_STRING_LITERAL \<and> cs \<noteq> [] \<and> greatest plain_below (wanted # cs) \<noteq> None
       \<and> greatest plain_below ts = Some u \<and> t = fix_string u)"
proof -
  have those: "those xs = Some ts \<longleftrightarrow> xs = map Some ts" for xs :: "SqlValueType option list" and ts
    using those_map_Some [of id xs ts] by simp
  have val: "(case map_option (typing env calls) val of None \<Rightarrow> Some BOOLEAN_VALUE | Some t \<Rightarrow> t)
      = (case val of None \<Rightarrow> Some BOOLEAN_VALUE | Some v \<Rightarrow> typing env calls v)"
    by (cases val) simp_all
  show ?thesis
    unfolding typing.simps case_type_def val by (auto simp: bind_eq_Some_conv those)
qed

definition branch_refs :: "(SqlStatement \<times> SqlStatement) list \<Rightarrow> string set" where
  "branch_refs branches = \<Union> (refs ` fst ` set branches) \<union> \<Union> (refs ` snd ` set branches)"

definition branch_called :: "(SqlStatement \<times> SqlStatement) list \<Rightarrow> string set" where
  "branch_called branches = \<Union> (called ` fst ` set branches) \<union> \<Union> (called ` snd ` set branches)"

context constraint_recursion
begin

lemma fix_condition_sound:
  assumes "fix_condition q wanted t v st = Some (t', v', st')" and "parsed v" and "good_store (store st)" and "typing env calls v = Some t" and "scalar t"
  shows "good_store (store st') \<and> typing env calls v' = Some t' \<and> revised v v' \<and> scalar t' \<and> noted_within (refs v) (called v) st st'"
proof (cases "t = BOOLEAN_OR_STRING_LITERAL \<and> (wanted = BOOLEAN_VALUE \<or> wanted = STRING_LITERAL)")
  case True
  then have f: "fix_operand q v t wanted st = Some (v', st')" "t' = wanted"
    using assms(1) by (auto simp: fix_condition_def)
  have "scalar wanted"
    using True by (auto simp: scalar_def scalar_types_def)
  with fix_operand_sound [OF f(1) assms(2,3)] True f(2) show ?thesis
    by (auto intro: noted_is_within)
next
  case False
  with assms show ?thesis
    by (auto simp: fix_condition_def intro: revised.same split: if_splits)
qed

text \<open>The condition of one branch.\<close>

lemma condition_sound:
  assumes q1: "q condition UNKNOWN_SqlValueType None st = Some (r1, t1, c1, st1)" and "\<not> r1"
    and fixed: "fix_condition q wanted t1 c1 st1 = Some (t2, c2, st2)" and check: "check_types err True wanted t2 st2 = Some (r3, w, t3, st3)"
    and "parsed condition" and "good_store (store st)" and "scalar wanted"
  shows "good_store (store st3) \<and> (\<not> r3 \<longrightarrow> typing env calls c2 = Some t2 \<and> revised condition c2 \<and> larger plain_below wanted t2 = Some w \<and> t3 = w \<and> scalar w
    \<and> noted (refs condition) (called condition) st st3)"
proof -
  note q1' = q_accepted [OF q1 assms(2,5,6), simplified]
  note f = fix_condition_sound [OF fixed q1'(6,1,2,5), unfolded q1'(7,8)]
  have c: "store st3 = store st2 \<and> (\<not> r3 \<longrightarrow> larger plain_below wanted t2 = Some w \<and> t3 = w \<and> st3 = st2)"
    by (rule check_types_result [OF check assms(7)]) (use f in blast)
  have "revised condition c2"
    using q1'(3) f revised.trans by (auto simp: checked_def)
  moreover have "noted (refs condition) (called condition) st st2"
    by (rule noted_and_within [OF q1'(4)]) (use f in blast)
  ultimately show ?thesis
    using f c larger_scalar [of plain_below wanted t2 w] assms(7) by auto
qed

lemma branch_loop_sound:
  assumes "branch_loop q wanted t condition val branches st = Some (r, u, out, st')" and "parsed condition"
    and "\<forall>b\<in>set branches. parsed (fst b) \<and> parsed (snd b)" and "good_store (store st)" and "scalar wanted" and "scalar t"
  shows "good_store (store st') \<and> (\<not> r \<longrightarrow> (\<exists>c out' cs ts. out = (c, val) # out' \<and> revised condition c \<and> list_all2 (rel_prod revised revised) branches out'
    \<and> map (\<lambda>b. typing env calls (fst b)) out = map Some cs \<and> map (\<lambda>b. typing env calls (snd b)) out' = map Some ts
    \<and> greatest plain_below (wanted # cs) \<noteq> None \<and> greatest plain_below (t # ts) = Some u \<and> scalar u
    \<and> noted (refs condition \<union> branch_refs branches) (called condition \<union> branch_called branches) st st'
    \<and> (\<forall>us. map (\<lambda>b. typing env calls (snd b)) branches = map Some us \<longrightarrow> ts = us)))"
  using assms
proof (induction branches arbitrary: wanted t condition val st r u out)
  case Nil
  obtain r1 t1 c1 st1 where q1: "q condition UNKNOWN_SqlValueType None st = Some (r1, t1, c1, st1)"
    using Nil.prems(1) by (auto simp: bind_eq_Some_conv)
  have g1: "good_store (store st1)"
    using q_answer [OF q1 Nil.prems(2,4)] by (simp add: answer_def)
  show ?case
  proof (cases r1)
    case True
    with Nil.prems(1) q1 g1 show ?thesis by auto
  next
    case False
    obtain t2 c2 st2 r3 w t3 where s: "fix_condition q wanted t1 c1 st1 = Some (t2, c2, st2)"
        "check_types ERR_CASE_VALUE_TYPE_MISMATCH True wanted t2 st2 = Some (r3, w, t3, st')" "r = r3" "\<not> r3 \<Longrightarrow> u = t" "out = [(c2, val)]"
      using Nil.prems(1) q1 False by (auto simp: bind_eq_Some_conv split: if_splits)
    note c = condition_sound [OF q1 False s(1,2) Nil.prems(2,4,5)]
    show ?thesis
    proof (intro conjI impI)
      show "good_store (store st')"
        using c by blast
      assume "\<not> r"
      with c s(3) have c': "typing env calls c2 = Some t2" "revised condition c2" "larger plain_below wanted t2 = Some w"
          "noted (refs condition) (called condition) st st'"
        by simp_all
      from greatest_plain_larger [OF c'(3), of "[]" w] have "greatest plain_below [wanted, t2] = Some w"
        by simp
      with c' s(4,5) Nil.prems(6) \<open>\<not> r\<close> s(3) show "\<exists>c out' cs ts. out = (c, val) # out' \<and> revised condition c \<and> list_all2 (rel_prod revised revised) [] out'
          \<and> map (\<lambda>b. typing env calls (fst b)) out = map Some cs \<and> map (\<lambda>b. typing env calls (snd b)) out' = map Some ts
          \<and> greatest plain_below (wanted # cs) \<noteq> None \<and> greatest plain_below (t # ts) = Some u \<and> scalar u
          \<and> noted (refs condition \<union> branch_refs []) (called condition \<union> branch_called []) st st'
          \<and> (\<forall>us. map (\<lambda>b. typing env calls (snd b)) [] = map Some us \<longrightarrow> ts = us)"
        by (intro exI [of _ c2] exI [of _ "[]"] exI [of _ "[t2]"] exI [of _ "[]"]) (simp add: branch_refs_def branch_called_def)
    qed
  qed
next
  case (Cons b branches)
  obtain next_condition next_val where b: "b = (next_condition, next_val)"
    by fastforce
  have p: "parsed next_condition" "parsed next_val" "\<forall>b\<in>set branches. parsed (fst b) \<and> parsed (snd b)"
    using Cons.prems(3) b by auto
  obtain r1 t1 c1 st1 where q1: "q condition UNKNOWN_SqlValueType None st = Some (r1, t1, c1, st1)"
    using Cons.prems(1) by (auto simp: b bind_eq_Some_conv)
  have g1: "good_store (store st1)"
    using q_answer [OF q1 Cons.prems(2,4)] by (simp add: answer_def)
  show ?case
  proof (cases r1)
    case True
    with Cons.prems(1) q1 g1 show ?thesis by (auto simp: b)
  next
    case r1: False
    have known: "t1 \<noteq> UNKNOWN_SqlValueType"
      using Cons.prems(1) q1 r1 by (auto simp: b)
    obtain t2 c2 st2 r3 w t3 st3 where s: "fix_condition q wanted t1 c1 st1 = Some (t2, c2, st2)"
        "check_types ERR_CASE_VALUE_TYPE_MISMATCH True wanted t2 st2 = Some (r3, w, t3, st3)"
      using Cons.prems(1) q1 r1 known by (auto simp: b bind_eq_Some_conv)
    note c = condition_sound [OF q1 r1 s Cons.prems(2,4,5)]
    have g3: "good_store (store st3)"
      using c by blast
    show ?thesis
    proof (cases r3)
      case True
      with Cons.prems(1) q1 r1 known s g3 show ?thesis by (simp add: b)
    next
      case r3: False
      obtain r4 t4 v4 st4 where q4: "q next_val t3 None st3 = Some (r4, t4, v4, st4)"
        using Cons.prems(1) q1 r1 known s r3 by (auto simp: b bind_eq_Some_conv)
      have g4: "good_store (store st4)"
        using q_answer [OF q4 p(2) g3] by (simp add: answer_def)
      show ?thesis
      proof (cases r4)
        case True
        with Cons.prems(1) q1 r1 known s r3 q4 g4 show ?thesis by (simp add: b)
      next
        case r4: False
        note q4' = q_accepted [OF q4 r4 p(2) g3, simplified]
        obtain r5 t5 t6 st5 where v: "check_types ERR_CASE_BRANCH_TYPE_MISMATCH False t t4 st4 = Some (r5, t5, t6, st5)"
          using Cons.prems(1) q1 r1 known s r3 q4 r4 by (auto simp: b bind_eq_Some_conv)
        note v' = check_types_result [OF v Cons.prems(6) q4'(5)]
        show ?thesis
        proof (cases r5)
          case True
          with Cons.prems(1) q1 r1 known s r3 q4 r4 v v' g4 show ?thesis by (simp add: b)
        next
          case r5: False
          with v' have lv: "larger plain_below t t4 = Some t5" "st5 = st4"
            by simp_all
          obtain out1 where rest: "branch_loop q w t5 next_condition v4 branches st5 = Some (r, u, out1, st')" "out = (c2, val) # out1"
            using Cons.prems(1) q1 r1 known s r3 q4 r4 v r5 by (auto simp: b bind_eq_Some_conv)
          have sc: "scalar w" "scalar t5"
            using c r3 larger_scalar [OF lv(1) Cons.prems(6) q4'(5)] by simp_all
          note IH = Cons.IH [OF rest(1) p(1,3) _ sc, unfolded lv(2), OF g4]
          show ?thesis
          proof (intro conjI impI)
            show "good_store (store st')"
              using IH by blast
            assume "\<not> r"
            with IH obtain c3 out' cs ts where o: "out1 = (c3, v4) # out'" "revised next_condition c3" "list_all2 (rel_prod revised revised) branches out'"
                "map (\<lambda>b. typing env calls (fst b)) out1 = map Some cs" "map (\<lambda>b. typing env calls (snd b)) out' = map Some ts"
                "greatest plain_below (w # cs) \<noteq> None" "greatest plain_below (t5 # ts) = Some u" "scalar u"
                "noted (refs next_condition \<union> branch_refs branches) (called next_condition \<union> branch_called branches) st4 st'"
                and again: "\<And>us. map (\<lambda>b. typing env calls (snd b)) branches = map Some us \<Longrightarrow> ts = us"
              by blast
            have c': "typing env calls c2 = Some t2" "revised condition c2" "larger plain_below wanted t2 = Some w"
                "noted (refs condition) (called condition) st st3"
              using c r3 by simp_all
            have noting: "noted (refs condition \<union> branch_refs (b # branches)) (called condition \<union> branch_called (b # branches)) st st'"
              using noted_trans [OF noted_trans [OF c'(4) q4'(4)] o(9)]
              by (simp add: b branch_refs_def branch_called_def Un_assoc Un_left_commute Un_commute)
            have vals: "t4 # ts = us" if "map (\<lambda>b. typing env calls (snd b)) (b # branches) = map Some us" for us
              using that again q4'(2,3) by (cases us) (auto simp: b checked_def)
            show "\<exists>c out' cs ts. out = (c, val) # out' \<and> revised condition c \<and> list_all2 (rel_prod revised revised) (b # branches) out'
                \<and> map (\<lambda>b. typing env calls (fst b)) out = map Some cs \<and> map (\<lambda>b. typing env calls (snd b)) out' = map Some ts
                \<and> greatest plain_below (wanted # cs) \<noteq> None \<and> greatest plain_below (t # ts) = Some u \<and> scalar u
                \<and> noted (refs condition \<union> branch_refs (b # branches)) (called condition \<union> branch_called (b # branches)) st st'
                \<and> (\<forall>us. map (\<lambda>b. typing env calls (snd b)) (b # branches) = map Some us \<longrightarrow> ts = us)"
              using o c' rest(2) noting vals q4'(2,3) greatest_plain_larger [OF c'(3), of cs] greatest_plain_larger [OF lv(1), of ts]
              by (intro exI [of _ c2] exI [of _ out1] exI [of _ "t2 # cs"] exI [of _ "t4 # ts"]) (auto simp: b checked_def)
          qed
        qed
      qed
    qed
  qed
qed

end
definition optional_refs :: "SqlStatement option \<Rightarrow> string set" where
  "optional_refs e = \<Union> (refs ` set_option e)"

definition optional_called :: "SqlStatement option \<Rightarrow> string set" where
  "optional_called e = \<Union> (called ` set_option e)"

lemma optional_simps [simp]:
  "optional_refs None = {}" "optional_refs (Some v) = refs v" "optional_called None = {}" "optional_called (Some v) = called v"
  by (simp_all add: optional_refs_def optional_called_def)

lemma branch_simps [simp]:
  "branch_refs (b # branches) = refs (fst b) \<union> refs (snd b) \<union> branch_refs branches"
  "branch_called (b # branches) = called (fst b) \<union> called (snd b) \<union> branch_called branches"
  by (auto simp: branch_refs_def branch_called_def)

lemma cas_refs: "refs (cas_STATEMENT val branches e) = optional_refs val \<union> branch_refs branches \<union> optional_refs e"
  "called (cas_STATEMENT val branches e) = optional_called val \<union> branch_called branches \<union> optional_called e"
  by (auto simp: branch_refs_def branch_called_def optional_refs_def optional_called_def)

context constraint_recursion
begin

lemma branches_sound:
  assumes "qualify_branches q branches wanted st = Some (r, u, out, st')" and "\<forall>b\<in>set branches. parsed (fst b) \<and> parsed (snd b)"
    and "good_store (store st)" and "scalar wanted"
  shows "good_store (store st') \<and> (\<not> r \<longrightarrow> (\<exists>cs ts. list_all2 (rel_prod revised revised) branches out
    \<and> map (\<lambda>b. typing env calls (fst b)) out = map Some cs \<and> map (\<lambda>b. typing env calls (snd b)) out = map Some ts
    \<and> cs \<noteq> [] \<and> greatest plain_below (wanted # cs) \<noteq> None \<and> greatest plain_below ts = Some u \<and> scalar u
    \<and> noted (branch_refs branches) (branch_called branches) st st'
    \<and> (\<forall>us. map (\<lambda>b. typing env calls (snd b)) branches = map Some us \<longrightarrow> ts = us)))"
proof -
  obtain condition val rest where branches: "branches = (condition, val) # rest"
    using assms(1) by (cases branches) (auto simp: qualify_branches_def)
  have p: "parsed condition" "parsed val" "\<forall>b\<in>set rest. parsed (fst b) \<and> parsed (snd b)"
    using assms(2) branches by auto
  have known: "wanted \<noteq> UNKNOWN_SqlValueType"
    using assms(4) by (auto simp: scalar_def scalar_types_def)
  obtain r1 t v1 st1 where q1: "q val UNKNOWN_SqlValueType None st = Some (r1, t, v1, st1)"
    using assms(1) known by (auto simp: branches qualify_branches_def bind_eq_Some_conv)
  have g1: "good_store (store st1)"
    using q_answer [OF q1 p(2) assms(3)] by (simp add: answer_def)
  show ?thesis
  proof (cases r1)
    case True
    with assms(1) q1 g1 known show ?thesis by (auto simp: branches qualify_branches_def)
  next
    case False
    note q1' = q_accepted [OF q1 False p(2) assms(3), simplified]
    have loop: "branch_loop q wanted t condition v1 rest st1 = Some (r, u, out, st')"
      using assms(1) q1 False known by (auto simp: branches qualify_branches_def)
    note l = branch_loop_sound [OF loop p(1,3) g1 assms(4) q1'(5)]
    show ?thesis
    proof (intro conjI impI)
      show "good_store (store st')"
        using l by blast
      assume "\<not> r"
      with l obtain c out' cs ts where o: "out = (c, v1) # out'" "revised condition c" "list_all2 (rel_prod revised revised) rest out'"
          "map (\<lambda>b. typing env calls (fst b)) out = map Some cs" "map (\<lambda>b. typing env calls (snd b)) out' = map Some ts"
          "greatest plain_below (wanted # cs) \<noteq> None" "greatest plain_below (t # ts) = Some u" "scalar u"
          "noted (refs condition \<union> branch_refs rest) (called condition \<union> branch_called rest) st1 st'"
          and again: "\<And>us. map (\<lambda>b. typing env calls (snd b)) rest = map Some us \<Longrightarrow> ts = us"
        by blast
      have noting: "noted (branch_refs branches) (branch_called branches) st st'"
        using noted_trans [OF q1'(4) o(9)] by (simp add: branches Un_ac)
      have vals: "t # ts = us" if "map (\<lambda>b. typing env calls (snd b)) branches = map Some us" for us
        using that again q1'(2,3) by (cases us) (auto simp: branches checked_def)
      show "\<exists>cs ts. list_all2 (rel_prod revised revised) branches out
          \<and> map (\<lambda>b. typing env calls (fst b)) out = map Some cs \<and> map (\<lambda>b. typing env calls (snd b)) out = map Some ts
          \<and> cs \<noteq> [] \<and> greatest plain_below (wanted # cs) \<noteq> None \<and> greatest plain_below ts = Some u \<and> scalar u
          \<and> noted (branch_refs branches) (branch_called branches) st st'
          \<and> (\<forall>us. map (\<lambda>b. typing env calls (snd b)) branches = map Some us \<longrightarrow> ts = us)"
        using o noting vals q1'(2,3) by (intro exI [of _ cs] exI [of _ "t # ts"]) (auto simp: branches checked_def)
    qed
  qed
qed

lemma case_value_sound:
  assumes "case_value q val type st = Some (r, u, val', st')" and "\<forall>v\<in>set_option val. parsed v" and "good_store (store st)"
  shows "good_store (store st') \<and> (\<not> r \<longrightarrow> rel_option revised val val' \<and> settled u
    \<and> (case val' of None \<Rightarrow> Some BOOLEAN_VALUE | Some v \<Rightarrow> typing env calls v) = Some u
    \<and> noted (optional_refs val) (optional_called val) st st')"
proof (cases val)
  case None
  with assms show ?thesis
    by (auto simp: case_value_def settled_cases)
next
  case (Some v)
  then have p: "parsed v"
    using assms(2) by simp
  obtain r1 t v1 st1 where q1: "q v type None st = Some (r1, t, v1, st1)"
    using assms(1) Some by (auto simp: case_value_def bind_eq_Some_conv)
  have g1: "good_store (store st1)"
    using q_answer [OF q1 p assms(3)] by (simp add: answer_def)
  show ?thesis
  proof (cases r1)
    case True
    with assms(1) Some q1 g1 show ?thesis by (auto simp: case_value_def)
  next
    case False
    note q1' = q_accepted [OF q1 False p assms(3), simplified]
    show ?thesis
    proof (cases "t = BOOLEAN_OR_STRING_LITERAL")
      case True
      then obtain v2 where f: "fix_operand q v1 t STRING_LITERAL st1 = Some (v2, st')" "\<not> r" "u = STRING_LITERAL" "val' = Some v2"
        using assms(1) Some q1 False by (auto simp: case_value_def)
      note f' = fix_operand_sound [OF f(1) q1'(6,1), unfolded q1'(7,8), simplified]
      have "revised v v2"
        using q1'(3) f' revised.trans by (auto simp: checked_def)
      with f f' Some noted_again [OF q1'(4)] show ?thesis
        by (auto simp: settled_cases)
    next
      case no: False
      with assms(1) Some q1 False have "\<not> r" "u = t" "val' = Some v1" "st' = st1"
        by (auto simp: case_value_def)
      with q1' no Some show ?thesis
        by (auto simp: settled_iff checked_def)
    qed
  qed
qed

lemma case_else_sound:
  assumes "case_else q e t st = Some (r, u, e', st')" and "\<forall>v\<in>set_option e. parsed v" and "good_store (store st)"
    and "greatest plain_below ts = Some t" and "scalar t"
  shows "good_store (store st') \<and> (\<not> r \<longrightarrow> rel_option revised e e' \<and> scalar u
    \<and> (\<exists>us. (case e' of None \<Rightarrow> [] | Some v \<Rightarrow> [typing env calls v]) = map Some us \<and> greatest plain_below (ts @ us) = Some u
        \<and> (\<forall>xs. (case e of None \<Rightarrow> [] | Some v \<Rightarrow> [typing env calls v]) = map Some xs \<longrightarrow> us = xs))
    \<and> noted (optional_refs e) (optional_called e) st st')"
proof (cases e)
  case None
  with assms show ?thesis
    by (auto simp: case_else_def)
next
  case (Some v)
  then have p: "parsed v"
    using assms(2) by simp
  obtain r1 t1 v1 st1 where q1: "q v UNKNOWN_SqlValueType None st = Some (r1, t1, v1, st1)"
    using assms(1) Some by (auto simp: case_else_def bind_eq_Some_conv)
  have g1: "good_store (store st1)"
    using q_answer [OF q1 p assms(3)] by (simp add: answer_def)
  show ?thesis
  proof (cases r1)
    case True
    with assms(1) Some q1 g1 show ?thesis by (auto simp: case_else_def)
  next
    case False
    note q1' = q_accepted [OF q1 False p assms(3), simplified]
    obtain x where c: "check_types ERR_CASE_BRANCH_TYPE_MISMATCH False t t1 st1 = Some (r, u, x, st')" "e' = Some v1"
      using assms(1) Some q1 False by (auto simp: case_else_def bind_eq_Some_conv)
    note c' = check_types_result [OF c(1) assms(5) q1'(5)]
    show ?thesis
    proof (intro conjI impI)
      show "good_store (store st')"
        using c' g1 by simp
      assume "\<not> r"
      with c' have l: "larger plain_below t t1 = Some u" "st' = st1"
        by simp_all
      show "scalar u"
        using larger_scalar [OF l(1) assms(5) q1'(5)] .
      show "rel_option revised e e'"
        using Some c(2) q1'(3) by (simp add: checked_def)
      show "noted (optional_refs e) (optional_called e) st st'"
        using Some q1'(4) l(2) by simp
      show "\<exists>us. (case e' of None \<Rightarrow> [] | Some v \<Rightarrow> [typing env calls v]) = map Some us \<and> greatest plain_below (ts @ us) = Some u
          \<and> (\<forall>xs. (case e of None \<Rightarrow> [] | Some v \<Rightarrow> [typing env calls v]) = map Some xs \<longrightarrow> us = xs)"
        using Some c(2) q1'(2,3) greatest_plain_snoc [OF assms(4) l(1)] by (intro exI [of _ "[t1]"]) (auto simp: checked_def)
    qed
  qed
qed

end

text \<open>Values that may all be booleans are fixed to strings.\<close>

lemma fixed_to_plain:
  assumes "map (typing env calls) vs = map Some ts" and "greatest plain_below ts = Some BOOLEAN_OR_STRING_LITERAL"
  shows "\<forall>v\<in>set vs. fixed_to env calls f v"
proof
  fix v assume "v \<in> set vs"
  then obtain t where t: "typing env calls v = Some t" "t \<in> set ts"
    using assms(1) by (metis (no_types, lifting) image_iff list.set_map)
  with assms(2) have "plain_below t BOOLEAN_OR_STRING_LITERAL"
    unfolding greatest_plain_below by blast
  with t(1) show "fixed_to env calls f v"
    by (auto simp: fixed_to_def plain_below_def textual_def)
qed

lemma fixed_to_greatest:
  assumes "\<forall>v\<in>set vs. fixed_to env calls STRING_LITERAL v" and "\<exists>v\<in>set vs. typing env calls v \<in> {Some BOOLEAN_OR_STRING_LITERAL, Some STRING_LITERAL}"
  shows "\<exists>ts u. map (typing env calls) vs = map Some ts \<and> greatest plain_below ts = Some u \<and> fix_string u = STRING_LITERAL"
proof -
  define ts where "ts = map (the \<circ> typing env calls) vs"
  have ts: "map (typing env calls) vs = map Some ts"
    using assms(1) by (auto simp: ts_def fixed_to_def)
  have all: "\<forall>t\<in>set ts. t = NUL_VALUE \<or> t = BOOLEAN_OR_STRING_LITERAL \<or> t = STRING_LITERAL"
    using assms(1) by (auto simp: ts_def fixed_to_def)
  have one: "BOOLEAN_OR_STRING_LITERAL \<in> set ts \<or> STRING_LITERAL \<in> set ts"
    using assms(2) by (force simp: ts_def)
  define u where "u = (if STRING_LITERAL \<in> set ts then STRING_LITERAL else BOOLEAN_OR_STRING_LITERAL)"
  have "greatest plain_below ts = Some u"
    unfolding greatest_plain_below using all one by (auto simp: u_def plain_below_def textual_def)
  moreover have "fix_string u = STRING_LITERAL"
    by (simp add: u_def fix_string_def)
  ultimately show ?thesis
    using ts by blast
qed

lemma ambiguous_member: "greatest plain_below ts = Some BOOLEAN_OR_STRING_LITERAL \<Longrightarrow> BOOLEAN_OR_STRING_LITERAL \<in> set ts"
  unfolding greatest_plain_below by simp
definition optional_list :: "'a option \<Rightarrow> 'a list" where
  "optional_list e = (case e of None \<Rightarrow> [] | Some v \<Rightarrow> [v])"

lemma map_optional: "map f (optional_list e) = (case e of None \<Rightarrow> [] | Some v \<Rightarrow> [f v])"
  by (cases e) (simp_all add: optional_list_def)

context constraint_recursion
begin

lemma case_fix_sound:
  assumes "case_fix q branches e st = Some (branches', e', st')" and "\<forall>b\<in>set branches. parsed (snd b)" and "\<forall>v\<in>set_option e. parsed v"
    and "good_store (store st)" and "map (typing env calls) (map snd branches @ optional_list e) = map Some ts"
    and "greatest plain_below ts = Some BOOLEAN_OR_STRING_LITERAL"
  shows "good_store (store st') \<and> map fst branches' = map fst branches \<and> list_all2 revised (map snd branches) (map snd branches')
    \<and> rel_option revised e e' \<and> noted_within (branch_refs branches \<union> optional_refs e) (branch_called branches \<union> optional_called e) st st'
    \<and> (\<exists>us u. map (typing env calls) (map snd branches' @ optional_list e') = map Some us \<and> greatest plain_below us = Some u \<and> fix_string u = STRING_LITERAL)"
proof -
  obtain vals st1 where l: "fix_loop q STRING_LITERAL (map snd branches) UNKNOWN_SqlValueType st = Some (vals, st1)"
    using assms(1) by (auto simp: case_fix_def bind_eq_Some_conv)
  have "\<forall>v\<in>set (map snd branches). parsed v"
    using assms(2) by auto
  note l' = fix_loop_sound [OF l this assms(4), simplified]
  have len: "length vals = length branches"
    using l' by (auto dest: list_all2_lengthD)
  have e: "good_store (store st') \<and> branches' = zip (map fst branches) vals \<and> list_all2 (checked env calls (Some STRING_LITERAL)) (optional_list e) (optional_list e')
      \<and> rel_option revised e e' \<and> noted (optional_refs e) (optional_called e) st1 st'"
  proof (cases e)
    case None
    with assms(1) l l' show ?thesis by (auto simp: case_fix_def optional_list_def)
  next
    case (Some v)
    then obtain t v' where q1: "q v UNKNOWN_SqlValueType (Some STRING_LITERAL) st1 = Some (False, t, v', st')" "e' = Some v'"
        "branches' = zip (map fst branches) vals"
      using assms(1) l by (auto simp: case_fix_def Let_def bind_eq_Some_conv split: if_splits)
    have "parsed v" "good_store (store st1)"
      using assms(3) Some l' by simp_all
    from q_accepted [OF q1(1) _ this] Some q1(2,3) show ?thesis
      by (simp add: optional_list_def checked_def)
  qed
  have b: "map fst branches' = map fst branches" "map snd branches' = vals"
    using e len by simp_all
  have checked: "list_all2 (checked env calls (Some STRING_LITERAL)) (map snd branches @ optional_list e) (map snd branches' @ optional_list e')"
    using l' e b(2) by (simp add: list_all2_appendI)
  have "\<exists>v\<in>set (map snd branches' @ optional_list e'). typing env calls v \<in> {Some BOOLEAN_OR_STRING_LITERAL, Some STRING_LITERAL}"
  proof -
    have "\<exists>v\<in>set (map snd branches @ optional_list e). typing env calls v = Some BOOLEAN_OR_STRING_LITERAL"
    proof -
      have "Some BOOLEAN_OR_STRING_LITERAL \<in> set (map (typing env calls) (map snd branches @ optional_list e))"
        unfolding assms(5) using ambiguous_member [OF assms(6)] by simp
      then show ?thesis
        unfolding set_map by force
    qed
    moreover have "list_all2 (checked env calls (Some STRING_LITERAL)) vs vs' \<Longrightarrow> \<exists>v\<in>set vs. typing env calls v = Some BOOLEAN_OR_STRING_LITERAL \<Longrightarrow>
        \<exists>v\<in>set vs'. typing env calls v \<in> {Some BOOLEAN_OR_STRING_LITERAL, Some STRING_LITERAL}" for vs vs'
      by (induction rule: list_all2_induct) (auto simp: checked_def)
    ultimately show ?thesis
      using checked by blast
  qed
  moreover have "\<forall>v\<in>set (map snd branches' @ optional_list e'). fixed_to env calls STRING_LITERAL v"
    by (rule fixed_to_checked [OF checked fixed_to_plain [OF assms(5,6)]])
  ultimately have "\<exists>us u. map (typing env calls) (map snd branches' @ optional_list e') = map Some us \<and> greatest plain_below us = Some u \<and> fix_string u = STRING_LITERAL"
    by (intro fixed_to_greatest)
  moreover have "noted_within (branch_refs branches \<union> optional_refs e) (branch_called branches \<union> optional_called e) st st'"
  proof (rule noted_within_trans)
    show "noted_within (branch_refs branches \<union> optional_refs e) (branch_called branches \<union> optional_called e) st st1"
      using l' by (auto intro: noted_is_within simp: branch_refs_def branch_called_def image_image)
    show "noted_within (branch_refs branches \<union> optional_refs e) (branch_called branches \<union> optional_called e) st1 st'"
      using e by (auto intro: noted_is_within)
  qed
  moreover have "list_all2 revised (map snd branches) (map snd branches')"
    unfolding b(2) using l' checked_revised by blast
  ultimately show ?thesis
    using e b(1) by simp
qed

lemma revised_branches:
  "map fst branches' = map fst branches \<Longrightarrow> list_all2 revised (map snd branches) (map snd branches') \<Longrightarrow> list_all2 (rel_prod revised revised) branches branches'"
  by (auto simp: list_all2_conv_all_nth rel_prod_sel list_eq_iff_nth_eq intro: revised.same)

lemma case_sound:
  assumes "qualify_case q val branches e type st = Some (r, u, v', st')" and "parsed (cas_STATEMENT val branches e)" and "good_store (store st)"
  shows "answer env calls good_store (cas_STATEMENT val branches e) fix_type st r u v' st'"
proof -
  have p: "\<forall>v\<in>set_option val. parsed v" "\<forall>b\<in>set branches. parsed (fst b) \<and> parsed (snd b)" "\<forall>v\<in>set_option e. parsed v"
    using assms(2) by simp_all
  obtain r1 wanted val1 st1 where q1: "case_value q val type st = Some (r1, wanted, val1, st1)"
    using assms(1) by (auto simp: qualify_case_def bind_eq_Some_conv)
  note s1 = case_value_sound [OF q1 p(1) assms(3)]
  show ?thesis
  proof (cases r1)
    case True
    with assms(1) q1 s1 show ?thesis by (auto simp: qualify_case_def answer_def)
  next
    case r1: False
    obtain r2 t2 branches2 st2 where q2: "qualify_branches q branches wanted st1 = Some (r2, t2, branches2, st2)"
      using assms(1) q1 r1 by (auto simp: qualify_case_def bind_eq_Some_conv)
    have "scalar wanted"
      using s1 r1 by (simp add: settled_iff)
    note s2 = branches_sound [OF q2 p(2) conjunct1 [OF s1] this]
    show ?thesis
    proof (cases r2)
      case True
      with assms(1) q1 r1 q2 s2 show ?thesis by (auto simp: qualify_case_def answer_def)
    next
      case r2: False
      with s2 obtain cs ts where b: "list_all2 (rel_prod revised revised) branches branches2"
          "map (\<lambda>b. typing env calls (fst b)) branches2 = map Some cs" "map (\<lambda>b. typing env calls (snd b)) branches2 = map Some ts"
          "cs \<noteq> []" "greatest plain_below (wanted # cs) \<noteq> None" "greatest plain_below ts = Some t2" "scalar t2"
          "noted (branch_refs branches) (branch_called branches) st1 st2"
          "\<And>us. map (\<lambda>b. typing env calls (snd b)) branches = map Some us \<Longrightarrow> ts = us"
        by blast
      obtain r3 t3 e3 st3 where q3: "case_else q e t2 st2 = Some (r3, t3, e3, st3)"
        using assms(1) q1 r1 q2 r2 by (auto simp: qualify_case_def bind_eq_Some_conv)
      note s3 = case_else_sound [OF q3 p(3) conjunct1 [OF s2] b(6,7)]
      show ?thesis
      proof (cases r3)
        case True
        with assms(1) q1 r1 q2 r2 q3 s3 show ?thesis by (auto simp: qualify_case_def answer_def)
      next
        case r3: False
        with s3 obtain us where el: "rel_option revised e e3" "scalar t3" "map (typing env calls) (optional_list e3) = map Some us"
            "greatest plain_below (ts @ us) = Some t3" "noted (optional_refs e) (optional_called e) st2 st3"
            "\<And>xs. map (typing env calls) (optional_list e) = map Some xs \<Longrightarrow> us = xs"
          unfolding map_optional by blast
        have noting: "noted (refs (cas_STATEMENT val branches e)) (called (cas_STATEMENT val branches e)) st st3"
          unfolding cas_refs using noted_trans [OF noted_trans [OF _ b(8)] el(5)] s1 r1 by blast
        have vals: "map (typing env calls) (map snd branches2 @ optional_list e3) = map Some (ts @ us)"
          using b(3) el(3) by (simp add: comp_def)
        have again: "t = fix_string t3" if t: "typing env calls (cas_STATEMENT val branches e) = Some t" for t
        proof -
          obtain xs x where x: "map (\<lambda>b. typing env calls (snd b)) branches @ map (typing env calls) (optional_list e) = map Some xs"
              "greatest plain_below xs = Some x" "t = fix_string x"
            using t unfolding typing_cas map_optional by blast
          then obtain ys zs where "map (\<lambda>b. typing env calls (snd b)) branches = map Some ys" "map (typing env calls) (optional_list e) = map Some zs" "xs = ys @ zs"
            by (auto simp: append_eq_map_conv map_eq_append_conv)
          with b(9) el(4,6) x(2,3) show ?thesis by simp
        qed
        have typed: "typing env calls (cas_STATEMENT val1 branches' e') = Some (fix_string x)"
          if "map fst branches' = map fst branches2" "map (typing env calls) (map snd branches' @ optional_list e') = map Some xs"
            "greatest plain_below xs = Some x" for branches' e' xs x
        proof -
          have "map (typing env calls) (map fst branches') = map (typing env calls) (map fst branches2)"
            by (simp only: that(1))
          with b(2) have "map (\<lambda>b. typing env calls (fst b)) branches' = map Some cs"
            by (simp add: comp_def)
          moreover have "map (\<lambda>b. typing env calls (snd b)) branches' @ (case e' of None \<Rightarrow> [] | Some v \<Rightarrow> [typing env calls v]) = map Some xs"
            using that(2) by (simp add: map_optional [symmetric] comp_def)
          ultimately show ?thesis
            unfolding typing_cas using that(3) b(4,5) s1 r1 by (auto simp: settled_iff)
        qed
        show ?thesis
        proof (cases "t3 = BOOLEAN_OR_STRING_LITERAL")
          case no: False
          then have eq: "\<not> r" "u = t3" "v' = cas_STATEMENT val1 branches2 e3" "st' = st3"
            using assms(1) q1 r1 q2 r2 q3 r3 by (auto simp: qualify_case_def split: if_splits)
          have same: "fix_string t3 = t3"
            using no by (simp add: fix_string_def)
          have ty: "typing env calls v' = Some t3"
            using typed [OF refl vals el(4)] same eq(3) by simp
          have "revised (cas_STATEMENT val branches e) v'"
            unfolding eq(3) using s1 r1 b(1) el(1) by (intro revised.cas) simp_all
          then have "checked env calls fix_type (cas_STATEMENT val branches e) v'"
            using ty el(2) again same unfolding checked_def by auto
          with ty noting eq s3 show ?thesis
            unfolding answer_def by simp
        next
          case yes: True
          then obtain branches4 e4 where f: "case_fix q branches2 e3 st3 = Some (branches4, e4, st')" "\<not> r" "u = STRING_LITERAL"
              "v' = cas_STATEMENT val1 branches4 e4"
            using assms(1) q1 r1 q2 r2 q3 r3 by (auto simp: qualify_case_def bind_eq_Some_conv split: if_splits)
          have "kept (cas_STATEMENT val branches e) (cas_STATEMENT val1 branches2 e3)"
            by (rule revised_kept) (use s1 r1 b(1) el(1) in \<open>intro revised.cas; simp\<close>)
          then have kept: "parsed (cas_STATEMENT val1 branches2 e3)"
              "refs (cas_STATEMENT val1 branches2 e3) = refs (cas_STATEMENT val branches e)"
              "called (cas_STATEMENT val1 branches2 e3) = called (cas_STATEMENT val branches e)"
            using assms(2) unfolding kept_def by blast+
          from kept(1) have k: "\<forall>b\<in>set branches2. parsed (snd b)" "\<forall>v\<in>set_option e3. parsed v"
            by simp_all
          note f' = case_fix_sound [OF f(1) k(1,2) conjunct1 [OF s3] vals el(4) [unfolded yes]]
          obtain xs x where x: "map (typing env calls) (map snd branches4 @ optional_list e4) = map Some xs" "greatest plain_below xs = Some x"
              "fix_string x = STRING_LITERAL"
            using f' by blast
          have ty: "typing env calls v' = Some STRING_LITERAL"
            using typed [OF _ x(1,2)] f' x(3) f(4) by simp
          have "list_all2 (rel_prod revised revised) branches2 branches4"
            using f' by (intro revised_branches) blast+
          then have "revised (cas_STATEMENT val1 branches2 e3) v'"
            unfolding f(4) using f' by (intro revised.cas) (auto intro: option.rel_refl revised.same)
          moreover have "revised (cas_STATEMENT val branches e) (cas_STATEMENT val1 branches2 e3)"
            using s1 r1 b(1) el(1) by (intro revised.cas) simp_all
          ultimately have "revised (cas_STATEMENT val branches e) v'"
            by (rule revised.trans [rotated])
          moreover have "scalar STRING_LITERAL" "fix_string t3 = STRING_LITERAL"
            using yes by (simp_all add: scalar_def scalar_types_def fix_string_def)
          ultimately have "checked env calls fix_type (cas_STATEMENT val branches e) v'"
            using ty again unfolding checked_def by auto
          moreover have "noted (refs (cas_STATEMENT val branches e)) (called (cas_STATEMENT val branches e)) st st'"
          proof (rule noted_and_within [OF noting])
            have "noted_within (refs (cas_STATEMENT val1 branches2 e3)) (called (cas_STATEMENT val1 branches2 e3)) st3 st'"
              using f' unfolding noted_within_def cas_refs by blast
            then show "noted_within (refs (cas_STATEMENT val branches e)) (called (cas_STATEMENT val branches e)) st3 st'"
              unfolding kept(2,3) .
          qed
          ultimately show ?thesis
            using ty f' f(2,3) unfolding answer_def by simp
        qed
      qed
    qed
  qed
qed

end
section \<open>The recursion\<close>

text \<open>One unfolding of the recursion, with a recursion that keeps the contract.\<close>

context call_typing
begin

lemma list_function_sound:
  assumes rec: "constraint_recursion env calls good_store q" and c: "c = coalesce_STATEMENT \<or> c = greatest_STATEMENT \<or> c = least_STATEMENT"
    and l: "qualify_list_function q c vs st = Some (r, u, v', st')" and "vs \<noteq> []" and "\<forall>v\<in>set vs. parsed v" and "good_store (store st)"
  shows "answer env calls good_store (c vs) fix_type st r u v' st'"
proof -
  obtain vs' where vs': "qualify_check_constraint_column_list q vs None True st = Some (r, u, vs', st')" "v' = c vs'"
    using l by (auto simp: qualify_list_function_def)
  note l = constraint_recursion.column_list_sound [OF rec vs'(1) assms(4-6)]
  have ty: "typing env calls (c ws) = common_type (map (typing env calls) ws)" for ws
    using c by auto
  have rev: "list_all2 revised vs vs' \<Longrightarrow> revised (c vs) (c vs')"
    using c by (auto intro: revised.intros)
  have marks: "refs (c vs) = \<Union> (refs ` set vs)" "called (c vs) = \<Union> (called ` set vs)"
    using c by auto
  from l rev show ?thesis
    unfolding answer_def checked_def ty marks vs'(2) by blast
qed

lemma coerce_sound:
  assumes "answer env calls good_store v None st r1 t v1 st1"
    and "(if r1 then Some (True, type, coerce_STATEMENT d (fix_string t) v1, st1)
      else map_option (\<lambda>u. (False, u, coerce_STATEMENT d (fix_string t) v1, st1)) (get_sqlvaluetype_from_sqldatatype d False)) = Some (r, u, v', st')"
  shows "answer env calls good_store (coerce_STATEMENT d p v) fix_type st r u v' st'"
proof (cases r1)
  case True
  with assms show ?thesis by (auto simp: answer_def)
next
  case False
  with assms(2) have e: "\<not> r" "get_sqlvaluetype_from_sqldatatype d False = Some u" "v' = coerce_STATEMENT d (fix_string t) v1" "st' = st1"
    by auto
  with assms(1) False column_type_scalar [OF e(2)] show ?thesis
    by (auto simp: answer_def checked_def intro: revised.coerced split: if_splits)
qed

lemma check_sound:
  assumes "qualify_check_constraint env v t fix_type st = Some (r, u, v', st')" and "parsed v" and "good_store (store st)" and "fix_type \<in> fix_types"
  shows "answer env calls good_store v fix_type st r u v' st'"
proof -
  let ?P = "\<lambda>e v t fix_type st (r, u, v', st'). e = env \<longrightarrow> parsed v \<longrightarrow> good_store (store st) \<longrightarrow> fix_type \<in> fix_types \<longrightarrow>
      answer env calls good_store v fix_type st r u v' st'"
  have "?P env v t fix_type st (r, u, v', st')"
  proof (rule qualify_check_constraint.raw_induct [where P = ?P, OF _ assms(1)], goal_cases)
    case (1 f e stmt type fix_type st y)
    obtain r u v' st' where y: "y = (r, u, v', st')"
      by (cases y) auto
    have "answer env calls good_store stmt fix_type st r u v' st'"
      if e: "e = env" and p: "parsed stmt" and good: "good_store (store st)" and fix_type: "fix_type \<in> fix_types"
    proof -
      let ?q = "\<lambda>v t x s. f env v t x s"
      note body = 1(2) [unfolded e y]
      have q: "answer env calls good_store v x s r1 u1 v1 s1" if "f env v t x s = Some (r1, u1, v1, s1)" "parsed v" "good_store (store s)" "x \<in> fix_types"
        for v t x s r1 u1 v1 s1
        using 1(1) [OF that(1)] that(2-4) by simp
      have rec: "constraint_recursion env calls good_store ?q"
        by unfold_locales (rule q)
      note list = list_function_sound [OF rec _ _ _ _ good]
      show ?thesis
      proof (cases stmt)
        case (value_STATEMENT t s i)
        with value_sound body p good fix_type show ?thesis by auto
      next
        case (coerce_STATEMENT d pre v)
        then obtain r1 t v1 st1 where q1: "f env v pre None st = Some (r1, t, v1, st1)"
          using body by (auto simp: bind_eq_Some_conv)
        have a: "answer env calls good_store v None st r1 t v1 st1"
          by (rule q [OF q1]) (use p good coerce_STATEMENT in simp_all)
        show ?thesis
          using coerce_sound [OF a] body q1 coerce_STATEMENT by simp
      next
        case (calculated_STATEMENT v)
        then obtain v1 where q1: "f env v type None st = Some (r, u, v1, st')" "v' = calculated_STATEMENT v1"
          using body by (auto simp: bind_eq_Some_conv)
        have "answer env calls good_store v None st r u v1 st'"
          by (rule q [OF q1(1)]) (use p good calculated_STATEMENT in simp_all)
        with q1(2) calculated_STATEMENT show ?thesis
          by (auto simp: answer_def checked_def intro: revised.calculated)
      next
        case (array_STATEMENT v)
        then obtain v1 where q1: "f env v type fix_type st = Some (r, u, v1, st')" "v' = array_STATEMENT v1"
          using body by (auto simp: bind_eq_Some_conv)
        have "answer env calls good_store v fix_type st r u v1 st'"
          by (rule q [OF q1(1)]) (use p good fix_type array_STATEMENT in simp_all)
        with q1(2) array_STATEMENT show ?thesis
          by (auto simp: answer_def checked_def intro: revised.array)
      next
        case (function_call_STATEMENT name vs)
        with constraint_recursion.call_sound [OF rec _ _ good] body p show ?thesis by simp
      next
        case (unary_STATEMENT op v)
        with constraint_recursion.unary_sound [OF rec _ _ good] body p show ?thesis by simp
      next
        case (binary_STATEMENT op v w dt)
        with constraint_recursion.binary_sound [OF rec _ _ good] body p show ?thesis by simp
      next
        case (coalesce_STATEMENT vs)
        with list [of coalesce_STATEMENT vs] body p show ?thesis by simp
      next
        case (greatest_STATEMENT vs)
        with list [of greatest_STATEMENT vs] body p show ?thesis by simp
      next
        case (least_STATEMENT vs)
        with list [of least_STATEMENT vs] body p show ?thesis by simp
      next
        case (null_if_STATEMENT v w)
        with constraint_recursion.null_if_sound [OF rec _ _ _ good] body p show ?thesis by simp
      next
        case (cas_STATEMENT val branches e)
        with constraint_recursion.case_sound [OF rec _ _ good] body p show ?thesis by simp
      qed (use body good in \<open>auto simp: answer_def report_def\<close>)
    qed
    with y show ?case by simp
  qed
  with assms(2-4) show ?thesis by simp
qed

end

end
