(* ===== verification/CheckSession.thy ===== *)
theory CheckSession
  imports CheckSound
begin

text \<open>
  The check of CHECK constraints with the functions of a session: the lookup of a call depends only on what is defined, so that the contract of
  \<open>CheckTyping\<close> holds for the store of \<open>FunctionStore\<close>, with the properties of the whole check that follow.
\<close>

section \<open>The check with the functions of a session\<close>

text \<open>The type of a call, from what is defined: the lookup on a store that never changes.\<close>

definition call_type :: "'s check_env \<Rightarrow> (string \<times> string \<Rightarrow> SqlFunction option) \<Rightarrow> string \<Rightarrow> SqlValueType list \<Rightarrow> SqlValueType option" where
  "call_type env defs name ts =
     do {
       (ret, m, _) \<leftarrow> function_definition_lookup (\<lambda>name h s. Some (defs (name, h), s)) (function_hash env) (hashes env name) name ts
                        (length (filter ambiguous ts)) ();
       if ret \<noteq> 0 \<or> num_matches m \<noteq> 1 then None else Option.bind (best_match m) returns
     }"

text \<open>Two lookups with the same result, the second of which leaves a good store.\<close>

definition agrees :: "('s \<Rightarrow> bool) \<Rightarrow> (int \<times> match_context \<times> unit) option \<Rightarrow> (int \<times> match_context \<times> 's) option \<Rightarrow> bool" where
  "agrees ok a b \<longleftrightarrow> (case a of None \<Rightarrow> b = None | Some (r, m, _) \<Rightarrow> \<exists>s. b = Some (r, m, s) \<and> ok s)"

lemma agrees_simps [simp]: "agrees ok None None" "agrees ok (Some (r, m, u)) (Some (r, m, s)) \<longleftrightarrow> ok s"
  by (simp_all add: agrees_def)

context function_store
begin

lemma prototype_loop_constant:
  assumes "inv s" and "defs s = D"
  shows "agrees (\<lambda>s. inv s \<and> defs s = D) (prototype_loop (\<lambda>name h s. Some (D (name, h), s)) name args hs m ()) (prototype_loop look name args hs m s)"
  using assms
proof (induction hs arbitrary: m s)
  case (Cons h hs)
  show ?case
  proof (cases h)
    case None
    with Cons.prems show ?thesis by simp
  next
    case (Some k)
    obtain s1 where s1: "look name k s = Some (D (name, k), s1)" "inv s1" "defs s1 = D"
      using look_step [OF Cons.prems(1)] Cons.prems(2) by metis
    show ?thesis
    proof (cases "D (name, k)")
      case None
      with Some s1 show ?thesis by simp
    next
      case f: (Some f)
      show ?thesis
        using Cons.IH [OF s1(2,3)] Some f s1 by (cases "parameters_match (parameter_types f) args") (simp_all add: Let_def)
    qed
  qed
qed simp

lemma lookup_constant:
  assumes "inv s" and "defs s = D"
  shows "agrees (\<lambda>s. inv s \<and> defs s = D) (function_definition_lookup (\<lambda>name h u. Some (D (name, h), u)) hash hs name args n ())
    (function_definition_lookup look hash hs name args n s)"
proof -
  obtain s1 where s1: "look name (hash name (hashed_types args)) s = Some (D (name, hash name (hashed_types args)), s1)" "inv s1" "defs s1 = D"
    using look_step [OF assms(1)] assms(2) by metis
  show ?thesis
    using prototype_loop_constant [OF s1(2,3), of name args hs] s1 by (simp add: function_definition_lookup_def Let_def)
qed

end

definition plain_type :: "SqlValueType \<Rightarrow> SqlValueType option \<Rightarrow> bool \<times> SqlValueType" where
  "plain_type t x = (False, t)"

lemma call_check_eq: "call_check env name ts others t s = function_call_data_type_check (look env) (function_hash env) (hashes env name) (max_parms env)
    plain_type name (ts @ replicate others UNKNOWN_SqlValueType) t s"
  by (simp add: call_check_def plain_type_def [abs_def])

lemma settled_argument: "settled t \<Longrightarrow> argument_type plain_type t = t"
  by (simp add: argument_type_def plain_type_def settled_def)

text \<open>An argument without a type is never counted.\<close>

lemma unknown_arguments: "argument_loop n plain_type name (ts @ UNKNOWN_SqlValueType # us) fc = Some fc' \<Longrightarrow> call_result fc' \<noteq> 0"
  by (induction ts arbitrary: fc) (auto simp: plain_type_def Let_def get_user_visible_type_string_def bind_eq_Some_conv split: if_splits)

context function_store
begin

lemma calls_typed:
  assumes env: "check_env.look env = look"
  shows "call_typing env (call_type env D) (\<lambda>s. inv s \<and> defs s = D)"
proof
  fix s ts name others t r u f errs s'
  assume s: "inv s \<and> defs s = D" and ts: "list_all settled ts" and c: "call_check env name ts others t s = Some (r, u, f, errs, s')"
  show "(inv s' \<and> defs s' = D) \<and> (r = 0 \<longrightarrow> errs = [] \<and> others = 0 \<and> call_type env D name ts = Some u)"
  proof -
    let ?parameters = "ts @ replicate others UNKNOWN_SqlValueType"
    have args: "map (argument_type plain_type) ts = ts"
      using ts by (auto simp: list_all_iff settled_argument intro: map_idI)
    obtain fc where fc: "argument_loop (max_parms env) plain_type name ?parameters (initial_call t ?parameters) = Some fc"
      using c by (auto simp: call_check_eq function_call_data_type_check_def initial_call_def bind_eq_Some_conv)
    note check = c [unfolded call_check_eq env function_call_data_type_check_def initial_call_def [symmetric] fc Option.bind.bind_lunit]
    show ?thesis
    proof (cases "call_result fc = 0")
      case False
      with check s show ?thesis by auto
    next
      case True
      then have others: "others = 0"
        using unknown_arguments [of "max_parms env" name ts "replicate (others - 1) UNKNOWN_SqlValueType" _ fc] fc by (cases others) auto
      have fc': "arg_types fc = ts" "ambiguous_args fc = length (filter ambiguous ts)"
        using argument_loop_types [OF fc True] args others by (simp_all add: initial_call_def)
      from check True fc' obtain ret m s1 where m: "function_definition_lookup look (function_hash env) (hashes env name) name ts (length (filter ambiguous ts)) s = Some (ret, m, s1)"
        by (auto simp: bind_eq_Some_conv)
      from lookup_constant [OF conjunct1 [OF s] conjunct2 [OF s], of "function_hash env" "hashes env name" name ts "length (filter ambiguous ts)"] m
      obtain v where const: "function_definition_lookup (\<lambda>name h u. Some (D (name, h), u)) (function_hash env) (hashes env name) name ts (length (filter ambiguous ts)) () = Some (ret, m, v)"
          and s1: "inv s1 \<and> defs s1 = D"
        by (auto simp: agrees_def split: option.splits)
      show ?thesis
        using check True fc' m s1 others const by (auto simp: call_type_def returns_def bind_eq_Some_conv split: if_splits)
    qed
  qed
next
  fix name ts u
  assume "call_type env D name ts = Some u"
  then show "settled u"
    using column_type_scalar by (auto simp: call_type_def returns_def settled_iff bind_eq_Some_conv split: if_splits)
qed

end
text \<open>The recursion keeps the contract, with any functions in the database.\<close>

interpretation session_calls: call_typing "env\<lparr>look := find_function (\<lambda>_. False) decompress True\<rparr>"
    "call_type (env\<lparr>look := find_function (\<lambda>_. False) decompress True\<rparr>) D"
    "\<lambda>s. wf_session decompress s \<and> (\<lambda>key. node_definition decompress (octo s key)) = D"
    for env :: "session check_env" and decompress D
  by (rule sessions.calls_typed) simp

interpretation checks: constraint_recursion "env\<lparr>look := find_function (\<lambda>_. False) decompress True\<rparr>"
    "call_type (env\<lparr>look := find_function (\<lambda>_. False) decompress True\<rparr>) D"
    "\<lambda>s. wf_session decompress s \<and> (\<lambda>key. node_definition decompress (octo s key)) = D"
    "\<lambda>v t fix_type st. qualify_check_constraint (env\<lparr>look := find_function (\<lambda>_. False) decompress True\<rparr>) v t fix_type st"
    for env :: "session check_env" and decompress D
  by unfold_locales (rule session_calls.check_sound)

text \<open>The table of a constraint, its columns as functions, and the functions of the database.\<close>

definition table_columns :: "'s check_env \<Rightarrow> string set" where
  "table_columns env = {c. \<exists>d. find_column c (columns env) = Some d}"

definition session_env :: "session check_env \<Rightarrow> (string \<Rightarrow> SqlFunction) \<Rightarrow> session check_env" where
  "session_env env decompress = env\<lparr>look := find_function (\<lambda>_. False) decompress True\<rparr>"

definition session_types :: "session check_env \<Rightarrow> (string \<Rightarrow> SqlFunction) \<Rightarrow> session \<Rightarrow> SqlStatement \<Rightarrow> SqlValueType option" where
  "session_types env decompress s = typing (session_env env decompress)
     (call_type (session_env env decompress) (\<lambda>key. node_definition decompress (octo s key)))"
lemma typing_children:
  assumes "typing env calls v = Some t" and "c \<in> set (children v)"
  shows "\<exists>u. typing env calls c = Some u"
proof -
  have list: "\<exists>u. typing env calls c = Some u" if "common_type (map (typing env calls) vs) = Some t" "c \<in> set vs" for vs
    using that unfolding common_type_iff by blast
  have all: "\<exists>u. f c = Some u" if "map f vs = map Some ts" "c \<in> set vs" for f :: "'x \<Rightarrow> SqlValueType option" and c vs ts
    using that by (induction vs arbitrary: ts) (auto simp: map_eq_Cons_conv)
  show ?thesis
  proof (cases v)
    case (function_call_STATEMENT name vs)
    with assms all show ?thesis unfolding function_call_STATEMENT typing_call by auto
  next
    case (binary_STATEMENT op x y dt)
    with assms show ?thesis unfolding binary_STATEMENT typing_binary by auto
  next
    case (null_if_STATEMENT x y)
    with assms show ?thesis unfolding null_if_STATEMENT typing_null_if by auto
  next
    case (cas_STATEMENT val branches e)
    with assms(1) obtain w cs ts where t: "(case val of None \<Rightarrow> Some BOOLEAN_VALUE | Some v \<Rightarrow> typing env calls v) = Some w"
        "map (\<lambda>b. typing env calls (fst b)) branches = map Some cs"
        "map (\<lambda>b. typing env calls (snd b)) branches @ (case e of None \<Rightarrow> [] | Some e \<Rightarrow> [typing env calls e]) = map Some ts"
      unfolding cas_STATEMENT typing_cas by blast
    have vals: "map (typing env calls) (map snd branches @ optional_list e) = map Some ts"
      using t(3) by (simp add: map_optional comp_def)
    from assms(2) consider "val = Some c" | b where "b \<in> set branches" "c = fst b" | "c \<in> set (map snd branches @ optional_list e)"
      unfolding cas_STATEMENT by (auto simp: optional_list_def split: option.splits)
    then show ?thesis
    proof cases
      case 1
      with t(1) show ?thesis by simp
    next
      case 2
      with all [OF t(2)] show ?thesis by blast
    next
      case 3
      show ?thesis by (rule all [OF vals 3])
    qed
  qed (use assms list in \<open>auto simp: bind_eq_Some_conv split: if_splits\<close>)
qed

lemma column_type_in_table: "column_type env ref = Some t \<Longrightarrow> snd (split_reference ref) \<in> table_columns env"
  by (auto simp: column_type_def table_columns_def bind_eq_Some_conv split: prod.splits if_splits)

lemma typing_refs: "typing env calls v = Some t \<Longrightarrow> refs v \<subseteq> table_columns env"
proof (induction "size v" arbitrary: v t rule: less_induct)
  case less
  show ?case
  proof (cases "\<exists>t s i. v = value_STATEMENT t s i")
    case True
    with less.prems column_type_in_table literal_types [of COLUMN_REFERENCE] show ?thesis
      by (auto split: if_splits)
  next
    case False
    have "refs c \<subseteq> table_columns env" if "c \<in> set (children v)" for c
      using less.hyps [OF children_size [OF that]] typing_children [OF less.prems that] by blast
    then show ?thesis
      using False refs_node [of v] by auto
  qed
qed

section \<open>Properties\<close>


text \<open>C30: \<open>table_definition\<close> may check a constraint again. The check of an expression that was accepted before, with the same functions in the database,
  gives it the same type again, if it accepts it.\<close>

theorem second_check_same_type:
  assumes "wf_session decompress (store st)" and "wf_session decompress (store st1)" and "parsed v"
    and "(\<lambda>key. node_definition decompress (octo (store st1) key)) = (\<lambda>key. node_definition decompress (octo (store st) key))"
    and "qualify_check_constraint (session_env env decompress) v type None st = Some (False, t, v', st')"
    and "qualify_check_constraint (session_env env decompress) v' type1 None st1 = Some (False, t1, v'', st1')"
  shows "t1 = t"
proof -
  let ?D = "\<lambda>key. node_definition decompress (octo (store st) key)"
  let ?good = "\<lambda>s. wf_session decompress s \<and> (\<lambda>key. node_definition decompress (octo s key)) = ?D"
  have a: "answer (session_env env decompress) (call_type (session_env env decompress) ?D) ?good v None st False t v' st'"
    unfolding session_env_def by (rule session_calls.check_sound) (use assms in \<open>simp_all add: session_env_def\<close>)
  then have "parsed v'"
    using revised_kept assms(3) unfolding answer_def checked_def kept_def by blast
  have "answer (session_env env decompress) (call_type (session_env env decompress) ?D) ?good v' None st1 False t1 v'' st1'"
    unfolding session_env_def by (rule session_calls.check_sound) (use assms \<open>parsed v'\<close> in \<open>simp_all add: session_env_def\<close>)
  with a show ?thesis
    by (auto simp: answer_def checked_def)
qed
definition sample_table :: "session check_env" where
  "sample_table = \<lparr>tableName = ''names'', columns = [(Some ''id'', INTEGER_TYPE), (Some ''flag'', STRING_TYPE), (None, UNKNOWN_SqlDataType)],
     look = (\<lambda>_ _ s. Some (None, s)), function_hash = (\<lambda>_ _. ''h''), hashes = (\<lambda>_. []), max_parms = 32, stored = (\<lambda>_ _. True)\<rparr>"

definition sample_check :: "session check_state" where
  "sample_check = \<lparr>noted_columns = {}, noted_functions = {}, store = start, check_errors = []\<rparr>"

text \<open>\<open>flag IN ('Y', 'N') AND names.id > 1.5\<close>\<close>

definition sample_constraint :: SqlStatement where
  "sample_constraint = binary_STATEMENT BOOLEAN_AND
     (binary_STATEMENT BOOLEAN_IN (value_STATEMENT COLUMN_REFERENCE ''flag'' 0)
       (column_list_STATEMENT [value_STATEMENT BOOLEAN_OR_STRING_LITERAL ''Y'' 1, value_STATEMENT BOOLEAN_OR_STRING_LITERAL ''N'' 2]) UNKNOWN_SqlValueType)
     (binary_STATEMENT BOOLEAN_GREATER_THAN (value_STATEMENT COLUMN_REFERENCE ''names.id'' 0) (value_STATEMENT NUMERIC_LITERAL ''1.5'' 3) UNKNOWN_SqlValueType)
     UNKNOWN_SqlValueType"

definition sample_checked :: SqlStatement where
  "sample_checked = binary_STATEMENT BOOLEAN_AND
     (binary_STATEMENT BOOLEAN_IN (value_STATEMENT COLUMN_REFERENCE ''flag'' 0)
       (column_list_STATEMENT [value_STATEMENT STRING_LITERAL ''Y'' 0, value_STATEMENT STRING_LITERAL ''N'' 0]) UNKNOWN_SqlValueType)
     (binary_STATEMENT BOOLEAN_GREATER_THAN (value_STATEMENT COLUMN_REFERENCE ''names.id'' 0) (value_STATEMENT NUMERIC_LITERAL ''1.5'' 0) UNKNOWN_SqlValueType)
     UNKNOWN_SqlValueType"

lemma sample_accepted:
  "\<exists>st. qualify_check_constraint (session_env sample_table d) sample_constraint UNKNOWN_SqlValueType None sample_check = Some (False, BOOLEAN_VALUE, sample_checked, st)"
proof -
  have "map_option (\<lambda>(r, t, v, _). (r, t, v)) (qualify_check_constraint (session_env sample_table d) sample_constraint UNKNOWN_SqlValueType None sample_check)
      = Some (False, BOOLEAN_VALUE, sample_checked)"
    unfolding session_env_def sample_table_def sample_check_def sample_constraint_def sample_checked_def by code_simp
  then show ?thesis by auto
qed

lemma sample_good: "wf_session d (store sample_check)"
  using reachable_wf [OF reachable.start] by (simp add: sample_check_def)

lemma sample_parsed: "parsed sample_constraint"
  unfolding sample_constraint_def by (simp add: date_time_operation_def)


lemma sample_accepted_again:
  "\<exists>st. qualify_check_constraint (session_env sample_table d) sample_checked UNKNOWN_SqlValueType None sample_check = Some (False, BOOLEAN_VALUE, sample_checked, st)"
proof -
  have "map_option (\<lambda>(r, t, v, _). (r, t, v)) (qualify_check_constraint (session_env sample_table d) sample_checked UNKNOWN_SqlValueType None sample_check)
      = Some (False, BOOLEAN_VALUE, sample_checked)"
    unfolding session_env_def sample_table_def sample_check_def sample_checked_def by code_simp
  then show ?thesis by auto
qed

theorem second_check_same_type_witness:
  "\<exists>t st. qualify_check_constraint (session_env sample_table (\<lambda>_. sample_function)) sample_checked UNKNOWN_SqlValueType None sample_check
      = Some (False, t, sample_checked, st) \<and> t = BOOLEAN_VALUE"
proof -
  let ?e = "session_env sample_table (\<lambda>_. sample_function)"
  obtain st where first: "qualify_check_constraint ?e sample_constraint UNKNOWN_SqlValueType None sample_check = Some (False, BOOLEAN_VALUE, sample_checked, st)"
    using sample_accepted by blast
  obtain t st' where again: "qualify_check_constraint ?e sample_checked UNKNOWN_SqlValueType None sample_check = Some (False, t, sample_checked, st')"
    using sample_accepted_again by blast
  from second_check_same_type [OF sample_good sample_good sample_parsed refl first again] again show ?thesis
    by blast
qed

end
