(* ===== verification/Quoting.thy ===== *)
theory Quoting
  imports Prelude
begin

text \<open>
  Text that goes from SQL into the source of M and back: \<open>m_escape_string\<close> and \<open>m_unescape_string\<close> of
  \<open>quoting.c\<close>, \<open>m_escape_string2\<close> with the buffer that it grows, \<open>match_expression\<close>, which finds the
  \<open>keys(...)\<close> and \<open>values(...)\<close> of the text of a GLOBAL or an EXTRACT, and \<open>describe_tablename_global\<close>, which
  prints a GLOBAL with them.

  Memory is a list of cells as long as the block that was allocated; a cell that was not written is \<open>None\<close>. A pointer into it
  is an index. A store outside the block, an \<open>int\<close> that overflows and a failed \<open>assert\<close> are the result \<open>None\<close>.
\<close>

type_synonym cells = "char option list"

definition QUOTE :: char where "QUOTE = CHR 0x22"

definition store :: "nat \<Rightarrow> char \<Rightarrow> cells \<Rightarrow> cells option" where
  "store n c buf = (if n < length buf then Some (buf[n := Some c]) else None)"

text \<open>The C string at the start of a block.\<close>

definition text_of :: "cells \<Rightarrow> string" where
  "text_of buf = map the (takeWhile (\<lambda>c. c \<noteq> Some NUL) buf)"

section \<open>Quotes\<close>

fun m_escape_loop :: "string \<Rightarrow> nat \<Rightarrow> cells \<Rightarrow> (nat \<times> cells) option" where
  "m_escape_loop [] e buf = Some (e, buf)"
| "m_escape_loop (c # s) e buf =
     (if c = QUOTE then
        Option.bind (store e QUOTE buf) (\<lambda>buf.
        Option.bind (store (Suc e) QUOTE buf) (\<lambda>buf. m_escape_loop s (Suc (Suc e)) buf))
      else Option.bind (store e c buf) (\<lambda>buf. m_escape_loop s (Suc e) buf))"

definition m_escape_string :: "string \<Rightarrow> cells option" where
  "m_escape_string string =
     (let len = int (length string)
      in if 2 * len > INT_MAX then None
         else Option.bind (m_escape_loop string 0 (replicate (nat (2 * len)) None)) (\<lambda>(e, buf). store e NUL buf))"

fun m_unescape_loop :: "string \<Rightarrow> int \<Rightarrow> nat \<Rightarrow> cells \<Rightarrow> (nat \<times> cells) option" where
  "m_unescape_loop [] quote_count e buf = Some (e, buf)"
| "m_unescape_loop (c # s) quote_count e buf =
     (if c = QUOTE then
        (if quote_count = 1 then Option.bind (store e QUOTE buf) (\<lambda>buf. m_unescape_loop s 0 (Suc e) buf)
         else m_unescape_loop s (quote_count + 1) e buf)
      else Option.bind (store e c buf) (\<lambda>buf.
        if quote_count = 0 then m_unescape_loop s quote_count (Suc e) buf else None))"

definition m_unescape_string :: "string \<Rightarrow> cells option" where
  "m_unescape_string string =
     (let len = int (length string)
      in if 2 * len > INT_MAX then None
         else Option.bind (m_unescape_loop string 0 0 (replicate (nat (2 * len)) None)) (\<lambda>(e, buf). store e NUL buf))"

section \<open>The buffer that grows\<close>

text \<open>\<open>esc_b\<close> points into \<open>esc_buffer\<close>; \<open>esc_i\<close> counts the characters that were asked for.\<close>

record escape_state =
  esc_i :: int
  esc_b :: nat
  esc_len :: int
  esc_buffer :: cells

definition EXPAND_BUFFER_IF_NEEDED :: "escape_state \<Rightarrow> escape_state option" where
  "EXPAND_BUFFER_IF_NEEDED st =
     (let NEXT_INDEX = esc_i st
      in if esc_len st \<le> NEXT_INDEX then
           if esc_len st * 2 > INT_MAX \<or> (esc_len st * 2 \<le> NEXT_INDEX \<and> NEXT_INDEX + 1 > INT_MAX) then None
           else
             let new_size = (if esc_len st * 2 \<le> NEXT_INDEX then NEXT_INDEX + 1 else esc_len st * 2);
                 n = nat (NEXT_INDEX - 1)
             in if length (esc_buffer st) < n \<or> nat new_size < n then None
                else Some (st\<lparr>esc_buffer := take n (esc_buffer st) @ replicate (nat new_size - n) None,
                             esc_len := new_size, esc_b := n\<rparr>)
         else Some st)"

definition next_index :: "escape_state \<Rightarrow> escape_state option" where
  "next_index st = (if esc_i st + 1 > INT_MAX then None else EXPAND_BUFFER_IF_NEEDED (st\<lparr>esc_i := esc_i st + 1\<rparr>))"

definition put_char :: "char \<Rightarrow> escape_state \<Rightarrow> escape_state option" where
  "put_char c st =
     Option.bind (next_index st) (\<lambda>st.
     Option.bind (store (esc_b st) c (esc_buffer st)) (\<lambda>buf. Some (st\<lparr>esc_buffer := buf, esc_b := Suc (esc_b st)\<rparr>)))"

fun m_escape_loop2 :: "string \<Rightarrow> escape_state \<Rightarrow> escape_state option" where
  "m_escape_loop2 [] st = Some st"
| "m_escape_loop2 (c # s) st =
     (if c = QUOTE then
        Option.bind (put_char QUOTE st) (\<lambda>st. Option.bind (put_char QUOTE st) (m_escape_loop2 s))
      else Option.bind (put_char c st) (m_escape_loop2 s))"

definition m_escape_string2 :: "cells \<Rightarrow> int \<Rightarrow> string \<Rightarrow> (int \<times> int \<times> cells) option" where
  "m_escape_string2 buf len string =
     Option.bind (m_escape_loop2 string \<lparr>esc_i = 0, esc_b = 0, esc_len = len, esc_buffer = buf\<rparr>) (\<lambda>st.
     Option.bind (next_index st) (\<lambda>st.
       if int (esc_b st) < esc_len st then
         Option.bind (store (esc_b st) NUL (esc_buffer st)) (\<lambda>buf. Some (esc_i st, esc_len st, buf))
       else None))"

section \<open>Lemmas on quotes\<close>

text \<open>The text with every quote doubled.\<close>

definition escaped :: "string \<Rightarrow> string" where
  "escaped s = concat (map (\<lambda>c. if c = QUOTE then [QUOTE, QUOTE] else [c]) s)"

lemma escaped_simps [simp]:
  "escaped [] = []" "escaped (c # s) = (if c = QUOTE then QUOTE # QUOTE # escaped s else c # escaped s)"
  by (simp_all add: escaped_def)

lemma length_escaped: "length (escaped s) = length s + count_list s QUOTE"
  by (induction s) auto

lemma count_list_le: "count_list s x \<le> length s"
  by (induction s) auto

lemma count_list_eq_length: "count_list s x = length s \<longleftrightarrow> set s \<subseteq> {x}"
proof (induction s)
  case (Cons a s)
  then show ?case using count_list_le [of s x] by auto
qed simp

lemma no_nul_escaped: "NUL \<notin> set s \<Longrightarrow> NUL \<notin> set (escaped s)"
  by (induction s) (auto simp: QUOTE_def NUL_def)

lemma store_append [simp]: "store (length p) c (p @ x # q) = Some (p @ Some c # q)"
  by (simp add: store_def)

lemma store_at: "n = length p \<Longrightarrow> r \<noteq> [] \<Longrightarrow> store n c (p @ r) = Some (p @ Some c # tl r)"
  by (cases r) simp_all

lemma store_outside: "n = length p \<Longrightarrow> store n c p = None"
  by (simp add: store_def)

lemma m_escape_loop_fits:
  "e = length p \<Longrightarrow> length (escaped s) \<le> length r
     \<Longrightarrow> m_escape_loop s e (p @ r)
         = Some (e + length (escaped s), p @ map Some (escaped s) @ drop (length (escaped s)) r)"
proof (induction s arbitrary: e p r)
  case (Cons c s)
  show ?case
  proof (cases "c = QUOTE")
    case True
    then obtain x y r' where r: "r = x # y # r'"
      using Cons.prems(2) by (cases r; cases "tl r") auto
    show ?thesis
      using True Cons.prems Cons.IH [of "Suc (Suc e)" "p @ [Some QUOTE, Some QUOTE]" r']
        store_at [of "Suc e" "p @ [Some QUOTE]" "y # r'" QUOTE]
      by (simp add: r store_at)
  next
    case False
    then obtain x r' where r: "r = x # r'"
      using Cons.prems(2) by (cases r) auto
    show ?thesis
      using False Cons.prems Cons.IH [of "Suc e" "p @ [Some c]" r'] by (simp add: r)
  qed
qed simp

lemma m_unescape_loop_escaped:
  "e = length p \<Longrightarrow> length s \<le> length r
     \<Longrightarrow> m_unescape_loop (escaped s) 0 e (p @ r) = Some (e + length s, p @ map Some s @ drop (length s) r)"
proof (induction s arbitrary: e p r)
  case (Cons c s)
  then obtain x r' where r: "r = x # r'"
    by (cases r) auto
  show ?case
    using Cons.prems Cons.IH [of "Suc e" "p @ [Some c]" r'] by (auto simp: r)
qed simp

lemma text_of_append: "NUL \<notin> set s \<Longrightarrow> text_of (map Some s @ Some NUL # q) = s"
  by (induction s) (auto simp: text_of_def)

text \<open>
  \<open>m_escape_string\<close> allocates two bytes for each character, and none for the NUL: a string of quotes only, and the
  empty string, do not fit.
\<close>

lemma m_escape_string_overflow:
  assumes "2 * int (length s) \<le> INT_MAX"
  shows "m_escape_string s =
    (if set s \<subseteq> {QUOTE} then None
     else Some (map Some (escaped s) @ Some NUL # replicate (2 * length s - Suc (length (escaped s))) None))"
proof -
  have le: "length (escaped s) \<le> 2 * length s"
    using count_list_le [of s QUOTE] by (simp add: length_escaped)
  have "m_escape_string s = store (length (escaped s)) NUL
      (map Some (escaped s) @ replicate (2 * length s - length (escaped s)) None)"
    using assms le m_escape_loop_fits [of 0 "[]" s "replicate (2 * length s) None"]
    by (simp add: m_escape_string_def nat_mult_distrib)
  moreover have "length (escaped s) = 2 * length s \<longleftrightarrow> set s \<subseteq> {QUOTE}"
    using count_list_eq_length [of s QUOTE] by (simp add: length_escaped)
  ultimately show ?thesis
    using le by (auto simp: store_outside store_at)
qed

lemma m_escape_string_quote_only:
  "m_escape_string [QUOTE] = None \<and> m_escape_string [QUOTE, CHR ''a''] \<noteq> None"
  using m_escape_string_overflow [of "[QUOTE]"] m_escape_string_overflow [of "[QUOTE, CHR ''a'']"]
  by (simp add: INT_MAX_def QUOTE_def)

text \<open>A string that \<open>m_escape_string\<close> has room for comes out with every quote doubled, and \<open>m_unescape_string\<close> gives it back.\<close>

theorem escape_round_trip:
  assumes "NUL \<notin> set s" and "s \<noteq> []" and "m_escape_string s = Some buf"
    and "2 * int (length (text_of buf)) \<le> INT_MAX"
  shows "text_of buf = escaped s \<and> map_option text_of (m_unescape_string (text_of buf)) = Some s"
proof -
  have small: "2 * int (length s) \<le> INT_MAX"
    using assms(3) by (auto simp: m_escape_string_def Let_def split: if_splits)
  have esc: "text_of buf = escaped s"
    using assms(1, 3) m_escape_string_overflow [OF small]
    by (auto simp: text_of_append no_nul_escaped split: if_splits)
  let ?n = "2 * length (escaped s)"
  have "m_unescape_loop (escaped s) 0 0 (replicate ?n None) = Some (length s, map Some s @ replicate (?n - length s) None)"
    using m_unescape_loop_escaped [of 0 "[]" s "replicate ?n None"] by (simp add: length_escaped)
  moreover have "?n - length s \<noteq> 0"
    using assms(2) by (simp add: length_escaped)
  ultimately have "m_unescape_string (escaped s) = Some (map Some s @ Some NUL # tl (replicate (?n - length s) None))"
    using assms(4) by (simp add: m_unescape_string_def esc nat_mult_distrib store_at)
  then show ?thesis
    using assms(1) by (simp add: esc text_of_append)
qed

theorem escape_round_trip_witness:
  "map_option text_of (m_unescape_string (escaped [QUOTE, CHR ''a''])) = Some [QUOTE, CHR ''a'']"
proof -
  have "m_escape_string [QUOTE, CHR ''a''] = Some [Some QUOTE, Some QUOTE, Some CHR ''a'', Some NUL]"
    by (simp add: m_escape_string_def INT_MAX_def QUOTE_def store_def numeral_eq_Suc)
  from escape_round_trip [OF _ _ this] show ?thesis
    by (simp add: text_of_def QUOTE_def NUL_def INT_MAX_def)
qed

section \<open>Lemmas on the buffer that grows\<close>

text \<open>The state of \<open>m_escape_string2\<close> after it wrote \<open>w\<close>, with a buffer of at most \<open>m\<close> bytes.\<close>

definition wrote :: "string \<Rightarrow> int \<Rightarrow> escape_state \<Rightarrow> bool" where
  "wrote w m st \<longleftrightarrow> esc_i st = int (length w) \<and> esc_b st = length w \<and> 0 \<le> esc_len st \<and> esc_len st \<le> m
     \<and> length (esc_buffer st) = nat (esc_len st) \<and> length w \<le> length (esc_buffer st)
     \<and> take (length w) (esc_buffer st) = map Some w"

lemma next_index_room:
  assumes "wrote w m st" and "2 * (int (length w) + 1) \<le> m" and "m \<le> INT_MAX"
  obtains st' where "next_index st = Some st'" "esc_i st' = int (length w) + 1" "wrote w m (st'\<lparr>esc_i := int (length w)\<rparr>)"
    "length w < length (esc_buffer st')"
proof -
  define n where "n = int (length w) + 1"
  have facts: "esc_i st + 1 = n" "n \<le> INT_MAX" "2 * n \<le> m" "1 \<le> n"
    using assms by (auto simp: wrote_def n_def)
  have "\<exists>st'. next_index st = Some st' \<and> esc_i st' = n \<and> wrote w m (st'\<lparr>esc_i := n - 1\<rparr>) \<and> length w < length (esc_buffer st')"
    using assms facts
    by (auto simp: next_index_def EXPAND_BUFFER_IF_NEEDED_def wrote_def Let_def n_def nat_less_iff min_def)
  then show thesis
    using that by (auto simp: n_def)
qed

lemma store_wrote:
  assumes "wrote w m (st\<lparr>esc_i := int (length w)\<rparr>)" and "length w < length (esc_buffer st)"
  obtains buf where "store (esc_b st) c (esc_buffer st) = Some buf" "length buf = length (esc_buffer st)"
    "take (Suc (length w)) buf = map Some (w @ [c])" "esc_b st = length w"
proof -
  have "store (esc_b st) c (esc_buffer st) = Some ((esc_buffer st)[esc_b st := Some c])"
    using assms by (simp add: store_def wrote_def)
  moreover have "take (Suc (length w)) ((esc_buffer st)[length w := Some c]) = map Some (w @ [c])"
    using assms by (simp add: wrote_def take_Suc_conv_app_nth)
  ultimately show thesis
    using that assms by (auto simp: wrote_def)
qed

lemma put_char_wrote:
  assumes "wrote w m st" and "2 * (int (length w) + 1) \<le> m" and "m \<le> INT_MAX"
  obtains st' where "put_char c st = Some st'" "wrote (w @ [c]) m st'"
proof -
  obtain st1 where 1: "next_index st = Some st1" "esc_i st1 = int (length w) + 1"
    "wrote w m (st1\<lparr>esc_i := int (length w)\<rparr>)" "length w < length (esc_buffer st1)"
    using next_index_room [OF assms] by blast
  obtain buf where 2: "store (esc_b st1) c (esc_buffer st1) = Some buf" "length buf = length (esc_buffer st1)"
    "take (Suc (length w)) buf = map Some (w @ [c])" "esc_b st1 = length w"
    using store_wrote [OF 1(3, 4)] by blast
  have "wrote (w @ [c]) m (st1\<lparr>esc_buffer := buf, esc_b := Suc (esc_b st1)\<rparr>)"
    using 1 2 by (simp add: wrote_def)
  with 1 2 that show thesis
    by (simp add: put_char_def)
qed

lemma m_escape_loop2_wrote:
  "wrote w m st \<Longrightarrow> 2 * int (length w + length (escaped s)) \<le> m \<Longrightarrow> m \<le> INT_MAX
     \<Longrightarrow> \<exists>st'. m_escape_loop2 s st = Some st' \<and> wrote (w @ escaped s) m st'"
proof (induction s arbitrary: w st)
  case (Cons c s)
  have bound: "2 * (int (length w) + 1) \<le> m"
    using Cons.prems(2) by (auto split: if_splits)
  show ?case
  proof (cases "c = QUOTE")
    case True
    obtain st1 where 1: "put_char QUOTE st = Some st1" "wrote (w @ [QUOTE]) m st1"
      using put_char_wrote [OF Cons.prems(1) bound Cons.prems(3)] by blast
    obtain st2 where 2: "put_char QUOTE st1 = Some st2" "wrote ((w @ [QUOTE]) @ [QUOTE]) m st2"
      using put_char_wrote [OF 1(2) _ Cons.prems(3), of QUOTE] Cons.prems(2) True by auto
    then show ?thesis
      using Cons.IH [OF 2(2)] Cons.prems 1 True by simp
  next
    case False
    obtain st1 where 1: "put_char c st = Some st1" "wrote (w @ [c]) m st1"
      using put_char_wrote [OF Cons.prems(1) bound Cons.prems(3)] by blast
    then show ?thesis
      using Cons.IH [OF 1(2)] Cons.prems False by simp
  qed
qed simp

text \<open>C35: \<open>m_escape_string2\<close> writes the text with every quote doubled and its NUL into a buffer that it grows as needed: no store is outside the buffer, the length that it returns and the one that it keeps are right, and the buffer is at most twice as long as what is written. The lengths must fit in an \<open>int\<close> even when the buffer is doubled.\<close>

theorem m_escape_string2_fits:
  assumes "0 \<le> len" and "length buf = nat len" and "2 * (int (length (escaped s)) + 1) \<le> INT_MAX" and "len \<le> INT_MAX"
  shows "\<exists>len' buf'. m_escape_string2 buf len s = Some (int (length (escaped s)) + 1, len', buf')
    \<and> length buf' = nat len' \<and> len' \<le> max len (2 * (int (length (escaped s)) + 1))
    \<and> take (Suc (length (escaped s))) buf' = map Some (escaped s @ [NUL])"
proof -
  let ?m = "max len (2 * (int (length (escaped s)) + 1))"
  have start: "wrote [] ?m \<lparr>esc_i = 0, esc_b = 0, esc_len = len, esc_buffer = buf\<rparr>"
    using assms by (simp add: wrote_def)
  obtain st1 where 1: "m_escape_loop2 s \<lparr>esc_i = 0, esc_b = 0, esc_len = len, esc_buffer = buf\<rparr> = Some st1" "wrote (escaped s) ?m st1"
    using m_escape_loop2_wrote [OF start, of s] assms by (auto simp: le_max_iff_disj)
  obtain st2 where 2: "next_index st1 = Some st2" "esc_i st2 = int (length (escaped s)) + 1"
    "wrote (escaped s) ?m (st2\<lparr>esc_i := int (length (escaped s))\<rparr>)" "length (escaped s) < length (esc_buffer st2)"
    using next_index_room [OF 1(2)] assms by auto
  obtain buf' where 3: "store (esc_b st2) NUL (esc_buffer st2) = Some buf'" "length buf' = length (esc_buffer st2)"
    "take (Suc (length (escaped s))) buf' = map Some (escaped s @ [NUL])" "esc_b st2 = length (escaped s)"
    using store_wrote [OF 2(3, 4)] by blast
  have "int (esc_b st2) < esc_len st2"
    using 2 3 by (auto simp: wrote_def)
  then have "m_escape_string2 buf len s = Some (int (length (escaped s)) + 1, esc_len st2, buf')"
    using 1(1) 2(1, 2) 3(1) by (simp add: m_escape_string2_def)
  with 2 3 show ?thesis
    by (auto simp: wrote_def)
qed

theorem m_escape_string2_fits_witness:
  "\<exists>len' buf'. m_escape_string2 [None] 1 [QUOTE] = Some (3, len', buf') \<and> length buf' = nat len'
    \<and> len' \<le> 6 \<and> take 3 buf' = [Some QUOTE, Some QUOTE, Some NUL]"
  using m_escape_string2_fits [of 1 "[None]" "[QUOTE]"] by (simp add: INT_MAX_def numeral_3_eq_3)

section \<open>Expressions of keys and values\<close>

datatype ExpressionMatchType = MatchExpressionOFlow | NoMatchExpression | KeysExpression | ValuesExpression

definition OCTO_MAX_IDENT :: int where "OCTO_MAX_IDENT = 63"

text \<open>What is left of \<open>c\<close> after the loop, or \<open>None\<close> when the characters differ.\<close>

fun keyword_loop :: "string \<Rightarrow> string \<Rightarrow> string option" where
  "keyword_loop (x # c) (y # c2) = (if x \<noteq> y then None else keyword_loop c c2)"
| "keyword_loop c _ = Some c"

fun paren_loop :: "string \<Rightarrow> int \<Rightarrow> nat \<Rightarrow> int \<times> nat" where
  "paren_loop [] paren_count n = (paren_count, n)"
| "paren_loop (x # c) paren_count n =
     (if paren_count = 0 then (paren_count, n)
      else paren_loop c
        (if x = CHR ''('' then paren_count + 1 else if x = CHR '')'' then paren_count - 1 else paren_count) (Suc n))"

definition match_keyword :: "string \<Rightarrow> ExpressionMatchType \<times> string" where
  "match_keyword start =
     (case keyword_loop start ''keys('' of Some c \<Rightarrow> (KeysExpression, c)
      | None \<Rightarrow> (case keyword_loop start ''values('' of Some c \<Rightarrow> (ValuesExpression, c)
                | None \<Rightarrow> (NoMatchExpression, start)))"

text \<open>The result has the match, the length of the expression and the memory of the column.\<close>

definition match_expression ::
  "string \<Rightarrow> cells \<Rightarrow> int \<Rightarrow> char \<Rightarrow> (ExpressionMatchType \<times> int \<times> cells) option" where
  "match_expression start column column_size prev =
     (if OCTO_MAX_IDENT + 1 \<noteq> column_size then None
      else
        let (match, c) = match_keyword start in
        if match = NoMatchExpression then Some (NoMatchExpression, 0, column)
        else if match = KeysExpression \<and> (prev \<noteq> CHR ''('' \<and> prev \<noteq> CHR '','') then Some (NoMatchExpression, 0, column)
        else if match = ValuesExpression \<and> (prev \<noteq> CHR ''('' \<and> prev \<noteq> CHR '','' \<and> prev \<noteq> CHR ''_'')
          then Some (NoMatchExpression, 0, column)
        else
          let column_start = length start - length c;
              (paren_count, n) = paren_loop c 1 column_start in
          if paren_count = 0 then
            let end_expr = n;
                n = n - 1;
                n = (if peek_at (n - 1) start = QUOTE then n - 1 else n);
                column_start = (if peek_at column_start start = QUOTE then column_start + 1 else column_start) in
            if column_size < int n - int column_start \<or> n < column_start then Some (MatchExpressionOFlow, 0, column)
            else if n - column_start < length column then
              Some (match, int end_expr,
                map Some (take (n - column_start) (drop column_start start)) @ [Some NUL] @ drop (Suc (n - column_start)) column)
            else None
          else Some (NoMatchExpression, 0, column))"

section \<open>Lemmas on expressions\<close>

text \<open>The parentheses of the argument of an expression.\<close>

definition balanced :: "string \<Rightarrow> bool" where
  "balanced s \<longleftrightarrow> count_list s CHR ''('' = count_list s CHR '')''
     \<and> (\<forall>n \<le> length s. count_list (take n s) CHR '')'' \<le> count_list (take n s) CHR ''('')"

definition unquoted :: "string \<Rightarrow> string" where
  "unquoted s = (let s = (if s \<noteq> [] \<and> last s = QUOTE then butlast s else s)
     in if s \<noteq> [] \<and> hd s = QUOTE then tl s else s)"

definition keyword_of :: "ExpressionMatchType \<Rightarrow> string" where
  "keyword_of m = (if m = KeysExpression then ''keys('' else ''values('')"

definition may_follow :: "ExpressionMatchType \<Rightarrow> char \<Rightarrow> bool" where
  "may_follow m prev \<longleftrightarrow> prev \<in> {CHR ''('', CHR '',''} \<or> (m = ValuesExpression \<and> prev = CHR ''_'')"

text \<open>The depth of the parentheses after \<open>s\<close>, and whether it stays positive.\<close>

fun stays_open :: "int \<Rightarrow> string \<Rightarrow> bool" where
  "stays_open p [] \<longleftrightarrow> p = 1"
| "stays_open p (x # s) \<longleftrightarrow> p > 0 \<and>
     stays_open (if x = CHR ''('' then p + 1 else if x = CHR '')'' then p - 1 else p) s"

lemma stays_open_iff:
  "stays_open p s \<longleftrightarrow> p + int (count_list s CHR ''('') - int (count_list s CHR '')'') = 1
     \<and> (\<forall>n \<le> length s. 0 < p + int (count_list (take n s) CHR ''('') - int (count_list (take n s) CHR '')''))"
proof (induction s arbitrary: p)
  case (Cons x s)
  have split_n: "(\<forall>n \<le> length (x # s). P n) \<longleftrightarrow> P 0 \<and> (\<forall>n \<le> length s. P (Suc n))" for P
    by (auto simp: less_Suc_eq_le elim: le_SucE) (metis Suc_le_mono le_0_eq not0_implies_Suc length_Cons list.size(4) add.commute plus_1_eq_Suc)
  show ?case
    unfolding split_n by (auto simp: Cons.IH algebra_simps)
qed auto

lemma balanced_stays_open: "balanced s \<longleftrightarrow> stays_open 1 s"
  by (auto simp: stays_open_iff balanced_def)

lemma paren_loop_open:
  "stays_open p s \<Longrightarrow> paren_loop (s @ CHR '')'' # r) p n = (0, n + length s + 1)"
  by (induction s arbitrary: p n) (auto, cases r, auto)

lemma paren_loop_closed:
  "paren_loop c p n = (0, e) \<Longrightarrow> p > 0 \<Longrightarrow>
     \<exists>s r. c = s @ CHR '')'' # r \<and> stays_open p s \<and> e = n + length s + 1"
proof (induction c arbitrary: p n)
  case (Cons x c)
  show ?case
  proof (cases "x = CHR '')'' \<and> p = 1")
    case True
    then have "e = Suc n"
      using Cons.prems by (cases c) auto
    with True show ?thesis
      by (intro exI [of _ "[]"] exI [of _ c]) auto
  next
    case False
    define q where "q = (if x = CHR ''('' then p + 1 else if x = CHR '')'' then p - 1 else p)"
    have "paren_loop c q (Suc n) = (0, e)" "q > 0"
      using Cons.prems False by (auto simp: q_def)
    from Cons.IH [OF this] obtain s r where "c = s @ CHR '')'' # r" "stays_open q s" "e = Suc n + length s + 1"
      by blast
    then show ?thesis
      using Cons.prems by (intro exI [of _ "x # s"] exI [of _ r]) (auto simp: q_def)
  qed
qed auto

lemma keyword_loop_cases:
  "keyword_loop start kw = Some c \<Longrightarrow> start = kw @ c \<or> c = []"
  by (induction start kw rule: keyword_loop.induct) (auto split: if_splits)

lemma keyword_loop_append: "keyword_loop (kw @ c) kw = Some c"
  by (induction kw) (cases c, simp_all)

lemma match_keyword_append:
  "m \<in> {KeysExpression, ValuesExpression} \<Longrightarrow> match_keyword (keyword_of m @ c) = (m, c)"
  using keyword_loop_append [of "''keys(''" c] keyword_loop_append [of "''values(''" c]
  by (auto simp: match_keyword_def keyword_of_def)

lemma match_keyword_cases:
  assumes "match_keyword start = (m, c)" and "m \<noteq> NoMatchExpression"
  shows "m \<in> {KeysExpression, ValuesExpression} \<and> (start = keyword_of m @ c \<or> c = [])"
proof (cases "keyword_loop start ''keys(''")
  case None
  then obtain d where "keyword_loop start ''values('' = Some d"
    using assms by (auto simp: match_keyword_def split: option.splits)
  with None assms keyword_loop_cases [OF this] show ?thesis
    by (auto simp: match_keyword_def keyword_of_def)
next
  case (Some d)
  with assms keyword_loop_cases [OF this] show ?thesis
    by (auto simp: match_keyword_def keyword_of_def)
qed

lemma peek_at_append: "peek_at (length p) (p @ s) = peek s"
  by (cases s) (simp_all add: peek_at_def)

lemma last_as_peek_at: "s \<noteq> [] \<Longrightarrow> peek_at (length p + length s - 1) (p @ s @ r) = last s"
  by (auto simp: peek_at_def nth_append last_conv_nth length_greater_0_conv [symmetric] simp del: length_greater_0_conv)

lemma length_unquoted:
  "length (unquoted s) = (if s = [QUOTE] then 0
     else length s - (if s \<noteq> [] \<and> last s = QUOTE then 1 else 0) - (if s \<noteq> [] \<and> hd s = QUOTE then 1 else 0))"
  by (cases s) (auto simp: unquoted_def Let_def)

text \<open>The start and the end of the column after the quotes were taken off, for an argument \<open>s\<close> between \<open>p\<close> and \<open>r\<close>.\<close>

lemma column_bounds:
  fixes p s r start
  defines "start \<equiv> p @ s @ CHR '')'' # r"
  defines "n \<equiv> (if peek_at (length p + length s - 1) start = QUOTE then length p + length s - 1 else length p + length s)"
  defines "cs \<equiv> (if peek_at (length p) start = QUOTE then length p + 1 else length p)"
  assumes "p \<noteq> []" and "last p = CHR ''(''"
  shows "n < cs \<longleftrightarrow> s = [QUOTE]"
    and "s \<noteq> [QUOTE] \<Longrightarrow> n - cs = length (unquoted s) \<and> take (n - cs) (drop cs start) = unquoted s"
proof -
  have last_p: "peek_at (length p - 1) (p @ w) = CHR ''(''" for w
    using assms(4, 5) by (cases "length p") (simp_all add: peek_at_def nth_append last_conv_nth)
  have n: "n = (if s \<noteq> [] \<and> last s = QUOTE then length p + length s - 1 else length p + length s)"
    using last_as_peek_at [of s p "CHR '')'' # r"] last_p [of "CHR '')'' # r"]
    by (cases "s = []") (simp_all add: n_def start_def QUOTE_def)
  have cs: "cs = (if s \<noteq> [] \<and> hd s = QUOTE then length p + 1 else length p)"
    by (cases s) (auto simp: cs_def start_def peek_at_append QUOTE_def)
  show "n < cs \<longleftrightarrow> s = [QUOTE]"
    by (cases s) (auto simp: n cs)
  assume one: "s \<noteq> [QUOTE]"
  show "n - cs = length (unquoted s) \<and> take (n - cs) (drop cs start) = unquoted s"
  proof (cases s)
    case (Cons x t)
    show ?thesis
    proof (cases t rule: rev_cases)
      case Nil
      with one Cons show ?thesis
        by (auto simp: n cs start_def unquoted_def Let_def)
    next
      case (snoc u y)
      with Cons show ?thesis
        by (auto simp: n cs start_def unquoted_def Let_def)
    qed
  qed (simp add: n cs unquoted_def)
qed

lemma match_expression_argument:
  assumes "m \<in> {KeysExpression, ValuesExpression}" and "may_follow m prev" and "balanced s" and "length column = 64"
  shows "match_expression (keyword_of m @ s @ CHR '')'' # r) column 64 prev =
    (if s = [QUOTE] \<or> 64 < length (unquoted s) then Some (MatchExpressionOFlow, 0, column)
     else if length (unquoted s) = 64 then None
     else Some (m, int (length (keyword_of m) + length s + 1),
       map Some (unquoted s) @ Some NUL # drop (Suc (length (unquoted s))) column))"
proof -
  let ?p = "keyword_of m"
  have p: "?p \<noteq> []" "last ?p = CHR ''(''"
    by (simp_all add: keyword_of_def)
  have loop: "paren_loop (s @ CHR '')'' # r) 1 (length ?p) = (0, length ?p + length s + 1)"
    using assms(3) by (intro paren_loop_open) (simp add: balanced_stays_open)
  define start where "start = ?p @ s @ CHR '')'' # r"
  define n where "n = (if peek_at (length ?p + length s - 1) start = QUOTE then length ?p + length s - 1 else length ?p + length s)"
  define cs where "cs = (if peek_at (length ?p) start = QUOTE then length ?p + 1 else length ?p)"
  have bounds: "n < cs \<longleftrightarrow> s = [QUOTE]"
      "s \<noteq> [QUOTE] \<Longrightarrow> n - cs = length (unquoted s)" "s \<noteq> [QUOTE] \<Longrightarrow> take (n - cs) (drop cs start) = unquoted s"
    using column_bounds [OF p, of s r, folded start_def, folded n_def cs_def] by blast+
  have m: "m \<noteq> NoMatchExpression" "length start - length (s @ CHR '')'' # r) = length ?p"
    using assms(1) by (auto simp: start_def)
  have may: "(m = KeysExpression \<and> prev \<noteq> CHR ''('' \<and> prev \<noteq> CHR '','') = False"
      "(m = ValuesExpression \<and> prev \<noteq> CHR ''('' \<and> prev \<noteq> CHR '','' \<and> prev \<noteq> CHR ''_'') = False"
    using assms(2) by (auto simp: may_follow_def)
  have E: "match_expression start column 64 prev =
    (if 64 < int n - int cs \<or> n < cs then Some (MatchExpressionOFlow, 0, column)
     else if n - cs < 64 then Some (m, int (length ?p + length s + 1),
       map Some (take (n - cs) (drop cs start)) @ [Some NUL] @ drop (Suc (n - cs)) column)
     else None)"
    unfolding match_expression_def match_keyword_append [OF assms(1), of "s @ CHR '')'' # r", folded start_def]
      Let_def OCTO_MAX_IDENT_def prod.case m(2) loop add_diff_cancel_right' n_def [symmetric] cs_def [symmetric] assms(4)
    by (simp only: m(1) may if_False refl if_True simp_thms) simp
  show ?thesis
  proof (cases "s = [QUOTE]")
    case True
    with bounds(1) show ?thesis
      unfolding start_def [symmetric] E by simp
  next
    case False
    then have "int n - int cs = int (length (unquoted s))"
      using bounds(1, 2) by linarith
    then show ?thesis
      unfolding start_def [symmetric] E bounds(1) bounds(2) [OF False] bounds(3) [OF False, unfolded bounds(2) [OF False]]
      using False by simp
  qed
qed

lemma match_expression_cases:
  assumes "match_expression start column 64 prev \<noteq> Some (NoMatchExpression, 0, column)"
  obtains m s r where "m \<in> {KeysExpression, ValuesExpression}" "may_follow m prev" "balanced s"
    "start = keyword_of m @ s @ CHR '')'' # r"
proof -
  obtain m c where kw: "match_keyword start = (m, c)"
    by fastforce
  obtain q e where loop: "paren_loop c 1 (length start - length c) = (q, e)"
    by fastforce
  have "q = 0"
  proof (rule ccontr)
    assume "q \<noteq> 0"
    with assms show False
      by (simp add: match_expression_def OCTO_MAX_IDENT_def kw loop Let_def split: if_splits)
  qed
  have some: "m \<noteq> NoMatchExpression" "\<not> (m = KeysExpression \<and> prev \<noteq> CHR ''('' \<and> prev \<noteq> CHR '','')"
      "\<not> (m = ValuesExpression \<and> prev \<noteq> CHR ''('' \<and> prev \<noteq> CHR '','' \<and> prev \<noteq> CHR ''_'')"
    using assms by (auto simp: match_expression_def OCTO_MAX_IDENT_def kw loop split: if_splits)
  obtain s r where c: "c = s @ CHR '')'' # r" "stays_open 1 s"
    using paren_loop_closed [of c 1 "length start - length c" e] loop \<open>q = 0\<close> by auto
  have m: "m \<in> {KeysExpression, ValuesExpression}" "start = keyword_of m @ c"
    using match_keyword_cases [OF kw some(1)] c(1) by auto
  have "may_follow m prev"
    using some(2, 3) m(1) by (auto simp: may_follow_def)
  with m c that show thesis
    by (simp add: balanced_stays_open)
qed

lemma match_expression_matched:
  assumes "match_expression start column 64 prev = Some (m, n, col)" and "m \<in> {KeysExpression, ValuesExpression}"
    and "length column = 64"
  shows "may_follow m prev \<and> (\<exists>s r. start = keyword_of m @ s @ CHR '')'' # r \<and> balanced s \<and> s \<noteq> [QUOTE]
      \<and> length (unquoted s) < 64 \<and> n = int (length (keyword_of m) + length s + 1)
      \<and> col = map Some (unquoted s) @ Some NUL # drop (Suc (length (unquoted s))) column)"
proof -
  have "match_expression start column 64 prev \<noteq> Some (NoMatchExpression, 0, column)"
    using assms(1, 2) by auto
  then obtain k s r where k: "k \<in> {KeysExpression, ValuesExpression}" "may_follow k prev" "balanced s"
      "start = keyword_of k @ s @ CHR '')'' # r"
    by (rule match_expression_cases)
  have "s \<noteq> [QUOTE]" "length (unquoted s) < 64" "k = m" "n = int (length (keyword_of k) + length s + 1)"
      "col = map Some (unquoted s) @ Some NUL # drop (Suc (length (unquoted s))) column"
    using assms(1, 2) unfolding k(4) match_expression_argument [OF k(1-3) assms(3)]
    by (auto split: if_splits)
  with k show ?thesis
    by blast
qed

text \<open>C34: \<open>match_expression\<close> finds an expression exactly when the text starts with the keyword, an argument with balanced parentheses and its closing parenthesis, after a character that an expression may follow; the argument without its quotes has less than 64 characters and is not a lone quote. The column is the argument without its quotes, and the length is that of the expression.\<close>

theorem match_expression_language:
  assumes "m \<in> {KeysExpression, ValuesExpression}" and "length column = 64"
  shows "match_expression start column 64 prev = Some (m, n, col) \<longleftrightarrow>
    may_follow m prev \<and> (\<exists>s r. start = keyword_of m @ s @ CHR '')'' # r \<and> balanced s \<and> s \<noteq> [QUOTE]
      \<and> length (unquoted s) < 64 \<and> n = int (length (keyword_of m) + length s + 1)
      \<and> col = map Some (unquoted s) @ Some NUL # drop (Suc (length (unquoted s))) column)"
proof
  assume "match_expression start column 64 prev = Some (m, n, col)"
  from match_expression_matched [OF this assms]
  show "may_follow m prev \<and> (\<exists>s r. start = keyword_of m @ s @ CHR '')'' # r \<and> balanced s \<and> s \<noteq> [QUOTE]
      \<and> length (unquoted s) < 64 \<and> n = int (length (keyword_of m) + length s + 1)
      \<and> col = map Some (unquoted s) @ Some NUL # drop (Suc (length (unquoted s))) column)" .
next
  assume "may_follow m prev \<and> (\<exists>s r. start = keyword_of m @ s @ CHR '')'' # r \<and> balanced s \<and> s \<noteq> [QUOTE]
      \<and> length (unquoted s) < 64 \<and> n = int (length (keyword_of m) + length s + 1)
      \<and> col = map Some (unquoted s) @ Some NUL # drop (Suc (length (unquoted s))) column)"
  then show "match_expression start column 64 prev = Some (m, n, col)"
    using match_expression_argument [OF assms(1) _ _ assms(2)] by force
qed

text \<open>C38: The NUL after the column is stored outside the array of 64 characters exactly when the column has 64 characters, which the check of its length lets pass.\<close>

theorem match_expression_overflow:
  assumes "length column = 64"
  shows "match_expression start column 64 prev = None \<longleftrightarrow>
    (\<exists>m s r. m \<in> {KeysExpression, ValuesExpression} \<and> may_follow m prev \<and> start = keyword_of m @ s @ CHR '')'' # r
       \<and> balanced s \<and> length (unquoted s) = 64)"
proof
  assume none: "match_expression start column 64 prev = None"
  then have "match_expression start column 64 prev \<noteq> Some (NoMatchExpression, 0, column)"
    by simp
  then obtain k s r where k: "k \<in> {KeysExpression, ValuesExpression}" "may_follow k prev" "balanced s"
      "start = keyword_of k @ s @ CHR '')'' # r"
    by (rule match_expression_cases)
  have "length (unquoted s) = 64"
    using none unfolding k(4) match_expression_argument [OF k(1-3) assms] by (auto split: if_splits)
  with k show "\<exists>m s r. m \<in> {KeysExpression, ValuesExpression} \<and> may_follow m prev \<and> start = keyword_of m @ s @ CHR '')'' # r
       \<and> balanced s \<and> length (unquoted s) = 64"
    by blast
next
  assume "\<exists>m s r. m \<in> {KeysExpression, ValuesExpression} \<and> may_follow m prev \<and> start = keyword_of m @ s @ CHR '')'' # r
       \<and> balanced s \<and> length (unquoted s) = 64"
  then obtain m s r where m: "m \<in> {KeysExpression, ValuesExpression}" "may_follow m prev" "balanced s"
      "length (unquoted s) = 64" and start: "start = keyword_of m @ s @ CHR '')'' # r"
    by blast
  have "s \<noteq> [QUOTE]"
    using m(4) by (auto simp: length_unquoted)
  then show "match_expression start column 64 prev = None"
    unfolding start match_expression_argument [OF m(1-3) assms] using m(4) by simp
qed

section \<open>The GLOBAL of a table\<close>

record global_source =
  string_literal :: string
  is_hidden_keycol :: "bool list"

fun table_has_hidden_column :: "bool list \<Rightarrow> bool" where
  "table_has_hidden_column [] = False"
| "table_has_hidden_column (hidden # columns) = (if hidden then True else table_has_hidden_column columns)"

text \<open>\<open>out\<close> is the text of \<open>memstream\<close>; \<open>prev\<close> is the character before \<open>source_ptr\<close>, and the first character at the start.\<close>

function describe_loop :: "bool \<Rightarrow> string \<Rightarrow> char \<Rightarrow> string \<Rightarrow> string option" where
  "describe_loop hidden source_ptr prev out =
     (if source_ptr = [] then Some out
      else case match_expression source_ptr (replicate 64 None) 64 prev of
          None \<Rightarrow> None
        | Some (match, expr_len, column) \<Rightarrow>
            if match = MatchExpressionOFlow then None
            else if match = KeysExpression \<or> match = ValuesExpression then
              describe_loop hidden (drop (nat expr_len) source_ptr) (source_ptr ! (nat expr_len - 1)) (out @ text_of column)
            else if hidden \<and> hd source_ptr = CHR ''('' then Some out
            else describe_loop hidden (tl source_ptr) (hd source_ptr) (out @ [hd source_ptr]))"
  by pat_completeness auto

termination
proof (relation "measure (\<lambda>(_, s, _, _). length s)", goal_cases)
  case (2 hidden source_ptr prev out a match b expr_len column)
  then show ?case
    using match_expression_matched [of source_ptr "replicate 64 None" prev match expr_len column] by auto
qed auto

declare describe_loop.simps [simp del]

definition describe_tablename_global :: "global_source \<Rightarrow> string option" where
  "describe_tablename_global table =
     (if is_hidden_keycol table = [] then None
      else describe_loop (table_has_hidden_column (is_hidden_keycol table))
        (string_literal table) (peek (string_literal table)) ''Global: '')"

text \<open>The subscripts that Octo writes into a GLOBAL: \<open>keys("column")\<close>, separated by commas.\<close>

definition key_of :: "string \<Rightarrow> string" where
  "key_of c = ''keys('' @ QUOTE # c @ [QUOTE] @ '')''"

fun commas :: "string list \<Rightarrow> string" where
  "commas [] = []"
| "commas [x] = x"
| "commas (x # y # xs) = x @ CHR '','' # commas (y # xs)"

definition plain_column :: "string \<Rightarrow> bool" where
  "plain_column c \<longleftrightarrow> length c < 64 \<and> set c \<inter> {NUL, QUOTE, CHR ''('', CHR '')''} = {}"

lemma no_expression:
  assumes "prev \<notin> {CHR ''('', CHR '','', CHR ''_''} \<or> start = [] \<or> hd start \<notin> {CHR ''k'', CHR ''v''}"
  shows "match_expression start column 64 prev = Some (NoMatchExpression, 0, column)"
proof (rule ccontr)
  assume "match_expression start column 64 prev \<noteq> Some (NoMatchExpression, 0, column)"
  then obtain m s r where m: "m \<in> {KeysExpression, ValuesExpression}" "may_follow m prev"
      "start = keyword_of m @ s @ CHR '')'' # r"
    by (rule match_expression_cases)
  with assms show False
    by (auto simp: may_follow_def keyword_of_def)
qed

lemma describe_char:
  assumes "prev \<notin> {CHR ''('', CHR '','', CHR ''_''} \<or> c \<notin> {CHR ''k'', CHR ''v''}"
  shows "describe_loop hidden (c # s) prev out =
    (if hidden \<and> c = CHR ''('' then Some out else describe_loop hidden s c (out @ [c]))"
  using no_expression [of prev "c # s" "replicate 64 None"] assms
  by (subst describe_loop.simps) auto

lemma describe_word:
  "prev \<notin> {CHR ''('', CHR '','', CHR ''_''} \<Longrightarrow> set w \<inter> {CHR ''('', CHR '','', CHR ''_''} = {} \<Longrightarrow>
    describe_loop hidden (w @ s) prev out = describe_loop hidden s (last (prev # w)) (out @ w)"
proof (induction w arbitrary: prev out)
  case (Cons a w)
  have "describe_loop hidden ((a # w) @ s) prev out = describe_loop hidden (w @ s) a (out @ [a])"
    using Cons.prems describe_char [of prev a hidden "w @ s" out] by auto
  also have "\<dots> = describe_loop hidden s (last (a # w)) ((out @ [a]) @ w)"
    using Cons.prems(2) by (intro Cons.IH) auto
  finally show ?case
    by simp
qed simp

lemma count_list_absent: "x \<notin> set s \<Longrightarrow> count_list s x = 0"
  by (induction s) auto

lemma balanced_plain:
  assumes "set s \<inter> {CHR ''('', CHR '')''} = {}"
  shows "balanced s"
proof -
  have "count_list (take n s) x = 0" if "x \<in> {CHR ''('', CHR '')''}" for n x
    using assms that set_take_subset [of n s] by (intro count_list_absent) auto
  then show ?thesis
    using assms by (auto simp: balanced_def count_list_absent)
qed

lemma describe_key:
  assumes "prev \<in> {CHR ''('', CHR '',''}" and "plain_column c"
  shows "describe_loop hidden (key_of c @ s) prev out = describe_loop hidden s CHR '')'' (out @ c)"
proof -
  let ?arg = "QUOTE # c @ [QUOTE]"
  have arg: "balanced ?arg" "unquoted ?arg = c" "?arg \<noteq> [QUOTE]" "length c < 64" "NUL \<notin> set c"
    using assms(2) by (auto simp: plain_column_def unquoted_def Let_def QUOTE_def intro!: balanced_plain)
  have "match_expression (key_of c @ s) (replicate 64 None) 64 prev =
      Some (KeysExpression, int (length (key_of c)), map Some c @ Some NUL # drop (Suc (length c)) (replicate 64 None))"
    using match_expression_argument [of KeysExpression prev ?arg "replicate 64 None" s] assms(1) arg
    by (simp add: may_follow_def keyword_of_def key_of_def)
  moreover have "key_of c \<noteq> []" "(key_of c @ s) ! (length (key_of c) - 1) = CHR '')''"
    by (simp_all add: key_of_def nth_append)
  ultimately show ?thesis
    using arg by (subst describe_loop.simps) (simp add: text_of_append)
qed

lemma describe_keys:
  "prev \<in> {CHR ''('', CHR '',''} \<Longrightarrow> \<forall>c \<in> set cs. plain_column c \<Longrightarrow> cs \<noteq> [] \<Longrightarrow>
    describe_loop False (commas (map key_of cs) @ '')'') prev out = Some (out @ commas cs @ '')'')"
proof (induction cs arbitrary: prev out rule: commas.induct)
  case (2 c)
  then show ?case
    by (simp add: describe_key describe_char, subst describe_loop.simps, simp)
next
  case (3 c d cs)
  have "describe_loop False (commas (map key_of (c # d # cs)) @ '')'') prev out
      = describe_loop False (commas (map key_of (d # cs)) @ '')'') CHR '','' (out @ c @ '','')"
    using 3(2, 3) by (simp add: describe_key describe_char)
  also have "\<dots> = Some ((out @ c @ '','') @ commas (d # cs) @ '')'')"
    using 3(3) by (intro 3(1)) auto
  finally show ?case
    by simp
qed simp

text \<open>The GLOBAL that Octo generates for a table is printed with the names of its key columns as subscripts, and without subscripts when the table has a hidden key column.\<close>

theorem describe_lists_the_keys:
  assumes "set name \<inter> {CHR ''('', CHR '','', CHR ''_''} = {}" and "name \<noteq> []"
    and "\<forall>c \<in> set cs. plain_column c" and "cs \<noteq> []" and "hidden \<noteq> []"
  shows "describe_tablename_global \<lparr>string_literal = name @ ''('' @ commas (map key_of cs) @ '')'', is_hidden_keycol = hidden\<rparr>
    = Some (''Global: '' @ name @ (if True \<in> set hidden then [] else ''('' @ commas cs @ '')''))"
proof -
  have hid: "table_has_hidden_column hidden \<longleftrightarrow> True \<in> set hidden"
    by (induction hidden) auto
  have "peek (name @ w) \<notin> {CHR ''('', CHR '','', CHR ''_''}" "last (peek (name @ w) # name) \<notin> {CHR ''('', CHR '','', CHR ''_''}"
    for w using assms(1, 2) last_in_set [of name] by (cases name; auto simp: peek_def)+
  then show ?thesis
    using assms describe_keys [OF _ assms(3, 4), of "CHR ''(''" "''Global: '' @ name @ ''(''"]
    by (simp add: describe_tablename_global_def describe_word describe_char hid)
qed

theorem describe_lists_the_keys_witness:
  "describe_tablename_global \<lparr>string_literal = ''^n(keys('' @ QUOTE # ''id'' @ QUOTE # ''))'', is_hidden_keycol = [False]\<rparr>
    = Some ''Global: ^n(id)''"
  using describe_lists_the_keys [of "''^n''" "[''id'']" "[False]"]
  by (simp add: plain_column_def key_of_def NUL_def QUOTE_def)

theorem match_expression_language_witness:
  "match_expression ''values(a)'' (replicate 64 None) 64 CHR ''_''
    = Some (ValuesExpression, 9, [Some CHR ''a'', Some NUL] @ replicate 62 None)"
proof -
  have "balanced ''a''"
    by (rule balanced_plain) simp
  then have "may_follow ValuesExpression CHR ''_'' \<and> (\<exists>s r. ''values(a)'' = keyword_of ValuesExpression @ s @ CHR '')'' # r
      \<and> balanced s \<and> s \<noteq> [QUOTE] \<and> length (unquoted s) < 64 \<and> (9::int) = int (length (keyword_of ValuesExpression) + length s + 1)
      \<and> [Some CHR ''a'', Some NUL] @ replicate 62 None = map Some (unquoted s) @ Some NUL # drop (Suc (length (unquoted s))) (replicate 64 None))"
    by (intro conjI exI [of _ "''a''"] exI [of _ "''''"])
      (simp_all add: may_follow_def keyword_of_def unquoted_def QUOTE_def)
  then show ?thesis
    using match_expression_language [of ValuesExpression "replicate 64 None" "''values(a)''" "CHR ''_''"] by simp
qed

theorem match_expression_overflow_witness:
  "match_expression (''keys('' @ replicate 64 CHR ''a'' @ '')'') (replicate 64 None) 64 CHR ''('' = None"
proof -
  have "balanced (replicate 64 CHR ''a'')"
    by (rule balanced_plain) auto
  moreover have "unquoted (replicate 64 CHR ''a'') = replicate 64 CHR ''a''"
    by (simp add: unquoted_def QUOTE_def numeral_eq_Suc)
  ultimately have "\<exists>m s r. m \<in> {KeysExpression, ValuesExpression} \<and> may_follow m CHR ''(''
      \<and> ''keys('' @ replicate 64 CHR ''a'' @ '')'' = keyword_of m @ s @ CHR '')'' # r \<and> balanced s \<and> length (unquoted s) = 64"
    by (intro exI [of _ KeysExpression] exI [of _ "replicate 64 CHR ''a''"] exI [of _ "''''"])
      (simp add: may_follow_def keyword_of_def)
  then show ?thesis
    using match_expression_overflow [of "replicate 64 None"] by simp
qed

end
