(* ===== verification/GeneratedNames.thy ===== *)
theory GeneratedNames
  imports OctoTypes Quoting "HOL-Library.Monad_Syntax"
begin

text \<open>
  The names that YDBOcto makes up: those of constraints without a name (\<open>constraint_name_auto_generate.c\<close>), and those of routines and globals,
  which are a prefix and a hash in base 62 (\<open>generate_name_type.c\<close>, \<open>ydb_hash_to_string.c\<close>). The specification of the latter is the function
  \<open>string_to_hash\<close>, which reads the hash back.
\<close>

section \<open>Names of constraints\<close>

text \<open>\<open>%.*s\<close>: at most so many characters, all of them if the precision is negative.\<close>

definition precise :: "int \<Rightarrow> string \<Rightarrow> string" where
  "precise n s = (if n < 0 then s else take (nat n) s)"

text \<open>
  The names of the columns of a UNIQUE constraint, joined by underscores in a buffer of which \<open>buf_len\<close> bytes are left. \<open>snprintf\<close>
  writes what fits with the NUL.
\<close>

fun join_columns :: "nat \<Rightarrow> bool \<Rightarrow> string list \<Rightarrow> string" where
  "join_columns buf_len first [] = []"
| "join_columns buf_len first (name # names) =
     (let s = (if first then name else CHR ''_'' # name)
      in if buf_len \<le> length s then take (buf_len - 1) s
         else s @ join_columns (buf_len - length s) False names)"

definition constraint_suffix :: "OptionalKeyword \<Rightarrow> string option" where
  "constraint_suffix keyword =
     (if keyword = OPTIONAL_CHECK_CONSTRAINT then Some ''check'' else if keyword = PRIMARY_KEY then Some ''pkey''
      else if keyword = UNIQUE_CONSTRAINT then Some ''key'' else None)"

text \<open>The name of the column in the name of the constraint, if it has one.\<close>

definition constraint_column :: "OptionalKeyword \<Rightarrow> string list \<Rightarrow> string option \<Rightarrow> string option" where
  "constraint_column keyword unique_columns column_name =
     (if keyword = PRIMARY_KEY then None
      else if keyword = UNIQUE_CONSTRAINT then Some (join_columns (nat (OCTO_MAX_IDENT + 1)) True unique_columns)
      else column_name)"

definition constraint_number :: "nat \<Rightarrow> string" where
  "constraint_number numeric_suffix = (if numeric_suffix = 0 then [] else show_nat numeric_suffix)"

text \<open>The lengths that the names of the table and of the column are cut to.\<close>

definition cut_lengths :: "int \<Rightarrow> int \<Rightarrow> int \<Rightarrow> int \<times> int" where
  "cut_lengths avail table_name_len column_name_len =
     (let column_avail = avail sdiv 2; table_avail = avail - column_avail
      in if table_name_len \<le> table_avail then (table_name_len, avail - table_name_len)
         else if column_name_len \<le> column_avail then (avail - column_name_len, column_name_len)
         else (table_avail, if column_avail < column_name_len then column_avail else column_name_len))"

text \<open>
  \<open>unique_columns\<close> are the columns of a UNIQUE constraint. The result is what is in the buffer of \<open>ret_buf_size\<close> bytes, before
  the NUL; a second \<open>snprintf\<close> must fill it exactly.
\<close>

definition constraint_name_auto_generate ::
    "OptionalKeyword \<Rightarrow> string list \<Rightarrow> string \<Rightarrow> string option \<Rightarrow> nat \<Rightarrow> nat \<Rightarrow> string option" where
  "constraint_name_auto_generate keyword unique_columns table_name column_name numeric_suffix ret_buf_size = do {
     suffix \<leftarrow> constraint_suffix keyword;
     let column = constraint_column keyword unique_columns column_name;
     let tail = suffix @ constraint_number numeric_suffix;
     let full = table_name @ ''_'' @ (case column of None \<Rightarrow> [] | Some c \<Rightarrow> c @ ''_'') @ tail;
     if length full < ret_buf_size then Some full
     else do {
       let reserved = int (length suffix) + 2 + int (length (constraint_number numeric_suffix));
       let s = (case column of
           None \<Rightarrow> precise (int ret_buf_size - reserved) table_name @ ''_'' @ tail
         | Some c \<Rightarrow>
             (case cut_lengths (int ret_buf_size - reserved - 1) (int (length table_name)) (int (length c)) of
                (table_name_len, column_name_len) \<Rightarrow> precise table_name_len table_name @ ''_'' @ precise column_name_len c @ ''_'' @ tail));
       if length s + 1 = ret_buf_size then Some s else None
     }
   }"

text \<open>The joined names are the first 63 characters of all of them.\<close>

fun joined :: "string list \<Rightarrow> string" where
  "joined [] = []"
| "joined [name] = name"
| "joined (name # names) = name @ CHR ''_'' # joined names"

lemma joined_rest: "names \<noteq> [] \<Longrightarrow> joined (name # names) = name @ CHR ''_'' # joined names"
  by (cases names) auto

lemma join_columns_rest: "0 < n \<Longrightarrow> names \<noteq> [] \<Longrightarrow> join_columns n False names = take (n - 1) (CHR ''_'' # joined names)"
proof (induction n False names rule: join_columns.induct)
  case (2 n name names)
  show ?case
  proof (cases "n \<le> Suc (length name)")
    case True
    then show ?thesis
      by (cases names) (auto simp: joined_rest take_Cons')
  next
    case False
    with 2 show ?thesis
      by (cases names) (auto simp: joined_rest take_Cons')
  qed
qed simp

lemma join_columns_joined: "0 < n \<Longrightarrow> names \<noteq> [] \<Longrightarrow> join_columns n True names = take (n - 1) (joined names)"
proof (cases names)
  case (Cons name names')
  assume "0 < n"
  then show ?thesis
    using join_columns_rest [of "n - length name" names'] by (cases "names' = []") (auto simp: Cons joined_rest)
qed simp

text \<open>What is in a name: a part of the table's name, a part of the column's name, the suffix and the number.\<close>

lemma constraint_suffixD:
  assumes "constraint_suffix keyword = Some suffix"
  shows "0 < length suffix" "length suffix \<le> 5" "\<not> is_number (last suffix)" "suffix \<noteq> []"
  using assms by (auto simp: constraint_suffix_def is_number_def split: if_splits)

lemma digits_at_the_end: "\<not> is_number (last p) \<Longrightarrow> p \<noteq> [] \<Longrightarrow> list_all is_number d \<Longrightarrow> takeWhile is_number (rev (p @ d)) = rev d"
  by (cases p rule: rev_cases) (auto simp: list_all_iff)

lemma constraint_number_digits: "list_all is_number (constraint_number n)"
  by (simp add: constraint_number_def)

lemma constraint_number_inject: "constraint_number m = constraint_number n \<Longrightarrow> m = n"
  using show_nat_nonempty [of m] show_nat_nonempty [of n] by (cases "m = 0"; cases "n = 0") (auto simp: constraint_number_def simp del: show_nat_nonempty)

lemma constraint_name_ends:
  assumes "constraint_name_auto_generate keyword unique table column n bufsize = Some name"
  shows "\<exists>p suffix. constraint_suffix keyword = Some suffix \<and> name = p @ suffix @ constraint_number n"
proof -
  from assms obtain suffix where suffix: "constraint_suffix keyword = Some suffix"
    by (auto simp: constraint_name_auto_generate_def split: bind_splits)
  let ?ends = "\<lambda>s. \<exists>p. s = p @ suffix @ constraint_number n"
  have ends: "?ends (x @ ''_'' @ suffix @ constraint_number n)" for x
    by (rule exI [of _ "x @ ''_''"]) simp
  have ends2: "?ends (x @ ''_'' @ y @ ''_'' @ suffix @ constraint_number n)" for x y
    by (rule exI [of _ "x @ ''_'' @ y @ ''_''"]) simp
  have "?ends name"
  proof (cases "constraint_column keyword unique column")
    case None
    then have "name = table @ ''_'' @ suffix @ constraint_number n \<or> (\<exists>k. name = precise k table @ ''_'' @ suffix @ constraint_number n)"
      using assms by (simp add: constraint_name_auto_generate_def suffix Let_def split: if_splits) (metis append_Cons append_Nil)
    then show ?thesis
      using ends by metis
  next
    case (Some c)
    then have "name = table @ ''_'' @ c @ ''_'' @ suffix @ constraint_number n
        \<or> (\<exists>k l. name = precise k table @ ''_'' @ precise l c @ ''_'' @ suffix @ constraint_number n)"
      using assms by (simp add: constraint_name_auto_generate_def suffix Let_def split: if_splits prod.splits) (metis append_Cons append_Nil surj_pair)
    then show ?thesis
      using ends2 by metis
  qed
  with suffix show ?thesis
    by blast
qed


lemma cut_lengths_fit:
  assumes "cut_lengths avail t c = (a, b)" and "0 \<le> avail" and "avail < t + c" and "0 \<le> t" and "0 \<le> c"
  shows "0 \<le> a" "a \<le> t" "0 \<le> b" "b \<le> c" "a + b = avail"
proof -
  have half: "avail sdiv 2 = avail div 2"
    using assms(2) by (cases "avail = 0") (simp_all add: signed_divide_int_def)
  have "0 \<le> a \<and> a \<le> t \<and> 0 \<le> b \<and> b \<le> c \<and> a + b = avail"
    using assms by (auto simp: cut_lengths_def half Let_def split: if_splits) 
  then show "0 \<le> a" "a \<le> t" "0 \<le> b" "b \<le> c" "a + b = avail"
    by blast+
qed

lemma precise_nonneg: "0 \<le> i \<Longrightarrow> precise i s = take (nat i) s"
  by (simp add: precise_def)

lemma constraint_name_cut:
  assumes suffix: "constraint_suffix keyword = Some suffix" and room: "length suffix + length (constraint_number n) + 3 \<le> bufsize"
  defines "tail \<equiv> suffix @ constraint_number n"
  shows "\<exists>name i j. constraint_name_auto_generate keyword unique table column n bufsize = Some name \<and> length name < bufsize
    \<and> (case constraint_column keyword unique column of
         None \<Rightarrow> name = take i table @ ''_'' @ tail \<and> (length table \<le> i \<or> length name + 1 = bufsize)
       | Some c \<Rightarrow> name = take i table @ ''_'' @ take j c @ ''_'' @ tail \<and> (length table \<le> i \<and> length c \<le> j \<or> length name + 1 = bufsize))"
proof -
  let ?k = "length suffix + length (constraint_number n)"
  have tail: "length tail = ?k"
    by (simp add: tail_def)
  show ?thesis
  proof (cases "constraint_column keyword unique column")
    case None
    show ?thesis
    proof (cases "length table + 1 + ?k < bufsize")
      case True
      then show ?thesis
        by (intro exI [of _ "table @ ''_'' @ tail"] exI [of _ "length table"])
          (simp add: constraint_name_auto_generate_def suffix None Let_def tail_def)
    next
      case False
      let ?i = "bufsize - ?k - 2"
      have "precise (int bufsize - (int (length suffix) + 2 + int (length (constraint_number n)))) table = take ?i table"
      proof -
        have "int bufsize - (int (length suffix) + 2 + int (length (constraint_number n))) = int ?i"
          using room by simp
        then show ?thesis
          by (simp only: precise_nonneg [OF of_nat_0_le_iff] nat_int)
      qed
      then show ?thesis
        using room False by (intro exI [of _ "take ?i table @ ''_'' @ tail"] exI [of _ ?i])
          (simp add: constraint_name_auto_generate_def suffix None Let_def tail_def)
    qed
  next
    case (Some c)
    show ?thesis
    proof (cases "length table + 2 + length c + ?k < bufsize")
      case True
      then show ?thesis
        by (rule_tac x = "table @ ''_'' @ c @ ''_'' @ tail" in exI, rule_tac x = "length table" in exI, rule_tac x = "length c" in exI)
          (simp add: constraint_name_auto_generate_def suffix Some Let_def tail_def)
    next
      case False
      let ?avail = "int bufsize - (int (length suffix) + 2 + int (length (constraint_number n))) - 1"
      obtain a b where ab: "cut_lengths ?avail (int (length table)) (int (length c)) = (a, b)"
        by fastforce
      have avail: "0 \<le> ?avail" "?avail < int (length table) + int (length c)"
        using room False by simp_all
      note cut = cut_lengths_fit [OF ab avail of_nat_0_le_iff of_nat_0_le_iff]
      have len: "length (take (nat a) table) = nat a" "length (take (nat b) c) = nat b"
        using cut by simp_all
      have sum: "nat a + nat b + ?k + 3 = bufsize"
        using cut room by simp
      show ?thesis
        using ab len sum cut(1,3) False
        by (rule_tac x = "take (nat a) table @ ''_'' @ take (nat b) c @ ''_'' @ tail" in exI, rule_tac x = "nat a" in exI, rule_tac x = "nat b" in exI)
          (simp add: constraint_name_auto_generate_def suffix Some Let_def tail_def precise_nonneg)
    qed
  qed
qed

lemma constraint_names_differ:
  assumes "constraint_name_auto_generate keyword unique table column m bufsize = Some a"
    and "constraint_name_auto_generate keyword unique' table' column' n bufsize' = Some b" and "m \<noteq> n"
  shows "a \<noteq> b"
proof
  assume eq: "a = b"
  obtain p suffix where a: "constraint_suffix keyword = Some suffix" "a = p @ suffix @ constraint_number m"
    using constraint_name_ends [OF assms(1)] by blast
  obtain q where b: "b = q @ suffix @ constraint_number n"
    using constraint_name_ends [OF assms(2)] a(1) by auto
  have digits: "takeWhile is_number (rev (r @ suffix @ constraint_number k)) = rev (constraint_number k)" for r k
    using digits_at_the_end [of "r @ suffix", OF _ _ constraint_number_digits] constraint_suffixD(3,4) [OF a(1)] by simp
  have "takeWhile is_number (rev a) = rev (constraint_number m)" "takeWhile is_number (rev b) = rev (constraint_number n)"
    by (simp_all only: a(2) b digits)
  with eq have "constraint_number m = constraint_number n"
    by simp
  with constraint_number_inject assms(3) show False
    by simp
qed


section \<open>Names from hashes\<close>

definition base62_chars :: string where
  "base62_chars = ''0123456789ABCDEFGHIJKLMNOPQRSTUVWXYZabcdefghijklmnopqrstuvwxyz''"

text \<open>\<open>ydb_hash_to_string\<close>: two characters at a time are written, until \<open>buf_len\<close> is reached.\<close>

fun ydb_hash_to_string :: "64 word \<Rightarrow> 64 word \<Rightarrow> nat \<Rightarrow> string" where
  "ydb_hash_to_string hashone hashtwo buf_len =
     (if buf_len = 0 then []
      else base62_chars ! unat (hashone mod 62) # base62_chars ! unat (hashtwo mod 62)
        # ydb_hash_to_string (hashone div 62) (hashtwo div 62) (buf_len - 2))"

declare ydb_hash_to_string.simps [simp del]

datatype NameType = CrossReference | OutputPlan | FunctionHash | TableGlobal | UniqueGlobal

definition name_prefix :: "NameType \<Rightarrow> string" where
  "name_prefix name_type =
     (case name_type of
        CrossReference \<Rightarrow> ''%ydboctoX''
      | OutputPlan \<Rightarrow> ''%ydboctoP''
      | FunctionHash \<Rightarrow> ''%ydboctoF''
      | TableGlobal \<Rightarrow> ''^%ydboctoD''
      | UniqueGlobal \<Rightarrow> ''^%ydboctoU'')"

definition is_global :: "NameType \<Rightarrow> bool" where
  "is_global name_type \<longleftrightarrow> name_type = TableGlobal \<or> name_type = UniqueGlobal"

text \<open>
  \<open>max_routine_len\<close> is \<open>YDB_MAX_IDENT\<close>, and the two words are the result of \<open>ydb_mmrhash_128_result\<close>. \<open>strncpy\<close> copies the characters that
  fit in \<open>ret_name_len\<close> bytes with the NUL. \<open>None\<close> is a buffer of another length, or a hash string that does not fit in \<open>hash_str\<close>.
\<close>

definition generate_name_type :: "nat \<Rightarrow> NameType \<Rightarrow> 64 word \<Rightarrow> 64 word \<Rightarrow> nat \<Rightarrow> string option" where
  "generate_name_type max_routine_len name_type one two ret_name_len =
     (if ret_name_len \<noteq> (if is_global name_type then max_routine_len + 2 else max_routine_len + 1) then None
      else let hash_len = ret_name_len - length (name_prefix name_type) - 1;
               hash_str = ydb_hash_to_string one two hash_len
           in if max_routine_len < length hash_str then None else Some (name_prefix name_type @ take hash_len hash_str))"

text \<open>The digits are read back from the string.\<close>

fun positions :: "string \<Rightarrow> char \<Rightarrow> nat" where
  "positions [] c = 0"
| "positions (d # ds) c = (if c = d then 0 else Suc (positions ds c))"

fun string_to_hash :: "string \<Rightarrow> nat \<times> nat" where
  "string_to_hash (a # b # s) =
     (let (one, two) = string_to_hash s in (positions base62_chars a + 62 * one, positions base62_chars b + 62 * two))"
| "string_to_hash _ = (0, 0)"

lemma positions_base62: "n < 62 \<Longrightarrow> positions base62_chars (base62_chars ! n) = n"
proof -
  have "list_all (\<lambda>n. positions base62_chars (base62_chars ! n) = n) [0..<62]"
    unfolding base62_chars_def by code_simp
  then show "n < 62 \<Longrightarrow> positions base62_chars (base62_chars ! n) = n"
    by (simp add: list_all_iff)
qed

lemma unat_word_62 [simp]: "unat (62 :: 64 word) = 62"
  by simp

lemma hash_digit: "unat (h mod 62 :: 64 word) < 62"
  by (simp add: unat_mod)

lemma ydb_hash_to_string_step:
  "ydb_hash_to_string one two (Suc (Suc n)) =
     base62_chars ! unat (one mod 62) # base62_chars ! unat (two mod 62) # ydb_hash_to_string (one div 62) (two div 62) n"
  by (subst ydb_hash_to_string.simps) simp

lemma length_hash_string: "length (ydb_hash_to_string one two n) = n + n mod 2"
proof (induction n arbitrary: one two rule: less_induct)
  case (less n)
  show ?case
  proof (cases "n = 0")
    case True
    then show ?thesis
      by (simp add: ydb_hash_to_string.simps [of _ _ 0])
  next
    case False
    then have "length (ydb_hash_to_string one two n) = 2 + length (ydb_hash_to_string (one div 62) (two div 62) (n - 2))"
      by (simp add: ydb_hash_to_string.simps [of one two n])
    also have "\<dots> = 2 + (n - 2 + (n - 2) mod 2)"
      using less [of "n - 2"] False by simp
    also have "\<dots> = n + n mod 2"
    proof (cases "n = 1")
      case False
      with \<open>n \<noteq> 0\<close> have "n = 2 + (n - 2)"
        by simp
      moreover have "(2 + (n - 2)) mod 2 = (n - 2) mod 2"
        by (rule mod_add_self1)
      ultimately show ?thesis
        by simp
    qed simp
    finally show ?thesis .
  qed
qed

lemma string_to_hash_string:
  "string_to_hash (ydb_hash_to_string one two (2 * k) @ s) =
     (unat one mod 62 ^ k + 62 ^ k * fst (string_to_hash s), unat two mod 62 ^ k + 62 ^ k * snd (string_to_hash s))"
proof (induction k arbitrary: one two)
  case 0
  then show ?case
    by (subst ydb_hash_to_string.simps) simp
next
  case (Suc k)
  have digit: "a mod 62 + 62 * (a div 62 mod 62 ^ k) = a mod 62 ^ Suc k" for a :: nat
    by (simp add: mod_mult2_eq)
  have "string_to_hash (ydb_hash_to_string one two (2 * Suc k) @ s)
      = (let (a, b) = string_to_hash (ydb_hash_to_string (one div 62) (two div 62) (2 * k) @ s)
         in (unat one mod 62 + 62 * a, unat two mod 62 + 62 * b))"
    by (simp add: ydb_hash_to_string_step positions_base62 hash_digit unat_mod)
  also have "\<dots> = (unat one mod 62 + 62 * (unat one div 62 mod 62 ^ k + 62 ^ k * fst (string_to_hash s)),
      unat two mod 62 + 62 * (unat two div 62 mod 62 ^ k + 62 ^ k * snd (string_to_hash s)))"
    by (simp add: Suc.IH unat_div)
  also have "\<dots> = (unat one mod 62 ^ Suc k + 62 ^ Suc k * fst (string_to_hash s), unat two mod 62 ^ Suc k + 62 ^ Suc k * snd (string_to_hash s))"
    by (simp only: distrib_left digit [symmetric] add.assoc [symmetric]) simp
  finally show ?case .
qed

lemma take_hash_string: "2 * k \<le> n \<Longrightarrow> take (2 * k) (ydb_hash_to_string one two n) = ydb_hash_to_string one two (2 * k)"
proof (induction k arbitrary: one two n)
  case 0
  then show ?case
    by (simp add: ydb_hash_to_string.simps [of _ _ 0])
next
  case (Suc k)
  then have n: "n = Suc (Suc (n - 2))" "2 * k \<le> n - 2"
    by simp_all
  have "take (2 * Suc k) (ydb_hash_to_string one two (Suc (Suc (n - 2)))) = ydb_hash_to_string one two (2 * Suc k)"
    using Suc.IH [OF n(2)] by (simp add: ydb_hash_to_string_step)
  then show ?case
    by (simp only: n(1) [symmetric])
qed

text \<open>Eleven digits are enough for a word.\<close>

lemma hash_read_back:
  assumes "22 \<le> n"
  shows "string_to_hash (take 22 (ydb_hash_to_string one two n)) = (unat one, unat two)"
proof -
  have "unat w < 62 ^ 11" for w :: "64 word"
  proof -
    have "unat w < 2 ^ 64"
      using unsigned_less [of w] by simp
    then show ?thesis
      by simp
  qed
  moreover have "take 22 (ydb_hash_to_string one two n) = ydb_hash_to_string one two (2 * 11) @ []"
    using take_hash_string [of 11 n one two] assms by simp
  ultimately show ?thesis
    using string_to_hash_string [of one two 11 "[]"] by simp
qed

lemma generate_name_type_name:
  assumes "22 \<le> max_routine_len - 9" and "even (max_routine_len - 9)"
  shows "generate_name_type max_routine_len name_type one two (if is_global name_type then max_routine_len + 2 else max_routine_len + 1)
    = Some (name_prefix name_type @ ydb_hash_to_string one two (max_routine_len - 9))"
proof -
  have "(if is_global name_type then max_routine_len + 2 else max_routine_len + 1) - length (name_prefix name_type) - 1 = max_routine_len - 9"
    by (cases name_type) (simp_all add: is_global_def name_prefix_def)
  moreover have "length (ydb_hash_to_string one two (max_routine_len - 9)) = max_routine_len - 9"
    using assms(2) by (simp add: length_hash_string even_iff_mod_2_eq_zero)
  ultimately show ?thesis
    by (simp add: generate_name_type_def Let_def)
qed

text \<open>The prefixes differ before the digits begin, and eleven digits give back a word.\<close>

lemma name_prefix_inject: "name_prefix k @ s = name_prefix k' @ s' \<Longrightarrow> k = k' \<and> s = s'"
  by (cases k; cases k') (simp_all add: name_prefix_def)

lemma name_inject:
  assumes "name_prefix k @ ydb_hash_to_string one two 22 = name_prefix k' @ ydb_hash_to_string one' two' 22"
  shows "k' = k \<and> one' = one \<and> two' = two"
proof -
  have read: "string_to_hash (ydb_hash_to_string a b 22) = (unat a, unat b)" for a b
    using hash_read_back [of 22 a b] by (simp add: length_hash_string)
  have "k = k'" "ydb_hash_to_string one two 22 = ydb_hash_to_string one' two' 22"
    using name_prefix_inject [OF assms] by simp_all
  then have "unat one = unat one'" "unat two = unat two'"
    using read [of one two] read [of one' two'] by simp_all
  with \<open>k = k'\<close> show ?thesis by (simp add: word_unat_eq_iff)
qed

section \<open>Properties\<close>

text \<open>C37: The name that a constraint gets fits in the buffer, ends with the kind of the constraint and its number, and begins with the names of the
  table and the column: whole ones if there is room, else as much of both as fills the buffer exactly. The number follows the kind directly, as in \<open>check1\<close>; the
  comment of the function says that a number has an underscore before it.\<close>

theorem constraint_name_fits:
  assumes "constraint_suffix keyword = Some suffix" and "length suffix + length (constraint_number n) + 3 \<le> ret_buf_size"
  shows "\<exists>name i j. constraint_name_auto_generate keyword unique table column n ret_buf_size = Some name \<and> length name < ret_buf_size
    \<and> (case constraint_column keyword unique column of
         None \<Rightarrow> name = take i table @ ''_'' @ suffix @ constraint_number n \<and> (length table \<le> i \<or> length name + 1 = ret_buf_size)
       | Some c \<Rightarrow> name = take i table @ ''_'' @ take j c @ ''_'' @ suffix @ constraint_number n
           \<and> (length table \<le> i \<and> length c \<le> j \<or> length name + 1 = ret_buf_size))"
  by (rule constraint_name_cut [OF assms])

theorem constraint_name_fits_witness:
  "\<exists>name i j. constraint_name_auto_generate UNIQUE_CONSTRAINT [''id'', ''name''] ''employees'' None 3 20 = Some name \<and> length name < 20
    \<and> (case constraint_column UNIQUE_CONSTRAINT [''id'', ''name''] None of
         None \<Rightarrow> name = take i ''employees'' @ ''_'' @ ''key'' @ constraint_number 3 \<and> (length ''employees'' \<le> i \<or> length name + 1 = 20)
       | Some c \<Rightarrow> name = take i ''employees'' @ ''_'' @ take j c @ ''_'' @ ''key'' @ constraint_number 3
           \<and> (length ''employees'' \<le> i \<and> length c \<le> j \<or> length name + 1 = 20))"
  by (rule constraint_name_fits) (simp_all add: constraint_suffix_def constraint_number_def show_nat_small)

text \<open>Constraints of one kind with different numbers have different names, also when the names of the tables and columns are cut, so that
  counting up finds a name that is not in use.\<close>

theorem numbered_names_differ:
  assumes "constraint_name_auto_generate keyword unique table column m ret_buf_size = Some a"
    and "constraint_name_auto_generate keyword unique' table' column' n ret_buf_size' = Some b" and "m \<noteq> n"
  shows "a \<noteq> b"
  by (rule constraint_names_differ [OF assms])

theorem numbered_names_differ_witness: "''abc_check'' \<noteq> ''ab_check12''"
proof -
  have digits: "digit_char (Suc 0) = CHR ''1''" "digit_char 2 = CHR ''2''"
    by code_simp+
  show ?thesis
    by (rule numbered_names_differ [where keyword = OPTIONAL_CHECK_CONSTRAINT and unique = "[]" and unique' = "[]" and table = "''abc''"
          and table' = "''abcd''" and column = None and column' = None and m = 0 and n = 12 and ret_buf_size = 64 and ret_buf_size' = 11])
      (simp_all add: constraint_name_auto_generate_def constraint_suffix_def constraint_column_def constraint_number_def precise_def Let_def
        show_nat_step show_nat_small digits)
qed

text \<open>C36: The name of a routine or global has the full length that an M name can have, the hash can be read back from it, and it determines
  its kind and all 128 bits of the hash: whatever else is named, of another kind or with another hash, has another name.\<close>

theorem names_determine_hashes:
  assumes "max_routine_len = 31"
  shows "\<exists>name. generate_name_type max_routine_len name_type one two (if is_global name_type then max_routine_len + 2 else max_routine_len + 1) = Some name
    \<and> length name = (if is_global name_type then max_routine_len + 1 else max_routine_len)
    \<and> string_to_hash (drop (length (name_prefix name_type)) name) = (unat one, unat two)
    \<and> (\<forall>name_type' one' two' ret_name_len.
         generate_name_type max_routine_len name_type' one' two' ret_name_len = Some name \<longrightarrow> name_type' = name_type \<and> one' = one \<and> two' = two)"
proof -
  let ?name = "name_prefix name_type @ ydb_hash_to_string one two 22"
  have "generate_name_type max_routine_len name_type one two (if is_global name_type then max_routine_len + 2 else max_routine_len + 1)
      = Some ?name"
    using generate_name_type_name [of max_routine_len name_type one two] assms by simp
  moreover have "length (name_prefix name_type) = (if is_global name_type then 10 else 9)"
    by (cases name_type) (simp_all add: name_prefix_def is_global_def)
  moreover have "string_to_hash (ydb_hash_to_string one two 22) = (unat one, unat two)"
    using hash_read_back [of 22 one two] by (simp add: length_hash_string)
  moreover have "name_type' = name_type \<and> one' = one \<and> two' = two"
    if "generate_name_type max_routine_len name_type' one' two' ret_name_len = Some ?name" for name_type' one' two' ret_name_len
  proof -
    have "ret_name_len = (if is_global name_type' then max_routine_len + 2 else max_routine_len + 1)"
      using that by (auto simp: generate_name_type_def split: if_splits)
    then have "?name = name_prefix name_type' @ ydb_hash_to_string one' two' 22"
      using that generate_name_type_name [of max_routine_len name_type' one' two'] assms by simp
    then show ?thesis
      by (rule name_inject)
  qed
  ultimately show ?thesis
    using assms by (intro exI [of _ ?name]) (auto simp: length_hash_string)
qed

theorem names_determine_hashes_witness:
  "\<exists>name. generate_name_type 31 TableGlobal 12345 0 33 = Some name \<and> length name = 32
    \<and> string_to_hash (drop (length (name_prefix TableGlobal)) name) = (12345, 0)
    \<and> (\<forall>name_type' one' two' ret_name_len.
         generate_name_type 31 name_type' one' two' ret_name_len = Some name \<longrightarrow> name_type' = TableGlobal \<and> one' = 12345 \<and> two' = 0)"
  using names_determine_hashes [OF refl, of TableGlobal 12345 0] by (simp add: is_global_def)

end
