(* ===== verification/MemoryChunk.thy ===== *)
theory MemoryChunk
  imports Prelude "HOL-Library.Word" "HOL-Library.Monad_Syntax"
begin

text \<open>
  The circular lists of \<open>double_list.h\<close>, which the whole parse tree is built of, and the memory chunks of
  \<open>memory_chunk.c\<close>: \<open>octo_cmalloc\<close> gives out pieces of the last chunk of a circular list, and \<open>octo_cfree\<close> frees
  all of them.

  Pointers are numbers, and the fields of the structures are maps from pointers. \<open>malloc\<close> gives a new pointer and never fails; sizes
  and offsets are \<open>size_t\<close> and wrap around. \<open>None\<close> is a failed \<open>assert\<close>, a pointer that was freed, or no result.
\<close>

section \<open>Circular lists\<close>

record links =
  links_next :: "nat \<Rightarrow> nat"
  links_prev :: "nat \<Rightarrow> nat"

definition set_next :: "nat \<Rightarrow> nat \<Rightarrow> 'a links_scheme \<Rightarrow> 'a links_scheme" where
  "set_next p q h = h\<lparr>links_next := (links_next h)(p := q)\<rparr>"

definition set_prev :: "nat \<Rightarrow> nat \<Rightarrow> 'a links_scheme \<Rightarrow> 'a links_scheme" where
  "set_prev p q h = h\<lparr>links_prev := (links_prev h)(p := q)\<rparr>"

definition dqinit :: "nat \<Rightarrow> 'a links_scheme \<Rightarrow> 'a links_scheme" where
  "dqinit p h = set_prev p p (set_next p p h)"

definition dqappend :: "nat \<Rightarrow> nat \<Rightarrow> 'a links_scheme \<Rightarrow> 'a links_scheme" where
  "dqappend self new_elem h =
     (let tmpPtr = links_prev h self;
          h = set_next (links_prev h self) new_elem h;
          h = set_prev self (links_prev h new_elem) h;
          h = set_next (links_prev h new_elem) self h
      in set_prev new_elem tmpPtr h)"

definition dqdel :: "nat \<Rightarrow> 'a links_scheme \<Rightarrow> 'a links_scheme" where
  "dqdel self h =
     (let h = set_next (links_prev h self) (links_next h self) h;
          h = set_prev (links_next h self) (links_prev h self) h
      in dqinit self h)"

text \<open>The pointers of a ring in the order of \<open>next\<close>, from its first element.\<close>

fun path :: "(nat \<Rightarrow> nat) \<Rightarrow> nat list \<Rightarrow> bool" where
  "path f (p # q # ps) = (f p = q \<and> path f (q # ps))"
| "path f _ = True"

definition ring :: "'a links_scheme \<Rightarrow> nat list \<Rightarrow> bool" where
  "ring h xs \<longleftrightarrow> xs \<noteq> [] \<and> distinct xs \<and> path (links_next h) (xs @ [hd xs]) \<and> path (links_prev h) (hd xs # rev xs)"

section \<open>Chunks\<close>

record heap = links +
  chunk_offset :: "nat \<Rightarrow> 64 word"
  chunk_max_size :: "nat \<Rightarrow> 64 word"
  next_pointer :: nat
  live :: "nat list"

definition MEMORY_CHUNK_SIZE :: "64 word" where "MEMORY_CHUNK_SIZE = 1048576"

definition alloc_chunk :: "64 word \<Rightarrow> heap \<Rightarrow> nat \<times> heap" where
  "alloc_chunk sz h =
     (let ret = next_pointer h; h = h\<lparr>next_pointer := Suc ret, live := ret # live h\<rparr>;
          h = dqinit ret (h\<lparr>chunk_offset := (chunk_offset h)(ret := 0)\<rparr>)
      in (ret, h\<lparr>chunk_max_size := (chunk_max_size h)(ret := sz)\<rparr>))"

text \<open>The chunk and the offset of the memory that is given out.\<close>

definition octo_cmalloc :: "nat \<Rightarrow> 64 word \<Rightarrow> heap \<Rightarrow> ((nat \<times> 64 word) \<times> heap) option" where
  "octo_cmalloc root sz h =
     (let cur = links_prev h root
      in case (if chunk_max_size h cur < chunk_offset h cur + sz then
                 (let (new, h) = alloc_chunk (if MEMORY_CHUNK_SIZE < sz then sz else MEMORY_CHUNK_SIZE) h;
                      h = dqappend root new h
                  in if links_prev h root = new \<and> links_next h new = root then Some (links_prev h root, h) else None)
               else Some (cur, h)) of
           None \<Rightarrow> None
         | Some (cur, h) \<Rightarrow>
             if cur \<notin> set (live h) then None
             else Some ((cur, chunk_offset h cur), h\<lparr>chunk_offset := (chunk_offset h)(cur := chunk_offset h cur + sz)\<rparr>))"

text \<open>
  \<open>cur->next\<close> is read from a chunk that must not have been freed. \<open>free_chunk\<close> frees the value of a chunk, to which the chunk has the pointer, and the
  chunk.
\<close>

definition read_next :: "nat \<Rightarrow> heap \<Rightarrow> nat option" where
  "read_next c h = (if c \<in> set (live h) then Some (links_next h c) else None)"

definition free_chunk :: "nat \<Rightarrow> heap \<Rightarrow> heap option" where
  "free_chunk c h = (if c \<in> set (live h) then Some (h\<lparr>live := remove1 c (live h)\<rparr>) else None)"

text \<open>The loop of \<open>octo_cfree\<close>; what it frees is in the result, in order.\<close>

partial_function (option) octo_cfree_loop :: "nat \<Rightarrow> nat \<Rightarrow> heap \<Rightarrow> (nat list \<times> heap) option" where
  "octo_cfree_loop root cur h = do {
     next \<leftarrow> read_next cur h;
     if next = root then map_option (Pair [cur]) (free_chunk cur h)
     else do {
       h \<leftarrow> free_chunk cur h;
       (freed, h) \<leftarrow> octo_cfree_loop root next h;
       Some (cur # freed, h)
     }
   }"

definition octo_cfree :: "nat \<Rightarrow> heap \<Rightarrow> (nat list \<times> heap) option" where
  "octo_cfree root h = octo_cfree_loop root root h"

section \<open>Rings\<close>

lemma path_append: "path f (xs @ [p]) \<and> path f (p # ys) \<longleftrightarrow> path f (xs @ p # ys)"
  by (induction f xs rule: path.induct) auto

lemma path_cong: "(\<And>p. p \<in> set (butlast xs) \<Longrightarrow> f p = g p) \<Longrightarrow> path f xs = path g xs"
  by (induction f xs rule: path.induct) auto

lemma path_snoc: "xs \<noteq> [] \<Longrightarrow> path f (xs @ [p]) \<longleftrightarrow> path f xs \<and> f (last xs) = p"
  by (induction f xs rule: path.induct) auto

lemma path_Cons: "xs \<noteq> [] \<Longrightarrow> path f (p # xs) \<longleftrightarrow> f p = hd xs \<and> path f xs"
  by (cases xs) auto

lemma ring_iff:
  "ring h xs \<longleftrightarrow> xs \<noteq> [] \<and> distinct xs \<and> path (links_next h) xs \<and> links_next h (last xs) = hd xs
     \<and> path (links_prev h) (rev xs) \<and> links_prev h (hd xs) = last xs"
proof (cases "xs = []")
  case False
  then show ?thesis by (auto simp: ring_def path_snoc path_Cons hd_rev)
qed (simp add: ring_def)

lemma set_link_simps [simp]:
  "links_next (set_next p q h) = (links_next h)(p := q)" "links_prev (set_next p q h) = links_prev h"
  "links_prev (set_prev p q h) = (links_prev h)(p := q)" "links_next (set_prev p q h) = links_next h"
  by (simp_all add: set_next_def set_prev_def)

lemma ring_dqinit: "ring (dqinit p h) [p]"
  by (simp add: ring_iff dqinit_def)

lemma dqappend_links:
  assumes "ring h xs" and "ring h ys" and "set xs \<inter> set ys = {}"
  shows "links_next (dqappend (hd xs) (hd ys) h) = (links_next h)(last xs := hd ys, last ys := hd xs)"
    and "links_prev (dqappend (hd xs) (hd ys) h) = (links_prev h)(hd xs := last ys, hd ys := last xs)"
proof -
  have "hd xs \<noteq> hd ys" using assms by (metis IntI empty_iff hd_in_set ring_iff)
  then show "links_next (dqappend (hd xs) (hd ys) h) = (links_next h)(last xs := hd ys, last ys := hd xs)"
    and "links_prev (dqappend (hd xs) (hd ys) h) = (links_prev h)(hd xs := last ys, hd ys := last xs)"
    using assms by (simp_all add: dqappend_def Let_def ring_iff)
qed

lemma path_join:
  "xs \<noteq> [] \<Longrightarrow> ys \<noteq> [] \<Longrightarrow> path f (xs @ ys) \<longleftrightarrow> path f xs \<and> f (last xs) = hd ys \<and> path f ys"
  by (induction f xs rule: path.induct) (auto simp: neq_Nil_conv)

lemma dqappend_ring:
  assumes xs: "ring h xs" and ys: "ring h ys" and dis: "set xs \<inter> set ys = {}"
  shows "ring (dqappend (hd xs) (hd ys) h) (xs @ ys)"
proof -
  note l = dqappend_links [OF assms]
  have ne: "xs \<noteq> []" "ys \<noteq> []" and d: "distinct xs" "distinct ys" using xs ys by (simp_all add: ring_iff)
  have last: "last zs \<notin> set (butlast zs)" if "distinct zs" "zs \<noteq> []" for zs :: "nat list"
    using that by (metis append_butlast_last_id distinct_append insert_iff list.simps(15) disjoint_iff)
  have n: "path (links_next (dqappend (hd xs) (hd ys) h)) zs = path (links_next h) zs" if "zs = xs \<or> zs = ys" for zs
    using that dis last [OF d(1) ne(1)] last [OF d(2) ne(2)] last_in_set [OF ne(1)] last_in_set [OF ne(2)]
    by (intro path_cong) (auto simp: l dest: in_set_butlastD)
  have hd: "hd zs \<notin> set (butlast (rev zs))" if "distinct zs" "zs \<noteq> []" for zs :: "nat list"
    using last [of "rev zs"] that by (simp add: last_rev)
  have p: "path (links_prev (dqappend (hd xs) (hd ys) h)) (rev zs) = path (links_prev h) (rev zs)" if "zs = xs \<or> zs = ys" for zs
    using that dis hd [OF d(1) ne(1)] hd [OF d(2) ne(2)] hd_in_set [OF ne(1)] hd_in_set [OF ne(2)]
    by (intro path_cong) (auto simp: l dest!: in_set_butlastD dest: list.set_sel(2) [OF ne(1)] list.set_sel(2) [OF ne(2)])
  have neq: "hd xs \<noteq> hd ys" "last xs \<noteq> last ys" using dis ne by (metis IntI empty_iff hd_in_set, metis IntI empty_iff last_in_set)
  show ?thesis
    using xs ys ne d dis n p neq unfolding ring_iff rev_append
    by (simp add: path_join l last_rev hd_rev)
qed
lemma ring_rotate: "ring h (x # xs) \<longleftrightarrow> ring h (xs @ [x])"
  by (cases xs) (auto simp: ring_iff path_snoc path_Cons hd_rev path_join last_rev)

text \<open>Deleting the first element of a list of two or more, which after rotation is any element.\<close>

lemma dqdel_ring:
  assumes r: "ring h (x # xs)" and ne: "xs \<noteq> []"
  shows "ring (dqdel x h) xs" and "ring (dqdel x h) [x]"
proof -
  have x: "x \<notin> set xs" "links_next h x = hd xs" "links_prev h x = last xs"
    and xs: "path (links_next h) xs" "path (links_prev h) (rev xs)" "distinct xs"
    using r ne by (auto simp: ring_iff path_Cons path_snoc)
  have "hd xs \<in> set xs" "last xs \<in> set xs" using ne by simp_all
  then have l: "links_next (dqdel x h) = (links_next h)(last xs := hd xs, x := x)"
    "links_prev (dqdel x h) = (links_prev h)(hd xs := last xs, x := x)"
    using x by (auto simp: dqdel_def dqinit_def Let_def)
  have last: "last zs \<notin> set (butlast zs)" if "distinct zs" "zs \<noteq> []" for zs :: "nat list"
    using that by (metis append_butlast_last_id distinct_append insert_iff list.simps(15) disjoint_iff)
  have hd: "hd xs \<notin> set (butlast (rev xs))" using last [of "rev xs"] xs(3) ne by (simp add: last_rev)
  have "path (links_next (dqdel x h)) xs = path (links_next h) xs"
    by (rule path_cong) (use x(1) last [OF xs(3) ne] in \<open>auto simp: l dest: in_set_butlastD\<close>)
  moreover have "path (links_prev (dqdel x h)) (rev xs) = path (links_prev h) (rev xs)"
    by (rule path_cong) (use x(1) hd in \<open>auto simp: l dest: in_set_butlastD list.set_sel(2) [OF ne]\<close>)
  ultimately have "path (links_next (dqdel x h)) xs" "path (links_prev (dqdel x h)) (rev xs)" using xs by simp_all
  then show "ring (dqdel x h) xs" using xs(3) ne x(1) \<open>hd xs \<in> set xs\<close> \<open>last xs \<in> set xs\<close> by (auto simp: ring_iff l)
  show "ring (dqdel x h) [x]" by (simp add: ring_iff l)
qed

section \<open>The arena of a root chunk\<close>

definition small :: "64 word \<Rightarrow> bool" where
  "small w \<longleftrightarrow> unat w < 2 ^ 63"

definition arena :: "heap \<Rightarrow> nat \<Rightarrow> nat list \<Rightarrow> bool" where
  "arena h root cs \<longleftrightarrow> ring h (root # cs) \<and> set (root # cs) \<subseteq> set (live h) \<and> distinct (live h)
     \<and> (\<forall>c\<in>set (live h). c < next_pointer h)
     \<and> (\<forall>c\<in>set (root # cs). chunk_offset h c \<le> chunk_max_size h c \<and> small (chunk_max_size h c))"

lemma ring_cong: "links_next h = links_next h' \<Longrightarrow> links_prev h = links_prev h' \<Longrightarrow> ring h xs = ring h' xs"
  by (simp add: ring_iff)

lemma ring_frame:
  assumes "ring h xs" and "\<And>p. p \<in> set xs \<Longrightarrow> links_next h' p = links_next h p \<and> links_prev h' p = links_prev h p"
  shows "ring h' xs"
proof -
  have ne: "xs \<noteq> []" using assms(1) by (simp add: ring_iff)
  have "path (links_next h') xs = path (links_next h) xs" "path (links_prev h') (rev xs) = path (links_prev h) (rev xs)"
    by (rule path_cong; use assms(2) in \<open>auto dest: in_set_butlastD list.set_sel(2) [OF ne]\<close>)+
  then show ?thesis using assms by (auto simp: ring_iff)
qed

lemma dqappend_fields [simp]:
  "chunk_offset (dqappend p q h) = chunk_offset h" "chunk_max_size (dqappend p q h) = chunk_max_size h"
  "live (dqappend p q h) = live h" "next_pointer (dqappend p q h) = next_pointer h"
  by (simp_all add: dqappend_def Let_def set_next_def set_prev_def)

text \<open>A new chunk is a ring of its own, apart from all rings there are.\<close>

lemma alloc_chunk_simps:
  assumes "alloc_chunk n h = (c, h')"
  shows "c = next_pointer h" and "next_pointer h' = Suc (next_pointer h)" and "live h' = c # live h"
    and "chunk_offset h' = (chunk_offset h)(c := 0)" and "chunk_max_size h' = (chunk_max_size h)(c := n)"
    and "links_next h' = (links_next h)(c := c)" and "links_prev h' = (links_prev h)(c := c)"
  using assms by (auto simp: alloc_chunk_def Let_def dqinit_def set_next_def set_prev_def)

lemma arena_append:
  assumes a: "arena h root cs" and new: "alloc_chunk n h = (c, h1)" and n: "small n"
  shows "arena (dqappend root c h1) root (cs @ [c])" and "links_prev (dqappend root c h1) root = c"
    and "links_next (dqappend root c h1) c = root" and "c \<notin> set (root # cs)"
proof -
  note c = alloc_chunk_simps [OF new]
  have r: "ring h (root # cs)" and lt: "\<forall>d\<in>set (root # cs). d < next_pointer h" using a by (auto simp: arena_def)
  then show out: "c \<notin> set (root # cs)" using c(1) by auto
  have r1: "ring h1 (root # cs)" by (rule ring_frame [OF r]) (use out c(6,7) in auto)
  have r2: "ring h1 [c]" using c(6,7) by (simp add: ring_iff)
  have "set (root # cs) \<inter> set [c] = {}" using out by auto
  from dqappend_ring [OF r1 r2 this] have r3: "ring (dqappend root c h1) (root # cs @ [c])" by simp
  then show "links_prev (dqappend root c h1) root = c" "links_next (dqappend root c h1) c = root"
    by (auto simp: ring_iff)
  show "arena (dqappend root c h1) root (cs @ [c])"
    using r3 a n out lt unfolding arena_def by (auto simp: c(1-5) less_Suc_eq)
qed

lemma arena_take:
  assumes a: "arena h root cs" and c: "c \<in> set (root # cs)" and fits: "unat (chunk_offset h c) + unat n \<le> unat (chunk_max_size h c)"
  shows "arena (h\<lparr>chunk_offset := (chunk_offset h)(c := chunk_offset h c + n)\<rparr>) root cs"
    and "unat (chunk_offset h c + n) = unat (chunk_offset h c) + unat n"
proof -
  have "unat (chunk_offset h c) + unat n < 2 ^ 64" using fits unsigned_less [of "chunk_max_size h c", where ?'a = nat] by simp
  then show u: "unat (chunk_offset h c + n) = unat (chunk_offset h c) + unat n"
    by (simp add: unat_add_lem [THEN iffD1])
  have "ring (h\<lparr>chunk_offset := (chunk_offset h)(c := chunk_offset h c + n)\<rparr>) (root # cs)"
    by (rule ring_frame [of h]) (use a in \<open>auto simp: arena_def\<close>)
  then show "arena (h\<lparr>chunk_offset := (chunk_offset h)(c := chunk_offset h c + n)\<rparr>) root cs"
    using a fits u unfolding arena_def by (auto simp: word_le_nat_alt)
qed

text \<open>One allocation: the memory starts where the chunk was free, and ends where it is free now.\<close>

lemma octo_cmalloc_step:
  assumes a: "arena h root cs" and n: "small n"
  shows "\<exists>c off h' cs'. octo_cmalloc root n h = Some ((c, off), h') \<and> arena h' root cs' \<and> c \<in> set (root # cs')
    \<and> set (root # cs) \<subseteq> set (root # cs') \<and> unat (chunk_offset h' c) = unat off + unat n
    \<and> (\<forall>d\<in>set (root # cs). (d \<noteq> c \<longrightarrow> chunk_offset h' d = chunk_offset h d) \<and> (d = c \<longrightarrow> off = chunk_offset h d)
        \<and> chunk_max_size h' d = chunk_max_size h d)"
proof -
  let ?cur = "links_prev h root"
  have cur: "?cur = last (root # cs)" using a unfolding arena_def ring_iff by simp
  then have mem: "?cur \<in> set (root # cs)" by (metis last_in_set list.distinct(1))
  have small: "chunk_offset h ?cur \<le> chunk_max_size h ?cur" "small (chunk_max_size h ?cur)" using a mem by (auto simp: arena_def)
  then have sum: "unat (chunk_offset h ?cur + n) = unat (chunk_offset h ?cur) + unat n"
    using n by (intro unat_add_lem [THEN iffD1]) (simp add: small_def word_le_nat_alt)
  show ?thesis
  proof (cases "chunk_max_size h ?cur < chunk_offset h ?cur + n")
    case False
    then have fits: "unat (chunk_offset h ?cur) + unat n \<le> unat (chunk_max_size h ?cur)"
      using sum by (simp add: word_less_nat_alt)
    have "?cur \<in> set (live h)" using a mem by (auto simp: arena_def)
    then have r: "octo_cmalloc root n h = Some ((?cur, chunk_offset h ?cur),
        h\<lparr>chunk_offset := (chunk_offset h)(?cur := chunk_offset h ?cur + n)\<rparr>)"
      using False by (simp add: octo_cmalloc_def Let_def)
    show ?thesis
      by (rule exI [of _ ?cur], rule exI [of _ "chunk_offset h ?cur"], intro exI conjI, rule r, rule arena_take(1) [OF a mem fits])
        (use mem sum in auto)
  next
    case True
    let ?n = "if MEMORY_CHUNK_SIZE < n then n else MEMORY_CHUNK_SIZE"
    obtain c h1 where new: "alloc_chunk ?n h = (c, h1)" by fastforce
    let ?h = "dqappend root c h1"
    have "small ?n" using n by (simp add: small_def MEMORY_CHUNK_SIZE_def)
    note app = arena_append [OF a new this] and c = alloc_chunk_simps [OF new]
    have "unat n \<le> unat ?n" by (simp add: word_less_nat_alt)
    then have fits: "unat (chunk_offset ?h c) + unat n \<le> unat (chunk_max_size ?h c)" by (simp add: c)
    have r: "octo_cmalloc root n h = Some ((c, chunk_offset ?h c), ?h\<lparr>chunk_offset := (chunk_offset ?h)(c := chunk_offset ?h c + n)\<rparr>)"
      using True new app(2,3) c(3) by (simp add: octo_cmalloc_def Let_def)
    have mem: "c \<in> set (root # cs @ [c])" by simp
    show ?thesis
      by (rule exI [of _ c], rule exI [of _ "chunk_offset ?h c"], intro exI conjI, rule r, rule arena_take(1) [OF app(1) mem fits])
        (use app(4) in \<open>auto simp: c\<close>)
  qed
qed
section \<open>Many allocations, and the end\<close>

fun octo_cmallocs :: "nat \<Rightarrow> 64 word list \<Rightarrow> heap \<Rightarrow> ((nat \<times> 64 word \<times> 64 word) list \<times> heap) option" where
  "octo_cmallocs root [] h = Some ([], h)"
| "octo_cmallocs root (n # ns) h =
     Option.bind (octo_cmalloc root n h) (\<lambda>((c, off), h).
       Option.bind (octo_cmallocs root ns h) (\<lambda>(regions, h). Some ((c, off, n) # regions, h)))"

text \<open>A region lies in its chunk, and behind all that was given out of the chunk before.\<close>

definition in_chunk :: "heap \<Rightarrow> nat \<times> 64 word \<times> 64 word \<Rightarrow> bool" where
  "in_chunk h r = (case r of (c, off, n) \<Rightarrow> unat off + unat n \<le> unat (chunk_max_size h c))"

definition behind :: "heap \<Rightarrow> nat list \<Rightarrow> nat \<times> 64 word \<times> 64 word \<Rightarrow> bool" where
  "behind h cs r = (case r of (c, off, n) \<Rightarrow> c \<notin> set cs \<or> chunk_offset h c \<le> off)"

definition apart :: "nat \<times> 64 word \<times> 64 word \<Rightarrow> nat \<times> 64 word \<times> 64 word \<Rightarrow> bool" where
  "apart r r' = (case (r, r') of ((c, off, n), (c', off', n')) \<Rightarrow>
     c \<noteq> c' \<or> unat off + unat n \<le> unat off' \<or> unat off' + unat n' \<le> unat off)"

lemma octo_cmallocs_spec:
  assumes "arena h root cs" and "list_all small ns"
  shows "\<exists>regions h' cs'. octo_cmallocs root ns h = Some (regions, h') \<and> arena h' root cs' \<and> set (root # cs) \<subseteq> set (root # cs')
    \<and> (\<forall>d\<in>set (root # cs). chunk_offset h d \<le> chunk_offset h' d \<and> chunk_max_size h' d = chunk_max_size h d)
    \<and> map (\<lambda>(c, off, n). n) regions = ns \<and> list_all (\<lambda>(c, off, n). c \<in> set (root # cs')) regions
    \<and> list_all (in_chunk h') regions \<and> list_all (behind h (root # cs)) regions \<and> sorted_wrt apart regions"
  using assms
proof (induction ns arbitrary: h cs)
  case Nil
  then show ?case by (intro exI [of _ "[]"]) auto
next
  case (Cons n ns)
  then obtain c off h1 cs1 where 1: "octo_cmalloc root n h = Some ((c, off), h1)" "arena h1 root cs1" "c \<in> set (root # cs1)"
    and sub: "set (root # cs) \<subseteq> set (root # cs1)" and top: "unat (chunk_offset h1 c) = unat off + unat n"
    and same: "\<forall>d\<in>set (root # cs). (d \<noteq> c \<longrightarrow> chunk_offset h1 d = chunk_offset h d) \<and> (d = c \<longrightarrow> off = chunk_offset h d)
        \<and> chunk_max_size h1 d = chunk_max_size h d"
    using octo_cmalloc_step [of h root cs n] by auto
  have "list_all small ns" using Cons.prems(2) by simp
  from Cons.IH [OF 1(2) this] obtain regions h2 cs2 where 2: "octo_cmallocs root ns h1 = Some (regions, h2)" "arena h2 root cs2"
    and sub2: "set (root # cs1) \<subseteq> set (root # cs2)"
    and mono: "\<forall>d\<in>set (root # cs1). chunk_offset h1 d \<le> chunk_offset h2 d \<and> chunk_max_size h2 d = chunk_max_size h1 d"
    and rest: "map (\<lambda>(c, off, n). n) regions = ns" "list_all (\<lambda>(c, off, n). c \<in> set (root # cs2)) regions"
      "list_all (in_chunk h2) regions" "list_all (behind h1 (root # cs1)) regions" "sorted_wrt apart regions"
    by (elim exE conjE)
  have fits: "in_chunk h2 (c, off, n)"
    using 1(2,3) top mono by (fastforce simp: in_chunk_def arena_def word_le_nat_alt)
  have grow: "chunk_offset h d \<le> chunk_offset h1 d" if "d \<in> set (root # cs)" for d
    using same that top by (cases "d = c") (auto simp: word_le_nat_alt)
  let ?regions = "(c, off, n) # regions"
  have "octo_cmallocs root (n # ns) h = Some (?regions, h2)" using 1(1) 2(1) by simp
  moreover have "set (root # cs) \<subseteq> set (root # cs2)" using sub sub2 by blast
  moreover have "chunk_offset h d \<le> chunk_offset h2 d \<and> chunk_max_size h2 d = chunk_max_size h d" if "d \<in> set (root # cs)" for d
  proof -
    have "d \<in> set (root # cs1)" using that sub by blast
    then have "chunk_offset h1 d \<le> chunk_offset h2 d" "chunk_max_size h2 d = chunk_max_size h1 d" using mono by blast+
    then show ?thesis using grow [OF that] same that by (metis order_trans)
  qed
  moreover have "list_all (\<lambda>(c, off, n). c \<in> set (root # cs2)) ?regions" using rest(2) 1(3) sub2 by auto
  moreover have "list_all (behind h (root # cs)) ?regions"
  proof -
    have "behind h (root # cs) r" if "r \<in> set regions" for r
    proof -
      obtain d o' n' where r: "r = (d, o', n')" by (cases r)
      have "behind h1 (root # cs1) r" using rest(4) that by (simp add: list_all_iff)
      then have "d \<in> set (root # cs) \<Longrightarrow> chunk_offset h1 d \<le> o'" using sub unfolding r behind_def by blast
      then show ?thesis using grow order_trans unfolding r behind_def by blast
    qed
    moreover have "behind h (root # cs) (c, off, n)" using same by (auto simp: behind_def)
    ultimately show ?thesis by (simp add: list_all_iff)
  qed
  moreover have "sorted_wrt apart ?regions"
  proof -
    have "apart (c, off, n) r" if "r \<in> set regions" for r
    proof -
      obtain d o' n' where r: "r = (d, o', n')" by (cases r)
      have "behind h1 (root # cs1) r" using rest(4) that by (simp add: list_all_iff)
      then have "c = d \<Longrightarrow> chunk_offset h1 c \<le> o'" using 1(3) unfolding r behind_def by auto
      then show ?thesis using top unfolding r apart_def by (auto simp: word_le_nat_alt)
    qed
    then show ?thesis using rest(5) by simp
  qed
  moreover have "list_all (in_chunk h2) ?regions" using fits rest(3) by simp
  moreover have "map (\<lambda>(c, off, n). n) ?regions = n # ns" using rest(1) by simp
  ultimately show ?case using 2(2)
    by (intro exI [of _ ?regions] exI [of _ h2] exI [of _ cs2] conjI ballI) blast+
qed

text \<open>Freeing a ring: the pointer to the next chunk is read before the chunk is freed, else \<open>read_next\<close> would fail.\<close>

lemma free_chunk_links: "free_chunk c h = Some h' \<Longrightarrow> links_next h' = links_next h \<and> live h' = remove1 c (live h)"
  by (auto simp: free_chunk_def split: if_splits)

lemma octo_cfree_path:
  assumes "path (links_next h) (c # cs)" and "links_next h (last (c # cs)) = root" and "root \<notin> set cs"
    and "distinct (c # cs)" and "set (c # cs) \<subseteq> set (live h)" and "distinct (live h)"
  shows "\<exists>h'. octo_cfree_loop root c h = Some (c # cs, h') \<and> set (live h') = set (live h) - set (c # cs)"
  using assms
proof (induction cs arbitrary: c h)
  case Nil
  then show ?case by (subst octo_cfree_loop.simps) (simp add: read_next_def free_chunk_def)
next
  case (Cons d cs)
  let ?h = "h\<lparr>live := remove1 c (live h)\<rparr>"
  have "\<exists>h'. octo_cfree_loop root d ?h = Some (d # cs, h') \<and> set (live h') = set (live ?h) - set (d # cs)"
    by (rule Cons.IH) (use Cons.prems in auto)
  moreover have "links_next h c = d" "d \<noteq> root" "c \<in> set (live h)" using Cons.prems by auto
  ultimately show ?case using Cons.prems(6) by (subst octo_cfree_loop.simps) (auto simp: read_next_def free_chunk_def)
qed

lemma octo_cfree_arena:
  assumes "arena h root cs"
  shows "\<exists>h'. octo_cfree root h = Some (root # cs, h') \<and> set (live h') = set (live h) - set (root # cs)"
  unfolding octo_cfree_def by (rule octo_cfree_path) (use assms in \<open>auto simp: arena_def ring_iff\<close>)

lemma arena_start:
  assumes "alloc_chunk n h = (root, h')" and "small n" and "distinct (live h)" and "\<forall>c\<in>set (live h). c < next_pointer h"
  shows "arena h' root []"
  using assms alloc_chunk_simps [OF assms(1)] by (auto simp: arena_def ring_iff)

section \<open>Properties\<close>

text \<open>Appending a circular list to another one at a node of each gives the circular list of the elements of both, read from
  these nodes; the assignments of \<open>dqappend\<close> are in the right order for lists of every length.\<close>

theorem dqappend_joins_rings:
  assumes "ring h xs" and "ring h ys" and "set xs \<inter> set ys = {}"
  shows "ring (dqappend (hd xs) (hd ys) h) (xs @ ys)"
  by (rule dqappend_ring [OF assms])

lemma dqappend_joins_rings_witness:
  "let h = dqappend 1 2 (dqinit 3 (dqinit 2 (dqinit 1 \<lparr>links_next = (\<lambda>_. 0), links_prev = (\<lambda>_. 0)\<rparr>))) in ring (dqappend 1 3 h) [1, 2, 3]"
proof -
  let ?i = "dqinit 3 (dqinit 2 (dqinit 1 \<lparr>links_next = (\<lambda>_. 0), links_prev = (\<lambda>_. 0)\<rparr>))"
  have "ring ?i [1]" "ring ?i [2]" "ring ?i [3]" by (simp_all add: ring_iff dqinit_def)
  then have "ring (dqappend 1 2 ?i) [1, 2]" using dqappend_joins_rings [of ?i "[1]" "[2]"] by simp
  moreover have "ring (dqappend 1 2 ?i) [3]" by (simp add: ring_iff dqinit_def dqappend_def Let_def)
  ultimately show ?thesis using dqappend_joins_rings [of "dqappend 1 2 ?i" "[1, 2]" "[3]"] by (simp add: Let_def)
qed

text \<open>C32: The memory that a sequence of allocations gives out, of any sizes below \<open>2 ^ 63\<close>, is in chunks of the list and
  inside of them, and no two pieces overlap.\<close>

theorem allocations_are_apart:
  assumes "arena h root cs" and "list_all small sizes"
  shows "case octo_cmallocs root sizes h of None \<Rightarrow> False
    | Some (regions, h') \<Rightarrow> map (\<lambda>(c, off, n). n) regions = sizes \<and> list_all (in_chunk h') regions \<and> sorted_wrt apart regions
        \<and> list_all (\<lambda>(c, off, n). c \<in> set (live h')) regions"
proof -
  obtain regions h' cs' where r: "octo_cmallocs root sizes h = Some (regions, h')" "arena h' root cs'"
    "map (\<lambda>(c, off, n). n) regions = sizes" "list_all (\<lambda>(c, off, n). c \<in> set (root # cs')) regions"
    "list_all (in_chunk h') regions" "sorted_wrt apart regions"
    using octo_cmallocs_spec [OF assms] by auto
  then show ?thesis by (auto simp: arena_def list_all_iff)
qed

definition empty_heap :: heap where
  "empty_heap = \<lparr>links_next = (\<lambda>_. 0), links_prev = (\<lambda>_. 0), chunk_offset = (\<lambda>_. 0), chunk_max_size = (\<lambda>_. 0),
     next_pointer = 1, live = []\<rparr>"

lemma sample_arena: "arena (snd (alloc_chunk 100 empty_heap)) 1 []"
  by (rule arena_start [of 100 empty_heap]) (simp_all add: alloc_chunk_def empty_heap_def small_def Let_def)

lemma allocations_are_apart_witness:
  "case octo_cmallocs 1 [60, 60, 2000000, 0] (snd (alloc_chunk 100 empty_heap)) of None \<Rightarrow> False
    | Some (regions, h') \<Rightarrow> map (\<lambda>(c, off, n). n) regions = [60, 60, 2000000, 0] \<and> list_all (in_chunk h') regions
        \<and> sorted_wrt apart regions \<and> list_all (\<lambda>(c, off, n). c \<in> set (live h')) regions"
  by (rule allocations_are_apart [OF sample_arena]) (simp add: small_def)

text \<open>C33: \<open>octo_cfree\<close> comes to an end and frees every chunk of the list, each of them once, and nothing else. A read of a
  chunk that was freed, or a second free, would be \<open>None\<close>.\<close>

theorem octo_cfree_frees_all:
  assumes "arena h root cs"
  shows "case octo_cfree root h of None \<Rightarrow> False
    | Some (freed, h') \<Rightarrow> freed = root # cs \<and> distinct freed \<and> set (live h') = set (live h) - set freed"
  using octo_cfree_arena [OF assms] assms by (auto simp: arena_def ring_iff)

lemma octo_cfree_frees_all_witness:
  "\<exists>h cs. cs \<noteq> [] \<and> (case octo_cfree 1 h of None \<Rightarrow> False | Some (freed, h') \<Rightarrow> freed = 1 # cs)"
proof -
  let ?h = "snd (alloc_chunk 100 empty_heap)"
  obtain c off h' cs where r: "octo_cmalloc 1 200 ?h = Some ((c, off), h')" "arena h' 1 cs" "c \<in> set (1 # cs)"
    using octo_cmalloc_step [OF sample_arena, of 200] by (auto simp: small_def)
  have "c = 2" using r(1) by (auto simp: octo_cmalloc_def alloc_chunk_def empty_heap_def dqinit_def dqappend_def set_next_def set_prev_def Let_def
        MEMORY_CHUNK_SIZE_def split: if_splits)
  then have "cs \<noteq> []" using r(3) by auto
  then show ?thesis using octo_cfree_frees_all [OF r(2)] by (intro exI [of _ h'] exI [of _ cs]) (auto split: option.splits)
qed

end
