(* ===== verification/StatementMatch.thy ===== *)
theory StatementMatch
  imports OctoTypes "HOL-Library.Monad_Syntax"
begin

text \<open>
  \<open>match_sql_statement.c\<close>, which compares two statements, for instance an expression of ORDER BY with those of
  the select list, and \<open>copy_sql_statement.c\<close>.

  A statement is a tree; \<open>NULL\<close> is the null pointer, and a circular list is the list of its elements from the first, empty
  when the pointer is null. The fields are those that the comparison reads or the copy sets one by one. Tables, columns and
  insertions, of which only the pointer is compared, are a number. \<open>None\<close> is a failed \<open>assert\<close>, an error \<open>FATAL\<close> or the use of
  a null pointer.

  So a statement of the model is one whose pointers do not lead back to it. A comment in \<open>copy_sql_statement.c\<close> says that those of ORDER BY may
  do so, from the list of ORDER BY over an element of the select list to the statement. The copy does not follow ORDER BY and ends then too. The comparison does
  follow it: two statements with such loops that do not differ before have no end of comparisons, and are not among the statements of the
  model.
\<close>

section \<open>Statements\<close>

datatype SqlJoinType = NO_JOIN | NATURAL_JOIN | CROSS_JOIN | INNER_JOIN | RIGHT_JOIN | LEFT_JOIN | FULL_JOIN

datatype SqlAggregateType =
    AGGREGATE_COUNT_ASTERISK | AGGREGATE_COUNT | AGGREGATE_SUM | AGGREGATE_AVG | AGGREGATE_MIN | AGGREGATE_MAX
    | AGGREGATE_COUNT_DISTINCT | AGGREGATE_SUM_DISTINCT | AGGREGATE_AVG_DISTINCT
    | AGGREGATE_COUNT_DISTINCT_TABLE_ASTERISK | AGGREGATE_COUNT_TABLE_ASTERISK | AGGREGATE_LAST

record SqlDataTypeStruct =
  data_type :: SqlDataType
  size_or_precision :: int
  scale :: int
  size_or_precision_parameter_index :: int
  scale_parameter_index :: int
  format :: OptionalKeyword

text \<open>The statement types without a case in \<open>match_sql_statement\<close>.\<close>

datatype other_type =
    create_function_STATEMENT | drop_function_STATEMENT | parameter_type_list_STATEMENT | constraint_STATEMENT
    | set_operation_STATEMENT | begin_STATEMENT | commit_STATEMENT | set_STATEMENT | show_STATEMENT | no_data_STATEMENT
    | delim_char_list_STATEMENT | index_STATEMENT | join_type_STATEMENT | row_value_STATEMENT | array_STATEMENT
    | history_STATEMENT | delete_from_STATEMENT | update_STATEMENT | display_relation_STATEMENT
    | truncate_table_STATEMENT | drop_view_STATEMENT | dynamic_sql_STATEMENT | rollback_STATEMENT | invalid_STATEMENT

text \<open>The fields of \<open>SqlValue\<close> but its union \<open>v\<close>.\<close>

record SqlValue =
  value_type :: SqlValueType
  date_time_format_type :: OptionalKeyword
  coerced_type :: SqlDataTypeStruct
  pre_coerced_type :: SqlValueType
  parameter_index :: int
  is_double_quoted :: bool

text \<open>The column list of a table alias: that of another structure, or the select list of its table.\<close>

datatype column_link = Linked nat | Select_list

datatype SqlStatement =
    NULL
  | create_table_STATEMENT nat
  | create_view_STATEMENT nat
  | table_value_STATEMENT nat
  | table_alias_STATEMENT SqlStatement SqlStatement int column_link
  | select_STATEMENT SqlStatement SqlStatement SqlStatement SqlStatement SqlStatement SqlStatement SqlStatement
  | discard_all_STATEMENT
  | discard_xrefs_STATEMENT
  | drop_table_STATEMENT SqlStatement SqlStatement
  | value_STATEMENT SqlValue SqlValue_v
  | binary_STATEMENT BinaryOperations SqlStatement SqlStatement
  | unary_STATEMENT UnaryOperations SqlStatement
  | column_list_STATEMENT "SqlStatement list"
  | column_list_alias_STATEMENT "SqlColumnListAlias list"
  | column_STATEMENT nat
  | join_STATEMENT "SqlJoin list"
  | column_alias_STATEMENT SqlStatement SqlStatement
  | data_type_struct_STATEMENT SqlDataTypeStruct
  | keyword_STATEMENT "SqlOptionalKeyword list"
  | insert_STATEMENT nat
  | cas_STATEMENT SqlStatement SqlStatement SqlStatement
  | cas_branch_STATEMENT "SqlCaseBranchStatement list"
  | function_call_STATEMENT SqlStatement SqlStatement
  | greatest_STATEMENT SqlStatement
  | coalesce_STATEMENT SqlStatement
  | least_STATEMENT SqlStatement
  | null_if_STATEMENT SqlStatement SqlStatement
  | aggregate_function_STATEMENT SqlAggregateType SqlStatement
  | other_STATEMENT other_type
and SqlValue_v = reference "string option" | operand SqlStatement
and SqlColumnListAlias = SqlColumnListAlias SqlStatement SqlStatement SqlStatement SqlValueType bool
and SqlJoin = SqlJoin SqlStatement SqlStatement SqlJoinType int
and SqlOptionalKeyword = SqlOptionalKeyword OptionalKeyword SqlStatement
and SqlCaseBranchStatement = SqlCaseBranchStatement SqlStatement SqlStatement

section \<open>Comparison\<close>

text \<open>The result of a comparison, and the next comparison if it is TRUE.\<close>

definition and_then :: "bool option \<Rightarrow> bool option \<Rightarrow> bool option" (* if (!ret) break; *) where
  "and_then r s = (case r of None \<Rightarrow> None | Some ret \<Rightarrow> if \<not> ret then Some False else s)"

text \<open>The end of a round of a loop: both lists must end together.\<close>

definition at_end :: "'a list \<Rightarrow> 'b list \<Rightarrow> bool option \<Rightarrow> bool option" where
  "at_end xs ys s = (if (xs = []) \<noteq> (ys = []) then Some False else if xs = [] then Some True else s)"

primrec match_sql_statement :: "SqlStatement \<Rightarrow> SqlStatement \<Rightarrow> bool option"
and match_value :: "SqlValueType \<Rightarrow> SqlValue_v \<Rightarrow> SqlValue_v \<Rightarrow> bool option"
and match_columns :: "SqlStatement list \<Rightarrow> SqlStatement list \<Rightarrow> bool option"
and match_cl_aliases :: "SqlColumnListAlias list \<Rightarrow> SqlColumnListAlias list \<Rightarrow> bool option"
and match_cl_alias :: "SqlColumnListAlias \<Rightarrow> SqlColumnListAlias \<Rightarrow> bool option"
and match_joins :: "SqlJoin list \<Rightarrow> SqlJoin list \<Rightarrow> bool option"
and match_join :: "SqlJoin \<Rightarrow> SqlJoin \<Rightarrow> bool option"
and match_keywords :: "SqlOptionalKeyword list \<Rightarrow> SqlOptionalKeyword list \<Rightarrow> bool option"
and match_keyword :: "SqlOptionalKeyword \<Rightarrow> SqlOptionalKeyword \<Rightarrow> bool option"
and match_branches :: "SqlCaseBranchStatement list \<Rightarrow> SqlCaseBranchStatement list \<Rightarrow> bool option"
and match_branch :: "SqlCaseBranchStatement \<Rightarrow> SqlCaseBranchStatement \<Rightarrow> bool option" where
  "match_sql_statement NULL t = Some (t = NULL)"
| "match_sql_statement (create_table_STATEMENT p) t =
     (case t of create_table_STATEMENT q \<Rightarrow> Some (p = q) | _ \<Rightarrow> Some False)"
| "match_sql_statement (create_view_STATEMENT p) t =
     (case t of create_view_STATEMENT q \<Rightarrow> Some (p = q) | _ \<Rightarrow> Some False)"
| "match_sql_statement (table_value_STATEMENT p) t =
     (case t of table_value_STATEMENT q \<Rightarrow> Some (p = q) | _ \<Rightarrow> Some False)"
| "match_sql_statement (table_alias_STATEMENT table alias unique_id column_list) t =
     (case t of table_alias_STATEMENT match_table match_alias _ _ \<Rightarrow>
        and_then (match_sql_statement table match_table) (match_sql_statement alias match_alias)
      | _ \<Rightarrow> Some False)"
| "match_sql_statement (select_STATEMENT select_list table_list where_expression group_by having order_by optional_words) t =
     (case t of select_STATEMENT select_list' table_list' where_expression' group_by' having' order_by' optional_words' \<Rightarrow>
        and_then (match_sql_statement select_list select_list')
       (and_then (match_sql_statement table_list table_list')
       (and_then (match_sql_statement where_expression where_expression')
       (and_then (match_sql_statement group_by group_by')
       (and_then (match_sql_statement having having')
       (and_then (match_sql_statement optional_words optional_words')
                 (match_sql_statement order_by order_by'))))))
      | _ \<Rightarrow> Some False)"
| "match_sql_statement discard_all_STATEMENT t = Some (t = discard_all_STATEMENT)"
| "match_sql_statement discard_xrefs_STATEMENT t = Some (t = discard_xrefs_STATEMENT)"
| "match_sql_statement (drop_table_STATEMENT table_name optional_keyword) t =
     (case t of drop_table_STATEMENT table_name' optional_keyword' \<Rightarrow>
        and_then (match_sql_statement table_name table_name') (match_sql_statement optional_keyword optional_keyword')
      | _ \<Rightarrow> Some False)"
| "match_sql_statement (value_STATEMENT value v) t =
     (case t of value_STATEMENT value' v' \<Rightarrow>
        and_then (Some (value_type value = value_type value'))
          (if value_type value = COERCE_TYPE then
             and_then (Some (pre_coerced_type value = pre_coerced_type value'))
               (and_then (Some (coerced_type value = coerced_type value')) (match_value COERCE_TYPE v v'))
           else match_value (value_type value) v v')
      | _ \<Rightarrow> Some False)"
| "match_sql_statement (binary_STATEMENT operation left right) t =
     (case t of binary_STATEMENT operation' left' right' \<Rightarrow>
        and_then (Some (operation = operation')) (and_then (match_sql_statement left left') (match_sql_statement right right'))
      | _ \<Rightarrow> Some False)"
| "match_sql_statement (unary_STATEMENT operation opnd) t =
     (case t of unary_STATEMENT operation' opnd' \<Rightarrow>
        and_then (Some (operation = operation')) (match_sql_statement opnd opnd')
      | _ \<Rightarrow> Some False)"
| "match_sql_statement (column_list_STATEMENT xs) t =
     (case t of column_list_STATEMENT ys \<Rightarrow> at_end xs ys (match_columns xs ys) | _ \<Rightarrow> Some False)"
| "match_sql_statement (column_list_alias_STATEMENT xs) t =
     (case t of column_list_alias_STATEMENT ys \<Rightarrow> at_end xs ys (match_cl_aliases xs ys) | _ \<Rightarrow> Some False)"
| "match_sql_statement (column_STATEMENT p) t = (case t of column_STATEMENT q \<Rightarrow> Some (p = q) | _ \<Rightarrow> Some False)"
| "match_sql_statement (join_STATEMENT xs) t = (case t of join_STATEMENT ys \<Rightarrow> match_joins xs ys | _ \<Rightarrow> Some False)"
| "match_sql_statement (column_alias_STATEMENT column table_alias_stmt) t =
     (case t of column_alias_STATEMENT column' table_alias_stmt' \<Rightarrow>
        and_then (match_sql_statement column column') (match_sql_statement table_alias_stmt table_alias_stmt')
      | _ \<Rightarrow> Some False)"
| "match_sql_statement (data_type_struct_STATEMENT d) t =
     (case t of data_type_struct_STATEMENT e \<Rightarrow> Some (d = e) | _ \<Rightarrow> Some False)"
| "match_sql_statement (keyword_STATEMENT xs) t =
     (case t of keyword_STATEMENT ys \<Rightarrow> match_keywords xs ys | _ \<Rightarrow> Some False)"
| "match_sql_statement (insert_STATEMENT p) t = (case t of insert_STATEMENT q \<Rightarrow> None | _ \<Rightarrow> Some False)"
| "match_sql_statement (cas_STATEMENT value branches optional_else) t =
     (case t of cas_STATEMENT value' branches' optional_else' \<Rightarrow>
        and_then (match_sql_statement value value')
       (and_then (match_sql_statement branches branches') (match_sql_statement optional_else optional_else'))
      | _ \<Rightarrow> Some False)"
| "match_sql_statement (cas_branch_STATEMENT xs) t =
     (case t of cas_branch_STATEMENT ys \<Rightarrow> match_branches xs ys | _ \<Rightarrow> Some False)"
| "match_sql_statement (function_call_STATEMENT function_name parameters) t =
     (case t of function_call_STATEMENT function_name' parameters' \<Rightarrow>
        and_then (match_sql_statement function_name function_name') (match_sql_statement parameters parameters')
      | _ \<Rightarrow> Some False)"
| "match_sql_statement (greatest_STATEMENT arguments) t =
     (case t of greatest_STATEMENT arguments' \<Rightarrow> match_sql_statement arguments arguments' | _ \<Rightarrow> Some False)"
| "match_sql_statement (coalesce_STATEMENT arguments) t =
     (case t of coalesce_STATEMENT arguments' \<Rightarrow> match_sql_statement arguments arguments' | _ \<Rightarrow> Some False)"
| "match_sql_statement (least_STATEMENT arguments) t =
     (case t of least_STATEMENT arguments' \<Rightarrow> match_sql_statement arguments arguments' | _ \<Rightarrow> Some False)"
| "match_sql_statement (null_if_STATEMENT left right) t =
     (case t of null_if_STATEMENT left' right' \<Rightarrow>
        and_then (match_sql_statement left left') (match_sql_statement right right')
      | _ \<Rightarrow> Some False)"
| "match_sql_statement (aggregate_function_STATEMENT type parameter) t =
     (case t of aggregate_function_STATEMENT type' parameter' \<Rightarrow>
        and_then (Some (type = type')) (match_sql_statement parameter parameter')
      | _ \<Rightarrow> Some False)"
| "match_sql_statement (other_STATEMENT type) t =
     (case t of other_STATEMENT type' \<Rightarrow> if type \<noteq> type' then Some False else None | _ \<Rightarrow> Some False)"
| "match_value type (reference r) v' =
     (if type = COERCE_TYPE \<or> type = CALCULATED_VALUE then None
      else if type = NUL_VALUE then Some True
      else case v' of reference r' \<Rightarrow> (if r = None \<or> r' = None then None else Some (r = r')) | operand _ \<Rightarrow> None)"
| "match_value type (operand s) v' =
     (if type = COERCE_TYPE \<or> type = CALCULATED_VALUE then
        (case v' of operand s' \<Rightarrow> match_sql_statement s s' | reference _ \<Rightarrow> None)
      else if type = NUL_VALUE then Some True
      else None)"
| "match_columns [] ys = None"
| "match_columns (x # xs) ys =
     (case ys of [] \<Rightarrow> None | y # ys \<Rightarrow> and_then (match_sql_statement x y) (at_end xs ys (match_columns xs ys)))"
| "match_cl_aliases [] ys = None"
| "match_cl_aliases (x # xs) ys =
     (case ys of [] \<Rightarrow> None | y # ys \<Rightarrow> and_then (match_cl_alias x y) (at_end xs ys (match_cl_aliases xs ys)))"
| "match_cl_alias (SqlColumnListAlias column_list alias keywords type user_specified_alias) y =
     (case y of SqlColumnListAlias column_list' alias' keywords' type' user_specified_alias' \<Rightarrow>
        and_then (Some (type = type'))
       (and_then (match_sql_statement column_list column_list')
       (and_then (match_sql_statement alias alias') (match_sql_statement keywords keywords'))))"
| "match_joins [] ys = None"
| "match_joins (x # xs) ys =
     (case ys of [] \<Rightarrow> None | y # ys \<Rightarrow> and_then (match_join x y) (at_end xs ys (match_joins xs ys)))"
| "match_join (SqlJoin value condition type max_unique_id) y =
     (case y of SqlJoin value' condition' type' max_unique_id' \<Rightarrow>
        and_then (Some (type = type')) (and_then (match_sql_statement value value') (match_sql_statement condition condition')))"
| "match_keywords [] ys = None"
| "match_keywords (x # xs) ys =
     (case ys of [] \<Rightarrow> None | y # ys \<Rightarrow> and_then (match_keyword x y) (at_end xs ys (match_keywords xs ys)))"
| "match_keyword (SqlOptionalKeyword keyword v) y =
     (case y of SqlOptionalKeyword keyword' v' \<Rightarrow> and_then (Some (keyword = keyword')) (match_sql_statement v v'))"
| "match_branches [] ys = None"
| "match_branches (x # xs) ys =
     (case ys of [] \<Rightarrow> None | y # ys \<Rightarrow> and_then (match_branch x y) (at_end xs ys (match_branches xs ys)))"
| "match_branch (SqlCaseBranchStatement condition value) y =
     (case y of SqlCaseBranchStatement condition' value' \<Rightarrow>
        and_then (match_sql_statement condition condition') (match_sql_statement value value'))"

section \<open>What a comparison looks at\<close>

text \<open>
  The statement without what the comparison ignores: the number and the column list of a table alias, the format and the
  quotes of a value and its index as a parameter, and what a user named himself.
\<close>

definition essence_of_value :: "SqlValue \<Rightarrow> SqlValue" where
  "essence_of_value value =
     (if value_type value = COERCE_TYPE then
        value\<lparr>date_time_format_type := NO_KEYWORD, parameter_index := 0, is_double_quoted := False\<rparr>
      else \<lparr>value_type = value_type value, date_time_format_type = NO_KEYWORD,
        coerced_type = \<lparr>data_type = UNKNOWN_SqlDataType, size_or_precision = 0, scale = 0, size_or_precision_parameter_index = 0,
          scale_parameter_index = 0, format = NO_KEYWORD\<rparr>,
        pre_coerced_type = UNKNOWN_SqlValueType, parameter_index = 0, is_double_quoted = False\<rparr>)"

primrec essence :: "SqlStatement \<Rightarrow> SqlStatement"
and essence_v :: "SqlValueType \<Rightarrow> SqlValue_v \<Rightarrow> SqlValue_v"
and essence_columns :: "SqlStatement list \<Rightarrow> SqlStatement list"
and essence_cl_aliases :: "SqlColumnListAlias list \<Rightarrow> SqlColumnListAlias list"
and essence_cl_alias :: "SqlColumnListAlias \<Rightarrow> SqlColumnListAlias"
and essence_joins :: "SqlJoin list \<Rightarrow> SqlJoin list"
and essence_join :: "SqlJoin \<Rightarrow> SqlJoin"
and essence_keywords :: "SqlOptionalKeyword list \<Rightarrow> SqlOptionalKeyword list"
and essence_keyword :: "SqlOptionalKeyword \<Rightarrow> SqlOptionalKeyword"
and essence_branches :: "SqlCaseBranchStatement list \<Rightarrow> SqlCaseBranchStatement list"
and essence_branch :: "SqlCaseBranchStatement \<Rightarrow> SqlCaseBranchStatement" where
  "essence NULL = NULL"
| "essence (create_table_STATEMENT p) = create_table_STATEMENT p"
| "essence (create_view_STATEMENT p) = create_view_STATEMENT p"
| "essence (table_value_STATEMENT p) = table_value_STATEMENT p"
| "essence (table_alias_STATEMENT table alias unique_id column_list) =
     table_alias_STATEMENT (essence table) (essence alias) 0 Select_list"
| "essence (select_STATEMENT a b c d e f g) =
     select_STATEMENT (essence a) (essence b) (essence c) (essence d) (essence e) (essence f) (essence g)"
| "essence discard_all_STATEMENT = discard_all_STATEMENT"
| "essence discard_xrefs_STATEMENT = discard_xrefs_STATEMENT"
| "essence (drop_table_STATEMENT a b) = drop_table_STATEMENT (essence a) (essence b)"
| "essence (value_STATEMENT value v) = value_STATEMENT (essence_of_value value) (essence_v (value_type value) v)"
| "essence (binary_STATEMENT operation a b) = binary_STATEMENT operation (essence a) (essence b)"
| "essence (unary_STATEMENT operation a) = unary_STATEMENT operation (essence a)"
| "essence (column_list_STATEMENT xs) = column_list_STATEMENT (essence_columns xs)"
| "essence (column_list_alias_STATEMENT xs) = column_list_alias_STATEMENT (essence_cl_aliases xs)"
| "essence (column_STATEMENT p) = column_STATEMENT p"
| "essence (join_STATEMENT xs) = join_STATEMENT (essence_joins xs)"
| "essence (column_alias_STATEMENT a b) = column_alias_STATEMENT (essence a) (essence b)"
| "essence (data_type_struct_STATEMENT d) = data_type_struct_STATEMENT d"
| "essence (keyword_STATEMENT xs) = keyword_STATEMENT (essence_keywords xs)"
| "essence (insert_STATEMENT p) = insert_STATEMENT p"
| "essence (cas_STATEMENT a b c) = cas_STATEMENT (essence a) (essence b) (essence c)"
| "essence (cas_branch_STATEMENT xs) = cas_branch_STATEMENT (essence_branches xs)"
| "essence (function_call_STATEMENT a b) = function_call_STATEMENT (essence a) (essence b)"
| "essence (greatest_STATEMENT a) = greatest_STATEMENT (essence a)"
| "essence (coalesce_STATEMENT a) = coalesce_STATEMENT (essence a)"
| "essence (least_STATEMENT a) = least_STATEMENT (essence a)"
| "essence (null_if_STATEMENT a b) = null_if_STATEMENT (essence a) (essence b)"
| "essence (aggregate_function_STATEMENT type a) = aggregate_function_STATEMENT type (essence a)"
| "essence (other_STATEMENT type) = other_STATEMENT type"
| "essence_v type (reference r) = reference (if type = NUL_VALUE then None else r)"
| "essence_v type (operand s) = (if type = NUL_VALUE then reference None else operand (essence s))"
| "essence_columns [] = []"
| "essence_columns (x # xs) = essence x # essence_columns xs"
| "essence_cl_aliases [] = []"
| "essence_cl_aliases (x # xs) = essence_cl_alias x # essence_cl_aliases xs"
| "essence_cl_alias (SqlColumnListAlias a b c type user) = SqlColumnListAlias (essence a) (essence b) (essence c) type False"
| "essence_joins [] = []"
| "essence_joins (x # xs) = essence_join x # essence_joins xs"
| "essence_join (SqlJoin a b type max_unique_id) = SqlJoin (essence a) (essence b) type 0"
| "essence_keywords [] = []"
| "essence_keywords (x # xs) = essence_keyword x # essence_keywords xs"
| "essence_keyword (SqlOptionalKeyword keyword a) = SqlOptionalKeyword keyword (essence a)"
| "essence_branches [] = []"
| "essence_branches (x # xs) = essence_branch x # essence_branches xs"
| "essence_branch (SqlCaseBranchStatement a b) = SqlCaseBranchStatement (essence a) (essence b)"

text \<open>
  The statements that the parser builds for queries: no insertion in them and no type without a case, circular lists that are
  not empty, the member of the union that belongs to the type of the value, and a string for every value but \<open>NULL\<close>.
\<close>

primrec comparable :: "SqlStatement \<Rightarrow> bool"
and comparable_v :: "SqlValueType \<Rightarrow> SqlValue_v \<Rightarrow> bool"
and comparable_columns :: "SqlStatement list \<Rightarrow> bool"
and comparable_cl_aliases :: "SqlColumnListAlias list \<Rightarrow> bool"
and comparable_cl_alias :: "SqlColumnListAlias \<Rightarrow> bool"
and comparable_joins :: "SqlJoin list \<Rightarrow> bool"
and comparable_join :: "SqlJoin \<Rightarrow> bool"
and comparable_keywords :: "SqlOptionalKeyword list \<Rightarrow> bool"
and comparable_keyword :: "SqlOptionalKeyword \<Rightarrow> bool"
and comparable_branches :: "SqlCaseBranchStatement list \<Rightarrow> bool"
and comparable_branch :: "SqlCaseBranchStatement \<Rightarrow> bool" where
  "comparable NULL = True"
| "comparable (create_table_STATEMENT p) = True"
| "comparable (create_view_STATEMENT p) = True"
| "comparable (table_value_STATEMENT p) = True"
| "comparable (table_alias_STATEMENT table alias unique_id column_list) = (comparable table \<and> comparable alias)"
| "comparable (select_STATEMENT a b c d e f g) =
     (comparable a \<and> comparable b \<and> comparable c \<and> comparable d \<and> comparable e \<and> comparable f \<and> comparable g)"
| "comparable discard_all_STATEMENT = True"
| "comparable discard_xrefs_STATEMENT = True"
| "comparable (drop_table_STATEMENT a b) = (comparable a \<and> comparable b)"
| "comparable (value_STATEMENT value v) = comparable_v (value_type value) v"
| "comparable (binary_STATEMENT operation a b) = (comparable a \<and> comparable b)"
| "comparable (unary_STATEMENT operation a) = comparable a"
| "comparable (column_list_STATEMENT xs) = comparable_columns xs"
| "comparable (column_list_alias_STATEMENT xs) = comparable_cl_aliases xs"
| "comparable (column_STATEMENT p) = True"
| "comparable (join_STATEMENT xs) = (xs \<noteq> [] \<and> comparable_joins xs)"
| "comparable (column_alias_STATEMENT a b) = (comparable a \<and> comparable b)"
| "comparable (data_type_struct_STATEMENT d) = True"
| "comparable (keyword_STATEMENT xs) = (xs \<noteq> [] \<and> comparable_keywords xs)"
| "comparable (insert_STATEMENT p) = False"
| "comparable (cas_STATEMENT a b c) = (comparable a \<and> comparable b \<and> comparable c)"
| "comparable (cas_branch_STATEMENT xs) = (xs \<noteq> [] \<and> comparable_branches xs)"
| "comparable (function_call_STATEMENT a b) = (comparable a \<and> comparable b)"
| "comparable (greatest_STATEMENT a) = comparable a"
| "comparable (coalesce_STATEMENT a) = comparable a"
| "comparable (least_STATEMENT a) = comparable a"
| "comparable (null_if_STATEMENT a b) = (comparable a \<and> comparable b)"
| "comparable (aggregate_function_STATEMENT type a) = comparable a"
| "comparable (other_STATEMENT type) = False"
| "comparable_v type (reference r) =
     (type \<noteq> COERCE_TYPE \<and> type \<noteq> CALCULATED_VALUE \<and> (r = None \<longrightarrow> type = NUL_VALUE))"
| "comparable_v type (operand s) = ((type = COERCE_TYPE \<or> type = CALCULATED_VALUE) \<and> comparable s)"
| "comparable_columns [] = True"
| "comparable_columns (x # xs) = (comparable x \<and> comparable_columns xs)"
| "comparable_cl_aliases [] = True"
| "comparable_cl_aliases (x # xs) = (comparable_cl_alias x \<and> comparable_cl_aliases xs)"
| "comparable_cl_alias (SqlColumnListAlias a b c type user) = (comparable a \<and> comparable b \<and> comparable c)"
| "comparable_joins [] = True"
| "comparable_joins (x # xs) = (comparable_join x \<and> comparable_joins xs)"
| "comparable_join (SqlJoin a b type max_unique_id) = (comparable a \<and> comparable b)"
| "comparable_keywords [] = True"
| "comparable_keywords (x # xs) = (comparable_keyword x \<and> comparable_keywords xs)"
| "comparable_keyword (SqlOptionalKeyword keyword a) = comparable a"
| "comparable_branches [] = True"
| "comparable_branches (x # xs) = (comparable_branch x \<and> comparable_branches xs)"
| "comparable_branch (SqlCaseBranchStatement a b) = (comparable a \<and> comparable b)"

lemma and_then_Some [simp]: "and_then (Some p) (Some q) = Some (p \<and> q)"
  by (simp add: and_then_def)

lemma and_then_False [simp]: "and_then (Some False) r = Some False"
  by (simp add: and_then_def)

lemma and_then_True [simp]: "and_then (Some True) r = r"
  by (simp add: and_then_def)

lemma essence_eq_Nil [simp]:
  "essence_columns xs = [] \<longleftrightarrow> xs = []" "essence_cl_aliases ys = [] \<longleftrightarrow> ys = []" "essence_joins zs = [] \<longleftrightarrow> zs = []"
  "essence_keywords ks = [] \<longleftrightarrow> ks = []" "essence_branches bs = [] \<longleftrightarrow> bs = []"
  by (cases xs, simp, simp) (cases ys, simp, simp, cases zs, simp, simp, cases ks, simp, simp, cases bs, simp, simp)

lemma essence_eq_NULL [simp]: "essence s = NULL \<longleftrightarrow> s = NULL" "NULL = essence s \<longleftrightarrow> s = NULL"
  by (cases s; simp)+

lemma Nil_eq_essence [simp]:
  "[] = essence_columns xs \<longleftrightarrow> xs = []" "[] = essence_cl_aliases ys \<longleftrightarrow> ys = []" "[] = essence_joins zs \<longleftrightarrow> zs = []"
  "[] = essence_keywords ks \<longleftrightarrow> ks = []" "[] = essence_branches bs \<longleftrightarrow> bs = []"
  using essence_eq_Nil by metis+

lemma essence_of_value_eq:
  "essence_of_value x = essence_of_value y \<longleftrightarrow> value_type x = value_type y
     \<and> (value_type x = COERCE_TYPE \<longrightarrow> pre_coerced_type x = pre_coerced_type y \<and> coerced_type x = coerced_type y)"
  by (cases x; cases y) (auto simp: essence_of_value_def)

lemma and_then_if: "and_then (Some p) r = (if p then r else Some False)"
  by (simp add: and_then_def)

lemma essence_eq_discard [simp]:
  "discard_all_STATEMENT = essence s \<longleftrightarrow> s = discard_all_STATEMENT"
  "discard_xrefs_STATEMENT = essence s \<longleftrightarrow> s = discard_xrefs_STATEMENT"
  by (cases s; simp)+

lemma match_essence:
  "comparable s \<Longrightarrow> comparable t \<Longrightarrow> match_sql_statement s t = Some (essence s = essence t)"
  "comparable_v type v \<Longrightarrow> comparable_v type w \<Longrightarrow> match_value type v w = Some (essence_v type v = essence_v type w)"
  "xs \<noteq> [] \<Longrightarrow> ys \<noteq> [] \<Longrightarrow> comparable_columns xs \<Longrightarrow> comparable_columns ys \<Longrightarrow>
     match_columns xs ys = Some (essence_columns xs = essence_columns ys)"
  "as \<noteq> [] \<Longrightarrow> bs \<noteq> [] \<Longrightarrow> comparable_cl_aliases as \<Longrightarrow> comparable_cl_aliases bs \<Longrightarrow>
     match_cl_aliases as bs = Some (essence_cl_aliases as = essence_cl_aliases bs)"
  "comparable_cl_alias a \<Longrightarrow> comparable_cl_alias b \<Longrightarrow> match_cl_alias a b = Some (essence_cl_alias a = essence_cl_alias b)"
  "js \<noteq> [] \<Longrightarrow> ks \<noteq> [] \<Longrightarrow> comparable_joins js \<Longrightarrow> comparable_joins ks \<Longrightarrow>
     match_joins js ks = Some (essence_joins js = essence_joins ks)"
  "comparable_join j \<Longrightarrow> comparable_join k \<Longrightarrow> match_join j k = Some (essence_join j = essence_join k)"
  "ms \<noteq> [] \<Longrightarrow> ns \<noteq> [] \<Longrightarrow> comparable_keywords ms \<Longrightarrow> comparable_keywords ns \<Longrightarrow>
     match_keywords ms ns = Some (essence_keywords ms = essence_keywords ns)"
  "comparable_keyword m \<Longrightarrow> comparable_keyword n \<Longrightarrow> match_keyword m n = Some (essence_keyword m = essence_keyword n)"
  "ps \<noteq> [] \<Longrightarrow> qs \<noteq> [] \<Longrightarrow> comparable_branches ps \<Longrightarrow> comparable_branches qs \<Longrightarrow>
     match_branches ps qs = Some (essence_branches ps = essence_branches qs)"
  "comparable_branch p \<Longrightarrow> comparable_branch q \<Longrightarrow> match_branch p q = Some (essence_branch p = essence_branch q)"
  by (induction s and v and xs and as and a and js and j and ms and m and ps and p
    arbitrary: t and type w and ys and bs and b and ks and k and ns and n and qs and q
    rule: match_sql_statement.induct match_value.induct match_columns.induct match_cl_aliases.induct match_cl_alias.induct
      match_joins.induct match_join.induct match_keywords.induct match_keyword.induct match_branches.induct match_branch.induct)
  (auto simp: at_end_def and_then_if essence_of_value_eq split: SqlStatement.split SqlValue_v.split SqlColumnListAlias.split SqlJoin.split SqlOptionalKeyword.split SqlCaseBranchStatement.split list.split)

section \<open>Expressions of GROUP BY\<close>

text \<open>Whether the result is not null.\<close>

definition get_group_by_fields :: "SqlStatement \<Rightarrow> bool option" where
  "get_group_by_fields stmt =
     (case stmt of
        NULL \<Rightarrow> Some False
      | cas_STATEMENT _ _ _ \<Rightarrow> Some True
      | binary_STATEMENT _ _ _ \<Rightarrow> Some True
      | unary_STATEMENT _ _ \<Rightarrow> Some True
      | value_STATEMENT value _ \<Rightarrow>
          (if value_type value \<in> {CALCULATED_VALUE, COERCE_TYPE} then Some True
           else if value_type value \<in> {BOOLEAN_VALUE, NUMERIC_LITERAL, INTEGER_LITERAL, STRING_LITERAL, DATE_LITERAL, TIME_LITERAL,
             TIMESTAMP_LITERAL, TIME_WITH_TIME_ZONE_LITERAL, TIMESTAMP_WITH_TIME_ZONE_LITERAL, BOOLEAN_OR_STRING_LITERAL,
             NUL_VALUE, PARAMETER_VALUE} then Some False
           else None)
      | column_alias_STATEMENT _ _ \<Rightarrow> Some False
      | _ \<Rightarrow> None)"

fun group_by_loop :: "SqlStatement \<Rightarrow> SqlColumnListAlias list \<Rightarrow> int \<Rightarrow> int option" where
  "group_by_loop stmt_to_match [] column_number = Some (- 1)"
| "group_by_loop stmt_to_match (SqlColumnListAlias column_list _ _ _ _ # clas) column_number =
     (case column_list of
        column_list_STATEMENT (value # _) \<Rightarrow> do {
          gb_fields \<leftarrow> get_group_by_fields value;
          if gb_fields then do {
            match \<leftarrow> match_sql_statement stmt_to_match value;
            if match then Some column_number else group_by_loop stmt_to_match clas (column_number + 1)
          } else group_by_loop stmt_to_match clas (column_number + 1)
        }
      | _ \<Rightarrow> None)"

text \<open>The first argument is the statement of the table alias's \<open>table\<close>.\<close>

definition get_group_by_column_number :: "SqlStatement \<Rightarrow> SqlStatement \<Rightarrow> int option" where
  "get_group_by_column_number table stmt_to_match =
     (case stmt_to_match of NULL \<Rightarrow> None | column_alias_STATEMENT _ _ \<Rightarrow> None
      | _ \<Rightarrow> (case table of
          select_STATEMENT _ _ _ group_by_expression _ _ _ \<Rightarrow>
            (case group_by_expression of NULL \<Rightarrow> Some (- 1)
             | column_list_alias_STATEMENT clas \<Rightarrow> if clas = [] then None else group_by_loop stmt_to_match clas 1
             | _ \<Rightarrow> None)
        | _ \<Rightarrow> None))"

fun select_list_loop :: "SqlStatement \<Rightarrow> SqlColumnListAlias list \<Rightarrow> bool option" where
  "select_list_loop column_list [] = Some False"
| "select_list_loop column_list (SqlColumnListAlias cur_column_list _ _ _ _ # clas) = do {
     match \<leftarrow> match_sql_statement column_list cur_column_list;
     if match then Some True else select_list_loop column_list clas
   }"

definition match_column_list_alias_in_select_column_list :: "SqlColumnListAlias \<Rightarrow> SqlStatement \<Rightarrow> bool option" where
  "match_column_list_alias_in_select_column_list match_cla cla_stmt =
     (case match_cla of SqlColumnListAlias column_list _ _ _ _ \<Rightarrow>
       (case cla_stmt of
          column_list_alias_STATEMENT clas \<Rightarrow> if clas = [] then None else select_list_loop column_list clas
        | _ \<Rightarrow> None))"

text \<open>The column of an entry of a list of columns.\<close>

fun column_list_of :: "SqlColumnListAlias \<Rightarrow> SqlStatement" where
  "column_list_of (SqlColumnListAlias column_list _ _ _ _) = column_list"

definition column_of :: "SqlColumnListAlias \<Rightarrow> SqlStatement" where
  "column_of cla = (case column_list_of cla of column_list_STATEMENT (value # _) \<Rightarrow> value | _ \<Rightarrow> NULL)"

definition grouped :: "SqlStatement \<Rightarrow> SqlColumnListAlias \<Rightarrow> bool" where
  "grouped stmt cla \<longleftrightarrow> get_group_by_fields (column_of cla) = Some True \<and> essence (column_of cla) = essence stmt"

text \<open>What the parser makes of GROUP BY: one expression to an entry, that \<open>get_group_by_fields\<close> knows.\<close>

definition group_by_entry :: "SqlColumnListAlias \<Rightarrow> bool" where
  "group_by_entry cla \<longleftrightarrow> (\<exists>value. column_list_of cla = column_list_STATEMENT [value] \<and> comparable value
     \<and> get_group_by_fields value \<noteq> None)"

lemma group_by_loop_first:
  "comparable stmt \<Longrightarrow> \<forall>cla \<in> set clas. group_by_entry cla \<Longrightarrow>
     group_by_loop stmt clas n = Some (case filter (\<lambda>i. grouped stmt (clas ! i)) [0..<length clas] of
       [] \<Rightarrow> - 1 | i # _ \<Rightarrow> n + int i)"
proof (induction clas arbitrary: n)
  case (Cons cla clas)
  obtain x a b c d where cla: "cla = SqlColumnListAlias (column_list_STATEMENT [x]) a b c d"
      "comparable x" "get_group_by_fields x \<noteq> None"
    using Cons.prems(2) by (cases cla) (auto simp: group_by_entry_def)
  have shift: "filter (\<lambda>i. grouped stmt ((cla # clas) ! i)) [0..<length (cla # clas)]
      = (if grouped stmt cla then [0] else []) @ map Suc (filter (\<lambda>i. grouped stmt (clas ! i)) [0..<length clas])"
    by (simp add: upt_conv_Cons map_Suc_upt [symmetric] filter_map o_def del: upt_Suc)
  have "group_by_loop stmt (cla # clas) n
      = (if grouped stmt cla then Some n else group_by_loop stmt clas (n + 1))"
    using cla(3) Cons.prems(1) match_essence(1) [OF Cons.prems(1) cla(2)]
    by (auto simp: cla(1) grouped_def column_of_def)
  then show ?case
    using Cons.IH [of "n + 1"] Cons.prems unfolding shift by (auto split: list.split)
qed simp

text \<open>C17: On statements as the parser builds them the comparison ends without a failed \<open>assert\<close> and decides whether the two are equal up to what it ignores: the indexes of parameters, formats and quotes of literals, the identifiers and column lists of table aliases, and whether an alias of a column was given by the user. So it is an equivalence relation.\<close>

theorem match_decides_equality:
  assumes "comparable s" and "comparable t"
  shows "match_sql_statement s t = Some (essence s = essence t)"
  using assms by (rule match_essence)

text \<open>The column number of an expression is that of the first expression of GROUP BY that it matches and that may be matched, and -1 when there is none.\<close>

theorem group_by_column_is_first_match:
  assumes "comparable stmt" and "stmt \<noteq> NULL" and "\<nexists>a b. stmt = column_alias_STATEMENT a b" and "clas \<noteq> []"
    and "\<forall>cla \<in> set clas. group_by_entry cla"
  shows "get_group_by_column_number (select_STATEMENT s1 s2 s3 (column_list_alias_STATEMENT clas) s4 s5 s6) stmt
    = Some (case filter (\<lambda>i. grouped stmt (clas ! i)) [0..<length clas] of [] \<Rightarrow> - 1 | i # _ \<Rightarrow> 1 + int i)"
  using assms group_by_loop_first [OF assms(1, 5), of 1]
  by (cases stmt) (simp_all add: get_group_by_column_number_def)

text \<open>The cast of a string to a type with a precision or a size, as \<open>x::VARCHAR(30)\<close>.\<close>

definition cast_to :: "int \<Rightarrow> SqlDataTypeStruct \<Rightarrow> SqlStatement \<Rightarrow> SqlStatement" where
  "cast_to index d s = value_STATEMENT \<lparr>value_type = COERCE_TYPE, date_time_format_type = NO_KEYWORD,
     coerced_type = d\<lparr>size_or_precision_parameter_index := index\<rparr>, pre_coerced_type = STRING_LITERAL, parameter_index = 0,
     is_double_quoted = False\<rparr> (operand s)"

definition literal :: "int \<Rightarrow> SqlValueType \<Rightarrow> string \<Rightarrow> SqlStatement" where
  "literal index type r = value_STATEMENT \<lparr>value_type = type, date_time_format_type = NO_KEYWORD,
     coerced_type = \<lparr>data_type = UNKNOWN_SqlDataType, size_or_precision = 0, scale = 0, size_or_precision_parameter_index = 0,
       scale_parameter_index = 0, format = NO_KEYWORD\<rparr>,
     pre_coerced_type = UNKNOWN_SqlValueType, parameter_index = index, is_double_quoted = False\<rparr> (reference (Some r))"

text \<open>Literals match whatever parameters they were made into, but two casts to the same type with a size do not match when the size was made into two parameters.\<close>

theorem parameters_of_casts_are_compared:
  assumes "comparable s" and "type \<notin> {COERCE_TYPE, CALCULATED_VALUE}"
  shows "match_sql_statement (literal i type r) (literal j type r) = Some True
    \<and> match_sql_statement (cast_to i d s) (cast_to j d s) = Some (i = j)"
proof
  show "match_sql_statement (literal i type r) (literal j type r) = Some True"
    using assms(2) by (simp add: literal_def)
  have "comparable (cast_to i d s)" "comparable (cast_to j d s)"
    using assms(1) by (simp_all add: cast_to_def)
  from match_essence(1) [OF this]
  show "match_sql_statement (cast_to i d s) (cast_to j d s) = Some (i = j)"
    by (cases d) (simp add: cast_to_def essence_of_value_eq)
qed

text \<open>\<open>- n.id\<close>, for columns that are written with or without quotes, and \<open>CASE\<close> on a literal.\<close>

definition sample_column :: "bool \<Rightarrow> SqlStatement" where
  "sample_column quoted = column_alias_STATEMENT (column_STATEMENT 7)
     (table_alias_STATEMENT (create_table_STATEMENT 3) (value_STATEMENT \<lparr>value_type = STRING_LITERAL, date_time_format_type = NO_KEYWORD,
     coerced_type = \<lparr>data_type = UNKNOWN_SqlDataType, size_or_precision = 0, scale = 0, size_or_precision_parameter_index = 0,
       scale_parameter_index = 0, format = NO_KEYWORD\<rparr>,
     pre_coerced_type = UNKNOWN_SqlValueType, parameter_index = 0, is_double_quoted = quoted\<rparr> (reference (Some ''n''))) 1 (Linked 5))"

theorem match_decides_equality_witness:
  "match_sql_statement (unary_STATEMENT NEGATIVE (sample_column True)) (unary_STATEMENT NEGATIVE (sample_column False)) = Some True
    \<and> match_sql_statement (sample_column True) (literal 1 INTEGER_LITERAL ''1'') = Some False"
  using match_decides_equality [of "unary_STATEMENT NEGATIVE (sample_column True)" "unary_STATEMENT NEGATIVE (sample_column False)"]
    match_decides_equality [of "sample_column True" "literal 1 INTEGER_LITERAL ''1''"]
  by (simp add: sample_column_def literal_def essence_of_value_def)

theorem group_by_column_is_first_match_witness:
  "get_group_by_column_number (select_STATEMENT NULL NULL NULL (column_list_alias_STATEMENT
      [SqlColumnListAlias (column_list_STATEMENT [sample_column False]) NULL NULL STRING_LITERAL False,
       SqlColumnListAlias (column_list_STATEMENT [unary_STATEMENT NEGATIVE (sample_column False)]) NULL NULL INTEGER_LITERAL False])
     NULL NULL NULL) (unary_STATEMENT NEGATIVE (sample_column True)) = Some 2"
  using group_by_column_is_first_match [of "unary_STATEMENT NEGATIVE (sample_column True)"
      "[SqlColumnListAlias (column_list_STATEMENT [sample_column False]) NULL NULL STRING_LITERAL False,
        SqlColumnListAlias (column_list_STATEMENT [unary_STATEMENT NEGATIVE (sample_column False)]) NULL NULL INTEGER_LITERAL False]"]
  by (simp add: sample_column_def essence_of_value_def group_by_entry_def grouped_def column_of_def get_group_by_fields_def ex_bool_eq)

theorem parameters_of_casts_are_compared_witness:
  "match_sql_statement (cast_to 1 \<lparr>data_type = STRING_TYPE, size_or_precision = 30, scale = - 1, size_or_precision_parameter_index = 0,
       scale_parameter_index = 0, format = NO_KEYWORD\<rparr> (sample_column False))
     (cast_to 2 \<lparr>data_type = STRING_TYPE, size_or_precision = 30, scale = - 1, size_or_precision_parameter_index = 0,
       scale_parameter_index = 0, format = NO_KEYWORD\<rparr> (sample_column False)) = Some False"
proof -
  have "comparable (sample_column False)"
    by (simp add: sample_column_def)
  from parameters_of_casts_are_compared [OF this, where type = INTEGER_LITERAL and i = 1 and j = 2 and r = "''x''"
      and d = "\<lparr>data_type = STRING_TYPE, size_or_precision = 30,
       scale = - 1, size_or_precision_parameter_index = 0, scale_parameter_index = 0, format = NO_KEYWORD\<rparr>"]
  show ?thesis by simp
qed

end
