(* ===== verification/StatementCopy.thy ===== *)
theory StatementCopy
  imports StatementMatch
begin

text \<open>
  \<open>copy_sql_statement.c\<close>. Tables and columns are shared by a copy, and so is ORDER BY; everything else is new. The lemmas say what
  can be copied at all, and when a copy matches its original in the sense of \<open>match_sql_statement\<close>. The ORDER BY of a SELECT is one pointer for
  the copy, which does not look at what it points to; for the comparison it is a tree, that is, it does not lead back to the statement (see
  \<open>StatementMatch\<close>).
\<close>

section \<open>Copies\<close>

text \<open>The fields of a new value; \<open>octo_cmalloc\<close> gives out memory filled with zeros.\<close>

definition copy_value :: "SqlValue \<Rightarrow> SqlValue" where
  "copy_value value =
     \<lparr>value_type = value_type value,
      date_time_format_type =
        (if value_type value \<in> {DATE_LITERAL, TIME_LITERAL, TIMESTAMP_LITERAL, TIME_WITH_TIME_ZONE_LITERAL,
           TIMESTAMP_WITH_TIME_ZONE_LITERAL} then date_time_format_type value else NO_KEYWORD),
      coerced_type =
        (if value_type value = COERCE_TYPE then coerced_type value
         else \<lparr>data_type = UNKNOWN_SqlDataType, size_or_precision = 0, scale = 0, size_or_precision_parameter_index = 0,
           scale_parameter_index = 0, format = NO_KEYWORD\<rparr>),
      pre_coerced_type = (if value_type value = COERCE_TYPE then pre_coerced_type value else UNKNOWN_SqlValueType),
      parameter_index = parameter_index value, is_double_quoted = is_double_quoted value\<rparr>"

primrec copy_sql_statement :: "SqlStatement \<Rightarrow> SqlStatement option"
and copy_v :: "SqlValue_v \<Rightarrow> SqlValueType \<Rightarrow> SqlValue_v option"
and copy_columns :: "SqlStatement list \<Rightarrow> SqlStatement list option"
and copy_cl_aliases :: "SqlColumnListAlias list \<Rightarrow> SqlColumnListAlias list option"
and copy_cl_alias :: "SqlColumnListAlias \<Rightarrow> SqlColumnListAlias option"
and copy_joins :: "SqlJoin list \<Rightarrow> SqlJoin list option"
and copy_join :: "SqlJoin \<Rightarrow> SqlJoin option"
and copy_keywords :: "SqlOptionalKeyword list \<Rightarrow> SqlOptionalKeyword list option"
and copy_keyword :: "SqlOptionalKeyword \<Rightarrow> SqlOptionalKeyword option"
and copy_branches :: "SqlCaseBranchStatement list \<Rightarrow> SqlCaseBranchStatement list option"
and copy_branch :: "SqlCaseBranchStatement \<Rightarrow> SqlCaseBranchStatement option" where
  "copy_sql_statement NULL = Some NULL"
| "copy_sql_statement (create_table_STATEMENT p) = Some (create_table_STATEMENT p)"
| "copy_sql_statement (column_STATEMENT p) = Some (column_STATEMENT p)"
| "copy_sql_statement (table_alias_STATEMENT table alias unique_id column_list) = do {
     table \<leftarrow> copy_sql_statement table;
     alias \<leftarrow> copy_sql_statement alias;
     if table = NULL then None
     else Some (table_alias_STATEMENT table alias unique_id
       (case table of select_STATEMENT _ _ _ _ _ _ _ \<Rightarrow> Select_list | _ \<Rightarrow> column_list))
   }"
| "copy_sql_statement (select_STATEMENT select_list table_list where_expression group_by having order_by optional_words) = do {
     select_list \<leftarrow> copy_sql_statement select_list;
     table_list \<leftarrow> copy_sql_statement table_list;
     where_expression \<leftarrow> copy_sql_statement where_expression;
     group_by \<leftarrow> copy_sql_statement group_by;
     having \<leftarrow> copy_sql_statement having;
     optional_words \<leftarrow> copy_sql_statement optional_words;
     Some (select_STATEMENT select_list table_list where_expression group_by having order_by optional_words)
   }"
| "copy_sql_statement discard_all_STATEMENT = Some discard_all_STATEMENT"
| "copy_sql_statement discard_xrefs_STATEMENT = Some discard_xrefs_STATEMENT"
| "copy_sql_statement (drop_table_STATEMENT table_name optional_keyword) = do {
     table_name \<leftarrow> copy_sql_statement table_name;
     optional_keyword \<leftarrow> copy_sql_statement optional_keyword;
     Some (drop_table_STATEMENT table_name optional_keyword)
   }"
| "copy_sql_statement (value_STATEMENT value v) = do {
     v \<leftarrow> copy_v v (value_type value);
     Some (value_STATEMENT (copy_value value) v)
   }"
| "copy_sql_statement (binary_STATEMENT operation left right) = do {
     left \<leftarrow> copy_sql_statement left;
     right \<leftarrow> copy_sql_statement right;
     Some (binary_STATEMENT operation left right)
   }"
| "copy_sql_statement (unary_STATEMENT operation opnd) = do {
     opnd \<leftarrow> copy_sql_statement opnd;
     Some (unary_STATEMENT operation opnd)
   }"
| "copy_sql_statement (column_list_STATEMENT xs) = map_option column_list_STATEMENT (copy_columns xs)"
| "copy_sql_statement (column_list_alias_STATEMENT xs) = map_option column_list_alias_STATEMENT (copy_cl_aliases xs)"
| "copy_sql_statement (join_STATEMENT xs) = (if xs = [] then None else map_option join_STATEMENT (copy_joins xs))"
| "copy_sql_statement (column_alias_STATEMENT column table_alias_stmt) = do {
     column \<leftarrow> copy_sql_statement column;
     table_alias_stmt \<leftarrow> copy_sql_statement table_alias_stmt;
     Some (column_alias_STATEMENT column table_alias_stmt)
   }"
| "copy_sql_statement (data_type_struct_STATEMENT d) = Some (data_type_struct_STATEMENT d)"
| "copy_sql_statement (keyword_STATEMENT xs) = (if xs = [] then None else map_option keyword_STATEMENT (copy_keywords xs))"
| "copy_sql_statement (cas_STATEMENT value branches optional_else) = do {
     value \<leftarrow> copy_sql_statement value;
     branches \<leftarrow> copy_sql_statement branches;
     optional_else \<leftarrow> copy_sql_statement optional_else;
     Some (cas_STATEMENT value branches optional_else)
   }"
| "copy_sql_statement (cas_branch_STATEMENT xs) = (if xs = [] then None else map_option cas_branch_STATEMENT (copy_branches xs))"
| "copy_sql_statement (function_call_STATEMENT function_name parameters) = do {
     function_name \<leftarrow> copy_sql_statement function_name;
     parameters \<leftarrow> copy_sql_statement parameters;
     Some (function_call_STATEMENT function_name parameters)
   }"
| "copy_sql_statement (aggregate_function_STATEMENT type parameter) = do {
     parameter \<leftarrow> copy_sql_statement parameter;
     Some (aggregate_function_STATEMENT type parameter)
   }"
| "copy_sql_statement (create_view_STATEMENT p) = None"
| "copy_sql_statement (table_value_STATEMENT p) = None"
| "copy_sql_statement (insert_STATEMENT p) = None"
| "copy_sql_statement (greatest_STATEMENT arguments) = None"
| "copy_sql_statement (coalesce_STATEMENT arguments) = None"
| "copy_sql_statement (least_STATEMENT arguments) = None"
| "copy_sql_statement (null_if_STATEMENT left right) = None"
| "copy_sql_statement (other_STATEMENT type) = None"
| "copy_v (reference r) type =
     (if type = COERCE_TYPE \<or> type = CALCULATED_VALUE \<or> type = UNKNOWN_SqlValueType \<or> type = INVALID_SqlValueType then None
      else if type = NUL_VALUE \<or> type = SELECT_ASTERISK \<or> type = IS_NULL_LITERAL then
        (if r = None \<or> r = Some [] then Some (reference (Some [])) else None)
      else if r = None then None else Some (reference r))"
| "copy_v (operand s) type =
     (if type = COERCE_TYPE \<or> type = CALCULATED_VALUE then map_option operand (copy_sql_statement s) else None)"
| "copy_columns [] = Some []"
| "copy_columns (x # xs) = do { x \<leftarrow> copy_sql_statement x; xs \<leftarrow> copy_columns xs; Some (x # xs) }"
| "copy_cl_aliases [] = Some []"
| "copy_cl_aliases (x # xs) = do { x \<leftarrow> copy_cl_alias x; xs \<leftarrow> copy_cl_aliases xs; Some (x # xs) }"
| "copy_cl_alias (SqlColumnListAlias column_list alias keywords type user_specified_alias) = do {
     column_list \<leftarrow> copy_sql_statement column_list;
     alias \<leftarrow> copy_sql_statement alias;
     Some (SqlColumnListAlias column_list alias NULL type user_specified_alias)
   }"
| "copy_joins [] = Some []"
| "copy_joins (x # xs) = do { x \<leftarrow> copy_join x; xs \<leftarrow> copy_joins xs; Some (x # xs) }"
| "copy_join (SqlJoin value condition type max_unique_id) = do {
     value \<leftarrow> copy_sql_statement value;
     condition \<leftarrow> copy_sql_statement condition;
     Some (SqlJoin value condition type max_unique_id)
   }"
| "copy_keywords [] = Some []"
| "copy_keywords (x # xs) = do { x \<leftarrow> copy_keyword x; xs \<leftarrow> copy_keywords xs; Some (x # xs) }"
| "copy_keyword (SqlOptionalKeyword keyword v) = do { v \<leftarrow> copy_sql_statement v; Some (SqlOptionalKeyword keyword v) }"
| "copy_branches [] = Some []"
| "copy_branches (x # xs) = do { x \<leftarrow> copy_branch x; xs \<leftarrow> copy_branches xs; Some (x # xs) }"
| "copy_branch (SqlCaseBranchStatement condition value) = do {
     condition \<leftarrow> copy_sql_statement condition;
     value \<leftarrow> copy_sql_statement value;
     Some (SqlCaseBranchStatement condition value)
   }"

section \<open>What can be copied\<close>

text \<open>
  A statement without the types that the copy has no case for. The second group is about the keywords in lists
  of columns; those of ORDER BY are not copied but shared.
\<close>

primrec copyable :: "SqlStatement \<Rightarrow> bool"
and copyable_v :: "SqlValue_v \<Rightarrow> SqlValueType \<Rightarrow> bool"
and copyable_columns :: "SqlStatement list \<Rightarrow> bool"
and copyable_cl_aliases :: "SqlColumnListAlias list \<Rightarrow> bool"
and copyable_cl_alias :: "SqlColumnListAlias \<Rightarrow> bool"
and copyable_joins :: "SqlJoin list \<Rightarrow> bool"
and copyable_join :: "SqlJoin \<Rightarrow> bool"
and copyable_keywords :: "SqlOptionalKeyword list \<Rightarrow> bool"
and copyable_keyword :: "SqlOptionalKeyword \<Rightarrow> bool"
and copyable_branches :: "SqlCaseBranchStatement list \<Rightarrow> bool"
and copyable_branch :: "SqlCaseBranchStatement \<Rightarrow> bool" where
  "copyable NULL = True"
| "copyable (create_table_STATEMENT p) = True"
| "copyable (create_view_STATEMENT p) = False"
| "copyable (table_value_STATEMENT p) = False"
| "copyable (table_alias_STATEMENT table alias unique_id column_list) = (table \<noteq> NULL \<and> copyable table \<and> copyable alias)"
| "copyable (select_STATEMENT a b c d e f g) = (copyable a \<and> copyable b \<and> copyable c \<and> copyable d \<and> copyable e \<and> copyable g)"
| "copyable discard_all_STATEMENT = True"
| "copyable discard_xrefs_STATEMENT = True"
| "copyable (drop_table_STATEMENT a b) = (copyable a \<and> copyable b)"
| "copyable (value_STATEMENT value v) = copyable_v v (value_type value)"
| "copyable (binary_STATEMENT operation a b) = (copyable a \<and> copyable b)"
| "copyable (unary_STATEMENT operation a) = copyable a"
| "copyable (column_list_STATEMENT xs) = copyable_columns xs"
| "copyable (column_list_alias_STATEMENT xs) = copyable_cl_aliases xs"
| "copyable (column_STATEMENT p) = True"
| "copyable (join_STATEMENT xs) = copyable_joins xs"
| "copyable (column_alias_STATEMENT a b) = (copyable a \<and> copyable b)"
| "copyable (data_type_struct_STATEMENT d) = True"
| "copyable (keyword_STATEMENT xs) = copyable_keywords xs"
| "copyable (insert_STATEMENT p) = False"
| "copyable (cas_STATEMENT a b c) = (copyable a \<and> copyable b \<and> copyable c)"
| "copyable (cas_branch_STATEMENT xs) = copyable_branches xs"
| "copyable (function_call_STATEMENT a b) = (copyable a \<and> copyable b)"
| "copyable (greatest_STATEMENT a) = False"
| "copyable (coalesce_STATEMENT a) = False"
| "copyable (least_STATEMENT a) = False"
| "copyable (null_if_STATEMENT a b) = False"
| "copyable (aggregate_function_STATEMENT type a) = copyable a"
| "copyable (other_STATEMENT type) = False"
| "copyable_v (reference r) type = (type \<noteq> UNKNOWN_SqlValueType \<and> type \<noteq> INVALID_SqlValueType
     \<and> (type \<in> {NUL_VALUE, SELECT_ASTERISK, IS_NULL_LITERAL} \<longrightarrow> r = None \<or> r = Some []))"
| "copyable_v (operand s) type = copyable s"
| "copyable_columns [] = True"
| "copyable_columns (x # xs) = (copyable x \<and> copyable_columns xs)"
| "copyable_cl_aliases [] = True"
| "copyable_cl_aliases (x # xs) = (copyable_cl_alias x \<and> copyable_cl_aliases xs)"
| "copyable_cl_alias (SqlColumnListAlias a b c type user) = (copyable a \<and> copyable b)"
| "copyable_joins [] = True"
| "copyable_joins (x # xs) = (copyable_join x \<and> copyable_joins xs)"
| "copyable_join (SqlJoin a b type max_unique_id) = (copyable a \<and> copyable b)"
| "copyable_keywords [] = True"
| "copyable_keywords (x # xs) = (copyable_keyword x \<and> copyable_keywords xs)"
| "copyable_keyword (SqlOptionalKeyword keyword a) = copyable a"
| "copyable_branches [] = True"
| "copyable_branches (x # xs) = (copyable_branch x \<and> copyable_branches xs)"
| "copyable_branch (SqlCaseBranchStatement a b) = (copyable a \<and> copyable b)"

primrec unsorted :: "SqlStatement \<Rightarrow> bool"
and unsorted_v :: "SqlValue_v \<Rightarrow> bool"
and unsorted_columns :: "SqlStatement list \<Rightarrow> bool"
and unsorted_cl_aliases :: "SqlColumnListAlias list \<Rightarrow> bool"
and unsorted_cl_alias :: "SqlColumnListAlias \<Rightarrow> bool"
and unsorted_joins :: "SqlJoin list \<Rightarrow> bool"
and unsorted_join :: "SqlJoin \<Rightarrow> bool"
and unsorted_keywords :: "SqlOptionalKeyword list \<Rightarrow> bool"
and unsorted_keyword :: "SqlOptionalKeyword \<Rightarrow> bool"
and unsorted_branches :: "SqlCaseBranchStatement list \<Rightarrow> bool"
and unsorted_branch :: "SqlCaseBranchStatement \<Rightarrow> bool" where
  "unsorted NULL = True"
| "unsorted (create_table_STATEMENT p) = True"
| "unsorted (create_view_STATEMENT p) = True"
| "unsorted (table_value_STATEMENT p) = True"
| "unsorted (table_alias_STATEMENT table alias unique_id column_list) = (unsorted table \<and> unsorted alias)"
| "unsorted (select_STATEMENT a b c d e f g) = (unsorted a \<and> unsorted b \<and> unsorted c \<and> unsorted d \<and> unsorted e \<and> unsorted g)"
| "unsorted discard_all_STATEMENT = True"
| "unsorted discard_xrefs_STATEMENT = True"
| "unsorted (drop_table_STATEMENT a b) = (unsorted a \<and> unsorted b)"
| "unsorted (value_STATEMENT value v) = unsorted_v v"
| "unsorted (binary_STATEMENT operation a b) = (unsorted a \<and> unsorted b)"
| "unsorted (unary_STATEMENT operation a) = unsorted a"
| "unsorted (column_list_STATEMENT xs) = unsorted_columns xs"
| "unsorted (column_list_alias_STATEMENT xs) = unsorted_cl_aliases xs"
| "unsorted (column_STATEMENT p) = True"
| "unsorted (join_STATEMENT xs) = unsorted_joins xs"
| "unsorted (column_alias_STATEMENT a b) = (unsorted a \<and> unsorted b)"
| "unsorted (data_type_struct_STATEMENT d) = True"
| "unsorted (keyword_STATEMENT xs) = unsorted_keywords xs"
| "unsorted (insert_STATEMENT p) = True"
| "unsorted (cas_STATEMENT a b c) = (unsorted a \<and> unsorted b \<and> unsorted c)"
| "unsorted (cas_branch_STATEMENT xs) = unsorted_branches xs"
| "unsorted (function_call_STATEMENT a b) = (unsorted a \<and> unsorted b)"
| "unsorted (greatest_STATEMENT a) = unsorted a"
| "unsorted (coalesce_STATEMENT a) = unsorted a"
| "unsorted (least_STATEMENT a) = unsorted a"
| "unsorted (null_if_STATEMENT a b) = (unsorted a \<and> unsorted b)"
| "unsorted (aggregate_function_STATEMENT type a) = unsorted a"
| "unsorted (other_STATEMENT type) = True"
| "unsorted_v (reference r) = True"
| "unsorted_v (operand s) = unsorted s"
| "unsorted_columns [] = True"
| "unsorted_columns (x # xs) = (unsorted x \<and> unsorted_columns xs)"
| "unsorted_cl_aliases [] = True"
| "unsorted_cl_aliases (x # xs) = (unsorted_cl_alias x \<and> unsorted_cl_aliases xs)"
| "unsorted_cl_alias (SqlColumnListAlias a b c type user) = (unsorted a \<and> unsorted b \<and> c = NULL)"
| "unsorted_joins [] = True"
| "unsorted_joins (x # xs) = (unsorted_join x \<and> unsorted_joins xs)"
| "unsorted_join (SqlJoin a b type max_unique_id) = (unsorted a \<and> unsorted b)"
| "unsorted_keywords [] = True"
| "unsorted_keywords (x # xs) = (unsorted_keyword x \<and> unsorted_keywords xs)"
| "unsorted_keyword (SqlOptionalKeyword keyword a) = unsorted a"
| "unsorted_branches [] = True"
| "unsorted_branches (x # xs) = (unsorted_branch x \<and> unsorted_branches xs)"
| "unsorted_branch (SqlCaseBranchStatement a b) = (unsorted a \<and> unsorted b)"

lemma essence_copy_value [simp]: "essence_of_value (copy_value x) = essence_of_value x"
  by (cases x) (simp add: essence_of_value_eq copy_value_def)

lemma value_type_copy [simp]: "value_type (copy_value value) = value_type value"
  by (simp add: copy_value_def)

lemma copy_essence:
  "comparable s \<Longrightarrow> copyable s \<Longrightarrow> \<exists>t. copy_sql_statement s = Some t \<and> comparable t \<and> (t = NULL \<longleftrightarrow> s = NULL)
     \<and> (essence t = essence s \<longleftrightarrow> unsorted s)"
  "comparable_v type v \<Longrightarrow> copyable_v v type \<Longrightarrow> \<exists>w. copy_v v type = Some w \<and> comparable_v type w
     \<and> (essence_v type w = essence_v type v \<longleftrightarrow> unsorted_v v)"
  "comparable_columns xs \<Longrightarrow> copyable_columns xs \<Longrightarrow> \<exists>ys. copy_columns xs = Some ys \<and> comparable_columns ys \<and> (ys = [] \<longleftrightarrow> xs = [])
     \<and> (essence_columns ys = essence_columns xs \<longleftrightarrow> unsorted_columns xs)"
  "comparable_cl_aliases as \<Longrightarrow> copyable_cl_aliases as \<Longrightarrow> \<exists>bs. copy_cl_aliases as = Some bs \<and> comparable_cl_aliases bs
     \<and> (bs = [] \<longleftrightarrow> as = []) \<and> (essence_cl_aliases bs = essence_cl_aliases as \<longleftrightarrow> unsorted_cl_aliases as)"
  "comparable_cl_alias a \<Longrightarrow> copyable_cl_alias a \<Longrightarrow> \<exists>b. copy_cl_alias a = Some b \<and> comparable_cl_alias b
     \<and> (essence_cl_alias b = essence_cl_alias a \<longleftrightarrow> unsorted_cl_alias a)"
  "comparable_joins js \<Longrightarrow> copyable_joins js \<Longrightarrow> \<exists>ks. copy_joins js = Some ks \<and> comparable_joins ks \<and> (ks = [] \<longleftrightarrow> js = [])
     \<and> (essence_joins ks = essence_joins js \<longleftrightarrow> unsorted_joins js)"
  "comparable_join j \<Longrightarrow> copyable_join j \<Longrightarrow> \<exists>k. copy_join j = Some k \<and> comparable_join k
     \<and> (essence_join k = essence_join j \<longleftrightarrow> unsorted_join j)"
  "comparable_keywords ms \<Longrightarrow> copyable_keywords ms \<Longrightarrow> \<exists>ns. copy_keywords ms = Some ns \<and> comparable_keywords ns \<and> (ns = [] \<longleftrightarrow> ms = [])
     \<and> (essence_keywords ns = essence_keywords ms \<longleftrightarrow> unsorted_keywords ms)"
  "comparable_keyword m \<Longrightarrow> copyable_keyword m \<Longrightarrow> \<exists>n. copy_keyword m = Some n \<and> comparable_keyword n
     \<and> (essence_keyword n = essence_keyword m \<longleftrightarrow> unsorted_keyword m)"
  "comparable_branches ps \<Longrightarrow> copyable_branches ps \<Longrightarrow> \<exists>qs. copy_branches ps = Some qs \<and> comparable_branches qs \<and> (qs = [] \<longleftrightarrow> ps = [])
     \<and> (essence_branches qs = essence_branches ps \<longleftrightarrow> unsorted_branches ps)"
  "comparable_branch p \<Longrightarrow> copyable_branch p \<Longrightarrow> \<exists>q. copy_branch p = Some q \<and> comparable_branch q
     \<and> (essence_branch q = essence_branch p \<longleftrightarrow> unsorted_branch p)"
proof (induction s and v and xs and as and a and js and j and ms and m and ps and p arbitrary: type and type
    rule: copy_sql_statement.induct copy_v.induct copy_columns.induct copy_cl_aliases.induct copy_cl_alias.induct
      copy_joins.induct copy_join.induct copy_keywords.induct copy_keyword.induct copy_branches.induct copy_branch.induct)
  case (value_STATEMENT x v)
  then obtain w where "copy_v v (value_type x) = Some w" "comparable_v (value_type x) w"
      "essence_v (value_type x) w = essence_v (value_type x) v \<longleftrightarrow> unsorted_v v"
    by auto
  then show ?case
    by simp
next
  case (reference r)
  then show ?case
    by (cases r) (auto split: if_splits)
qed (clarsimp simp: essence_of_value_eq)+

lemma copy_NULL: "copy_sql_statement s = Some NULL \<longleftrightarrow> s = NULL"
  by (cases s) (auto split: if_splits bind_splits)

lemma not_copyable:
  "comparable s \<Longrightarrow> \<not> copyable s \<Longrightarrow> copy_sql_statement s = None"
  "comparable_v type v \<Longrightarrow> \<not> copyable_v v type \<Longrightarrow> copy_v v type = None"
  "comparable_columns xs \<Longrightarrow> \<not> copyable_columns xs \<Longrightarrow> copy_columns xs = None"
  "comparable_cl_aliases as \<Longrightarrow> \<not> copyable_cl_aliases as \<Longrightarrow> copy_cl_aliases as = None"
  "comparable_cl_alias a \<Longrightarrow> \<not> copyable_cl_alias a \<Longrightarrow> copy_cl_alias a = None"
  "comparable_joins js \<Longrightarrow> \<not> copyable_joins js \<Longrightarrow> copy_joins js = None"
  "comparable_join j \<Longrightarrow> \<not> copyable_join j \<Longrightarrow> copy_join j = None"
  "comparable_keywords ms \<Longrightarrow> \<not> copyable_keywords ms \<Longrightarrow> copy_keywords ms = None"
  "comparable_keyword m \<Longrightarrow> \<not> copyable_keyword m \<Longrightarrow> copy_keyword m = None"
  "comparable_branches ps \<Longrightarrow> \<not> copyable_branches ps \<Longrightarrow> copy_branches ps = None"
  "comparable_branch p \<Longrightarrow> \<not> copyable_branch p \<Longrightarrow> copy_branch p = None"
proof (induction s and v and xs and as and a and js and j and ms and m and ps and p arbitrary: type and type
    rule: copy_sql_statement.induct copy_v.induct copy_columns.induct copy_cl_aliases.induct copy_cl_alias.induct
      copy_joins.induct copy_join.induct copy_keywords.induct copy_keyword.induct copy_branches.induct copy_branch.induct)
  case (reference r)
  then show ?case
    by (cases r) auto
qed (auto split: bind_splits simp: copy_NULL)

text \<open>C18: A copy matches its original exactly when no list of columns outside of the ORDER BY of a SELECT has keywords: the copy takes the keywords of the
  new, empty structure in place of those of the original, and so loses ASC and DESC. The ORDER BY of a SELECT is not copied but shared, with its
  keywords, so that \<open>SELECT ... ORDER BY x DESC\<close> matches its copy. This is for statements whose ORDER BY does not lead back to them, for which
  the comparison ends.\<close>

theorem copy_matches_unless_sorted:
  assumes "comparable s" and "copyable s"
  shows "\<exists>t. copy_sql_statement s = Some t \<and> match_sql_statement t s = Some (unsorted s)"
proof -
  obtain t where "copy_sql_statement s = Some t" "comparable t" "essence t = essence s \<longleftrightarrow> unsorted s"
    using copy_essence(1) [OF assms] by (elim exE conjE)
  then show ?thesis
    using match_essence(1) [of t s] assms(1) by simp
qed


definition sorted_list :: "SqlStatement \<Rightarrow> SqlStatement" where
  "sorted_list keywords = column_list_alias_STATEMENT
     [SqlColumnListAlias (column_list_STATEMENT [sample_column False]) NULL keywords STRING_LITERAL False]"

theorem copy_matches_unless_sorted_witness:
  "(\<exists>t. copy_sql_statement (sorted_list (keyword_STATEMENT [SqlOptionalKeyword OPTIONAL_DESC NULL])) = Some t
    \<and> match_sql_statement t (sorted_list (keyword_STATEMENT [SqlOptionalKeyword OPTIONAL_DESC NULL])) = Some False)
   \<and> (\<exists>t. copy_sql_statement (select_STATEMENT (sorted_list NULL) NULL NULL NULL NULL (sorted_list (keyword_STATEMENT [SqlOptionalKeyword OPTIONAL_DESC NULL])) NULL) = Some t
    \<and> match_sql_statement t (select_STATEMENT (sorted_list NULL) NULL NULL NULL NULL (sorted_list (keyword_STATEMENT [SqlOptionalKeyword OPTIONAL_DESC NULL])) NULL) = Some True)"
  using copy_matches_unless_sorted [of "sorted_list (keyword_STATEMENT [SqlOptionalKeyword OPTIONAL_DESC NULL])"]
    copy_matches_unless_sorted [of "select_STATEMENT (sorted_list NULL) NULL NULL NULL NULL (sorted_list (keyword_STATEMENT [SqlOptionalKeyword OPTIONAL_DESC NULL])) NULL"]
  by (simp add: sorted_list_def sample_column_def del: copy_sql_statement.simps match_sql_statement.simps)


end
