(* ===== verification/WherePushdown.thy ===== *)
theory WherePushdown
  imports StatementMatch
begin

text \<open>
  \<open>parse_tree_optimize.c\<close>, \<open>traverse_where_clause.c\<close> and \<open>move_where_clause_to_on_clause.c\<close>: conjuncts of WHERE move to the ON
  condition of a join, so that a nested loop over the joins tests them early.

  The program works on the trees of \<open>StatementMatch\<close>. The list of joins is a list; the join that is noted is an index into it.
  The meaning of FROM and WHERE is that of SQL with nested loops, for any evaluation of conditions to three truth values.
\<close>

section \<open>The program\<close>

definition IS_STMT_BOOLEAN_AND :: "SqlStatement \<Rightarrow> bool" where
  "IS_STMT_BOOLEAN_AND stmt =
     (case stmt of binary_STATEMENT operation _ _ \<Rightarrow> operation = BOOLEAN_AND | _ \<Rightarrow> False)"

definition IS_OUTER_JOIN :: "SqlJoinType \<Rightarrow> bool" where
  "IS_OUTER_JOIN join_type \<longleftrightarrow> join_type \<in> {RIGHT_JOIN, LEFT_JOIN, FULL_JOIN}"

text \<open>The local variables of \<open>move_where_clause_to_on_clause\<close> that its loop sets; a join is given by its index.\<close>

record join_scan =
  outer_join_seen :: bool
  right_or_full_join_seen :: bool
  noted_join :: "nat option"

text \<open>
  The test for a join that may inherit the condition. The second argument are the joins after it: that the next join is
  not the first means that there is one.
\<close>

fun may_inherit :: "int \<Rightarrow> SqlJoin \<Rightarrow> SqlJoin list \<Rightarrow> bool" where
  "may_inherit max_unique_id cur_join [] = False"
| "may_inherit max_unique_id (SqlJoin _ _ join_type join_unique_id) (SqlJoin _ _ next_type _ # _) \<longleftrightarrow>
     CROSS_JOIN \<noteq> join_type \<and> CROSS_JOIN \<noteq> next_type \<and> max_unique_id \<le> join_unique_id"

fun join_type :: "SqlJoin \<Rightarrow> SqlJoinType" where
  "join_type (SqlJoin _ _ type _) = type"

fun join_loop :: "int \<Rightarrow> SqlJoin list \<Rightarrow> nat \<Rightarrow> join_scan \<Rightarrow> join_scan" where
  "join_loop max_unique_id [] i l = l"
| "join_loop max_unique_id (cur_join # js) i l =
     join_loop max_unique_id js (i + 1)
      (if IS_OUTER_JOIN (join_type cur_join) then
         l\<lparr>outer_join_seen := True,
           right_or_full_join_seen := right_or_full_join_seen l \<or> join_type cur_join \<in> {RIGHT_JOIN, FULL_JOIN}\<rparr>
       else if noted_join l = None \<and> may_inherit max_unique_id cur_join js then l\<lparr>noted_join := Some i\<rparr>
       else l)"

fun inherit :: "SqlStatement \<Rightarrow> SqlJoin \<Rightarrow> SqlJoin" where
  "inherit stmt (SqlJoin value condition type join_unique_id) =
     SqlJoin value (if condition \<noteq> NULL then binary_STATEMENT BOOLEAN_AND condition stmt else stmt) type join_unique_id"

text \<open>
  \<open>cycle\<close> reads the field \<open>hash_canonical_query_cycle\<close> of a statement. The result is what \<open>*stmt_ptr\<close> is after the call,
  and the joins; \<open>None\<close> is the use of a null pointer.
\<close>

definition move_where_clause_to_on_clause ::
    "(SqlStatement \<Rightarrow> int) \<Rightarrow> SqlStatement \<Rightarrow> SqlJoin list \<Rightarrow> (SqlStatement \<times> SqlJoin list) option" where
  "move_where_clause_to_on_clause cycle stmt joins =
     (if stmt = NULL \<or> joins = [] then None
      else let l = join_loop (cycle stmt) joins 0
             \<lparr>outer_join_seen = False, right_or_full_join_seen = False, noted_join = None\<rparr> in
        case noted_join l of
          None \<Rightarrow> Some (stmt, joins)
        | Some i \<Rightarrow>
            if \<not> right_or_full_join_seen l then
              Some (if \<not> outer_join_seen l then NULL else stmt, joins[i := inherit stmt (joins ! i)])
            else Some (stmt, joins))"

fun traverse_where_clause :: "(SqlStatement \<Rightarrow> int) \<Rightarrow> SqlStatement \<Rightarrow> SqlJoin list \<Rightarrow> (SqlStatement \<times> SqlJoin list) option" where
  "traverse_where_clause cycle binary_stmt joins =
     (case binary_stmt of
        binary_STATEMENT operation op0 op1 \<Rightarrow>
          if operation \<noteq> BOOLEAN_AND then None
          else do {
            (op0', joins) \<leftarrow> (if IS_STMT_BOOLEAN_AND op0 then traverse_where_clause cycle op0 joins
                              else move_where_clause_to_on_clause cycle op0 joins);
            (op1', joins) \<leftarrow> (if IS_STMT_BOOLEAN_AND op1 then traverse_where_clause cycle op1 joins
                              else move_where_clause_to_on_clause cycle op1 joins);
            Some (let ret = (if op0' \<noteq> NULL then op0' else NULL)
                  in (if op1' \<noteq> NULL then (if ret \<noteq> NULL then binary_STATEMENT BOOLEAN_AND op0' op1' else op1') else ret),
                  joins)
          }
      | _ \<Rightarrow> None)"

declare traverse_where_clause.simps [simp del]

definition parse_tree_optimize :: "(SqlStatement \<Rightarrow> int) \<Rightarrow> SqlStatement \<Rightarrow> SqlStatement option" where
  "parse_tree_optimize cycle select =
     (case select of
        select_STATEMENT select_list table_list stmt group_by having_expression order_by optional_words \<Rightarrow>
          if stmt = NULL then Some select
          else (case table_list of
              join_STATEMENT joins \<Rightarrow> do {
                (stmt', joins') \<leftarrow> (if IS_STMT_BOOLEAN_AND stmt then traverse_where_clause cycle stmt joins
                                    else move_where_clause_to_on_clause cycle stmt joins);
                Some (select_STATEMENT select_list (join_STATEMENT joins') stmt' group_by having_expression order_by optional_words)
              }
            | _ \<Rightarrow> None)
      | _ \<Rightarrow> None)"

section \<open>The meaning of FROM and WHERE\<close>

text \<open>
  A row of the joined tables gives every table, by its unique identifier, a row or none. \<open>ids\<close> and \<open>rows\<close> give the
  identifier and the rows of what is joined, \<open>eval\<close> the three-valued truth of a condition, \<open>outer\<close> the row of the queries around.
\<close>

type_synonym 'r env = "int \<Rightarrow> 'r option"

type_synonym 'r evaluation = "SqlStatement \<Rightarrow> 'r env \<Rightarrow> bool option"

definition sql_and :: "bool option \<Rightarrow> bool option \<Rightarrow> bool option" where
  "sql_and p q = (if p = Some False \<or> q = Some False then Some False else if p = None \<or> q = None then None else Some True)"

definition holds :: "'r evaluation \<Rightarrow> SqlStatement \<Rightarrow> 'r env \<Rightarrow> bool" where
  "holds eval condition env \<longleftrightarrow> condition = NULL \<or> eval condition env = Some True"

definition matches :: "'r evaluation \<Rightarrow> (SqlStatement \<Rightarrow> int) \<Rightarrow> (SqlStatement \<Rightarrow> 'r list) \<Rightarrow> SqlJoin \<Rightarrow> 'r env \<Rightarrow> 'r env list" where
  "matches eval ids rows j env =
     (case j of SqlJoin value condition _ _ \<Rightarrow>
        filter (holds eval condition) (map (\<lambda>r. env(ids value := Some r)) (rows value)))"

definition joined :: "'r evaluation \<Rightarrow> (SqlStatement \<Rightarrow> int) \<Rightarrow> (SqlStatement \<Rightarrow> 'r list) \<Rightarrow> SqlJoin \<Rightarrow> 'r env \<Rightarrow> 'r env list" where
  "joined eval ids rows j env =
     (case j of SqlJoin value _ type _ \<Rightarrow>
        if matches eval ids rows j env = [] \<and> type \<in> {LEFT_JOIN, FULL_JOIN} then [env(ids value := None)]
        else matches eval ids rows j env)"

definition unmatched ::
    "'r evaluation \<Rightarrow> (SqlStatement \<Rightarrow> int) \<Rightarrow> (SqlStatement \<Rightarrow> 'r list) \<Rightarrow> 'r env \<Rightarrow> SqlJoin \<Rightarrow> 'r env list \<Rightarrow> 'r env list" where
  "unmatched eval ids rows outer j envs =
     (case j of SqlJoin value condition type _ \<Rightarrow>
        if type \<in> {RIGHT_JOIN, FULL_JOIN} then
          map (\<lambda>r. outer(ids value := Some r))
            (filter (\<lambda>r. \<forall>env\<in>set envs. \<not> holds eval condition (env(ids value := Some r))) (rows value))
        else [])"

definition from_rows ::
    "'r evaluation \<Rightarrow> (SqlStatement \<Rightarrow> int) \<Rightarrow> (SqlStatement \<Rightarrow> 'r list) \<Rightarrow> 'r env \<Rightarrow> SqlJoin list \<Rightarrow> 'r env list \<Rightarrow> 'r env list" where
  "from_rows eval ids rows outer joins envs =
     foldl (\<lambda>envs j. concat (map (joined eval ids rows j) envs) @ unmatched eval ids rows outer j envs) envs joins"

definition query_rows ::
    "'r evaluation \<Rightarrow> (SqlStatement \<Rightarrow> int) \<Rightarrow> (SqlStatement \<Rightarrow> 'r list) \<Rightarrow> 'r env \<Rightarrow> SqlJoin list \<Rightarrow> SqlStatement \<Rightarrow> 'r env list" where
  "query_rows eval ids rows outer joins where_expression =
     filter (holds eval where_expression) (from_rows eval ids rows outer joins [outer])"

text \<open>What is said of the parser: a table that comes after a join has an identifier that is not below that of the join.\<close>

fun join_value :: "SqlJoin \<Rightarrow> SqlStatement" where
  "join_value (SqlJoin value _ _ _) = value"

fun join_condition :: "SqlJoin \<Rightarrow> SqlStatement" where
  "join_condition (SqlJoin _ condition _ _) = condition"

fun join_unique_id :: "SqlJoin \<Rightarrow> int" where
  "join_unique_id (SqlJoin _ _ _ m) = m"

fun numbered :: "(SqlStatement \<Rightarrow> int) \<Rightarrow> SqlJoin list \<Rightarrow> bool" where
  "numbered ids [] = True"
| "numbered ids (j # js) \<longleftrightarrow> (\<forall>k\<in>set js. join_unique_id j \<le> ids (join_value k)) \<and> numbered ids js"

text \<open>The parts of a condition that AND connects, and trees without a null pointer under an AND.\<close>

fun conjuncts :: "SqlStatement \<Rightarrow> SqlStatement list" where
  "conjuncts s =
     (case s of NULL \<Rightarrow> [] | binary_STATEMENT operation a b \<Rightarrow> if operation = BOOLEAN_AND then conjuncts a @ conjuncts b else [s]
      | _ \<Rightarrow> [s])"

fun complete :: "SqlStatement \<Rightarrow> bool" where
  "complete s =
     (case s of NULL \<Rightarrow> False | binary_STATEMENT operation a b \<Rightarrow> operation = BOOLEAN_AND \<longrightarrow> complete a \<and> complete b | _ \<Rightarrow> True)"

declare conjuncts.simps [simp del] complete.simps [simp del]

text \<open>A condition whose truth depends on tables below its \<open>cycle\<close> only.\<close>

definition local_to :: "'r evaluation \<Rightarrow> (SqlStatement \<Rightarrow> int) \<Rightarrow> SqlStatement \<Rightarrow> bool" where
  "local_to eval cycle c \<longleftrightarrow> (\<forall>env env'. (\<forall>t<cycle c. env t = env' t) \<longrightarrow> eval c env = eval c env')"

text \<open>The place of a condition: the first join that may inherit it, counted from \<open>i\<close>.\<close>

fun place :: "int \<Rightarrow> SqlJoin list \<Rightarrow> nat \<Rightarrow> nat option" where
  "place m [] i = None"
| "place m (j # js) i =
     (if \<not> IS_OUTER_JOIN (join_type j) \<and> may_inherit m j js then Some i else place m js (i + 1))"
section \<open>Where conditions go\<close>

definition some_join :: "SqlJoinType set \<Rightarrow> SqlJoin list \<Rightarrow> bool" where
  "some_join types js \<longleftrightarrow> (\<exists>j\<in>set js. join_type j \<in> types)"

text \<open>A join without its condition, and a condition that goes to its place.\<close>

definition skeleton :: "SqlJoin \<Rightarrow> SqlStatement \<times> SqlJoinType \<times> int" where
  "skeleton j = (join_value j, join_type j, join_unique_id j)"

definition put :: "(SqlStatement \<Rightarrow> int) \<Rightarrow> SqlStatement \<Rightarrow> SqlJoin list \<Rightarrow> SqlJoin list" where
  "put cycle c js =
     (case place (cycle c) js 0 of None \<Rightarrow> js
      | Some i \<Rightarrow> if some_join {RIGHT_JOIN, FULL_JOIN} js then js else js[i := inherit c (js ! i)])"

definition kept :: "(SqlStatement \<Rightarrow> int) \<Rightarrow> SqlJoin list \<Rightarrow> SqlStatement \<Rightarrow> bool" where
  "kept cycle js c \<longleftrightarrow> place (cycle c) js 0 = None \<or> some_join {LEFT_JOIN, RIGHT_JOIN, FULL_JOIN} js"

lemma IS_OUTER_JOIN_iff: "IS_OUTER_JOIN type \<longleftrightarrow> type \<in> {LEFT_JOIN, RIGHT_JOIN, FULL_JOIN}"
  by (auto simp: IS_OUTER_JOIN_def)

lemma some_join_Cons [simp]: "some_join T (j # js) \<longleftrightarrow> join_type j \<in> T \<or> some_join T js"
  by (simp add: some_join_def)

lemma some_join_Nil [simp]: "\<not> some_join T []"
  by (simp add: some_join_def)

lemma join_loop_places:
  "noted_join (join_loop m js i l) = (if noted_join l = None then place m js i else noted_join l)"
  "outer_join_seen (join_loop m js i l) \<longleftrightarrow> outer_join_seen l \<or> some_join {LEFT_JOIN, RIGHT_JOIN, FULL_JOIN} js"
  "right_or_full_join_seen (join_loop m js i l) \<longleftrightarrow> right_or_full_join_seen l \<or> some_join {RIGHT_JOIN, FULL_JOIN} js"
  by (induction js arbitrary: i l) (auto simp: IS_OUTER_JOIN_def)

lemma skeleton_eq: "skeleton j = skeleton j' \<longleftrightarrow>
    join_value j = join_value j' \<and> join_type j = join_type j' \<and> join_unique_id j = join_unique_id j'"
  by (simp add: skeleton_def)

lemma skeleton_inherit [simp]: "skeleton (inherit c j) = skeleton j"
  by (cases j) (simp add: skeleton_def)

lemma skeleton_update [simp]: "map skeleton (js[i := inherit c (js ! i)]) = map skeleton js"
  by (metis list_update_id map_update skeleton_inherit)

lemma skeleton_put [simp]: "map skeleton (put cycle c js) = map skeleton js"
  by (simp add: put_def split: option.split)

lemma skeleton_fold [simp]: "map skeleton (fold (put cycle) cs js) = map skeleton js"
  by (induction cs arbitrary: js) simp_all

lemma may_inherit_skeleton:
  assumes "skeleton j = skeleton j'" and "map skeleton js = map skeleton js'"
  shows "may_inherit m j js = may_inherit m j' js'"
proof (cases js)
  case (Cons k ks)
  with assms(2) obtain k' ks' where "js' = k' # ks'" "skeleton k = skeleton k'"
    by auto
  with Cons assms(1) show ?thesis
    by (cases j; cases j'; cases k; cases k') (simp add: skeleton_def)
qed (use assms in simp)

lemma place_skeleton: "map skeleton js = map skeleton js' \<Longrightarrow> place m js i = place m js' i"
proof (induction js arbitrary: js' i)
  case (Cons j js)
  then obtain j' js'' where *: "js' = j' # js''" "skeleton j = skeleton j'" "map skeleton js = map skeleton js''"
    by auto
  with Cons.IH [OF *(3)] may_inherit_skeleton [OF *(2,3)] show ?case
    by (simp add: skeleton_eq)
qed simp

lemma some_join_skeleton: "map skeleton js = map skeleton js' \<Longrightarrow> some_join T js = some_join T js'"
proof (induction js arbitrary: js')
  case (Cons j js)
  then obtain j' js'' where *: "js' = j' # js''" "skeleton j = skeleton j'" "map skeleton js = map skeleton js''"
    by auto
  with Cons.IH [OF *(3)] show ?case
    by (simp add: skeleton_eq)
qed simp

lemma numbered_skeleton: "map skeleton js = map skeleton js' \<Longrightarrow> numbered ids js = numbered ids js'"
proof (induction js arbitrary: js')
  case (Cons j js)
  then obtain j' js'' where *: "js' = j' # js''" "skeleton j = skeleton j'" "map skeleton js = map skeleton js''"
    by auto
  have "(\<forall>k\<in>set js. m \<le> ids (join_value k)) = (\<forall>k\<in>set js''. m \<le> ids (join_value k))" for m
    using arg_cong [OF *(3), of "\<lambda>xs. \<forall>x\<in>set xs. m \<le> ids (fst x)"] by (simp add: skeleton_def)
  with *(1,2) Cons.IH [OF *(3)] show ?case
    by (simp add: skeleton_eq)
qed simp

lemma kept_skeleton: "map skeleton js = map skeleton js' \<Longrightarrow> kept cycle js = kept cycle js'"
  by (rule ext) (simp add: kept_def place_skeleton [of js js'] some_join_skeleton [of js js'])

lemma conjuncts_simps [simp]:
  "conjuncts NULL = []"
  "conjuncts (binary_STATEMENT BOOLEAN_AND a b) = conjuncts a @ conjuncts b"
  "s \<noteq> NULL \<Longrightarrow> \<not> IS_STMT_BOOLEAN_AND s \<Longrightarrow> conjuncts s = [s]"
  by (simp_all add: conjuncts.simps [of NULL] conjuncts.simps [of "binary_STATEMENT _ _ _"])
    (auto simp: conjuncts.simps [of s] IS_STMT_BOOLEAN_AND_def split: SqlStatement.splits)

lemma complete_simps [simp]:
  "\<not> complete NULL"
  "complete (binary_STATEMENT BOOLEAN_AND a b) \<longleftrightarrow> complete a \<and> complete b"
  "s \<noteq> NULL \<Longrightarrow> \<not> IS_STMT_BOOLEAN_AND s \<Longrightarrow> complete s"
  by (simp_all add: complete.simps [of NULL] complete.simps [of "binary_STATEMENT _ _ _"])
    (auto simp: complete.simps [of s] IS_STMT_BOOLEAN_AND_def split: SqlStatement.splits)

lemma move_puts:
  assumes "s \<noteq> NULL" and "js \<noteq> []"
  shows "move_where_clause_to_on_clause cycle s js = Some (if kept cycle js s then s else NULL, put cycle s js)"
  using assms
  by (auto simp: move_where_clause_to_on_clause_def join_loop_places put_def kept_def Let_def some_join_def split: option.splits)

lemma is_and:
  assumes "IS_STMT_BOOLEAN_AND s"
  obtains a b where "s = binary_STATEMENT BOOLEAN_AND a b"
  using assms by (cases s) (auto simp: IS_STMT_BOOLEAN_AND_def)

lemma IS_AND_simp [simp]: "IS_STMT_BOOLEAN_AND (binary_STATEMENT operation a b) \<longleftrightarrow> operation = BOOLEAN_AND"
  by (simp add: IS_STMT_BOOLEAN_AND_def)

definition optimized :: "(SqlStatement \<Rightarrow> int) \<Rightarrow> SqlStatement \<Rightarrow> SqlJoin list \<Rightarrow> SqlStatement \<Rightarrow> bool" where
  "optimized cycle s js w \<longleftrightarrow> conjuncts w = filter (kept cycle js) (conjuncts s) \<and> (w = NULL \<or> complete w)
     \<and> (some_join {LEFT_JOIN, RIGHT_JOIN, FULL_JOIN} js \<longrightarrow> w = s)"

lemma complete_conjuncts: "complete s \<Longrightarrow> conjuncts s \<noteq> []"
proof (induction s rule: conjuncts.induct)
  case (1 s)
  show ?case
  proof (cases "IS_STMT_BOOLEAN_AND s")
    case True
    then obtain a b where s: "s = binary_STATEMENT BOOLEAN_AND a b"
      by (rule is_and)
    with 1(1) [OF s refl] 1(3) show ?thesis
      by simp
  next
    case False
    with 1(3) show ?thesis
      by (cases "s = NULL") simp_all
  qed
qed

lemma optimize_puts:
  "complete s \<Longrightarrow> js \<noteq> [] \<Longrightarrow>
     \<exists>w. (if IS_STMT_BOOLEAN_AND s then traverse_where_clause cycle s js else move_where_clause_to_on_clause cycle s js)
           = Some (w, fold (put cycle) (conjuncts s) js) \<and> optimized cycle s js w"
proof (induction s arbitrary: js rule: conjuncts.induct)
  case (1 s)
  show ?case
  proof (cases "IS_STMT_BOOLEAN_AND s")
    case True
    then obtain a b where s: "s = binary_STATEMENT BOOLEAN_AND a b"
      by (rule is_and)
    with 1(3) have ab: "complete a" "complete b"
      by simp_all
    define js' where "js' = fold (put cycle) (conjuncts a) js"
    have js': "map skeleton js' = map skeleton js"
      by (simp add: js'_def)
    with 1(4) have "js' \<noteq> []"
      by auto
    from 1(1) [OF s refl ab(1) 1(4)] obtain wa where
      a: "(if IS_STMT_BOOLEAN_AND a then traverse_where_clause cycle a js else move_where_clause_to_on_clause cycle a js) = Some (wa, js')"
        "optimized cycle a js wa"
      unfolding js'_def by (elim exE conjE)
    from 1(2) [OF s refl ab(2) \<open>js' \<noteq> []\<close>] obtain wb where
      b: "(if IS_STMT_BOOLEAN_AND b then traverse_where_clause cycle b js' else move_where_clause_to_on_clause cycle b js')
            = Some (wb, fold (put cycle) (conjuncts b) js')"
        "optimized cycle b js' wb"
      by (elim exE conjE)
    let ?w = "if wb \<noteq> NULL then (if wa \<noteq> NULL then binary_STATEMENT BOOLEAN_AND wa wb else wb) else wa"
    have "traverse_where_clause cycle s js = Some (?w, fold (put cycle) (conjuncts s) js)"
      using a(1) b(1) by (simp add: s traverse_where_clause.simps [of _ "binary_STATEMENT _ _ _"] js'_def [symmetric])
    moreover have "optimized cycle s js ?w"
      using a(2) b(2) ab some_join_skeleton [OF js', of "{LEFT_JOIN, RIGHT_JOIN, FULL_JOIN}"] kept_skeleton [OF js', of cycle]
      by (auto simp: optimized_def s)
    ultimately show ?thesis
      using True by auto
  next
    case False
    moreover from 1(3) have "s \<noteq> NULL"
      by auto
    ultimately show ?thesis
      using 1(3,4) move_puts [of s js cycle] by (auto simp: optimized_def kept_def)
  qed
qed

section \<open>The rows of a query\<close>

lemma from_rows_Nil [simp]: "from_rows eval ids rows outer [] envs = envs"
  by (simp add: from_rows_def)

lemma from_rows_Cons [simp]:
  "from_rows eval ids rows outer (j # js) envs =
     from_rows eval ids rows outer js (concat (map (joined eval ids rows j) envs) @ unmatched eval ids rows outer j envs)"
  by (simp add: from_rows_def)

lemma from_rows_append: "from_rows eval ids rows outer (pre @ js) envs = from_rows eval ids rows outer js (from_rows eval ids rows outer pre envs)"
  by (simp add: from_rows_def)

lemma no_unmatched: "join_type j \<notin> {RIGHT_JOIN, FULL_JOIN} \<Longrightarrow> unmatched eval ids rows outer j envs = []"
  by (cases j) (simp add: unmatched_def)

lemma joined_other_tables: "env' \<in> set (joined eval ids rows j env) \<Longrightarrow> t \<noteq> ids (join_value j) \<Longrightarrow> env' t = env t"
  by (cases j) (auto simp: joined_def matches_def split: if_splits)

lemma filter_concat_same:
  "(\<And>x y. x \<in> set xs \<Longrightarrow> y \<in> set (f x) \<Longrightarrow> P y \<longleftrightarrow> P x) \<Longrightarrow> filter P (concat (map f xs)) = concat (map f (filter P xs))"
proof (induction xs)
  case (Cons x xs)
  then have "filter P (f x) = (if P x then f x else [])"
    by (auto simp: filter_empty_conv filter_id_conv)
  with Cons show ?case
    by simp
qed simp

text \<open>A condition on earlier tables may be tested before or after a join that keeps the rows on its left.\<close>

lemma filter_from_rows:
  assumes "local_to eval cycle c" and "c \<noteq> NULL" and "\<not> some_join {RIGHT_JOIN, FULL_JOIN} js"
    and "\<forall>j\<in>set js. cycle c \<le> ids (join_value j)"
  shows "from_rows eval ids rows outer js (filter (holds eval c) envs) = filter (holds eval c) (from_rows eval ids rows outer js envs)"
  using assms(3,4)
proof (induction js arbitrary: envs)
  case (Cons j js)
  have "holds eval c env' \<longleftrightarrow> holds eval c env" if "env' \<in> set (joined eval ids rows j env)" for env env'
  proof -
    have "\<forall>t<cycle c. env' t = env t"
      using joined_other_tables [OF that] Cons.prems(2) by fastforce
    then have "eval c env' = eval c env"
      using assms(1) by (simp add: local_to_def)
    then show ?thesis
      by (simp add: holds_def)
  qed
  then have "filter (holds eval c) (concat (map (joined eval ids rows j) envs)) = concat (map (joined eval ids rows j) (filter (holds eval c) envs))"
    by (rule filter_concat_same)
  from this [symmetric] show ?case
    using Cons by (simp add: no_unmatched)
qed simp

definition sql_connective :: "'r evaluation \<Rightarrow> bool" where
  "sql_connective eval \<longleftrightarrow> (\<forall>a b env. eval (binary_STATEMENT BOOLEAN_AND a b) env = sql_and (eval a env) (eval b env))"

lemma sql_and_True [simp]: "sql_and p q = Some True \<longleftrightarrow> p = Some True \<and> q = Some True"
  by (auto simp: sql_and_def)

lemma matches_inherit:
  assumes "sql_connective eval" and "c \<noteq> NULL"
  shows "matches eval ids rows (inherit c j) env = filter (holds eval c) (matches eval ids rows j env)"
  using assms by (cases j) (auto simp: matches_def holds_def sql_connective_def intro: filter_cong)

lemma joined_inherit:
  assumes "sql_connective eval" and "c \<noteq> NULL" and "\<not> IS_OUTER_JOIN (join_type j)"
  shows "joined eval ids rows (inherit c j) = (\<lambda>env. filter (holds eval c) (joined eval ids rows j env))"
  using matches_inherit [OF assms(1,2), of ids rows j] assms(3)
  by (intro ext, cases j) (simp add: joined_def IS_OUTER_JOIN_def split: if_splits)

lemma place_split:
  assumes "place m js k = Some i"
  obtains pre j ks where "js = pre @ j # ks" and "i = k + List.length pre" and "\<not> IS_OUTER_JOIN (join_type j)" and "m \<le> join_unique_id j"
    and "join_type j \<noteq> CROSS_JOIN" and "ks \<noteq> []" and "join_type (hd ks) \<noteq> CROSS_JOIN"
  using assms
proof (induction js arbitrary: k thesis)
  case (Cons j js)
  show ?case
  proof (cases "\<not> IS_OUTER_JOIN (join_type j) \<and> may_inherit m j js")
    case True
    then have "m \<le> join_unique_id j \<and> join_type j \<noteq> CROSS_JOIN \<and> js \<noteq> [] \<and> join_type (hd js) \<noteq> CROSS_JOIN"
      by (cases j; cases js) (auto elim: may_inherit.elims)
    with True Cons.prems(2) show ?thesis
      by (intro Cons.prems(1) [of "[]" j js]) auto
  next
    case False
    with Cons.prems(2) have "place m js (k + 1) = Some i"
      by (auto split: if_splits)
    from Cons.IH [OF _ this] obtain pre j' ks where "js = pre @ j' # ks" "i = k + 1 + List.length pre" "\<not> IS_OUTER_JOIN (join_type j')"
        "m \<le> join_unique_id j'" "join_type j' \<noteq> CROSS_JOIN" "ks \<noteq> []" "join_type (hd ks) \<noteq> CROSS_JOIN"
      by metis
    then show ?thesis
      by (intro Cons.prems(1) [of "j # pre" j' ks]) auto
  qed
qed simp

lemma numbered_append: "numbered ids (pre @ j # ks) \<Longrightarrow> k \<in> set ks \<Longrightarrow> join_unique_id j \<le> ids (join_value k)"
  by (induction pre) simp_all

lemma some_join_append [simp]: "some_join T (pre @ js) \<longleftrightarrow> some_join T pre \<or> some_join T js"
  by (auto simp: some_join_def)

lemma rows_put:
  assumes "sql_connective eval" and "local_to eval cycle c" and "c \<noteq> NULL" and "numbered ids js"
  shows "from_rows eval ids rows outer (put cycle c js) envs =
    filter (\<lambda>env. place (cycle c) js 0 \<noteq> None \<and> \<not> some_join {RIGHT_JOIN, FULL_JOIN} js \<longrightarrow> holds eval c env) (from_rows eval ids rows outer js envs)"
proof (cases "place (cycle c) js 0")
  case (Some i)
  show ?thesis
  proof (cases "some_join {RIGHT_JOIN, FULL_JOIN} js")
    case False
    from Some obtain pre j ks where *: "js = pre @ j # ks" "i = List.length pre" "\<not> IS_OUTER_JOIN (join_type j)" "cycle c \<le> join_unique_id j"
      by (auto elim: place_split)
    have "put cycle c js = pre @ inherit c j # ks"
      using Some False by (simp add: put_def *(1,2))
    moreover have "\<forall>k\<in>set ks. cycle c \<le> ids (join_value k)"
      using numbered_append [of ids pre j ks] assms(4) *(1,4) by force
    moreover have "join_type (inherit c j) = join_type j"
      by (cases j) simp
    moreover have "concat (map (joined eval ids rows (inherit c j)) es) = filter (holds eval c) (concat (map (joined eval ids rows j) es))" for es
      by (simp add: joined_inherit [OF assms(1,3) *(3)] filter_concat comp_def)
    ultimately show ?thesis
      using Some False filter_from_rows [OF assms(2,3), of ks ids rows outer] *(3)
      by (simp add: *(1) from_rows_append no_unmatched IS_OUTER_JOIN_def del: filter_concat)
  qed (simp add: put_def Some)
qed (simp add: put_def)

lemma rows_fold_put:
  assumes "sql_connective eval" and "numbered ids js" and "\<forall>c\<in>set cs. local_to eval cycle c \<and> c \<noteq> NULL"
  shows "from_rows eval ids rows outer (fold (put cycle) cs js) envs =
    filter (\<lambda>env. \<forall>c\<in>set cs. place (cycle c) js 0 \<noteq> None \<and> \<not> some_join {RIGHT_JOIN, FULL_JOIN} js \<longrightarrow> holds eval c env)
      (from_rows eval ids rows outer js envs)"
  using assms(2,3)
proof (induction cs arbitrary: js)
  case (Cons c cs)
  have js: "map skeleton (put cycle c js) = map skeleton js"
    by simp
  show ?case
    using Cons.IH [of "put cycle c js"] Cons.prems rows_put [OF assms(1), of cycle c ids js rows outer envs]
      numbered_skeleton [OF js, of ids] place_skeleton [OF js] some_join_skeleton [OF js]
    by (simp add: conj_commute)
qed simp

lemma holds_conjuncts:
  assumes "sql_connective eval"
  shows "s = NULL \<or> complete s \<Longrightarrow> holds eval s env \<longleftrightarrow> (\<forall>c\<in>set (conjuncts s). holds eval c env)"
proof (induction s rule: conjuncts.induct)
  case (1 s)
  show ?case
  proof (cases "IS_STMT_BOOLEAN_AND s")
    case True
    then obtain a b where s: "s = binary_STATEMENT BOOLEAN_AND a b"
      by (rule is_and)
    with 1(3) have ab: "complete a" "complete b"
      by simp_all
    then have "a \<noteq> NULL" "b \<noteq> NULL"
      by auto
    with 1(1) [OF s refl] 1(2) [OF s refl] ab show ?thesis
      using assms by (auto simp: s sql_connective_def holds_def)
  next
    case False
    then show ?thesis
      by (cases "s = NULL") (simp_all add: holds_def)
  qed
qed

lemma conjuncts_not_NULL: "complete s \<Longrightarrow> c \<in> set (conjuncts s) \<Longrightarrow> c \<noteq> NULL"
proof (induction s rule: conjuncts.induct)
  case (1 s)
  show ?case
  proof (cases "IS_STMT_BOOLEAN_AND s")
    case True
    then obtain a b where s: "s = binary_STATEMENT BOOLEAN_AND a b"
      by (rule is_and)
    with 1(1) [OF s refl] 1(2) [OF s refl] 1(3,4) show ?thesis
      by auto
  next
    case False
    with 1(3,4) show ?thesis
      by (cases "s = NULL") simp_all
  qed
qed

lemma parse_tree_optimize_puts:
  assumes "complete w" and "joins \<noteq> []"
  obtains w' where "parse_tree_optimize cycle (select_STATEMENT a (join_STATEMENT joins) w d e f g)
       = Some (select_STATEMENT a (join_STATEMENT (fold (put cycle) (conjuncts w) joins)) w' d e f g)"
    and "optimized cycle w joins w'"
proof -
  obtain w' where *: "(if IS_STMT_BOOLEAN_AND w then traverse_where_clause cycle w joins else move_where_clause_to_on_clause cycle w joins)
      = Some (w', fold (put cycle) (conjuncts w) joins)" "optimized cycle w joins w'"
    using optimize_puts [OF assms, of cycle] by (elim exE conjE)
  moreover have "w \<noteq> NULL"
    using assms(1) by auto
  ultimately show ?thesis
    by (intro that [of w']) (simp_all add: parse_tree_optimize_def)
qed

lemma conjuncts_conjunct: "complete s \<Longrightarrow> c \<in> set (conjuncts s) \<Longrightarrow> conjuncts c = [c]"
proof (induction s rule: conjuncts.induct)
  case (1 s)
  show ?case
  proof (cases "IS_STMT_BOOLEAN_AND s")
    case True
    then obtain a b where s: "s = binary_STATEMENT BOOLEAN_AND a b"
      by (rule is_and)
    with 1(1) [OF s refl] 1(2) [OF s refl] 1(3,4) show ?thesis
      by auto
  next
    case False
    with 1(3,4) show ?thesis
      by (cases "s = NULL") simp_all
  qed
qed

lemma conjuncts_inherit:
  "conjuncts (join_condition (inherit c j)) = conjuncts (join_condition j) @ conjuncts c"
  by (cases j) simp

lemma put_length [simp]: "List.length (put cycle c js) = List.length js"
  by (simp add: put_def split: option.split)

lemma conjuncts_fold_put:
  assumes "\<forall>c\<in>set cs. conjuncts c = [c]" and "i < List.length js"
  shows "conjuncts (join_condition (fold (put cycle) cs js ! i)) = conjuncts (join_condition (js ! i))
    @ filter (\<lambda>c. \<not> some_join {RIGHT_JOIN, FULL_JOIN} js \<and> place (cycle c) js 0 = Some i) cs"
  using assms
proof (induction cs arbitrary: js)
  case (Cons c cs)
  have js: "map skeleton (put cycle c js) = map skeleton js"
    by simp
  have "conjuncts (join_condition (put cycle c js ! i)) = conjuncts (join_condition (js ! i))
      @ (if \<not> some_join {RIGHT_JOIN, FULL_JOIN} js \<and> place (cycle c) js 0 = Some i then [c] else [])"
    using Cons.prems by (simp add: put_def conjuncts_inherit nth_list_update split: option.split)
  with Cons.IH [of "put cycle c js"] Cons.prems place_skeleton [OF js] some_join_skeleton [OF js] show ?case
    by simp
qed simp

lemma put_nowhere: "place (cycle c) js 0 \<noteq> Some i \<or> some_join {RIGHT_JOIN, FULL_JOIN} js \<Longrightarrow> i < List.length js \<Longrightarrow> put cycle c js ! i = js ! i"
  by (auto simp: put_def nth_list_update split: option.split)

lemma fold_put_nowhere:
  assumes "\<forall>c\<in>set cs. place (cycle c) js 0 \<noteq> Some i \<or> some_join {RIGHT_JOIN, FULL_JOIN} js" and "i < List.length js"
  shows "fold (put cycle) cs js ! i = js ! i"
  using assms
proof (induction cs arbitrary: js)
  case (Cons c cs)
  have js: "map skeleton (put cycle c js) = map skeleton js"
    by simp
  show ?case
    using Cons.IH [of "put cycle c js"] Cons.prems place_skeleton [OF js] some_join_skeleton [OF js] put_nowhere [of cycle c js i] by simp
qed simp

lemma not_kept: "\<not> kept cycle js c \<Longrightarrow> place (cycle c) js 0 \<noteq> None \<and> \<not> some_join {RIGHT_JOIN, FULL_JOIN} js"
  by (auto simp: kept_def some_join_def)

section \<open>Properties\<close>

text \<open>C20: The optimisation of the parse tree does not change the result of a query, rows, multiplicities and order, provided that AND is SQL's, that the truth of each conjunct of WHERE depends only on tables below its number, and that tables joined later have numbers that are not below that of the join.\<close>

theorem pushdown_preserves_rows:
  assumes "w = NULL \<or> complete w" and "joins \<noteq> []" and "sql_connective eval" and "numbered ids joins"
    and "\<forall>c\<in>set (conjuncts w). local_to eval cycle c"
  shows "\<exists>w' joins'. parse_tree_optimize cycle (select_STATEMENT a (join_STATEMENT joins) w d e f g)
        = Some (select_STATEMENT a (join_STATEMENT joins') w' d e f g)
      \<and> query_rows eval ids rows outer joins' w' = query_rows eval ids rows outer joins w"
proof (cases "w = NULL")
  case False
  with assms(1) have w: "complete w"
    by simp
  then obtain w' where *: "parse_tree_optimize cycle (select_STATEMENT a (join_STATEMENT joins) w d e f g)
       = Some (select_STATEMENT a (join_STATEMENT (fold (put cycle) (conjuncts w) joins)) w' d e f g)" "optimized cycle w joins w'"
    using assms(2) by (rule parse_tree_optimize_puts)
  have "\<forall>c\<in>set (conjuncts w). local_to eval cycle c \<and> c \<noteq> NULL"
    using conjuncts_not_NULL [OF w] assms(5) by blast
  note rows = rows_fold_put [OF assms(3,4) this]
  have "holds eval w' env \<longleftrightarrow> (\<forall>c\<in>set (conjuncts w). kept cycle joins c \<longrightarrow> holds eval c env)" for env
    using *(2) holds_conjuncts [OF assms(3), of w' env] by (auto simp: optimized_def)
  moreover have "holds eval w env \<longleftrightarrow> (\<forall>c\<in>set (conjuncts w). holds eval c env)" for env
    using w holds_conjuncts [OF assms(3), of w env] by simp
  moreover have "(\<forall>c\<in>set (conjuncts w). place (cycle c) joins 0 \<noteq> None \<and> \<not> some_join {RIGHT_JOIN, FULL_JOIN} joins \<longrightarrow> holds eval c env)
      \<and> (\<forall>c\<in>set (conjuncts w). kept cycle joins c \<longrightarrow> holds eval c env) \<longleftrightarrow> (\<forall>c\<in>set (conjuncts w). holds eval c env)" for env
    using not_kept [of cycle joins] by blast
  ultimately have "query_rows eval ids rows outer (fold (put cycle) (conjuncts w) joins) w' = query_rows eval ids rows outer joins w"
    unfolding query_rows_def rows filter_filter by presburger
  with *(1) show ?thesis
    by blast
qed (simp add: parse_tree_optimize_def)

text \<open>Each conjunct of WHERE is added to the ON condition of the first join that may inherit it, in the order of WHERE, unless there is a RIGHT or FULL JOIN; WHERE keeps the conjuncts that found no join and, if there is an outer join, all of them. Nothing else of the joins changes.\<close>

theorem conditions_go_to_the_first_join:
  assumes "complete w" and "joins \<noteq> []"
  shows "\<exists>w' joins'. parse_tree_optimize cycle (select_STATEMENT a (join_STATEMENT joins) w d e f g)
        = Some (select_STATEMENT a (join_STATEMENT joins') w' d e f g)
      \<and> map skeleton joins' = map skeleton joins
      \<and> (\<forall>i<List.length joins. conjuncts (join_condition (joins' ! i)) = conjuncts (join_condition (joins ! i))
           @ filter (\<lambda>c. \<not> some_join {RIGHT_JOIN, FULL_JOIN} joins \<and> place (cycle c) joins 0 = Some i) (conjuncts w))
      \<and> (if some_join {LEFT_JOIN, RIGHT_JOIN, FULL_JOIN} joins then w' = w
         else conjuncts w' = filter (\<lambda>c. place (cycle c) joins 0 = None) (conjuncts w))"
proof -
  obtain w' where *: "parse_tree_optimize cycle (select_STATEMENT a (join_STATEMENT joins) w d e f g)
       = Some (select_STATEMENT a (join_STATEMENT (fold (put cycle) (conjuncts w) joins)) w' d e f g)" "optimized cycle w joins w'"
    using assms by (rule parse_tree_optimize_puts)
  have "\<forall>c\<in>set (conjuncts w). conjuncts c = [c]"
    using conjuncts_conjunct [OF assms(1)] by blast
  note conjuncts = conjuncts_fold_put [OF this]
  show ?thesis
  proof (intro exI conjI)
    show "parse_tree_optimize cycle (select_STATEMENT a (join_STATEMENT joins) w d e f g)
        = Some (select_STATEMENT a (join_STATEMENT (fold (put cycle) (conjuncts w) joins)) w' d e f g)"
      by (rule *(1))
  qed (use *(2) conjuncts in \<open>auto simp: optimized_def kept_def [abs_def]\<close>)
qed

text \<open>C21: The condition of a join changes only if it is not an outer join, not a CROSS JOIN, not followed by one, not the last, and if there is no RIGHT or FULL JOIN in the query. The optimisation of CROSS JOINs relies on this.\<close>

theorem only_plain_joins_inherit:
  assumes "parse_tree_optimize cycle (select_STATEMENT a (join_STATEMENT joins) w d e f g)
      = Some (select_STATEMENT a (join_STATEMENT joins') w' d e f g)"
    and "complete w" and "i < List.length joins" and "join_condition (joins' ! i) \<noteq> join_condition (joins ! i)"
  shows "i + 1 < List.length joins \<and> join_type (joins ! i) \<in> {NO_JOIN, NATURAL_JOIN, INNER_JOIN}
      \<and> join_type (joins ! (i + 1)) \<noteq> CROSS_JOIN \<and> (\<forall>j\<in>set joins. join_type j \<notin> {RIGHT_JOIN, FULL_JOIN})"
proof -
  have "joins \<noteq> []"
    using assms(3) by auto
  with assms(2) obtain w'' where "parse_tree_optimize cycle (select_STATEMENT a (join_STATEMENT joins) w d e f g)
       = Some (select_STATEMENT a (join_STATEMENT (fold (put cycle) (conjuncts w) joins)) w'' d e f g)"
    by (rule parse_tree_optimize_puts)
  with assms(1) have "joins' = fold (put cycle) (conjuncts w) joins"
    by simp
  with assms(3,4) fold_put_nowhere [of "conjuncts w" cycle joins i]
  have "\<exists>c. place (cycle c) joins 0 = Some i \<and> \<not> some_join {RIGHT_JOIN, FULL_JOIN} joins"
    by metis
  then obtain c where c: "place (cycle c) joins 0 = Some i" "\<not> some_join {RIGHT_JOIN, FULL_JOIN} joins"
    by (elim exE conjE)
  from c(1) obtain pre j ks where "joins = pre @ j # ks" "i = 0 + List.length pre" "\<not> IS_OUTER_JOIN (join_type j)"
      "join_type j \<noteq> CROSS_JOIN" "ks \<noteq> []" "join_type (hd ks) \<noteq> CROSS_JOIN"
    by (rule place_split)
  then show ?thesis
    using c(2) by (cases ks; cases "join_type j") (auto simp: nth_append IS_OUTER_JOIN_def some_join_def)
qed

text \<open>When a query has no RIGHT or FULL JOIN, every row that the changed joins give satisfies every conjunct that was moved: the copy that WHERE retains because of a LEFT JOIN never excludes a row.\<close>

theorem moved_conditions_hold:
  assumes "complete w" and "sql_connective eval" and "numbered ids joins"
    and "\<forall>c\<in>set (conjuncts w). local_to eval cycle c" and "\<not> some_join {RIGHT_JOIN, FULL_JOIN} joins"
    and "c \<in> set (conjuncts w)" and "place (cycle c) joins 0 \<noteq> None"
    and "parse_tree_optimize cycle (select_STATEMENT a (join_STATEMENT joins) w d e f g)
      = Some (select_STATEMENT a (join_STATEMENT joins') w' d e f g)"
    and "env \<in> set (from_rows eval ids rows outer joins' [outer])"
  shows "eval c env = Some True"
proof -
  have "joins \<noteq> []"
    using assms(7) by auto
  with assms(1) obtain w'' where "parse_tree_optimize cycle (select_STATEMENT a (join_STATEMENT joins) w d e f g)
       = Some (select_STATEMENT a (join_STATEMENT (fold (put cycle) (conjuncts w) joins)) w'' d e f g)"
    by (rule parse_tree_optimize_puts)
  with assms(8) have joins': "joins' = fold (put cycle) (conjuncts w) joins"
    by simp
  have not_NULL: "\<forall>c\<in>set (conjuncts w). local_to eval cycle c \<and> c \<noteq> NULL"
    using conjuncts_not_NULL [OF assms(1)] assms(4) by blast
  with assms(5-7,9) rows_fold_put [OF assms(2,3) not_NULL] have "holds eval c env"
    by (auto simp: joins')
  then show ?thesis
    using not_NULL assms(6) by (auto simp: holds_def)
qed

text \<open>Tables of numbers, and conditions that compare two of them.\<close>

definition sample_table :: "int \<Rightarrow> SqlStatement" where
  "sample_table i = table_alias_STATEMENT (create_table_STATEMENT 0) NULL i (Linked 0)"

definition equal_tables :: "int \<Rightarrow> int \<Rightarrow> SqlStatement" where
  "equal_tables i j = binary_STATEMENT BOOLEAN_EQUALS
     (column_alias_STATEMENT NULL (sample_table i)) (column_alias_STATEMENT NULL (sample_table j))"

fun table_id :: "SqlStatement \<Rightarrow> int" where
  "table_id s = (case s of table_alias_STATEMENT _ _ i _ \<Rightarrow> i | column_alias_STATEMENT _ t \<Rightarrow> table_id t | _ \<Rightarrow> 0)"

fun sample_eval :: "int evaluation" where
  "sample_eval s env =
     (case s of binary_STATEMENT operation a b \<Rightarrow>
        if operation = BOOLEAN_AND then sql_and (sample_eval a env) (sample_eval b env)
        else if env (table_id a) = None \<or> env (table_id b) = None then None
        else Some (env (table_id a) = env (table_id b))
      | _ \<Rightarrow> None)"

definition sample_cycle :: "SqlStatement \<Rightarrow> int" where
  "sample_cycle s = (case s of binary_STATEMENT _ a b \<Rightarrow> max (table_id a) (table_id b) + 1 | _ \<Rightarrow> 0)"

definition sample_rows :: "SqlStatement \<Rightarrow> int list" where
  "sample_rows s = (if table_id s = 1 then [1, 2] else if table_id s = 2 then [2, 3] else [2, 2, 5])"

declare table_id.simps [simp del] sample_eval.simps [simp del]

definition sample_joins :: "SqlStatement \<Rightarrow> SqlJoinType \<Rightarrow> SqlJoin list" where
  "sample_joins condition type =
     [SqlJoin (sample_table 1) NULL NO_JOIN 2, SqlJoin (sample_table 2) condition INNER_JOIN 3, SqlJoin (sample_table 3) NULL type 4]"

lemma sample_simps [simp]:
  "table_id (sample_table i) = i"
  "table_id (column_alias_STATEMENT c (sample_table i)) = i"
  "equal_tables i j \<noteq> NULL"
  "\<not> IS_STMT_BOOLEAN_AND (equal_tables i j)"
  "sample_cycle (equal_tables i j) = max i j + 1"
  "sample_eval (equal_tables i j) env = (if env i = None \<or> env j = None then None else Some (env i = env j))"
  by (simp_all add: table_id.simps [of "sample_table _"] table_id.simps [of "column_alias_STATEMENT _ _"] sample_table_def equal_tables_def
    IS_STMT_BOOLEAN_AND_def sample_cycle_def sample_eval.simps [of "binary_STATEMENT _ _ _"]
    table_id.simps [of "table_alias_STATEMENT _ _ _ _"])

lemma sample_eval_and [simp]: "sample_eval (binary_STATEMENT BOOLEAN_AND a b) env = sql_and (sample_eval a env) (sample_eval b env)"
  by (simp add: sample_eval.simps [of "binary_STATEMENT _ _ _"])

lemma sample_connective: "sql_connective sample_eval"
  by (simp add: sql_connective_def)

lemma sample_local: "local_to sample_eval sample_cycle (equal_tables i j)"
  by (simp add: local_to_def)

lemma sample_numbered: "numbered table_id (sample_joins condition type)"
  by (simp add: sample_joins_def)

abbreviation "sample_where \<equiv> binary_STATEMENT BOOLEAN_AND (equal_tables 1 2) (equal_tables 2 3)"

lemma sample_optimized:
  "parse_tree_optimize sample_cycle (select_STATEMENT NULL (join_STATEMENT (sample_joins NULL INNER_JOIN)) sample_where NULL NULL NULL NULL)
    = Some (select_STATEMENT NULL (join_STATEMENT (sample_joins (equal_tables 1 2) INNER_JOIN)) (equal_tables 2 3) NULL NULL NULL NULL)"
  "parse_tree_optimize sample_cycle (select_STATEMENT NULL (join_STATEMENT (sample_joins NULL LEFT_JOIN)) sample_where NULL NULL NULL NULL)
    = Some (select_STATEMENT NULL (join_STATEMENT (sample_joins (equal_tables 1 2) LEFT_JOIN)) sample_where NULL NULL NULL NULL)"
  by (simp_all add: parse_tree_optimize_def traverse_where_clause.simps [of _ "binary_STATEMENT _ _ _"] sample_joins_def
    move_where_clause_to_on_clause_def Let_def IS_OUTER_JOIN_def)

theorem pushdown_preserves_rows_witness:
  "query_rows sample_eval table_id sample_rows Map.empty (sample_joins (equal_tables 1 2) INNER_JOIN) (equal_tables 2 3)
     = query_rows sample_eval table_id sample_rows Map.empty (sample_joins NULL INNER_JOIN) sample_where
   \<and> List.length (query_rows sample_eval table_id sample_rows Map.empty (sample_joins NULL INNER_JOIN) sample_where) = 2"
proof -
  have "sample_joins NULL INNER_JOIN \<noteq> []"
    by (simp add: sample_joins_def)
  from pushdown_preserves_rows [OF _ this sample_connective sample_numbered, of sample_where sample_cycle NULL NULL NULL NULL NULL
      sample_rows Map.empty]
  have "query_rows sample_eval table_id sample_rows Map.empty (sample_joins (equal_tables 1 2) INNER_JOIN) (equal_tables 2 3)
     = query_rows sample_eval table_id sample_rows Map.empty (sample_joins NULL INNER_JOIN) sample_where"
    by (simp add: sample_local sample_optimized)
  then show ?thesis
    by (simp add: query_rows_def sample_joins_def joined_def unmatched_def matches_def holds_def sample_rows_def)
qed

theorem conditions_go_to_the_first_join_witness:
  "parse_tree_optimize sample_cycle (select_STATEMENT NULL (join_STATEMENT (sample_joins NULL LEFT_JOIN)) sample_where NULL NULL NULL NULL) \<noteq> None
    \<and> conjuncts (join_condition (sample_joins (equal_tables 1 2) LEFT_JOIN ! 1)) = [equal_tables 1 2]"
  using conditions_go_to_the_first_join [of sample_where "sample_joins NULL LEFT_JOIN" sample_cycle NULL NULL NULL NULL NULL]
  by (simp add: sample_optimized) (simp add: sample_joins_def)

theorem only_plain_joins_inherit_witness:
  "join_type (sample_joins NULL INNER_JOIN ! 2) \<noteq> CROSS_JOIN"
  using only_plain_joins_inherit [OF sample_optimized(1), of 1]
  by (simp add: sample_joins_def)

theorem moved_conditions_hold_witness:
  "sample_eval (equal_tables 1 2) [1 \<mapsto> 2, 2 \<mapsto> 2, 3 \<mapsto> 2] = Some True"
  by (rule moved_conditions_hold [OF _ sample_connective sample_numbered _ _ _ _ sample_optimized(2), where c = "equal_tables 1 2"
      and rows = sample_rows and outer = Map.empty])
    (simp_all add: sample_local sample_joins_def joined_def unmatched_def matches_def holds_def sample_rows_def IS_OUTER_JOIN_def)

end
