(* ===== verification/BinaryForm.thy ===== *)
theory BinaryForm
  imports StatementMatch "HOL-Library.Monad_Syntax"
begin

text \<open>
  \<open>compress_statement.c\<close>: a parse tree is copied into one buffer, with the pointers in it relative to their own addresses. A first
  pass counts the bytes and marks the structures that several statements share; a second one fills the buffer.

  A shared structure is an address into a store. The buffer is a map from addresses to what starts there: a statement, a structure,
  or a text. The layout of the structures is a parameter. The walk is recursive in the tree and, through shared structures, up to a
  depth \<open>n\<close>; as every one is entered once, their number is enough.
\<close>

section \<open>Statements and their structures\<close>

datatype SqlStatementType =
    create_table_STATEMENT | create_function_STATEMENT | select_STATEMENT | insert_STATEMENT | drop_table_STATEMENT
    | drop_function_STATEMENT | value_STATEMENT | function_call_STATEMENT | coalesce_STATEMENT | greatest_STATEMENT
    | least_STATEMENT | null_if_STATEMENT | aggregate_function_STATEMENT | binary_STATEMENT | unary_STATEMENT
    | column_list_STATEMENT | column_STATEMENT | join_STATEMENT | parameter_type_list_STATEMENT
    | constraint_STATEMENT | keyword_STATEMENT | column_list_alias_STATEMENT | column_alias_STATEMENT
    | table_alias_STATEMENT | set_operation_STATEMENT | begin_STATEMENT | commit_STATEMENT | cas_STATEMENT
    | cas_branch_STATEMENT | set_STATEMENT | show_STATEMENT | no_data_STATEMENT | delim_char_list_STATEMENT
    | index_STATEMENT | data_type_struct_STATEMENT | join_type_STATEMENT | discard_all_STATEMENT
    | row_value_STATEMENT | table_value_STATEMENT | array_STATEMENT | history_STATEMENT | delete_from_STATEMENT
    | update_STATEMENT | display_relation_STATEMENT | truncate_table_STATEMENT | create_view_STATEMENT
    | drop_view_STATEMENT | dynamic_sql_STATEMENT | discard_xrefs_STATEMENT | rollback_STATEMENT | invalid_STATEMENT

text \<open>
  The members of a structure that are not pointers: those of \<open>SqlValue\<close>, the keyword that is the type of a constraint or of a column option, or any other. A statement
  has its type, its other members (\<open>loc\<close> and so on) and what its \<open>v\<close> points to: one structure, or the elements of a circular
  list from the one it points to, none for a null pointer. A \<open>data_type_struct_STATEMENT\<close> has the type itself in the place of \<open>v\<close>. A structure is given with the statements that its
  members point to and its text, or, if other statements may point to it too (it has a member \<open>bin_defn_offset\<close>), as its address.
\<close>

datatype 'd contents = Value SqlValue | Keyword OptionalKeyword 'd | Other 'd

datatype 'd stmt =
    Null
  | Data_type 'd SqlDataTypeStruct
  | Statement SqlStatementType 'd "'d elem list"
and 'd elem = Struct "'d contents" "'d stmt list" "string option" | Shared nat

text \<open>The shared structures, by their addresses.\<close>

type_synonym 'd store = "nat \<Rightarrow> 'd contents \<times> 'd stmt list"

text \<open>The members that \<open>CALL_COMPRESS_HELPER\<close> is applied to, in order; \<open>None\<close> is \<open>FATAL\<close>.\<close>

definition is_literal :: "SqlValueType \<Rightarrow> bool" where
  "is_literal type \<longleftrightarrow> type \<in> {BOOLEAN_VALUE, NUMERIC_LITERAL, INTEGER_LITERAL, BOOLEAN_OR_STRING_LITERAL, STRING_LITERAL, DELIM_VALUE,
     NUL_VALUE, FUNCTION_NAME, FUNCTION_HASH, COLUMN_REFERENCE, TABLE_ASTERISK, DATE_LITERAL, TIME_LITERAL, TIME_WITH_TIME_ZONE_LITERAL,
     TIMESTAMP_LITERAL, TIMESTAMP_WITH_TIME_ZONE_LITERAL}"

definition compressed_members :: "SqlStatementType \<Rightarrow> 'd contents \<Rightarrow> string list option" where
  "compressed_members type c =
     (case type of
        create_table_STATEMENT \<Rightarrow> Some [''tableName'', ''source'', ''columns'', ''delim'', ''aim_type'']
      | create_view_STATEMENT \<Rightarrow> Some [''viewName'', ''src_table_alias_stmt'']
      | table_alias_STATEMENT \<Rightarrow> Some [''table'', ''alias'', ''parent_table_alias'', ''column_list'', ''correlation_specification'',
          ''table_asterisk_column_alias'']
      | select_STATEMENT \<Rightarrow> Some [''table_list'', ''where_expression'', ''select_list'', ''group_by_expression'', ''having_expression'',
          ''order_by_expression'', ''optional_words'']
      | join_STATEMENT \<Rightarrow> Some [''value'', ''condition'']
      | column_list_alias_STATEMENT \<Rightarrow> Some [''column_list'', ''alias'', ''keywords'', ''outer_query_column_alias'']
      | column_alias_STATEMENT \<Rightarrow> Some [''column'', ''table_alias_stmt'', ''set_oper_stmt'']
      | aggregate_function_STATEMENT \<Rightarrow> Some [''parameter'', ''table_alias_stmt'']
      | set_operation_STATEMENT \<Rightarrow> Some [''operand[0]'', ''operand[1]'', ''col_type_list_stmt'']
      | row_value_STATEMENT \<Rightarrow> Some [''value_list'']
      | table_value_STATEMENT \<Rightarrow> Some [''row_value_stmt'', ''column_stmt'']
      | create_function_STATEMENT \<Rightarrow> Some [''function_name'', ''parameter_type_list'', ''return_type'', ''extrinsic_function'', ''function_hash'']
      | parameter_type_list_STATEMENT \<Rightarrow> Some [''data_type_struct'']
      | value_STATEMENT \<Rightarrow>
          (case c of
             Value value \<Rightarrow>
               (if value_type value = CALCULATED_VALUE \<or> value_type value = COERCE_TYPE then Some [''v'']
                else if is_literal (value_type value) then Some []
                else None)
           | _ \<Rightarrow> None)
      | column_STATEMENT \<Rightarrow> Some [''table'', ''columnName'', ''keywords'']
      | keyword_STATEMENT \<Rightarrow> Some [''v'']
      | constraint_STATEMENT \<Rightarrow>
          (case c of
             Keyword type _ \<Rightarrow> Some ([''name'', ''definition''] @ (if type = OPTIONAL_CHECK_CONSTRAINT then [''v'']
               else if type = UNIQUE_CONSTRAINT then [''v''] else []))
           | _ \<Rightarrow> None)
      | unary_STATEMENT \<Rightarrow> Some [''operand'']
      | binary_STATEMENT \<Rightarrow> Some [''operands[0]'', ''operands[1]'']
      | function_call_STATEMENT \<Rightarrow> Some [''function_name'', ''function_schema'', ''parameters'']
      | coalesce_STATEMENT \<Rightarrow> Some [''arguments'']
      | greatest_STATEMENT \<Rightarrow> Some [''arguments'']
      | least_STATEMENT \<Rightarrow> Some [''arguments'']
      | null_if_STATEMENT \<Rightarrow> Some [''left'', ''right'']
      | column_list_STATEMENT \<Rightarrow> Some [''value'']
      | cas_STATEMENT \<Rightarrow> Some [''value'', ''branches'', ''optional_else'']
      | cas_branch_STATEMENT \<Rightarrow> Some [''condition'', ''value'']
      | array_STATEMENT \<Rightarrow> Some [''argument'']
      | _ \<Rightarrow> None)"

definition is_shared :: "SqlStatementType \<Rightarrow> bool" where
  "is_shared type \<longleftrightarrow> type \<in> {create_table_STATEMENT, table_alias_STATEMENT, column_list_alias_STATEMENT, column_alias_STATEMENT, column_STATEMENT}"

definition is_circular :: "SqlStatementType \<Rightarrow> bool" where
  "is_circular type \<longleftrightarrow> type \<in> {join_STATEMENT, column_list_alias_STATEMENT, row_value_STATEMENT, parameter_type_list_STATEMENT, column_STATEMENT,
     keyword_STATEMENT, column_list_STATEMENT, cas_branch_STATEMENT}"

section \<open>The buffer\<close>

text \<open>
  A pointer in the buffer: a copy of the one in the parse tree, null, relative to its own address (\<open>A2R\<close>), or absolute again.
\<close>

datatype ptr = Raw | NULLP | Rel int | Abs nat

datatype 'd cell =
    Stmt_cell SqlStatementType 'd ptr
  | Type_cell 'd SqlDataTypeStruct
  | Struct_cell SqlStatementType "'d contents" bool "string \<Rightarrow> ptr" ptr
  | Text_cell string

text \<open>
  The layout of the structures, which the compiler of C chooses: the size of \<open>SqlStatement\<close> and the place of \<open>v\<close> in it, and for each type
  of statement the size of its structure, the place of each member, and that of \<open>next\<close>. \<open>unique_id_of_set_operation\<close> is the \<open>int\<close> that is read where a table alias
  has its \<open>unique_id\<close> when there is a \<open>SqlSetOperation\<close> instead, whose members there are pointers: on 64 bits it is a half of the second one.
\<close>

record layout =
  sizeof_SqlStatement :: nat
  v_at :: nat
  sizeof :: "SqlStatementType \<Rightarrow> nat"
  member_at :: "SqlStatementType \<Rightarrow> string \<Rightarrow> nat"
  next_at :: "SqlStatementType \<Rightarrow> nat"
  unique_id_of_set_operation :: "ptr \<Rightarrow> ptr \<Rightarrow> ptr \<Rightarrow> int"

text \<open>\<open>bin_defn_offset\<close> of a shared structure: \<open>NULL\<close> or what an earlier call left there, \<open>(void * )-1\<close>, or an address in the buffer.\<close>

datatype offset = Initial | MAX_BIN_DEFN_OFFSET | Offset nat

record 'd compress_state =
  out :: "(nat \<Rightarrow> 'd cell option) option"
  out_length :: nat
  bin_defn_offset :: "nat \<Rightarrow> offset"

definition put_cell :: "nat \<Rightarrow> 'd cell \<Rightarrow> 'd compress_state \<Rightarrow> 'd compress_state" where
  "put_cell i c st = st\<lparr>out := map_option (\<lambda>b. b(i \<mapsto> c)) (out st)\<rparr>"

definition change_cell :: "nat \<Rightarrow> ('d cell \<Rightarrow> 'd cell) \<Rightarrow> 'd compress_state \<Rightarrow> 'd compress_state" where
  "change_cell i f st = st\<lparr>out := map_option (\<lambda>b. b(i := map_option f (b i))) (out st)\<rparr>"

definition advance :: "nat \<Rightarrow> 'd compress_state \<Rightarrow> 'd compress_state" where
  "advance n st = st\<lparr>out_length := out_length st + n\<rparr>"

definition A2R :: "nat \<Rightarrow> nat \<Rightarrow> ptr" where
  "A2R field target = Rel (int target - int field)"

fun set_v :: "ptr \<Rightarrow> 'd cell \<Rightarrow> 'd cell" where
  "set_v p (Stmt_cell type d _) = Stmt_cell type d p"
| "set_v p c = c"

fun set_member :: "string \<Rightarrow> ptr \<Rightarrow> 'd cell \<Rightarrow> 'd cell" where
  "set_member m p (Struct_cell type c shared ps next) = Struct_cell type c shared (ps(m := p)) next"
| "set_member m p c = c"

fun set_next :: "ptr \<Rightarrow> 'd cell \<Rightarrow> 'd cell" where
  "set_next p (Struct_cell type c shared ps _) = Struct_cell type c shared ps p"
| "set_next p c = c"

section \<open>Compression\<close>

text \<open>The indexes of parameters are cleared in views.\<close>

definition clear_indexes :: "bool \<Rightarrow> 'd contents \<Rightarrow> 'd contents" where
  "clear_indexes is_view_processing c =
     (case c of
        Value value \<Rightarrow>
          (if \<not> is_view_processing then c
           else if value_type value = COERCE_TYPE then
             Value (value\<lparr>coerced_type := (coerced_type value)\<lparr>scale_parameter_index := 0, size_or_precision_parameter_index := 0\<rparr>\<rparr>)
           else if is_literal (value_type value) then Value (value\<lparr>parameter_index := 0\<rparr>)
           else c)
      | _ \<Rightarrow> c)"

text \<open>\<open>NULL == stmt->v.value\<close>: the union \<open>v\<close> begins with the first two members of a \<open>SqlDataTypeStruct\<close>.\<close>

definition null_data_type :: "SqlDataTypeStruct \<Rightarrow> bool" where
  "null_data_type t \<longleftrightarrow> data_type t = UNKNOWN_SqlDataType \<and> size_or_precision t = 0"

text \<open>The text of a literal is stored after its value.\<close>

definition compress_text :: "layout \<Rightarrow> nat \<Rightarrow> 'd contents \<Rightarrow> string option \<Rightarrow> 'd compress_state \<Rightarrow> 'd compress_state option" where
  "compress_text L new_value c string_literal st =
     (case c of
        Value value \<Rightarrow>
          (if \<not> is_literal (value_type value) then Some st
           else case string_literal of
               None \<Rightarrow> None
             | Some s \<Rightarrow>
                 Some (advance (length s + 1)
                   (change_cell new_value (set_member ''v'' (A2R (new_value + member_at L value_STATEMENT ''v'') (out_length st)))
                     (put_cell (out_length st) (Text_cell s) st))))
      | _ \<Rightarrow> Some st)"

text \<open>The pointer to the next element of a list: to the end of the buffer, where it will be, or to where it is.\<close>

definition next_pointer :: "layout \<Rightarrow> SqlStatementType \<Rightarrow> nat \<Rightarrow> 'd elem \<Rightarrow> 'd compress_state \<Rightarrow> ptr" where
  "next_pointer L type new cur st =
     A2R (new + next_at L type)
       (case cur of
          Struct _ _ _ \<Rightarrow> out_length st
        | Shared a \<Rightarrow> (case bin_defn_offset st a of Offset i \<Rightarrow> i | _ \<Rightarrow> out_length st))"

text \<open>
  A shared structure. In the first pass it is counted once; in the second its first visit stores it, a later one refers to it.
  \<open>visit\<close> compresses its members. The result is the place of the structure.
\<close>

definition compress_shared ::
    "(SqlStatementType \<Rightarrow> nat \<Rightarrow> nat \<Rightarrow> 'd compress_state \<Rightarrow> 'd compress_state option) \<Rightarrow> layout \<Rightarrow> 'd store \<Rightarrow> SqlStatementType \<Rightarrow> nat
       \<Rightarrow> bool \<Rightarrow> nat \<Rightarrow> 'd compress_state \<Rightarrow> (nat \<times> 'd compress_state) option" where
  "compress_shared visit L store type new_stmt first a st =
     (if \<not> is_shared type then None
      else case (out st, bin_defn_offset st a) of
        (None, MAX_BIN_DEFN_OFFSET) \<Rightarrow> Some (0, st)
      | (None, _) \<Rightarrow>
          map_option (Pair 0)
            (visit type a 0 (advance (sizeof L type) (st\<lparr>bin_defn_offset := (bin_defn_offset st)(a := MAX_BIN_DEFN_OFFSET)\<rparr>)))
      | (Some _, MAX_BIN_DEFN_OFFSET) \<Rightarrow>
          (let i = out_length st in
           map_option (Pair i)
             (visit type a i (advance (sizeof L type) (put_cell i (Struct_cell type (fst (store a)) True (\<lambda>_. Raw) NULLP)
               (st\<lparr>bin_defn_offset := (bin_defn_offset st)(a := Offset i)\<rparr>)))))
      | (Some _, Offset i) \<Rightarrow>
          Some (i, if first then change_cell new_stmt (set_v (A2R (new_stmt + v_at L) i)) st else st)
      | (Some _, Initial) \<Rightarrow> None)"

primrec compress_statement_helper ::
    "'d stmt \<Rightarrow> (SqlStatementType \<Rightarrow> nat \<Rightarrow> nat \<Rightarrow> 'd compress_state \<Rightarrow> 'd compress_state option) \<Rightarrow> layout \<Rightarrow> 'd store \<Rightarrow> bool
       \<Rightarrow> 'd compress_state \<Rightarrow> (nat option \<times> 'd compress_state) option"
and compress_elems ::
    "'d elem list \<Rightarrow> (SqlStatementType \<Rightarrow> nat \<Rightarrow> nat \<Rightarrow> 'd compress_state \<Rightarrow> 'd compress_state option) \<Rightarrow> layout \<Rightarrow> 'd store \<Rightarrow> bool
       \<Rightarrow> SqlStatementType \<Rightarrow> nat \<Rightarrow> bool \<Rightarrow> 'd compress_state \<Rightarrow> 'd compress_state option"
and compress_elem ::
    "'d elem \<Rightarrow> (SqlStatementType \<Rightarrow> nat \<Rightarrow> nat \<Rightarrow> 'd compress_state \<Rightarrow> 'd compress_state option) \<Rightarrow> layout \<Rightarrow> 'd store \<Rightarrow> bool
       \<Rightarrow> SqlStatementType \<Rightarrow> nat \<Rightarrow> bool \<Rightarrow> 'd compress_state \<Rightarrow> (nat \<times> 'd compress_state) option"
and compress_members ::
    "'d stmt list \<Rightarrow> (SqlStatementType \<Rightarrow> nat \<Rightarrow> nat \<Rightarrow> 'd compress_state \<Rightarrow> 'd compress_state option) \<Rightarrow> layout \<Rightarrow> 'd store \<Rightarrow> bool
       \<Rightarrow> SqlStatementType \<Rightarrow> nat \<Rightarrow> string list \<Rightarrow> 'd compress_state \<Rightarrow> 'd compress_state option" where
  "compress_statement_helper Null visit L store view st = Some (None, st)"
| "compress_statement_helper (Data_type d t) visit L store view st =
     (if null_data_type t then Some (None, st)
      else Some (map_option (\<lambda>_. out_length st) (out st),
        advance (sizeof_SqlStatement L) (put_cell (out_length st) (Type_cell d t) st)))"
| "compress_statement_helper (Statement type d elems) visit L store view st =
     (if elems = [] then Some (None, st)
      else let i = out_length st; j = i + sizeof_SqlStatement L in
        map_option (\<lambda>st'. (map_option (\<lambda>_. i) (out st), st'))
          (compress_elems elems visit L store view type i True
            (advance (sizeof_SqlStatement L) (put_cell i (Stmt_cell type d (A2R (i + v_at L) j)) st))))"
| "compress_elems [] visit L store view type new_stmt first st = Some st"
| "compress_elems (e # es) visit L store view type new_stmt first st = do {
     (new, st) \<leftarrow> compress_elem e visit L store view type new_stmt first st;
     if es = [] then Some st
     else if \<not> is_circular type then None
     else compress_elems es visit L store view type new_stmt False (change_cell new (set_next (next_pointer L type new (hd es) st)) st)
   }"
| "compress_elem (Struct c members string_literal) visit L store view type new_stmt first st = do {
     names \<leftarrow> compressed_members type c;
     let i = out_length st;
     let st = advance (sizeof L type) (put_cell i (Struct_cell type (clear_indexes view c) False (\<lambda>_. Raw) NULLP) st);
     st \<leftarrow> (if is_shared type \<or> length names \<noteq> length members then None
            else compress_members members visit L store view type i names st);
     st \<leftarrow> compress_text L i c string_literal st;
     Some (i, st)
   }"
| "compress_elem (Shared a) visit L store view type new_stmt first st = compress_shared visit L store type new_stmt first a st"
| "compress_members [] visit L store view type new names st = Some st"
| "compress_members (member # members) visit L store view type new names st = do {
     (r, st) \<leftarrow> compress_statement_helper member visit L store view st;
     compress_members members visit L store view type new (tl names)
       (change_cell new (set_member (hd names)
         (case r of None \<Rightarrow> NULLP | Some i \<Rightarrow> A2R (new + member_at L type (hd names)) i)) st)
   }"

text \<open>The members of a shared structure, where shared structures are nested at most to the given depth.\<close>

primrec compress_structure ::
    "nat \<Rightarrow> layout \<Rightarrow> 'd store \<Rightarrow> bool \<Rightarrow> SqlStatementType \<Rightarrow> nat \<Rightarrow> nat \<Rightarrow> 'd compress_state \<Rightarrow> 'd compress_state option" where
  "compress_structure 0 L store view type a i st = None"
| "compress_structure (Suc n) L store view type a i st = do {
     names \<leftarrow> compressed_members type (fst (store a));
     if length names \<noteq> length (snd (store a)) then None
     else compress_members (snd (store a)) (compress_structure n L store view) L store view type i names st
   }"

text \<open>The buffer that is allocated has the length that the first pass counts. The result has the buffer, that length, and what is used of it.\<close>

definition compress_statement ::
    "nat \<Rightarrow> layout \<Rightarrow> 'd store \<Rightarrow> 'd stmt \<Rightarrow> bool \<Rightarrow> (nat \<Rightarrow> offset) \<Rightarrow> ((nat \<Rightarrow> 'd cell option) \<times> nat \<times> 'd compress_state) option" where
  "compress_statement n L store stmt is_view_processing offsets = do {
     let helper = compress_statement_helper stmt (compress_structure n L store is_view_processing) L store is_view_processing;
     (_, st) \<leftarrow> helper \<lparr>out = None, out_length = 0, bin_defn_offset = offsets\<rparr>;
     if out_length st = 0 then None
     else do {
       (_, st') \<leftarrow> helper (st\<lparr>out := Some Map.empty, out_length := 0\<rparr>);
       buffer \<leftarrow> out st';
       Some (buffer, out_length st, st')
     }
   }"

section \<open>Both passes need the same space\<close>

lemma state_simps [simp]:
  "out (advance n st) = out st" "out_length (advance n st) = out_length st + n" "bin_defn_offset (advance n st) = bin_defn_offset st"
  "out_length (put_cell i c st) = out_length st" "bin_defn_offset (put_cell i c st) = bin_defn_offset st"
  "out_length (change_cell i f st) = out_length st" "bin_defn_offset (change_cell i f st) = bin_defn_offset st"
  "out (put_cell i c st) = map_option (\<lambda>b. b(i \<mapsto> c)) (out st)"
  "out (change_cell i f st) = map_option (\<lambda>b. b(i := map_option f (b i))) (out st)"
  by (simp_all add: advance_def put_cell_def change_cell_def)

text \<open>The structures that the first pass has counted, and a state of the second pass at the same point: \<open>F\<close> is what the first pass counts in all.\<close>

definition counted :: "'d compress_state \<Rightarrow> nat set" where
  "counted st = {a. bin_defn_offset st a = MAX_BIN_DEFN_OFFSET}"

definition in_step :: "nat set \<Rightarrow> 'd compress_state \<Rightarrow> 'd compress_state \<Rightarrow> bool" where
  "in_step F st1 st2 \<longleftrightarrow> out st1 = None \<and> out st2 \<noteq> None \<and> out_length st1 = out_length st2
     \<and> (\<forall>a. (a \<in> counted st1 \<longrightarrow> (\<exists>i. bin_defn_offset st2 a = Offset i))
       \<and> (a \<notin> counted st1 \<longrightarrow> a \<in> F \<longrightarrow> bin_defn_offset st2 a = MAX_BIN_DEFN_OFFSET))"

lemma counted_simps [simp]:
  "counted (advance n st) = counted st" "counted (put_cell i c st) = counted st" "counted (change_cell i f st) = counted st"
  "counted (st\<lparr>bin_defn_offset := (bin_defn_offset st)(a := MAX_BIN_DEFN_OFFSET)\<rparr>) = insert a (counted st)"
  by (auto simp: counted_def)

lemma in_step_simps [simp]:
  "in_step F (put_cell i c st1) st2 = in_step F st1 st2" "in_step F (change_cell i f st1) st2 = in_step F st1 st2"
  "in_step F st1 (put_cell i c st2) = in_step F st1 st2" "in_step F st1 (change_cell i f st2) = in_step F st1 st2"
  "in_step F (advance n st1) (advance n st2) = in_step F st1 st2"
  by (simp_all add: in_step_def)

lemma in_step_mark:
  assumes "in_step F st1 st2"
  shows "in_step F (st1\<lparr>bin_defn_offset := (bin_defn_offset st1)(a := MAX_BIN_DEFN_OFFSET)\<rparr>)
    (st2\<lparr>bin_defn_offset := (bin_defn_offset st2)(a := Offset i)\<rparr>)"
  using assms by (auto simp: in_step_def counted_def)

definition steps_together ::
    "nat set \<Rightarrow> (SqlStatementType \<Rightarrow> nat \<Rightarrow> nat \<Rightarrow> 'd compress_state \<Rightarrow> 'd compress_state option) \<Rightarrow> bool" where
  "steps_together F visit \<longleftrightarrow> (\<forall>type a i st st'. out st = None \<longrightarrow> visit type a i st = Some st' \<longrightarrow>
     out st' = None \<and> counted st \<subseteq> counted st'
     \<and> (\<forall>j st2. in_step F st st2 \<longrightarrow> counted st' \<subseteq> F \<longrightarrow> (\<exists>st2'. visit type a j st2 = Some st2' \<and> in_step F st' st2')))"

lemma steps_togetherD:
  assumes "steps_together F visit" and "visit type a i st = Some st'" and "out st = None"
  shows "out st' = None \<and> counted st \<subseteq> counted st'"
    and "in_step F st st2 \<Longrightarrow> counted st' \<subseteq> F \<Longrightarrow> \<exists>st2'. visit type a j st2 = Some st2' \<and> in_step F st' st2'"
  using assms unfolding steps_together_def by blast+

lemma compress_text_in_step:
  "compress_text L i c t st = Some st' \<Longrightarrow> (out st' = None \<longleftrightarrow> out st = None) \<and> counted st' = counted st"
  "compress_text L i c t st = Some st' \<Longrightarrow> in_step F st st2 \<Longrightarrow> \<exists>st2'. compress_text L j c t st2 = Some st2' \<and> in_step F st' st2'"
  by (auto simp: compress_text_def split: contents.splits if_splits option.splits)

lemma compress_shared_in_step:
  assumes V: "steps_together F visit" and "out st = None"
    and C: "compress_shared visit L store type new first a st = Some (i, st')"
  shows "out st' = None \<and> counted st \<subseteq> counted st'"
    and "in_step F st st2 \<Longrightarrow> counted st' \<subseteq> F \<Longrightarrow> \<exists>j st2'. compress_shared visit L store type new2 first2 a st2 = Some (j, st2') \<and> in_step F st' st2'"
proof -
  let ?st = "advance (sizeof L type) (st\<lparr>bin_defn_offset := (bin_defn_offset st)(a := MAX_BIN_DEFN_OFFSET)\<rparr>)"
  have type: "is_shared type"
    using C by (auto simp: compress_shared_def split: if_splits)
  show 1: "out st' = None \<and> counted st \<subseteq> counted st'"
  proof (cases "a \<in> counted st")
    case True
    with assms type show ?thesis
      by (simp add: compress_shared_def counted_def)
  next
    case False
    with assms type have "visit type a 0 ?st = Some st'"
      by (auto simp: compress_shared_def counted_def split: offset.splits)
    from steps_togetherD(1) [OF V this] assms(2) show ?thesis
      by simp
  qed
  assume st2: "in_step F st st2" and F: "counted st' \<subseteq> F"
  then obtain b where b: "out st2 = Some b"
    by (auto simp: in_step_def)
  show "\<exists>j st2'. compress_shared visit L store type new2 first2 a st2 = Some (j, st2') \<and> in_step F st' st2'"
  proof (cases "a \<in> counted st")
    case True
    then obtain p where p: "bin_defn_offset st2 a = Offset p"
      using st2 by (auto simp: in_step_def)
    moreover have "st' = st"
      using True C type assms(2) by (simp add: compress_shared_def counted_def)
    ultimately show ?thesis
      using st2 type b by (auto simp: compress_shared_def)
  next
    case False
    with C type assms(2) have v: "visit type a 0 ?st = Some st'"
      by (auto simp: compress_shared_def counted_def split: offset.splits)
    from steps_togetherD(1) [OF V this] assms(2) have "a \<in> counted st'"
      by simp
    with F False have m: "bin_defn_offset st2 a = MAX_BIN_DEFN_OFFSET"
      using st2 by (auto simp: in_step_def)
    let ?st2 = "advance (sizeof L type) (put_cell (out_length st2) (Struct_cell type (fst (store a)) True (\<lambda>_. Raw) NULLP)
      (st2\<lparr>bin_defn_offset := (bin_defn_offset st2)(a := Offset (out_length st2))\<rparr>))"
    have "in_step F ?st ?st2"
      using in_step_mark [OF st2] by simp
    with steps_togetherD(2) [OF V v _ _ F] assms(2) obtain st2' where "visit type a (out_length st2) ?st2 = Some st2'" "in_step F st' st2'"
      by fastforce
    then show ?thesis
      using m type b by (simp add: compress_shared_def Let_def)
  qed
qed

text \<open>The steps of the walk, taken apart.\<close>

lemma helper_Statement:
  "compress_statement_helper (Statement type d es) visit L store view st = Some (r, st') \<longleftrightarrow>
     (if es = [] then r = None \<and> st' = st
      else r = map_option (\<lambda>_. out_length st) (out st) \<and>
        compress_elems es visit L store view type (out_length st) True (advance (sizeof_SqlStatement L)
          (put_cell (out_length st) (Stmt_cell type d (A2R (out_length st + v_at L) (out_length st + sizeof_SqlStatement L))) st)) = Some st')"
  by (auto simp: Let_def)

lemma elems_Cons:
  "compress_elems (e # es) visit L store view type new first st = Some st' \<longleftrightarrow>
     (\<exists>i st1. compress_elem e visit L store view type new first st = Some (i, st1) \<and>
       (if es = [] then st' = st1
        else is_circular type \<and> compress_elems es visit L store view type new False
          (change_cell i (set_next (next_pointer L type i (hd es) st1)) st1) = Some st'))"
  by (auto split: bind_splits)

lemma elem_Struct:
  "compress_elem (Struct c ms t) visit L store view type new first st = Some (i, st') \<longleftrightarrow>
     i = out_length st \<and> \<not> is_shared type \<and> (\<exists>names st1. compressed_members type c = Some names \<and> length names = length ms \<and>
       compress_members ms visit L store view type (out_length st) names
         (advance (sizeof L type) (put_cell (out_length st) (Struct_cell type (clear_indexes view c) False (\<lambda>_. Raw) NULLP) st)) = Some st1 \<and>
       compress_text L (out_length st) c t st1 = Some st')"
  by (auto simp: Let_def split: bind_splits)

lemma members_Cons:
  "compress_members (m # ms) visit L store view type new names st = Some st' \<longleftrightarrow>
     (\<exists>r st1. compress_statement_helper m visit L store view st = Some (r, st1) \<and>
       compress_members ms visit L store view type new (tl names) (change_cell new (set_member (hd names)
         (case r of None \<Rightarrow> NULLP | Some i \<Rightarrow> A2R (new + member_at L type (hd names)) i)) st1) = Some st')"
  by (auto split: bind_splits)

lemmas walk_simps = helper_Statement elems_Cons elem_Struct members_Cons

declare compress_statement_helper.simps(3) [simp del] compress_elems.simps(2) [simp del] compress_elem.simps(1) [simp del]
  compress_members.simps(2) [simp del]

lemma count_mono:
  fixes F :: "nat set"
  assumes V: "steps_together F visit"
  shows "compress_statement_helper s visit L store view st = Some (r, st') \<Longrightarrow> out st = None \<Longrightarrow> r = None \<and> out st' = None \<and> counted st \<subseteq> counted st'"
    and "compress_elems es visit L store view type new first st = Some st' \<Longrightarrow> out st = None \<Longrightarrow> out st' = None \<and> counted st \<subseteq> counted st'"
    and "compress_elem e visit L store view type new first st = Some (i, st') \<Longrightarrow> out st = None \<Longrightarrow> out st' = None \<and> counted st \<subseteq> counted st'"
    and "compress_members ms visit L store view type new names st = Some st' \<Longrightarrow> out st = None \<Longrightarrow> out st' = None \<and> counted st \<subseteq> counted st'"
proof (induction s and es and e and ms arbitrary: r st st' and type new first st st' and type new first i st st' and type new names st st'
    rule: compress_statement_helper.induct compress_elems.induct compress_elem.induct compress_members.induct)
  case (Data_type d t)
  then show ?case
    by (auto split: if_splits)
next
  case (Statement type d es)
  show ?case
  proof (cases "es = []")
    case False
    with Statement.prems(1) have "r = None" and "compress_elems es visit L store view type (out_length st) True (advance (sizeof_SqlStatement L)
          (put_cell (out_length st) (Stmt_cell type d (A2R (out_length st + v_at L) (out_length st + sizeof_SqlStatement L))) st)) = Some st'"
      using Statement.prems(2) by (simp_all add: helper_Statement)
    from Statement.IH [OF this(2)] this(1) show ?thesis
      using Statement.prems(2) by simp
  qed (use Statement.prems in \<open>simp add: helper_Statement\<close>)
next
  case (Cons_elem e es)
  from Cons_elem.prems(1) obtain j st1 where 1: "compress_elem e visit L store view type new first st = Some (j, st1)"
      and 2: "if es = [] then st' = st1 else is_circular type \<and> compress_elems es visit L store view type new False
          (change_cell j (set_next (next_pointer L type j (hd es) st1)) st1) = Some st'"
    by (auto simp: elems_Cons)
  from Cons_elem.IH(1) [OF 1 Cons_elem.prems(2)] 2 Cons_elem.IH(2) show ?case
    by (fastforce split: if_splits)
next
  case (Struct c ms t)
  from Struct.prems(1) obtain names st1 where 1: "compress_members ms visit L store view type (out_length st) names
      (advance (sizeof L type) (put_cell (out_length st) (Struct_cell type (clear_indexes view c) False (\<lambda>_. Raw) NULLP) st)) = Some st1"
      and 2: "compress_text L (out_length st) c t st1 = Some st'"
    by (auto simp: elem_Struct)
  with Struct.IH [OF 1] Struct.prems(2) compress_text_in_step(1) [OF 2] show ?case
    by simp
next
  case (Shared a)
  from compress_shared_in_step(1) [OF V Shared.prems(2)] Shared.prems(1) show ?case
    by simp
next
  case (Cons_stmt m ms)
  from Cons_stmt.prems(1) obtain r st1 where 1: "compress_statement_helper m visit L store view st = Some (r, st1)"
      and 2: "compress_members ms visit L store view type new (tl names) (change_cell new (set_member (hd names)
         (case r of None \<Rightarrow> NULLP | Some i \<Rightarrow> A2R (new + member_at L type (hd names)) i)) st1) = Some st'"
    by (auto simp: members_Cons)
  from Cons_stmt.IH(1) [OF 1 Cons_stmt.prems(2)] Cons_stmt.IH(2) [OF 2] show ?case
    by auto
qed simp_all

lemma passes_in_step:
  assumes V: "steps_together F visit"
  shows "compress_statement_helper s visit L store view st = Some (r, st') \<Longrightarrow> in_step F st st2 \<Longrightarrow> counted st' \<subseteq> F \<Longrightarrow>
      \<exists>r2 st2'. compress_statement_helper s visit L store view st2 = Some (r2, st2') \<and> in_step F st' st2'"
    and "compress_elems es visit L store view type new first st = Some st' \<Longrightarrow> in_step F st st2 \<Longrightarrow> counted st' \<subseteq> F \<Longrightarrow>
      \<exists>st2'. compress_elems es visit L store view type new2 first st2 = Some st2' \<and> in_step F st' st2'"
    and "compress_elem e visit L store view type new first st = Some (i, st') \<Longrightarrow> in_step F st st2 \<Longrightarrow> counted st' \<subseteq> F \<Longrightarrow>
      \<exists>i2 st2'. compress_elem e visit L store view type new2 first st2 = Some (i2, st2') \<and> in_step F st' st2'"
    and "compress_members ms visit L store view type new names st = Some st' \<Longrightarrow> in_step F st st2 \<Longrightarrow> counted st' \<subseteq> F \<Longrightarrow>
      \<exists>st2'. compress_members ms visit L store view type new2 names st2 = Some st2' \<and> in_step F st' st2'"
proof (induction s and es and e and ms arbitrary: r st st' st2 and type new new2 first st st' st2 and type new new2 first i st st' st2
    and type new new2 names st st' st2
    rule: compress_statement_helper.induct compress_elems.induct compress_elem.induct compress_members.induct)
  case (Data_type d t)
  then show ?case
    by (auto split: if_splits)
next
  case (Statement type d es)
  show ?case
  proof (cases "es = []")
    case False
    with Statement.prems(1) have "compress_elems es visit L store view type (out_length st) True (advance (sizeof_SqlStatement L)
          (put_cell (out_length st) (Stmt_cell type d (A2R (out_length st + v_at L) (out_length st + sizeof_SqlStatement L))) st)) = Some st'"
      by (simp add: helper_Statement)
    from Statement.IH [OF this _ Statement.prems(3), of "advance (sizeof_SqlStatement L)
          (put_cell (out_length st2) (Stmt_cell type d (A2R (out_length st2 + v_at L) (out_length st2 + sizeof_SqlStatement L))) st2)" "out_length st2"]
    show ?thesis
      using Statement.prems(2) False by (auto simp: helper_Statement)
  qed (use Statement.prems in \<open>auto simp: helper_Statement\<close>)
next
  case (Cons_elem e es)
  from Cons_elem.prems(1) obtain j st1 where 1: "compress_elem e visit L store view type new first st = Some (j, st1)"
      and 2: "if es = [] then st' = st1 else is_circular type \<and> compress_elems es visit L store view type new False
          (change_cell j (set_next (next_pointer L type j (hd es) st1)) st1) = Some st'"
    by (auto simp: elems_Cons)
  have st: "out st = None"
    using Cons_elem.prems(2) by (simp add: in_step_def)
  have "counted st1 \<subseteq> counted st'"
  proof (cases "es = []")
    case False
    with 2 have "compress_elems es visit L store view type new False
          (change_cell j (set_next (next_pointer L type j (hd es) st1)) st1) = Some st'"
      by simp
    from count_mono(2) [OF V this] count_mono(3) [OF V 1 st] show ?thesis
      by simp
  qed (use 2 in simp)
  with Cons_elem.prems(3) have "counted st1 \<subseteq> F"
    by blast
  from Cons_elem.IH(1) [OF 1 Cons_elem.prems(2) this, of new2] obtain i2 st1' where
    3: "compress_elem e visit L store view type new2 first st2 = Some (i2, st1')" "in_step F st1 st1'"
    by (elim exE conjE)
  show ?case
  proof (cases "es = []")
    case False
    with 2 have "compress_elems es visit L store view type new False
          (change_cell j (set_next (next_pointer L type j (hd es) st1)) st1) = Some st'"
      by simp
    from Cons_elem.IH(2) [OF this _ Cons_elem.prems(3), of "change_cell i2 (set_next (next_pointer L type i2 (hd es) st1')) st1'" new2]
    show ?thesis
      using 2 3 False by (auto simp: elems_Cons)
  qed (use 2 3 in \<open>auto simp: elems_Cons\<close>)
next
  case (Struct c ms t)
  from Struct.prems(1) obtain names st1 where names: "\<not> is_shared type" "compressed_members type c = Some names" "length names = length ms"
      and 1: "compress_members ms visit L store view type (out_length st) names
      (advance (sizeof L type) (put_cell (out_length st) (Struct_cell type (clear_indexes view c) False (\<lambda>_. Raw) NULLP) st)) = Some st1"
      and 2: "compress_text L (out_length st) c t st1 = Some st'"
    by (auto simp: elem_Struct)
  have "counted st1 \<subseteq> F"
    using compress_text_in_step(1) [OF 2] Struct.prems(3) by simp
  from Struct.IH [OF 1 _ this, of "advance (sizeof L type) (put_cell (out_length st2) (Struct_cell type (clear_indexes view c) False (\<lambda>_. Raw) NULLP) st2)"
      "out_length st2"] Struct.prems(2)
  obtain st1' where "compress_members ms visit L store view type (out_length st2) names
      (advance (sizeof L type) (put_cell (out_length st2) (Struct_cell type (clear_indexes view c) False (\<lambda>_. Raw) NULLP) st2)) = Some st1'"
    "in_step F st1 st1'"
    by auto
  with compress_text_in_step(2) [OF 2 this(2), of "out_length st2"] names show ?case
    by (auto simp: elem_Struct)
next
  case (Shared a)
  have "out st = None"
    using Shared.prems(2) by (simp add: in_step_def)
  from compress_shared_in_step(2) [OF V this _ Shared.prems(2,3)] Shared.prems(1) show ?case
    by auto
next
  case (Cons_stmt m ms)
  from Cons_stmt.prems(1) obtain r st1 where 1: "compress_statement_helper m visit L store view st = Some (r, st1)"
      and 2: "compress_members ms visit L store view type new (tl names) (change_cell new (set_member (hd names)
         (case r of None \<Rightarrow> NULLP | Some i \<Rightarrow> A2R (new + member_at L type (hd names)) i)) st1) = Some st'"
    by (auto simp: members_Cons)
  have st: "out st = None"
    using Cons_stmt.prems(2) by (simp add: in_step_def)
  have "counted st1 \<subseteq> F"
    using count_mono(4) [OF V 2] count_mono(1) [OF V 1 st] Cons_stmt.prems(3) by auto
  from Cons_stmt.IH(1) [OF 1 Cons_stmt.prems(2) this] obtain r2 st1' where
    3: "compress_statement_helper m visit L store view st2 = Some (r2, st1')" "in_step F st1 st1'"
    by (elim exE conjE)
  from Cons_stmt.IH(2) [OF 2 _ Cons_stmt.prems(3), of "change_cell new2 (set_member (hd names)
         (case r2 of None \<Rightarrow> NULLP | Some i \<Rightarrow> A2R (new2 + member_at L type (hd names)) i)) st1'" new2] 3
  show ?case
    by (auto simp: members_Cons)
qed auto

lemma structures_step_together: "steps_together F (compress_structure n L store view)"
proof (induction n)
  case (Suc n)
  show ?case
    unfolding steps_together_def
  proof (intro allI impI)
    fix type a i st st'
    assume st: "out st = None" and "compress_structure (Suc n) L store view type a i st = Some st'"
    then obtain names where names: "compressed_members type (fst (store a)) = Some names" "length names = length (snd (store a))"
        and 1: "compress_members (snd (store a)) (compress_structure n L store view) L store view type i names st = Some st'"
      by (auto split: bind_splits if_splits)
    from count_mono(4) [OF Suc 1 st] passes_in_step(4) [OF Suc 1] names show
      "out st' = None \<and> counted st \<subseteq> counted st' \<and> (\<forall>j st2. in_step F st st2 \<longrightarrow> counted st' \<subseteq> F \<longrightarrow>
        (\<exists>st2'. compress_structure (Suc n) L store view type a j st2 = Some st2' \<and> in_step F st' st2'))"
      by simp
  qed
qed (simp add: steps_together_def)

section \<open>The first pass ends\<close>

text \<open>
  Statements whose structures have the members of their type, literals their text, lists only where lists are allowed, and
  shared structures the type of the statement that points to them. \<open>A\<close> are their addresses, \<open>kind\<close> is their type and \<open>succ\<close> the next
  element of the list that they are in.
\<close>

definition members_fit :: "SqlStatementType \<Rightarrow> 'd contents \<Rightarrow> 'd stmt list \<Rightarrow> bool" where
  "members_fit type c ms \<longleftrightarrow> (case c of Value _ \<Rightarrow> type = value_STATEMENT | _ \<Rightarrow> True) \<and> map_option length (compressed_members type c) = Some (length ms)"

definition text_fits :: "'d contents \<Rightarrow> string option \<Rightarrow> bool" where
  "text_fits c t \<longleftrightarrow> (case c of Value value \<Rightarrow> is_literal (value_type value) \<longrightarrow> t \<noteq> None | _ \<Rightarrow> True)"

fun linked :: "(nat \<Rightarrow> nat) \<Rightarrow> 'd elem list \<Rightarrow> bool" where
  "linked succ (e # e' # es) \<longleftrightarrow> (case e of Shared a \<Rightarrow> e' = Shared (succ a) | Struct _ _ _ \<Rightarrow> True) \<and> linked succ (e' # es)"
| "linked succ _ = True"

primrec fits :: "'d stmt \<Rightarrow> nat set \<Rightarrow> (nat \<Rightarrow> SqlStatementType) \<Rightarrow> (nat \<Rightarrow> nat) \<Rightarrow> bool"
and fit_elems :: "'d elem list \<Rightarrow> nat set \<Rightarrow> (nat \<Rightarrow> SqlStatementType) \<Rightarrow> (nat \<Rightarrow> nat) \<Rightarrow> SqlStatementType \<Rightarrow> bool"
and fit_elem :: "'d elem \<Rightarrow> nat set \<Rightarrow> (nat \<Rightarrow> SqlStatementType) \<Rightarrow> (nat \<Rightarrow> nat) \<Rightarrow> SqlStatementType \<Rightarrow> bool"
and all_fit :: "'d stmt list \<Rightarrow> nat set \<Rightarrow> (nat \<Rightarrow> SqlStatementType) \<Rightarrow> (nat \<Rightarrow> nat) \<Rightarrow> bool" where
  "fits Null A kind succ = True"
| "fits (Data_type d t) A kind succ = True"
| "fits (Statement type d es) A kind succ \<longleftrightarrow> fit_elems es A kind succ type \<and> (is_circular type \<or> length es \<le> 1) \<and> linked succ es"
| "fit_elems [] A kind succ type = True"
| "fit_elems (e # es) A kind succ type \<longleftrightarrow> fit_elem e A kind succ type \<and> fit_elems es A kind succ type"
| "fit_elem (Struct c ms t) A kind succ type \<longleftrightarrow> \<not> is_shared type \<and> members_fit type c ms \<and> text_fits c t \<and> all_fit ms A kind succ"
| "fit_elem (Shared a) A kind succ type \<longleftrightarrow> is_shared type \<and> a \<in> A \<and> kind a = type"
| "all_fit [] A kind succ = True"
| "all_fit (m # ms) A kind succ \<longleftrightarrow> fits m A kind succ \<and> all_fit ms A kind succ"

definition store_fits :: "'d store \<Rightarrow> nat set \<Rightarrow> (nat \<Rightarrow> SqlStatementType) \<Rightarrow> (nat \<Rightarrow> nat) \<Rightarrow> bool" where
  "store_fits store A kind succ \<longleftrightarrow> (\<forall>a\<in>A. members_fit (kind a) (fst (store a)) (snd (store a)) \<and> all_fit (snd (store a)) A kind succ)"

definition enough :: "nat set \<Rightarrow> (nat \<Rightarrow> SqlStatementType) \<Rightarrow> nat
    \<Rightarrow> (SqlStatementType \<Rightarrow> nat \<Rightarrow> nat \<Rightarrow> 'd compress_state \<Rightarrow> 'd compress_state option) \<Rightarrow> bool" where
  "enough A kind n visit \<longleftrightarrow> (\<forall>a i st. a \<in> A \<longrightarrow> out st = None \<longrightarrow> card (A - counted st) < n \<longrightarrow> visit (kind a) a i st \<noteq> None)"

lemma compress_text_fits: "text_fits c t \<Longrightarrow> \<exists>st'. compress_text L i c t st = Some st'"
  by (auto simp: compress_text_def text_fits_def split: contents.split option.split)

lemma card_counted: "finite A \<Longrightarrow> counted st \<subseteq> counted st' \<Longrightarrow> card (A - counted st) \<le> n \<Longrightarrow> card (A - counted st') \<le> n"
  using card_mono [of "A - counted st" "A - counted st'"] by (meson Diff_mono dual_order.trans finite_Diff subset_refl)

lemma compress_shared_ends:
  assumes "enough A kind n visit" and "finite A" and "is_shared (kind a)" and "a \<in> A" and "out st = None" and "card (A - counted st) \<le> n"
  shows "compress_shared visit L store (kind a) new first a st \<noteq> None"
proof (cases "a \<in> counted st")
  case True
  with assms(3,5) show ?thesis
    by (simp add: compress_shared_def counted_def)
next
  case False
  let ?st = "advance (sizeof L (kind a)) (st\<lparr>bin_defn_offset := (bin_defn_offset st)(a := MAX_BIN_DEFN_OFFSET)\<rparr>)"
  have "A - counted ?st \<subset> A - counted st"
    using assms(4) False by auto
  with assms(2) have "card (A - counted ?st) < card (A - counted st)"
    by (intro psubset_card_mono) auto
  with assms(6) have "card (A - counted ?st) < n"
    by simp
  with assms False have "visit (kind a) a 0 ?st \<noteq> None"
    by (simp add: enough_def)
  with assms(3,5) False show ?thesis
    by (auto simp: compress_shared_def counted_def split: offset.split)
qed

lemma first_pass_ends:
  assumes V: "enough A kind n visit" "steps_together F visit" and A: "finite A"
  shows "fits s A kind succ \<Longrightarrow> out st = None \<Longrightarrow> card (A - counted st) \<le> n \<Longrightarrow> \<exists>r st'. compress_statement_helper s visit L store view st = Some (r, st')"
    and "fit_elems es A kind succ type \<Longrightarrow> is_circular type \<or> length es \<le> 1 \<Longrightarrow> out st = None \<Longrightarrow> card (A - counted st) \<le> n \<Longrightarrow>
      \<exists>st'. compress_elems es visit L store view type new first st = Some st'"
    and "fit_elem e A kind succ type \<Longrightarrow> out st = None \<Longrightarrow> card (A - counted st) \<le> n \<Longrightarrow>
      \<exists>i st'. compress_elem e visit L store view type new first st = Some (i, st')"
    and "all_fit ms A kind succ \<Longrightarrow> out st = None \<Longrightarrow> card (A - counted st) \<le> n \<Longrightarrow>
      \<exists>st'. compress_members ms visit L store view type new names st = Some st'"
proof (induction s and es and e and ms arbitrary: st and type new first st and type new first st and type new names st
    rule: compress_statement_helper.induct compress_elems.induct compress_elem.induct compress_members.induct)
  case (Statement type d es)
  show ?case
  proof (cases "es = []")
    case False
    from Statement.IH [of type "advance (sizeof_SqlStatement L)
          (put_cell (out_length st) (Stmt_cell type d (A2R (out_length st + v_at L) (out_length st + sizeof_SqlStatement L))) st)" "out_length st" True]
    show ?thesis
      using Statement.prems False by (auto simp: helper_Statement)
  qed (simp add: helper_Statement)
next
  case (Cons_elem e es)
  then obtain i st1 where 1: "compress_elem e visit L store view type new first st = Some (i, st1)"
    by (metis fit_elems.simps(2))
  from count_mono(3) [OF V(2) this Cons_elem.prems(3)] have st1: "out st1 = None" "card (A - counted st1) \<le> n"
    using card_counted [OF A _ Cons_elem.prems(4)] by auto
  show ?case
  proof (cases "es = []")
    case False
    have "is_circular type"
      using Cons_elem.prems(2) False by (cases es) auto
    moreover obtain st2 where "compress_elems es visit L store view type new False
        (change_cell i (set_next (next_pointer L type i (hd es) st1)) st1) = Some st2"
      using Cons_elem.IH(2) [of type "change_cell i (set_next (next_pointer L type i (hd es) st1)) st1" new False] Cons_elem.prems(1) st1 \<open>is_circular type\<close>
      by auto
    ultimately show ?thesis
      using 1 False by (auto simp: elems_Cons)
  qed (use 1 in \<open>auto simp: elems_Cons\<close>)
next
  case (Struct c ms t)
  then obtain names where names: "compressed_members type c = Some names" "length names = length ms"
    by (auto simp: members_fit_def)
  let ?st = "advance (sizeof L type) (put_cell (out_length st) (Struct_cell type (clear_indexes view c) False (\<lambda>_. Raw) NULLP) st)"
  obtain st1 where "compress_members ms visit L store view type (out_length st) names ?st = Some st1"
    using Struct.IH [of ?st type "out_length st" names] Struct.prems by auto
  moreover obtain st2 where "compress_text L (out_length st) c t st1 = Some st2"
    using compress_text_fits Struct.prems(1) by (metis fit_elem.simps(1))
  ultimately show ?case
    using names Struct.prems(1) by (auto simp: elem_Struct)
next
  case (Shared a)
  then have a: "is_shared (kind a)" "a \<in> A" "kind a = type"
    by simp_all
  from compress_shared_ends [OF V(1) A a(1,2) Shared.prems(2,3), of L store new first] show ?case
    by (auto simp: a(3))
next
  case (Cons_stmt m ms)
  then obtain r st1 where 1: "compress_statement_helper m visit L store view st = Some (r, st1)"
    by (metis all_fit.simps(2))
  from count_mono(1) [OF V(2) this Cons_stmt.prems(2)] have st1: "out st1 = None" "card (A - counted st1) \<le> n"
    using card_counted [OF A _ Cons_stmt.prems(3)] by auto
  from Cons_stmt.IH(2) [of "change_cell new (set_member (hd names)
         (case r of None \<Rightarrow> NULLP | Some i \<Rightarrow> A2R (new + member_at L type (hd names)) i)) st1" type new "tl names"] Cons_stmt.prems(1) st1 1
  show ?case
    by (auto simp: members_Cons)
qed auto

lemma structures_end:
  fixes store :: "'d store"
  assumes "store_fits store A kind succ" and "finite A"
  shows "enough A kind n (compress_structure n L store view)"
proof (induction n)
  case (Suc n)
  show ?case
    unfolding enough_def
  proof (intro allI impI)
    fix a i and st :: "'d compress_state"
    assume a: "a \<in> A" "out st = None" "card (A - counted st) < Suc n"
    then have "members_fit (kind a) (fst (store a)) (snd (store a))" "all_fit (snd (store a)) A kind succ"
      using assms(1) by (auto simp: store_fits_def)
    moreover obtain names where "compressed_members (kind a) (fst (store a)) = Some names"
      using calculation(1) by (auto simp: members_fit_def)
    moreover obtain st' where
      "compress_members (snd (store a)) (compress_structure n L store view) L store view (kind a) i names st = Some st'"
      using first_pass_ends(4) [OF Suc structures_step_together assms(2) calculation(2) a(2), of L store view "kind a" i names] a(3) by auto
    ultimately show "compress_structure (Suc n) L store view (kind a) a i st \<noteq> None"
      by (simp add: members_fit_def)
  qed
qed (simp add: enough_def)

section \<open>The buffer is filled and not exceeded\<close>

fun cell_size :: "layout \<Rightarrow> 'd cell \<Rightarrow> nat" where
  "cell_size L (Stmt_cell _ _ _) = sizeof_SqlStatement L"
| "cell_size L (Type_cell _ _) = sizeof_SqlStatement L"
| "cell_size L (Struct_cell type _ _ _ _) = sizeof L type"
| "cell_size L (Text_cell s) = length s + 1"

lemma cell_size_set [simp]:
  "cell_size L (set_v p c) = cell_size L c" "cell_size L (set_member m p c) = cell_size L c" "cell_size L (set_next p c) = cell_size L c"
  by (cases c; simp)+

text \<open>A property that every step of a pass keeps.\<close>

definition kept_by_steps :: "layout \<Rightarrow> ('d compress_state \<Rightarrow> bool) \<Rightarrow> bool" where
  "kept_by_steps L P \<longleftrightarrow> (\<forall>st. P st \<longrightarrow>
     (\<forall>c. P (advance (cell_size L c) (put_cell (out_length st) c st)))
     \<and> (\<forall>i p m. P (change_cell i (set_v p) st) \<and> P (change_cell i (set_member m p) st) \<and> P (change_cell i (set_next p) st))
     \<and> (\<forall>a. out st \<noteq> None \<longrightarrow> bin_defn_offset st a = MAX_BIN_DEFN_OFFSET \<longrightarrow> P (st\<lparr>bin_defn_offset := (bin_defn_offset st)(a := Offset (out_length st))\<rparr>))
     \<and> (\<forall>a. out st = None \<longrightarrow> P (st\<lparr>bin_defn_offset := (bin_defn_offset st)(a := MAX_BIN_DEFN_OFFSET)\<rparr>)))"

lemma kept_by_stepsD:
  assumes "kept_by_steps L P" and "P st"
  shows "cell_size L c = n \<Longrightarrow> P (advance n (put_cell (out_length st) c st))" "P (change_cell i (set_v p) st)"
    "P (change_cell i (set_member m p) st)" "P (change_cell i (set_next p) st)"
    "out st \<noteq> None \<Longrightarrow> bin_defn_offset st a = MAX_BIN_DEFN_OFFSET \<Longrightarrow> P (st\<lparr>bin_defn_offset := (bin_defn_offset st)(a := Offset (out_length st))\<rparr>)"
    "out st = None \<Longrightarrow> P (st\<lparr>bin_defn_offset := (bin_defn_offset st)(a := MAX_BIN_DEFN_OFFSET)\<rparr>)"
  using assms unfolding kept_by_steps_def by blast+

lemma put_cell_None: "out st = None \<Longrightarrow> put_cell i c st = st"
  by (simp add: put_cell_def)

definition keeps :: "('d compress_state \<Rightarrow> bool) \<Rightarrow> (SqlStatementType \<Rightarrow> nat \<Rightarrow> nat \<Rightarrow> 'd compress_state \<Rightarrow> 'd compress_state option) \<Rightarrow> bool" where
  "keeps P visit \<longleftrightarrow> (\<forall>type a i st st'. visit type a i st = Some st' \<longrightarrow> P st \<longrightarrow> P st')"

lemma advance_change: "advance n (change_cell i f st) = change_cell i f (advance n st)"
  by (simp add: advance_def change_cell_def)

lemma compress_text_keeps:
  assumes "kept_by_steps L P" and "compress_text L i c t st = Some st'" and "P st"
  shows "P st'"
proof (cases "st' = st")
  case False
  then obtain s where "st' = change_cell i (set_member ''v'' (A2R (i + member_at L value_STATEMENT ''v'') (out_length st)))
      (advance (length s + 1) (put_cell (out_length st) (Text_cell s) st))"
    using assms(2) by (auto simp: compress_text_def advance_change split: contents.splits if_splits option.splits)
  with kept_by_stepsD(1) [OF assms(1,3), of "Text_cell s" "length s + 1"] kept_by_stepsD(3) [OF assms(1)] show ?thesis
    by simp
qed (use assms(3) in simp)

lemma compress_shared_keeps:
  assumes P: "kept_by_steps L P" and V: "keeps P visit"
    and C: "compress_shared visit L store type new first a st = Some (i, st')" and st: "P st"
  shows "P st'"
proof (cases "out st = None")
  case True
  let ?st = "st\<lparr>bin_defn_offset := (bin_defn_offset st)(a := MAX_BIN_DEFN_OFFSET)\<rparr>"
  have "P (advance (sizeof L type) ?st)"
    using kept_by_stepsD(1) [OF P kept_by_stepsD(6) [OF P st True, of a], of "Struct_cell type (fst (store a)) True (\<lambda>_. Raw) NULLP" "sizeof L type"] True
    by (simp add: put_cell_None)
  then show ?thesis
    using C V st True unfolding compress_shared_def keeps_def by (auto split: if_splits offset.splits)
next
  case False
  note simps = C [unfolded compress_shared_def]
  show ?thesis
  proof (cases "bin_defn_offset st a")
    case MAX_BIN_DEFN_OFFSET
    then have "visit type a (out_length st) (advance (sizeof L type) (put_cell (out_length st) (Struct_cell type (fst (store a)) True (\<lambda>_. Raw) NULLP)
        (st\<lparr>bin_defn_offset := (bin_defn_offset st)(a := Offset (out_length st))\<rparr>))) = Some st'"
      using simps False by (auto simp: Let_def split: if_splits)
    moreover note kept_by_stepsD(1) [OF P kept_by_stepsD(5) [OF P st False MAX_BIN_DEFN_OFFSET], of "Struct_cell type (fst (store a)) True (\<lambda>_. Raw) NULLP" "sizeof L type"]
    ultimately show ?thesis
      using V by (auto simp: keeps_def)
  next
    case (Offset j)
    then show ?thesis
      using simps False kept_by_stepsD(2) [OF P st] st by (auto split: if_splits)
  qed (use simps False in \<open>auto split: if_splits\<close>)
qed

lemma walk_keeps:
  assumes P: "kept_by_steps L P" and V: "keeps P visit"
  shows "compress_statement_helper s visit L store view st = Some (r, st') \<Longrightarrow> P st \<Longrightarrow> P st'"
    and "compress_elems es visit L store view type new first st = Some st' \<Longrightarrow> P st \<Longrightarrow> P st'"
    and "compress_elem e visit L store view type new first st = Some (i, st') \<Longrightarrow> P st \<Longrightarrow> P st'"
    and "compress_members ms visit L store view type new names st = Some st' \<Longrightarrow> P st \<Longrightarrow> P st'"
proof (induction s and es and e and ms arbitrary: r st st' and type new first st st' and type new first i st st' and type new names st st'
    rule: compress_statement_helper.induct compress_elems.induct compress_elem.induct compress_members.induct)
  case (Data_type d t)
  then show ?case
    using kept_by_stepsD(1) [OF P Data_type.prems(2), of "Type_cell d t" "sizeof_SqlStatement L"] by (auto split: if_splits)
next
  case (Statement type d es)
  show ?case
  proof (cases "es = []")
    case False
    with Statement.prems(1) have 1: "compress_elems es visit L store view type (out_length st) True (advance (sizeof_SqlStatement L)
          (put_cell (out_length st) (Stmt_cell type d (A2R (out_length st + v_at L) (out_length st + sizeof_SqlStatement L))) st)) = Some st'"
      by (simp add: helper_Statement)
    show ?thesis
      by (rule Statement.IH [OF 1 kept_by_stepsD(1) [OF P Statement.prems(2)]]) simp
  qed (use Statement.prems in \<open>simp add: helper_Statement\<close>)
next
  case (Cons_elem e es)
  from Cons_elem.prems(1) obtain j st1 where 1: "compress_elem e visit L store view type new first st = Some (j, st1)"
      and 2: "if es = [] then st' = st1 else is_circular type \<and> compress_elems es visit L store view type new False
          (change_cell j (set_next (next_pointer L type j (hd es) st1)) st1) = Some st'"
    by (auto simp: elems_Cons)
  note st1 = Cons_elem.IH(1) [OF 1 Cons_elem.prems(2)]
  show ?case
    using 2 st1 Cons_elem.IH(2) [OF _ kept_by_stepsD(4) [OF P st1]] by (auto split: if_splits)
next
  case (Struct c ms t)
  from Struct.prems(1) obtain names st1 where 1: "compress_members ms visit L store view type (out_length st) names
      (advance (sizeof L type) (put_cell (out_length st) (Struct_cell type (clear_indexes view c) False (\<lambda>_. Raw) NULLP) st)) = Some st1"
      and 2: "compress_text L (out_length st) c t st1 = Some st'"
    by (auto simp: elem_Struct)
  show ?case
    by (rule compress_text_keeps [OF P 2 Struct.IH [OF 1 kept_by_stepsD(1) [OF P Struct.prems(2)]]]) simp
next
  case (Shared a)
  then show ?case
    using compress_shared_keeps [OF P V] by simp
next
  case (Cons_stmt m ms)
  from Cons_stmt.prems(1) obtain r st1 where 1: "compress_statement_helper m visit L store view st = Some (r, st1)"
      and 2: "compress_members ms visit L store view type new (tl names) (change_cell new (set_member (hd names)
         (case r of None \<Rightarrow> NULLP | Some i \<Rightarrow> A2R (new + member_at L type (hd names)) i)) st1) = Some st'"
    by (auto simp: members_Cons)
  show ?case
    by (rule Cons_stmt.IH(2) [OF 2 kept_by_stepsD(3) [OF P Cons_stmt.IH(1) [OF 1 Cons_stmt.prems(2)]]])
qed auto

lemma structures_keep:
  assumes P: "kept_by_steps L P"
  shows "keeps P (compress_structure n L store view)"
proof (induction n)
  case (Suc n)
  then show ?case
    using walk_keeps(4) [OF P Suc] by (fastforce simp: keeps_def split: bind_splits if_splits)
qed (simp add: keeps_def)

text \<open>All cells are within the used part of the buffer, and they do not overlap.\<close>

definition tiled :: "layout \<Rightarrow> 'd compress_state \<Rightarrow> bool" where
  "tiled L st \<longleftrightarrow> (\<exists>b. out st = Some b \<and> (\<forall>i c. b i = Some c \<longrightarrow> i + cell_size L c \<le> out_length st \<and> (\<forall>j. i < j \<longrightarrow> b j \<noteq> None \<longrightarrow> i + cell_size L c \<le> j)))"

lemma tiled_change:
  assumes "tiled L st" and "\<And>c. cell_size L (f c) = cell_size L c"
  shows "tiled L (change_cell i f st)"
proof -
  from assms(1) obtain b where b: "out st = Some b"
      "\<And>i c. b i = Some c \<Longrightarrow> i + cell_size L c \<le> out_length st \<and> (\<forall>j. i < j \<longrightarrow> b j \<noteq> None \<longrightarrow> i + cell_size L c \<le> j)"
    unfolding tiled_def by blast
  have "k + cell_size L c \<le> out_length st \<and> (\<forall>j. k < j \<longrightarrow> (b(i := map_option f (b i))) j \<noteq> None \<longrightarrow> k + cell_size L c \<le> j)"
    if c: "(b(i := map_option f (b i))) k = Some c" for k c
  proof -
    obtain d where "b k = Some d" "cell_size L c = cell_size L d"
      using c assms(2) by (cases "k = i") auto
    with b(2) [OF this(1)] show ?thesis
      by (auto split: if_splits)
  qed
  then show ?thesis
    using b(1) by (auto simp: tiled_def)
qed

lemma tiled_append:
  assumes "tiled L st" and "cell_size L c = n"
  shows "tiled L (advance n (put_cell (out_length st) c st))"
proof -
  from assms(1) obtain b where b: "out st = Some b"
      "\<And>i c. b i = Some c \<Longrightarrow> i + cell_size L c \<le> out_length st \<and> (\<forall>j. i < j \<longrightarrow> b j \<noteq> None \<longrightarrow> i + cell_size L c \<le> j)"
    unfolding tiled_def by blast
  have "b j = None" if "out_length st < j" for j
    using b(2) [of j] that by (cases "b j") auto
  then show ?thesis
    using b assms(2) by (fastforce simp: tiled_def)
qed

lemma tiled_simps [simp]: "tiled L (st\<lparr>bin_defn_offset := offsets\<rparr>) = tiled L st"
  by (simp add: tiled_def)

lemma tiled_out: "tiled L st \<Longrightarrow> \<exists>b. out st = Some b"
  by (auto simp: tiled_def)

lemma tiled_kept: "kept_by_steps L (tiled L)"
  unfolding kept_by_steps_def
  by (intro allI impI conjI) (auto dest: tiled_out intro: tiled_change tiled_append simp del: state_simps)

definition null_stmt :: "'d stmt \<Rightarrow> bool" where
  "null_stmt s \<longleftrightarrow> (case s of Null \<Rightarrow> True | Data_type _ t \<Rightarrow> null_data_type t | Statement _ _ es \<Rightarrow> es = [])"

lemma longer_kept: "kept_by_steps L (\<lambda>st. out st \<noteq> None \<and> n \<le> out_length st)"
  by (auto simp: kept_by_steps_def)

lemma unplaced_kept: "kept_by_steps L (\<lambda>st. out st = None \<and> (\<forall>a j. bin_defn_offset st a \<noteq> Offset j))"
  by (auto simp: kept_by_steps_def)

lemma compress_statement_passes:
  fixes store :: "'d store"
  assumes "fits stmt A kind succ" and "store_fits store A kind succ" and "finite A" and "card A \<le> n"
    and "\<forall>a. offsets a \<noteq> MAX_BIN_DEFN_OFFSET" and "\<not> null_stmt stmt" and "0 < sizeof_SqlStatement L"
  obtains b st r st' where "compress_statement n L store stmt view offsets = Some (b, out_length st', st')" and "out st' = Some b" and "0 < out_length st'"
    and "tiled L st'" and "out st = Some Map.empty" and "out_length st = 0"
    and "compress_statement_helper stmt (compress_structure n L store view) L store view st = Some (r, st')"
    and "\<forall>a. offsets a = Initial \<Longrightarrow> \<forall>a j. bin_defn_offset st a \<noteq> Offset j"
proof -
  let ?visit = "compress_structure n L store view"
  let ?st0 = "\<lparr>out = None, out_length = 0, bin_defn_offset = offsets\<rparr> :: 'd compress_state"
  have none: "counted ?st0 = {}"
    using assms(5) by (simp add: counted_def)
  with first_pass_ends(1) [OF structures_end [OF assms(2,3)] structures_step_together assms(3,1), where st = ?st0 and n = n, of L view L store view] assms(4)
  obtain r1 st1 where 1: "compress_statement_helper stmt ?visit L store view ?st0 = Some (r1, st1)"
    by auto
  define st where "st = st1\<lparr>out := Some Map.empty, out_length := 0\<rparr>"
  have F: "counted st = counted st1"
    by (simp add: st_def counted_def)
  have start: "in_step (counted st1) ?st0 st"
    using none by (auto simp: in_step_def st_def counted_def)
  from passes_in_step(1) [OF structures_step_together 1 this subset_refl] obtain r2 st' where
    2: "compress_statement_helper stmt ?visit L store view st = Some (r2, st')" "in_step (counted st1) st1 st'"
    by (elim exE conjE)
  obtain b where b: "out st' = Some b"
    using 2(2) by (auto simp: in_step_def)
  have tiled: "tiled L st'"
    by (rule walk_keeps(1) [OF tiled_kept structures_keep [OF tiled_kept] 2(1)]) (simp add: st_def tiled_def)
  have positive: "0 < out_length st'"
  proof (cases stmt)
    case (Data_type d t)
    with 2(1) assms(6,7) show ?thesis
      by (auto simp: null_stmt_def split: if_splits)
  next
    case (Statement type d es)
    with 2(1) assms(6) have "compress_elems es ?visit L store view type (out_length st) True (advance (sizeof_SqlStatement L)
          (put_cell (out_length st) (Stmt_cell type d (A2R (out_length st + v_at L) (out_length st + sizeof_SqlStatement L))) st)) = Some st'"
      by (simp add: helper_Statement null_stmt_def)
    from walk_keeps(2) [OF longer_kept structures_keep [OF longer_kept] this, of "sizeof_SqlStatement L"] assms(7) show ?thesis
      by (simp add: st_def)
  qed (use assms(6) in \<open>simp add: null_stmt_def\<close>)
  have "out_length st1 = out_length st'"
    using 2(2) by (simp add: in_step_def)
  with 1 2(1) b positive have "compress_statement n L store stmt view offsets = Some (b, out_length st', st')"
    by (simp add: compress_statement_def st_def)
  moreover have "\<forall>a j. bin_defn_offset st a \<noteq> Offset j" if "\<forall>a. offsets a = Initial"
    using walk_keeps(1) [OF unplaced_kept structures_keep [OF unplaced_kept] 1] that by (simp add: st_def)
  ultimately show thesis
    using that [of b st' st r2] b positive tiled 2(1) by (simp add: st_def)
qed

section \<open>Properties\<close>

text \<open>A table with two columns that point back to it, as CREATE TABLE leaves it.\<close>

definition sample_name :: "string \<Rightarrow> nat stmt" where
  "sample_name s = Statement value_STATEMENT 0
     [Struct (Value \<lparr>value_type = COLUMN_REFERENCE, date_time_format_type = NO_KEYWORD,
         coerced_type = \<lparr>data_type = UNKNOWN_SqlDataType, size_or_precision = 0, scale = 0, size_or_precision_parameter_index = 0,
           scale_parameter_index = 0, format = NO_KEYWORD\<rparr>,
         pre_coerced_type = UNKNOWN_SqlValueType, parameter_index = 0, is_double_quoted = False\<rparr>) [] (Some s)]"

definition sample_store :: "nat store" where
  "sample_store a =
     (if a = 1 then (Other 0, [sample_name ''T'', Null, Statement column_STATEMENT 0 [Shared 2, Shared 3], Null, Null])
      else (Other a, [Statement create_table_STATEMENT 0 [Shared 1], sample_name (if a = 2 then ''ID'' else ''NAME''), Null]))"

definition sample_kind :: "nat \<Rightarrow> SqlStatementType" where
  "sample_kind a = (if a = 1 then create_table_STATEMENT else column_STATEMENT)"

definition sample_next :: "nat \<Rightarrow> nat" where
  "sample_next a = (if a = 2 then 3 else if a = 3 then 2 else a)"

definition sample_layout :: layout where
  "sample_layout = \<lparr>sizeof_SqlStatement = 24, v_at = 8, sizeof = \<lambda>_. 80, member_at = \<lambda>_ m. 8 * length m, next_at = \<lambda>_. 64,
     unique_id_of_set_operation = \<lambda>_ p _. (case p of Abs i \<Rightarrow> int i | _ \<Rightarrow> 0)\<rparr>"

definition sample_table :: "nat stmt" where
  "sample_table = Statement create_table_STATEMENT 0 [Shared 1]"

lemmas sample_defs = sample_name_def sample_store_def sample_kind_def sample_next_def sample_layout_def sample_table_def

lemma sample_name_fits: "fits (sample_name s) A kind succ"
  by (simp add: sample_name_def members_fit_def text_fits_def compressed_members_def is_shared_def is_literal_def)

lemma sample_fits:
  "fits sample_table {1, 2, 3} sample_kind sample_next" "store_fits sample_store {1, 2, 3} sample_kind sample_next"
  "card {1, 2, 3 :: nat} \<le> 3" "finite {1, 2, 3 :: nat}" "\<not> null_stmt sample_table" "0 < sizeof_SqlStatement sample_layout" "0 < sizeof sample_layout type"
proof -
  show "fits sample_table {1, 2, 3} sample_kind sample_next"
    by (simp add: sample_table_def sample_kind_def is_shared_def)
  show "store_fits sample_store {1, 2, 3} sample_kind sample_next"
    by (simp add: store_fits_def sample_store_def sample_kind_def sample_next_def members_fit_def compressed_members_def sample_name_fits is_shared_def
      is_circular_def)
qed (simp_all add: null_stmt_def sample_table_def sample_layout_def)

text \<open>C22: \<open>compress_statement\<close> returns, and the second pass uses exactly the bytes that the first one counted: no structure or text is
  written outside of the allocated buffer, and none over another, though tables and columns point to each other.\<close>

theorem buffer_is_filled:
  assumes "fits stmt A kind succ" and "store_fits store A kind succ" and "finite A" and "card A \<le> n"
    and "\<forall>a. offsets a \<noteq> MAX_BIN_DEFN_OFFSET" and "\<not> null_stmt stmt" and "0 < sizeof_SqlStatement L"
  shows "\<exists>b len st. compress_statement n L store stmt view offsets = Some (b, len, st) \<and> out_length st = len \<and> 0 < len
    \<and> (\<forall>i c. b i = Some c \<longrightarrow> i + cell_size L c \<le> len \<and> (\<forall>j. i < j \<longrightarrow> b j \<noteq> None \<longrightarrow> i + cell_size L c \<le> j))"
proof -
  obtain b st where "compress_statement n L store stmt view offsets = Some (b, out_length st, st)" "out st = Some b" "0 < out_length st" "tiled L st"
    by (rule compress_statement_passes [OF assms, of view])
  then show ?thesis
    by (intro exI [of _ b] exI [of _ "out_length st"] exI [of _ st]) (simp add: tiled_def)
qed

theorem buffer_is_filled_witness:
  "\<exists>b len st. compress_statement 3 sample_layout sample_store sample_table False (\<lambda>_. Initial) = Some (b, len, st) \<and> out_length st = len \<and> 0 < len
    \<and> (\<forall>i c. b i = Some c \<longrightarrow> i + cell_size sample_layout c \<le> len \<and> (\<forall>j. i < j \<longrightarrow> b j \<noteq> None \<longrightarrow> i + cell_size sample_layout c \<le> j))"
  by (rule buffer_is_filled [OF sample_fits(1,2,4,3) _ sample_fits(5,6)]) simp

end
