(* ===== verification/BinaryContents.thy ===== *)
theory BinaryContents
  imports BinaryForm
begin

text \<open>
  What the buffer of \<open>compress_statement\<close> holds. A statement is represented at a place of the buffer when the cells from there on are its
  structures, with relative pointers. The walk keeps an invariant of the buffer (\<open>placed\<close>), and what it has stored stays represented
  while the rest is written: later steps only add cells, fill the members of structures still open, and set the next element of lists.
\<close>

section \<open>The buffer represents the statement\<close>

definition cell_at :: "'d compress_state \<Rightarrow> nat \<Rightarrow> 'd cell option" where
  "cell_at st i = Option.bind (out st) (\<lambda>b. b i)"

definition member_of :: "'d compress_state \<Rightarrow> nat \<Rightarrow> string \<Rightarrow> ptr option" where
  "member_of st i m = (case cell_at st i of Some (Struct_cell _ _ _ ps _) \<Rightarrow> Some (ps m) | _ \<Rightarrow> None)"

definition next_of :: "'d compress_state \<Rightarrow> nat \<Rightarrow> ptr option" where
  "next_of st i = (case cell_at st i of Some (Struct_cell _ _ _ _ next) \<Rightarrow> Some next | _ \<Rightarrow> None)"

definition text_at :: "layout \<Rightarrow> 'd compress_state \<Rightarrow> nat \<Rightarrow> 'd contents \<Rightarrow> string option \<Rightarrow> bool" where
  "text_at L st i c t \<longleftrightarrow>
     (case c of
        Value value \<Rightarrow> is_literal (value_type value) \<longrightarrow> (\<exists>k s. t = Some s
          \<and> member_of st i ''v'' = Some (A2R (i + member_at L value_STATEMENT ''v'') k) \<and> cell_at st k = Some (Text_cell s))
      | _ \<Rightarrow> True)"

text \<open>
  That a statement is at a place of the buffer, or that it is null: every pointer in it is relative, to a place where what it
  points to is in turn. \<open>F\<close> are the places of its own statements and structures, all different. A shared structure is where its
  \<open>bin_defn_offset\<close> says. The last element of a list has no next, but in a list of shared structures that was also walked from
  another start.
\<close>

primrec represents :: "'d stmt \<Rightarrow> layout \<Rightarrow> bool \<Rightarrow> 'd compress_state \<Rightarrow> nat option \<Rightarrow> nat set \<Rightarrow> bool"
and represents_elems :: "'d elem list \<Rightarrow> layout \<Rightarrow> bool \<Rightarrow> 'd compress_state \<Rightarrow> SqlStatementType \<Rightarrow> nat \<Rightarrow> nat set \<Rightarrow> bool"
and represents_elem :: "'d elem \<Rightarrow> layout \<Rightarrow> bool \<Rightarrow> 'd compress_state \<Rightarrow> SqlStatementType \<Rightarrow> nat \<Rightarrow> nat set \<Rightarrow> bool"
and represents_members :: "'d stmt list \<Rightarrow> layout \<Rightarrow> bool \<Rightarrow> 'd compress_state \<Rightarrow> SqlStatementType \<Rightarrow> nat \<Rightarrow> string list \<Rightarrow> nat set \<Rightarrow> bool" where
  "represents Null L view st r F \<longleftrightarrow> r = None \<and> F = {}"
| "represents (Data_type d t) L view st r F \<longleftrightarrow>
     (if null_data_type t then r = None \<and> F = {} else \<exists>i. r = Some i \<and> cell_at st i = Some (Type_cell d t) \<and> F = {i})"
| "represents (Statement type d es) L view st r F \<longleftrightarrow>
     (if es = [] then r = None \<and> F = {}
      else \<exists>i j F'. r = Some i \<and> cell_at st i = Some (Stmt_cell type d (A2R (i + v_at L) j)) \<and> represents_elems es L view st type j F'
        \<and> i \<notin> F' \<and> F = insert i F')"
| "represents_elems [] L view st type j F \<longleftrightarrow> F = {}"
| "represents_elems (e # es) L view st type j F \<longleftrightarrow>
     (\<exists>F1 F2. represents_elem e L view st type j F1 \<and> F1 \<inter> F2 = {} \<and> F = F1 \<union> F2
        \<and> (if es = [] then F2 = {} \<and> (case e of Struct _ _ _ \<Rightarrow> next_of st j = Some NULLP | Shared _ \<Rightarrow> True)
           else \<exists>k. next_of st j = Some (A2R (j + next_at L type) k) \<and> represents_elems es L view st type k F2))"
| "represents_elem (Struct c ms t) L view st type j F \<longleftrightarrow>
     (\<exists>ps next. cell_at st j = Some (Struct_cell type (clear_indexes view c) False ps next)) \<and> text_at L st j c t
     \<and> (\<exists>F'. represents_members ms L view st type j (the (compressed_members type c)) F' \<and> j \<notin> F' \<and> F = insert j F')"
| "represents_elem (Shared a) L view st type j F \<longleftrightarrow> bin_defn_offset st a = Offset j \<and> F = {}"
| "represents_members [] L view st type j names F \<longleftrightarrow> F = {}"
| "represents_members (m # ms) L view st type j names F \<longleftrightarrow>
     (\<exists>r F1 F2. represents m L view st r F1
        \<and> member_of st j (hd names) = Some (case r of None \<Rightarrow> NULLP | Some i \<Rightarrow> A2R (j + member_at L type (hd names)) i)
        \<and> represents_members ms L view st type j (tl names) F2 \<and> F1 \<inter> F2 = {} \<and> F = F1 \<union> F2)"

definition represents_shared :: "layout \<Rightarrow> 'd store \<Rightarrow> (nat \<Rightarrow> SqlStatementType) \<Rightarrow> bool \<Rightarrow> 'd compress_state \<Rightarrow> nat \<Rightarrow> nat \<Rightarrow> nat set \<Rightarrow> bool" where
  "represents_shared L store kind view st a j F \<longleftrightarrow>
     (\<exists>ps next. cell_at st j = Some (Struct_cell (kind a) (fst (store a)) True ps next))
     \<and> (\<exists>F'. represents_members (snd (store a)) L view st (kind a) j (the (compressed_members (kind a) (fst (store a)))) F' \<and> j \<notin> F' \<and> F = insert j F')"

text \<open>The state of the second pass: structures are where \<open>bin_defn_offset\<close> says, and a pointer to the next element is to the next element.\<close>

definition base :: "(nat \<Rightarrow> SqlStatementType) \<Rightarrow> 'd compress_state \<Rightarrow> bool" where
  "base kind st \<longleftrightarrow> out st \<noteq> None \<and> (\<forall>i c. cell_at st i = Some c \<longrightarrow> i < out_length st)
     \<and> (\<forall>a j. bin_defn_offset st a = Offset j \<longrightarrow> (\<exists>c ps next. cell_at st j = Some (Struct_cell (kind a) c True ps next)))
     \<and> (\<forall>a b j. bin_defn_offset st a = Offset j \<longrightarrow> bin_defn_offset st b = Offset j \<longrightarrow> a = b)"

definition next_ok :: "layout \<Rightarrow> (nat \<Rightarrow> nat) \<Rightarrow> (nat \<Rightarrow> offset) \<Rightarrow> 'd compress_state \<Rightarrow> bool" where
  "next_ok L succ offsets st \<longleftrightarrow> (\<forall>a j type c ps next. offsets a = Offset j \<longrightarrow> cell_at st j = Some (Struct_cell type c True ps next) \<longrightarrow>
     next \<noteq> NULLP \<longrightarrow> (\<exists>k. offsets (succ a) = Offset k \<and> next = A2R (j + next_at L type) k))"

definition placed :: "layout \<Rightarrow> (nat \<Rightarrow> SqlStatementType) \<Rightarrow> (nat \<Rightarrow> nat) \<Rightarrow> 'd compress_state \<Rightarrow> bool" where
  "placed L kind succ st \<longleftrightarrow> base kind st \<and> next_ok L succ (bin_defn_offset st) st"

text \<open>What may still happen to a cell: the next element of a shared structure may be set.\<close>

fun same_cell :: "'d cell \<Rightarrow> 'd cell \<Rightarrow> bool" where
  "same_cell (Struct_cell type c shared ps next) c' \<longleftrightarrow>
     (if shared then \<exists>next'. c' = Struct_cell type c shared ps next' \<and> (next \<noteq> NULLP \<longrightarrow> next' \<noteq> NULLP)
      else c' = Struct_cell type c shared ps next)"
| "same_cell c c' \<longleftrightarrow> c' = c"

fun alike :: "'d cell \<Rightarrow> 'd cell \<Rightarrow> bool" where
  "alike (Struct_cell type c shared ps _) c' \<longleftrightarrow> (\<exists>next'. c' = Struct_cell type c shared ps next')"
| "alike c c' \<longleftrightarrow> c' = c"

definition has_next :: "'d compress_state \<Rightarrow> nat \<Rightarrow> bool" where
  "has_next st j \<longleftrightarrow> (\<exists>p. next_of st j = Some p \<and> p \<noteq> NULLP)"

definition ext :: "nat set \<Rightarrow> 'd compress_state \<Rightarrow> 'd compress_state \<Rightarrow> bool" where
  "ext S st st' \<longleftrightarrow> (\<forall>i\<in>S. \<forall>c. cell_at st i = Some c \<longrightarrow> (\<exists>c'. cell_at st' i = Some c' \<and> same_cell c c'))
     \<and> (\<forall>a j. bin_defn_offset st a = Offset j \<longrightarrow> bin_defn_offset st' a = Offset j)
     \<and> (\<forall>a j. bin_defn_offset st a = Offset j \<longrightarrow> has_next st j \<longrightarrow> has_next st' j)
     \<and> (\<forall>a. bin_defn_offset st a = MAX_BIN_DEFN_OFFSET \<longrightarrow> bin_defn_offset st' a \<noteq> Initial)"

text \<open>
  A part of the walk from \<open>st\<close> to \<open>st'\<close> keeps the cells \<open>S\<close>, and what holds in \<open>st'\<close> afterwards holds later, as long as the cells \<open>T\<close> are kept.
\<close>

definition finished :: "layout \<Rightarrow> (nat \<Rightarrow> SqlStatementType) \<Rightarrow> (nat \<Rightarrow> nat) \<Rightarrow> nat set \<Rightarrow> nat set \<Rightarrow> 'd compress_state \<Rightarrow> 'd compress_state
    \<Rightarrow> ('d compress_state \<Rightarrow> bool) \<Rightarrow> bool" where
  "finished L kind succ S T st st' Q \<longleftrightarrow> placed L kind succ st' \<and> out_length st \<le> out_length st' \<and> ext S st st'
     \<and> (\<forall>st2. placed L kind succ st2 \<longrightarrow> ext T st' st2 \<longrightarrow> Q st2)"

text \<open>
  The shared structures that were first met between \<open>st\<close> and \<open>st'\<close> are in the part of the buffer that was filled there, with the places \<open>F\<close>,
  and nothing is in two of them.
\<close>

definition first_met :: "'d compress_state \<Rightarrow> 'd compress_state \<Rightarrow> nat \<Rightarrow> nat \<Rightarrow> bool" where
  "first_met st st' a j \<longleftrightarrow> bin_defn_offset st a = MAX_BIN_DEFN_OFFSET \<and> bin_defn_offset st' a = Offset j"

definition apart :: "layout \<Rightarrow> 'd store \<Rightarrow> (nat \<Rightarrow> SqlStatementType) \<Rightarrow> bool \<Rightarrow> 'd compress_state \<Rightarrow> (nat \<Rightarrow> nat \<Rightarrow> bool) \<Rightarrow> nat set \<Rightarrow> nat set \<Rightarrow> (nat \<Rightarrow> nat set) \<Rightarrow> bool" where
  "apart L store kind view st2 met I F G \<longleftrightarrow> F \<subseteq> I
     \<and> (\<forall>a j. met a j \<longrightarrow> represents_shared L store kind view st2 a j (G a) \<and> G a \<subseteq> I \<and> F \<inter> G a = {})
     \<and> (\<forall>a b j k. met a j \<longrightarrow> met b k \<longrightarrow> a \<noteq> b \<longrightarrow> G a \<inter> G b = {})"

definition stored :: "layout \<Rightarrow> 'd store \<Rightarrow> (nat \<Rightarrow> SqlStatementType) \<Rightarrow> bool \<Rightarrow> 'd compress_state \<Rightarrow> 'd compress_state \<Rightarrow> 'd compress_state \<Rightarrow> nat set \<Rightarrow> bool" where
  "stored L store kind view st st' st2 F \<longleftrightarrow> (\<exists>G. apart L store kind view st2 (first_met st st') {out_length st..<out_length st'} F G)"

definition alike_at :: "nat \<Rightarrow> 'd compress_state \<Rightarrow> 'd compress_state \<Rightarrow> bool" where
  "alike_at i st st2 \<longleftrightarrow> (\<exists>c c'. cell_at st i = Some c \<and> cell_at st2 i = Some c' \<and> alike c c')"

text \<open>Where an element of a list is, or will be, and \<open>bin_defn_offset\<close> as if it were there already.\<close>

definition place :: "'d elem \<Rightarrow> 'd compress_state \<Rightarrow> nat" where
  "place e st = (case e of Struct _ _ _ \<Rightarrow> out_length st | Shared a \<Rightarrow> (case bin_defn_offset st a of Offset i \<Rightarrow> i | _ \<Rightarrow> out_length st))"

definition early :: "'d elem \<Rightarrow> 'd compress_state \<Rightarrow> nat \<Rightarrow> offset" where
  "early e st = (case e of Struct _ _ _ \<Rightarrow> bin_defn_offset st
     | Shared a \<Rightarrow> (if bin_defn_offset st a = MAX_BIN_DEFN_OFFSET then (bin_defn_offset st)(a := Offset (out_length st)) else bin_defn_offset st))"

lemma cell_at_simps [simp]:
  "cell_at (advance n st) i = cell_at st i"
  "cell_at (change_cell j f st) i = (if i = j then map_option f (cell_at st i) else cell_at st i)"
  "cell_at (st\<lparr>bin_defn_offset := offsets\<rparr>) i = cell_at st i"
  "out st \<noteq> None \<Longrightarrow> cell_at (put_cell j c st) i = (if i = j then Some c else cell_at st i)"
  by (auto simp: cell_at_def advance_def change_cell_def split: bind_splits)

lemma same_cell_refl [simp]: "same_cell c c"
  by (cases c) auto

lemma same_cell_trans: "same_cell c d \<Longrightarrow> same_cell d e \<Longrightarrow> same_cell c e"
  by (cases c; cases d) (auto split: if_splits)

lemma alike_refl [simp]: "alike c c"
  by (cases c) auto

lemma same_alike: "same_cell c d \<Longrightarrow> alike c d"
  by (cases c) (auto split: if_splits)

lemma alike_trans: "alike c d \<Longrightarrow> alike d e \<Longrightarrow> alike c e"
  by (cases c; cases d) auto

lemma ext_refl [simp]: "ext S st st"
  by (auto simp: ext_def)

lemma extD:
  assumes "ext S st st'"
  shows "i \<in> S \<Longrightarrow> cell_at st i = Some c \<Longrightarrow> \<exists>c'. cell_at st' i = Some c' \<and> same_cell c c'"
    and "bin_defn_offset st a = Offset j \<Longrightarrow> bin_defn_offset st' a = Offset j"
    and "bin_defn_offset st a = Offset j \<Longrightarrow> has_next st j \<Longrightarrow> has_next st' j"
    and "bin_defn_offset st a = MAX_BIN_DEFN_OFFSET \<Longrightarrow> bin_defn_offset st' a \<noteq> Initial"
  using assms unfolding ext_def by blast+

lemma ext_trans:
  assumes "ext S st1 st2" and "ext T st2 st3" and "U \<subseteq> S" and "U \<inter> dom (cell_at st2) \<subseteq> T"
  shows "ext U st1 st3"
proof -
  have "\<exists>c'. cell_at st3 i = Some c' \<and> same_cell c c'" if "i \<in> U" "cell_at st1 i = Some c" for i c
    using extD(1) [OF assms(1), of i c] extD(1) [OF assms(2), of i] assms(3,4) that same_cell_trans by fastforce
  moreover have "bin_defn_offset st3 a \<noteq> Initial" if "bin_defn_offset st1 a = MAX_BIN_DEFN_OFFSET" for a
    using extD(4) [OF assms(1) that] extD(2,4) [OF assms(2), of a] by (cases "bin_defn_offset st2 a") auto
  ultimately show ?thesis
    using extD(2,3) [OF assms(1)] extD(2,3) [OF assms(2)] unfolding ext_def by blast
qed

lemma ext_subset: "ext S st st' \<Longrightarrow> T \<subseteq> S \<Longrightarrow> ext T st st'"
  unfolding ext_def by blast

section \<open>Single steps\<close>

lemma base_fresh: "base kind st \<Longrightarrow> out_length st \<le> i \<Longrightarrow> cell_at st i = None"
  unfolding base_def by (metis linorder_not_le not_Some_eq)

lemma baseD:
  assumes "base kind st"
  shows "out st \<noteq> None" "cell_at st i = Some c \<Longrightarrow> i < out_length st"
    "bin_defn_offset st a = Offset j \<Longrightarrow> \<exists>c ps next. cell_at st j = Some (Struct_cell (kind a) c True ps next)"
    "bin_defn_offset st a = Offset j \<Longrightarrow> bin_defn_offset st b = Offset j \<Longrightarrow> a = b"
  using assms unfolding base_def by blast+

lemma placedD:
  assumes "placed L kind succ st"
  shows "base kind st" "next_ok L succ (bin_defn_offset st) st"
  using assms unfolding placed_def by blast+

lemma set_cases:
  "set_v p c = Struct_cell type d sh ps nx \<longleftrightarrow> c = Struct_cell type d sh ps nx"
  "set_member m p c = Struct_cell type d sh ps nx \<longleftrightarrow> (\<exists>qs. c = Struct_cell type d sh qs nx \<and> ps = qs(m := p))"
  "set_next p c = Struct_cell type d sh ps nx \<longleftrightarrow> nx = p \<and> (\<exists>ny. c = Struct_cell type d sh ps ny)"
  by (cases c; fastforce)+

lemma member_of_change [simp]:
  "member_of (change_cell j (set_v p) st) i m = member_of st i m"
  "member_of (change_cell j (set_next p) st) i m = member_of st i m"
  "member_of (advance n st) i m = member_of st i m"
  "member_of (change_cell j (set_member m' p) st) i m
     = (if i = j \<and> m = m' then map_option (\<lambda>_. p) (member_of st i m) else member_of st i m)"
  by (auto simp: member_of_def split: option.split cell.split elim: set_v.elims)

lemma next_of_change [simp]:
  "next_of (change_cell j (set_v p) st) i = next_of st i"
  "next_of (change_cell j (set_member m p) st) i = next_of st i"
  "next_of (advance n st) i = next_of st i"
  "next_of (change_cell j (set_next p) st) i = (if i = j then map_option (\<lambda>_. p) (next_of st i) else next_of st i)"
  by (auto simp: next_of_def split: option.split cell.split)

lemma base_change:
  assumes "base kind st" and "\<And>type c sh ps nx. \<exists>qs ny. f (Struct_cell type c sh ps nx) = Struct_cell type c sh qs ny"
  shows "base kind (change_cell i f st)"
proof -
  have "\<exists>c ps next. cell_at (change_cell i f st) j = Some (Struct_cell (kind a) c True ps next)" if a: "bin_defn_offset st a = Offset j" for a j
    using baseD(3) [OF assms(1) a] assms(2) by (metis cell_at_simps(2) option.simps(9))
  then show ?thesis
    using assms(1) unfolding base_def by (auto split: if_splits)
qed

lemma placed_change:
  assumes "placed L kind succ st"
  shows "placed L kind succ (change_cell i (set_v p) st)" and "placed L kind succ (change_cell i (set_member m p) st)"
proof -
  have n: "next_ok L succ (bin_defn_offset st) st"
    using assms by (simp add: placed_def)
  have "next_ok L succ (bin_defn_offset st) (change_cell i (set_v p) st)" "next_ok L succ (bin_defn_offset st) (change_cell i (set_member m p) st)"
    using n unfolding next_ok_def by (auto simp: set_cases split: if_splits; blast)+
  moreover have "base kind (change_cell i (set_v p) st)" "base kind (change_cell i (set_member m p) st)"
    by (rule base_change [OF placedD(1) [OF assms]]; simp)+
  ultimately show "placed L kind succ (change_cell i (set_v p) st)" and "placed L kind succ (change_cell i (set_member m p) st)"
    by (simp_all add: placed_def)
qed

lemma placed_put:
  assumes "placed L kind succ st" and "0 < n"
  shows "placed L kind succ (advance n (put_cell (out_length st) c st))"
proof -
  note b = placedD(1) [OF assms(1)]
  have j: "j \<noteq> out_length st" if "bin_defn_offset st a = Offset j" for a j
    using baseD(2,3) [OF b] that by blast
  have "next_ok L succ (bin_defn_offset st) (advance n (put_cell (out_length st) c st))"
    using placedD(2) [OF assms(1)] j baseD(1) [OF b] unfolding next_ok_def by fastforce
  moreover have "base kind (advance n (put_cell (out_length st) c st))"
    unfolding base_def
  proof (intro conjI allI impI)
    fix i d assume "cell_at (advance n (put_cell (out_length st) c st)) i = Some d"
    then show "i < out_length (advance n (put_cell (out_length st) c st))"
      using baseD(1,2) [OF b] assms(2) by (fastforce split: if_splits)
  next
    fix a j assume "bin_defn_offset (advance n (put_cell (out_length st) c st)) a = Offset j"
    then show "\<exists>c' ps next. cell_at (advance n (put_cell (out_length st) c st)) j = Some (Struct_cell (kind a) c' True ps next)"
      using baseD(1) [OF b] baseD(3) [OF b, of a j] j by auto
  next
    fix a a' j assume "bin_defn_offset (advance n (put_cell (out_length st) c st)) a = Offset j"
      "bin_defn_offset (advance n (put_cell (out_length st) c st)) a' = Offset j"
    then show "a = a'"
      using baseD(4) [OF b] by simp
  qed (use baseD(1) [OF b] in simp)
  ultimately show ?thesis
    by (simp add: placed_def)
qed

lemma placed_put_shared:
  assumes "base kind st" and "next_ok L succ ((bin_defn_offset st)(a := Offset (out_length st))) st" and "0 < n"
  shows "placed L kind succ (advance n (put_cell (out_length st) (Struct_cell (kind a) c True ps NULLP)
    (st\<lparr>bin_defn_offset := (bin_defn_offset st)(a := Offset (out_length st))\<rparr>)))" (is "placed _ _ _ ?st")
proof -
  note b = assms(1)
  have j: "j \<noteq> out_length st" if "bin_defn_offset st b = Offset j" for b j
    using baseD(2,3) [OF b] that by blast
  have out: "out (st\<lparr>bin_defn_offset := x\<rparr>) \<noteq> None" for x
    using baseD(1) [OF b] by simp
  have "next_ok L succ (bin_defn_offset ?st) ?st"
    using assms(2) out unfolding next_ok_def by (auto split: if_splits; blast)
  moreover have "base kind ?st"
    unfolding base_def
  proof (intro conjI allI impI)
    fix i d assume "cell_at ?st i = Some d"
    then show "i < out_length ?st"
      using out baseD(2) [OF b] assms(3) by (fastforce split: if_splits)
  next
    fix a' j assume "bin_defn_offset ?st a' = Offset j"
    then show "\<exists>c ps next. cell_at ?st j = Some (Struct_cell (kind a') c True ps next)"
      using out baseD(3) [OF b, of a' j] j by (auto split: if_splits)
  next
    fix a' b' j assume "bin_defn_offset ?st a' = Offset j" "bin_defn_offset ?st b' = Offset j"
    then show "a' = b'"
      using baseD(4) [OF b, of a' j b'] j [of a' j] j [of b' j] by (auto split: if_splits)
  qed (use out in simp)
  ultimately show ?thesis
    by (simp add: placed_def)
qed

lemma ext_put:
  assumes "base kind st"
  shows "ext S st (advance n (put_cell (out_length st) c st))"
    and "bin_defn_offset st a = MAX_BIN_DEFN_OFFSET \<Longrightarrow>
      ext S st (advance n (put_cell (out_length st) c (st\<lparr>bin_defn_offset := (bin_defn_offset st)(a := Offset k)\<rparr>)))"
  using base_fresh [OF assms, of "out_length st"] baseD(1) [OF assms] by (auto simp: ext_def has_next_def next_of_def)

lemma ext_change:
  assumes "i \<notin> S"
  shows "ext S st (change_cell i (set_v p) st)" and "ext S st (change_cell i (set_member m p) st)"
  using assms by (auto simp: ext_def has_next_def)

lemma early_ok:
  assumes "placed L kind succ st"
  shows "next_ok L succ (early e st) st"
proof -
  have "cell_at st (out_length st) = None"
    by (rule base_fresh [OF placedD(1) [OF assms]]) simp
  with placedD(2) [OF assms] show ?thesis
    unfolding next_ok_def early_def by (cases e) (auto, fastforce+)
qed

lemma next_pointer_place: "next_pointer L type new e st = A2R (new + next_at L type) (place e st)"
  by (simp add: next_pointer_def place_def split: elem.split)

lemma place_simps [simp]:
  "place (Struct c ms t) st = out_length st" "place e (change_cell i f st) = place e st"
  "bin_defn_offset st a = Offset i \<Longrightarrow> place (Shared a) st = i"
  by (simp_all add: place_def split: elem.split offset.split)

lemma early_simps [simp]: "early (Struct c ms t) st = bin_defn_offset st" "early e (change_cell i f st) = early e st"
  by (simp_all add: early_def split: elem.split)

lemma distinct_members: "compressed_members type c = Some names \<Longrightarrow> distinct names"
  by (auto simp: compressed_members_def split: SqlStatementType.splits contents.splits if_splits)

section \<open>Walks\<close>

definition members_walked :: "layout \<Rightarrow> 'd store \<Rightarrow> (nat \<Rightarrow> SqlStatementType) \<Rightarrow> (nat \<Rightarrow> nat) \<Rightarrow> bool \<Rightarrow> 'd stmt list \<Rightarrow> SqlStatementType \<Rightarrow> nat
    \<Rightarrow> string list \<Rightarrow> 'd compress_state \<Rightarrow> 'd compress_state \<Rightarrow> bool" where
  "members_walked L store kind succ view ms type new names st st' \<longleftrightarrow>
     finished L kind succ ({..<out_length st} - {new}) {out_length st..<out_length st'} st st'
       (\<lambda>st2. alike_at new st' st2 \<longrightarrow> (\<exists>F. represents_members ms L view st2 type new names F \<and> stored L store kind view st st' st2 F))
     \<and> (\<forall>c sh ps nx. cell_at st new = Some (Struct_cell type c sh ps nx) \<longrightarrow>
          (\<exists>ps' nx'. cell_at st' new = Some (Struct_cell type c sh ps' nx') \<and> (\<forall>m. m \<notin> set names \<longrightarrow> ps' m = ps m) \<and> (\<not> sh \<longrightarrow> nx' = nx)))"

definition visit_works :: "layout \<Rightarrow> 'd store \<Rightarrow> nat set \<Rightarrow> (nat \<Rightarrow> SqlStatementType) \<Rightarrow> (nat \<Rightarrow> nat) \<Rightarrow> bool
    \<Rightarrow> (SqlStatementType \<Rightarrow> nat \<Rightarrow> nat \<Rightarrow> 'd compress_state \<Rightarrow> 'd compress_state option) \<Rightarrow> bool" where
  "visit_works L store A kind succ view visit \<longleftrightarrow> (\<forall>a i st st'. a \<in> A \<longrightarrow> visit (kind a) a i st = Some st' \<longrightarrow> placed L kind succ st \<longrightarrow>
     bin_defn_offset st a = Offset i \<longrightarrow>
     members_walked L store kind succ view (snd (store a)) (kind a) i (the (compressed_members (kind a) (fst (store a)))) st st')"

definition points_to :: "layout \<Rightarrow> SqlStatementType \<Rightarrow> 'd \<Rightarrow> nat \<Rightarrow> bool \<Rightarrow> 'd compress_state \<Rightarrow> nat \<Rightarrow> bool" where
  "points_to L type d new_stmt first st j \<longleftrightarrow> (first \<longrightarrow> cell_at st new_stmt = Some (Stmt_cell type d (A2R (new_stmt + v_at L) j)))"

definition elem_walked :: "layout \<Rightarrow> 'd store \<Rightarrow> (nat \<Rightarrow> SqlStatementType) \<Rightarrow> (nat \<Rightarrow> nat) \<Rightarrow> bool \<Rightarrow> 'd elem \<Rightarrow> SqlStatementType \<Rightarrow> 'd \<Rightarrow> nat
    \<Rightarrow> bool \<Rightarrow> 'd compress_state \<Rightarrow> nat \<Rightarrow> 'd compress_state \<Rightarrow> bool" where
  "elem_walked L store kind succ view e type d new_stmt first st i st' \<longleftrightarrow> i = place e st
     \<and> finished L kind succ ({..<out_length st} - (if first then {new_stmt} else {})) ({out_length st..<out_length st'} - {i}) st st'
         (\<lambda>st2. (out_length st \<le> i \<longrightarrow> alike_at i st' st2) \<longrightarrow> (\<exists>F. represents_elem e L view st2 type i F \<and> stored L store kind view st st' st2 F))
     \<and> points_to L type d new_stmt first st' i
     \<and> (case e of Struct _ _ _ \<Rightarrow> \<exists>c ps. cell_at st' i = Some (Struct_cell type c False ps NULLP) | Shared a \<Rightarrow> bin_defn_offset st' a = Offset i)"

definition elems_walked :: "layout \<Rightarrow> 'd store \<Rightarrow> (nat \<Rightarrow> SqlStatementType) \<Rightarrow> (nat \<Rightarrow> nat) \<Rightarrow> bool \<Rightarrow> 'd elem list \<Rightarrow> SqlStatementType \<Rightarrow> 'd \<Rightarrow> nat
    \<Rightarrow> bool \<Rightarrow> 'd compress_state \<Rightarrow> 'd compress_state \<Rightarrow> bool" where
  "elems_walked L store kind succ view es type d new_stmt first st st' \<longleftrightarrow>
     finished L kind succ ({..<out_length st} - (if first then {new_stmt} else {})) {out_length st..<out_length st'} st st'
       (\<lambda>st2. \<exists>F. represents_elems es L view st2 type (place (hd es) st) F \<and> stored L store kind view st st' st2 F)
     \<and> points_to L type d new_stmt first st' (place (hd es) st)"

lemma stored_simps [simp]:
  "stored L store kind view (change_cell i f st) st' st2 F = stored L store kind view st st' st2 F"
  "stored L store kind view st (change_cell i f st') st2 F = stored L store kind view st st' st2 F"
  "stored L store kind view (put_cell i c st) st' st2 F = stored L store kind view st st' st2 F"
  "stored L store kind view st (put_cell i c st') st2 F = stored L store kind view st st' st2 F"
  by (simp_all add: stored_def first_met_def [abs_def])

lemma apartD:
  assumes "apart L store kind view st2 met I F G"
  shows "F \<subseteq> I" "met a j \<Longrightarrow> represents_shared L store kind view st2 a j (G a)" "met a j \<Longrightarrow> G a \<subseteq> I" "met a j \<Longrightarrow> F \<inter> G a = {}"
    "met a j \<Longrightarrow> met b k \<Longrightarrow> a \<noteq> b \<Longrightarrow> G a \<inter> G b = {}"
  using assms unfolding apart_def by blast+

lemma none_met: "\<not> first_met st st' a j" if "bin_defn_offset st' = bin_defn_offset st"
  using that by (simp add: first_met_def)

lemma stored_none:
  assumes "bin_defn_offset st' = bin_defn_offset st" and "F \<subseteq> {out_length st..<out_length st'}"
  shows "stored L store kind view st st' st2 F"
  using assms(2) none_met [OF assms(1)] by (simp add: stored_def apart_def)

lemma stored_bounds: "stored L store kind view st st' st2 F \<Longrightarrow> F \<subseteq> {out_length st..<out_length st'}"
  unfolding stored_def using apartD(1) by blast

lemma stored_after:
  assumes "stored L store kind view sta st' st2 F" and "bin_defn_offset sta = bin_defn_offset st" and "i < out_length sta"
    and "out_length st \<le> i" and "out_length sta \<le> out_length st'"
  shows "i \<notin> F" and "stored L store kind view st st' st2 (insert i F)"
proof -
  obtain G where G: "apart L store kind view st2 (first_met st st') {out_length sta..<out_length st'} F G"
    using assms(1,2) by (auto simp: stored_def first_met_def [abs_def])
  from apartD(1) [OF this] assms(3) show "i \<notin> F"
    by auto
  have I: "{out_length sta..<out_length st'} \<subseteq> {out_length st..<out_length st'}" "i \<in> {out_length st..<out_length st'}"
      "i \<notin> {out_length sta..<out_length st'}"
    using assms(3-5) by auto
  have "apart L store kind view st2 (first_met st st') {out_length st..<out_length st'} (insert i F) G"
    unfolding apart_def
  proof (intro conjI allI impI)
    fix a j assume met: "first_met st st' a j"
    show "represents_shared L store kind view st2 a j (G a)"
      by (rule apartD(2) [OF G met])
    show "G a \<subseteq> {out_length st..<out_length st'}" "insert i F \<inter> G a = {}"
      using apartD(3,4) [OF G met] I by blast+
  qed (use apartD(1,5) [OF G] I in blast)+
  then show "stored L store kind view st st' st2 (insert i F)"
    unfolding stored_def by blast
qed

lemma apart_union:
  assumes G1: "apart L store kind view st2 met1 I1 F1 G1" and G2: "apart L store kind view st2 met2 I2 F2 G2" and I: "I1 \<inter> I2 = {}"
    and met: "\<And>a j. met a j \<Longrightarrow> met1 a j \<and> G a = G1 a \<or> met2 a j \<and> G a = G2 a"
  shows "apart L store kind view st2 met (I1 \<union> I2) (F1 \<union> F2) G"
  unfolding apart_def
proof (intro conjI allI impI)
  show "F1 \<union> F2 \<subseteq> I1 \<union> I2"
    using apartD(1) [OF G1] apartD(1) [OF G2] by blast
next
  fix a j assume "met a j"
  from met [OF this] have "represents_shared L store kind view st2 a j (G a) \<and> (G a \<subseteq> I1 \<and> F1 \<inter> G a = {} \<or> G a \<subseteq> I2 \<and> F2 \<inter> G a = {})"
    by (elim disjE conjE) (use apartD(2-4) [OF G1] apartD(2-4) [OF G2] in auto)
  then show "represents_shared L store kind view st2 a j (G a)" and "G a \<subseteq> I1 \<union> I2" and "(F1 \<union> F2) \<inter> G a = {}"
    using apartD(1) [OF G1] apartD(1) [OF G2] I by (simp, blast, blast)
next
  fix a b j k assume ab: "met a j" "met b k" "a \<noteq> b"
  consider "met1 a j" "G a = G1 a" "met1 b k" "G b = G1 b" | "met2 a j" "G a = G2 a" "met2 b k" "G b = G2 b"
    | "G a \<subseteq> I1" "G b \<subseteq> I2" | "G a \<subseteq> I2" "G b \<subseteq> I1"
    using met [OF ab(1)] met [OF ab(2)] apartD(3) [OF G1] apartD(3) [OF G2] by metis
  then show "G a \<inter> G b = {}"
    by cases (use apartD(5) [OF G1] apartD(5) [OF G2] ab(3) I in blast)+
qed

lemma stored_trans:
  assumes "ext S st st1" and "ext T st1 st'" and "stored L store kind view st st1 st2 F1" and "stored L store kind view st1 st' st2 F2"
    and "out_length st \<le> out_length st1" and "out_length st1 \<le> out_length st'"
  shows "F1 \<inter> F2 = {}" and "stored L store kind view st st' st2 (F1 \<union> F2)"
proof -
  obtain G1 G2 where G1: "apart L store kind view st2 (first_met st st1) {out_length st..<out_length st1} F1 G1"
      and G2: "apart L store kind view st2 (first_met st1 st') {out_length st1..<out_length st'} F2 G2"
    using assms(3,4) unfolding stored_def by blast
  have I: "{out_length st..<out_length st1} \<inter> {out_length st1..<out_length st'} = {}"
      "{out_length st..<out_length st1} \<union> {out_length st1..<out_length st'} = {out_length st..<out_length st'}"
    using assms(5,6) by auto
  show "F1 \<inter> F2 = {}"
    using apartD(1) [OF G1] apartD(1) [OF G2] I(1) by blast
  define G where "G a = (if bin_defn_offset st1 a = MAX_BIN_DEFN_OFFSET then G2 a else G1 a)" for a
  have met: "first_met st st1 a j \<and> G a = G1 a \<or> first_met st1 st' a j \<and> G a = G2 a" if met: "first_met st st' a j" for a j
  proof (cases "bin_defn_offset st1 a")
    case (Offset k)
    with extD(2) [OF assms(2) this] met show ?thesis
      by (simp add: first_met_def G_def)
  qed (use extD(4) [OF assms(1), of a] met in \<open>simp_all add: first_met_def G_def\<close>)
  from apart_union [OF G1 G2 I(1) this] have "apart L store kind view st2 (first_met st st') {out_length st..<out_length st'} (F1 \<union> F2) G"
    by (simp only: I(2))
  then show "stored L store kind view st st' st2 (F1 \<union> F2)"
    unfolding stored_def by blast
qed

text \<open>A shared structure whose members were first met, or stored, after it.\<close>

lemma stored_shared:
  assumes "stored L store kind view sta st' st2 F" and "represents_members (snd (store a)) L view st2 (kind a) i (the (compressed_members (kind a) (fst (store a)))) F"
    and "cell_at st2 i = Some (Struct_cell (kind a) (fst (store a)) True ps next)"
    and "bin_defn_offset st a = MAX_BIN_DEFN_OFFSET" and "bin_defn_offset sta = (bin_defn_offset st)(a := Offset i)" and "bin_defn_offset st' a = Offset i"
    and "out_length st = i" and "i < out_length sta" and "out_length sta \<le> out_length st'"
  shows "stored L store kind view st st' st2 {}"
proof -
  obtain G where G: "apart L store kind view st2 (first_met sta st') {out_length sta..<out_length st'} F G"
    using assms(1) unfolding stored_def by blast
  have I: "{out_length sta..<out_length st'} \<subseteq> {out_length st..<out_length st'}" "i \<in> {out_length st..<out_length st'}"
      "i \<notin> {out_length sta..<out_length st'}"
    using assms(7-9) by auto
  define H where "H = G(a := insert i F)"
  have met: "first_met sta st' b j \<and> H b = G b \<and> b \<noteq> a \<or> b = a \<and> j = i \<and> H b = insert i F" if "first_met st st' b j" for b j
    using that assms(5,6) by (auto simp: first_met_def H_def)
  have "represents_shared L store kind view st2 a i (insert i F)"
    using assms(2,3) apartD(1) [OF G] I(3) by (auto simp: represents_shared_def)
  note this' = this
  have "apart L store kind view st2 (first_met st st') {out_length st..<out_length st'} {} H"
    unfolding apart_def
  proof (intro conjI allI impI)
    fix b j assume "first_met st st' b j"
    from met [OF this] have "represents_shared L store kind view st2 b j (H b) \<and> H b \<subseteq> {out_length st..<out_length st'}"
      by (elim disjE conjE) (use apartD(1) [OF G] apartD(2,3) [OF G, of b j] this' I in auto)
    then show "represents_shared L store kind view st2 b j (H b)" and "H b \<subseteq> {out_length st..<out_length st'}"
      by simp_all
  next
    fix b c j k assume "first_met st st' b j" "first_met st st' c k" "b \<noteq> c"
    note bc = this
    consider "first_met sta st' b j" "H b = G b" "first_met sta st' c k" "H c = G c"
      | "first_met sta st' b j" "H b = G b" "H c = insert i F" | "first_met sta st' c k" "H c = G c" "H b = insert i F"
      using met [OF bc(1)] met [OF bc(2)] bc(3) by metis
    then show "H b \<inter> H c = {}"
    proof cases
      case 1
      then show ?thesis
        using apartD(5) [OF G _ _ bc(3)] by simp
    next
      case 2
      have "i \<notin> G b"
        using apartD(3) [OF G 2(1)] I(3) by (meson subsetD)
      then show ?thesis
        using apartD(4) [OF G 2(1)] by (simp add: 2(2,3) Int_commute)
    next
      case 3
      have "i \<notin> G c"
        using apartD(3) [OF G 3(1)] I(3) by (meson subsetD)
      then show ?thesis
        using apartD(4) [OF G 3(1)] by (simp add: 3(2,3))
    qed
  qed simp_all
  then show ?thesis
    unfolding stored_def by blast
qed

lemma finishedI:
  assumes "placed L kind succ st'" and "out_length st \<le> out_length st'" and "ext S st st'"
    and "\<And>st2. placed L kind succ st2 \<Longrightarrow> ext T st' st2 \<Longrightarrow> Q st2"
  shows "finished L kind succ S T st st' Q"
  using assms unfolding finished_def by blast

lemma finishedD:
  assumes "finished L kind succ S T st st' Q"
  shows "placed L kind succ st'" "out_length st \<le> out_length st'" "ext S st st'" "placed L kind succ st2 \<Longrightarrow> ext T st' st2 \<Longrightarrow> Q st2"
  using assms unfolding finished_def by blast+

lemma visit_worksD:
  "visit_works L store A kind succ view visit \<Longrightarrow> a \<in> A \<Longrightarrow> visit (kind a) a i st = Some st' \<Longrightarrow> placed L kind succ st \<Longrightarrow>
     bin_defn_offset st a = Offset i \<Longrightarrow>
     members_walked L store kind succ view (snd (store a)) (kind a) i (the (compressed_members (kind a) (fst (store a)))) st st'"
  unfolding visit_works_def by blast

lemma alike_later: "ext S st st2 \<Longrightarrow> i \<in> S \<Longrightarrow> cell_at st i = Some c \<Longrightarrow> alike_at i st st2"
  unfolding alike_at_def using extD(1) same_alike by blast

lemma shared_walked:
  fixes store :: "'d store"
  assumes V: "visit_works L store A kind succ view visit" and size: "\<And>type. 0 < sizeof L type"
    and C: "compress_shared visit L store type new_stmt first a st = Some (i, st')" and a: "a \<in> A" "kind a = type"
    and st: "base kind st" "next_ok L succ (early (Shared a) st) st" "points_to L type d new_stmt first st (out_length st)"
  shows "elem_walked L store kind succ view (Shared a) type d new_stmt first st i st'"
proof (cases "bin_defn_offset st a")
  case Initial
  with C baseD(1) [OF st(1)] show ?thesis
    by (auto simp: compress_shared_def split: if_splits)
next
  case (Offset j)
  with C baseD(1) [OF st(1)] have i: "i = j" and st': "st' = (if first then change_cell new_stmt (set_v (A2R (new_stmt + v_at L) i)) st else st)"
    by (auto simp: compress_shared_def split: if_splits)
  have placed: "placed L kind succ st"
    using st(1,2) Offset by (simp add: placed_def early_def)
  have j: "j < out_length st"
    using baseD(2,3) [OF st(1)] Offset by blast
  have "finished L kind succ ({..<out_length st} - (if first then {new_stmt} else {})) ({out_length st..<out_length st'} - {i}) st st'
      (\<lambda>st2. (out_length st \<le> i \<longrightarrow> alike_at i st' st2) \<longrightarrow> (\<exists>F. represents_elem (Shared a) L view st2 type i F \<and> stored L store kind view st st' st2 F))"
  proof (rule finishedI)
    fix st2 assume "ext ({out_length st..<out_length st'} - {i}) st' st2"
    from extD(2) [OF this, of a j] Offset show "(out_length st \<le> i \<longrightarrow> alike_at i st' st2) \<longrightarrow> (\<exists>F. represents_elem (Shared a) L view st2 type i F \<and> stored L store kind view st st' st2 F)"
      by (auto simp: i intro: stored_none) (auto simp: st' intro: stored_none)
  qed (use placed in \<open>auto simp: st' intro: placed_change ext_change\<close>)
  then show ?thesis
    using Offset st(3) by (auto simp: elem_walked_def st' i points_to_def)
next
  case MAX_BIN_DEFN_OFFSET
  let ?i = "out_length st"
  let ?st = "advance (sizeof L type) (put_cell ?i (Struct_cell type (fst (store a)) True (\<lambda>_. Raw) NULLP)
    (st\<lparr>bin_defn_offset := (bin_defn_offset st)(a := Offset ?i)\<rparr>)) :: 'd compress_state"
  from C MAX_BIN_DEFN_OFFSET baseD(1) [OF st(1)] have i: "i = ?i" and C': "visit type a ?i ?st = Some st'"
    by (auto simp: compress_shared_def Let_def split: if_splits)
  have placed: "placed L kind succ ?st"
    using placed_put_shared [OF st(1), of L succ a "sizeof L type"] st(2) size MAX_BIN_DEFN_OFFSET by (simp add: early_def a(2))
  let ?names = "the (compressed_members type (fst (store a)))"
  have "members_walked L store kind succ view (snd (store a)) (kind a) ?i (the (compressed_members (kind a) (fst (store a)))) ?st st'"
    by (rule visit_worksD [OF V a(1) _ placed]) (use C' a(2) in simp_all)
  note walked = this [unfolded members_walked_def a(2), THEN conjunct1] this [unfolded members_walked_def a(2), THEN conjunct2]
  note f = finishedD [OF walked(1)]
  have cell: "cell_at ?st ?i = Some (Struct_cell type (fst (store a)) True (\<lambda>_. Raw) NULLP)"
    using baseD(1) [OF st(1)] by simp
  then obtain ps' nx' where cell': "cell_at st' ?i = Some (Struct_cell type (fst (store a)) True ps' nx')"
    using walked(2) by blast
  have offset: "bin_defn_offset st' a = Offset ?i"
    using extD(2) [OF f(3), of a ?i] by simp
  have ext1: "ext {..<out_length st} st ?st"
    by (rule ext_put(2) [OF st(1) MAX_BIN_DEFN_OFFSET])
  have ext2: "ext {..<out_length st} st st'"
    by (rule ext_trans [OF ext1 f(3)]) auto
  have "finished L kind succ {..<out_length st} ({out_length st..<out_length st'} - {?i}) st st'
      (\<lambda>st2. (out_length st \<le> ?i \<longrightarrow> alike_at ?i st' st2) \<longrightarrow> (\<exists>F. represents_elem (Shared a) L view st2 type ?i F \<and> stored L store kind view st st' st2 F))"
  proof (rule finishedI [OF f(1) _ ext2], goal_cases)
    case 1
    show ?case
      using f(2) by simp
  next
    case (2 st2)
    have "ext {out_length ?st..<out_length st'} st' st2"
      by (rule ext_subset [OF 2(2)]) (use size [of type] in auto)
    note later = f(4) [OF 2(1) this]
    have "stored L store kind view st st' st2 {}" if alike: "alike_at ?i st' st2"
    proof -
      obtain F where F: "represents_members (snd (store a)) L view st2 type ?i ?names F" "stored L store kind view ?st st' st2 F"
        using later alike by blast
      obtain nx where cell2: "cell_at st2 ?i = Some (Struct_cell type (fst (store a)) True ps' nx)"
        using alike cell' by (auto simp: alike_at_def)
      have "?i < out_length ?st"
        using size [of type] by simp
      from stored_shared [OF F(2) _ _ MAX_BIN_DEFN_OFFSET _ offset refl this f(2), unfolded a(2), OF F(1) cell2] show ?thesis
        by simp
    qed
    then show ?case
      using extD(2) [OF 2(2) offset] by auto
  qed
  then have "finished L kind succ ({..<out_length st} - (if first then {new_stmt} else {})) ({out_length st..<out_length st'} - {?i}) st st'
      (\<lambda>st2. (out_length st \<le> ?i \<longrightarrow> alike_at ?i st' st2) \<longrightarrow> (\<exists>F. represents_elem (Shared a) L view st2 type ?i F \<and> stored L store kind view st st' st2 F))"
    unfolding finished_def using ext_subset by (metis Diff_subset)
  moreover have "points_to L type d new_stmt first st' ?i"
    using st(3) extD(1) [OF ext2, of new_stmt] baseD(2) [OF st(1), of new_stmt] by (fastforce simp: points_to_def)
  ultimately show ?thesis
    using offset MAX_BIN_DEFN_OFFSET by (simp add: elem_walked_def i place_def)
qed

definition has_text :: "'d contents \<Rightarrow> bool" where
  "has_text c \<longleftrightarrow> (case c of Value value \<Rightarrow> is_literal (value_type value) | _ \<Rightarrow> False)"

lemma has_no_text: "\<not> has_text c \<Longrightarrow> compress_text L i c t st = Some st" "\<not> has_text c \<Longrightarrow> text_at L st i c t"
  by (simp_all add: has_text_def compress_text_def text_at_def split: contents.splits)

lemma has_text_members:
  assumes "has_text c" and "members_fit type c ms"
  shows "type = value_STATEMENT" and "compressed_members type c = Some []" and "ms = []"
  using assms by (auto simp: has_text_def members_fit_def compressed_members_def is_literal_def split: contents.splits if_splits)

lemma struct_walked:
  fixes store :: "'d store" and st :: "'d compress_state"
  assumes C: "compress_elem (Struct c ms t) visit L store view type new_stmt first st = Some (i, st')"
    and fit: "fit_elem (Struct c ms t) A kind succ type" and size: "\<And>type. 0 < sizeof L type"
    and IH: "\<And>names st st1 new c sh ps nx. compress_members ms visit L store view type new names st = Some st1 \<Longrightarrow> placed L kind succ st \<Longrightarrow>
      cell_at st new = Some (Struct_cell type c sh ps nx) \<Longrightarrow> length names = length ms \<Longrightarrow> distinct names \<Longrightarrow>
      members_walked L store kind succ view ms type new names st st1"
    and st: "placed L kind succ st" "points_to L type d new_stmt first st (out_length st)"
  shows "elem_walked L store kind succ view (Struct c ms t) type d new_stmt first st i st'"
proof -
  let ?i = "out_length st"
  let ?sta = "advance (sizeof L type) (put_cell ?i (Struct_cell type (clear_indexes view c) False (\<lambda>_. Raw) NULLP) st)"
  from C obtain names st1 where names: "compressed_members type c = Some names" "length names = length ms" and i: "i = ?i"
      and 1: "compress_members ms visit L store view type ?i names ?sta = Some st1" and 2: "compress_text L ?i c t st1 = Some st'"
    by (auto simp: elem_Struct)
  note b = placedD(1) [OF st(1)]
  have cell: "cell_at ?sta ?i = Some (Struct_cell type (clear_indexes view c) False (\<lambda>_. Raw) NULLP)"
    using baseD(1) [OF b] by simp
  have sta: "placed L kind succ ?sta"
    by (rule placed_put [OF st(1) size])
  have ext1: "ext UNIV st ?sta"
    by (rule ext_put(1) [OF b])
  let ?Q = "\<lambda>st2. (?i \<le> ?i \<longrightarrow> alike_at ?i st' st2) \<longrightarrow> (\<exists>F. represents_elem (Struct c ms t) L view st2 type ?i F \<and> stored L store kind view st st' st2 F)"
  have "finished L kind succ {..<?i} ({?i..<out_length st'} - {?i}) st st' ?Q
      \<and> (\<exists>ps. cell_at st' ?i = Some (Struct_cell type (clear_indexes view c) False ps NULLP))"
  proof (cases "has_text c")
    case True
    note no_members = has_text_members [OF True, of type ms]
    with fit names have ms: "type = value_STATEMENT" "ms = []" "names = []"
      by auto
    with 1 have st1: "st1 = ?sta"
      by simp
    let ?k = "out_length ?sta"
    from 2 True obtain s where t: "t = Some s" and st': "st' = change_cell ?i (set_member ''v'' (A2R (?i + member_at L value_STATEMENT ''v'') ?k))
        (advance (length s + 1) (put_cell ?k (Text_cell s) ?sta))"
      by (auto simp: compress_text_def has_text_def advance_change st1 split: contents.splits option.splits)
    let ?stb = "advance (length s + 1) (put_cell ?k (Text_cell s) ?sta)"
    have stb: "placed L kind succ ?stb" "ext UNIV ?sta ?stb"
      by (rule placed_put [OF sta], simp) (rule ext_put(1) [OF placedD(1) [OF sta]])
    have k: "?i < ?k" "out ?sta \<noteq> None"
      using size [of type] baseD(1) [OF b] by auto
    have cell': "cell_at st' ?i = Some (Struct_cell type (clear_indexes view c) False ((\<lambda>_. Raw)(''v'' := A2R (?i + member_at L value_STATEMENT ''v'') ?k)) NULLP)"
      and text_cell: "cell_at st' ?k = Some (Text_cell s)"
      using k cell baseD(1) [OF b] by (simp_all add: st')
    have "ext {..<?i} st st'"
      unfolding st' by (rule ext_trans [OF ext_trans [OF ext1 stb(2), of UNIV] ext_change(2) [of ?i "- {?i}"]]) auto
    note ext = this
    have placed: "placed L kind succ st'"
      unfolding st' by (rule placed_change(2) [OF stb(1)])
    have "finished L kind succ {..<?i} ({?i..<out_length st'} - {?i}) st st' ?Q"
    proof (rule finishedI [OF placed _ ext], goal_cases)
      case (2 st2)
      have "?k \<in> {?i..<out_length st'} - {?i}"
        using k by (auto simp: st')
      from extD(1) [OF 2(2) this text_cell] have "cell_at st2 ?k = Some (Text_cell s)"
        by simp
      then have "text_at L st2 ?i c t \<and> (\<exists>ps nx. cell_at st2 ?i = Some (Struct_cell type (clear_indexes view c) False ps nx))" if "alike_at ?i st' st2"
        using that cell' t by (force simp: alike_at_def text_at_def member_of_def ms(1) split: contents.split)
      moreover have "stored L store kind view st st' st2 {?i}"
        by (rule stored_none) (use k in \<open>simp_all add: st'\<close>)
      ultimately show ?case
        using names(1) by (auto simp: ms(2,3) simp del: stored_simps)
    qed (simp add: st')
    with cell' show ?thesis
      by blast
  next
    case False
    with 2 have st': "st' = st1"
      by (simp add: has_no_text)
    have "members_walked L store kind succ view ms type ?i names ?sta st'"
      unfolding st' by (rule IH [OF 1 sta cell names(2) distinct_members [OF names(1)]])
    note walked = this [unfolded members_walked_def, THEN conjunct1] this [unfolded members_walked_def, THEN conjunct2]
    note f = finishedD [OF walked(1)]
    obtain ps where cell': "cell_at st' ?i = Some (Struct_cell type (clear_indexes view c) False ps NULLP)"
      using walked(2) cell by blast
    have "ext {..<?i} st st'"
      by (rule ext_trans [OF ext1 f(3)]) auto
    note ext = this
    have "finished L kind succ {..<?i} ({?i..<out_length st'} - {?i}) st st' ?Q"
    proof (rule finishedI [OF f(1) _ ext], goal_cases)
      case (2 st2)
      have "ext {out_length ?sta..<out_length st'} st' st2"
        by (rule ext_subset [OF 2(2)]) (use size [of type] in auto)
      note later = f(4) [OF 2(1) this]
      show ?case
      proof (intro impI)
        assume "?i \<le> ?i \<longrightarrow> alike_at ?i st' st2"
        then obtain F nx where F: "represents_members ms L view st2 type ?i names F" "stored L store kind view ?sta st' st2 F"
            and cell2: "cell_at st2 ?i = Some (Struct_cell type (clear_indexes view c) False ps nx)"
          using later cell' by (auto simp: alike_at_def)
        note after = stored_after [OF F(2), of st ?i]
        have "?i \<notin> F" "stored L store kind view st st' st2 (insert ?i F)"
          by (rule after; use size [of type] f(2) in simp)+
        then show "\<exists>F. represents_elem (Struct c ms t) L view st2 type ?i F \<and> stored L store kind view st st' st2 F"
          using F(1) cell2 has_no_text(2) [OF False, of L st2] names(1) by (intro exI [of _ "insert ?i F"]) auto
      qed
    qed (use f(2) in simp)
    with cell' show ?thesis
      by blast
  qed
  note fin = this [THEN conjunct1] this [THEN conjunct2]
  have "finished L kind succ ({..<?i} - (if first then {new_stmt} else {})) ({?i..<out_length st'} - {?i}) st st' ?Q"
    using fin(1) ext_subset unfolding finished_def by (metis Diff_subset)
  moreover have "points_to L type d new_stmt first st' ?i"
    using st(2) extD(1) [OF finishedD(3) [OF fin(1)], of new_stmt] baseD(2) [OF b, of new_stmt] by (fastforce simp: points_to_def)
  ultimately show ?thesis
    using fin(2) by (auto simp: elem_walked_def i)
qed

lemma ext_set_next:
  assumes "\<And>c. i \<in> S \<Longrightarrow> cell_at st i = Some c \<Longrightarrow> \<exists>type d ps nx. c = Struct_cell type d True ps nx" and "p \<noteq> NULLP"
  shows "ext S st (change_cell i (set_next p) st)"
  using assms by (fastforce simp: ext_def has_next_def)

lemma next_in_list:
  assumes "placed L kind succ st" and "bin_defn_offset st a = Offset i" and "has_next st i" and "bin_defn_offset st (succ a) = Offset k"
  shows "next_of st i = Some (A2R (i + next_at L (kind a)) k)"
proof -
  obtain c ps nx where cell: "cell_at st i = Some (Struct_cell (kind a) c True ps nx)"
    using baseD(3) [OF placedD(1) [OF assms(1)] assms(2)] by blast
  moreover from cell assms(3) have "nx \<noteq> NULLP"
    by (auto simp: has_next_def next_of_def)
  ultimately show ?thesis
    using placedD(2) [OF assms(1)] assms(2,4) unfolding next_ok_def next_of_def by fastforce
qed

lemma next_set:
  assumes st: "placed L kind succ st" and i: "i < out_length st" and C: "st' = change_cell i (set_next (next_pointer L type i e st)) st"
    and e: "(\<exists>c ms t type c' ps nx. e = Struct c ms t \<and> cell_at st i = Some (Struct_cell type c' False ps nx))
      \<or> (\<exists>a. bin_defn_offset st a = Offset i \<and> e = Shared (succ a) \<and> kind a = type \<and> bin_defn_offset st (succ a) \<noteq> Initial)"
  shows "base kind st'" and "next_ok L succ (early e st') st'"
proof -
  show "base kind st'"
    unfolding C by (rule base_change [OF placedD(1) [OF st]]) simp
  have early: "early e st' = early e st"
    by (simp add: C)
  note N = early_ok [OF st, of e]
  show "next_ok L succ (early e st') st'"
    unfolding next_ok_def early
  proof (intro allI impI)
    fix a' j type' c ps nx
    assume a': "early e st a' = Offset j" and cell: "cell_at st' j = Some (Struct_cell type' c True ps nx)" and nx: "nx \<noteq> NULLP"
    show "\<exists>k. early e st (succ a') = Offset k \<and> nx = A2R (j + next_at L type') k"
    proof (cases "j = i")
      case False
      with cell have "cell_at st j = Some (Struct_cell type' c True ps nx)"
        by (simp add: C)
      with N a' nx show ?thesis
        unfolding next_ok_def by blast
    next
      case True
      with cell obtain ny where cell': "cell_at st i = Some (Struct_cell type' c True ps ny)" and nx': "nx = next_pointer L type i e st"
        by (auto simp: C set_cases)
      with e obtain a where a: "bin_defn_offset st a = Offset i" "e = Shared (succ a)" "kind a = type" "bin_defn_offset st (succ a) \<noteq> Initial"
        by auto
      have "type' = type"
        using baseD(3) [OF placedD(1) [OF st] a(1)] cell' a(3) by simp
      have "bin_defn_offset st a' = Offset i"
        using a' True i by (auto simp: early_def a(2) split: if_splits)
      with a(1) have "a' = a"
        using baseD(4) [OF placedD(1) [OF st]] by blast
      with a nx' True \<open>type' = type\<close> show ?thesis
        by (cases "bin_defn_offset st (succ a)") (simp_all add: early_def next_pointer_place place_def)
    qed
  qed
qed

lemma kinds_of_list:
  assumes "case e of Struct _ _ _ \<Rightarrow> \<exists>c ps. cell_at st i = Some (Struct_cell type c False ps NULLP) | Shared a \<Rightarrow> bin_defn_offset st a = Offset i"
    and "fit_elem e A kind succ type" and "fit_elems es A kind succ type" and "linked succ (e # es)" and "es \<noteq> []"
    and "\<And>b. hd es = Shared b \<Longrightarrow> bin_defn_offset st b \<noteq> Initial"
  shows "(\<exists>c ms t c' ms' t' c'' ps. e = Struct c ms t \<and> hd es = Struct c' ms' t' \<and> cell_at st i = Some (Struct_cell type c'' False ps NULLP))
      \<or> (\<exists>a. e = Shared a \<and> bin_defn_offset st a = Offset i \<and> hd es = Shared (succ a) \<and> kind a = type \<and> bin_defn_offset st (succ a) \<noteq> Initial)"
proof -
  obtain e' es' where es: "es = e' # es'"
    using assms(5) by (cases es) auto
  show ?thesis
  proof (cases e)
    case (Struct c ms t)
    with assms(2,3) obtain c' ms' t' where "e' = Struct c' ms' t'"
      by (cases e') (auto simp: es)
    with assms(1) Struct show ?thesis
      by (auto simp: es)
  next
    case (Shared a)
    with assms(2,3) obtain b where "e' = Shared b"
      by (cases e') (auto simp: es)
    with assms(1,2,4,6) Shared show ?thesis
      by (simp add: es)
  qed
qed

lemma elems_walked_Cons:
  fixes store :: "'d store" and st :: "'d compress_state"
  assumes e: "elem_walked L store kind succ view e type d new_stmt first st i st1" and fit: "fit_elem e A kind succ type" "fit_elems es A kind succ type"
    and linked: "linked succ (e # es)" and es: "es \<noteq> []" and st: "base kind st"
    and C: "st1' = change_cell i (set_next (next_pointer L type i (hd es) st1)) st1"
    and reached: "\<And>b. hd es = Shared b \<Longrightarrow> bin_defn_offset st1 b \<noteq> Initial"
    and IH: "base kind st1' \<Longrightarrow> next_ok L succ (early (hd es) st1') st1' \<Longrightarrow> elems_walked L store kind succ view es type d new_stmt False st1' st'"
  shows "elems_walked L store kind succ view (e # es) type d new_stmt first st st'"
proof -
  let ?k = "place (hd es) st1"
  let ?S = "{..<out_length st} - (if first then {new_stmt} else {})"
  note e = e [unfolded elem_walked_def]
  have i: "i = place e st"
    using e by blast
  note f = finishedD [OF e [THEN conjunct2, THEN conjunct1]]
  note b1 = placedD(1) [OF f(1)]
  have kinds: "(\<exists>c ms t c' ms' t' c'' ps. e = Struct c ms t \<and> hd es = Struct c' ms' t' \<and> cell_at st1 i = Some (Struct_cell type c'' False ps NULLP))
      \<or> (\<exists>a. e = Shared a \<and> bin_defn_offset st1 a = Offset i \<and> hd es = Shared (succ a) \<and> kind a = type \<and> bin_defn_offset st1 (succ a) \<noteq> Initial)"
    by (rule kinds_of_list [OF e [THEN conjunct2, THEN conjunct2, THEN conjunct2] fit linked es reached])
  obtain type' c sh ps nx where cell: "cell_at st1 i = Some (Struct_cell type' c sh ps nx)" and sh: "sh \<longleftrightarrow> (\<exists>a. e = Shared a)"
  proof (cases "\<exists>a. e = Shared a")
    case True
    with kinds obtain a where "bin_defn_offset st1 a = Offset i"
      by auto
    from baseD(3) [OF b1 this] True that show thesis
      by blast
  next
    case False
    with kinds that show thesis
      by blast
  qed
  have i1: "i < out_length st1"
    by (rule baseD(2) [OF b1 cell])
  have next_ok: "base kind st1'" "next_ok L succ (early (hd es) st1') st1'"
    by (rule next_set [OF f(1) i1 C]; use kinds in blast)+
  note E = IH [OF next_ok, unfolded elems_walked_def]
  note g = finishedD [OF E [THEN conjunct1]]
  have cell': "cell_at st1' i = Some (Struct_cell type' c sh ps (A2R (i + next_at L type) ?k))"
    using cell by (simp add: C next_pointer_place)
  have step: "ext T st1 st1'" if "i \<in> T \<Longrightarrow> sh" for T
    unfolding C using cell that by (intro ext_set_next) (auto simp: next_pointer_place A2R_def)
  have ext1: "ext ({..<out_length st1} - {i}) st1 st'"
    by (rule ext_trans [OF step [of "- {i}"] g(3)]) (auto simp: C)
  have "ext ?S st st1'"
  proof (rule ext_trans [OF f(3) step [of ?S]])
    assume "i \<in> ?S"
    then have "i < out_length st"
      by blast
    with i sh show sh
      by (cases e) simp_all
  qed simp_all
  then have ext: "ext ?S st st'"
    by (rule ext_trans [OF _ g(3)]) (use f(2) in \<open>auto simp: C\<close>)
  have "finished L kind succ ?S {out_length st..<out_length st'} st st'
      (\<lambda>st2. \<exists>F. represents_elems (e # es) L view st2 type i F \<and> stored L store kind view st st' st2 F)"
  proof (rule finishedI [OF g(1) _ ext], goal_cases)
    case 1
    show ?case
      using f(2) g(2) by (simp add: C)
  next
    case (2 st2)
    have "ext {out_length st1'..<out_length st'} st' st2"
      by (rule ext_subset [OF 2(2)]) (use f(2) in \<open>auto simp: C\<close>)
    from g(4) [OF 2(1) this] obtain F2 where later: "represents_elems es L view st2 type ?k F2" "stored L store kind view st1 st' st2 F2"
      by (auto simp: C)
    have "ext ({out_length st..<out_length st1} - {i}) st1 st2"
      by (rule ext_trans [OF ext1 2(2)]) (use g(2) in \<open>auto simp: C\<close>)
    moreover have "alike_at i st1 st2" if late: "out_length st \<le> i"
    proof -
      obtain c1 where "cell_at st' i = Some c1" "same_cell (Struct_cell type' c sh ps (A2R (i + next_at L type) ?k)) c1"
        using extD(1) [OF g(3) _ cell'] i1 by (auto simp: C)
      moreover obtain c2 where "cell_at st2 i = Some c2" "same_cell c1 c2"
        using extD(1) [OF 2(2) _ calculation(1)] late i1 g(2) by (auto simp: C)
      ultimately show ?thesis
        using cell by (auto simp: alike_at_def split: if_splits)
    qed
    ultimately obtain F1 where now: "represents_elem e L view st2 type i F1" "stored L store kind view st st1 st2 F1"
      using f(4) [OF 2(1), simplified] by blast
    have "next_of st2 i = Some (A2R (i + next_at L type) ?k)"
    proof (cases sh)
      case False
      with kinds sh have "i = out_length st"
        using i by auto
      moreover have "cell_at st' i = Some (Struct_cell type' c False ps (A2R (i + next_at L type) ?k))"
        using extD(1) [OF g(3) _ cell'] i1 False by (simp add: C)
      ultimately have "cell_at st2 i = Some (Struct_cell type' c False ps (A2R (i + next_at L type) ?k))"
        using extD(1) [OF 2(2), of i] i1 g(2) by (simp add: C)
      then show ?thesis
        by (simp add: next_of_def)
    next
      case True
      with kinds sh obtain a where a: "bin_defn_offset st1 a = Offset i" "hd es = Shared (succ a)" "kind a = type"
        by auto
      have "has_next st1' i"
        using cell' by (simp add: has_next_def next_of_def A2R_def)
      moreover have "bin_defn_offset st1' a = Offset i"
        using a(1) by (simp add: C)
      ultimately have "has_next st2 i" "bin_defn_offset st2 a = Offset i"
        using extD(2,3) [OF g(3)] extD(2,3) [OF 2(2)] by blast+
      moreover have "bin_defn_offset st2 (succ a) = Offset ?k"
        using later(1) es a(2) by (cases es) auto
      ultimately show ?thesis
        using next_in_list [OF 2(1)] a(3) by blast
    qed
    moreover have "F1 \<inter> F2 = {}" "stored L store kind view st st' st2 (F1 \<union> F2)"
      by (rule stored_trans [OF f(3) ext1 now(2) later(2) f(2)]; use g(2) in \<open>simp add: C\<close>)+
    ultimately show ?case
      using now(1) later(1) es by (intro exI [of _ "F1 \<union> F2"]) auto
  qed
  moreover have "points_to L type d new_stmt first st' i"
  proof -
    have "points_to L type d new_stmt first st1' i"
      using e [THEN conjunct2, THEN conjunct2, THEN conjunct1] by (auto simp: points_to_def C)
    then show ?thesis
      using extD(1) [OF g(3), of new_stmt] baseD(2) [OF next_ok(1), of new_stmt] by (fastforce simp: points_to_def)
  qed
  ultimately show ?thesis
    by (simp add: elems_walked_def i)
qed

lemma elems_walked_single:
  assumes e: "elem_walked L store kind succ view e type d new_stmt first st i st'" and st: "base kind st"
  shows "elems_walked L store kind succ view [e] type d new_stmt first st st'"
proof -
  note e = e [unfolded elem_walked_def]
  have i: "i = place e st"
    using e by blast
  note f = finishedD [OF e [THEN conjunct2, THEN conjunct1]]
  have "finished L kind succ ({..<out_length st} - (if first then {new_stmt} else {})) {out_length st..<out_length st'} st st'
      (\<lambda>st2. \<exists>F. represents_elems [e] L view st2 type i F \<and> stored L store kind view st st' st2 F)"
  proof (rule finishedI [OF f(1-3)], goal_cases)
    case (1 st2)
    obtain c where c: "cell_at st' i = Some c" "\<forall>c ms t. e = Struct c ms t \<longrightarrow> next_of st' i = Some NULLP"
    proof (cases e)
      case (Struct c ms t)
      with e that show thesis
        by (auto simp: next_of_def)
    next
      case (Shared a)
      with e have "bin_defn_offset st' a = Offset i"
        by simp
      from baseD(3) [OF placedD(1) [OF f(1)] this] Shared that show thesis
        by blast
    qed
    then have i': "i < out_length st'"
      using baseD(2) [OF placedD(1) [OF f(1)]] by blast
    have "alike_at i st' st2" if "out_length st \<le> i"
      by (rule alike_later [OF 1(2) _ c(1)]) (use that i' in simp)
    moreover have "ext ({out_length st..<out_length st'} - {i}) st' st2"
      by (rule ext_subset [OF 1(2)]) blast
    ultimately obtain F where "represents_elem e L view st2 type i F" "stored L store kind view st st' st2 F"
      using f(4) [OF 1(1)] by blast
    moreover have "next_of st2 i = Some NULLP" if "e = Struct d ms t" for d ms t
    proof -
      have "i = out_length st" and "\<exists>c ps. cell_at st' i = Some (Struct_cell type c False ps NULLP)"
        using i e that by auto
      then show ?thesis
        using extD(1) [OF 1(2), of i] i' by (auto simp: next_of_def)
    qed
    ultimately show ?case
      by (intro exI [of _ F]) (cases e; simp)
  qed
  with e i show ?thesis
    by (simp add: elems_walked_def)
qed

lemma members_walked_Nil: "placed L kind succ st \<Longrightarrow> members_walked L store kind succ view [] type new names st st"
  by (auto simp: members_walked_def intro: finishedI stored_none)

text \<open>What a statement that was compressed has become.\<close>

definition statement_walked :: "layout \<Rightarrow> 'd store \<Rightarrow> (nat \<Rightarrow> SqlStatementType) \<Rightarrow> (nat \<Rightarrow> nat) \<Rightarrow> bool \<Rightarrow> 'd stmt \<Rightarrow> nat option
    \<Rightarrow> 'd compress_state \<Rightarrow> 'd compress_state \<Rightarrow> bool" where
  "statement_walked L store kind succ view s r st st' \<longleftrightarrow>
     finished L kind succ {..<out_length st} {out_length st..<out_length st'} st st'
       (\<lambda>st2. \<exists>F. represents s L view st2 r F \<and> stored L store kind view st st' st2 F)"

lemma members_walked_Cons:
  fixes st1 :: "'d compress_state"
  assumes m: "statement_walked L store kind succ view m r st st1" and st: "placed L kind succ st"
    and new: "cell_at st new = Some (Struct_cell type c sh ps nx)" and names: "distinct (name # names)"
    and C: "st1' = change_cell new (set_member name (case r of None \<Rightarrow> NULLP | Some i \<Rightarrow> A2R (new + member_at L type name) i)) st1"
    and IH: "\<And>c sh ps nx. placed L kind succ st1' \<Longrightarrow> cell_at st1' new = Some (Struct_cell type c sh ps nx) \<Longrightarrow> members_walked L store kind succ view ms type new names st1' st'"
  shows "members_walked L store kind succ view (m # ms) type new (name # names) st st'"
proof -
  let ?p = "case r of None \<Rightarrow> NULLP | Some i \<Rightarrow> A2R (new + member_at L type name) i"
  note f = finishedD [OF m [unfolded statement_walked_def]]
  have new1: "new < out_length st"
    by (rule baseD(2) [OF placedD(1) [OF st] new])
  obtain nx1 where cell1: "cell_at st1 new = Some (Struct_cell type c sh ps nx1)" "\<not> sh \<longrightarrow> nx1 = nx"
    using extD(1) [OF f(3) _ new] new1 by (auto split: if_splits)
  then have cell1': "cell_at st1' new = Some (Struct_cell type c sh (ps(name := ?p)) nx1)"
    by (simp add: C)
  have st1': "placed L kind succ st1'"
    unfolding C by (rule placed_change(2) [OF f(1)])
  note walked = IH [OF st1' cell1', unfolded members_walked_def]
  note g = finishedD [OF walked [THEN conjunct1]]
  obtain ps' nx' where cell': "cell_at st' new = Some (Struct_cell type c sh ps' nx')" "\<forall>m. m \<notin> set names \<longrightarrow> ps' m = (ps(name := ?p)) m"
      "\<not> sh \<longrightarrow> nx' = nx1"
    using walked [THEN conjunct2] cell1' by blast
  have step: "ext (- {new}) st1 st1'"
    unfolding C by (rule ext_change) simp
  have ext1: "ext ({..<out_length st1} - {new}) st1 st'"
    by (rule ext_trans [OF step g(3)]) (auto simp: C)
  have "ext ({..<out_length st} - {new}) st st'"
    by (rule ext_trans [OF f(3) ext1]) (use f(2) in auto)
  then have "finished L kind succ ({..<out_length st} - {new}) {out_length st..<out_length st'} st st'
      (\<lambda>st2. alike_at new st' st2 \<longrightarrow> (\<exists>F. represents_members (m # ms) L view st2 type new (name # names) F \<and> stored L store kind view st st' st2 F))"
  proof (rule finishedI [OF g(1), rotated], goal_cases)
    case (1 st2)
    have "ext {out_length st1'..<out_length st'} st' st2"
      by (rule ext_subset [OF 1(2)]) (use f(2) in \<open>auto simp: C\<close>)
    note later = g(4) [OF 1(1) this]
    have "ext {out_length st..<out_length st1} st1 st2"
      by (rule ext_trans [OF ext1 1(2)]) (use new1 g(2) in \<open>auto simp: C\<close>)
    from f(4) [OF 1(1) this] obtain F1 where now: "represents m L view st2 r F1" "stored L store kind view st st1 st2 F1"
      by blast
    show ?case
    proof (intro impI)
      assume alike: "alike_at new st' st2"
      with later obtain F2 where F2: "represents_members ms L view st2 type new names F2" "stored L store kind view st1 st' st2 F2"
        by (auto simp: C)
      have "member_of st2 new name = Some ?p"
        using alike cell' names by (auto simp: alike_at_def member_of_def)
      moreover have "F1 \<inter> F2 = {}" "stored L store kind view st st' st2 (F1 \<union> F2)"
        by (rule stored_trans [OF f(3) ext1 now(2) F2(2) f(2)]; use g(2) in \<open>simp add: C\<close>)+
      ultimately show "\<exists>F. represents_members (m # ms) L view st2 type new (name # names) F \<and> stored L store kind view st st' st2 F"
        unfolding represents_members.simps list.sel using now(1) F2(1) by blast
    qed
  qed (use f(2) g(2) in \<open>simp add: C\<close>)
  moreover have "ps' m = ps m" if "m \<notin> set (name # names)" for m
    using cell'(2) that by simp
  ultimately show ?thesis
    using cell' cell1(2) new by (auto simp: members_walked_def)
qed

lemma statement_walked_elems:
  fixes st :: "'d compress_state"
  assumes st: "placed L kind succ st" and size: "0 < sizeof_SqlStatement L" and es: "es \<noteq> []"
    and C: "sta = advance (sizeof_SqlStatement L) (put_cell (out_length st) (Stmt_cell type d (A2R (out_length st + v_at L) (out_length st + sizeof_SqlStatement L))) st)"
    and IH: "placed L kind succ sta \<Longrightarrow> points_to L type d (out_length st) True sta (out_length sta) \<Longrightarrow>
      elems_walked L store kind succ view es type d (out_length st) True sta st'"
  shows "statement_walked L store kind succ view (Statement type d es) (Some (out_length st)) st st'"
proof -
  note b = placedD(1) [OF st]
  have sta: "placed L kind succ sta" "ext UNIV st sta"
    unfolding C by (rule placed_put [OF st size], rule ext_put(1) [OF b])
  have "points_to L type d (out_length st) True sta (out_length sta)"
    using baseD(1) [OF b] by (simp add: C points_to_def)
  note E = IH [OF sta(1) this, unfolded elems_walked_def]
  note f = finishedD [OF E [THEN conjunct1]]
  let ?j = "place (hd es) sta"
  have cell: "cell_at st' (out_length st) = Some (Stmt_cell type d (A2R (out_length st + v_at L) ?j))"
    using E by (simp add: points_to_def)
  have "ext {..<out_length st} st st'"
    by (rule ext_trans [OF sta(2) f(3)]) (auto simp: C)
  then have "finished L kind succ {..<out_length st} {out_length st..<out_length st'} st st'
      (\<lambda>st2. \<exists>F. represents (Statement type d es) L view st2 (Some (out_length st)) F \<and> stored L store kind view st st' st2 F)"
  proof (rule finishedI [OF f(1), rotated], goal_cases)
    case (1 st2)
    have "ext {out_length sta..<out_length st'} st' st2"
      by (rule ext_subset [OF 1(2)]) (auto simp: C)
    from f(4) [OF 1(1) this] obtain F where F: "represents_elems es L view st2 type ?j F" "stored L store kind view sta st' st2 F"
      by blast
    note after = stored_after [OF F(2), of st "out_length st"]
    have "out_length st \<notin> F" "stored L store kind view st st' st2 (insert (out_length st) F)"
      by (rule after; use size f(2) in \<open>simp add: C\<close>)+
    moreover have "out_length st \<in> {out_length st..<out_length st'}"
      using f(2) size by (simp add: C)
    from extD(1) [OF 1(2) this cell] have "cell_at st2 (out_length st) = Some (Stmt_cell type d (A2R (out_length st + v_at L) ?j))"
      by simp
    ultimately show ?case
      using es F(1) by (intro exI [of _ "insert (out_length st) F"]) auto
  qed (use f(2) in \<open>simp add: C\<close>)
  then show ?thesis
    by (simp add: statement_walked_def)
qed

lemma linked_tail: "linked succ (e # es) \<Longrightarrow> linked succ es"
  by (cases es) auto

lemma walk_represents:
  fixes store :: "'d store"
  assumes V: "visit_works L store A kind succ view visit" and size: "\<And>type. 0 < sizeof L type" "0 < sizeof_SqlStatement L"
  shows "compress_statement_helper s visit L store view st = Some (r, st') \<Longrightarrow> fits s A kind succ \<Longrightarrow> placed L kind succ st \<Longrightarrow>
      statement_walked L store kind succ view s r st st'"
    and "compress_elems es visit L store view type new first st = Some st' \<Longrightarrow> es \<noteq> [] \<Longrightarrow> fit_elems es A kind succ type \<Longrightarrow> linked succ es \<Longrightarrow>
      base kind st \<Longrightarrow> next_ok L succ (early (hd es) st) st \<Longrightarrow> points_to L type d new first st (out_length st) \<Longrightarrow>
      elems_walked L store kind succ view es type d new first st st'"
    and "compress_elem e visit L store view type new first st = Some (i, st') \<Longrightarrow> fit_elem e A kind succ type \<Longrightarrow>
      base kind st \<Longrightarrow> next_ok L succ (early e st) st \<Longrightarrow> points_to L type d new first st (out_length st) \<Longrightarrow>
      elem_walked L store kind succ view e type d new first st i st'"
    and "compress_members ms visit L store view type new names st = Some st' \<Longrightarrow> all_fit ms A kind succ \<Longrightarrow> placed L kind succ st \<Longrightarrow>
      cell_at st new = Some (Struct_cell type c sh ps nx) \<Longrightarrow> length names = length ms \<Longrightarrow> distinct names \<Longrightarrow>
      members_walked L store kind succ view ms type new names st st'"
proof (induction s and es and e and ms
    arbitrary: r st st' and type new first d st st' and type new first d i st st' and type new names c sh ps nx st st'
    rule: compress_statement_helper.induct compress_elems.induct compress_elem.induct compress_members.induct)
  case Null
  then show ?case
    by (auto simp: statement_walked_def intro: finishedI stored_none)
next
  case (Data_type d t)
  show ?case
  proof (cases "null_data_type t")
    case True
    with Data_type show ?thesis
      by (auto simp: statement_walked_def intro: finishedI stored_none)
  next
    case False
    note b = placedD(1) [OF Data_type.prems(3)]
    let ?st = "advance (sizeof_SqlStatement L) (put_cell (out_length st) (Type_cell d t) st)"
    from False Data_type.prems(1) baseD(1) [OF b] have r: "r = Some (out_length st)" and st': "st' = ?st"
      by auto
    have "finished L kind succ {..<out_length st} {out_length st..<out_length ?st} st ?st
      (\<lambda>st2. \<exists>F. represents (Data_type d t) L view st2 r F \<and> stored L store kind view st ?st st2 F)"
    proof (rule finishedI [OF placed_put [OF Data_type.prems(3) size(2)] _ ext_put(1) [OF b]], goal_cases)
      case (2 st2)
      have "cell_at ?st (out_length st) = Some (Type_cell d t)"
        using baseD(1) [OF b] by simp
      from extD(1) [OF 2(2) _ this] have "represents (Data_type d t) L view st2 r {out_length st}"
        using size(2) False by (auto simp: r)
      moreover have "stored L store kind view st ?st st2 {out_length st}"
        by (rule stored_none) (use size(2) in simp_all)
      ultimately show ?case
        by blast
    qed simp
    then show ?thesis
      by (simp add: statement_walked_def st')
  qed
next
  case (Statement type d es)
  show ?case
  proof (cases "es = []")
    case True
    with Statement.prems show ?thesis
      by (auto simp: helper_Statement statement_walked_def intro: finishedI stored_none)
  next
    case False
    let ?sta = "advance (sizeof_SqlStatement L)
      (put_cell (out_length st) (Stmt_cell type d (A2R (out_length st + v_at L) (out_length st + sizeof_SqlStatement L))) st)"
    from Statement.prems(1) False baseD(1) [OF placedD(1) [OF Statement.prems(3)]] have r: "r = Some (out_length st)"
        and 1: "compress_elems es visit L store view type (out_length st) True ?sta = Some st'"
      by (auto simp: helper_Statement)
    show ?thesis
      unfolding r
    proof (rule statement_walked_elems [OF Statement.prems(3) size(2) False refl])
      assume "placed L kind succ ?sta" and p: "points_to L type d (out_length st) True ?sta (out_length ?sta)"
      then show "elems_walked L store kind succ view es type d (out_length st) True ?sta st'"
        using Statement.IH [OF 1 False _ _ placedD(1) early_ok p] Statement.prems(2) by simp
    qed
  qed
next
  case (Cons_elem e es)
  from Cons_elem.prems(1) obtain j st1 where 1: "compress_elem e visit L store view type new first st = Some (j, st1)"
      and 2: "if es = [] then st' = st1 else is_circular type \<and> compress_elems es visit L store view type new False
          (change_cell j (set_next (next_pointer L type j (hd es) st1)) st1) = Some st'"
    by (auto simp: elems_Cons)
  have e: "elem_walked L store kind succ view e type d new first st j st1"
    by (rule Cons_elem.IH(1) [OF 1]) (use Cons_elem.prems in simp_all)
  show ?case
  proof (cases "es = []")
    case True
    with elems_walked_single [OF e Cons_elem.prems(5)] 2 show ?thesis
      by simp
  next
    case False
    let ?st1 = "change_cell j (set_next (next_pointer L type j (hd es) st1)) st1"
    from 2 False have 3: "compress_elems es visit L store view type new False ?st1 = Some st'"
      by simp
    have linked: "linked succ es"
      by (rule linked_tail [OF Cons_elem.prems(4)])
    show ?thesis
    proof (rule elems_walked_Cons [OF e, where A = A, OF _ _ Cons_elem.prems(4) False Cons_elem.prems(5) refl])
      fix b assume "hd es = Shared b"
      then obtain es' where "es = Shared b # es'"
        using False by (cases es) auto
      with 3 have "compress_elem (Shared b) visit L store view type new False ?st1 \<noteq> None"
        by (auto simp: elems_Cons)
      moreover have "out ?st1 \<noteq> None"
        using e baseD(1) [OF placedD(1)] by (auto simp: elem_walked_def finished_def)
      ultimately show "bin_defn_offset st1 b \<noteq> Initial"
        by (auto simp: compress_shared_def split: if_splits)
    next
      assume "base kind ?st1" "next_ok L succ (early (hd es) ?st1) ?st1"
      then show "elems_walked L store kind succ view es type d new False ?st1 st'"
        using Cons_elem.IH(2) [OF 3 False _ linked] Cons_elem.prems(3) by (simp add: points_to_def)
    qed (use Cons_elem.prems(3) in simp_all)
  qed
next
  case (Struct c ms t)
  have st: "placed L kind succ st"
    using Struct.prems(3,4) by (simp add: placed_def)
  show ?case
    by (rule struct_walked [OF Struct.prems(1,2) size(1) Struct.IH st Struct.prems(5)]) (use Struct.prems(2) in simp_all)
next
  case (Shared a)
  then show ?case
    using shared_walked [OF V size(1)] by simp
next
  case (Cons_stmt m ms)
  from Cons_stmt.prems(1) obtain r st1 where 1: "compress_statement_helper m visit L store view st = Some (r, st1)"
      and 2: "compress_members ms visit L store view type new (tl names) (change_cell new (set_member (hd names)
         (case r of None \<Rightarrow> NULLP | Some i \<Rightarrow> A2R (new + member_at L type (hd names)) i)) st1) = Some st'"
    by (auto simp: members_Cons)
  from Cons_stmt.prems(5) obtain name names' where names: "names = name # names'"
    by (cases names) auto
  have m: "statement_walked L store kind succ view m r st st1"
    by (rule Cons_stmt.IH(1) [OF 1]) (use Cons_stmt.prems in simp_all)
  show ?case
    unfolding names
  proof (rule members_walked_Cons [OF m Cons_stmt.prems(3,4) _ refl])
    fix c' sh' ps' nx'
    assume "placed L kind succ (change_cell new (set_member name (case r of None \<Rightarrow> NULLP | Some i \<Rightarrow> A2R (new + member_at L type name) i)) st1)"
      "cell_at (change_cell new (set_member name (case r of None \<Rightarrow> NULLP | Some i \<Rightarrow> A2R (new + member_at L type name) i)) st1) new
        = Some (Struct_cell type c' sh' ps' nx')"
    from Cons_stmt.IH(2) [OF 2 [unfolded names list.sel] _ this] Cons_stmt.prems(2,5,6)
    show "members_walked L store kind succ view ms type new names'
        (change_cell new (set_member name (case r of None \<Rightarrow> NULLP | Some i \<Rightarrow> A2R (new + member_at L type name) i)) st1) st'"
      by (simp add: names)
  qed (use Cons_stmt.prems(6) names in simp)
qed (auto intro: members_walked_Nil)

lemma structures_work:
  fixes store :: "'d store"
  assumes size: "\<And>type. 0 < sizeof L type" "0 < sizeof_SqlStatement L" and store: "store_fits store A kind succ"
  shows "visit_works L store A kind succ view (compress_structure n L store view)"
proof (induction n)
  case (Suc n)
  show ?case
    unfolding visit_works_def
  proof (intro allI impI)
    fix a i and st st' :: "'d compress_state"
    assume a: "a \<in> A" and C: "compress_structure (Suc n) L store view (kind a) a i st = Some st'" and st: "placed L kind succ st"
      and i: "bin_defn_offset st a = Offset i"
    then obtain names where names: "compressed_members (kind a) (fst (store a)) = Some names" "length names = length (snd (store a))"
        and 1: "compress_members (snd (store a)) (compress_structure n L store view) L store view (kind a) i names st = Some st'"
      by (auto split: bind_splits if_splits)
    obtain c ps nx where cell: "cell_at st i = Some (Struct_cell (kind a) c True ps nx)"
      using baseD(3) [OF placedD(1) [OF st] i] by blast
    have "all_fit (snd (store a)) A kind succ"
      using store a by (simp add: store_fits_def)
    from walk_represents(4) [OF Suc size 1 this st cell names(2) distinct_members [OF names(1)]]
    show "members_walked L store kind succ view (snd (store a)) (kind a) i (the (compressed_members (kind a) (fst (store a)))) st st'"
      by (simp add: names(1))
  qed
qed (simp add: visit_works_def)

lemma initial_kept: "kept_by_steps L (\<lambda>st. out st \<noteq> None \<and> bin_defn_offset st a = Initial)"
  by (auto simp: kept_by_steps_def)

lemma compress_statement_represents:
  fixes store :: "'d store"
  assumes "fits stmt A kind succ" and "store_fits store A kind succ" and "finite A" and "card A \<le> n"
    and "\<forall>a. offsets a = Initial" and "\<not> null_stmt stmt" and size: "0 < sizeof_SqlStatement L" "\<And>type. 0 < sizeof L type"
  obtains b st F G where "compress_statement n L store stmt view offsets = Some (b, out_length st, st)" and "out st = Some b"
    and "represents stmt L view st (Some 0) F" and "apart L store kind view st (\<lambda>a j. bin_defn_offset st a = Offset j) {..<out_length st} F G"
    and "placed L kind succ st"
proof -
  have "\<forall>a. offsets a \<noteq> MAX_BIN_DEFN_OFFSET"
    using assms(5) by simp
  from compress_statement_passes [OF assms(1-4) this assms(6) size(1), of view] obtain b st0 r st
    where C: "compress_statement n L store stmt view offsets = Some (b, out_length st, st)" "out st = Some b"
      and start: "out st0 = Some Map.empty" "out_length st0 = 0" "\<forall>a j. bin_defn_offset st0 a \<noteq> Offset j"
      and 2: "compress_statement_helper stmt (compress_structure n L store view) L store view st0 = Some (r, st)"
    using assms(5) by (metis (no_types, lifting))
  have "placed L kind succ st0"
    using start by (simp add: placed_def base_def next_ok_def cell_at_def)
  from walk_represents(1) [OF structures_work [OF size(2,1) assms(2)] size(2,1) 2 assms(1) this]
  have "statement_walked L store kind succ view stmt r st0 st" .
  note f = finishedD [OF this [unfolded statement_walked_def]]
  obtain F G where now: "represents stmt L view st r F" "apart L store kind view st (first_met st0 st) {out_length st0..<out_length st} F G"
    using f(4) [OF f(1)] unfolding stored_def by auto
  have "r = Some 0"
    using 2 assms(6) start(1,2) by (cases stmt) (auto simp: helper_Statement null_stmt_def)
  moreover have "first_met st0 st a j \<longleftrightarrow> bin_defn_offset st a = Offset j" for a j
  proof (cases "bin_defn_offset st0 a")
    case Initial
    have "bin_defn_offset st a = Initial"
      using walk_keeps(1) [OF initial_kept structures_keep [OF initial_kept] 2, of a] start(1) Initial by simp
    with Initial show ?thesis
      by (simp add: first_met_def)
  qed (use start(3) in \<open>simp_all add: first_met_def\<close>)
  then have "first_met st0 st = (\<lambda>a j. bin_defn_offset st a = Offset j)"
    by blast
  moreover have "{out_length st0..<out_length st} = {..<out_length st}"
    using start(2) by auto
  ultimately show thesis
    using that [OF C] now f(1) by simp
qed

section \<open>Properties\<close>

text \<open>C23: The buffer represents the statement: at its beginning is the statement, every pointer is relative and leads to what it pointed to in
  the parse tree, and each table, column or alias that several statements point to is stored once, with all its members and apart from
  the others.\<close>

theorem buffer_represents_statement:
  assumes "fits stmt A kind succ" and "store_fits store A kind succ" and "finite A" and "card A \<le> n"
    and "\<forall>a. offsets a = Initial" and "\<not> null_stmt stmt" and "0 < sizeof_SqlStatement L" and "\<forall>type. 0 < sizeof L type"
  shows "\<exists>b len st F G. compress_statement n L store stmt view offsets = Some (b, len, st) \<and> out st = Some b
    \<and> represents stmt L view st (Some 0) F
    \<and> (\<forall>a j. bin_defn_offset st a = Offset j \<longrightarrow> represents_shared L store kind view st a j (G a) \<and> F \<inter> G a = {}
        \<and> (\<forall>a' j'. bin_defn_offset st a' = Offset j' \<longrightarrow> a \<noteq> a' \<longrightarrow> G a \<inter> G a' = {}))"
proof -
  from assms(8) have "\<And>type. 0 < sizeof L type"
    by simp
  from compress_statement_represents [OF assms(1-7) this, of view] obtain b st F G
    where C: "compress_statement n L store stmt view offsets = Some (b, out_length st, st)" "out st = Some b" "represents stmt L view st (Some 0) F"
      and A: "apart L store kind view st (\<lambda>a j. bin_defn_offset st a = Offset j) {..<out_length st} F G"
    by metis
  show ?thesis
    using C apartD(2,4,5) [OF A] by (intro exI [of _ b] exI [of _ "out_length st"] exI [of _ st] exI [of _ F] exI [of _ G]) auto
qed

theorem buffer_represents_statement_witness:
  "\<exists>b len st F G. compress_statement 3 sample_layout sample_store sample_table True (\<lambda>_. Initial) = Some (b, len, st) \<and> out st = Some b
    \<and> represents sample_table sample_layout True st (Some 0) F
    \<and> (\<forall>a j. bin_defn_offset st a = Offset j \<longrightarrow> represents_shared sample_layout sample_store sample_kind True st a j (G a) \<and> F \<inter> G a = {}
        \<and> (\<forall>a' j'. bin_defn_offset st a' = Offset j' \<longrightarrow> a \<noteq> a' \<longrightarrow> G a \<inter> G a' = {}))"
  by (rule buffer_represents_statement [OF sample_fits(1,2,4,3) _ sample_fits(5,6)]) (simp_all add: sample_fits)

end
