(* ===== verification/Decompress.thy ===== *)
theory Decompress
  imports BinaryContents
begin

text \<open>
  \<open>decompress_statement.c\<close>: the buffer of \<open>compress_statement\<close> becomes a parse tree again, in place. Pointers are made absolute, the elements of
  lists are linked in circles, and table aliases get new numbers. The walk follows pointers, so it is a partial function; that it returns
  is shown in theory \<open>StatementRoundtrip\<close>. What is read from a structure that the type of its statement does not announce is \<open>None\<close>.
\<close>

section \<open>The program\<close>

text \<open>
  The buffer, where it is in memory: an address is a place of the buffer, an absolute pointer to one is \<open>Abs\<close>. \<open>prev\<close>, the \<open>delim\<close> of
  columns, the \<open>unique_id\<close> of table aliases and the \<open>max_unique_id\<close> of joins are members that are set; \<open>plan_id\<close> is that of \<open>config\<close>.
\<close>

record 'd decompress_state =
  cells :: "nat \<Rightarrow> 'd cell option"
  prev :: "nat \<Rightarrow> nat option"
  delim :: "nat \<Rightarrow> ptr"
  unique_id :: "nat \<Rightarrow> int"
  max_unique_id :: "nat \<Rightarrow> int"
  plan_id :: int

text \<open>A pointer that is not relative is not a place of the buffer after \<open>R2A\<close>.\<close>

definition R2A :: "nat \<Rightarrow> ptr \<Rightarrow> nat option" where
  "R2A field p = (case p of Rel d \<Rightarrow> (if 0 \<le> int field + d then Some (nat (int field + d)) else None) | _ \<Rightarrow> None)"

definition set_cell :: "nat \<Rightarrow> ('d cell \<Rightarrow> 'd cell) \<Rightarrow> 'd decompress_state \<Rightarrow> 'd decompress_state" where
  "set_cell i f D = D\<lparr>cells := (cells D)(i := map_option f (cells D i))\<rparr>"

definition pointer :: "'d decompress_state \<Rightarrow> nat \<Rightarrow> string \<Rightarrow> ptr option" where
  "pointer D i m = (case cells D i of Some (Struct_cell _ _ _ ps _) \<Rightarrow> Some (ps m) | _ \<Rightarrow> None)"

fun clear_bin_defn_offset :: "'d cell \<Rightarrow> 'd cell" where
  "clear_bin_defn_offset (Struct_cell type c _ ps next) = Struct_cell type c False ps next"
| "clear_bin_defn_offset c = c"

text \<open>What the \<open>v\<close> of a statement of a given type points to, which must be a structure of that type.\<close>

definition unpack :: "'d decompress_state \<Rightarrow> SqlStatementType \<Rightarrow> nat \<Rightarrow> nat option" where
  "unpack D type i =
     (case cells D i of
        Some (Stmt_cell type' _ (Abs j)) \<Rightarrow>
          (case cells D j of Some (Struct_cell type'' _ _ _ _) \<Rightarrow> (if type' = type \<and> type'' = type then Some j else None) | _ \<Rightarrow> None)
      | _ \<Rightarrow> None)"

definition statement_at :: "'d decompress_state \<Rightarrow> nat \<Rightarrow> string \<Rightarrow> nat option" where
  "statement_at D i m = (case pointer D i m of Some (Abs j) \<Rightarrow> Some j | _ \<Rightarrow> None)"

text \<open>The members that \<open>CALL_DECOMPRESS_HELPER\<close> is applied to, in order; \<open>None\<close> is \<open>FATAL\<close>.\<close>

definition decompressed_members :: "SqlStatementType \<Rightarrow> 'd contents \<Rightarrow> string list option" where
  "decompressed_members type c =
     (case type of
        create_table_STATEMENT \<Rightarrow> Some [''tableName'', ''source'', ''columns'', ''delim'', ''aim_type'']
      | create_view_STATEMENT \<Rightarrow> Some [''viewName'', ''src_table_alias_stmt'']
      | table_alias_STATEMENT \<Rightarrow> Some [''table'', ''alias'', ''parent_table_alias'', ''column_list'', ''correlation_specification'',
          ''table_asterisk_column_alias'']
      | select_STATEMENT \<Rightarrow> Some [''table_list'', ''where_expression'', ''select_list'', ''group_by_expression'', ''having_expression'',
          ''order_by_expression'', ''optional_words'']
      | join_STATEMENT \<Rightarrow> Some [''value'', ''condition'']
      | column_list_alias_STATEMENT \<Rightarrow> Some [''column_list'', ''alias'', ''keywords'', ''outer_query_column_alias'']
      | column_alias_STATEMENT \<Rightarrow> Some [''column'', ''table_alias_stmt'', ''set_oper_stmt'']
      | aggregate_function_STATEMENT \<Rightarrow> Some [''parameter'', ''table_alias_stmt'']
      | set_operation_STATEMENT \<Rightarrow> Some [''operand[0]'', ''operand[1]'', ''col_type_list_stmt'']
      | row_value_STATEMENT \<Rightarrow> Some [''value_list'']
      | table_value_STATEMENT \<Rightarrow> Some [''row_value_stmt'', ''column_stmt'']
      | create_function_STATEMENT \<Rightarrow> Some [''function_name'', ''parameter_type_list'', ''return_type'', ''extrinsic_function'', ''function_hash'']
      | parameter_type_list_STATEMENT \<Rightarrow> Some [''data_type_struct'']
      | value_STATEMENT \<Rightarrow>
          (case c of
             Value value \<Rightarrow>
               (if value_type value = CALCULATED_VALUE \<or> value_type value = COERCE_TYPE then Some [''v'']
                else if is_literal (value_type value) then Some []
                else None)
           | _ \<Rightarrow> None)
      | column_STATEMENT \<Rightarrow> Some [''table'', ''columnName'', ''keywords'']
      | keyword_STATEMENT \<Rightarrow> Some [''v'']
      | constraint_STATEMENT \<Rightarrow>
          (case c of
             Keyword type _ \<Rightarrow> Some ([''name'', ''definition''] @ (if type = OPTIONAL_CHECK_CONSTRAINT then [''v'']
               else if type = UNIQUE_CONSTRAINT then [''v''] else []))
           | _ \<Rightarrow> None)
      | unary_STATEMENT \<Rightarrow> Some [''operand'']
      | binary_STATEMENT \<Rightarrow> Some [''operands[0]'', ''operands[1]'']
      | function_call_STATEMENT \<Rightarrow> Some [''function_name'', ''function_schema'', ''parameters'']
      | coalesce_STATEMENT \<Rightarrow> Some [''arguments'']
      | greatest_STATEMENT \<Rightarrow> Some [''arguments'']
      | least_STATEMENT \<Rightarrow> Some [''arguments'']
      | null_if_STATEMENT \<Rightarrow> Some [''left'', ''right'']
      | column_list_STATEMENT \<Rightarrow> Some [''value'']
      | cas_STATEMENT \<Rightarrow> Some [''value'', ''branches'', ''optional_else'']
      | cas_branch_STATEMENT \<Rightarrow> Some [''condition'', ''value'']
      | array_STATEMENT \<Rightarrow> Some [''argument'']
      | _ \<Rightarrow> None)"

text \<open>The text of a literal.\<close>

definition decompress_text :: "layout \<Rightarrow> nat \<Rightarrow> 'd contents \<Rightarrow> 'd decompress_state \<Rightarrow> 'd decompress_state option" where
  "decompress_text L cur c D =
     (case c of
        Value value \<Rightarrow>
          (if \<not> is_literal (value_type value) then Some D
           else do {
             p \<leftarrow> pointer D cur ''v'';
             k \<leftarrow> R2A (cur + member_at L value_STATEMENT ''v'') p;
             Some (set_cell cur (set_member ''v'' (Abs k)) D)
           })
      | _ \<Rightarrow> Some D)"

partial_function (option) get_keyword_from_keywords :: "'d decompress_state \<Rightarrow> nat \<Rightarrow> nat \<Rightarrow> OptionalKeyword \<Rightarrow> nat option option" where
  "get_keyword_from_keywords D start cur keyword =
     (case cells D cur of
        Some (Struct_cell _ (Keyword keyword' _) _ _ (Abs next)) \<Rightarrow>
          (if keyword' = keyword then Some (Some cur)
           else if next = start then Some None
           else get_keyword_from_keywords D start next keyword)
      | _ \<Rightarrow> None)"

definition get_keyword :: "'d decompress_state \<Rightarrow> nat \<Rightarrow> OptionalKeyword \<Rightarrow> nat option option" where
  "get_keyword D column keyword =
     (case pointer D column ''keywords'' of
        Some NULLP \<Rightarrow> Some None
      | Some (Abs i) \<Rightarrow> do { start \<leftarrow> unpack D keyword_STATEMENT i; get_keyword_from_keywords D start start keyword }
      | _ \<Rightarrow> None)"

definition set_delim :: "nat \<Rightarrow> 'd decompress_state \<Rightarrow> 'd decompress_state option" where
  "set_delim column D = do {
     cur_keyword \<leftarrow> get_keyword D column OPTIONAL_DELIM;
     p \<leftarrow> (case cur_keyword of None \<Rightarrow> Some NULLP | Some k \<Rightarrow> pointer D k ''v'');
     Some (D\<lparr>delim := (delim D)(column := p)\<rparr>)
   }"

text \<open>The next element of a circular list: the last one is linked to the first.\<close>

definition link_next :: "layout \<Rightarrow> SqlStatementType \<Rightarrow> nat \<Rightarrow> nat \<Rightarrow> 'd decompress_state \<Rightarrow> (nat \<times> 'd decompress_state) option" where
  "link_next L type start cur D =
     (case cells D cur of
        Some (Struct_cell _ _ _ _ p) \<Rightarrow> do {
          next \<leftarrow> (if p = NULLP then Some start else R2A (cur + next_at L type) p);
          Some (next, set_cell cur (set_next (Abs next)) D\<lparr>prev := (prev D)(next \<mapsto> cur)\<rparr>)
        }
      | _ \<Rightarrow> None)"

text \<open>
  After a list of joins, the \<open>max_unique_id\<close> of the first one. The right operand of a set operation is taken to be a table alias; where it is a set operation
  itself, the bytes of its pointers are read in place of the \<open>unique_id\<close>.
\<close>

definition read_unique_id :: "layout \<Rightarrow> 'd decompress_state \<Rightarrow> nat \<Rightarrow> int option" where
  "read_unique_id L D i =
     (case cells D i of
        Some (Stmt_cell _ _ (Abs j)) \<Rightarrow>
          (case cells D j of
             Some (Struct_cell type _ _ ps _) \<Rightarrow>
               (if type = table_alias_STATEMENT then Some (unique_id D j)
                else if type = set_operation_STATEMENT then
                  Some (unique_id_of_set_operation L (ps ''operand[0]'') (ps ''operand[1]'') (ps ''col_type_list_stmt''))
                else None)
           | _ \<Rightarrow> None)
      | _ \<Rightarrow> None)"

definition set_max_unique_id :: "layout \<Rightarrow> nat \<Rightarrow> 'd decompress_state \<Rightarrow> 'd decompress_state option" where
  "set_max_unique_id L start_join D = do {
     i \<leftarrow> statement_at D start_join ''value'';
     unique_id \<leftarrow>
       (case cells D i of
          Some (Stmt_cell type _ _) \<Rightarrow>
            (if type = table_alias_STATEMENT then read_unique_id L D i
             else do {
               set_operation \<leftarrow> unpack D set_operation_STATEMENT i;
               operand \<leftarrow> statement_at D set_operation ''operand[1]'';
               read_unique_id L D operand
             })
        | _ \<Rightarrow> None);
     Some (D\<lparr>max_unique_id := (max_unique_id D)(start_join := unique_id + 1)\<rparr>)
   }"

text \<open>What is done with a structure after its members.\<close>

definition after_members :: "layout \<Rightarrow> SqlStatementType \<Rightarrow> nat \<Rightarrow> 'd contents \<Rightarrow> 'd decompress_state \<Rightarrow> 'd decompress_state option" where
  "after_members L type cur c D =
     (if type = value_STATEMENT then decompress_text L cur c D
      else if type = table_alias_STATEMENT then Some (D\<lparr>unique_id := (unique_id D)(cur := plan_id D), plan_id := plan_id D + 1\<rparr>)
      else if type = column_STATEMENT then set_delim cur D
      else Some D)"

text \<open>
  \<open>decompress_statement_helper\<close>: a statement; the elements of a list, from one on, or the only structure; the members of a structure. The
  structures of a type that is shared are passed over once their \<open>bin_defn_offset\<close> is cleared. The next element of a list is set after
  the members, also in lists of parameter types, where the code does it before them: they do not refer to it.
\<close>

datatype task = Helper nat | Elements SqlStatementType nat nat | Members SqlStatementType nat "string list"

partial_function (option) decompress_task :: "layout \<Rightarrow> task \<Rightarrow> 'd decompress_state \<Rightarrow> 'd decompress_state option" where
  "decompress_task L task D =
     (case task of
        Helper i \<Rightarrow>
          (case cells D i of
             Some (Type_cell _ _) \<Rightarrow> Some D
           | Some (Stmt_cell type _ p) \<Rightarrow>
               if p = NULLP then Some D
               else do {
                 j \<leftarrow> R2A (i + v_at L) p;
                 D \<leftarrow> decompress_task L (Elements type j j) (set_cell i (set_v (Abs j)) D);
                 if type = join_STATEMENT then set_max_unique_id L j D else Some D
               }
           | _ \<Rightarrow> None)
      | Elements type start cur \<Rightarrow>
          (case cells D cur of
             Some (Struct_cell type' c has_bin_defn_offset _ _) \<Rightarrow>
               if type' \<noteq> type then None
               else if is_shared type \<and> \<not> has_bin_defn_offset then Some D
               else do {
                 names \<leftarrow> decompressed_members type c;
                 D \<leftarrow> decompress_task L (Members type cur names) (if is_shared type then set_cell cur clear_bin_defn_offset D else D);
                 D \<leftarrow> after_members L type cur c D;
                 if \<not> is_circular type then Some D
                 else do {
                   (next, D) \<leftarrow> link_next L type start cur D;
                   if next = start then Some D else decompress_task L (Elements type start next) D
                 }
               }
           | _ \<Rightarrow> None)
      | Members type cur [] \<Rightarrow> Some D
      | Members type cur (name # names) \<Rightarrow> do {
          p \<leftarrow> pointer D cur name;
          D \<leftarrow> (if p = NULLP then Some D
             else do {
               j \<leftarrow> R2A (cur + member_at L type name) p;
               decompress_task L (Helper j) (set_cell cur (set_member name (Abs j)) D)
             });
          decompress_task L (Members type cur names) D
        })"

declare get_keyword_from_keywords.simps [code] decompress_task.simps [code]

definition loaded :: "(nat \<Rightarrow> 'd cell option) \<Rightarrow> (nat \<Rightarrow> int) \<Rightarrow> (nat \<Rightarrow> int) \<Rightarrow> int \<Rightarrow> 'd decompress_state" where
  "loaded buffer unique_ids max_unique_ids plan =
     \<lparr>cells = buffer, prev = Map.empty, delim = \<lambda>_. Raw, unique_id = unique_ids, max_unique_id = max_unique_ids, plan_id = plan\<rparr>"

definition decompress_statement :: "layout \<Rightarrow> (nat \<Rightarrow> 'd cell option) \<Rightarrow> (nat \<Rightarrow> int) \<Rightarrow> (nat \<Rightarrow> int) \<Rightarrow> int \<Rightarrow> 'd decompress_state option" where
  "decompress_statement L buffer unique_ids max_unique_ids plan = decompress_task L (Helper 0) (loaded buffer unique_ids max_unique_ids plan)"

section \<open>Single steps\<close>

lemma loaded_simps [simp]:
  "cells (loaded b us ms p) = b" "unique_id (loaded b us ms p) = us" "plan_id (loaded b us ms p) = p"
  by (simp_all add: loaded_def)

lemma R2A_A2R [simp]: "R2A field (A2R field target) = Some target"
  by (simp add: R2A_def A2R_def)

lemma A2R_neq [simp]: "A2R field target \<noteq> NULLP"
  by (simp add: A2R_def)

text \<open>Decompression treats the same members as compression, in the same order.\<close>

lemma same_members: "decompressed_members type c = compressed_members type c"
  unfolding decompressed_members_def compressed_members_def ..

lemma task_Helper:
  "decompress_task L (Helper i) D =
     (case cells D i of
        Some (Type_cell _ _) \<Rightarrow> Some D
      | Some (Stmt_cell type _ p) \<Rightarrow>
          if p = NULLP then Some D
          else do {
            j \<leftarrow> R2A (i + v_at L) p;
            D \<leftarrow> decompress_task L (Elements type j j) (set_cell i (set_v (Abs j)) D);
            if type = join_STATEMENT then set_max_unique_id L j D else Some D
          }
      | _ \<Rightarrow> None)"
  by (subst decompress_task.simps) simp

lemma task_Elements:
  "decompress_task L (Elements type start cur) D =
     (case cells D cur of
        Some (Struct_cell type' c has_bin_defn_offset _ _) \<Rightarrow>
          if type' \<noteq> type then None
          else if is_shared type \<and> \<not> has_bin_defn_offset then Some D
          else do {
            names \<leftarrow> compressed_members type c;
            D \<leftarrow> decompress_task L (Members type cur names) (if is_shared type then set_cell cur clear_bin_defn_offset D else D);
            D \<leftarrow> after_members L type cur c D;
            if \<not> is_circular type then Some D
            else do {
              (next, D) \<leftarrow> link_next L type start cur D;
              if next = start then Some D else decompress_task L (Elements type start next) D
            }
          }
      | _ \<Rightarrow> None)"
  by (subst decompress_task.simps) (simp only: task.case same_members)

lemma task_Members:
  "decompress_task L (Members type cur []) D = Some D"
  "decompress_task L (Members type cur (name # names)) D = do {
     p \<leftarrow> pointer D cur name;
     D \<leftarrow> (if p = NULLP then Some D
        else do {
          j \<leftarrow> R2A (cur + member_at L type name) p;
          decompress_task L (Helper j) (set_cell cur (set_member name (Abs j)) D)
        });
     decompress_task L (Members type cur names) D
   }"
  by (subst decompress_task.simps, simp)+

lemma cells_set_cell [simp]:
  "cells (set_cell i f D) k = (if k = i then map_option f (cells D k) else cells D k)" "prev (set_cell i f D) = prev D"
  by (simp_all add: set_cell_def)

section \<open>New numbers for table aliases\<close>

text \<open>
  What may become of the cells, and the table aliases whose \<open>bin_defn_offset\<close> was cleared: each got a number of its own, from \<open>plan_id\<close> on.
\<close>

fun form :: "'d cell option \<Rightarrow> (SqlStatementType \<times> 'd contents) option" where
  "form (Some (Struct_cell type c _ _ _)) = Some (type, c)"
| "form _ = None"

fun has_bin_defn_offset :: "'d cell option \<Rightarrow> bool" where
  "has_bin_defn_offset (Some (Struct_cell _ _ sh _ _)) \<longleftrightarrow> sh"
| "has_bin_defn_offset _ \<longleftrightarrow> False"

definition cells_kept :: "'d decompress_state \<Rightarrow> 'd decompress_state \<Rightarrow> bool" where
  "cells_kept D D' \<longleftrightarrow> (\<forall>j. form (cells D' j) = form (cells D j) \<and> (has_bin_defn_offset (cells D' j) \<longrightarrow> has_bin_defn_offset (cells D j)))"

definition cleared :: "'d decompress_state \<Rightarrow> 'd decompress_state \<Rightarrow> nat set" where
  "cleared D D' = {j. \<exists>c. form (cells D j) = Some (table_alias_STATEMENT, c) \<and> has_bin_defn_offset (cells D j) \<and> \<not> has_bin_defn_offset (cells D' j)}"

definition numbered :: "'d decompress_state \<Rightarrow> 'd decompress_state \<Rightarrow> bool" where
  "numbered D D' \<longleftrightarrow> cells_kept D D' \<and> plan_id D \<le> plan_id D' \<and> inj_on (unique_id D') (cleared D D')
     \<and> unique_id D' ` cleared D D' \<subseteq> {plan_id D..<plan_id D'} \<and> (\<forall>j. j \<notin> cleared D D' \<longrightarrow> unique_id D' j = unique_id D j)"

lemma cleared_trans:
  assumes "cells_kept D1 D2" and "cells_kept D2 D3"
  shows "cells_kept D1 D3" and "cleared D1 D3 = cleared D1 D2 \<union> cleared D2 D3" and "cleared D1 D2 \<inter> cleared D2 D3 = {}"
  using assms by (auto simp: cells_kept_def cleared_def)

lemma numbered_trans:
  assumes "numbered D1 D2" and "numbered D2 D3"
  shows "numbered D1 D3"
proof -
  have kept: "cells_kept D1 D2" "cells_kept D2 D3"
    using assms by (simp_all add: numbered_def)
  note c = cleared_trans [OF kept]
  have same: "unique_id D3 j = unique_id D2 j" if "j \<in> cleared D1 D2" for j
    using assms(2) c(3) that by (auto simp: numbered_def)
  have 1: "unique_id D3 j \<in> {plan_id D1..<plan_id D2}" if "j \<in> cleared D1 D2" for j
    using assms(1) that same [OF that] by (auto simp: numbered_def)
  have 2: "unique_id D3 j \<in> {plan_id D2..<plan_id D3}" if "j \<in> cleared D2 D3" for j
    using assms(2) that by (auto simp: numbered_def)
  have plan: "plan_id D1 \<le> plan_id D2" "plan_id D2 \<le> plan_id D3"
    using assms by (simp_all add: numbered_def)
  have inj1: "inj_on (unique_id D3) (cleared D1 D2)" if "inj_on (unique_id D2) (cleared D1 D2)"
    using that same by (simp add: inj_on_def)
  have "inj_on (unique_id D3) (cleared D1 D2 \<union> cleared D2 D3)"
    unfolding inj_on_Un using inj1 assms 1 2 by (fastforce simp: numbered_def)
  moreover have "unique_id D3 ` (cleared D1 D2 \<union> cleared D2 D3) \<subseteq> {plan_id D1..<plan_id D3}"
    using 1 2 plan by fastforce
  moreover have "unique_id D3 j = unique_id D1 j" if "j \<notin> cleared D1 D2 \<union> cleared D2 D3" for j
    using assms that by (simp add: numbered_def)
  ultimately show ?thesis
    using c(1) plan unfolding numbered_def c(2) by auto
qed

text \<open>A step that clears no \<open>bin_defn_offset\<close> numbers nothing.\<close>

lemma numbered_set_cell:
  assumes "\<And>c. form (Some (f c)) = form (Some c)" and "\<And>c. has_bin_defn_offset (Some (f c)) = has_bin_defn_offset (Some c)"
    and "plan_id D' = plan_id D" and "unique_id D' = unique_id D" and "cells D' = cells (set_cell i f D)"
  shows "numbered D D'"
proof -
  have same: "form (cells D' j) = form (cells D j)" "has_bin_defn_offset (cells D' j) = has_bin_defn_offset (cells D j)" for j
  proof -
    have *: "cells D' j = (if j = i then map_option f (cells D j) else cells D j)"
      by (simp only: assms(5) cells_set_cell)
    show "form (cells D' j) = form (cells D j)"
      unfolding * using assms(1) by (cases "j = i"; cases "cells D j") simp_all
    show "has_bin_defn_offset (cells D' j) = has_bin_defn_offset (cells D j)"
      unfolding * using assms(2) by (cases "j = i"; cases "cells D j") simp_all
  qed
  then have "cleared D D' = {}" "cells_kept D D'"
    by (simp_all add: cleared_def cells_kept_def)
  with assms(3,4) show ?thesis
    by (simp add: numbered_def)
qed

lemma form_set [simp]:
  "form (Some (set_v p c)) = form (Some c)" "form (Some (set_member m p c)) = form (Some c)" "form (Some (set_next p c)) = form (Some c)"
  "form (Some (clear_bin_defn_offset c)) = form (Some c)"
  "has_bin_defn_offset (Some (set_v p c)) = has_bin_defn_offset (Some c)" "has_bin_defn_offset (Some (set_member m p c)) = has_bin_defn_offset (Some c)"
  "has_bin_defn_offset (Some (set_next p c)) = has_bin_defn_offset (Some c)" "\<not> has_bin_defn_offset (Some (clear_bin_defn_offset c))"
  by (cases c; simp)+

lemma set_cell_fields [simp]: "plan_id (set_cell i f D) = plan_id D" "unique_id (set_cell i f D) = unique_id D"
  by (simp_all add: set_cell_def)

lemma numbered_refl: "cells D' = cells D \<Longrightarrow> plan_id D' = plan_id D \<Longrightarrow> unique_id D' = unique_id D \<Longrightarrow> numbered D D'"
  by (simp add: numbered_def cells_kept_def cleared_def)

lemma set_delim_same: "set_delim j D = Some D' \<Longrightarrow> cells D' = cells D \<and> plan_id D' = plan_id D \<and> unique_id D' = unique_id D"
  by (auto simp: set_delim_def split: bind_splits)

lemma set_max_unique_id_same: "set_max_unique_id L j D = Some D' \<Longrightarrow> cells D' = cells D \<and> plan_id D' = plan_id D \<and> unique_id D' = unique_id D"
  by (auto simp: set_max_unique_id_def split: bind_splits)

lemma numbered_after_members:
  assumes "after_members L type j c D = Some D'" and "type \<noteq> table_alias_STATEMENT"
  shows "numbered D D'"
proof -
  have "numbered D D'" if t: "decompress_text L j c D = Some D'"
  proof (cases "D' = D")
    case False
    with t obtain k where "D' = set_cell j (set_member ''v'' (Abs k)) D"
      by (auto simp: decompress_text_def split: contents.splits if_splits bind_splits)
    then show ?thesis
      by (intro numbered_set_cell [where f = "set_member ''v'' (Abs k)"]) simp_all
  qed (simp add: numbered_refl)
  then show ?thesis
    using assms by (auto simp: after_members_def numbered_refl dest: set_delim_same split: if_splits)
qed

lemma numbered_link_next: "link_next L type start j D = Some (k, D') \<Longrightarrow> numbered D D'"
  by (rule numbered_set_cell [where i = j and f = "set_next (Abs k)"]) (auto simp: link_next_def split: option.splits cell.splits bind_splits)

text \<open>A shared structure: its \<open>bin_defn_offset\<close> is cleared first, and its number is set after its members.\<close>

lemma numbered_shared:
  assumes cell: "cells D j = Some (Struct_cell type c True ps nx)" and type: "is_shared type" and members: "numbered (set_cell j clear_bin_defn_offset D) D1"
    and after: "after_members L type j c D1 = Some D2"
  shows "numbered D D2"
proof -
  let ?D = "set_cell j clear_bin_defn_offset D"
  have kept: "cells_kept D ?D" "cells_kept ?D D1"
    using members cell by (auto simp: cells_kept_def numbered_def)
  have cl: "cleared D ?D = (if type = table_alias_STATEMENT then {j} else {})"
    using cell by (auto simp: cleared_def)
  note c = cleared_trans [OF kept]
  show ?thesis
  proof (cases "type = table_alias_STATEMENT")
    case True
    with after have D2: "D2 = D1\<lparr>unique_id := (unique_id D1)(j := plan_id D1), plan_id := plan_id D1 + 1\<rparr>"
      by (simp add: after_members_def)
    have "cells D2 = cells D1"
      by (simp add: D2)
    then have "cells_kept D D2" "cleared D D2 = insert j (cleared ?D D1)"
      using c(1,2) cl True by (simp_all add: cells_kept_def cleared_def)
    moreover have new: "j \<notin> cleared ?D D1"
      using c(3) cl True by simp
    moreover have plan: "plan_id D \<le> plan_id D1" "inj_on (unique_id D1) (cleared ?D D1)" "unique_id D1 ` cleared ?D D1 \<subseteq> {plan_id D..<plan_id D1}"
        "\<forall>k. k \<notin> cleared ?D D1 \<longrightarrow> unique_id D1 k = unique_id D k"
      using members by (simp_all add: numbered_def)
    moreover have "inj_on (unique_id D2) (insert j (cleared ?D D1))"
    proof -
      have "unique_id D2 k = unique_id D1 k" if "k \<in> cleared ?D D1" for k
        using that new by (auto simp: D2)
      then have "inj_on (unique_id D2) (cleared ?D D1)" "unique_id D2 ` cleared ?D D1 = unique_id D1 ` cleared ?D D1"
        using plan(2) by (simp_all add: inj_on_def)
      moreover have "unique_id D2 j \<notin> unique_id D1 ` cleared ?D D1"
        using plan(3) by (auto simp: D2)
      ultimately show ?thesis
        using new by simp
    qed
    moreover have "unique_id D2 ` insert j (cleared ?D D1) \<subseteq> {plan_id D..<plan_id D2}"
      using plan(1,3) by (auto simp: D2)
    ultimately show ?thesis
      by (simp add: numbered_def D2)
  next
    case False
    have "numbered D ?D"
      using kept(1) cl False by (simp add: numbered_def)
    from numbered_trans [OF numbered_trans [OF this members] numbered_after_members [OF after False]] show ?thesis .
  qed
qed

lemma decompress_task_numbers: "decompress_task L task D = Some D' \<Longrightarrow> numbered D D'"
proof (rule decompress_task.raw_induct [where P = "\<lambda>L task D D'. numbered D D'"], goal_cases)
  case (1 run L task D D')
  note IH = 1(2) and step = 1(3)
  show ?case
  proof (cases task)
    case (Helper i)
    then consider "D' = D" | type j D1 where "run L (Elements type j j) (set_cell i (set_v (Abs j)) D) = Some D1"
        "(if type = join_STATEMENT then set_max_unique_id L j D1 else Some D1) = Some D'"
      using step by (auto split: option.splits cell.splits if_splits bind_splits)
    then show ?thesis
    proof cases
      case 2
      have "numbered D (set_cell i (set_v (Abs j)) D)"
        by (rule numbered_set_cell [where i = i and f = "set_v (Abs j)"]) simp_all
      moreover have "numbered D1 D'"
        using 2(2) set_max_unique_id_same [of L j D1 D'] by (auto intro: numbered_refl split: if_splits)
      ultimately show ?thesis
        using numbered_trans IH [OF 2(1)] by blast
    qed (simp add: numbered_refl)
  next
    case (Elements type start cur)
    then consider "D' = D" | c sh ps nx names D1 D2 where "cells D cur = Some (Struct_cell type c sh ps nx)" "is_shared type \<Longrightarrow> sh"
        "run L (Members type cur names) (if is_shared type then set_cell cur clear_bin_defn_offset D else D) = Some D1"
        "after_members L type cur c D1 = Some D2" "\<not> is_circular type \<Longrightarrow> D' = D2"
        "is_circular type \<Longrightarrow> \<exists>k D3. link_next L type start cur D2 = Some (k, D3) \<and> (k = start \<and> D' = D3 \<or> run L (Elements type start k) D3 = Some D')"
      using step by (auto split: option.splits cell.splits if_splits bind_splits)
    then show ?thesis
    proof cases
      case 2
      have "numbered D D2"
      proof (cases "is_shared type")
        case True
        with 2(1-4) IH show ?thesis
          using numbered_shared by fastforce
      next
        case False
        then have "type \<noteq> table_alias_STATEMENT"
          by (auto simp: is_shared_def)
        with 2(3,4) False IH show ?thesis
          using numbered_trans numbered_after_members by fastforce
      qed
      moreover have "numbered D2 D'"
      proof (cases "is_circular type")
        case True
        from 2(6) [OF this] obtain k D3 where 3: "link_next L type start cur D2 = Some (k, D3)"
            "k = start \<and> D' = D3 \<or> run L (Elements type start k) D3 = Some D'"
          by blast
        from 3(2) show ?thesis
          using numbered_trans [OF numbered_link_next [OF 3(1)]] numbered_link_next [OF 3(1)] IH by blast
      qed (use 2(5) in \<open>simp add: numbered_refl\<close>)
      ultimately show ?thesis
        by (rule numbered_trans)
    qed (simp add: numbered_refl)
  next
    case (Members type cur names)
    show ?thesis
    proof (cases names)
      case Nil
      with step Members show ?thesis
        by (simp add: numbered_refl)
    next
      case (Cons name names')
      with step Members obtain D1 where D1: "D1 = D \<or> (\<exists>j. run L (Helper j) (set_cell cur (set_member name (Abs j)) D) = Some D1)"
          and 2: "run L (Members type cur names') D1 = Some D'"
        by (auto split: if_splits bind_splits)
      have "numbered D D1"
        using D1
      proof
        assume "\<exists>j. run L (Helper j) (set_cell cur (set_member name (Abs j)) D) = Some D1"
        then obtain j where j: "run L (Helper j) (set_cell cur (set_member name (Abs j)) D) = Some D1"
          by blast
        have "numbered D (set_cell cur (set_member name (Abs j)) D)"
          by (rule numbered_set_cell [where i = cur and f = "set_member name (Abs j)"]) simp_all
        then show ?thesis
          using numbered_trans IH [OF j] by blast
      qed (simp add: numbered_refl)
      then show ?thesis
        using numbered_trans IH [OF 2] by blast
    qed
  qed
qed

end
