(* ===== verification/StatementRoundtrip.thy ===== *)
theory StatementRoundtrip
  imports Decompress
begin

text \<open>
  That \<open>decompress_statement\<close> restores what \<open>compress_statement\<close> was given. \<open>restored\<close> is the statement in memory, with absolute pointers.
  A part of the walk (\<open>went\<close>) changes the places of the structures that it works on and those of the shared structures that it is the
  first to enter, which are restored afterwards; all else stays, so that the parts compose.
\<close>

section \<open>The statement in memory\<close>

definition has_text_at :: "'d decompress_state \<Rightarrow> nat \<Rightarrow> 'd contents \<Rightarrow> string option \<Rightarrow> bool" where
  "has_text_at D j c t \<longleftrightarrow>
     (case c of
        Value value \<Rightarrow> is_literal (value_type value) \<longrightarrow> (\<exists>k s. t = Some s \<and> pointer D j ''v'' = Some (Abs k) \<and> cells D k = Some (Text_cell s))
      | _ \<Rightarrow> True)"

text \<open>
  A statement is restored at a place when all pointers are absolute and lead to the structures that the parse tree had there. The
  elements of a list are linked in a circle, in both directions; for shared elements that is part of \<open>restored_shared\<close>. The
  statements and structures of its own are at the places \<open>F\<close>, shared ones are where \<open>at\<close> says, if they were seen.
\<close>

primrec restored :: "'d stmt \<Rightarrow> bool \<Rightarrow> (nat \<Rightarrow> bool) \<Rightarrow> (nat \<Rightarrow> offset) \<Rightarrow> 'd decompress_state \<Rightarrow> nat option \<Rightarrow> nat set \<Rightarrow> bool"
and restored_elems :: "'d elem list \<Rightarrow> bool \<Rightarrow> (nat \<Rightarrow> bool) \<Rightarrow> (nat \<Rightarrow> offset) \<Rightarrow> 'd decompress_state \<Rightarrow> SqlStatementType \<Rightarrow> nat \<Rightarrow> nat \<Rightarrow> nat set \<Rightarrow> bool"
and restored_elem :: "'d elem \<Rightarrow> bool \<Rightarrow> (nat \<Rightarrow> bool) \<Rightarrow> (nat \<Rightarrow> offset) \<Rightarrow> 'd decompress_state \<Rightarrow> SqlStatementType \<Rightarrow> nat \<Rightarrow> nat set \<Rightarrow> bool"
and restored_members :: "'d stmt list \<Rightarrow> bool \<Rightarrow> (nat \<Rightarrow> bool) \<Rightarrow> (nat \<Rightarrow> offset) \<Rightarrow> 'd decompress_state \<Rightarrow> nat \<Rightarrow> string list \<Rightarrow> nat set \<Rightarrow> bool" where
  "restored Null view seen at D r F \<longleftrightarrow> r = None"
| "restored (Data_type d t) view seen at D r F \<longleftrightarrow>
     (if null_data_type t then r = None else \<exists>i\<in>F. r = Some i \<and> cells D i = Some (Type_cell d t))"
| "restored (Statement type d es) view seen at D r F \<longleftrightarrow>
     (if es = [] then r = None
      else \<exists>i\<in>F. \<exists>j. r = Some i \<and> cells D i = Some (Stmt_cell type d (Abs j)) \<and> restored_elems es view seen at D type j j F)"
| "restored_elems [] view seen at D type start j F \<longleftrightarrow> True"
| "restored_elems (e # es) view seen at D type start j F \<longleftrightarrow> restored_elem e view seen at D type j F
     \<and> ((case e of Struct _ _ _ \<Rightarrow> is_circular type | Shared _ \<Rightarrow> False) \<longrightarrow>
          (\<exists>c ps k. cells D j = Some (Struct_cell type c False ps (Abs k)) \<and> k \<in> F \<and> prev D k = Some j
             \<and> (if es = [] then k = start else restored_elems es view seen at D type start k F)))"
| "restored_elem (Struct c ms t) view seen at D type j F \<longleftrightarrow> j \<in> F
     \<and> (\<exists>ps next. cells D j = Some (Struct_cell type (clear_indexes view c) False ps next)) \<and> has_text_at D j c t
     \<and> restored_members ms view seen at D j (the (compressed_members type c)) F"
| "restored_elem (Shared a) view seen at D type j F \<longleftrightarrow> at a = Offset j \<and> seen a"
| "restored_members [] view seen at D j names F \<longleftrightarrow> True"
| "restored_members (m # ms) view seen at D j names F \<longleftrightarrow>
     (\<exists>r. restored m view seen at D r F \<and> pointer D j (hd names) = Some (case r of None \<Rightarrow> NULLP | Some i \<Rightarrow> Abs i))
     \<and> restored_members ms view seen at D j (tl names) F"

definition restored_shared :: "(nat \<Rightarrow> SqlStatementType) \<Rightarrow> (nat \<Rightarrow> nat) \<Rightarrow> 'd store \<Rightarrow> bool \<Rightarrow> (nat \<Rightarrow> bool) \<Rightarrow> (nat \<Rightarrow> offset) \<Rightarrow> 'd decompress_state \<Rightarrow> nat
    \<Rightarrow> nat set \<Rightarrow> bool" where
  "restored_shared kind succ store view seen at D a F \<longleftrightarrow>
     (\<exists>j ps next. at a = Offset j \<and> cells D j = Some (Struct_cell (kind a) (fst (store a)) False ps next)
        \<and> restored_members (snd (store a)) view seen at D j (the (compressed_members (kind a) (fst (store a)))) (F - {j})
        \<and> (is_circular (kind a) \<longrightarrow> (\<exists>k. at (succ a) = Offset k \<and> next = Abs k \<and> prev D k = Some j \<and> seen (succ a))))"

section \<open>What decompression relies on\<close>

text \<open>
  Lists of shared structures are circles; the first table of a list of joins is a table alias, or a set operation whose right operand is a table
  alias or a set operation; the keywords of a column are a list of keywords.
\<close>

fun is_alias :: "'d stmt \<Rightarrow> bool" where
  "is_alias (Statement type _ (Shared _ # _)) \<longleftrightarrow> type = table_alias_STATEMENT"
| "is_alias _ = False"

fun is_set_operation :: "'d stmt \<Rightarrow> bool" where
  "is_set_operation (Statement type _ (Struct _ _ _ # _)) \<longleftrightarrow> type = set_operation_STATEMENT"
| "is_set_operation _ = False"

definition is_table :: "'d stmt \<Rightarrow> bool" where
  "is_table value \<longleftrightarrow> is_alias value \<or>
     (case value of
        Statement type _ (Struct _ [_, right, _] _ # _) \<Rightarrow> type = set_operation_STATEMENT \<and> (is_alias right \<or> is_set_operation right)
      | _ \<Rightarrow> False)"

fun is_circle :: "(nat \<Rightarrow> nat) \<Rightarrow> 'd elem list \<Rightarrow> bool" where
  "is_circle succ (Shared a # es) \<longleftrightarrow> (case last (Shared a # es) of Shared z \<Rightarrow> succ z = a | _ \<Rightarrow> False)"
| "is_circle succ _ = True"

primrec loads :: "'d stmt \<Rightarrow> (nat \<Rightarrow> nat) \<Rightarrow> bool"
and load_elems :: "'d elem list \<Rightarrow> (nat \<Rightarrow> nat) \<Rightarrow> bool"
and load_elem :: "'d elem \<Rightarrow> (nat \<Rightarrow> nat) \<Rightarrow> bool"
and all_load :: "'d stmt list \<Rightarrow> (nat \<Rightarrow> nat) \<Rightarrow> bool" where
  "loads Null succ = True"
| "loads (Data_type d t) succ = True"
| "loads (Statement type d es) succ \<longleftrightarrow> load_elems es succ \<and> (is_circular type \<longrightarrow> is_circle succ es)
     \<and> (type = join_STATEMENT \<longrightarrow> (case es of Struct _ (value # _) _ # _ \<Rightarrow> is_table value | _ \<Rightarrow> es = []))"
| "load_elems [] succ = True"
| "load_elems (e # es) succ \<longleftrightarrow> load_elem e succ \<and> load_elems es succ"
| "load_elem (Struct c ms t) succ \<longleftrightarrow> all_load ms succ"
| "load_elem (Shared a) succ = True"
| "all_load [] succ = True"
| "all_load (m # ms) succ \<longleftrightarrow> loads m succ \<and> all_load ms succ"

definition is_keyword :: "'d elem \<Rightarrow> bool" where
  "is_keyword e \<longleftrightarrow> (case e of Struct (Keyword _ _) _ _ \<Rightarrow> True | _ \<Rightarrow> False)"

definition is_keyword_list :: "'d stmt \<Rightarrow> bool" where
  "is_keyword_list s \<longleftrightarrow> (case s of Null \<Rightarrow> True | Statement type _ es \<Rightarrow> type = keyword_STATEMENT \<and> list_all is_keyword es | _ \<Rightarrow> False)"

definition store_loads :: "'d store \<Rightarrow> nat set \<Rightarrow> (nat \<Rightarrow> SqlStatementType) \<Rightarrow> (nat \<Rightarrow> nat) \<Rightarrow> bool" where
  "store_loads store A kind succ \<longleftrightarrow> inj_on succ A
     \<and> (\<forall>a\<in>A. all_load (snd (store a)) succ \<and> (kind a = column_STATEMENT \<longrightarrow> is_keyword_list (last (snd (store a)))))"

section \<open>Steps\<close>

text \<open>What is restored stays restored: the places \<open>F\<close> are not changed, texts are kept, and so is what was visited.\<close>

definition unchanged :: "nat set \<Rightarrow> 'd decompress_state \<Rightarrow> 'd decompress_state \<Rightarrow> bool" where
  "unchanged F D D' \<longleftrightarrow> (\<forall>i\<in>F. cells D' i = cells D i \<and> prev D' i = prev D i) \<and> (\<forall>i s. cells D i = Some (Text_cell s) \<longrightarrow> cells D' i = Some (Text_cell s))"

lemma unchangedD:
  assumes "unchanged F D D'"
  shows "i \<in> F \<Longrightarrow> cells D' i = cells D i" "i \<in> F \<Longrightarrow> prev D' i = prev D i" "cells D i = Some (Text_cell s) \<Longrightarrow> cells D' i = Some (Text_cell s)"
    "i \<in> F \<Longrightarrow> pointer D' i m = pointer D i m"
  using assms unfolding unchanged_def pointer_def by (blast, blast, blast, auto split: option.split)

lemma has_text_later: "has_text_at D j c t \<Longrightarrow> unchanged F D D' \<Longrightarrow> pointer D' j ''v'' = pointer D j ''v'' \<Longrightarrow> has_text_at D' j c t"
  using unchangedD(3) by (fastforce simp: has_text_at_def split: contents.splits)

lemma restored_later:
  assumes U: "unchanged F D D'" and V: "\<And>a. seen a \<Longrightarrow> seen' a"
  shows "restored s view seen at D r F \<Longrightarrow> restored s view seen' at D' r F"
    and "restored_elems es view seen at D type start j F \<Longrightarrow> restored_elems es view seen' at D' type start j F"
    and "restored_elem e view seen at D type j F \<Longrightarrow> restored_elem e view seen' at D' type j F"
    and "restored_members ms view seen at D j names F \<Longrightarrow>
      (\<And>m. (length names = length ms \<Longrightarrow> m \<in> set names) \<Longrightarrow> pointer D' j m = pointer D j m) \<Longrightarrow> restored_members ms view seen' at D' j names F"
proof (induction s and es and e and ms arbitrary: r and type start j and type j and j names
    rule: restored.induct restored_elems.induct restored_elem.induct restored_members.induct)
  case (Data_type d t)
  then show ?case
    using unchangedD(1) [OF U] by auto
next
  case (Statement type d es)
  then show ?case
    using unchangedD(1) [OF U] by fastforce
next
  case (Cons_elem e es)
  have j: "j \<in> F" if "case e of Struct _ _ _ \<Rightarrow> True | Shared _ \<Rightarrow> False"
    using Cons_elem.prems that by (cases e) auto
  have "\<exists>c ps k. cells D' j = Some (Struct_cell type c False ps (Abs k)) \<and> k \<in> F \<and> prev D' k = Some j
      \<and> (if es = [] then k = start else restored_elems es view seen' at D' type start k F)"
    if c: "case e of Struct _ _ _ \<Rightarrow> is_circular type | Shared _ \<Rightarrow> False"
  proof -
    have "j \<in> F"
      by (rule j) (use c in \<open>simp split: elem.splits\<close>)
    moreover obtain c ps k where "cells D j = Some (Struct_cell type c False ps (Abs k))" "k \<in> F" "prev D k = Some j"
        "if es = [] then k = start else restored_elems es view seen at D type start k F"
      using Cons_elem.prems c by auto
    ultimately show ?thesis
      using unchangedD(1,2) [OF U] Cons_elem.IH(2) by (intro exI [of _ c] exI [of _ ps] exI [of _ k]) simp
  qed
  then show ?case
    using Cons_elem.prems Cons_elem.IH(1) by simp
next
  case (Struct c ms t)
  then show ?case
    using unchangedD(1,4) [OF U] has_text_later [OF _ U] by auto
next
  case (Shared a)
  then show ?case
    using V by simp
next
  case (Cons_stmt m ms)
  have "pointer D' j (hd names) = pointer D j (hd names)"
    by (rule Cons_stmt.prems(2)) (cases names; simp)
  moreover have "restored_members ms view seen' at D' j (tl names) F"
    by (rule Cons_stmt.IH(2)) (use Cons_stmt.prems in \<open>cases names; auto\<close>)+
  ultimately show ?case
    using Cons_stmt.IH(1) Cons_stmt.prems(1) by auto
qed simp_all

lemma restored_mono:
  "restored s view seen at D r F \<Longrightarrow> F \<subseteq> F' \<Longrightarrow> restored s view seen at D r F'"
  "restored_elems es view seen at D type start j F \<Longrightarrow> F \<subseteq> F' \<Longrightarrow> restored_elems es view seen at D type start j F'"
  "restored_elem e view seen at D type j F \<Longrightarrow> F \<subseteq> F' \<Longrightarrow> restored_elem e view seen at D type j F'"
  "restored_members ms view seen at D j names F \<Longrightarrow> F \<subseteq> F' \<Longrightarrow> restored_members ms view seen at D j names F'"
proof (induction s and es and e and ms arbitrary: r and type start j and type j and j names
    rule: restored.induct restored_elems.induct restored_elem.induct restored_members.induct)
  case (Data_type d t)
  then show ?case
    by (cases "null_data_type t") (simp, simp, blast)
next
  case (Statement type d es)
  then show ?case
    by (cases "es = []") (simp, simp, blast)
next
  case (Cons_elem e es)
  then show ?case
    by (auto split: if_splits) blast+
next
  case (Cons_stmt m ms)
  then show ?case
    by simp blast
qed (auto split: if_splits)


text \<open>
  What is given to decompression: the buffer after the compression, in \<open>C\<close>, with the shared structures \<open>A\<close> and their places \<open>G\<close>.
\<close>

definition compressed :: "layout \<Rightarrow> 'd store \<Rightarrow> (nat \<Rightarrow> SqlStatementType) \<Rightarrow> (nat \<Rightarrow> nat) \<Rightarrow> bool \<Rightarrow> 'd compress_state \<Rightarrow> nat set \<Rightarrow> (nat \<Rightarrow> nat set)
    \<Rightarrow> nat set \<Rightarrow> bool" where
  "compressed L store kind succ view C A G A0 \<longleftrightarrow> placed L kind succ C \<and> A = {a \<in> A0. \<exists>j. bin_defn_offset C a = Offset j} \<and> finite A0
     \<and> (\<forall>a\<in>A. \<forall>j. bin_defn_offset C a = Offset j \<longrightarrow> represents_shared L store kind view C a j (G a))
     \<and> (\<forall>a\<in>A. \<forall>b\<in>A. a \<noteq> b \<longrightarrow> G a \<inter> G b = {})
     \<and> store_fits store A0 kind succ \<and> store_loads store A0 kind succ"

definition places :: "'d compress_state \<Rightarrow> nat set \<Rightarrow> nat set" where
  "places C A = {j. \<exists>a\<in>A. bin_defn_offset C a = Offset j}"

text \<open>
  A state of the decompression, where the shared structures \<open>X\<close> were entered: their \<open>bin_defn_offset\<close> is cleared, and the other ones are as in
  the buffer.
\<close>

definition visited :: "(nat \<Rightarrow> SqlStatementType) \<Rightarrow> 'd store \<Rightarrow> 'd compress_state \<Rightarrow> 'd decompress_state \<Rightarrow> nat \<Rightarrow> bool" where
  "visited kind store C D a \<longleftrightarrow>
     (\<exists>j ps next. bin_defn_offset C a = Offset j \<and> cells D j = Some (Struct_cell (kind a) (fst (store a)) False ps next))"

definition underway :: "(nat \<Rightarrow> SqlStatementType) \<Rightarrow> 'd store \<Rightarrow> 'd compress_state \<Rightarrow> (nat \<Rightarrow> nat set) \<Rightarrow> nat set \<Rightarrow> nat set \<Rightarrow> 'd decompress_state \<Rightarrow> bool" where
  "underway kind store C G A X D \<longleftrightarrow> X \<subseteq> A \<and> (\<forall>a\<in>A - X. \<forall>i\<in>G a. cells D i = cell_at C i) \<and> (\<forall>a\<in>X. visited kind store C D a)
     \<and> (\<forall>i s. cells D i = Some (Text_cell s) \<longleftrightarrow> cell_at C i = Some (Text_cell s))"

text \<open>A part of the decompression: it changes the cells at \<open>F\<close>, the \<open>prev\<close> of structures at \<open>P\<close>, and the shared structures that it enters,
  which it restores.\<close>

definition went :: "(nat \<Rightarrow> SqlStatementType) \<Rightarrow> (nat \<Rightarrow> nat) \<Rightarrow> 'd store \<Rightarrow> bool \<Rightarrow> 'd compress_state \<Rightarrow> (nat \<Rightarrow> nat set) \<Rightarrow> nat set \<Rightarrow> nat set
    \<Rightarrow> nat set \<Rightarrow> nat set \<Rightarrow> 'd decompress_state \<Rightarrow> nat set \<Rightarrow> 'd decompress_state \<Rightarrow> bool" where
  "went kind succ store view C G A F P X D X' D' \<longleftrightarrow> X \<subseteq> X' \<and> underway kind store C G A X' D'
     \<and> (\<forall>i. i \<notin> F \<union> \<Union> (G ` (X' - X)) \<longrightarrow> cells D' i = cells D i)
     \<and> (\<forall>i. i \<notin> P \<union> \<Union> (G ` (X' - X)) \<union> places C A \<longrightarrow> prev D' i = prev D i)
     \<and> (\<forall>a\<in>X. \<forall>k. succ a \<in> A \<longrightarrow> bin_defn_offset C (succ a) = Offset k \<longrightarrow> prev D' k = prev D k)
     \<and> (\<forall>a\<in>X' - X. restored_shared kind succ store view (\<lambda>b. b \<in> X') (bin_defn_offset C) D' a (G a))"

lemma compressedD:
  assumes "compressed L store kind succ view C A G A0"
  shows "placed L kind succ C" "a \<in> A \<longleftrightarrow> a \<in> A0 \<and> (\<exists>j. bin_defn_offset C a = Offset j)" "finite A"
    "a \<in> A \<Longrightarrow> bin_defn_offset C a = Offset j \<Longrightarrow> represents_shared L store kind view C a j (G a)"
    "a \<in> A \<Longrightarrow> b \<in> A \<Longrightarrow> a \<noteq> b \<Longrightarrow> G a \<inter> G b = {}"
    "a \<in> A0 \<Longrightarrow> b \<in> A0 \<Longrightarrow> succ a = succ b \<Longrightarrow> a = b"
    "a \<in> A \<Longrightarrow> all_fit (snd (store a)) A0 kind succ" "a \<in> A \<Longrightarrow> members_fit (kind a) (fst (store a)) (snd (store a))"
    "a \<in> A \<Longrightarrow> all_load (snd (store a)) succ" "a \<in> A \<Longrightarrow> kind a = column_STATEMENT \<Longrightarrow> is_keyword_list (last (snd (store a)))"
  using assms unfolding compressed_def store_fits_def store_loads_def inj_on_def by (blast, blast, simp, blast+)

lemma underwayD:
  assumes "underway kind store C G A X D"
  shows "X \<subseteq> A" "a \<in> A \<Longrightarrow> a \<notin> X \<Longrightarrow> i \<in> G a \<Longrightarrow> cells D i = cell_at C i" "a \<in> X \<Longrightarrow> visited kind store C D a"
    "cells D i = Some (Text_cell s) \<longleftrightarrow> cell_at C i = Some (Text_cell s)"
  using assms unfolding underway_def by blast+

lemma wentD:
  assumes "went kind succ store view C G A F P X D X' D'"
  shows "X \<subseteq> X'" "underway kind store C G A X' D'" "i \<notin> F \<Longrightarrow> (\<And>a. a \<in> X' \<Longrightarrow> a \<notin> X \<Longrightarrow> i \<notin> G a) \<Longrightarrow> cells D' i = cells D i"
    "i \<notin> P \<Longrightarrow> (\<And>a. a \<in> X' \<Longrightarrow> a \<notin> X \<Longrightarrow> i \<notin> G a) \<Longrightarrow> i \<notin> places C A \<Longrightarrow> prev D' i = prev D i"
    "a \<in> X \<Longrightarrow> succ a \<in> A \<Longrightarrow> bin_defn_offset C (succ a) = Offset k \<Longrightarrow> prev D' k = prev D k"
    "a \<in> X' \<Longrightarrow> a \<notin> X \<Longrightarrow> restored_shared kind succ store view (\<lambda>b. b \<in> X') (bin_defn_offset C) D' a (G a)"
  using assms unfolding went_def by (blast, blast, blast, blast, blast, blast)

text \<open>The places of different shared structures.\<close>

lemma place_own:
  assumes "compressed L store kind succ view C A G A0" and "a \<in> A" and "bin_defn_offset C a = Offset j"
  shows "j \<in> G a" and "j \<in> places C A"
  using compressedD(4) [OF assms] assms(2,3) by (auto simp: represents_shared_def places_def)

lemma place_other:
  assumes R: "compressed L store kind succ view C A G A0" and a: "a \<in> A" "bin_defn_offset C a = Offset j" and i: "i \<in> G a" "i \<in> places C A"
  shows "i = j"
proof -
  obtain b where b: "b \<in> A" "bin_defn_offset C b = Offset i"
    using i(2) by (auto simp: places_def)
  with place_own(1) [OF R b] i(1) compressedD(5) [OF R a(1) b(1)] have "a = b"
    by blast
  with a(2) b(2) show ?thesis
    by simp
qed

lemma went_unchanged:
  assumes R: "compressed L store kind succ view C A G A0" and W: "went kind succ store view C G A F P X D X' D'" and U: "underway kind store C G A X D"
    and S: "S \<inter> F = {}" "S \<inter> P = {}" "S \<inter> places C A = {}" "\<And>a. a \<in> A \<Longrightarrow> a \<notin> X \<Longrightarrow> S \<inter> G a = {}"
  shows "unchanged S D D'"
  unfolding unchanged_def
proof (intro conjI ballI allI impI)
  fix i assume i: "i \<in> S"
  have "i \<notin> G a" if "a \<in> X'" "a \<notin> X" for a
    using S(4) [OF _ that(2)] underwayD(1) [OF wentD(2) [OF W]] that(1) i by blast
  moreover have "i \<notin> F" "i \<notin> P" "i \<notin> places C A"
    using i S(1-3) by blast+
  ultimately show "cells D' i = cells D i" "prev D' i = prev D i"
    using wentD(3,4) [OF W, of i] by blast+
next
  fix i s assume "cells D i = Some (Text_cell s)"
  then show "cells D' i = Some (Text_cell s)"
    by (simp only: underwayD(4) [OF U] underwayD(4) [OF wentD(2) [OF W]])
qed


lemma restored_shared_later:
  assumes "restored_shared kind succ store view seen at D a F" and "at a = Offset j" and "unchanged (F - {j}) D D'" and "cells D' j = cells D j"
    and "\<And>k. at (succ a) = Offset k \<Longrightarrow> seen (succ a) \<Longrightarrow> prev D' k = prev D k" and "\<And>b. seen b \<Longrightarrow> seen' b"
  shows "restored_shared kind succ store view seen' at D' a F"
proof -
  from assms(1,2) obtain ps nx where cell: "cells D j = Some (Struct_cell (kind a) (fst (store a)) False ps nx)"
      and members: "restored_members (snd (store a)) view seen at D j (the (compressed_members (kind a) (fst (store a)))) (F - {j})"
      and circle: "is_circular (kind a) \<longrightarrow> (\<exists>k. at (succ a) = Offset k \<and> nx = Abs k \<and> prev D k = Some j \<and> seen (succ a))"
    by (auto simp: restored_shared_def)
  have "restored_members (snd (store a)) view seen' at D' j (the (compressed_members (kind a) (fst (store a)))) (F - {j})"
    by (rule restored_later(4) [OF assms(3,6) members]) (simp_all add: pointer_def assms(4))
  with cell circle assms(2,4-6) show ?thesis
    by (auto simp: restored_shared_def)
qed

lemma went_refl: "underway kind store C G A X D \<Longrightarrow> went kind succ store view C G A F P X D X D"
  by (simp add: went_def)

lemma went_subset: "went kind succ store view C G A F P X D X' D' \<Longrightarrow> F \<subseteq> F' \<Longrightarrow> P \<subseteq> P' \<Longrightarrow> went kind succ store view C G A F' P' X D X' D'"
  unfolding went_def by blast

lemma restored_stays:
  assumes R: "compressed L store kind succ view C A G A0"
    and W: "went kind succ store view C G A F P X1 D1 X2 D2" and U: "underway kind store C G A X1 D1" and a: "a \<in> X1" and F: "F \<inter> G a = {}" "P \<inter> G a = {}"
    and r: "restored_shared kind succ store view (\<lambda>b. b \<in> X1) (bin_defn_offset C) D1 a (G a)"
  shows "restored_shared kind succ store view (\<lambda>b. b \<in> X2) (bin_defn_offset C) D2 a (G a)"
proof -
  have A: "a \<in> A"
    using a underwayD(1) [OF U] by blast
  then obtain j where j: "bin_defn_offset C a = Offset j"
    using compressedD(2) [OF R] by blast
  have apart: "G a \<inter> G b = {}" if "b \<in> A" "b \<notin> X1" for b
    using compressedD(5) [OF R A that(1)] a that(2) by blast
  show ?thesis
  proof (rule restored_shared_later [where at = "bin_defn_offset C", OF r j])
    show "unchanged (G a - {j}) D1 D2"
    proof (rule went_unchanged [OF R W U])
      show "(G a - {j}) \<inter> F = {}" "(G a - {j}) \<inter> P = {}"
        using F by blast+
      show "(G a - {j}) \<inter> places C A = {}"
        using place_other [OF R A j] by blast
      show "(G a - {j}) \<inter> G b = {}" if "b \<in> A" "b \<notin> X1" for b
        using apart [OF that] by blast
    qed
    show "cells D2 j = cells D1 j"
    proof (rule wentD(3) [OF W])
      have "j \<in> G a"
        by (rule place_own(1) [OF R A j])
      then show "j \<notin> F" and "\<And>b. b \<in> X2 \<Longrightarrow> b \<notin> X1 \<Longrightarrow> j \<notin> G b"
        using F(1) apart underwayD(1) [OF wentD(2) [OF W]] by blast+
    qed
    show "prev D2 k = prev D1 k" if "bin_defn_offset C (succ a) = Offset k" "succ a \<in> X1" for k
      by (rule wentD(5) [OF W a _ that(1)]) (use that(2) underwayD(1) [OF U] in blast)
    show "b \<in> X2" if "b \<in> X1" for b
      using wentD(1) [OF W] that by blast
  qed
qed

lemma went_trans:
  assumes R: "compressed L store kind succ view C A G A0"
    and W1: "went kind succ store view C G A F1 P1 X D X1 D1" and W2: "went kind succ store view C G A F2 P2 X1 D1 X2 D2"
    and F2: "\<And>a. a \<in> X1 \<Longrightarrow> a \<notin> X \<Longrightarrow> (F2 \<union> P2) \<inter> G a = {}"
  shows "went kind succ store view C G A (F1 \<union> F2) (P1 \<union> P2) X D X2 D2"
  unfolding went_def
proof (intro conjI allI impI ballI)
  show "X \<subseteq> X2" "underway kind store C G A X2 D2"
    using wentD(1) [OF W1] wentD(1,2) [OF W2] by blast+
next
  fix i assume "i \<notin> F1 \<union> F2 \<union> \<Union> (G ` (X2 - X))"
  then have "i \<notin> F1" "i \<notin> F2" "\<And>a. a \<in> X1 \<Longrightarrow> a \<notin> X \<Longrightarrow> i \<notin> G a" "\<And>a. a \<in> X2 \<Longrightarrow> a \<notin> X1 \<Longrightarrow> i \<notin> G a"
    using wentD(1) [OF W1] wentD(1) [OF W2] by blast+
  then show "cells D2 i = cells D i"
    using wentD(3) [OF W1, of i] wentD(3) [OF W2, of i] by simp
next
  fix i assume "i \<notin> P1 \<union> P2 \<union> \<Union> (G ` (X2 - X)) \<union> places C A"
  then have "i \<notin> P1" "i \<notin> P2" "i \<notin> places C A" "\<And>a. a \<in> X1 \<Longrightarrow> a \<notin> X \<Longrightarrow> i \<notin> G a" "\<And>a. a \<in> X2 \<Longrightarrow> a \<notin> X1 \<Longrightarrow> i \<notin> G a"
    using wentD(1) [OF W1] wentD(1) [OF W2] by blast+
  then show "prev D2 i = prev D i"
    using wentD(4) [OF W1, of i] wentD(4) [OF W2, of i] by simp
next
  fix a k assume "a \<in> X" "succ a \<in> A" "bin_defn_offset C (succ a) = Offset k"
  then show "prev D2 k = prev D k"
    using wentD(5) [OF W1, of a k] wentD(5) [OF W2, of a k] wentD(1) [OF W1] by auto
next
  fix a assume a: "a \<in> X2 - X"
  show "restored_shared kind succ store view (\<lambda>b. b \<in> X2) (bin_defn_offset C) D2 a (G a)"
  proof (cases "a \<in> X1")
    case False
    then show ?thesis
      using wentD(6) [OF W2] a by blast
  next
    case True
    show ?thesis
      by (rule restored_stays [OF R W2 wentD(2) [OF W1] True]) (use F2 [OF True] wentD(6) [OF W1 True] a in blast)+
  qed
qed

lemma went_fields:
  assumes "went kind succ store view C G A F P X D X' D1" and "cells D2 = cells D1" and "prev D2 = prev D1"
  shows "went kind succ store view C G A F P X D X' D2"
proof -
  have U: "unchanged S D1 D2" for S
    using assms(2,3) by (simp add: unchanged_def)
  have "restored_shared kind succ store view (\<lambda>b. b \<in> X') (bin_defn_offset C) D2 a (G a)" if a: "a \<in> X' - X" for a
  proof -
    have r: "restored_shared kind succ store view (\<lambda>b. b \<in> X') (bin_defn_offset C) D1 a (G a)"
      using wentD(6) [OF assms(1)] a by blast
    then obtain j where "bin_defn_offset C a = Offset j"
      by (auto simp: restored_shared_def)
    from restored_shared_later [OF r this U] show ?thesis
      by (simp add: assms(2,3))
  qed
  moreover have "underway kind store C G A X' D2"
    using wentD(2) [OF assms(1)] by (simp add: underway_def visited_def assms(2))
  ultimately show ?thesis
    using assms(1) by (simp add: went_def assms(2,3))
qed

text \<open>One cell is changed, which is not that of a structure that is still to be entered.\<close>

lemma went_set_cell:
  assumes "underway kind store C G A X D" and "\<And>a. a \<in> A \<Longrightarrow> a \<notin> X \<Longrightarrow> i \<notin> G a"
    and "\<And>s. (f (Text_cell s)) = Text_cell s" and "\<And>c s. f c = Text_cell s \<Longrightarrow> c = Text_cell s"
    and "\<And>type c sh ps nx. \<exists>qs ny. f (Struct_cell type c sh ps nx) = Struct_cell type c sh qs ny"
  shows "went kind succ store view C G A {i} {} X D X (set_cell i f D)"
proof -
  have "visited kind store C (set_cell i f D) a" if "a \<in> X" for a
    using underwayD(3) [OF assms(1) that] assms(5) by (fastforce simp: visited_def)
  moreover have "cells (set_cell i f D) k = Some (Text_cell s) \<longleftrightarrow> cell_at C k = Some (Text_cell s)" for k s
    using underwayD(4) [OF assms(1), of k s, symmetric] assms(3,4) by auto
  ultimately have "underway kind store C G A X (set_cell i f D)"
    using assms(1,2) by (auto simp: underway_def)
  then show ?thesis
    by (simp add: went_def)
qed

lemma represents_null: "represents m L view C None F \<Longrightarrow> F = {} \<and> restored m view seen at D None F'"
  by (cases m) (auto split: if_splits)

lemma members_step:
  assumes R: "compressed L store kind succ view C A G A0" and U: "underway kind store C G A X D"
    and cell: "cells D cur = Some (Struct_cell type' c sh ps nx)" and cur: "cur \<notin> F1" "cur \<notin> F2" "\<And>a. a \<in> A \<Longrightarrow> a \<notin> X \<Longrightarrow> cur \<notin> G a"
    and F: "F1 \<inter> F2 = {}" "F1 \<inter> places C A = {}" "\<And>a. a \<in> A \<Longrightarrow> a \<notin> X \<Longrightarrow> F1 \<inter> G a = {}" "\<And>a. a \<in> A \<Longrightarrow> a \<notin> X \<Longrightarrow> F2 \<inter> G a = {}"
    and agree: "\<And>i. i \<in> F1 \<Longrightarrow> cells D i = cell_at C i" "\<And>i. i \<in> F2 \<Longrightarrow> cells D i = cell_at C i"
    and rep: "represents m L view C r F1" "ps name = (case r of None \<Rightarrow> NULLP | Some i \<Rightarrow> A2R (cur + member_at L type name) i)" and names: "name \<notin> set names"
    and IH1: "\<And>i D1. r = Some i \<Longrightarrow> underway kind store C G A X D1 \<Longrightarrow> (\<And>i. i \<in> F1 \<Longrightarrow> cells D1 i = cell_at C i) \<Longrightarrow>
      \<exists>D2 X2. decompress_task L (Helper i) D1 = Some D2 \<and> went kind succ store view C G A F1 F1 X D1 X2 D2
        \<and> restored m view (\<lambda>b. b \<in> X2) (bin_defn_offset C) D2 (Some i) F1"
    and IH2: "\<And>D2 X2 ps2. X \<subseteq> X2 \<Longrightarrow> underway kind store C G A X2 D2 \<Longrightarrow> cells D2 cur = Some (Struct_cell type' c sh ps2 nx) \<Longrightarrow>
      (\<And>n. n \<in> set names \<Longrightarrow> ps2 n = ps n) \<Longrightarrow> (\<And>i. i \<in> F2 \<Longrightarrow> cells D2 i = cell_at C i) \<Longrightarrow>
      \<exists>D' X' ps'. decompress_task L (Members type cur names) D2 = Some D' \<and> went kind succ store view C G A (insert cur F2) F2 X2 D2 X' D'
        \<and> restored_members ms view (\<lambda>b. b \<in> X') (bin_defn_offset C) D' cur names F2
        \<and> cells D' cur = Some (Struct_cell type' c sh ps' nx) \<and> (\<forall>n. n \<notin> set names \<longrightarrow> ps' n = ps2 n)"
  shows "\<exists>D' X' ps'. decompress_task L (Members type cur (name # names)) D = Some D' \<and> went kind succ store view C G A (insert cur (F1 \<union> F2)) (F1 \<union> F2) X D X' D'
      \<and> restored_members (m # ms) view (\<lambda>b. b \<in> X') (bin_defn_offset C) D' cur (name # names) (F1 \<union> F2)
      \<and> cells D' cur = Some (Struct_cell type' c sh ps' nx) \<and> (\<forall>n. n \<notin> set (name # names) \<longrightarrow> ps' n = ps n)"
proof (cases r)
  case None
  note null = represents_null [OF rep(1) [unfolded None]]
  with IH2 [OF subset_refl U cell _ agree(2)] obtain D' X' ps' where
    2: "decompress_task L (Members type cur names) D = Some D'" "went kind succ store view C G A (insert cur F2) F2 X D X' D'"
      "restored_members ms view (\<lambda>b. b \<in> X') (bin_defn_offset C) D' cur names F2"
      "cells D' cur = Some (Struct_cell type' c sh ps' nx)" "\<forall>n. n \<notin> set names \<longrightarrow> ps' n = ps n"
    by blast
  have p: "pointer D cur name = Some NULLP" "pointer D' cur name = Some NULLP"
    using cell 2(4,5) rep(2) names by (simp_all add: pointer_def None)
  have "decompress_task L (Members type cur (name # names)) D = Some D'"
    by (simp add: task_Members(2) p(1) 2(1))
  with 2 p(2) null show ?thesis
    by (intro exI [of _ D'] exI [of _ X'] exI [of _ ps']) (auto intro: exI [of _ None])
next
  case (Some i)
  let ?D1 = "set_cell cur (set_member name (Abs i)) D"
  have W1: "went kind succ store view C G A {cur} {} X D X ?D1"
  proof (rule went_set_cell [OF U cur(3)])
    show "c = Text_cell s" if "set_member name (Abs i) c = Text_cell s" for c :: "'a cell" and s
      using that by (cases c) auto
  qed simp_all
  have "cells ?D1 k = cell_at C k" if "k \<in> F1" for k
    using agree(1) [OF that] that cur(1) by auto
  from IH1 [OF Some wentD(2) [OF W1] this] obtain D2 X2 where
    2: "decompress_task L (Helper i) ?D1 = Some D2" "went kind succ store view C G A F1 F1 X ?D1 X2 D2"
      "restored m view (\<lambda>b. b \<in> X2) (bin_defn_offset C) D2 (Some i) F1"
    by blast
  have X2: "X2 \<subseteq> A"
    by (rule underwayD(1) [OF wentD(2) [OF 2(2)]])
  let ?ps2 = "ps(name := Abs i)"
  have cell2: "cells D2 cur = Some (Struct_cell type' c sh ?ps2 nx)"
    using wentD(3) [OF 2(2), of cur] cur X2 cell by (auto simp: subset_iff)
  have "cells D2 k = cell_at C k" if k: "k \<in> F2" for k
  proof -
    have "k \<notin> F1" "k \<noteq> cur" "\<And>a. a \<in> X2 \<Longrightarrow> a \<notin> X \<Longrightarrow> k \<notin> G a"
      using k F(1,4) cur(2) X2 by blast+
    with wentD(3) [OF 2(2), of k] agree(2) [OF k] show ?thesis
      by simp
  qed
  moreover have "?ps2 n = ps n" if "n \<in> set names" for n
    using names that by auto
  ultimately obtain D' X' ps' where
    3: "decompress_task L (Members type cur names) D2 = Some D'" "went kind succ store view C G A (insert cur F2) F2 X2 D2 X' D'"
      "restored_members ms view (\<lambda>b. b \<in> X') (bin_defn_offset C) D' cur names F2"
      "cells D' cur = Some (Struct_cell type' c sh ps' nx)" "\<forall>n. n \<notin> set names \<longrightarrow> ps' n = ?ps2 n"
    using IH2 [OF wentD(1) [OF 2(2)] wentD(2) [OF 2(2)] cell2] by blast
  have p: "pointer D cur name = Some (A2R (cur + member_at L type name) i)" "pointer D' cur name = Some (Abs i)"
    using cell 3(4,5) rep(2) names by (simp_all add: pointer_def Some)
  have "decompress_task L (Members type cur (name # names)) D = Some D'"
    by (simp add: task_Members(2) p(1) 2(1) 3(1))
  moreover have "went kind succ store view C G A (insert cur (F1 \<union> F2)) (F1 \<union> F2) X D X' D'"
  proof -
    have "went kind succ store view C G A ({cur} \<union> F1) ({} \<union> F1) X D X2 D2"
      by (rule went_trans [OF R W1 2(2)]) simp
    from went_trans [OF R this 3(2)] have "went kind succ store view C G A ({cur} \<union> F1 \<union> insert cur F2) ({} \<union> F1 \<union> F2) X D X' D'"
      using F(4) cur(3) X2 by blast
    then show ?thesis
      by (rule went_subset) blast+
  qed
  moreover have "restored m view (\<lambda>b. b \<in> X') (bin_defn_offset C) D' (Some i) (F1 \<union> F2)"
  proof (rule restored_mono(1) [OF restored_later(1) [OF _ _ 2(3)]])
    show "unchanged F1 D2 D'"
    proof (rule went_unchanged [OF R 3(2) wentD(2) [OF 2(2)] _ F(1,2)])
      show "F1 \<inter> insert cur F2 = {}"
        using F(1) cur(1) by blast
      show "F1 \<inter> G a = {}" if "a \<in> A" "a \<notin> X2" for a
        using F(3) [OF that(1)] that(2) wentD(1) [OF 2(2)] by blast
    qed
    show "b \<in> X'" if "b \<in> X2" for b
      using wentD(1) [OF 3(2)] that by blast
  qed simp
  moreover have "restored_members ms view (\<lambda>b. b \<in> X') (bin_defn_offset C) D' cur names (F1 \<union> F2)"
    by (rule restored_mono(4) [OF 3(3)]) simp
  ultimately show ?thesis
    using 3(4,5) p(2) by (intro exI [of _ D'] exI [of _ X'] exI [of _ ps']) (auto intro: exI [of _ "Some i"])
qed


lemma keyword_found:
  assumes "restored_elems es view seen at D keyword_STATEMENT start cur F" and "es \<noteq> []" and "list_all is_keyword es"
  shows "\<exists>r. get_keyword_from_keywords D start cur keyword = Some r \<and> (\<forall>k. r = Some k \<longrightarrow> pointer D k ''v'' \<noteq> None)"
  using assms
proof (induction es arbitrary: cur)
  case (Cons e es)
  then obtain k' d ms t where e: "e = Struct (Keyword k' d) ms t"
    by (auto simp: is_keyword_def split: elem.splits contents.splits)
  from Cons.prems(1) obtain ps k where cell: "cells D cur = Some (Struct_cell keyword_STATEMENT (Keyword k' d) False ps (Abs k))"
      and rest: "if es = [] then k = start else restored_elems es view seen at D keyword_STATEMENT start k F"
    by (auto simp: e is_circular_def clear_indexes_def)
  show ?case
  proof (cases "k' = keyword \<or> k = start")
    case True
    with cell show ?thesis
      by (subst get_keyword_from_keywords.simps) (auto simp: pointer_def)
  next
    case False
    with rest have es: "es \<noteq> []" "restored_elems es view seen at D keyword_STATEMENT start k F"
      by (auto split: if_splits)
    have "get_keyword_from_keywords D start cur keyword = get_keyword_from_keywords D start k keyword"
      using cell False by (subst get_keyword_from_keywords.simps) simp
    with Cons.IH [OF es(2,1)] Cons.prems(3) show ?thesis
      by simp
  qed
qed simp

lemma set_delim_works:
  assumes "restored_members ms view seen at D j [''table'', ''columnName'', ''keywords''] F" and "length ms = 3" and "is_keyword_list (last ms)"
  shows "\<exists>D'. set_delim j D = Some D' \<and> cells D' = cells D \<and> prev D' = prev D"
proof -
  obtain m1 m2 m3 where ms: "ms = [m1, m2, m3]"
    using assms(2) by (auto simp: numeral_3_eq_3 length_Suc_conv)
  with assms(1) obtain r where r: "restored m3 view seen at D r F" "pointer D j ''keywords'' = Some (case r of None \<Rightarrow> NULLP | Some i \<Rightarrow> Abs i)"
    by auto
  have "\<exists>r. get_keyword D j OPTIONAL_DELIM = Some r \<and> (\<forall>k. r = Some k \<longrightarrow> pointer D k ''v'' \<noteq> None)"
  proof (cases r)
    case None
    with r(2) show ?thesis
      by (simp add: get_keyword_def)
  next
    case (Some i)
    with r(1) assms(3) obtain d es where m3: "m3 = Statement keyword_STATEMENT d es" "es \<noteq> []" "list_all is_keyword es"
      by (auto simp: ms is_keyword_list_def split: stmt.splits if_splits)
    with r(1) Some obtain k where k: "cells D i = Some (Stmt_cell keyword_STATEMENT d (Abs k))" "restored_elems es view seen at D keyword_STATEMENT k k F"
      by auto
    obtain e es' where es: "es = e # es'"
      using m3(2) by (cases es) auto
    have "unpack D keyword_STATEMENT i = Some k"
      using k m3(3) by (auto simp: unpack_def es is_keyword_def split: elem.splits)
    with keyword_found [OF k(2) m3(2,3), of OPTIONAL_DELIM] r(2) Some show ?thesis
      by (auto simp: get_keyword_def)
  qed
  then obtain r where "get_keyword D j OPTIONAL_DELIM = Some r" "\<forall>k. r = Some k \<longrightarrow> pointer D k ''v'' \<noteq> None"
    by blast
  then show ?thesis
    by (cases r) (auto simp: set_delim_def)
qed

lemma read_alias:
  assumes "restored m view (\<lambda>b. b \<in> X) (bin_defn_offset C) D (Some i) F" and "is_alias m" and "fits m A0 kind succ" and "underway kind store C G A X D"
  shows "\<exists>d p u. cells D i = Some (Stmt_cell table_alias_STATEMENT d p) \<and> read_unique_id L D i = Some u"
proof -
  from assms(2) obtain d a es where m: "m = Statement table_alias_STATEMENT d (Shared a # es)"
    by (cases m rule: is_alias.cases) auto
  with assms(1) obtain j where j: "cells D i = Some (Stmt_cell table_alias_STATEMENT d (Abs j))" "bin_defn_offset C a = Offset j" "a \<in> X"
    by auto
  moreover have "kind a = table_alias_STATEMENT"
    using assms(3) by (simp add: m)
  ultimately show ?thesis
    using underwayD(3) [OF assms(4) j(3)] by (auto simp: read_unique_id_def visited_def)
qed

text \<open>A set operation in place of a table alias: what is read are its pointers.\<close>

lemma read_set_operation:
  assumes "restored m view seen at D (Some i) F" and "is_set_operation m"
  shows "\<exists>d j c ps nx. cells D i = Some (Stmt_cell set_operation_STATEMENT d (Abs j)) \<and> cells D j = Some (Struct_cell set_operation_STATEMENT c False ps nx)
    \<and> read_unique_id L D i = Some (unique_id_of_set_operation L (ps ''operand[0]'') (ps ''operand[1]'') (ps ''col_type_list_stmt''))"
proof -
  from assms(2) obtain d c ms t es where m: "m = Statement set_operation_STATEMENT d (Struct c ms t # es)"
    by (cases m rule: is_set_operation.cases) auto
  with assms(1) obtain j ps nx where j: "cells D i = Some (Stmt_cell set_operation_STATEMENT d (Abs j))"
      "cells D j = Some (Struct_cell set_operation_STATEMENT (clear_indexes view c) False ps nx)"
    by auto
  then show ?thesis
    by (simp add: read_unique_id_def)
qed

lemma set_max_unique_id_works:
  assumes J: "restored_elems es view (\<lambda>b. b \<in> X) (bin_defn_offset C) D join_STATEMENT j j F" and es: "es = Struct c (m # ms) t # es'"
    and m: "is_table m" and fit: "fit_elems es A0 kind succ join_STATEMENT" and U: "underway kind store C G A X D"
  shows "\<exists>D'. set_max_unique_id L j D = Some D' \<and> cells D' = cells D \<and> prev D' = prev D"
proof -
  have fits: "fits m A0 kind succ"
    using fit by (simp add: es)
  from J obtain r where r: "restored m view (\<lambda>b. b \<in> X) (bin_defn_offset C) D r F"
      "pointer D j ''value'' = Some (case r of None \<Rightarrow> NULLP | Some i \<Rightarrow> Abs i)"
    by (auto simp: es compressed_members_def)
  have "\<exists>i. r = Some i"
    using m r(1) by (cases m; cases r) (auto simp: is_table_def split: if_splits list.splits)
  then obtain i where i: "r = Some i"
    by blast
  with r(2) have p: "statement_at D j ''value'' = Some i"
    by (simp add: statement_at_def)
  note ri = r(1) [unfolded i]
  show ?thesis
  proof (cases "is_alias m")
    case True
    from read_alias [OF ri True fits U, of L] p show ?thesis
      by (auto simp: set_max_unique_id_def)
  next
    case False
    with m obtain d c' op right cl t' es'' where m': "m = Statement set_operation_STATEMENT d (Struct c' [op, right, cl] t' # es'')"
        "is_alias right \<or> is_set_operation right"
      by (auto simp: is_table_def split: stmt.splits list.splits elem.splits)
    from ri obtain s ps nx where s: "cells D i = Some (Stmt_cell set_operation_STATEMENT d (Abs s))"
        "cells D s = Some (Struct_cell set_operation_STATEMENT (clear_indexes view c') False ps nx)"
        and members: "restored_members [op, right, cl] view (\<lambda>b. b \<in> X) (bin_defn_offset C) D s [''operand[0]'', ''operand[1]'', ''col_type_list_stmt''] F"
      by (auto simp: m' compressed_members_def)
    from members obtain r' where r': "restored right view (\<lambda>b. b \<in> X) (bin_defn_offset C) D r' F"
        "pointer D s ''operand[1]'' = Some (case r' of None \<Rightarrow> NULLP | Some i \<Rightarrow> Abs i)"
      by auto
    have "\<exists>k. r' = Some k"
      using m'(2)
    proof
      assume "is_alias right"
      with r'(1) show ?thesis
        by (cases right rule: is_alias.cases) auto
    next
      assume "is_set_operation right"
      with r'(1) show ?thesis
        by (cases right rule: is_set_operation.cases) auto
    qed
    then obtain k where k: "r' = Some k"
      by blast
    have fit': "fits right A0 kind succ"
      using fits by (simp add: m')
    obtain u where "read_unique_id L D k = Some u"
      using m'(2) read_alias [OF r'(1) [unfolded k] _ fit' U, of L] read_set_operation [OF r'(1) [unfolded k], of L] by blast
    then show ?thesis
      using p s r'(2) k by (auto simp: set_max_unique_id_def unpack_def statement_at_def)
  qed
qed

lemma clear_indexes_cases: "clear_indexes view c = c \<or> (\<exists>v v'. c = Value v \<and> clear_indexes view c = Value v' \<and> value_type v' = value_type v)"
  by (auto simp: clear_indexes_def split: contents.split)

lemma members_Value: "value_type v' = value_type v \<Longrightarrow> compressed_members type (Value v') = compressed_members type (Value v)"
  unfolding compressed_members_def by (simp only: contents.case)

lemma clear_indexes_simps [simp]:
  "compressed_members type (clear_indexes view c) = compressed_members type c" "has_text (clear_indexes view c) = has_text c"
  using clear_indexes_cases [of view c] members_Value by (auto simp: has_text_def)

lemma struct_restored:
  fixes D :: "'d decompress_state"
  assumes R: "compressed L store kind succ view C A G A0" and U: "underway kind store C G A X D"
    and rep: "represents_elem (Struct c ms t) L view C type j F" and fit: "fit_elem (Struct c ms t) A0 kind succ type"
    and agree: "\<And>i. i \<in> F \<Longrightarrow> cells D i = cell_at C i" and F: "F \<inter> places C A = {}" "\<And>a. a \<in> A \<Longrightarrow> a \<notin> X \<Longrightarrow> F \<inter> G a = {}"
    and IH: "\<And>names F' ps nx. represents_members ms L view C type j names F' \<Longrightarrow> length names = length ms \<Longrightarrow> distinct names \<Longrightarrow>
      cells D j = Some (Struct_cell type (clear_indexes view c) False ps nx) \<Longrightarrow> (\<And>n. n \<in> set names \<Longrightarrow> member_of C j n = Some (ps n)) \<Longrightarrow>
      j \<notin> F' \<Longrightarrow> F = insert j F' \<Longrightarrow>
      \<exists>D' X' ps'. decompress_task L (Members type j names) D = Some D' \<and> went kind succ store view C G A (insert j F') F' X D X' D'
        \<and> restored_members ms view (\<lambda>b. b \<in> X') (bin_defn_offset C) D' j names F'
        \<and> cells D' j = Some (Struct_cell type (clear_indexes view c) False ps' nx) \<and> (\<forall>n. n \<notin> set names \<longrightarrow> ps' n = ps n)"
  obtains D1 D' X' names F' ps nx where "compressed_members type (clear_indexes view c) = Some names" and "j \<notin> F'" and "F = insert j F'"
    and "decompress_task L (Members type j names) D = Some D1" and "after_members L type j (clear_indexes view c) D1 = Some D'"
    and "went kind succ store view C G A F F' X D X' D'" and "restored_members ms view (\<lambda>b. b \<in> X') (bin_defn_offset C) D' j names F'"
    and "has_text_at D' j c t" and "next_of C j = Some nx" and "cells D j = Some (Struct_cell type (clear_indexes view c) False (the \<circ> pointer D j) nx)"
    and "cells D' j = Some (Struct_cell type (clear_indexes view c) False ps nx)"
proof -
  from rep obtain ps nx F' where cell: "cell_at C j = Some (Struct_cell type (clear_indexes view c) False ps nx)"
      and members: "represents_members ms L view C type j (the (compressed_members type c)) F'" and F': "j \<notin> F'" "F = insert j F'"
      and text': "text_at L C j c t"
    by auto
  from fit obtain names where names: "compressed_members type c = Some names" "length names = length ms" and type: "\<not> is_shared type"
    by (auto simp: members_fit_def)
  have cellD: "cells D j = Some (Struct_cell type (clear_indexes view c) False ps nx)"
    using agree [of j] F'(2) cell by simp
  then have cellD': "cells D j = Some (Struct_cell type (clear_indexes view c) False (the \<circ> pointer D j) nx)"
    by (auto simp: pointer_def)
  have nx: "next_of C j = Some nx"
    by (simp add: next_of_def cell)
  have "member_of C j n = Some (ps n)" for n
    by (simp add: member_of_def cell)
  with IH [OF members [unfolded names(1) option.sel] names(2) distinct_members [OF names(1)] cellD _ F'] obtain D1 X' ps' where
    1: "decompress_task L (Members type j names) D = Some D1" "went kind succ store view C G A F F' X D X' D1"
      "restored_members ms view (\<lambda>b. b \<in> X') (bin_defn_offset C) D1 j names F'"
      "cells D1 j = Some (Struct_cell type (clear_indexes view c) False ps' nx)" "\<forall>n. n \<notin> set names \<longrightarrow> ps' n = ps n"
    by (auto simp: F'(2))
  note names' = names(1) [folded clear_indexes_simps(1) [of type view c]]
  show thesis
  proof (cases "has_text c")
    case False
    have "after_members L type j (clear_indexes view c) D1 = Some D1"
      using False type by (auto simp: after_members_def is_shared_def decompress_text_def has_text_def clear_indexes_def split: contents.split)
    moreover have "has_text_at D1 j c t"
      using False by (auto simp: has_text_def has_text_at_def split: contents.split)
    ultimately show thesis
      using that [OF names' F' 1(1) _ 1(2,3) _ nx cellD' 1(4)] by blast
  next
    case True
    from True fit have ms: "type = value_STATEMENT" "names = []" "ms = []"
      using has_text_members [OF True, of type ms] names(1) by auto
    from True text' obtain k s where k: "t = Some s" "member_of C j ''v'' = Some (A2R (j + member_at L value_STATEMENT ''v'') k)" "cell_at C k = Some (Text_cell s)"
      by (auto simp: text_at_def has_text_def split: contents.splits)
    let ?D' = "set_cell j (set_member ''v'' (Abs k)) D"
    have D1: "D1 = D"
      using 1(1) by (simp add: ms(2) task_Members(1))
    have "ps ''v'' = A2R (j + member_at L value_STATEMENT ''v'') k"
      using k(2) cell by (simp add: member_of_def)
    then have after: "after_members L type j (clear_indexes view c) D1 = Some ?D'"
      using True cellD by (auto simp: D1 after_members_def decompress_text_def ms(1) has_text_def clear_indexes_def pointer_def split: contents.splits)
    have j: "j \<notin> G a" if "a \<in> A" "a \<notin> X" for a
      using F(2) [OF that] F'(2) by blast
    have W: "went kind succ store view C G A {j} {} X D X ?D'"
    proof (rule went_set_cell [OF U j])
      show "c = Text_cell s" if "set_member ''v'' (Abs k) c = Text_cell s" for c :: "'d cell" and s
        using that by (cases c) auto
    qed simp_all
    have cell': "cells ?D' j = Some (Struct_cell type (clear_indexes view c) False (ps(''v'' := Abs k)) nx)"
      using cellD by simp
    have "cells ?D' k = Some (Text_cell s)"
      using k(3) underwayD(4) [OF wentD(2) [OF W]] by blast
    then have "has_text_at ?D' j c t"
      using True k(1) cell' by (auto simp: has_text_at_def has_text_def pointer_def simp del: cells_set_cell split: contents.splits)
    moreover have "went kind succ store view C G A F F' X D X ?D'"
      by (rule went_subset [OF W]) (simp_all add: F'(2))
    moreover have "restored_members ms view (\<lambda>b. b \<in> X) (bin_defn_offset C) ?D' j names F'"
      by (simp add: ms(3))
    ultimately show thesis
      using that [OF names' F' 1(1) after _ _ _ nx cellD' cell'] by blast
  qed
qed

lemma restored_Struct:
  assumes "restored_members ms view seen at D2 j names F'" and "has_text_at D2 j c t" and "compressed_members type c = Some names"
    and "unchanged F' D2 D" and "cells D2 j = Some (Struct_cell type (clear_indexes view c) False ps nx)"
    and "cells D j = Some (Struct_cell type (clear_indexes view c) False ps nx')" and "\<And>b. seen b \<Longrightarrow> seen' b" and "insert j F' \<subseteq> F"
  shows "restored_elem (Struct c ms t) view seen' at D type j F"
proof -
  have p: "pointer D j m = pointer D2 j m" for m
    by (simp add: pointer_def assms(5,6))
  have "restored_members ms view seen' at D j names F'"
    by (rule restored_later(4) [OF assms(4,7,1) p])
  with restored_mono(4) [OF this] has_text_later [OF assms(2,4) p] assms(3,6,8) show ?thesis
    by simp
qed


lemma underway_cell:
  assumes U: "underway kind store C G A X D" and j: "\<And>a. a \<in> A \<Longrightarrow> a \<notin> X \<Longrightarrow> j \<notin> G a"
    and cells: "\<And>i. i \<noteq> j \<Longrightarrow> cells D' i = cells D i"
    and cell: "cells D j = Some (Struct_cell type c sh ps nx)" "cells D' j = Some (Struct_cell type c sh' ps' nx')" "sh' \<Longrightarrow> sh"
  shows "underway kind store C G A X D'"
proof -
  have "visited kind store C D' a" if a: "a \<in> X" for a
  proof -
    obtain k ps'' nx'' where k: "bin_defn_offset C a = Offset k" "cells D k = Some (Struct_cell (kind a) (fst (store a)) False ps'' nx'')"
      using underwayD(3) [OF U a] by (auto simp: visited_def)
    show ?thesis
    proof (cases "k = j")
      case True
      with k cell show ?thesis
        by (auto simp: visited_def)
    next
      case False
      with k cells show ?thesis
        by (auto simp: visited_def)
    qed
  qed
  moreover have "cells D' i = Some (Text_cell s) \<longleftrightarrow> cells D i = Some (Text_cell s)" for i s
    using cells [of i] cell(1,2) by (cases "i = j") auto
  moreover have "cells D' i = cell_at C i" if "a \<in> A" "a \<notin> X" "i \<in> G a" for a i
    using underwayD(2) [OF U that] cells [of i] j [OF that(1,2)] that(3) by (cases "i = j") auto
  ultimately show ?thesis
    using underwayD(1) [OF U] underwayD(4) [OF U] by (auto simp: underway_def)
qed

lemma link_next_pointer:
  assumes "cells D j = Some (Struct_cell type' c sh ps p)" and "p = NULLP \<Longrightarrow> k = start" and "p \<noteq> NULLP \<Longrightarrow> p = A2R (j + next_at L type) k"
  shows "link_next L type start j D = Some (k, set_cell j (set_next (Abs k)) D\<lparr>prev := (prev D)(k \<mapsto> j)\<rparr>)"
  using assms by (cases "p = NULLP") (simp_all add: link_next_def)

lemma went_link:
  assumes U: "underway kind store C G A X D" and j: "\<And>a. a \<in> A \<Longrightarrow> a \<notin> X \<Longrightarrow> j \<notin> G a" and k: "k \<notin> places C A"
    and cell: "cells D j = Some (Struct_cell type c sh ps nx)"
  shows "went kind succ store view C G A {j} {k} X D X (set_cell j (set_next (Abs k)) D\<lparr>prev := (prev D)(k \<mapsto> j)\<rparr>)"
proof -
  let ?D = "set_cell j (set_next (Abs k)) D\<lparr>prev := (prev D)(k \<mapsto> j)\<rparr>"
  have "underway kind store C G A X ?D"
    by (rule underway_cell [OF U j _ cell]) (use cell in simp_all)
  moreover from k have "prev ?D k' = prev D k'" if "succ a \<in> A" "bin_defn_offset C (succ a) = Offset k'" for a k'
    using that by (auto simp: places_def)
  ultimately show ?thesis
    using k by (auto simp: went_def)
qed

lemma represents_Shared:
  "represents_elems (Shared a # es) L view C type j F \<Longrightarrow> fit_elems es A0 kind succ type \<Longrightarrow> is_shared type \<Longrightarrow> bin_defn_offset C a = Offset j \<and> F = {}"
proof (induction es arbitrary: a j F)
  case (Cons e es)
  then obtain b where "e = Shared b"
    by (cases e) auto
  with Cons show ?case
    by auto
qed auto

text \<open>A shared structure with all its members, and what comes after it in its list.\<close>

lemma went_shared:
  assumes R: "compressed L store kind succ view C A G A0" and a: "a \<in> A" "a \<notin> X" "bin_defn_offset C a = Offset j"
    and U: "underway kind store C G A X D"
    and W2: "went kind succ store view C G A (G a) (G a) (insert a X) (set_cell j clear_bin_defn_offset D) X2 D2"
    and members: "restored_members (snd (store a)) view (\<lambda>b. b \<in> X2) (bin_defn_offset C) D2 j (the (compressed_members (kind a) (fst (store a)))) (G a - {j})"
    and D3: "\<And>i. i \<noteq> j \<Longrightarrow> cells D3 i = cells D2 i" "cells D2 j = Some (Struct_cell (kind a) (fst (store a)) False ps nx)"
      "cells D3 j = Some (Struct_cell (kind a) (fst (store a)) False ps nx')"
    and link: "\<not> is_circular (kind a) \<Longrightarrow> prev D3 = prev D2"
      "is_circular (kind a) \<Longrightarrow> \<exists>k. bin_defn_offset C (succ a) = Offset k \<and> succ a \<in> A \<and> nx' = Abs k \<and> prev D3 = (prev D2)(k \<mapsto> j)"
    and W4: "went kind succ store view C G A {} {} X2 D3 X' D'" and closed: "is_circular (kind a) \<Longrightarrow> succ a \<in> X'"
  shows "went kind succ store view C G A {} {} X D X' D'"
proof -
  have X: "insert a X \<subseteq> X2" "X2 \<subseteq> X'" "X' \<subseteq> A" "X2 \<subseteq> A"
    using wentD(1) [OF W2] wentD(1) [OF W4] underwayD(1) [OF wentD(2) [OF W4]] by blast+
  have j: "j \<in> G a" "j \<in> places C A"
    by (rule place_own [OF R a(1,3)])+
  have apart: "G a \<inter> G b = {}" if "b \<in> A" "b \<noteq> a" for b
    using compressedD(5) [OF R a(1) that(1)] that(2) by blast
  have A0: "b \<in> A0" if "b \<in> A" for b
    using compressedD(2) [OF R] that by blast
  have only_a: "b = a" if "b \<in> A" "succ b \<in> A" "bin_defn_offset C (succ b) = Offset k" "prev D3 k \<noteq> prev D2 k" for b k
  proof -
    have c: "is_circular (kind a)"
      using link(1) that(4) by metis
    then obtain k' where k': "bin_defn_offset C (succ a) = Offset k'" "prev D3 = (prev D2)(k' \<mapsto> j)"
      using link(2) by blast
    with that(4) have "k' = k"
      by (auto split: if_splits)
    with k'(1) that(3) have "succ b = succ a"
      using baseD(4) [OF placedD(1) [OF compressedD(1) [OF R]]] by blast
    with compressedD(6) [OF R A0 [OF that(1)] A0 [OF a(1)]] show ?thesis
      by blast
  qed
  have prev_places: "prev D3 k = prev D2 k" if "k \<notin> places C A" for k
  proof (cases "is_circular (kind a)")
    case True
    then obtain k' where "bin_defn_offset C (succ a) = Offset k'" "succ a \<in> A" "prev D3 = (prev D2)(k' \<mapsto> j)"
      using link(2) by blast
    with that show ?thesis
      by (auto simp: places_def)
  qed (use link(1) in simp)
  have U3: "underway kind store C G A X2 D3"
  proof (rule underway_cell [OF wentD(2) [OF W2] _ D3(1) D3(2,3)])
    show "j \<notin> G b" if "b \<in> A" "b \<notin> X2" for b
      using apart [OF that(1)] that(2) X(1) j(1) by blast
  qed simp_all
  have texts: "cells D3 i = Some (Text_cell s)" if "cells D2 i = Some (Text_cell s)" for i s
    using that D3 by (cases "i = j") auto
  show ?thesis
    unfolding went_def
  proof (intro conjI allI impI ballI)
    show "X \<subseteq> X'" "underway kind store C G A X' D'"
      using X wentD(2) [OF W4] by blast+
  next
    fix i assume "i \<notin> {} \<union> \<Union> (G ` (X' - X))"
    then have i: "i \<notin> G a" "\<And>b. b \<in> X2 \<Longrightarrow> b \<notin> insert a X \<Longrightarrow> i \<notin> G b" "\<And>b. b \<in> X' \<Longrightarrow> b \<notin> X2 \<Longrightarrow> i \<notin> G b"
      using X a(2) by blast+
    with j(1) have "i \<noteq> j"
      by blast
    with i show "cells D' i = cells D i"
      using wentD(3) [OF W4, of i] D3(1) [of i] wentD(3) [OF W2, of i] by simp
  next
    fix i assume "i \<notin> {} \<union> \<Union> (G ` (X' - X)) \<union> places C A"
    then have i: "i \<notin> G a" "\<And>b. b \<in> X2 \<Longrightarrow> b \<notin> insert a X \<Longrightarrow> i \<notin> G b" "\<And>b. b \<in> X' \<Longrightarrow> b \<notin> X2 \<Longrightarrow> i \<notin> G b" "i \<notin> places C A"
      using X a(2) by blast+
    then show "prev D' i = prev D i"
      using wentD(4) [OF W4, of i] prev_places [of i] wentD(4) [OF W2, of i] by simp
  next
    fix b k assume b: "b \<in> X" "succ b \<in> A" "bin_defn_offset C (succ b) = Offset k"
    have "b \<in> A" "b \<in> X2" "b \<in> insert a X" "b \<noteq> a"
      using b(1) X a(2) by blast+
    with b show "prev D' k = prev D k"
      using wentD(5) [OF W4, of b k] only_a [of b k] wentD(5) [OF W2, of b k] by fastforce
  next
    fix b assume b: "b \<in> X' - X"
    show "restored_shared kind succ store view (\<lambda>c. c \<in> X') (bin_defn_offset C) D' b (G b)"
    proof (cases "b \<in> X2")
      case False
      with b show ?thesis
        using wentD(6) [OF W4] by blast
    next
      case True
      show ?thesis
      proof (cases "b = a")
        case False
        have bA: "b \<in> A"
          using True X by blast
        have r2: "restored_shared kind succ store view (\<lambda>c. c \<in> X2) (bin_defn_offset C) D2 b (G b)"
          by (rule wentD(6) [OF W2]) (use True False b in blast)+
        obtain jb where jb: "bin_defn_offset C b = Offset jb"
          using compressedD(2) [OF R] bA by blast
        have jbG: "jb \<in> G b"
          by (rule place_own(1) [OF R bA jb])
        have "restored_shared kind succ store view (\<lambda>c. c \<in> X2) (bin_defn_offset C) D3 b (G b)"
        proof (rule restored_shared_later [where at = "bin_defn_offset C", OF r2 jb])
          have ij: "i \<noteq> j" if "i \<in> G b" for i
            using that apart [OF bA False] j(1) by blast
          show "unchanged (G b - {jb}) D2 D3"
            unfolding unchanged_def
          proof (intro conjI ballI allI impI)
            fix i assume i: "i \<in> G b - {jb}"
            show "cells D3 i = cells D2 i"
              by (rule D3(1) [OF ij]) (use i in simp)
            show "prev D3 i = prev D2 i"
              by (rule prev_places) (use i place_other [OF R bA jb] in blast)
          qed (rule texts)
          show "cells D3 jb = cells D2 jb"
            by (rule D3(1) [OF ij [OF jbG]])
          show "prev D3 k = prev D2 k" if "bin_defn_offset C (succ b) = Offset k" "succ b \<in> X2" for k
          proof (rule ccontr)
            assume "prev D3 k \<noteq> prev D2 k"
            moreover have "succ b \<in> A"
              using that(2) X(4) by blast
            ultimately show False
              using only_a [OF bA _ that(1)] False by simp
          qed
        qed simp
        from restored_stays [OF R W4 U3 True _ _ this] show ?thesis
          by simp
      next
        case True
        have jG: "j \<notin> G c" if "c \<in> A" "c \<notin> X2" for c
          using apart [OF that(1)] that(2) X j(1) by blast
        have cell': "cells D' j = Some (Struct_cell (kind a) (fst (store a)) False ps nx')"
          using wentD(3) [OF W4, of j] jG X D3(3) by auto
        have GA: "G a \<inter> G c = {}" if "c \<in> A" "c \<notin> X2" for c
          using apart [OF that(1)] that(2) X by blast
        have "unchanged (G a - {j}) D2 D3"
          unfolding unchanged_def
        proof (intro conjI ballI allI impI)
          fix i assume i: "i \<in> G a - {j}"
          show "cells D3 i = cells D2 i"
            by (rule D3(1)) (use i in simp)
          show "prev D3 i = prev D2 i"
            by (rule prev_places) (use i place_other [OF R a(1,3)] in blast)
        qed (rule texts)
        from restored_later(4) [OF this _ members, where seen' = "\<lambda>c. c \<in> X2"] D3(2,3)
        have m3: "restored_members (snd (store a)) view (\<lambda>c. c \<in> X2) (bin_defn_offset C) D3 j
            (the (compressed_members (kind a) (fst (store a)))) (G a - {j})"
          by (simp add: pointer_def)
        have "unchanged (G a - {j}) D3 D'"
          by (rule went_unchanged [OF R W4 U3]) (use place_other [OF R a(1,3)] GA in blast)+
        from restored_later(4) [OF this _ m3, where seen' = "\<lambda>c. c \<in> X'"] X(2) cell' D3(3)
        have "restored_members (snd (store a)) view (\<lambda>c. c \<in> X') (bin_defn_offset C) D' j
            (the (compressed_members (kind a) (fst (store a)))) (G a - {j})"
          by (auto simp: pointer_def)
        moreover have "\<exists>k. bin_defn_offset C (succ a) = Offset k \<and> nx' = Abs k \<and> prev D' k = Some j \<and> succ a \<in> X'" if c: "is_circular (kind a)"
        proof -
          obtain k where k: "bin_defn_offset C (succ a) = Offset k" "succ a \<in> A" "nx' = Abs k" "prev D3 = (prev D2)(k \<mapsto> j)"
            using link(2) [OF c] by blast
          have "prev D' k = prev D3 k"
            by (rule wentD(5) [OF W4 _ k(2,1)]) (use X in blast)
          with k closed [OF c] show ?thesis
            by simp
        qed
        ultimately show ?thesis
          using cell' a(3) by (simp add: restored_shared_def True)
      qed
    qed
  qed
qed


text \<open>A list of structures that are not shared: one element, its link, and the rest.\<close>

lemma head_place: "represents_elems es L view C type k F \<Longrightarrow> es \<noteq> [] \<Longrightarrow> fit_elems es A0 kind succ type \<Longrightarrow> \<not> is_shared type \<Longrightarrow> k \<in> F"
proof (induction es)
  case (Cons e es)
  then show ?case
    by (cases e) auto
qed simp

lemma struct_elems_step:
  fixes D :: "'d decompress_state"
  assumes R: "compressed L store kind succ view C A G A0" and U: "underway kind store C G A X D"
    and rep: "represents_elems (Struct c ms t # es) L view C type j F" and fit: "fit_elems (Struct c ms t # es) A0 kind succ type"
    and one: "is_circular type \<or> es = []"
    and agree: "\<And>i. i \<in> F \<Longrightarrow> cells D i = cell_at C i" and F: "F \<inter> places C A = {}" "\<And>a. a \<in> A \<Longrightarrow> a \<notin> X \<Longrightarrow> F \<inter> G a = {}"
    and start: "start = j \<or> start \<notin> F" "start \<notin> places C A" "\<And>a. a \<in> A \<Longrightarrow> a \<notin> X \<Longrightarrow> start \<notin> G a"
    and IH1: "\<And>names F' ps nx. represents_members ms L view C type j names F' \<Longrightarrow> length names = length ms \<Longrightarrow> distinct names \<Longrightarrow>
      cells D j = Some (Struct_cell type (clear_indexes view c) False ps nx) \<Longrightarrow> (\<And>n. n \<in> set names \<Longrightarrow> member_of C j n = Some (ps n)) \<Longrightarrow>
      j \<notin> F' \<Longrightarrow> insert j F' \<subseteq> F \<Longrightarrow>
      \<exists>D' X' ps'. decompress_task L (Members type j names) D = Some D' \<and> went kind succ store view C G A (insert j F') F' X D X' D'
        \<and> restored_members ms view (\<lambda>b. b \<in> X') (bin_defn_offset C) D' j names F'
        \<and> cells D' j = Some (Struct_cell type (clear_indexes view c) False ps' nx) \<and> (\<forall>n. n \<notin> set names \<longrightarrow> ps' n = ps n)"
    and IH2: "\<And>k F2 X2 D3. es \<noteq> [] \<Longrightarrow> represents_elems es L view C type k F2 \<Longrightarrow> X \<subseteq> X2 \<Longrightarrow> underway kind store C G A X2 D3 \<Longrightarrow>
      (\<And>i. i \<in> F2 \<Longrightarrow> cells D3 i = cell_at C i) \<Longrightarrow> F2 \<subseteq> F \<Longrightarrow> start \<notin> F2 \<Longrightarrow>
      \<exists>D' X'. decompress_task L (Elements type start k) D3 = Some D' \<and> went kind succ store view C G A F2 (insert start (F2 - {k})) X2 D3 X' D'
        \<and> restored_elems es view (\<lambda>b. b \<in> X') (bin_defn_offset C) D' type start k (insert start F2)"
  shows "\<exists>D' X'. decompress_task L (Elements type start j) D = Some D' \<and> went kind succ store view C G A F (insert start (F - {j})) X D X' D'
      \<and> restored_elems (Struct c ms t # es) view (\<lambda>b. b \<in> X') (bin_defn_offset C) D' type start j (insert start F)"
proof -
  from rep obtain F1 F2 where rep1: "represents_elem (Struct c ms t) L view C type j F1" and F12: "F1 \<inter> F2 = {}" "F = F1 \<union> F2"
      and rest: "if es = [] then F2 = {} \<and> next_of C j = Some NULLP
        else \<exists>k. next_of C j = Some (A2R (j + next_at L type) k) \<and> represents_elems es L view C type k F2"
    unfolding represents_elems.simps elem.case by blast
  from fit have fit1: "fit_elem (Struct c ms t) A0 kind succ type" and fit2: "fit_elems es A0 kind succ type" and type: "\<not> is_shared type"
    by auto
  have agree1: "cells D i = cell_at C i" if "i \<in> F1" for i
    by (rule agree) (use that F12 in blast)
  have F1: "F1 \<inter> places C A = {}" "\<And>a. a \<in> A \<Longrightarrow> a \<notin> X \<Longrightarrow> F1 \<inter> G a = {}"
    using F F12(2) by blast+
  obtain D1 D2 X2 names F' ps nx where names: "compressed_members type (clear_indexes view c) = Some names" and F': "j \<notin> F'" "F1 = insert j F'"
    and run: "decompress_task L (Members type j names) D = Some D1" "after_members L type j (clear_indexes view c) D1 = Some D2"
    and W: "went kind succ store view C G A F1 F' X D X2 D2" and members: "restored_members ms view (\<lambda>b. b \<in> X2) (bin_defn_offset C) D2 j names F'"
    and text': "has_text_at D2 j c t" and nx: "next_of C j = Some nx"
    and cell: "cells D j = Some (Struct_cell type (clear_indexes view c) False (the \<circ> pointer D j) nx)"
      "cells D2 j = Some (Struct_cell type (clear_indexes view c) False ps nx)"
  proof (rule struct_restored [OF R U rep1 fit1 agree1 F1])
    fix names F' and ps :: "string \<Rightarrow> ptr" and nx
    assume "represents_members ms L view C type j names F'" "length names = length ms" "distinct names"
      "cells D j = Some (Struct_cell type (clear_indexes view c) False ps nx)" "\<And>n. n \<in> set names \<Longrightarrow> member_of C j n = Some (ps n)"
      "j \<notin> F'" "F1 = insert j F'"
    moreover from this(7) have "insert j F' \<subseteq> F"
      using F12(2) by blast
    ultimately show "\<exists>D' X' ps'. decompress_task L (Members type j names) D = Some D' \<and> went kind succ store view C G A (insert j F') F' X D X' D'
        \<and> restored_members ms view (\<lambda>b. b \<in> X') (bin_defn_offset C) D' j names F'
        \<and> cells D' j = Some (Struct_cell type (clear_indexes view c) False ps' nx) \<and> (\<forall>n. n \<notin> set names \<longrightarrow> ps' n = ps n)"
      using IH1 [of names F' ps nx] by blast
  qed
  have names': "compressed_members type c = Some names"
    using names by simp
  have X2: "X \<subseteq> X2" "X2 \<subseteq> A"
    using wentD(1) [OF W] underwayD(1) [OF wentD(2) [OF W]] by blast+
  have WF: "went kind succ store view C G A F (insert start (F - {j})) X D X2 D2"
    by (rule went_subset [OF W]) (use F' F12 in blast)+
  show ?thesis
  proof (cases "is_circular type")
    case False
    with one have es: "es = []"
      by simp
    have "decompress_task L (Elements type start j) D = Some D2"
      using cell(1) names run False type by (simp add: task_Elements)
    moreover have "restored_elem (Struct c ms t) view (\<lambda>b. b \<in> X2) (bin_defn_offset C) D2 type j (insert start F)"
      by (rule restored_Struct [OF members text' names' _ cell(2) cell(2)]) (use F12 F' in \<open>auto simp: unchanged_def\<close>)
    ultimately show ?thesis
      using WF False by (auto simp: es)
  next
    case True
    obtain k where k: "nx = NULLP \<Longrightarrow> k = start" "nx \<noteq> NULLP \<Longrightarrow> nx = A2R (j + next_at L type) k"
        and es: "es = [] \<and> k = start \<and> F2 = {} \<or> es \<noteq> [] \<and> represents_elems es L view C type k F2"
      using rest nx by (cases "es = []") auto
    have head: "es \<noteq> [] \<Longrightarrow> k \<in> F2"
      using es head_place [OF _ _ fit2 type] by blast
    have start2: "start \<notin> F2"
      using start(1) F12 F' by blast
    have kj: "k \<notin> F'" "es = [] \<or> k \<noteq> start"
      using head start F12 F' es start2 by blast+
    have kp: "k \<notin> places C A" "\<And>a. a \<in> A \<Longrightarrow> a \<notin> X \<Longrightarrow> k \<notin> G a"
      using es head start F F12(2) by blast+
    let ?D3 = "set_cell j (set_next (Abs k)) D2\<lparr>prev := (prev D2)(k \<mapsto> j)\<rparr>"
    have link: "link_next L type start j D2 = Some (k, ?D3)"
      by (rule link_next_pointer [OF cell(2) k])
    have jG: "j \<notin> G a" if "a \<in> A" "a \<notin> X" for a
      using F(2) [OF that] F12 F'(2) by blast
    have W3: "went kind succ store view C G A {j} {k} X2 D2 X2 ?D3"
      by (rule went_link [OF wentD(2) [OF W] _ kp(1) cell(2)]) (use jG X2 in blast)
    have cell3: "cells ?D3 j = Some (Struct_cell type (clear_indexes view c) False ps (Abs k))"
      using cell(2) by simp
    have U3: "underway kind store C G A X2 ?D3"
      by (rule wentD(2) [OF W3])
    have W23: "went kind succ store view C G A (F1 \<union> {j}) (F' \<union> {k}) X D X2 ?D3"
      by (rule went_trans [OF R W W3]) (use jG kp(2) X2 in blast)
    have un23: "unchanged F' D2 ?D3"
      by (rule went_unchanged [OF R W3 wentD(2) [OF W]]) (use F' F1 kj(1) X2 in blast)+
    have "\<exists>D' X'. decompress_task L (Elements type start j) D = Some D' \<and> went kind succ store view C G A F2 (insert start (F2 - {k})) X2 ?D3 X' D'
        \<and> (es \<noteq> [] \<longrightarrow> restored_elems es view (\<lambda>b. b \<in> X') (bin_defn_offset C) D' type start k (insert start F2))"
    proof (cases "k = start")
      case True
      with kj(2) have "decompress_task L (Elements type start j) D = Some ?D3" "es = []"
        using cell(1) names run \<open>is_circular type\<close> type link by (simp_all add: task_Elements)
      with went_refl [OF U3] show ?thesis
        by blast
    next
      case False
      with es have es': "es \<noteq> []" "represents_elems es L view C type k F2"
        by blast+
      have "cells ?D3 i = cell_at C i" if i: "i \<in> F2" for i
      proof -
        have "i \<notin> F1 \<union> {j}" "\<And>a. a \<in> X2 \<Longrightarrow> a \<notin> X \<Longrightarrow> i \<notin> G a" "i \<in> F"
          using i F12 F'(2) F(2) X2 by blast+
        with wentD(3) [OF W23, of i] agree [of i] show ?thesis
          by presburger
      qed
      with IH2 [OF es' X2(1) U3 _ _ start2] F12 obtain D' X' where
        "decompress_task L (Elements type start k) ?D3 = Some D'" "went kind succ store view C G A F2 (insert start (F2 - {k})) X2 ?D3 X' D'"
        "restored_elems es view (\<lambda>b. b \<in> X') (bin_defn_offset C) D' type start k (insert start F2)"
        by (metis (no_types, lifting) Un_upper2)
      moreover from this(1) False have "decompress_task L (Elements type start j) D = Some D'"
        using cell(1) names run \<open>is_circular type\<close> type link by (simp add: task_Elements)
      ultimately show ?thesis
        by blast
    qed
    then obtain D' X' where 4: "decompress_task L (Elements type start j) D = Some D'" "went kind succ store view C G A F2 (insert start (F2 - {k})) X2 ?D3 X' D'"
        "es \<noteq> [] \<Longrightarrow> restored_elems es view (\<lambda>b. b \<in> X') (bin_defn_offset C) D' type start k (insert start F2)"
      by blast
    have X': "X2 \<subseteq> X'" "X' \<subseteq> A"
      using wentD(1) [OF 4(2)] underwayD(1) [OF wentD(2) [OF 4(2)]] by blast+
    have out: "i \<notin> G a" if "i \<in> insert start F" "a \<in> A" "a \<notin> X2" for i a
      using that F(2) start(3) X2 by blast
    have un3: "unchanged F' ?D3 D'"
    proof (rule went_unchanged [OF R 4(2) U3])
      show "F' \<inter> F2 = {}" "F' \<inter> insert start (F2 - {k}) = {}" "F' \<inter> places C A = {}"
        using F12 F' start(1) F1(1) by blast+
      show "F' \<inter> G a = {}" if "a \<in> A" "a \<notin> X2" for a
        using out [OF _ that] F12 F' by blast
    qed
    have unch: "unchanged F' D2 D'"
      using un23 un3 by (simp add: unchanged_def)
    have cell4: "cells D' j = Some (Struct_cell type (clear_indexes view c) False ps (Abs k))"
    proof -
      have "j \<notin> F2" "\<And>a. a \<in> X' \<Longrightarrow> a \<notin> X2 \<Longrightarrow> j \<notin> G a"
        using F12 F' out X' by blast+
      from wentD(3) [OF 4(2) this] show ?thesis
        using cell3 by simp
    qed
    have prev4: "prev D' k = Some j"
    proof (cases "es = []")
      case True
      then have "D' = ?D3"
        using 4(1) es cell(1) names run \<open>is_circular type\<close> type link by (simp add: task_Elements)
      then show ?thesis
        by simp
    next
      case False
      have "k \<notin> insert start (F2 - {k})" "\<And>a. a \<in> X' \<Longrightarrow> a \<notin> X2 \<Longrightarrow> k \<notin> G a"
        using False kj(2) out head F12 X' by blast+
      from wentD(4) [OF 4(2) this kp(1)] show ?thesis
        by simp
    qed
    have "restored_elem (Struct c ms t) view (\<lambda>b. b \<in> X') (bin_defn_offset C) D' type j (insert start F)"
      by (rule restored_Struct [OF members text' names' unch cell(2) cell4]) (use F12 F' X' in blast)+
    moreover have "k \<in> insert start F"
      using es head F12 by blast
    moreover have "es \<noteq> [] \<Longrightarrow> restored_elems es view (\<lambda>b. b \<in> X') (bin_defn_offset C) D' type start k (insert start F)"
      by (rule restored_mono(2) [OF 4(3)]) (use F12 in blast)+
    ultimately have "restored_elems (Struct c ms t # es) view (\<lambda>b. b \<in> X') (bin_defn_offset C) D' type start j (insert start F)"
      using cell4 prev4 es by auto
    moreover have "went kind succ store view C G A F (insert start (F - {j})) X D X' D'"
    proof -
      have "went kind succ store view C G A (F1 \<union> {j} \<union> F2) (F' \<union> {k} \<union> insert start (F2 - {k})) X D X' D'"
        by (rule went_trans [OF R W23 4(2)]) (use F(2) start(3) F12 X2 in blast)
      moreover have "F1 \<union> {j} \<union> F2 \<subseteq> F" "F' \<union> {k} \<union> insert start (F2 - {k}) \<subseteq> insert start (F - {j})"
        using F12 F' head es by blast+
      ultimately show ?thesis
        by (rule went_subset)
    qed
    ultimately show ?thesis
      using 4(1) by blast
  qed
qed


text \<open>What decompression does with the members of a shared structure that is entered, for at most \<open>n\<close> others still to be entered.\<close>

definition visits :: "layout \<Rightarrow> (nat \<Rightarrow> SqlStatementType) \<Rightarrow> (nat \<Rightarrow> nat) \<Rightarrow> 'd store \<Rightarrow> bool \<Rightarrow> 'd compress_state \<Rightarrow> (nat \<Rightarrow> nat set) \<Rightarrow> nat set \<Rightarrow> nat \<Rightarrow> bool" where
  "visits L kind succ store view C G A n \<longleftrightarrow> (\<forall>a X D j names ps nx.
     underway kind store C G A X D \<longrightarrow> a \<in> X \<longrightarrow> card (A - X) < n \<longrightarrow> bin_defn_offset C a = Offset j \<longrightarrow>
     cells D j = Some (Struct_cell (kind a) (fst (store a)) False ps nx) \<longrightarrow> (\<forall>m. member_of C j m = Some (ps m)) \<longrightarrow>
     (\<forall>i\<in>G a - {j}. cells D i = cell_at C i) \<longrightarrow> compressed_members (kind a) (fst (store a)) = Some names \<longrightarrow>
     (\<exists>D' X' ps'. decompress_task L (Members (kind a) j names) D = Some D' \<and> went kind succ store view C G A (G a) (G a) X D X' D'
        \<and> restored_members (snd (store a)) view (\<lambda>b. b \<in> X') (bin_defn_offset C) D' j names (G a - {j})
        \<and> cells D' j = Some (Struct_cell (kind a) (fst (store a)) False ps' nx)))"

text \<open>A shared structure is entered: its \<open>bin_defn_offset\<close> is cleared, and its members are decompressed.\<close>

lemma underway_enter:
  assumes R: "compressed L store kind succ view C A G A0" and U: "underway kind store C G A X D" and a: "a \<in> A" "a \<notin> X" "bin_defn_offset C a = Offset j"
  shows "underway kind store C G A (insert a X) (set_cell j clear_bin_defn_offset D)"
proof -
  obtain ps nx where cell: "cells D j = Some (Struct_cell (kind a) (fst (store a)) True ps nx)"
    using compressedD(4) [OF R a(1,3)] underwayD(2) [OF U a(1,2) place_own(1) [OF R a(1,3)]] by (auto simp: represents_shared_def)
  have "cells (set_cell j clear_bin_defn_offset D) i = cell_at C i" if "b \<in> A - insert a X" "i \<in> G b" for b i
    using underwayD(2) [OF U _ _ that(2)] compressedD(5) [OF R a(1), of b] place_own(1) [OF R a(1,3)] that by auto
  moreover have "visited kind store C (set_cell j clear_bin_defn_offset D) b" if b: "b \<in> insert a X" for b
  proof (cases "b = a")
    case False
    then show ?thesis
      using underwayD(3) [OF U, of b] b by (fastforce simp: visited_def)
  qed (simp add: visited_def a(3) cell)
  moreover have "cells (set_cell j clear_bin_defn_offset D) i = Some (Text_cell s) \<longleftrightarrow> cells D i = Some (Text_cell s)" for i s
    by (simp add: cell)
  ultimately show ?thesis
    using underwayD(1,4) [OF U] a(1) by (auto simp: underway_def simp del: cells_set_cell)
qed

lemma enter_shared:
  fixes D :: "'d decompress_state"
  assumes R: "compressed L store kind succ view C A G A0" and V: "visits L kind succ store view C G A n" and U: "underway kind store C G A X D"
    and n: "card (A - X) \<le> n" and a: "a \<in> A" "a \<notin> X" "bin_defn_offset C a = Offset j" and type: "is_shared (kind a)"
  obtains D1 D2 X2 names ps nx where "cells D j = Some (Struct_cell (kind a) (fst (store a)) True (the \<circ> pointer D j) nx)" and "next_of C j = Some nx"
    and "compressed_members (kind a) (fst (store a)) = Some names"
    and "decompress_task L (Members (kind a) j names) (set_cell j clear_bin_defn_offset D) = Some D1"
    and "after_members L (kind a) j (fst (store a)) D1 = Some D2"
    and "went kind succ store view C G A (G a) (G a) (insert a X) (set_cell j clear_bin_defn_offset D) X2 D2"
    and "restored_members (snd (store a)) view (\<lambda>b. b \<in> X2) (bin_defn_offset C) D2 j names (G a - {j})"
    and "cells D2 j = Some (Struct_cell (kind a) (fst (store a)) False ps nx)"
proof -
  let ?D = "set_cell j clear_bin_defn_offset D"
  have agree: "cells D i = cell_at C i" if "i \<in> G a" for i
    by (rule underwayD(2) [OF U a(1,2) that])
  obtain ps nx where C: "cell_at C j = Some (Struct_cell (kind a) (fst (store a)) True ps nx)"
    using compressedD(4) [OF R a(1,3)] by (auto simp: represents_shared_def)
  then have cell: "cells D j = Some (Struct_cell (kind a) (fst (store a)) True ps nx)"
    using agree [OF place_own(1) [OF R a(1,3)]] by simp
  obtain names where names: "compressed_members (kind a) (fst (store a)) = Some names" "length names = length (snd (store a))"
    using compressedD(8) [OF R a(1)] by (auto simp: members_fit_def)
  have "card (A - insert a X) < card (A - X)"
    by (rule psubset_card_mono) (use a compressedD(3) [OF R] in auto)
  with n have n': "card (A - insert a X) < n"
    by simp
  have "cells ?D j = Some (Struct_cell (kind a) (fst (store a)) False ps nx)" "\<forall>m. member_of C j m = Some (ps m)" "\<forall>i\<in>G a - {j}. cells ?D i = cell_at C i"
    using cell C agree by (simp_all add: member_of_def)
  then obtain D1 X2 ps' where 1: "decompress_task L (Members (kind a) j names) ?D = Some D1"
      "went kind succ store view C G A (G a) (G a) (insert a X) ?D X2 D1"
      "restored_members (snd (store a)) view (\<lambda>b. b \<in> X2) (bin_defn_offset C) D1 j names (G a - {j})"
      "cells D1 j = Some (Struct_cell (kind a) (fst (store a)) False ps' nx)"
    using V underway_enter [OF R U a] n' a(3) names(1) unfolding visits_def by (metis insertI1)
  have "\<exists>D2. after_members L (kind a) j (fst (store a)) D1 = Some D2 \<and> cells D2 = cells D1 \<and> prev D2 = prev D1"
  proof (cases "kind a = column_STATEMENT")
    case True
    with names(1) have names': "names = [''table'', ''columnName'', ''keywords'']"
      by (simp add: compressed_members_def)
    from set_delim_works [OF 1(3) [unfolded this]] compressedD(10) [OF R a(1) True] names(2) show ?thesis
      by (simp add: after_members_def True names')
  next
    case False
    with type show ?thesis
      by (auto simp: after_members_def is_shared_def)
  qed
  then obtain D2 where D2: "after_members L (kind a) j (fst (store a)) D1 = Some D2" "cells D2 = cells D1" "prev D2 = prev D1"
    by blast
  have p: "pointer D2 j m = pointer D1 j m" for m
    by (simp add: pointer_def D2(2))
  have "unchanged (G a - {j}) D1 D2"
    using D2(2,3) by (simp add: unchanged_def)
  note members = restored_later(4) [OF this _ 1(3) p, where seen' = "\<lambda>b. b \<in> X2"]
  have "cells D j = Some (Struct_cell (kind a) (fst (store a)) True (the \<circ> pointer D j) nx)" "next_of C j = Some nx"
    using cell C by (auto simp: pointer_def next_of_def)
  from that [OF this names(1) 1(1) D2(1) went_fields [OF 1(2) D2(2,3)] members] 1(4) D2(2) show thesis
    by simp
qed

lemma represents_rest: "represents_elems (Shared a # e # es) L view C type j F \<Longrightarrow> fit_elems (e # es) A0 kind succ type \<Longrightarrow> is_shared type \<Longrightarrow>
    \<exists>k. next_of C j = Some (A2R (j + next_at L type) k) \<and> represents_elems (e # es) L view C type k F"
  by auto

lemma A2R_inject [simp]: "A2R i j = A2R i k \<longleftrightarrow> j = k"
  by (simp add: A2R_def)

lemma next_shared:
  assumes R: "compressed L store kind succ view C A G A0" and a: "a \<in> A" "bin_defn_offset C a = Offset j" and nx: "next_of C j = Some p" "p \<noteq> NULLP"
  shows "\<exists>k. bin_defn_offset C (succ a) = Offset k \<and> p = A2R (j + next_at L (kind a)) k"
proof -
  obtain ps where "cell_at C j = Some (Struct_cell (kind a) (fst (store a)) True ps p)"
    using compressedD(4) [OF R a] nx(1) by (auto simp: represents_shared_def next_of_def)
  then show ?thesis
    using placedD(2) [OF compressedD(1) [OF R]] a(2) nx(2) unfolding next_ok_def by blast
qed

lemma shared_elems_step:
  fixes D :: "'d decompress_state"
  assumes R: "compressed L store kind succ view C A G A0" and V: "visits L kind succ store view C G A n"
    and b: "bin_defn_offset C b = Offset start" "b \<in> insert a X" and a: "a \<in> A" "bin_defn_offset C a = Offset j" and type: "is_shared (kind a)"
    and one: "is_circular (kind a) \<or> es = []" and last: "is_circular (kind a) \<Longrightarrow> es = [] \<Longrightarrow> succ a = b"
    and rest: "es \<noteq> [] \<Longrightarrow> \<exists>k. next_of C j = Some (A2R (j + next_at L (kind a)) k) \<and> bin_defn_offset C (succ a) = Offset k \<and> succ a \<in> A"
    and U: "underway kind store C G A X D" and n: "card (A - X) \<le> n"
    and IH: "\<And>k X2 D3. es \<noteq> [] \<Longrightarrow> bin_defn_offset C (succ a) = Offset k \<Longrightarrow> insert a X \<subseteq> X2 \<Longrightarrow> underway kind store C G A X2 D3 \<Longrightarrow>
      \<exists>D' X'. decompress_task L (Elements (kind a) start k) D3 = Some D' \<and> went kind succ store view C G A {} {} X2 D3 X' D' \<and> succ a \<in> X'"
  shows "\<exists>D' X'. decompress_task L (Elements (kind a) start j) D = Some D' \<and> went kind succ store view C G A {} {} X D X' D' \<and> a \<in> X'"
proof (cases "a \<in> X")
  case True
  then obtain ps nx where "cells D j = Some (Struct_cell (kind a) (fst (store a)) False ps nx)"
    using underwayD(3) [OF U True] a(2) by (auto simp: visited_def)
  then have "decompress_task L (Elements (kind a) start j) D = Some D"
    using type by (simp add: task_Elements)
  with went_refl [OF U] True show ?thesis
    by blast
next
  case False
  obtain D1 D2 X2 names ps nx where cell: "cells D j = Some (Struct_cell (kind a) (fst (store a)) True (the \<circ> pointer D j) nx)" and nx: "next_of C j = Some nx"
    and names: "compressed_members (kind a) (fst (store a)) = Some names"
    and run: "decompress_task L (Members (kind a) j names) (set_cell j clear_bin_defn_offset D) = Some D1"
      "after_members L (kind a) j (fst (store a)) D1 = Some D2"
    and W2: "went kind succ store view C G A (G a) (G a) (insert a X) (set_cell j clear_bin_defn_offset D) X2 D2"
    and members: "restored_members (snd (store a)) view (\<lambda>b. b \<in> X2) (bin_defn_offset C) D2 j names (G a - {j})"
    and cell2: "cells D2 j = Some (Struct_cell (kind a) (fst (store a)) False ps nx)"
    by (rule enter_shared [OF R V U n a(1) False a(2) type])
  have members': "restored_members (snd (store a)) view (\<lambda>b. b \<in> X2) (bin_defn_offset C) D2 j
      (the (compressed_members (kind a) (fst (store a)))) (G a - {j})"
    using members names by simp
  have X2: "insert a X \<subseteq> X2" "X2 \<subseteq> A"
    using wentD(1) [OF W2] underwayD(1) [OF wentD(2) [OF W2]] by blast+
  note shared = went_shared [OF R a(1) False a(2) U W2 members' _ cell2]
  show ?thesis
  proof (cases "is_circular (kind a)")
    case False
    then have "decompress_task L (Elements (kind a) start j) D = Some D2"
      using cell names run type by (simp add: task_Elements)
    moreover have "went kind succ store view C G A {} {} X D X2 D2"
      by (rule shared [OF _ cell2 _ _ went_refl [OF wentD(2) [OF W2]]]) (use False in simp_all)
    ultimately show ?thesis
      using X2 by blast
  next
    case True
    obtain k where k: "nx = NULLP \<Longrightarrow> k = start" "nx \<noteq> NULLP \<Longrightarrow> nx = A2R (j + next_at L (kind a)) k"
        "bin_defn_offset C (succ a) = Offset k" and succ: "succ a \<in> A" and last': "es = [] \<Longrightarrow> k = start"
    proof (cases "es = []")
      case True
      then have "succ a = b"
        by (rule last [OF \<open>is_circular (kind a)\<close>])
      moreover have "b \<in> A"
        using b(2) a(1) underwayD(1) [OF U] by blast
      moreover have "nx \<noteq> NULLP \<Longrightarrow> nx = A2R (j + next_at L (kind a)) start"
        using next_shared [OF R a nx] b(1) calculation(1) by auto
      ultimately show thesis
        using that b(1) by blast
    next
      case False
      with rest nx that show thesis
        by auto
    qed
    let ?D3 = "set_cell j (set_next (Abs k)) D2\<lparr>prev := (prev D2)(k \<mapsto> j)\<rparr>"
    have link: "link_next L (kind a) start j D2 = Some (k, ?D3)"
      by (rule link_next_pointer [OF cell2 k(1,2)])
    have cell3: "cells ?D3 j = Some (Struct_cell (kind a) (fst (store a)) False ps (Abs k))"
      using cell2 by simp
    have U3: "underway kind store C G A X2 ?D3"
    proof (rule underway_cell [OF wentD(2) [OF W2] _ _ cell2 cell3])
      show "j \<notin> G c" if "c \<in> A" "c \<notin> X2" for c
        using compressedD(5) [OF R a(1) that(1)] place_own(1) [OF R a] that(2) X2 by blast
    qed simp_all
    have "\<exists>D' X'. decompress_task L (Elements (kind a) start j) D = Some D' \<and> went kind succ store view C G A {} {} X2 ?D3 X' D' \<and> succ a \<in> X'"
    proof (cases "k = start")
      case True
      with b(1) k(3) have "succ a = b"
        using baseD(4) [OF placedD(1) [OF compressedD(1) [OF R]]] by blast
      then have "succ a \<in> X2"
        using b(2) X2 by blast
      moreover have "decompress_task L (Elements (kind a) start j) D = Some ?D3"
        using cell names run \<open>is_circular (kind a)\<close> type link True by (simp add: task_Elements)
      ultimately show ?thesis
        using went_refl [OF U3] by blast
    next
      case False
      with last' have "es \<noteq> []"
        by blast
      from IH [OF this k(3) X2(1) U3] obtain D' X' where "decompress_task L (Elements (kind a) start k) ?D3 = Some D'"
          "went kind succ store view C G A {} {} X2 ?D3 X' D'" "succ a \<in> X'"
        by blast
      moreover from this(1) have "decompress_task L (Elements (kind a) start j) D = Some D'"
        using cell names run \<open>is_circular (kind a)\<close> type link False by (simp add: task_Elements)
      ultimately show ?thesis
        by blast
    qed
    then obtain D' X' where 4: "decompress_task L (Elements (kind a) start j) D = Some D'" "went kind succ store view C G A {} {} X2 ?D3 X' D'" "succ a \<in> X'"
      by blast
    have "went kind succ store view C G A {} {} X D X' D'"
    proof (rule shared [OF _ cell3 _ _ 4(2)])
      show "\<exists>k'. bin_defn_offset C (succ a) = Offset k' \<and> succ a \<in> A \<and> Abs k = Abs k' \<and> prev ?D3 = (prev D2)(k' \<mapsto> j)"
        using k(3) succ by auto
    qed (use True 4(3) in simp_all)
    then show ?thesis
      using 4(1) X2 wentD(1) [OF 4(2)] by blast
  qed
qed

lemma shared_elems:
  fixes D :: "'d decompress_state"
  assumes R: "compressed L store kind succ view C A G A0" and V: "visits L kind succ store view C G A n" and type: "is_shared type"
    and b: "bin_defn_offset C b = Offset start"
  shows "represents_elems (Shared a # es) L view C type j F \<Longrightarrow> fit_elems (Shared a # es) A0 kind succ type \<Longrightarrow> is_circular type \<or> es = [] \<Longrightarrow>
    linked succ (Shared a # es) \<Longrightarrow> (is_circular type \<Longrightarrow> case last (Shared a # es) of Shared z \<Rightarrow> succ z = b | _ \<Rightarrow> False) \<Longrightarrow> b \<in> insert a X \<Longrightarrow>
    underway kind store C G A X D \<Longrightarrow> card (A - X) \<le> n \<Longrightarrow>
    \<exists>D' X'. decompress_task L (Elements type start j) D = Some D' \<and> went kind succ store view C G A {} {} X D X' D' \<and> a \<in> X'"
proof (induction es arbitrary: a j F X D)
  case Nil
  have a: "a \<in> A" "bin_defn_offset C a = Offset j" "kind a = type"
    using represents_Shared [OF Nil.prems(1) _ type] Nil.prems(2) compressedD(2) [OF R] by auto
  show ?case
    by (rule shared_elems_step [OF R V b Nil.prems(6) a(1,2), where es = "[]", unfolded a(3), OF type _ _ _ Nil.prems(7,8)])
      (use Nil.prems(5) in simp_all)
next
  case (Cons e es)
  have fit: "fit_elems (e # es) A0 kind succ type" and circ: "is_circular type"
    using Cons.prems(2,3) by simp_all
  have a: "a \<in> A" "bin_defn_offset C a = Offset j" "kind a = type"
    using represents_Shared [OF Cons.prems(1) fit type] Cons.prems(2) compressedD(2) [OF R] by auto
  have e: "e = Shared (succ a)"
    using Cons.prems(4) by simp
  from represents_rest [OF Cons.prems(1) fit type] obtain k where k: "next_of C j = Some (A2R (j + next_at L type) k)"
      "represents_elems (Shared (succ a) # es) L view C type k F"
    by (auto simp: e)
  have s: "bin_defn_offset C (succ a) = Offset k" "succ a \<in> A"
    using represents_Shared [OF k(2) _ type] fit compressedD(2) [OF R] by (auto simp: e)
  show ?case
  proof (rule shared_elems_step [OF R V b Cons.prems(6) a(1,2), where es = "e # es", unfolded a(3), OF type _ _ _ Cons.prems(7,8)])
    fix k' X2 and D3 :: "'d decompress_state"
    assume k': "bin_defn_offset C (succ a) = Offset k'" and X2: "insert a X \<subseteq> X2" and U: "underway kind store C G A X2 D3"
    have "card (A - X2) \<le> card (A - X)"
      by (rule card_mono) (use compressedD(3) [OF R] X2 in auto)
    with Cons.prems(8) have "card (A - X2) \<le> n"
      by simp
    moreover have "k' = k"
      using k' s(1) by simp
    ultimately show "\<exists>D' X'. decompress_task L (Elements type start k') D3 = Some D' \<and> went kind succ store view C G A {} {} X2 D3 X' D' \<and> succ a \<in> X'"
      using Cons.IH [OF k(2) _ _ _ _ _ U] Cons.prems(4-6) fit circ X2 by (auto simp: e)
  qed (use k s circ in auto)
qed


section \<open>The walk\<close>

text \<open>Places that are still as in the buffer, and not those of shared structures.\<close>

definition ready :: "'d compress_state \<Rightarrow> (nat \<Rightarrow> nat set) \<Rightarrow> nat set \<Rightarrow> nat set \<Rightarrow> 'd decompress_state \<Rightarrow> nat set \<Rightarrow> bool" where
  "ready C G A X D F \<longleftrightarrow> (\<forall>i\<in>F. cells D i = cell_at C i) \<and> F \<inter> places C A = {} \<and> (\<forall>a\<in>A. a \<notin> X \<longrightarrow> F \<inter> G a = {})"

lemma readyD:
  assumes "ready C G A X D F"
  shows "i \<in> F \<Longrightarrow> cells D i = cell_at C i" "F \<inter> places C A = {}" "a \<in> A \<Longrightarrow> a \<notin> X \<Longrightarrow> F \<inter> G a = {}"
    "F' \<subseteq> F \<Longrightarrow> ready C G A X D F'" "X \<subseteq> X' \<Longrightarrow> (\<And>i. i \<in> F \<Longrightarrow> cells D' i = cells D i) \<Longrightarrow> ready C G A X' D' F"
  using assms unfolding ready_def by (blast, blast, blast, blast, auto)

lemma went_enters: "went kind succ store view C G A F P X D X' D' \<Longrightarrow> X \<subseteq> X' \<and> X' \<subseteq> A"
  by (rule conjI [OF wentD(1) underwayD(1) [OF wentD(2)]])

lemma statement_start:
  fixes D :: "'d decompress_state"
  assumes U: "underway kind store C G A X D" and ready: "ready C G A X D (insert i F')" and i: "i \<notin> F'" and cell: "cell_at C i = Some (Stmt_cell type d p)"
  shows "cells D i = Some (Stmt_cell type d p)" and "went kind succ store view C G A {i} {} X D X (set_cell i (set_v (Abs j)) D)"
    and "ready C G A X (set_cell i (set_v (Abs j)) D) F'" and "cells (set_cell i (set_v (Abs j)) D) i = Some (Stmt_cell type d (Abs j))"
proof -
  show cellD: "cells D i = Some (Stmt_cell type d p)"
    using readyD(1) [OF ready, of i] cell by simp
  then show "cells (set_cell i (set_v (Abs j)) D) i = Some (Stmt_cell type d (Abs j))"
    by simp
  show "went kind succ store view C G A {i} {} X D X (set_cell i (set_v (Abs j)) D)"
  proof (rule went_set_cell [OF U])
    show "i \<notin> G a" if "a \<in> A" "a \<notin> X" for a
      using readyD(3) [OF ready that] by blast
    show "c = Text_cell s" if "set_v (Abs j) c = Text_cell s" for c :: "'d cell" and s
      using that by (cases c) auto
  qed simp_all
  show "ready C G A X (set_cell i (set_v (Abs j)) D) F'"
    by (rule readyD(5) [OF readyD(4) [OF ready] subset_refl]) (use i in auto)
qed

lemma statement_end:
  assumes R: "compressed L store kind succ view C A G A0"
    and W1: "went kind succ store view C G A {i} {} X D X D1" and W2: "went kind succ store view C G A F' F' X D1 X' D2"
    and i: "i \<notin> F'" "ready C G A X D (insert i F')" and cell: "cells D1 i = Some (Stmt_cell type d (Abs j))"
    and es: "restored_elems es view (\<lambda>b. b \<in> X') (bin_defn_offset C) D2 type j j F'" "es \<noteq> []"
  shows "went kind succ store view C G A (insert i F') (insert i F') X D X' D2"
    and "restored (Statement type d es) view (\<lambda>b. b \<in> X') (bin_defn_offset C) D2 (Some i) (insert i F')"
proof -
  have "i \<notin> G a" if "a \<in> X'" "a \<notin> X" for a
    using readyD(3) [OF i(2) _ that(2)] went_enters [OF W2] that(1) by blast
  with wentD(3) [OF W2 i(1)] have "cells D2 i = cells D1 i"
    by blast
  with restored_mono(2) [OF es(1), of "insert i F'"] es(2) cell
  show "restored (Statement type d es) view (\<lambda>b. b \<in> X') (bin_defn_offset C) D2 (Some i) (insert i F')"
    by auto
  have "went kind succ store view C G A ({i} \<union> F') ({} \<union> F') X D X' D2"
    by (rule went_trans [OF R W1 W2]) simp
  then show "went kind succ store view C G A (insert i F') (insert i F') X D X' D2"
    by (rule went_subset) blast+
qed

lemma walk_restores:
  fixes store :: "'d store"
  assumes R: "compressed L store kind succ view C A G A0" and V: "visits L kind succ store view C G A n"
  shows "represents s L view C (Some i) F \<Longrightarrow> fits s A0 kind succ \<Longrightarrow> loads s succ \<Longrightarrow> underway kind store C G A X D \<Longrightarrow> card (A - X) \<le> n \<Longrightarrow>
      ready C G A X D F \<Longrightarrow> \<exists>D' X'. decompress_task L (Helper i) D = Some D' \<and> went kind succ store view C G A F F X D X' D'
        \<and> restored s view (\<lambda>b. b \<in> X') (bin_defn_offset C) D' (Some i) F"
    and "represents_elems es L view C type j F \<Longrightarrow> es \<noteq> [] \<Longrightarrow> fit_elems es A0 kind succ type \<Longrightarrow> is_circular type \<or> length es \<le> 1 \<Longrightarrow> load_elems es succ \<Longrightarrow>
      \<not> is_shared type \<Longrightarrow> underway kind store C G A X D \<Longrightarrow> card (A - X) \<le> n \<Longrightarrow> ready C G A X D F \<Longrightarrow> start = j \<or> start \<notin> F \<Longrightarrow>
      start \<notin> places C A \<Longrightarrow> (\<And>a. a \<in> A \<Longrightarrow> a \<notin> X \<Longrightarrow> start \<notin> G a) \<Longrightarrow>
      \<exists>D' X'. decompress_task L (Elements type start j) D = Some D' \<and> went kind succ store view C G A F (insert start (F - {j})) X D X' D'
        \<and> restored_elems es view (\<lambda>b. b \<in> X') (bin_defn_offset C) D' type start j (insert start F)"
    and "(case e of Shared _ \<Rightarrow> True | Struct c ms t \<Rightarrow> represents_members ms L view C type j names F \<longrightarrow> length names = length ms \<longrightarrow> distinct names \<longrightarrow>
      cells D j = Some (Struct_cell type c' sh ps nx) \<longrightarrow> (\<forall>n\<in>set names. member_of C j n = Some (ps n)) \<longrightarrow> j \<notin> F \<longrightarrow>
      all_fit ms A0 kind succ \<longrightarrow> all_load ms succ \<longrightarrow> underway kind store C G A X D \<longrightarrow> card (A - X) \<le> n \<longrightarrow> ready C G A X D F \<longrightarrow>
      (\<forall>a\<in>A. a \<notin> X \<longrightarrow> j \<notin> G a) \<longrightarrow>
      (\<exists>D' X' ps'. decompress_task L (Members type j names) D = Some D' \<and> went kind succ store view C G A (insert j F) F X D X' D'
        \<and> restored_members ms view (\<lambda>b. b \<in> X') (bin_defn_offset C) D' j names F
        \<and> cells D' j = Some (Struct_cell type c' sh ps' nx) \<and> (\<forall>n. n \<notin> set names \<longrightarrow> ps' n = ps n)))"
    and "represents_members ms L view C type j names F \<Longrightarrow> length names = length ms \<Longrightarrow> distinct names \<Longrightarrow>
      cells D j = Some (Struct_cell type c' sh ps nx) \<Longrightarrow> (\<And>n. n \<in> set names \<Longrightarrow> member_of C j n = Some (ps n)) \<Longrightarrow> j \<notin> F \<Longrightarrow>
      all_fit ms A0 kind succ \<Longrightarrow> all_load ms succ \<Longrightarrow> underway kind store C G A X D \<Longrightarrow> card (A - X) \<le> n \<Longrightarrow> ready C G A X D F \<Longrightarrow>
      (\<And>a. a \<in> A \<Longrightarrow> a \<notin> X \<Longrightarrow> j \<notin> G a) \<Longrightarrow>
      \<exists>D' X' ps'. decompress_task L (Members type j names) D = Some D' \<and> went kind succ store view C G A (insert j F) F X D X' D'
        \<and> restored_members ms view (\<lambda>b. b \<in> X') (bin_defn_offset C) D' j names F
        \<and> cells D' j = Some (Struct_cell type c' sh ps' nx) \<and> (\<forall>n. n \<notin> set names \<longrightarrow> ps' n = ps n)"
proof (induction s and es and e and ms arbitrary: i F X D and type j F start X D and type j names F X D c' sh ps nx and type j names F X D c' sh ps nx
    rule: restored.induct restored_elems.induct restored_elem.induct restored_members.induct)
  case (Data_type d t)
  then have "cells D i = Some (Type_cell d t)" "restored (Data_type d t) view (\<lambda>b. b \<in> X) (bin_defn_offset C) D (Some i) F"
    using readyD(1) [OF Data_type.prems(6)] by (auto split: if_splits)
  moreover from this(1) have "decompress_task L (Helper i) D = Some D"
    by (simp add: task_Helper)
  ultimately show ?case
    using went_refl [OF Data_type.prems(4)] by blast
next
  case (Statement type d es)
  from Statement.prems(1) obtain j F' where es: "es \<noteq> []" and cell: "cell_at C i = Some (Stmt_cell type d (A2R (i + v_at L) j))"
      and rep: "represents_elems es L view C type j F'" and F: "i \<notin> F'" "F = insert i F'"
    by (auto split: if_splits)
  have fit: "fit_elems es A0 kind succ type" "is_circular type \<or> length es \<le> 1" "linked succ es"
    using Statement.prems(2) by simp_all
  let ?D1 = "set_cell i (set_v (Abs j)) D"
  note start = statement_start(1) [OF Statement.prems(4) Statement.prems(6) [unfolded F(2)] F(1) cell]
    statement_start(2-4) [OF Statement.prems(4) Statement.prems(6) [unfolded F(2)] F(1) cell, where j = j]
  have "\<exists>D2 X' D3. decompress_task L (Elements type j j) ?D1 = Some D2 \<and> went kind succ store view C G A F' F' X ?D1 X' D2
      \<and> restored_elems es view (\<lambda>b. b \<in> X') (bin_defn_offset C) D2 type j j F'
      \<and> (if type = join_STATEMENT then set_max_unique_id L j D2 else Some D2) = Some D3 \<and> cells D3 = cells D2 \<and> prev D3 = prev D2"
  proof (cases "is_shared type")
    case True
    with es fit(1) obtain a es' where a: "es = Shared a # es'"
      by (cases es; cases "hd es") auto
    have "fit_elems es' A0 kind succ type"
      using fit(1) by (simp add: a)
    from represents_Shared [OF rep [unfolded a] this True] have place: "bin_defn_offset C a = Offset j" "F' = {}"
      by blast+
    have circle: "case last (Shared a # es') of Shared z \<Rightarrow> succ z = a | _ \<Rightarrow> False" if "is_circular type"
      using Statement.prems(3) that by (simp add: a)
    obtain D2 X2 where "decompress_task L (Elements type j j) ?D1 = Some D2" "went kind succ store view C G A {} {} X ?D1 X2 D2" "a \<in> X2"
      using shared_elems [OF R V True place(1) rep [unfolded a] fit(1) [unfolded a] _ fit(3) [unfolded a] circle insertI1 wentD(2) [OF start(2)]
        Statement.prems(5)] fit(2) by (auto simp: a)
    moreover have "type \<noteq> join_STATEMENT"
      using True by (auto simp: is_shared_def)
    ultimately show ?thesis
      using place by (auto simp: a)
  next
    case False
    have jF: "j \<in> F'"
      by (rule head_place [OF rep es fit(1) False])
    have "j \<notin> places C A" "\<And>a. a \<in> A \<Longrightarrow> a \<notin> X \<Longrightarrow> j \<notin> G a"
      using readyD(2,3) [OF start(3)] jF by blast+
    then obtain D2 X2 where 2: "decompress_task L (Elements type j j) ?D1 = Some D2" "went kind succ store view C G A F' (insert j (F' - {j})) X ?D1 X2 D2"
        "restored_elems es view (\<lambda>b. b \<in> X2) (bin_defn_offset C) D2 type j j (insert j F')"
      using Statement.IH [OF rep es fit(1,2) _ False wentD(2) [OF start(2)] Statement.prems(5) start(3), of j] Statement.prems(3) by auto
    have F': "insert j (F' - {j}) = F'" "insert j F' = F'"
      using jF by blast+
    show ?thesis
    proof (cases "type = join_STATEMENT")
      case True
      with Statement.prems(3) es obtain c m ms t es' where "es = Struct c (m # ms) t # es'" "is_table m"
        by (auto split: list.splits elem.splits)
      from set_max_unique_id_works [OF 2(3) [unfolded True] this fit(1) [unfolded True] wentD(2) [OF 2(2)]] 2 F' True show ?thesis
        by auto
    qed (use 2 F' in auto)
  qed
  then obtain D2 X' D3 where 2: "decompress_task L (Elements type j j) ?D1 = Some D2" "went kind succ store view C G A F' F' X ?D1 X' D2"
      "restored_elems es view (\<lambda>b. b \<in> X') (bin_defn_offset C) D2 type j j F'"
      "(if type = join_STATEMENT then set_max_unique_id L j D2 else Some D2) = Some D3" "cells D3 = cells D2" "prev D3 = prev D2"
    by blast
  have "restored_elems es view (\<lambda>b. b \<in> X') (bin_defn_offset C) D3 type j j F'"
    by (rule restored_later(2) [OF _ _ 2(3)]) (simp_all add: unchanged_def 2(5,6))
  from statement_end [OF R start(2) went_fields [OF 2(2,5,6)] F(1) Statement.prems(6) [unfolded F(2)] start(4) this es] 2(1,4) start(1) show ?case
    by (auto simp: task_Helper F(2))
next
  case (Cons_elem e es)
  from Cons_elem.prems(3,6) obtain c ms t where e: "e = Struct c ms t"
    by (cases e) auto
  have fit: "fit_elems (Struct c ms t # es) A0 kind succ type" "fit_elems es A0 kind succ type" "all_fit ms A0 kind succ" and load: "all_load ms succ" "load_elems es succ"
    using Cons_elem.prems(3,5) by (simp_all add: e)
  note ready = Cons_elem.prems(9)
  show ?case
    unfolding e
  proof (rule struct_elems_step [OF R Cons_elem.prems(7) Cons_elem.prems(1) [unfolded e] fit(1) _ readyD(1-3) [OF ready] Cons_elem.prems(10-12)])
    show "is_circular type \<or> es = []"
      using Cons_elem.prems(4) by auto
  next
    fix names F' and ps :: "string \<Rightarrow> ptr" and nx
    assume *: "represents_members ms L view C type j names F'" "length names = length ms" "distinct names"
      "cells D j = Some (Struct_cell type (clear_indexes view c) False ps nx)" "\<And>n. n \<in> set names \<Longrightarrow> member_of C j n = Some (ps n)"
      "j \<notin> F'" "insert j F' \<subseteq> F"
    have r: "ready C G A X D F'"
      by (rule readyD(4) [OF ready]) (use *(7) in blast)
    have j: "\<forall>a\<in>A. a \<notin> X \<longrightarrow> j \<notin> G a"
      using readyD(3) [OF ready] *(7) by blast
    show "\<exists>D' X' ps'. decompress_task L (Members type j names) D = Some D' \<and> went kind succ store view C G A (insert j F') F' X D X' D'
        \<and> restored_members ms view (\<lambda>b. b \<in> X') (bin_defn_offset C) D' j names F'
        \<and> cells D' j = Some (Struct_cell type (clear_indexes view c) False ps' nx) \<and> (\<forall>n. n \<notin> set names \<longrightarrow> ps' n = ps n)"
      by (rule Cons_elem.IH(1) [unfolded e elem.case, rule_format, OF *(1-4) _ *(6) fit(3) load(1) Cons_elem.prems(7,8) r]) (use *(5) j in blast)+
  next
    fix k F2 X2 and D3 :: "'d decompress_state"
    assume *: "es \<noteq> []" "represents_elems es L view C type k F2" "X \<subseteq> X2" "underway kind store C G A X2 D3"
      "\<And>i. i \<in> F2 \<Longrightarrow> cells D3 i = cell_at C i" "F2 \<subseteq> F" "start \<notin> F2"
    have "card (A - X2) \<le> card (A - X)"
      by (rule card_mono) (use compressedD(3) [OF R] *(3) in auto)
    with Cons_elem.prems(8) have n: "card (A - X2) \<le> n"
      by simp
    have r: "ready C G A X2 D3 F2"
      using readyD(2,3) [OF ready] *(3,5,6) unfolding ready_def by blast
    have c: "is_circular type \<or> length es \<le> 1"
      using Cons_elem.prems(4) by auto
    show "\<exists>D' X'. decompress_task L (Elements type start k) D3 = Some D' \<and> went kind succ store view C G A F2 (insert start (F2 - {k})) X2 D3 X' D'
        \<and> restored_elems es view (\<lambda>b. b \<in> X') (bin_defn_offset C) D' type start k (insert start F2)"
      by (rule Cons_elem.IH(2) [OF *(2,1) fit(2) c load(2) Cons_elem.prems(6) *(4) n r _ Cons_elem.prems(11)])
        (use *(3,7) Cons_elem.prems(12) in blast)+
  qed
next
  case (Struct c ms t)
  show ?case
    using Struct.IH by simp
next
  case Nil_stmt
  then show ?case
    by (auto simp: task_Members intro!: went_refl)
next
  case (Cons_stmt m ms)
  from Cons_stmt.prems(2) obtain name names' where names: "names = name # names'"
    by (cases names) auto
  from Cons_stmt.prems(1) obtain r F1 F2 where rep: "represents m L view C r F1"
      "member_of C j name = Some (case r of None \<Rightarrow> NULLP | Some i \<Rightarrow> A2R (j + member_at L type name) i)"
      "represents_members ms L view C type j names' F2" and F: "F1 \<inter> F2 = {}" "F = F1 \<union> F2"
    unfolding represents_members.simps names list.sel by blast
  note ready = Cons_stmt.prems(11)
  have sub: "F1 \<subseteq> F" "F2 \<subseteq> F"
    using F by blast+
  note r1 = readyD(4) [OF ready sub(1)] and r2 = readyD(4) [OF ready sub(2)]
  have ps: "ps name = (case r of None \<Rightarrow> NULLP | Some i \<Rightarrow> A2R (j + member_at L type name) i)"
    using Cons_stmt.prems(5) [of name] rep(2) by (simp add: names)
  have j: "j \<notin> F1" "j \<notin> F2" "name \<notin> set names'"
    using Cons_stmt.prems(3,6) F(2) by (auto simp: names)
  have fit: "fits m A0 kind succ" "all_fit ms A0 kind succ" "loads m succ" "all_load ms succ"
    using Cons_stmt.prems(7,8) by simp_all
  show ?case
    unfolding names F(2)
  proof (rule members_step [OF R Cons_stmt.prems(9,4) j(1,2) Cons_stmt.prems(12) F(1) readyD(2) [OF r1] readyD(3) [OF r1] readyD(3) [OF r2]
        readyD(1) [OF r1] readyD(1) [OF r2] rep(1) ps j(3)])
    fix i and D1 :: "'d decompress_state"
    assume *: "r = Some i" "underway kind store C G A X D1" "\<And>i. i \<in> F1 \<Longrightarrow> cells D1 i = cell_at C i"
    have "ready C G A X D1 F1"
      using readyD(2,3) [OF r1] *(3) unfolding ready_def by blast
    with Cons_stmt.IH(1) [OF rep(1) [unfolded *(1)] fit(1,3) *(2) Cons_stmt.prems(10)]
    show "\<exists>D2 X2. decompress_task L (Helper i) D1 = Some D2 \<and> went kind succ store view C G A F1 F1 X D1 X2 D2
        \<and> restored m view (\<lambda>b. b \<in> X2) (bin_defn_offset C) D2 (Some i) F1"
      by blast
  next
    fix D2 :: "'d decompress_state" and X2 and ps2 :: "string \<Rightarrow> ptr"
    assume *: "X \<subseteq> X2" "underway kind store C G A X2 D2" "cells D2 j = Some (Struct_cell type c' sh ps2 nx)"
      "\<And>n. n \<in> set names' \<Longrightarrow> ps2 n = ps n" "\<And>i. i \<in> F2 \<Longrightarrow> cells D2 i = cell_at C i"
    have n: "card (A - X2) \<le> n"
    proof -
      have "card (A - X2) \<le> card (A - X)"
        by (rule card_mono) (use compressedD(3) [OF R] *(1) in auto)
      with Cons_stmt.prems(10) show ?thesis
        by simp
    qed
    have r: "ready C G A X2 D2 F2"
      using readyD(2,3) [OF r2] *(1,5) unfolding ready_def by blast
    have m: "member_of C j n = Some (ps2 n)" if "n \<in> set names'" for n
      using Cons_stmt.prems(5) [of n] *(4) [OF that] that by (simp add: names)
    have l: "length names' = length ms" "distinct names'"
      using Cons_stmt.prems(2,3) by (simp_all add: names)
    show "\<exists>D' X' ps'. decompress_task L (Members type j names') D2 = Some D' \<and> went kind succ store view C G A (insert j F2) F2 X2 D2 X' D'
        \<and> restored_members ms view (\<lambda>b. b \<in> X') (bin_defn_offset C) D' j names' F2
        \<and> cells D' j = Some (Struct_cell type c' sh ps' nx) \<and> (\<forall>n. n \<notin> set names' \<longrightarrow> ps' n = ps2 n)"
      by (rule Cons_stmt.IH(2) [OF rep(3) l *(3) m j(2) fit(2,4) *(2) n r]) (use Cons_stmt.prems(12) *(1) in blast)+
  qed
qed simp_all

lemma visits_work:
  fixes store :: "'d store"
  assumes R: "compressed L store kind succ view C A G A0"
  shows "visits L kind succ store view C G A n"
proof (induction n)
  case (Suc n)
  show ?case
    unfolding visits_def
  proof (intro allI impI)
    fix a X j names nx and D :: "'d decompress_state" and ps :: "string \<Rightarrow> ptr"
    assume U: "underway kind store C G A X D" and a: "a \<in> X" "bin_defn_offset C a = Offset j" and n: "card (A - X) < Suc n"
      and cell: "cells D j = Some (Struct_cell (kind a) (fst (store a)) False ps nx)" and ps: "\<forall>m. member_of C j m = Some (ps m)"
      and agree: "\<forall>i\<in>G a - {j}. cells D i = cell_at C i" and names: "compressed_members (kind a) (fst (store a)) = Some names"
    have A: "a \<in> A"
      using underwayD(1) [OF U] a(1) by blast
    have n': "card (A - X) \<le> n"
      using n by simp
    from compressedD(4) [OF R A a(2)] obtain F' where rep: "represents_members (snd (store a)) L view C (kind a) j names F'" and F': "j \<notin> F'" "G a = insert j F'"
      by (auto simp: represents_shared_def names)
    have len: "length names = length (snd (store a))"
      using compressedD(8) [OF R A] names by (simp add: members_fit_def)
    have r: "ready C G A X D F'"
      unfolding ready_def
    proof (intro conjI ballI impI)
      show "cells D i = cell_at C i" if "i \<in> F'" for i
        using agree that F' by blast
      show "F' \<inter> places C A = {}"
        using place_other [OF R A a(2)] F' by blast
      show "F' \<inter> G b = {}" if "b \<in> A" "b \<notin> X" for b
        using compressedD(5) [OF R A that(1)] a(1) that(2) F'(2) by blast
    qed
    have j: "j \<notin> G b" if "b \<in> A" "b \<notin> X" for b
      using compressedD(5) [OF R A that(1)] a(1) that(2) F'(2) by blast
    obtain D' X' ps' where "decompress_task L (Members (kind a) j names) D = Some D'" "went kind succ store view C G A (insert j F') F' X D X' D'"
        "restored_members (snd (store a)) view (\<lambda>b. b \<in> X') (bin_defn_offset C) D' j names F'"
        "cells D' j = Some (Struct_cell (kind a) (fst (store a)) False ps' nx)"
      using walk_restores(4) [OF R Suc rep len distinct_members [OF names] cell _ F'(1) compressedD(7,9) [OF R A] U n' r j] ps by blast
    moreover have "went kind succ store view C G A (G a) (G a) X D X' D'"
      by (rule went_subset [OF calculation(2)]) (use F' in blast)+
    moreover have "G a - {j} = F'"
      using F' by blast
    ultimately show "\<exists>D' X' ps'. decompress_task L (Members (kind a) j names) D = Some D' \<and> went kind succ store view C G A (G a) (G a) X D X' D'
        \<and> restored_members (snd (store a)) view (\<lambda>b. b \<in> X') (bin_defn_offset C) D' j names (G a - {j})
        \<and> cells D' j = Some (Struct_cell (kind a) (fst (store a)) False ps' nx)"
      by metis
  qed
qed (simp add: visits_def)


text \<open>The buffer of \<open>compress_statement\<close> is ready for decompression.\<close>

lemma buffer_ready:
  fixes store :: "'d store" and unique_ids :: "nat \<Rightarrow> int"
  assumes "fits stmt A kind succ" and "store_fits store A kind succ" and "store_loads store A kind succ" and "finite A" and "card A \<le> n"
    and "\<forall>a. offsets a = Initial" and "\<not> null_stmt stmt" and "0 < sizeof_SqlStatement L" and size: "\<And>type. 0 < sizeof L type"
  obtains b C A' G F where "compress_statement n L store stmt view offsets = Some (b, out_length C, C)" and "A' \<subseteq> A" and "compressed L store kind succ view C A' G A"
    and "represents stmt L view C (Some 0) F" and "\<forall>a\<in>A'. F \<inter> G a = {}" and "cell_at C = b"
    and "underway kind store C G A' {} (loaded b unique_ids max_unique_ids plan)" and "ready C G A' {} (loaded b unique_ids max_unique_ids plan) F"
proof -
  obtain b C F G
    where C: "compress_statement n L store stmt view offsets = Some (b, out_length C, C)" "out C = Some b"
      and rep: "represents stmt L view C (Some 0) F" and apart: "apart L store kind view C (\<lambda>a j. bin_defn_offset C a = Offset j) {..<out_length C} F G"
      and placed: "placed L kind succ C"
    by (rule compress_statement_represents [OF assms(1,2,4-8) size, of view])
  define A' where "A' = {a \<in> A. \<exists>j. bin_defn_offset C a = Offset j}"
  have A': "A' \<subseteq> A"
    by (auto simp: A'_def)
  have shared: "represents_shared L store kind view C a j (G a)" "F \<inter> G a = {}" if "a \<in> A'" "bin_defn_offset C a = Offset j" for a j
    using apartD(2,4) [OF apart] that(2) by blast+
  have apart_F: "F \<inter> G a = {}" if "a \<in> A'" for a
    using shared(2) that A'_def by blast
  have disjoint: "G a \<inter> G a' = {}" if "a \<in> A'" "a' \<in> A'" "a \<noteq> a'" for a a'
    using apartD(5) [OF apart] that unfolding A'_def by blast
  have R: "compressed L store kind succ view C A' G A"
    using placed shared disjoint assms(2-4) by (simp add: compressed_def A'_def)
  have cells: "cell_at C = b"
    by (rule ext) (simp add: cell_at_def C(2))
  have U: "underway kind store C G A' {} (loaded b unique_ids max_unique_ids plan)"
    by (simp add: underway_def cells)
  have "F \<inter> places C A' = {}"
    using place_own(1) [OF R] apart_F unfolding places_def by blast
  then have "ready C G A' {} (loaded b unique_ids max_unique_ids plan) F"
    using apart_F by (simp add: ready_def cells)
  with that [OF C(1) A' R rep _ cells U] apart_F show thesis
    by blast
qed

lemma decompress_restores:
  fixes store :: "'d store"
  assumes "fits stmt A kind succ" and "store_fits store A kind succ" and "loads stmt succ" and "store_loads store A kind succ" and "finite A" and "card A \<le> n"
    and "\<forall>a. offsets a = Initial" and "\<not> null_stmt stmt" and "0 < sizeof_SqlStatement L" and size: "\<And>type. 0 < sizeof L type"
  obtains b C D F G X where "compress_statement n L store stmt view offsets = Some (b, out_length C, C)"
    and "decompress_statement L b unique_ids max_unique_ids plan = Some D"
    and "restored stmt view (\<lambda>a. a \<in> X) (bin_defn_offset C) D (Some 0) F"
    and "\<And>a. a \<in> X \<Longrightarrow> restored_shared kind succ store view (\<lambda>a. a \<in> X) (bin_defn_offset C) D a (G a)"
    and "\<And>a. a \<in> X \<Longrightarrow> F \<inter> G a = {}" and "\<And>a a'. a \<in> X \<Longrightarrow> a' \<in> X \<Longrightarrow> a \<noteq> a' \<Longrightarrow> G a \<inter> G a' = {}" and "X \<subseteq> A"
    and "numbered (loaded b unique_ids max_unique_ids plan) D"
    and "\<And>a j. a \<in> X \<Longrightarrow> bin_defn_offset C a = Offset j \<Longrightarrow> \<exists>ps nx. b j = Some (Struct_cell (kind a) (fst (store a)) True ps nx)"
    and "\<And>a a' j. bin_defn_offset C a = Offset j \<Longrightarrow> bin_defn_offset C a' = Offset j \<Longrightarrow> a = a'"
proof -
  obtain b C A' G F where C: "compress_statement n L store stmt view offsets = Some (b, out_length C, C)" and A': "A' \<subseteq> A"
    and R: "compressed L store kind succ view C A' G A" and rep: "represents stmt L view C (Some 0) F" and F: "\<forall>a\<in>A'. F \<inter> G a = {}"
    and cells: "cell_at C = b" and U: "underway kind store C G A' {} (loaded b unique_ids max_unique_ids plan)"
    and ready: "ready C G A' {} (loaded b unique_ids max_unique_ids plan) F"
    by (rule buffer_ready [OF assms(1,2,4-9) size, of view unique_ids max_unique_ids plan])
  from walk_restores(1) [OF R visits_work [OF R] rep assms(1,3) U order_refl ready] obtain D X where
    D: "decompress_task L (Helper 0) (loaded b unique_ids max_unique_ids plan) = Some D"
      "went kind succ store view C G A' F F {} (loaded b unique_ids max_unique_ids plan) X D"
      "restored stmt view (\<lambda>a. a \<in> X) (bin_defn_offset C) D (Some 0) F"
    by blast
  have X: "X \<subseteq> A'"
    using went_enters [OF D(2)] by blast
  show thesis
  proof (rule that [OF C _ D(3)])
    show "decompress_statement L b unique_ids max_unique_ids plan = Some D"
      using D(1) by (simp add: decompress_statement_def)
    show "restored_shared kind succ store view (\<lambda>a. a \<in> X) (bin_defn_offset C) D a (G a)" if "a \<in> X" for a
      using wentD(6) [OF D(2) that] by simp
    show "F \<inter> G a = {}" if "a \<in> X" for a
      using F that X by blast
    show "G a \<inter> G a' = {}" if "a \<in> X" "a' \<in> X" "a \<noteq> a'" for a a'
      using compressedD(5) [OF R _ _ that(3)] that X by blast
    show "X \<subseteq> A"
      using X A' by blast
    show "numbered (loaded b unique_ids max_unique_ids plan) D"
      by (rule decompress_task_numbers [OF D(1)])
    show "\<exists>ps nx. b j = Some (Struct_cell (kind a) (fst (store a)) True ps nx)" if "a \<in> X" "bin_defn_offset C a = Offset j" for a j
    proof -
      have "a \<in> A'"
        using that(1) X by blast
      from compressedD(4) [OF R this that(2)] show ?thesis
        by (auto simp: represents_shared_def cells)
    qed
    show "a = a'" if "bin_defn_offset C a = Offset j" "bin_defn_offset C a' = Offset j" for a a' j
      by (rule baseD(4) [OF placedD(1) [OF compressedD(1) [OF R]] that])
  qed
qed

text \<open>
  After a join of set operations, one the right operand of the other, the \<open>max_unique_id\<close> of the first join is made of the pointers of the inner one, so that it
  depends on where the buffer is; no \<open>unique_id\<close> of a table alias has a part in it.
\<close>

lemma nested_set_operation_number:
  assumes J: "restored_elems es view seen at D join_STATEMENT j j F"
    and es: "es = Struct c (Statement set_operation_STATEMENT d (Struct c' [left, right, cl] t' # es2) # ms) t # es'" and right: "is_set_operation right"
  shows "\<exists>k c'' ps nx. cells D k = Some (Struct_cell set_operation_STATEMENT c'' False ps nx)
    \<and> set_max_unique_id L j D = Some (D\<lparr>max_unique_id := (max_unique_id D)(j :=
          unique_id_of_set_operation L (ps ''operand[0]'') (ps ''operand[1]'') (ps ''col_type_list_stmt'') + 1)\<rparr>)"
proof -
  obtain m where m: "m = Statement set_operation_STATEMENT d (Struct c' [left, right, cl] t' # es2)" and es': "es = Struct c (m # ms) t # es'"
    using es by blast
  from J obtain r where r': "restored m view seen at D r F" "pointer D j ''value'' = Some (case r of None \<Rightarrow> NULLP | Some i \<Rightarrow> Abs i)"
    by (auto simp: es' compressed_members_def)
  have "r \<noteq> None"
    using r'(1) by (auto simp: m)
  then obtain i where i: "r = Some i"
    by blast
  note r = r'(1) [unfolded i]
  have p: "statement_at D j ''value'' = Some i"
    using r'(2) by (simp add: i statement_at_def)
  from r obtain s ps nx r'' where s: "cells D i = Some (Stmt_cell set_operation_STATEMENT d (Abs s))"
      "cells D s = Some (Struct_cell set_operation_STATEMENT (clear_indexes view c') False ps nx)"
      and o: "restored right view seen at D r'' F" "pointer D s ''operand[1]'' = Some (case r'' of None \<Rightarrow> NULLP | Some i \<Rightarrow> Abs i)"
    by (auto simp: m compressed_members_def)
  obtain k where k: "r'' = Some k"
    using right o(1) by (cases right rule: is_set_operation.cases) auto
  from read_set_operation [OF o(1) [unfolded k] right, of L] obtain a c'' ps' nx' where
    a: "cells D a = Some (Struct_cell set_operation_STATEMENT c'' False ps' nx')"
      "read_unique_id L D k = Some (unique_id_of_set_operation L (ps' ''operand[0]'') (ps' ''operand[1]'') (ps' ''col_type_list_stmt''))"
    by blast
  then have "set_max_unique_id L j D = Some (D\<lparr>max_unique_id := (max_unique_id D)(j :=
      unique_id_of_set_operation L (ps' ''operand[0]'') (ps' ''operand[1]'') (ps' ''col_type_list_stmt'') + 1)\<rparr>)"
    using p s o(2) by (simp add: k set_max_unique_id_def unpack_def statement_at_def)
  with a(1) show ?thesis
    by blast
qed

section \<open>All that a statement leads to\<close>

text \<open>The shared structures that occur in a statement, and those that it leads to: through their members, and in a list through the next element.\<close>

primrec labels :: "'d stmt \<Rightarrow> nat set"
and elems_labels :: "'d elem list \<Rightarrow> nat set"
and elem_labels :: "'d elem \<Rightarrow> nat set"
and all_labels :: "'d stmt list \<Rightarrow> nat set" where
  "labels Null = {}"
| "labels (Data_type d t) = {}"
| "labels (Statement type d es) = elems_labels es"
| "elems_labels [] = {}"
| "elems_labels (e # es) = elem_labels e \<union> elems_labels es"
| "elem_labels (Struct c ms t) = all_labels ms"
| "elem_labels (Shared a) = {a}"
| "all_labels [] = {}"
| "all_labels (m # ms) = labels m \<union> all_labels ms"

inductive reached :: "(nat \<Rightarrow> SqlStatementType) \<Rightarrow> (nat \<Rightarrow> nat) \<Rightarrow> 'd store \<Rightarrow> 'd stmt \<Rightarrow> nat \<Rightarrow> bool"
  for kind succ store stmt where
  root: "a \<in> labels stmt \<Longrightarrow> reached kind succ store stmt a"
| member: "reached kind succ store stmt a \<Longrightarrow> b \<in> all_labels (snd (store a)) \<Longrightarrow> reached kind succ store stmt b"
| next_element: "reached kind succ store stmt a \<Longrightarrow> is_circular (kind a) \<Longrightarrow> reached kind succ store stmt (succ a)"

lemma shared_list_labels:
  assumes "\<And>a. a \<in> X \<Longrightarrow> is_circular (kind a) \<Longrightarrow> succ a \<in> X"
  shows "linked succ (Shared a # es) \<Longrightarrow> fit_elems (Shared a # es) A kind succ type \<Longrightarrow> is_circular type \<or> es = [] \<Longrightarrow> a \<in> X \<Longrightarrow>
    elems_labels (Shared a # es) \<subseteq> X"
proof (induction es arbitrary: a)
  case (Cons e es)
  then have e: "e = Shared (succ a)" "is_circular (kind a)"
    by auto
  with Cons.prems assms have "succ a \<in> X"
    by blast
  with Cons.IH [of "succ a"] Cons.prems e show ?case
    by simp
qed simp

lemma restored_labels:
  assumes "\<And>a. a \<in> X \<Longrightarrow> is_circular (kind a) \<Longrightarrow> succ a \<in> X"
  shows "restored s view (\<lambda>a. a \<in> X) at D r F \<Longrightarrow> fits s A kind succ \<Longrightarrow> labels s \<subseteq> X"
    and "restored_elems es view (\<lambda>a. a \<in> X) at D type start j F \<Longrightarrow> es \<noteq> [] \<Longrightarrow> fit_elems es A kind succ type \<Longrightarrow>
      is_circular type \<or> length es \<le> 1 \<Longrightarrow> linked succ es \<Longrightarrow> elems_labels es \<subseteq> X"
    and "restored_elem e view (\<lambda>a. a \<in> X) at D type j F \<Longrightarrow> fit_elem e A kind succ type \<Longrightarrow> elem_labels e \<subseteq> X"
    and "restored_members ms view (\<lambda>a. a \<in> X) at D j names F \<Longrightarrow> all_fit ms A kind succ \<Longrightarrow> all_labels ms \<subseteq> X"
proof (induction s and es and e and ms arbitrary: r and type start j and type j and j names
    rule: restored.induct restored_elems.induct restored_elem.induct restored_members.induct)
  case (Statement type d es)
  then show ?case
    by (cases "es = []") auto
next
  case (Cons_elem e es)
  show ?case
  proof (cases e)
    case (Shared a)
    have "elems_labels (Shared a # es) \<subseteq> X"
      by (rule shared_list_labels [OF assms _ Cons_elem.prems(3) [unfolded Shared]]) (use Cons_elem.prems Shared in auto)
    then show ?thesis
      by (simp add: Shared)
  next
    case (Struct c ms t)
    have 1: "elem_labels e \<subseteq> X"
      using Cons_elem.IH(1) [of type j] Cons_elem.prems(1,3) by (simp only: restored_elems.simps fit_elems.simps)
    have "elems_labels es \<subseteq> X"
    proof (cases "es = []")
      case False
      then have "is_circular type"
        using Cons_elem.prems(4) by (cases es) auto
      with Cons_elem.prems(1) False obtain k where k: "restored_elems es view (\<lambda>a. a \<in> X) at D type start k F"
        by (auto simp: Struct)
      have "linked succ es"
        using Cons_elem.prems(5) False by (cases es) auto
      with Cons_elem.IH(2) [OF k False] Cons_elem.prems(3) \<open>is_circular type\<close> show ?thesis
        by simp
    qed simp
    with 1 show ?thesis
      by simp
  qed
next
  case (Cons_stmt m ms)
  then obtain r where "restored m view (\<lambda>a. a \<in> X) at D r F" "restored_members ms view (\<lambda>a. a \<in> X) at D j (tl names) F"
    by auto
  with Cons_stmt.IH(1) [of r] Cons_stmt.IH(2) [of j "tl names"] Cons_stmt.prems(2) show ?case
    by simp
qed auto

lemma reached_seen:
  assumes "restored stmt view (\<lambda>a. a \<in> X) at D r F" and shared: "\<And>a. a \<in> X \<Longrightarrow> restored_shared kind succ store view (\<lambda>a. a \<in> X) at D a (G a)"
    and "fits stmt A kind succ" and "store_fits store A kind succ" and "X \<subseteq> A" and "reached kind succ store stmt a"
  shows "a \<in> X"
proof -
  have next': "succ a \<in> X" if "a \<in> X" "is_circular (kind a)" for a
    using shared [OF that(1)] that(2) by (auto simp: restored_shared_def)
  from assms(6) show ?thesis
  proof induction
    case (root a)
    then show ?case
      using restored_labels(1) [of X kind succ, OF next' assms(1,3)] by blast
  next
    case (member a b)
    from shared [OF member.IH] obtain j F' names where "restored_members (snd (store a)) view (\<lambda>a. a \<in> X) at D j names F'"
      by (auto simp: restored_shared_def)
    moreover have "all_fit (snd (store a)) A kind succ"
      using assms(4,5) member.IH by (auto simp: store_fits_def)
    ultimately show ?case
      using restored_labels(4) [of X kind succ, OF next'] member.hyps(2) by blast
  next
    case (next_element a)
    then show ?case
      using next' by blast
  qed
qed

section \<open>Properties\<close>

text \<open>C24: \<open>decompress_statement\<close> is the inverse of \<open>compress_statement\<close>: it returns, and then at the beginning of the buffer is the statement as
  it was, with absolute pointers, the elements of all lists linked in circles in both directions, and every table, column or alias that
  several statements point to once and whole, apart from the others.\<close>

theorem statement_survives:
  assumes "fits stmt A kind succ" and "store_fits store A kind succ" and "loads stmt succ" and "store_loads store A kind succ" and "finite A" and "card A \<le> n"
    and "\<forall>a. offsets a = Initial" and "\<not> null_stmt stmt" and "0 < sizeof_SqlStatement L" and "\<forall>type. 0 < sizeof L type"
  shows "\<exists>b len C D F G X. compress_statement n L store stmt view offsets = Some (b, len, C)
    \<and> decompress_statement L b unique_ids max_unique_ids plan = Some D
    \<and> restored stmt view (\<lambda>a. a \<in> X) (bin_defn_offset C) D (Some 0) F
    \<and> (\<forall>a\<in>X. restored_shared kind succ store view (\<lambda>a. a \<in> X) (bin_defn_offset C) D a (G a) \<and> F \<inter> G a = {} \<and> (\<forall>a'\<in>X. a \<noteq> a' \<longrightarrow> G a \<inter> G a' = {}))"
proof -
  from assms(10) have "\<And>type. 0 < sizeof L type"
    by simp
  then show ?thesis
  proof (rule decompress_restores [OF assms(1-9), of view unique_ids max_unique_ids plan], goal_cases)
    case (1 b C D X F G)
    from 1 show ?case
      by (intro exI [of _ b] exI [of _ "out_length C"] exI [of _ C] exI [of _ D] exI [of _ F] exI [of _ G] exI [of _ X] conjI ballI impI)
  qed
qed

lemma sample_loads: "loads sample_table sample_next" "store_loads sample_store {1, 2, 3} sample_kind sample_next"
  by (simp_all add: sample_defs store_loads_def is_circular_def is_keyword_list_def)

theorem statement_survives_witness:
  "\<exists>b len C D F G X. compress_statement 3 sample_layout sample_store sample_table True (\<lambda>_. Initial) = Some (b, len, C)
    \<and> decompress_statement sample_layout b (\<lambda>_. 0) (\<lambda>_. 0) 7 = Some D
    \<and> restored sample_table True (\<lambda>a. a \<in> X) (bin_defn_offset C) D (Some 0) F
    \<and> (\<forall>a\<in>X. restored_shared sample_kind sample_next sample_store True (\<lambda>a. a \<in> X) (bin_defn_offset C) D a (G a) \<and> F \<inter> G a = {}
        \<and> (\<forall>a'\<in>X. a \<noteq> a' \<longrightarrow> G a \<inter> G a' = {}))"
  by (rule statement_survives [OF sample_fits(1,2) sample_loads sample_fits(4,3) _ sample_fits(5,6)]) (simp_all add: sample_fits)

text \<open>A table alias, that of its parent, and their table.\<close>

definition alias_store :: "nat store" where
  "alias_store a =
     (if a = 2 then (Other 0, [sample_name ''T'', Null, Null, Null, Null])
      else (Other a, [Statement create_table_STATEMENT 0 [Shared 2], Null,
        if a = 1 then Statement table_alias_STATEMENT 0 [Shared 3] else Null, Null, Null, Null]))"

definition alias_kind :: "nat \<Rightarrow> SqlStatementType" where
  "alias_kind a = (if a = 2 then create_table_STATEMENT else table_alias_STATEMENT)"

definition sample_alias :: "nat stmt" where
  "sample_alias = Statement table_alias_STATEMENT 0 [Shared 1]"

lemma alias_fits:
  "fits sample_alias {1, 2, 3} alias_kind id" "store_fits alias_store {1, 2, 3} alias_kind id"
  "loads sample_alias id" "store_loads alias_store {1, 2, 3} alias_kind id" "\<not> null_stmt sample_alias"
proof -
  show "fits sample_alias {1, 2, 3} alias_kind id" "loads sample_alias id" "\<not> null_stmt sample_alias"
    by (simp_all add: sample_alias_def alias_kind_def is_shared_def is_circular_def null_stmt_def)
  show "store_fits alias_store {1, 2, 3} alias_kind id"
    by (simp add: store_fits_def alias_store_def alias_kind_def members_fit_def compressed_members_def sample_name_fits is_shared_def)
  show "store_loads alias_store {1, 2, 3} alias_kind id"
    by (simp add: store_loads_def alias_store_def alias_kind_def sample_name_def is_circular_def)
qed



end
