(* ===== verification/Spec2Isabelle.thy ===== *)
theory Spec2Isabelle
  imports DateFormat DateValidate CheckSession GeneratedNames MemoryChunk StatementCopy WherePushdown StatementRoundtrip
begin

text \<open>
  A verification library for YDBOcto, the SQL engine on YottaDB, in \<open>src/ydbocto-aux/src\<close>. It models C code: the
  external calls that the generated M programs use for dates and times, and those parts of the
  compiler from SQL to M that decide on types, on functions and on memory. The C sources outside of YDBOcto in
  the repository are an ODBC driver, an Apache module and test programs.

  How the parts interact. A query is parsed into statements, linked in circular lists (\<open>double_list.h\<close>) that live in memory
  chunks (\<open>memory_chunk.c\<close>). \<open>populate_data_type.c\<close> walks over them and calls a check for every operator and call: the
  checks give types, report errors, set the types of parameters and change operands. A function call is looked up among the
  definitions that CREATE FUNCTION stored in the database, through a cache of the process. The generated M code calls C for
  \<open>DATE_FORMAT\<close>, for literals of dates and times and for arithmetic on them.

  The theories, from the bottom:

  \<^item> \<open>Prelude\<close>: C strings and pointers into them, characters, \<open>strtol\<close>, \<open>%d\<close>.
  \<^item> \<open>CTime\<close>, \<open>CText\<close>: the calendar of the C library (\<open>gmtime\<close>, \<open>timegm\<close>), and what of \<open>strptime\<close> and
    \<open>strftime\<close> the sources use. The locale \<open>calendar\<close> has the laws of a pair of conversions; it is interpreted on the model.
  \<^item> \<open>DateWeek\<close>, \<open>DateFormat\<close>: \<open>aux/ydboctodateformat.c\<close>. Day numbers in the 32 bits of \<open>int\<close>, weekdays and weeks, then the parser of the
    date, the computation of the length, the expansion of the format and the external call \<open>ydboctoDateFormatC\<close>. The lemmas show
    that the text is MySQL's for all codes, that no write is outside the allocation, and that week numbers are those of
    the calendar.
  \<^item> \<open>DateMicro\<close>, \<open>DateOps\<close>, \<open>DateText\<close>, \<open>DateValidate\<close>: \<open>aux/ydboctodateoperations.c\<close>. The internal
    format with microseconds in one \<open>long\<close> (locale \<open>micro_codec\<close>), the casts, sums and differences, the conversion of text, and
    the validation of literals in all formats with the sticky \<open>errno\<close> as state (locale \<open>field_scanner\<close>, interpreted for each of
    the six fields). The local time zone is an argument, with what is used of \<open>mktime\<close> as a hypothesis.
  \<^item> \<open>OctoTypes\<close>: the enumerations of \<open>octo_types.h\<close>.
  \<^item> \<open>TypeCheck\<close>: the conversions between types, \<open>octo_type_check.h\<close>, \<open>ensure_same_type.c\<close> and
    \<open>unary_operation_data_type_check.c\<close>. The lemmas give the compatible types as a symmetric relation, show that the array of the
    types of parameters is never exceeded, and what an accepted operand is cast to.
  \<^item> \<open>Regex\<close>: \<open>regex_has_no_special_characters.c\<close>, with the meaning of \<open>LIKE\<close> patterns as its specification.
  \<^item> \<open>BinaryCheck\<close>: \<open>binary_operation_data_type_check.c\<close> and what it calls for comparisons of tables. The record
    \<open>binary\<close> is the statement with the local variables of the function, each block of the switch is a function on it. The
    lemmas: an invariant of the errors, the types of results, the exact verdict on comparisons and on sums.
  \<^item> \<open>OperatorTypes\<close>: the specification of these checks on operands that are no parameters: two orders on types, of which a list has a greatest
    element exactly when its types can be made the same, and tables of the types of operations. The lemmas show that the checks return and
    give their verdicts.
  \<^item> \<open>FunctionStore\<close>: \<open>store_function_definition.c\<close>, \<open>store_function_in_pg_proc.c\<close>, \<open>find_function.c\<close> and
    \<open>drop_schema_from_local_cache.c\<close>. The record \<open>session\<close> has the nodes in the database, which all processes share,
    and the cache and the allocated memory of one process; the counter of the length of a definition is an \<open>int\<close> that can overflow. \<open>reachable\<close> are its states under creates, drops and lookups with
    errors of the database at any call but those on local variables; the invariant \<open>wf_session\<close> makes the cache coherent.
  \<^item> \<open>FunctionLookup\<close>: \<open>function_definition_lookup.c\<close> and \<open>function_call_data_type_check.c\<close>, on any store with the
    contract of the locale \<open>function_store\<close>, which is interpreted on \<open>find_function\<close>.
  \<^item> \<open>CheckConstraint\<close>: \<open>qualify_check_constraint.c\<close> with \<open>find_column.c\<close>, the walk over the expression of a CHECK constraint that finds its
    columns and calls these checks. It is a partial function; the cases with calls of their own have the recursion as an argument.
  \<^item> \<open>CheckTyping\<close>, \<open>CheckSound\<close>, \<open>CheckSession\<close>: typing rules for these expressions, and the proof that the walk follows them. The contract of a call
    is the locale \<open>constraint_recursion\<close>, which each case keeps if the recursion does; it is interpreted on \<open>qualify_check_constraint\<close> with the
    store of \<open>FunctionStore\<close>. What is accepted is typed, only changed as \<open>revised\<close> allows, and has noted what it uses.
  \<^item> \<open>MemoryChunk\<close>: circular lists as maps from pointers to pointers, refined to lists of pointers (\<open>ring\<close>), and the
    allocator on top of them, with sizes of 64 bits.
  \<^item> \<open>Quoting\<close>: \<open>quoting.c\<close>, \<open>m_escape_string2.c\<close>, \<open>match_expression.c\<close> and \<open>describe_tablename_global.c\<close>. Memory is blocks of
    cells, so that a store outside of a block is seen. The lemmas: the round trip of quoting, the language of expressions
    of keys, and the exact input on which the array of a column's name overflows.
  \<^item> \<open>GeneratedNames\<close>: \<open>constraint_name_auto_generate.c\<close>, \<open>generate_name_type.c\<close> and \<open>ydb_hash_to_string.c\<close>: names of constraints that fit
    their buffer, and names of routines and globals that determine the hash they are made of.
  \<^item> \<open>StatementMatch\<close>, \<open>StatementCopy\<close>: \<open>match_sql_statement.c\<close> with its users for GROUP BY and SELECT DISTINCT, and
    \<open>copy_sql_statement.c\<close>. A statement is a finite tree of a datatype with the constructors of \<open>SqlStatementType\<close>; a circular
    list is the list of its elements from the first. The fields are those that are compared or copied one by one. Tables
    and columns, of which only the pointer is compared, are numbers, and the ORDER BY of a copy is that of its original; an ORDER BY that leads
    back to its statement, on which the comparison does not end, is not such a tree. The
    lemmas: comparison is equality up to \<open>essence\<close>; what can be copied, and when a copy matches.
  \<^item> \<open>WherePushdown\<close>: \<open>parse_tree_optimize.c\<close>, \<open>traverse_where_clause.c\<close>, \<open>move_where_clause_to_on_clause.c\<close> on these trees,
    against the rows of FROM and WHERE with three-valued conditions and all types of joins. The number
    that bounds the tables of a condition (\<open>hash_canonical_query_cycle\<close>) and the evaluation of conditions are arguments; the numbering
    of tables that \<open>octo_types.h\<close> promises at \<open>SqlJoin\<close> is a hypothesis.
  \<^item> \<open>BinaryForm\<close>, \<open>BinaryContents\<close>: \<open>compress_statement.c\<close>, for all types of statements. Here tables, columns and aliases have addresses,
    as several statements point to them, also in cycles; the members of a structure are a table of names by type. The buffer is a map
    from addresses to cells, and the sizes of the structures are an argument. The depth of nested shared structures is bounded by their
    number, as each is entered once. The lemmas: both passes go in step, the buffer is filled without gaps in use or overlaps,
    and what is in it represents the tree.
  \<^item> \<open>Decompress\<close>, \<open>StatementRoundtrip\<close>: \<open>decompress_statement.c\<close>, on the same cells. A step is a task on a state with the cells, the backward
    links and the numbers of table aliases; the walk follows pointers and is a partial function. The lemmas: on the buffer of
    \<open>compress_statement\<close> it returns and restores the tree with its circular lists; the numbers of all table aliases that are reached are new
    and different, while \<open>max_unique_id\<close> of a join of nested set operations is made of bytes of the wrong structure.

  Conventions. Errors are values: a check returns its result with the list of errors it reports. \<open>None\<close> is a failed \<open>assert\<close>, or
  an access outside of an array or to freed memory; that a function returns \<open>Some\<close> is therefore proved wherever a property says
  what the code does. Loops are recursion on what they run over. The loop of \<open>octo_cfree\<close>, which follows pointers, is a
  partial function, and a property says that it ends. Where the code breaks a promise the property states what it does instead, for
  instance \<open>DateOps.sub_date_time_lost_borrow\<close>, \<open>CheckConstraint.second_call_fails\<close>,
  \<open>FunctionStore.chunk_is_leaked\<close>.

  Not modelled. Places in error messages (\<open>yyerror\<close>), tracing, and the layout of structures in memory. In \<open>FunctionStore\<close> a parse tree is
  restored from the database by an argument of the definitions, of which \<open>StatementRoundtrip\<close> shows for the code that it can be one; the hash of a
  function's name and types, from a library of YottaDB, is an argument too. The grammar (flex and bison), and what walks over whole queries with
  the state of the parser (\<open>qualify_query.c\<close>, \<open>populate_data_type.c\<close>), need the table of all views and aliases and are left out; the checks
  that they call are here, and \<open>CheckConstraint\<close> is the same walk for constraints. The physical plans, the templates that print M, the storage of
  tables, views and settings, the automatic upgrade and the server for the PostgreSQL protocol are input and output of the database, of sockets or
  of text, and the ODBC driver, the Apache module and the test programs of YottaDB are programs of their own; none of them is modelled.
\<close>

end
